(* ===== verification/Rust_Prelude.thy ===== *)
theory Rust_Prelude
  imports Main "HOL-Library.Sublist" "HOL-Library.Multiset"
begin

text \<open>
  Shared vocabulary of the development: results with error messages, the operations of
  Rust's \<^verbatim>\<open>str\<close> that the sources use, paths, and the generic interfaces (printer/parser pairs
  and state invariants) that the components instantiate.

  A Rust \<^verbatim>\<open>str\<close> is its UTF-8 byte sequence, an Isabelle \<^typ>\<open>string\<close>. All separators the sources
  split at are ASCII, so byte-level and character-level splitting agree; trimming removes the
  encodings of all code points with the \<^verbatim>\<open>White_Space\<close> property, as \<^verbatim>\<open>str::trim\<close> does.
\<close>

section \<open>Results\<close>

text \<open>
  \<^verbatim>\<open>anyhow::Result<T>\<close>: an error is its message, without the values interpolated into it.
\<close>

type_synonym 'a res = "string + 'a"

named_theorems res_simps

text \<open>The \<^verbatim>\<open>?\<close> operator and \<^verbatim>\<open>Option::ok_or_else\<close>.\<close>

definition rbind :: "'e + 'a \<Rightarrow> ('a \<Rightarrow> 'e + 'b) \<Rightarrow> 'e + 'b" where
  "rbind x f = (case x of Inl e \<Rightarrow> Inl e | Inr v \<Rightarrow> f v)"

definition ok_or :: "'e \<Rightarrow> 'a option \<Rightarrow> 'e + 'a" where
  "ok_or e x = (case x of None \<Rightarrow> Inl e | Some v \<Rightarrow> Inr v)"

definition is_ok :: "'e + 'a \<Rightarrow> bool" where
  "is_ok x = (case x of Inl _ \<Rightarrow> False | Inr _ \<Rightarrow> True)"

lemma rbind_simps [simp, res_simps]:
  "rbind (Inl e) f = Inl e" "rbind (Inr v) f = f v"
  by (simp_all add: rbind_def)

lemma ok_or_simps [simp, res_simps]:
  "ok_or e None = Inl e" "ok_or e (Some v) = Inr v"
  by (simp_all add: ok_or_def)

lemma is_ok_simps [simp, res_simps]: "is_ok (Inr v)" "\<not> is_ok (Inl e)"
  by (simp_all add: is_ok_def)

lemma rbind_Inr_iff: "rbind x f = Inr y \<longleftrightarrow> (\<exists>v. x = Inr v \<and> f v = Inr y)"
  by (cases x) auto

lemma rbind_Inl_iff: "rbind x f = Inl e \<longleftrightarrow> x = Inl e \<or> (\<exists>v. x = Inr v \<and> f v = Inl e)"
  by (cases x) auto

lemma ok_or_Inr_iff: "ok_or e x = Inr v \<longleftrightarrow> x = Some v"
  by (cases x) auto

lemma is_ok_iff: "is_ok x \<longleftrightarrow> (\<exists>v. x = Inr v)"
  by (cases x) auto

text \<open>Collecting an iterator of results: the first error wins.\<close>

fun collect_res :: "('e + 'a) list \<Rightarrow> 'e + 'a list" where
  "collect_res [] = Inr []"
| "collect_res (x # xs) = rbind x (\<lambda>v. rbind (collect_res xs) (\<lambda>vs. Inr (v # vs)))"

lemma collect_res_Inr_iff: "collect_res xs = Inr vs \<longleftrightarrow> xs = map Inr vs"
  by (induction xs arbitrary: vs) (auto simp: rbind_Inr_iff)

section \<open>Strings\<close>

abbreviation NL :: char where "NL \<equiv> CHR 0x0A"
abbreviation CR :: char where "CR \<equiv> CHR 0x0D"
abbreviation SPC :: char where "SPC \<equiv> CHR 0x20"

named_theorems str_simps

text \<open>\<^verbatim>\<open>str::strip_prefix\<close>, \<^verbatim>\<open>strip_suffix\<close>, \<^verbatim>\<open>starts_with\<close>.\<close>

fun strip_prefix :: "'a list \<Rightarrow> 'a list \<Rightarrow> 'a list option" where
  "strip_prefix [] s = Some s"
| "strip_prefix (p # ps) [] = None"
| "strip_prefix (p # ps) (c # cs) = (if p = c then strip_prefix ps cs else None)"

definition strip_suffix :: "'a list \<Rightarrow> 'a list \<Rightarrow> 'a list option" where
  "strip_suffix p s = map_option rev (strip_prefix (rev p) (rev s))"

definition ends_with :: "'a list \<Rightarrow> 'a list \<Rightarrow> bool" where
  "ends_with p s = (strip_suffix p s \<noteq> None)"

definition starts_with :: "'a list \<Rightarrow> 'a list \<Rightarrow> bool" where
  "starts_with p s = (strip_prefix p s \<noteq> None)"

lemma strip_prefix_iff: "strip_prefix p s = Some r \<longleftrightarrow> s = p @ r"
  by (induction p s rule: strip_prefix.induct) auto

lemma strip_prefix_append [simp, str_simps]: "strip_prefix p (p @ r) = Some r"
  by (simp add: strip_prefix_iff)

lemma strip_prefix_None_iff: "strip_prefix p s = None \<longleftrightarrow> \<not> prefix p s"
  by (induction p s rule: strip_prefix.induct) auto

lemma strip_suffix_iff: "strip_suffix p s = Some r \<longleftrightarrow> s = r @ p"
proof -
  have "strip_suffix p s = Some r \<longleftrightarrow> strip_prefix (rev p) (rev s) = Some (rev r)"
    by (auto simp: strip_suffix_def)
  also have "\<dots> \<longleftrightarrow> rev s = rev (r @ p)" by (simp add: strip_prefix_iff)
  also have "\<dots> \<longleftrightarrow> s = r @ p" by (simp only: rev_is_rev_conv)
  finally show ?thesis .
qed

lemma strip_suffix_append [simp, str_simps]: "strip_suffix p (r @ p) = Some r"
  by (simp add: strip_suffix_iff)

lemma starts_with_iff: "starts_with p s \<longleftrightarrow> prefix p s"
  unfolding starts_with_def by (simp only: strip_prefix_None_iff not_not)

text \<open>\<^verbatim>\<open>str::split_once\<close> and \<^verbatim>\<open>rsplit_once\<close> at a single ASCII character, and \<^verbatim>\<open>split\<close>.\<close>

fun split_once :: "'a \<Rightarrow> 'a list \<Rightarrow> ('a list \<times> 'a list) option" where
  "split_once c [] = None"
| "split_once c (x # xs) =
     (if x = c then Some ([], xs) else map_option (\<lambda>(a, b). (x # a, b)) (split_once c xs))"

definition rsplit_once :: "'a \<Rightarrow> 'a list \<Rightarrow> ('a list \<times> 'a list) option" where
  "rsplit_once c s = map_option (\<lambda>(a, b). (rev b, rev a)) (split_once c (rev s))"

fun split_on :: "'a \<Rightarrow> 'a list \<Rightarrow> 'a list list" where
  "split_on c [] = [[]]"
| "split_on c (x # xs) =
     (if x = c then [] # split_on c xs
      else (case split_on c xs of [] \<Rightarrow> [[x]] | p # ps \<Rightarrow> (x # p) # ps))"

fun join_with :: "'a list \<Rightarrow> 'a list list \<Rightarrow> 'a list" where
  "join_with sep [] = []"
| "join_with sep [x] = x"
| "join_with sep (x # y # ys) = x @ sep @ join_with sep (y # ys)"

lemma split_once_append [simp, str_simps]: "c \<notin> set a \<Longrightarrow> split_once c (a @ c # b) = Some (a, b)"
  by (induction a) auto

lemma split_once_SomeD: "split_once c s = Some (a, b) \<Longrightarrow> s = a @ c # b \<and> c \<notin> set a"
  by (induction s arbitrary: a) (auto split: if_splits)

lemma split_once_Some_iff:
  "split_once c s = Some (a, b) \<longleftrightarrow> s = a @ c # b \<and> c \<notin> set a"
  using split_once_SomeD [of c s a b] by auto

lemma split_once_None_iff: "split_once c s = None \<longleftrightarrow> c \<notin> set s"
  by (induction s) auto

lemma rsplit_once_Some_iff:
  "rsplit_once c s = Some (a, b) \<longleftrightarrow> s = a @ c # b \<and> c \<notin> set b"
proof -
  have "rsplit_once c s = Some (a, b) \<longleftrightarrow> split_once c (rev s) = Some (rev b, rev a)"
    by (auto simp: rsplit_once_def)
  also have "\<dots> \<longleftrightarrow> rev s = rev (a @ c # b) \<and> c \<notin> set b"
    by (simp add: split_once_Some_iff)
  also have "\<dots> \<longleftrightarrow> s = a @ c # b \<and> c \<notin> set b" by (simp only: rev_is_rev_conv)
  finally show ?thesis .
qed

lemma rsplit_once_None_iff: "rsplit_once c s = None \<longleftrightarrow> c \<notin> set s"
  by (simp add: rsplit_once_def split_once_None_iff)

lemma split_on_not_Nil [simp]: "split_on c s \<noteq> []"
  by (induction s) (auto split: list.splits)

lemma split_on_no_sep [simp, str_simps]: "c \<notin> set s \<Longrightarrow> split_on c s = [s]"
  by (induction s) auto

lemma split_on_append [simp, str_simps]:
  "c \<notin> set a \<Longrightarrow> split_on c (a @ c # b) = a # split_on c b"
  by (induction a) auto

lemma split_on_parts: "p \<in> set (split_on c s) \<Longrightarrow> c \<notin> set p"
  by (induction s arbitrary: p) (auto split: list.splits if_splits)

lemma join_split_on [simp]: "join_with [c] (split_on c s) = s"
proof (induction s)
  case Nil
  then show ?case by simp
next
  case (Cons x xs)
  obtain p ps where p: "split_on c xs = p # ps"
    by (cases "split_on c xs") auto
  show ?case using Cons p by (cases ps) auto
qed

lemma split_on_join:
  assumes "ps \<noteq> []" and "\<forall>p \<in> set ps. c \<notin> set p"
  shows "split_on c (join_with [c] ps) = ps"
  using assms
proof (induction ps)
  case Nil
  then show ?case by simp
next
  case (Cons p ps)
  then show ?case by (cases ps) auto
qed

text \<open>
  \<^verbatim>\<open>str::lines\<close>: lines end at LF or CR LF, a final line need not be terminated, and a bare CR
  is kept.
\<close>

definition strip_cr :: "string \<Rightarrow> string" where
  "strip_cr l = (case strip_suffix [CR] l of None \<Rightarrow> l | Some r \<Rightarrow> r)"

function str_lines :: "string \<Rightarrow> string list" where
  "str_lines s =
     (if s = [] then []
      else (case dropWhile (\<lambda>c. c \<noteq> NL) s of
              [] \<Rightarrow> [s]
            | _ # rest \<Rightarrow> strip_cr (takeWhile (\<lambda>c. c \<noteq> NL) s) # str_lines rest))"
  by pat_completeness auto
termination
proof (relation "measure length")
  fix s :: string and x rest
  assume "dropWhile (\<lambda>c. c \<noteq> NL) s = x # rest"
  then have "Suc (length rest) = length (dropWhile (\<lambda>c. c \<noteq> NL) s)" by simp
  then show "(rest, s) \<in> measure length"
    using length_dropWhile_le [of "\<lambda>c. c \<noteq> NL" s] by simp
qed simp

declare str_lines.simps [simp del]

lemma str_lines_Nil [simp, str_simps]: "str_lines [] = []"
  by (simp add: str_lines.simps)

lemma str_lines_Cons [simp, str_simps]:
  assumes "NL \<notin> set l"
  shows "str_lines (l @ NL # rest) = strip_cr l # str_lines rest"
proof -
  have l: "\<forall>x \<in> set l. x \<noteq> NL" using assms by auto
  have t: "takeWhile (\<lambda>c. c \<noteq> NL) (l @ NL # rest) = l"
    using l by (induction l) auto
  have d: "dropWhile (\<lambda>c. c \<noteq> NL) (l @ NL # rest) = NL # rest"
    using l by (induction l) auto
  show ?thesis by (subst str_lines.simps) (simp only: t d, simp)
qed

lemma str_lines_last:
  assumes "NL \<notin> set l" and "l \<noteq> []"
  shows "str_lines l = [l]"
proof -
  have "dropWhile (\<lambda>c. c \<noteq> NL) l = []"
    using assms by (auto simp: dropWhile_eq_Nil_conv)
  then show ?thesis
    using assms by (subst str_lines.simps) (simp del: dropWhile_eq_Nil_conv)
qed

lemma strip_cr_id: "\<not> suffix [CR] l \<Longrightarrow> strip_cr l = l"
  by (auto simp: strip_cr_def strip_suffix_iff suffix_def split: option.splits)

text \<open>
  \<^verbatim>\<open>str::trim\<close>. The list holds the UTF-8 encodings of the code points with the
  \<^verbatim>\<open>White_Space\<close> property: U+0009 to U+000D, U+0020, U+0085, U+00A0, U+1680,
  U+2000 to U+200A, U+2028, U+2029, U+202F, U+205F and U+3000.
\<close>

definition utf8_ws :: "string list" where
  "utf8_ws =
     [[CHR 0x09], [CHR 0x0A], [CHR 0x0B], [CHR 0x0C], [CHR 0x0D], [CHR 0x20],
      [CHR 0xC2, CHR 0x85], [CHR 0xC2, CHR 0xA0], [CHR 0xE1, CHR 0x9A, CHR 0x80],
      [CHR 0xE2, CHR 0x80, CHR 0x80], [CHR 0xE2, CHR 0x80, CHR 0x81],
      [CHR 0xE2, CHR 0x80, CHR 0x82], [CHR 0xE2, CHR 0x80, CHR 0x83],
      [CHR 0xE2, CHR 0x80, CHR 0x84], [CHR 0xE2, CHR 0x80, CHR 0x85],
      [CHR 0xE2, CHR 0x80, CHR 0x86], [CHR 0xE2, CHR 0x80, CHR 0x87],
      [CHR 0xE2, CHR 0x80, CHR 0x88], [CHR 0xE2, CHR 0x80, CHR 0x89],
      [CHR 0xE2, CHR 0x80, CHR 0x8A], [CHR 0xE2, CHR 0x80, CHR 0xA8],
      [CHR 0xE2, CHR 0x80, CHR 0xA9], [CHR 0xE2, CHR 0x80, CHR 0xAF],
      [CHR 0xE2, CHR 0x81, CHR 0x9F], [CHR 0xE3, CHR 0x80, CHR 0x80]]"

fun strip_first :: "'a list list \<Rightarrow> 'a list \<Rightarrow> 'a list option" where
  "strip_first [] s = None"
| "strip_first (w # ws) s =
     (case strip_prefix w s of Some r \<Rightarrow> Some r | None \<Rightarrow> strip_first ws s)"

function strip_all :: "'a list list \<Rightarrow> 'a list \<Rightarrow> 'a list" where
  "strip_all ws s =
     (case strip_first ws s of
        None \<Rightarrow> s
      | Some r \<Rightarrow> if length r < length s then strip_all ws r else s)"
  by pat_completeness auto
termination
  by (relation "measure (\<lambda>(ws, s). length s)") auto

declare strip_all.simps [simp del]

definition trim_start :: "string \<Rightarrow> string" where
  "trim_start s = strip_all utf8_ws s"

definition trim_end :: "string \<Rightarrow> string" where
  "trim_end s = rev (strip_all (map rev utf8_ws) (rev s))"

definition trim :: "string \<Rightarrow> string" where
  "trim s = trim_end (trim_start s)"

text \<open>Strings that \<^verbatim>\<open>trim\<close> leaves alone at the front and at the end.\<close>

definition no_lead_ws :: "string \<Rightarrow> bool" where
  "no_lead_ws s = (\<forall>w \<in> set utf8_ws. \<not> prefix w s)"

definition no_trail_ws :: "string \<Rightarrow> bool" where
  "no_trail_ws s = (\<forall>w \<in> set utf8_ws. \<not> suffix w s)"

lemma strip_first_None_iff: "strip_first ws s = None \<longleftrightarrow> (\<forall>w \<in> set ws. \<not> prefix w s)"
  by (induction ws) (auto simp: strip_prefix_None_iff [symmetric] split: option.splits)

lemma strip_first_SomeD: "strip_first ws s = Some r \<Longrightarrow> \<exists>w \<in> set ws. s = w @ r"
  by (induction ws) (auto simp: strip_prefix_iff split: option.splits)

lemma strip_all_id: "\<forall>w \<in> set ws. \<not> prefix w s \<Longrightarrow> strip_all ws s = s"
  by (subst strip_all.simps) (simp add: strip_first_None_iff [symmetric])

lemma strip_all_no_prefix:
  assumes "[] \<notin> set ws"
  shows "\<forall>w \<in> set ws. \<not> prefix w (strip_all ws s)"
  using assms
proof (induction ws s rule: strip_all.induct)
  case (1 ws s)
  show ?case
  proof (cases "strip_first ws s")
    case None
    then have "strip_all ws s = s" by (subst strip_all.simps) simp
    with None show ?thesis by (simp add: strip_first_None_iff)
  next
    case (Some r)
    then obtain w where "w \<in> set ws" "s = w @ r" using strip_first_SomeD by blast
    with 1(2) have "length r < length s" by (cases w) auto
    with Some have "strip_all ws s = strip_all ws r" by (subst strip_all.simps) simp
    with 1 Some \<open>length r < length s\<close> show ?thesis by simp
  qed
qed

lemma suffix_conv_prefix_rev: "prefix (rev w) (rev s) \<longleftrightarrow> suffix w s"
  by (simp add: suffix_to_prefix)

lemma trim_id [str_simps]: "no_lead_ws s \<Longrightarrow> no_trail_ws s \<Longrightarrow> trim s = s"
  by (simp add: trim_def trim_start_def trim_end_def strip_all_id no_lead_ws_def no_trail_ws_def
      suffix_conv_prefix_rev)

lemma utf8_ws_nonempty: "[] \<notin> set utf8_ws"
  by (simp add: utf8_ws_def)

lemma trim_Nil [simp]: "trim [] = []"
  by (rule trim_id) (use utf8_ws_nonempty in \<open>auto simp: no_lead_ws_def no_trail_ws_def\<close>)

lemma utf8_ws_long: "w \<in> set utf8_ws \<Longrightarrow> SPC \<in> set w \<Longrightarrow> w = [SPC]"
  by (auto simp: utf8_ws_def)

lemma trim_end_no_trail: "no_trail_ws (trim_end s)"
proof -
  have "\<forall>w \<in> set (map rev utf8_ws). \<not> prefix w (strip_all (map rev utf8_ws) (rev s))"
    by (rule strip_all_no_prefix) (use utf8_ws_nonempty in auto)
  then show ?thesis
    by (auto simp: no_trail_ws_def trim_end_def suffix_to_prefix)
qed

text \<open>A key, a space and a trimmed value keep their end through \<^verbatim>\<open>trim\<close>.\<close>

lemma no_trail_key_value:
  assumes "no_trail_ws v" and "v \<noteq> []"
  shows "no_trail_ws (k @ SPC # v)"
  unfolding no_trail_ws_def
proof
  fix w assume w: "w \<in> set utf8_ws"
  show "\<not> suffix w (k @ SPC # v)"
  proof
    assume "suffix w (k @ SPC # v)"
    then have "suffix w v \<or> (\<exists>u. w = u @ SPC # v)"
      by (metis append_Cons append_Nil suffix_append suffix_Cons)
    moreover have "\<not> suffix w v" using assms(1) w by (simp add: no_trail_ws_def)
    ultimately obtain u where "w = u @ SPC # v" by blast
    then have "w = [SPC]" using utf8_ws_long [OF w] by simp
    with \<open>w = u @ SPC # v\<close> assms(2) show False by (cases u) auto
  qed
qed

text \<open>A first byte that starts no whitespace character.\<close>

definition solid :: "char \<Rightarrow> bool" where
  "solid c = (c \<notin> hd ` set utf8_ws)"

lemma no_lead_solid: "solid c \<Longrightarrow> no_lead_ws (c # s)"
  using utf8_ws_nonempty by (force simp: solid_def no_lead_ws_def prefix_Cons)

lemma solid_code [code, simp]:
  "solid c = (c \<notin> {CHR 0x09, CHR 0x0A, CHR 0x0B, CHR 0x0C, CHR 0x0D, CHR 0x20,
                    CHR 0xC2, CHR 0xE1, CHR 0xE2, CHR 0xE3})"
  by (auto simp: solid_def utf8_ws_def)

lemma no_lead_append: "k \<noteq> [] \<Longrightarrow> solid (hd k) \<Longrightarrow> no_lead_ws (k @ s)"
  by (cases k) (auto intro: no_lead_solid simp del: solid_code)

lemma strip_all_keeps_last:
  assumes "\<forall>w \<in> set ws. w \<noteq> [] \<longrightarrow> last w \<noteq> c"
  shows "s \<noteq> [] \<Longrightarrow> last s = c \<Longrightarrow> strip_all ws s \<noteq> []"
  using assms
proof (induction ws s rule: strip_all.induct)
  case (1 ws s)
  show ?case
  proof (cases "strip_first ws s")
    case (Some r)
    then obtain w where w: "w \<in> set ws" "s = w @ r" using strip_first_SomeD by blast
    show ?thesis
    proof (cases "length r < length s")
      case True
      then have "w \<noteq> []" using w by auto
      then have "r \<noteq> []" using w 1(2-4) by auto
      then have "strip_all ws r \<noteq> []" using 1 Some True w by simp
      with Some True show ?thesis by (subst strip_all.simps) simp
    next
      case False
      with Some 1(2) show ?thesis by (subst strip_all.simps) simp
    qed
  qed (use 1(2) in \<open>subst strip_all.simps, simp\<close>)
qed

lemma trim_start_solid: "solid c \<Longrightarrow> trim (c # s) \<noteq> []"
proof -
  assume c: "solid c"
  have "\<forall>w \<in> set (map rev utf8_ws). w \<noteq> [] \<longrightarrow> last w \<noteq> c"
    using c unfolding solid_def by (auto simp: last_rev)
  then have "strip_all (map rev utf8_ws) (rev (c # s)) \<noteq> []"
    by (rule strip_all_keeps_last) simp_all
  moreover have "trim_start (c # s) = c # s"
    using no_lead_solid [OF c] by (simp add: trim_start_def no_lead_ws_def strip_all_id)
  ultimately show ?thesis by (simp add: trim_def trim_end_def)
qed

text \<open>Absence of a substring.\<close>

lemma not_sublist_shorter: "length s < length t \<Longrightarrow> \<not> sublist t s"
  by (auto dest: sublist_length_le)

lemma not_sublist_fresh:
  assumes "c \<notin> set p"
  shows "\<not> sublist (c # t) (p @ butlast (c # t))"
proof
  assume "sublist (c # t) (p @ butlast (c # t))"
  then obtain a b where e: "p @ butlast (c # t) = a @ (c # t) @ b" by (auto simp: sublist_def)
  have "length p \<le> length a"
  proof (rule ccontr)
    assume n: "\<not> length p \<le> length a"
    then have "p ! length a = c"
      using arg_cong [OF e, of "\<lambda>l. l ! length a"] by (simp add: nth_append)
    then show False using assms n nth_mem [of "length a" p] by auto
  qed
  then show False using arg_cong [OF e, of length] by (simp split: if_splits)
qed

text \<open>The same for the last byte.\<close>

definition solid_end :: "char \<Rightarrow> bool" where
  "solid_end c = (c \<notin> last ` set utf8_ws)"

lemma no_trail_solid: "s \<noteq> [] \<Longrightarrow> solid_end (last s) \<Longrightarrow> no_trail_ws s"
  using utf8_ws_nonempty unfolding solid_end_def no_trail_ws_def suffix_def
  by (metis append_is_Nil_conv image_eqI last_appendR)

lemma solid_end_code [code, simp]:
  "solid_end c = (c \<notin> {CHR 0x09, CHR 0x0A, CHR 0x0B, CHR 0x0C, CHR 0x0D, CHR 0x20, CHR 0x85,
     CHR 0xA0, CHR 0x80, CHR 0x81, CHR 0x82, CHR 0x83, CHR 0x84, CHR 0x86, CHR 0x87, CHR 0x88,
     CHR 0x89, CHR 0x8A, CHR 0xA8, CHR 0xA9, CHR 0xAF, CHR 0x9F})"
  by (auto simp: solid_end_def utf8_ws_def)

text \<open>Decimal formatting of unsigned integers.\<close>

fun show_nat :: "nat \<Rightarrow> string" where
  "show_nat n =
     (if n < 10 then [char_of (48 + n)] else show_nat (n div 10) @ [char_of (48 + n mod 10)])"

declare show_nat.simps [simp del]

section \<open>Interfaces\<close>

text \<open>
  A printer and a parser for the same data. Every \<^verbatim>\<open>Display\<close>/\<^verbatim>\<open>FromStr\<close> pair and every
  escape/unescape pair of the sources that round-trips is an instance.
\<close>

locale codec =
  fixes valid :: "'a \<Rightarrow> bool"
    and enc :: "'a \<Rightarrow> 'b"
    and dec :: "'b \<Rightarrow> 'e + 'a"
  assumes dec_enc: "valid x \<Longrightarrow> dec (enc x) = Inr x"
begin

lemma enc_inj: "valid x \<Longrightarrow> valid y \<Longrightarrow> enc x = enc y \<Longrightarrow> x = y"
  by (metis dec_enc sum.inject(2))

lemma inj_on_enc: "inj_on enc (Collect valid)"
  by (auto intro: inj_onI enc_inj)

lemma map_dec_enc: "\<forall>x \<in> set xs. valid x \<Longrightarrow> collect_res (map (dec \<circ> enc) xs) = Inr xs"
  by (auto simp: collect_res_Inr_iff dec_enc)

end

text \<open>A state with an invariant that every operation of a component keeps.\<close>

locale stateful =
  fixes inv :: "'s \<Rightarrow> bool"
    and step :: "'op \<Rightarrow> 's \<Rightarrow> 's"
  assumes step_inv: "inv s \<Longrightarrow> inv (step a s)"
begin

lemma run_inv: "inv s \<Longrightarrow> inv (fold step ops s)"
  by (induction ops arbitrary: s) (auto intro: step_inv)

end

end
