(* ===== verification/Ref_Escape.thy ===== *)
theory Ref_Escape
  imports Rust_Prelude
begin

text \<open>
  The escaping of arbitrary strings into ostree ref names,
  \<^verbatim>\<open>crates/ostree-ext/src/refescape.rs\<close>. This code works on Unicode code points
  (\<^verbatim>\<open>str::chars\<close>, \<^verbatim>\<open>c as u32\<close>), so a string is the list of its code points here.
\<close>

section \<open>Definitions\<close>

type_synonym rchar = nat
type_synonym rstr = "rchar list"

text \<open>Unicode scalar values: what \<^verbatim>\<open>char::try_from(u32)\<close> accepts.\<close>

definition valid_char :: "rchar \<Rightarrow> bool" where
  "valid_char c = (c < 0xD800 \<or> (0xE000 \<le> c \<and> c \<le> 0x10FFFF))"

definition is_ascii_alphanumeric :: "rchar \<Rightarrow> bool" where
  "is_ascii_alphanumeric c = ((48 \<le> c \<and> c \<le> 57) \<or> (65 \<le> c \<and> c \<le> 90) \<or> (97 \<le> c \<and> c \<le> 122))"

abbreviation SLASH :: rchar where "SLASH \<equiv> 47"
abbreviation DASH :: rchar where "DASH \<equiv> 45"
abbreviation UNDERSCORE :: rchar where "UNDERSCORE \<equiv> 95"

text \<open>\<^verbatim>\<open>{:02X}\<close>: upper-case hexadecimal, zero-padded to two digits.\<close>

definition hex_digit :: "nat \<Rightarrow> rchar" where
  "hex_digit d = (if d < 10 then 48 + d else 55 + d)"

fun hex_upper :: "nat \<Rightarrow> rstr" where
  "hex_upper n = (if n < 16 then [hex_digit n] else hex_upper (n div 16) @ [hex_digit (n mod 16)])"

declare hex_upper.simps [simp del]

definition fmt_02X :: "nat \<Rightarrow> rstr" where
  "fmt_02X n = replicate (2 - length (hex_upper n)) 48 @ hex_upper n"

definition escape_c :: "rchar \<Rightarrow> rstr" where
  "escape_c c = UNDERSCORE # fmt_02X c @ [UNDERSCORE]"

text \<open>What the loop of \<^verbatim>\<open>escape_for_ref\<close> pushes for one character.\<close>

definition escape_push :: "bool \<Rightarrow> bool \<Rightarrow> rchar \<Rightarrow> rstr" where
  "escape_push previous_alphanumeric has_next c =
     (if is_ascii_alphanumeric c then [c]
      else if c = SLASH \<and> previous_alphanumeric \<and> has_next then [c]
      else if c = DASH then [c]
      else if c = UNDERSCORE then [UNDERSCORE, UNDERSCORE]
      else escape_c c)"

fun escape_loop :: "bool \<Rightarrow> rstr \<Rightarrow> rstr res" where
  "escape_loop previous_alphanumeric [] = Inr []"
| "escape_loop previous_alphanumeric (c # it) =
     (if c = 0 then Inl ''Invalid embedded NUL in string for ostree ref''
      else rbind (escape_loop (is_ascii_alphanumeric c) it)
             (\<lambda>r. Inr (escape_push previous_alphanumeric (it \<noteq> []) c @ r)))"

definition escape_for_ref :: "rstr \<Rightarrow> rstr res" where
  "escape_for_ref s =
     (if s = [] then Inl ''Invalid empty string for ref'' else escape_loop False s)"

definition prefix_escape_for_ref :: "rstr \<Rightarrow> rstr \<Rightarrow> rstr res" where
  "prefix_escape_for_ref pre s = rbind (escape_for_ref s) (\<lambda>e. Inr (pre @ SLASH # e))"

text \<open>
  \<^verbatim>\<open>u32::from_str_radix(_, 16)\<close>: an optional plus sign, then at least one digit; a digit that
  takes the value past \<^verbatim>\<open>u32::MAX\<close> is an error.
\<close>

definition hex_value :: "rchar \<Rightarrow> nat option" where
  "hex_value c =
     (if 48 \<le> c \<and> c \<le> 57 then Some (c - 48)
      else if 65 \<le> c \<and> c \<le> 70 then Some (c - 55)
      else if 97 \<le> c \<and> c \<le> 102 then Some (c - 87)
      else None)"

fun hex_accumulate :: "nat \<Rightarrow> rstr \<Rightarrow> nat res" where
  "hex_accumulate acc [] = Inr acc"
| "hex_accumulate acc (c # cs) =
     (case hex_value c of
        None \<Rightarrow> Inl ''invalid digit found in string''
      | Some d \<Rightarrow>
          if 2 ^ 32 \<le> acc * 16 + d then Inl ''number too large to fit in target type''
          else hex_accumulate (acc * 16 + d) cs)"

definition u32_from_str_radix16 :: "rstr \<Rightarrow> nat res" where
  "u32_from_str_radix16 s =
     (if s = [] then Inl ''cannot parse integer from empty string''
      else if s = [43] \<or> s = [45] then Inl ''invalid digit found in string''
      else if hd s = 43 then hex_accumulate 0 (tl s)
      else hex_accumulate 0 s)"

definition char_try_from :: "nat \<Rightarrow> rchar res" where
  "char_try_from v =
     (if valid_char v then Inr v else Inl ''converted integer out of range for `char`'')"

text \<open>The body of \<^verbatim>\<open>unescape_for_ref\<close>: \<^verbatim>\<open>for c in &mut it\<close> consumes the closing underscore.\<close>

function unescape_loop :: "rstr \<Rightarrow> rstr res" where
  "unescape_loop it =
     (case it of
        [] \<Rightarrow> Inr []
      | c # it \<Rightarrow>
          if is_ascii_alphanumeric c then rbind (unescape_loop it) (\<lambda>r. Inr (c # r))
          else if c = DASH \<or> c = SLASH then rbind (unescape_loop it) (\<lambda>r. Inr (c # r))
          else if c = UNDERSCORE then
            (case it of
               [] \<Rightarrow> Inr []
             | n # it \<Rightarrow>
                 if n = UNDERSCORE then rbind (unescape_loop it) (\<lambda>r. Inr (UNDERSCORE # r))
                 else rbind (u32_from_str_radix16 (n # takeWhile (\<lambda>x. x \<noteq> UNDERSCORE) it))
                   (\<lambda>v. rbind (char_try_from v)
                     (\<lambda>ch. rbind (unescape_loop (tl (dropWhile (\<lambda>x. x \<noteq> UNDERSCORE) it)))
                       (\<lambda>r. Inr (ch # r)))))
          else Inl ''Invalid character'')"
  by pat_completeness auto
termination
proof (relation "measure length")
  fix it :: rstr and c it' n it''
  show "(tl (dropWhile (\<lambda>x. x \<noteq> UNDERSCORE) it''), it) \<in> measure length"
    if "it = c # it'" "it' = n # it''"
    using that length_dropWhile_le [of "\<lambda>x. x \<noteq> UNDERSCORE" it''] by simp
qed auto

declare unescape_loop.simps [simp del]

definition unescape_for_ref :: "rstr \<Rightarrow> rstr res" where
  "unescape_for_ref s = unescape_loop s"

definition unprefix_unescape_ref :: "rstr \<Rightarrow> rstr \<Rightarrow> rstr res" where
  "unprefix_unescape_ref pre ostree_ref =
     rbind (ok_or ''ref does not match expected prefix''
              (Option.bind (strip_prefix pre ostree_ref) (strip_prefix [SLASH])))
       unescape_for_ref"

section \<open>Hexadecimal\<close>

lemma hex_upper_not_Nil: "hex_upper n \<noteq> []"
  by (subst hex_upper.simps) simp

lemma hex_digit_range: "d < 16 \<Longrightarrow> hex_digit d \<in> {48..57} \<union> {65..70}"
  by (auto simp: hex_digit_def)

lemma hex_value_digit [simp]: "d < 16 \<Longrightarrow> hex_value (hex_digit d) = Some d"
  by (auto simp: hex_value_def hex_digit_def)

lemma set_hex_upper: "set (hex_upper n) \<subseteq> {48..57} \<union> {65..70}"
proof (induction n rule: hex_upper.induct)
  case (1 n)
  have d: "hex_digit (n mod 16) \<in> {48..57} \<union> {65..70}"
    by (rule hex_digit_range) simp
  show ?case
  proof (cases "n < 16")
    case True
    then show ?thesis using hex_digit_range [of n] by (subst hex_upper.simps) simp
  next
    case False
    then show ?thesis using 1 d by (subst hex_upper.simps) simp
  qed
qed

lemma set_fmt_02X: "set (fmt_02X n) \<subseteq> {48..57} \<union> {65..70}"
  using set_hex_upper [of n] by (auto simp: fmt_02X_def)

lemma fmt_02X_not_Nil: "fmt_02X n \<noteq> []"
  by (simp add: fmt_02X_def hex_upper_not_Nil)

lemma hex_accumulate_append:
  "hex_accumulate acc (xs @ ys) = rbind (hex_accumulate acc xs) (\<lambda>a. hex_accumulate a ys)"
  by (induction xs arbitrary: acc) (auto split: option.splits)

lemma hex_accumulate_upper: "n < 2 ^ 32 \<Longrightarrow> hex_accumulate 0 (hex_upper n) = Inr n"
proof (induction n rule: hex_upper.induct)
  case (1 n)
  show ?case
  proof (cases "n < 16")
    case True
    then show ?thesis by (subst hex_upper.simps) simp
  next
    case False
    with 1 have "hex_accumulate 0 (hex_upper (n div 16)) = Inr (n div 16)" by auto
    with False 1(2) show ?thesis
      by (subst hex_upper.simps) (simp add: hex_accumulate_append)
  qed
qed

lemma hex_accumulate_zeros: "hex_accumulate 0 (replicate k 48 @ xs) = hex_accumulate 0 xs"
  by (induction k) (auto simp: hex_value_def)

lemma u32_fmt_02X:
  assumes "n < 2 ^ 32"
  shows "u32_from_str_radix16 (fmt_02X n) = Inr n"
proof -
  have "hd (fmt_02X n) \<in> {48..57} \<union> {65..70}"
    using set_fmt_02X fmt_02X_not_Nil by (meson hd_in_set subsetD)
  then have "hd (fmt_02X n) \<noteq> 43" "fmt_02X n \<noteq> [43]" "fmt_02X n \<noteq> [45]" by auto
  then show ?thesis
    using assms fmt_02X_not_Nil [of n]
    by (simp add: u32_from_str_radix16_def fmt_02X_def hex_accumulate_zeros hex_accumulate_upper)
qed

section \<open>Round trip\<close>

lemma valid_char_u32: "valid_char c \<Longrightarrow> c < 2 ^ 32"
  by (auto simp: valid_char_def)

lemma unescape_escape_c:
  assumes "valid_char c"
  shows "unescape_loop (escape_c c @ r) = rbind (unescape_loop r) (\<lambda>r. Inr (c # r))"
proof -
  obtain n ns where h: "fmt_02X c = n # ns"
    using fmt_02X_not_Nil by (cases "fmt_02X c") auto
  have no_us: "UNDERSCORE \<notin> set (n # ns)"
    using set_fmt_02X [of c] h by auto
  have t: "takeWhile (\<lambda>x. x \<noteq> UNDERSCORE) (ns @ UNDERSCORE # r) = ns"
    and d: "dropWhile (\<lambda>x. x \<noteq> UNDERSCORE) (ns @ UNDERSCORE # r) = UNDERSCORE # r"
    using no_us by (induction ns) auto
  have n: "n \<noteq> UNDERSCORE" using no_us by auto
  have "u32_from_str_radix16 (n # ns) = Inr c"
    using u32_fmt_02X [OF valid_char_u32 [OF assms]] h by simp
  then show ?thesis
    using assms h n t d
    by (subst unescape_loop.simps)
      (simp add: escape_c_def is_ascii_alphanumeric_def char_try_from_def)
qed

lemma unescape_push:
  assumes "valid_char c"
  shows "unescape_loop (escape_push p h c @ r) = rbind (unescape_loop r) (\<lambda>r. Inr (c # r))"
proof -
  have alnum: "unescape_loop (c # r) = rbind (unescape_loop r) (\<lambda>r. Inr (c # r))"
    if "is_ascii_alphanumeric c \<or> c = DASH \<or> c = SLASH"
    using that by (subst unescape_loop.simps) auto
  have us: "unescape_loop (UNDERSCORE # UNDERSCORE # r)
      = rbind (unescape_loop r) (\<lambda>r. Inr (UNDERSCORE # r))"
    by (subst unescape_loop.simps) (simp add: is_ascii_alphanumeric_def)
  show ?thesis
    using alnum us unescape_escape_c [OF assms] by (auto simp: escape_push_def)
qed

lemma escape_loop_roundtrip:
  assumes "\<forall>c \<in> set s. valid_char c" and "escape_loop p s = Inr e"
  shows "unescape_loop e = Inr s"
  using assms
proof (induction s arbitrary: p e)
  case Nil
  then show ?case by (simp add: unescape_loop.simps)
next
  case (Cons c s)
  from Cons.prems(2) obtain r where
    r: "escape_loop (is_ascii_alphanumeric c) s = Inr r" and e: "e = escape_push p (s \<noteq> []) c @ r"
    by (auto simp: rbind_Inr_iff split: if_splits)
  have "unescape_loop r = Inr s" using Cons.IH [OF _ r] Cons.prems(1) by simp
  then show ?case using Cons.prems(1) by (simp add: e unescape_push)
qed

lemma escape_loop_ok: "0 \<notin> set s \<Longrightarrow> \<exists>e. escape_loop p s = Inr e"
  by (induction s arbitrary: p) (auto simp: rbind_Inr_iff)

text \<open>The inputs that can be escaped, and the escaped text as a total function on them.\<close>

definition escapable :: "rstr \<Rightarrow> bool" where
  "escapable s = (s \<noteq> [] \<and> 0 \<notin> set s \<and> (\<forall>c \<in> set s. valid_char c))"

definition escaped :: "rstr \<Rightarrow> rstr \<Rightarrow> rstr" where
  "escaped pre s = (case prefix_escape_for_ref pre s of Inl _ \<Rightarrow> [] | Inr e \<Rightarrow> e)"

lemma escapable_escape:
  assumes "escapable s"
  obtains e where "escape_for_ref s = Inr e" and "unescape_for_ref e = Inr s"
  using assms escape_loop_ok [of s False] escape_loop_roundtrip [of s False]
  by (auto simp: escapable_def escape_for_ref_def unescape_for_ref_def)

interpretation ref_codec: codec escapable "escaped pre" "unprefix_unescape_ref pre"
  for pre :: rstr
proof
  fix s assume "escapable s"
  then obtain e where "escape_for_ref s = Inr e" and "unescape_for_ref e = Inr s"
    by (rule escapable_escape)
  then show "unprefix_unescape_ref pre (escaped pre s) = Inr s"
    by (simp add: escaped_def prefix_escape_for_ref_def unprefix_unescape_ref_def)
qed

section \<open>Shape of the escaped text\<close>

definition ref_char :: "rchar \<Rightarrow> bool" where
  "ref_char c = (is_ascii_alphanumeric c \<or> c = SLASH \<or> c = DASH \<or> c = UNDERSCORE)"

lemma escape_c_chars: "c' \<in> set (escape_c c) \<Longrightarrow> ref_char c' \<and> c' \<noteq> SLASH"
  using set_fmt_02X [of c] by (auto simp: escape_c_def ref_char_def is_ascii_alphanumeric_def)

lemma ref_char_push: "c' \<in> set (escape_push p h c) \<Longrightarrow> ref_char c'"
  using escape_c_chars [of c' c] by (auto simp: escape_push_def ref_char_def split: if_splits)

lemma escape_push_not_Nil: "escape_push p h c \<noteq> []"
  by (simp add: escape_push_def escape_c_def)

lemma slash_in_push:
  assumes "SLASH \<in> set (escape_push p h c)"
  shows "escape_push p h c = [SLASH]" and "c = SLASH" and "p" and "h"
  using assms escape_c_chars [of SLASH c]
  by (auto simp: escape_push_def is_ascii_alphanumeric_def split: if_splits)

lemma escape_loop_chars: "escape_loop p s = Inr e \<Longrightarrow> \<forall>c \<in> set e. ref_char c"
  by (induction s arbitrary: p e) (auto simp: rbind_Inr_iff ref_char_push split: if_splits)

text \<open>
  A slash is only passed through between an alphanumeric character and a later one: below, the
  text after \<^term>\<open>pre\<close> (which is known not to end in a slash) has no empty path component.
\<close>

fun no_empty_component :: "bool \<Rightarrow> rstr \<Rightarrow> bool" where
  "no_empty_component at_start [] = (\<not> at_start)"
| "no_empty_component at_start (c # cs) =
     (if c = SLASH then \<not> at_start \<and> no_empty_component True cs else no_empty_component False cs)"

lemma no_empty_component_split:
  "no_empty_component b s \<longleftrightarrow>
     (if b then [] \<notin> set (split_on SLASH s) else [] \<notin> set (tl (split_on SLASH s)))"
  by (induction s arbitrary: b) (auto split: list.splits)

lemma no_empty_component_solid:
  "SLASH \<notin> set u \<Longrightarrow> no_empty_component False (u @ r) = no_empty_component False r"
  by (induction u) auto

lemma no_empty_component_append:
  "SLASH \<notin> set u \<Longrightarrow> u \<noteq> [] \<Longrightarrow> no_empty_component b (u @ r) = no_empty_component False r"
  by (cases u) (simp_all add: no_empty_component_solid)

lemma escape_loop_components:
  assumes "escape_loop p s = Inr e" and "b \<longrightarrow> \<not> p" and "b \<longrightarrow> s \<noteq> []"
  shows "no_empty_component b e"
  using assms
proof (induction s arbitrary: p e b)
  case Nil
  then show ?case by simp
next
  case (Cons c s)
  from Cons.prems(1) obtain r where
    r: "escape_loop (is_ascii_alphanumeric c) s = Inr r" and e: "e = escape_push p (s \<noteq> []) c @ r"
    by (auto simp: rbind_Inr_iff split: if_splits)
  show ?case
  proof (cases "SLASH \<in> set (escape_push p (s \<noteq> []) c)")
    case True
    note slash = slash_in_push [OF True]
    have "no_empty_component True r"
      using slash Cons.IH [OF r, of True] by (simp add: is_ascii_alphanumeric_def)
    with slash Cons.prems show ?thesis by (simp add: e)
  next
    case False
    have "no_empty_component False r" using Cons.IH [OF r, of False] by simp
    with False show ?thesis
      by (simp add: e no_empty_component_append escape_push_not_Nil)
  qed
qed

section \<open>Properties\<close>

text \<open>
  C18. Every non-empty string without NUL characters can be escaped into an ostree ref under any
  prefix, and removing the prefix and unescaping gives exactly the original string.
\<close>

theorem refescape_roundtrip:
  assumes "s \<noteq> []" and "0 \<notin> set s" and "\<forall>c \<in> set s. valid_char c"
  shows "\<exists>e. prefix_escape_for_ref pre s = Inr e \<and> unprefix_unescape_ref pre e = Inr s"
proof -
  have s: "escapable s" using assms by (simp add: escapable_def)
  then obtain e where "escape_for_ref s = Inr e" by (rule escapable_escape)
  then have "prefix_escape_for_ref pre s = Inr (escaped pre s)"
    by (simp add: escaped_def prefix_escape_for_ref_def)
  with ref_codec.dec_enc [OF s] show ?thesis by blast
qed

theorem refescape_roundtrip_witness:
  "\<exists>e. prefix_escape_for_ref [112] [58, 47, 0x1F600] = Inr e
     \<and> unprefix_unescape_ref [112] e = Inr [58, 47, 0x1F600]"
  by (rule refescape_roundtrip) (simp_all add: valid_char_def)

text \<open>
  What the escaping produces is a valid ref name: only ASCII letters and digits, dash,
  underscore and slash occur in it, and no path component is empty (it neither starts nor ends
  with a slash and has no two slashes in a row). It fails exactly on the empty string and on
  strings with a NUL character.
\<close>

theorem refescape_valid_ref:
  "(is_ok (escape_for_ref s) \<longleftrightarrow> s \<noteq> [] \<and> 0 \<notin> set s)
   \<and> (escape_for_ref s = Inr e \<longrightarrow> (\<forall>c \<in> set e. ref_char c) \<and> [] \<notin> set (split_on SLASH e))"
proof (intro conjI impI)
  have "is_ok (escape_loop p s) \<Longrightarrow> 0 \<notin> set s" for p s
    by (induction s arbitrary: p) (auto simp: is_ok_iff rbind_Inr_iff split: if_splits)
  then show "is_ok (escape_for_ref s) \<longleftrightarrow> s \<noteq> [] \<and> 0 \<notin> set s"
    using escape_loop_ok [of s False] by (auto simp: escape_for_ref_def is_ok_iff)
next
  assume "escape_for_ref s = Inr e"
  then have e: "escape_loop False s = Inr e" and s: "s \<noteq> []"
    by (auto simp: escape_for_ref_def split: if_splits)
  show "\<forall>c \<in> set e. ref_char c" using e by (rule escape_loop_chars)
  have "no_empty_component True e" using e s by (intro escape_loop_components) auto
  then show "[] \<notin> set (split_on SLASH e)" by (simp add: no_empty_component_split)
qed

theorem refescape_valid_ref_witness:
  "escape_for_ref [47, 47] = Inr [95, 50, 70, 95, 95, 50, 70, 95]
   \<and> [] \<notin> set (split_on SLASH [95, 50, 70, 95, 95, 50, 70, 95])"
proof -
  have "escape_for_ref [47, 47] = Inr [95, 50, 70, 95, 95, 50, 70, 95]"
    by (simp add: escape_for_ref_def escape_push_def is_ascii_alphanumeric_def escape_c_def
        fmt_02X_def hex_upper.simps hex_digit_def)
  then show ?thesis using refescape_valid_ref [of "[47, 47]"] by blast
qed

end
