(* ===== verification/Rust_Collections.thy ===== *)
theory Rust_Collections
  imports Rust_Prelude "HOL-Library.List_Lexorder" "HOL-Library.Char_ord"
begin

text \<open>
  The ordered collections of Rust's standard library that the sources use: \<^verbatim>\<open>BTreeMap\<close> as an
  association list with ascending keys, \<^verbatim>\<open>BTreeSet\<close> as an ascending list, and the outcome type
  of code that can return an error or panic. Strings are ordered bytewise, as \<^verbatim>\<open>str\<close> is.
\<close>

section \<open>Outcomes\<close>

text \<open>An error value that is returned, or a panic that aborts the program.\<close>

datatype fault = Err string | Panic string

type_synonym 'a outcome = "fault + 'a"

section \<open>Ordered maps\<close>

type_synonym ('k, 'v) btree = "('k \<times> 'v) list"

definition bt_wf :: "('k::linorder, 'v) btree \<Rightarrow> bool" where
  "bt_wf m = sorted_wrt (<) (map fst m)"

text \<open>
  \<^verbatim>\<open>entry(k)\<close> followed by an update: \<^term>\<open>f\<close> gets the old value, if any. \<^verbatim>\<open>insert(k, v)\<close> is the
  instance that ignores it.
\<close>

fun bt_update :: "'k::linorder \<Rightarrow> ('v option \<Rightarrow> 'v) \<Rightarrow> ('k, 'v) btree \<Rightarrow> ('k, 'v) btree" where
  "bt_update k f [] = [(k, f None)]"
| "bt_update k f (e # m) =
     (if fst e = k then (k, f (Some (snd e))) # m
      else if k < fst e then (k, f None) # e # m
      else e # bt_update k f m)"

definition bt_insert :: "'k::linorder \<Rightarrow> 'v \<Rightarrow> ('k, 'v) btree \<Rightarrow> ('k, 'v) btree" where
  "bt_insert k v m = bt_update k (\<lambda>_. v) m"

definition bt_remove :: "'k \<Rightarrow> ('k, 'v) btree \<Rightarrow> ('k, 'v) btree" where
  "bt_remove k m = filter (\<lambda>e. fst e \<noteq> k) m"

abbreviation bt_get :: "('k, 'v) btree \<Rightarrow> 'k \<Rightarrow> 'v option" where
  "bt_get \<equiv> map_of"

text \<open>The interface its clients rely on.\<close>

locale ordered_map =
  fixes wf :: "'m \<Rightarrow> bool"
    and get :: "'m \<Rightarrow> 'k \<Rightarrow> 'v option"
    and upd :: "'k \<Rightarrow> ('v option \<Rightarrow> 'v) \<Rightarrow> 'm \<Rightarrow> 'm"
    and del :: "'k \<Rightarrow> 'm \<Rightarrow> 'm"
    and emp :: 'm
  assumes get_emp: "get emp k = None"
    and get_upd: "wf m \<Longrightarrow> get (upd k f m) = (get m)(k \<mapsto> f (get m k))"
    and get_del: "wf m \<Longrightarrow> get (del k m) = (get m)(k := None)"
    and wf_emp: "wf emp"
    and wf_upd: "wf m \<Longrightarrow> wf (upd k f m)"
    and wf_del: "wf m \<Longrightarrow> wf (del k m)"
begin

lemma wf_fold_upd: "wf m \<Longrightarrow> wf (fold (\<lambda>x. upd (k x) (f x)) xs m)"
  by (induction xs arbitrary: m) (auto intro: wf_upd)

lemma dom_upd: "wf m \<Longrightarrow> dom (get (upd k f m)) = insert k (dom (get m))"
  by (simp add: get_upd)

lemma dom_fold_upd: "wf m \<Longrightarrow> dom (get (fold (\<lambda>x. upd (k x) (f x)) xs m)) = dom (get m) \<union> k ` set xs"
  by (induction xs arbitrary: m) (auto simp: wf_upd dom_upd)

end

lemma fst_bt_update: "fst ` set (bt_update k f m) = insert k (fst ` set m)"
  by (induction m) auto

lemma bt_wf_update: "bt_wf m \<Longrightarrow> bt_wf (bt_update k f m)"
proof (induction m)
  case Nil
  then show ?case by (simp add: bt_wf_def)
next
  case (Cons e m)
  have "set (map fst (bt_update k f m)) = insert k (set (map fst m))"
    using fst_bt_update [of k f m] by simp
  then show ?case using Cons by (fastforce simp: bt_wf_def)
qed

lemma bt_wf_None: "bt_wf (e # m) \<Longrightarrow> k \<le> fst e \<Longrightarrow> map_of m k = None"
  by (fastforce simp: bt_wf_def map_of_eq_None_iff)

lemma map_of_bt_update:
  "bt_wf m \<Longrightarrow> map_of (bt_update k f m) = (map_of m)(k \<mapsto> f (map_of m k))"
proof (induction m)
  case Nil
  then show ?case by simp
next
  case (Cons e m)
  have wf: "bt_wf m" using Cons.prems by (simp add: bt_wf_def)
  show ?case
  proof (cases "k < fst e")
    case True
    then have "map_of m k = None" using bt_wf_None [OF Cons.prems] by simp
    with True show ?thesis by (cases e) auto
  next
    case False
    with Cons.IH [OF wf] show ?thesis by (cases e) auto
  qed
qed

lemma map_of_bt_remove: "map_of (bt_remove k m) = (map_of m)(k := None)"
  by (induction m) (auto simp: bt_remove_def)

lemma bt_wf_remove: "bt_wf m \<Longrightarrow> bt_wf (bt_remove k m)"
  by (induction m) (auto simp: bt_wf_def bt_remove_def)

lemma bt_wf_Nil [simp]: "bt_wf []"
  by (simp add: bt_wf_def)

interpretation bt: ordered_map bt_wf map_of bt_update bt_remove "[]"
  by unfold_locales (auto simp: map_of_bt_update map_of_bt_remove intro: bt_wf_update bt_wf_remove)

lemma bt_wf_distinct: "bt_wf m \<Longrightarrow> distinct (map fst m)"
  unfolding bt_wf_def using strict_sorted_iff by blast

lemma bt_get_in_set: "bt_wf m \<Longrightarrow> bt_get m k = Some v \<longleftrightarrow> (k, v) \<in> set m"
  using bt_wf_distinct map_of_eq_Some_iff by metis

text \<open>What pushing onto the list stored at a key does to all the stored elements.\<close>

definition bt_push :: "'k::linorder \<Rightarrow> 'a \<Rightarrow> ('k, 'a list) btree \<Rightarrow> ('k, 'a list) btree" where
  "bt_push k x m = bt_update k (\<lambda>old. case old of None \<Rightarrow> [x] | Some xs \<Rightarrow> xs @ [x]) m"

lemma mset_bt_push: "mset (concat (map snd (bt_push k x m))) = add_mset x (mset (concat (map snd m)))"
  unfolding bt_push_def by (induction m) auto

lemma mset_bt_push_all:
  "mset (concat (map snd (fold (\<lambda>x. bt_push (k x) x) xs m))) = mset xs + mset (concat (map snd m))"
  by (induction xs arbitrary: m) (simp_all add: mset_bt_push)

lemma mset_bt_insert_new:
  "bt_get m k = None \<Longrightarrow>
     mset (concat (map snd (bt_insert k v m))) = mset v + mset (concat (map snd m))"
  unfolding bt_insert_def by (induction m) (auto split: if_splits)

lemma mset_bt_remove:
  assumes "bt_wf m" and "bt_get m k = Some v"
  shows "mset m = add_mset (k, v) (mset (bt_remove k m))"
  using assms
proof (induction m)
  case Nil
  then show ?case by simp
next
  case (Cons e m)
  have wf: "bt_wf m" using Cons.prems by (simp add: bt_wf_def)
  show ?case
  proof (cases "fst e = k")
    case True
    then have "\<forall>x \<in> set m. fst x \<noteq> k"
      using bt_wf_distinct [OF Cons.prems(1)] by (auto simp: image_iff)
    then have "bt_remove k m = m" by (simp add: bt_remove_def)
    with True Cons.prems(2) show ?thesis by (cases e) (simp add: bt_remove_def)
  next
    case False
    then show ?thesis using Cons.IH [OF wf] Cons.prems(2) by (cases e) (simp add: bt_remove_def)
  qed
qed

lemma mset_bt_update_new:
  "bt_get m k = None \<Longrightarrow> mset (bt_update k f m) = add_mset (k, f None) (mset m)"
  by (induction m) (auto split: if_splits)

lemma mset_bt_update_old:
  "bt_wf m \<Longrightarrow> bt_get m k = Some v \<Longrightarrow>
     mset (bt_update k f m) = add_mset (k, f (Some v)) (mset (bt_remove k m))"
proof (induction m)
  case Nil
  then show ?case by simp
next
  case (Cons e m)
  have wf: "bt_wf m" using Cons.prems by (simp add: bt_wf_def)
  show ?case
  proof (cases "fst e = k")
    case True
    then have "\<forall>x \<in> set m. fst x \<noteq> k"
      using bt_wf_distinct [OF Cons.prems(1)] by (auto simp: image_iff)
    then have "bt_remove k m = m" by (simp add: bt_remove_def)
    with True Cons.prems(2) show ?thesis by (cases e) (simp add: bt_remove_def)
  next
    case False
    then have some: "map_of m k = Some v" using Cons.prems(2) by (cases e) auto
    have "\<not> k < fst e" using bt_wf_None [OF Cons.prems(1), of k] some by force
    with False show ?thesis using Cons.IH [OF wf some] by (simp add: bt_remove_def)
  qed
qed

section \<open>Ordered sets\<close>

definition btset :: "'a::linorder list \<Rightarrow> 'a list" where
  "btset xs = sort (remdups xs)"

lemma set_btset [simp]: "set (btset xs) = set xs"
  by (simp add: btset_def)

lemma distinct_btset [simp]: "distinct (btset xs)"
  by (simp add: btset_def)

lemma sorted_btset [simp]: "sorted (btset xs)"
  by (simp add: btset_def)

text \<open>\<^verbatim>\<open>BTreeSet::difference\<close>, in ascending order.\<close>

definition bt_difference :: "'a list \<Rightarrow> 'a list \<Rightarrow> 'a list" where
  "bt_difference xs ys = filter (\<lambda>x. x \<notin> set ys) xs"

lemma set_bt_difference [simp]: "set (bt_difference xs ys) = set xs - set ys"
  by (auto simp: bt_difference_def)

section \<open>Comparators and sorting\<close>

text \<open>\<^verbatim>\<open>std::cmp::Ordering\<close> and \<^verbatim>\<open>reverse\<close>.\<close>

datatype ordering = Less | Equal | Greater

fun ord_reverse :: "ordering \<Rightarrow> ordering" where
  "ord_reverse Less = Greater"
| "ord_reverse Equal = Equal"
| "ord_reverse Greater = Less"

text \<open>\<^verbatim>\<open>Ord::cmp\<close> of a linearly ordered type, such as strings.\<close>

definition ord_cmp :: "'a::linorder \<Rightarrow> 'a \<Rightarrow> ordering" where
  "ord_cmp a b = (if a < b then Less else if a = b then Equal else Greater)"

text \<open>\<^verbatim>\<open>slice::sort_by\<close>: a stable sort, here by insertion.\<close>

fun insert_by :: "('a \<Rightarrow> 'a \<Rightarrow> ordering) \<Rightarrow> 'a \<Rightarrow> 'a list \<Rightarrow> 'a list" where
  "insert_by cmp x [] = [x]"
| "insert_by cmp x (y # ys) = (if cmp x y = Greater then y # insert_by cmp x ys else x # y # ys)"

definition sort_by :: "('a \<Rightarrow> 'a \<Rightarrow> ordering) \<Rightarrow> 'a list \<Rightarrow> 'a list" where
  "sort_by cmp xs = foldr (insert_by cmp) xs []"

lemma ord_reverse_reverse [simp]: "ord_reverse (ord_reverse r) = r"
  by (cases r) auto

lemma ord_reverse_eq_iff [simp]:
  "ord_reverse r = Less \<longleftrightarrow> r = Greater" "ord_reverse r = Equal \<longleftrightarrow> r = Equal"
  "ord_reverse r = Greater \<longleftrightarrow> r = Less"
  by (cases r; simp)+

lemma ord_cmp_eq_iff [simp]:
  "ord_cmp a b = Less \<longleftrightarrow> a < b" "ord_cmp a b = Equal \<longleftrightarrow> a = b" "ord_cmp a b = Greater \<longleftrightarrow> b < a"
  by (auto simp: ord_cmp_def)

lemma mset_insert_by [simp]: "mset (insert_by cmp x ys) = add_mset x (mset ys)"
  by (induction ys) auto

lemma mset_sort_by [simp]: "mset (sort_by cmp xs) = mset xs"
  by (induction xs) (auto simp: sort_by_def)

lemma set_sort_by [simp]: "set (sort_by cmp xs) = set xs"
  by (rule mset_eq_setD) simp

lemma set_insert_by [simp]: "set (insert_by cmp x ys) = insert x (set ys)"
  by (induction ys) auto

text \<open>What \<^verbatim>\<open>sort_by\<close> requires of its comparison on the elements it is given.\<close>

locale comparator =
  fixes carrier :: "'a set"
    and cmp :: "'a \<Rightarrow> 'a \<Rightarrow> ordering"
  assumes cmp_sym: "a \<in> carrier \<Longrightarrow> b \<in> carrier \<Longrightarrow> cmp b a = ord_reverse (cmp a b)"
    and cmp_trans: "a \<in> carrier \<Longrightarrow> b \<in> carrier \<Longrightarrow> c \<in> carrier \<Longrightarrow>
      cmp a b \<noteq> Greater \<Longrightarrow> cmp b c \<noteq> Greater \<Longrightarrow> cmp a c \<noteq> Greater"
begin

lemma insert_by_sorted:
  "x \<in> carrier \<Longrightarrow> set ys \<subseteq> carrier \<Longrightarrow> sorted_wrt (\<lambda>a b. cmp a b \<noteq> Greater) ys \<Longrightarrow>
   sorted_wrt (\<lambda>a b. cmp a b \<noteq> Greater) (insert_by cmp x ys)"
proof (induction ys)
  case (Cons y ys)
  show ?case
  proof (cases "cmp x y = Greater")
    case True
    then have "cmp y x \<noteq> Greater" using Cons.prems cmp_sym [of x y] by auto
    with True Cons show ?thesis by auto
  next
    case False
    then have "\<forall>z \<in> set ys. cmp x z \<noteq> Greater" using Cons.prems cmp_trans [of x y] by auto
    with False Cons.prems show ?thesis by auto
  qed
qed simp

lemma sort_by_sorted:
  "set xs \<subseteq> carrier \<Longrightarrow> sorted_wrt (\<lambda>a b. cmp a b \<noteq> Greater) (sort_by cmp xs)"
proof (induction xs)
  case (Cons x xs)
  moreover have "set (sort_by cmp xs) \<subseteq> carrier" using Cons.prems by simp
  ultimately have "sorted_wrt (\<lambda>a b. cmp a b \<noteq> Greater) (insert_by cmp x (sort_by cmp xs))"
    using insert_by_sorted [of x "sort_by cmp xs"] by simp
  then show ?case by (simp add: sort_by_def)
qed (simp add: sort_by_def)

end

text \<open>Reversing a comparison keeps the contract; so does comparing keys.\<close>

lemma comparator_reverse:
  assumes "comparator carrier cmp"
  shows "comparator carrier (\<lambda>a b. ord_reverse (cmp a b))"
proof
  fix a b assume "a \<in> carrier" "b \<in> carrier"
  then show "ord_reverse (cmp b a) = ord_reverse (ord_reverse (cmp a b))"
    using comparator.cmp_sym [OF assms] by metis
next
  fix a b c assume c: "a \<in> carrier" "b \<in> carrier" "c \<in> carrier"
    and "ord_reverse (cmp a b) \<noteq> Greater" "ord_reverse (cmp b c) \<noteq> Greater"
  then have "cmp c b \<noteq> Greater" "cmp b a \<noteq> Greater"
    using comparator.cmp_sym [OF assms c(1,2)] comparator.cmp_sym [OF assms c(2,3)] by auto
  then have "cmp c a \<noteq> Greater" using comparator.cmp_trans [OF assms c(3,2,1)] by simp
  then show "ord_reverse (cmp a c) \<noteq> Greater"
    using comparator.cmp_sym [OF assms c(1,3)] by auto
qed

lemma comparator_key: "comparator carrier (\<lambda>a b. ord_cmp (f a) (f b))"
  by unfold_locales (auto simp: ord_cmp_def split: if_splits)

interpretation str_order: comparator UNIV "ord_cmp :: string \<Rightarrow> string \<Rightarrow> ordering"
  using comparator_key [of UNIV "\<lambda>s. s"] by simp

end
