(* ===== verification/Chunking.thy ===== *)
theory Chunking
  imports Rust_Collections Complex_Main
begin

text \<open>
  Splitting an ostree commit into container layers: \<^verbatim>\<open>crates/ostree-ext/src/chunking.rs\<close>,
  \<^verbatim>\<open>statistics.rs\<close> and \<^verbatim>\<open>objectsource.rs\<close>.

  Floating-point arithmetic is a parameter, \<^verbatim>\<open>float_ops\<close>: the definitions say which operations the
  code applies, and the theorems hold for every arithmetic (IEEE double precision included). The
  single-precision expression \<^verbatim>\<open>(0.6 * x as f32).floor() as usize\<close> is the field \<^verbatim>\<open>high_cut\<close>.
  Byte counts are natural numbers; the additions of \<^verbatim>\<open>u64\<close> values that can overflow and the subtractions of \<^verbatim>\<open>u32\<close> and
  \<^verbatim>\<open>usize\<close> values that can underflow are
  checked (a panic) or wrap around, depending on the build profile (\<^verbatim>\<open>ovf\<close>).
\<close>

section \<open>Component metadata\<close>

record object_source_meta =
  content_id :: string
  meta_name :: string
  srcid :: string
  change_time_offset :: nat
  change_frequency :: nat

record object_source_meta_sized =
  meta :: object_source_meta
  size_of :: nat

definition u32_max :: nat where "u32_max = 2 ^ 32 - 1"

definition MAX_CHUNKS :: nat where "MAX_CHUNKS = 64"
definition MIN_CHUNKED_LAYERS :: nat where "MIN_CHUNKED_LAYERS = 4"
definition LOW_PARTITION :: string where "LOW_PARTITION = ''2ls''"
definition HIGH_PARTITION :: string where "HIGH_PARTITION = ''1hs''"

section \<open>Statistics\<close>

record 'f float_ops =
  of_u64 :: "nat \<Rightarrow> 'f"
  f_half :: 'f
  f_two :: 'f
  f_zero :: 'f
  fadd :: "'f \<Rightarrow> 'f \<Rightarrow> 'f"
  fsub :: "'f \<Rightarrow> 'f \<Rightarrow> 'f"
  fmul :: "'f \<Rightarrow> 'f \<Rightarrow> 'f"
  fdiv :: "'f \<Rightarrow> 'f \<Rightarrow> 'f"
  f_abs :: "'f \<Rightarrow> 'f"
  f_sqrt :: "'f \<Rightarrow> 'f"
  fle :: "'f \<Rightarrow> 'f \<Rightarrow> bool"
  high_cut :: "nat \<Rightarrow> nat"

text \<open>Addition of \<^verbatim>\<open>u64\<close> values, and \<^verbatim>\<open>iter().sum::<u64>()\<close>.\<close>

definition uadd :: "bool \<Rightarrow> nat \<Rightarrow> nat \<Rightarrow> nat outcome" where
  "uadd ovf a b =
     (if a + b < 2 ^ 64 then Inr (a + b)
      else if ovf then Inl (Panic ''attempt to add with overflow'')
      else Inr ((a + b) mod 2 ^ 64))"

fun usum :: "bool \<Rightarrow> nat \<Rightarrow> nat list \<Rightarrow> nat outcome" where
  "usum ovf acc [] = Inr acc"
| "usum ovf acc (x # xs) = rbind (uadd ovf acc x) (\<lambda>acc. usum ovf acc xs)"

text \<open>The operator \<^verbatim>\<open>?\<close> on an optional value, in a function that may panic.\<close>

definition opt_try :: "'a option outcome \<Rightarrow> ('a \<Rightarrow> 'b option outcome) \<Rightarrow> 'b option outcome" where
  "opt_try x f = rbind x (\<lambda>r. case r of None \<Rightarrow> Inr None | Some v \<Rightarrow> f v)"

definition mean :: "'f float_ops \<Rightarrow> bool \<Rightarrow> nat list \<Rightarrow> 'f option outcome" where
  "mean F ovf data =
     (if data = [] then Inr None
      else rbind (usum ovf 0 data) (\<lambda>total. Inr (Some (fdiv F (of_u64 F total) (of_u64 F (length data))))))"

definition std_deviation :: "'f float_ops \<Rightarrow> bool \<Rightarrow> nat list \<Rightarrow> 'f option outcome" where
  "std_deviation F ovf data =
     rbind (mean F ovf data) (\<lambda>m.
     Inr (case m of
        Some data_mean \<Rightarrow>
          if length data > 0 then
            Some (f_sqrt F (fdiv F
              (foldl (fadd F) (f_zero F)
                 (map (\<lambda>v. let diff = fsub F data_mean (of_u64 F v) in fmul F diff diff) data))
              (of_u64 F (length data))))
          else None
      | None \<Rightarrow> None))"

text \<open>\<^verbatim>\<open>slice::sort_by\<close> is stable; here as an insertion sort for a given order.\<close>

fun insert_by :: "('a \<Rightarrow> 'a \<Rightarrow> bool) \<Rightarrow> 'a \<Rightarrow> 'a list \<Rightarrow> 'a list" where
  "insert_by le x [] = [x]"
| "insert_by le x (y # ys) = (if le x y then x # y # ys else y # insert_by le x ys)"

definition sort_by :: "('a \<Rightarrow> 'a \<Rightarrow> bool) \<Rightarrow> 'a list \<Rightarrow> 'a list" where
  "sort_by le xs = foldr (insert_by le) xs []"

definition median_absolute_deviation :: "'f float_ops \<Rightarrow> bool \<Rightarrow> nat list \<Rightarrow> ('f \<times> 'f) option outcome" where
  "median_absolute_deviation F ovf data =
     (if data = [] then Inr None
      else
        let l = length data in
        rbind (if l mod 2 = 1 then Inr (of_u64 F (data ! (l div 2)))
               else rbind (uadd ovf (data ! (l div 2 - 1)) (data ! (l div 2)))
                      (\<lambda>total. Inr (fmul F (f_half F) (of_u64 F total)))) (\<lambda>median_data.
        let absolute_deviations =
              sort_by (fle F) (map (\<lambda>s. f_abs F (fsub F (of_u64 F s) median_data)) data);
            mad =
              (if l mod 2 = 1 then absolute_deviations ! (l div 2)
               else fmul F (f_half F)
                 (fadd F (absolute_deviations ! (l div 2 - 1)) (absolute_deviations ! (l div 2))))
        in Inr (Some (median_data, mad))))"

section \<open>Partitioning by size and frequency\<close>

type_synonym component = object_source_meta_sized

text \<open>The three classes of the first pass: high, low and medium size.\<close>

definition is_high :: "'f float_ops \<Rightarrow> 'f \<Rightarrow> component \<Rightarrow> bool" where
  "is_high F hi pkg = fle F hi (of_u64 F (size_of pkg))"

definition is_low :: "'f float_ops \<Rightarrow> 'f \<Rightarrow> 'f \<Rightarrow> component \<Rightarrow> bool" where
  "is_low F hi lo pkg = (\<not> is_high F hi pkg \<and> fle F (of_u64 F (size_of pkg)) lo)"

definition is_medium :: "'f float_ops \<Rightarrow> 'f \<Rightarrow> 'f \<Rightarrow> component \<Rightarrow> bool" where
  "is_medium F hi lo pkg = (\<not> is_high F hi pkg \<and> \<not> is_low F hi lo pkg)"

text \<open>The name of the medium-size bucket of a package in the second pass.\<close>

definition bucket_name ::
  "'f float_ops \<Rightarrow> 'f \<Rightarrow> 'f \<Rightarrow> 'f \<Rightarrow> 'f \<Rightarrow> component \<Rightarrow> string" where
  "bucket_name F freq_low freq_high size_low size_high pkg =
     (let size = of_u64 F (size_of pkg);
          freq = of_u64 F (change_frequency (meta pkg));
          size_name = (if fle F size_high size then ''hs''
                       else if fle F size size_low then ''ls'' else ''ms'');
          freq_name = (if fle F freq_high freq then ''3hf''
                       else if fle F freq freq_low then ''5lf'' else ''4mf'')
      in freq_name @ ''_'' @ size_name)"

definition get_partitions_with_threshold ::
  "'f float_ops \<Rightarrow> bool \<Rightarrow> component list \<Rightarrow> nat \<Rightarrow> 'f \<Rightarrow> (string, component list) btree option outcome" where
  "get_partitions_with_threshold F ovf components limit_hs_bins threshold =
     opt_try (median_absolute_deviation F ovf (map size_of components)) (\<lambda>(median_size, mad_size).
       let size_low_limit =
             fmul F (f_half F) (f_abs F (fsub F median_size (fmul F threshold mad_size)));
           size_high_limit = fadd F median_size (fmul F threshold mad_size);
           all_high = filter (is_high F size_high_limit) components;
           low_size = filter (is_low F size_high_limit size_low_limit) components;
           med_size = filter (is_medium F size_high_limit size_low_limit) components;
           high_size = take limit_hs_bins all_high;
           partitions =
             bt_insert HIGH_PARTITION high_size
               (if low_size = [] then [] else [(LOW_PARTITION, low_size)]);
           remaining_pkgs =
             sort_key (\<lambda>p. change_frequency (meta p)) (drop limit_hs_bins all_high @ med_size);
           med_sizes = map size_of remaining_pkgs;
           med_frequencies = map (\<lambda>p. change_frequency (meta p)) remaining_pkgs
       in opt_try (mean F ovf med_frequencies) (\<lambda>med_mean_freq.
          opt_try (std_deviation F ovf med_frequencies) (\<lambda>med_stddev_freq.
          opt_try (mean F ovf med_sizes) (\<lambda>med_mean_size.
          opt_try (std_deviation F ovf med_sizes) (\<lambda>med_stddev_size.
            let low = (\<lambda>m sd. fmul F (f_half F) (f_abs F (fsub F m (fmul F threshold sd))));
                high = (\<lambda>m sd. fadd F m (fmul F threshold sd));
                bucket = bucket_name F (low med_mean_freq med_stddev_freq)
                           (high med_mean_freq med_stddev_freq)
                           (low med_mean_size med_stddev_size)
                           (high med_mean_size med_stddev_size)
            in Inr (Some (fold (\<lambda>pkg. bt_push (bucket pkg) pkg) remaining_pkgs partitions)))))))"

section \<open>Packing with the structure of a prior build\<close>

definition CONTENT_ANNOTATION :: string where "CONTENT_ANNOTATION = ''ostree.components''"
abbreviation COMPONENT_SEPARATOR :: char where "COMPONENT_SEPARATOR \<equiv> CHR '',''"

text \<open>Of the prior build's manifest, the code reads the annotations of each layer.\<close>

type_synonym layer_annotations = "(string \<rightharpoonup> string) option"

definition layer_components :: "layer_annotations \<Rightarrow> string list outcome" where
  "layer_components annos =
     rbind (ok_or (Err ''Missing ostree.components on prior build'')
              (Option.bind annos (\<lambda>a. a CONTENT_ANNOTATION)))
       (\<lambda>s. Inr (split_on COMPONENT_SEPARATOR s))"

text \<open>Keep non-empty bins and the last one, which is reserved for new packages.\<close>

definition keep_bins :: "string list list \<Rightarrow> string list list" where
  "keep_bins bins =
     map snd (filter (\<lambda>(idx, bin). bin \<noteq> [] \<or> idx = length bins - 1) (enumerate 0 bins))"

definition lookup_component :: "component list \<Rightarrow> string \<Rightarrow> component outcome" where
  "lookup_component components pkg =
     ok_or (Panic ''no entry found for key'') (find (\<lambda>c. meta_name (meta c) = pkg) components)"

text \<open>The prior bins with the added packages in the last one and the removed ones dropped.\<close>

definition prior_bins :: "component list \<Rightarrow> string list list \<Rightarrow> string list list" where
  "prior_bins components curr_build =
     (let prev_pkgs_set = btset (filter (\<lambda>name. name \<noteq> []) (concat curr_build));
          curr_pkgs_set = btset (map (\<lambda>c. meta_name (meta c)) components);
          added = bt_difference curr_pkgs_set prev_pkgs_set;
          last_bin = filter (\<lambda>name. name \<noteq> []) (last curr_build) @ added;
          removed = bt_difference prev_pkgs_set curr_pkgs_set
      in keep_bins (map (filter (\<lambda>pkg. pkg \<notin> set removed)) (butlast curr_build @ [last_bin])))"

definition basic_packing_with_prior_build ::
  "component list \<Rightarrow> nat \<Rightarrow> layer_annotations list \<Rightarrow> component list list option outcome" where
  "basic_packing_with_prior_build components bin_size prior_layers =
     rbind (collect_res (map layer_components (drop 1 prior_layers))) (\<lambda>curr_build.
       if curr_build = [] then Inr None
       else
         let bins = prior_bins components curr_build
         in if bin_size < length bins then Inr None
            else
              rbind (collect_res (map (\<lambda>bin. collect_res
                       (map (lookup_component components) (filter (\<lambda>pkg. pkg \<noteq> []) bin))) bins))
                (\<lambda>modified_build.
                   if sum_list (map length modified_build) \<noteq> length components
                   then Inl (Panic ''assertion `left == right` failed'')
                   else if \<not> length modified_build \<le> bin_size
                   then Inl (Panic ''assertion failed'')
                   else Inr (Some modified_build)))"

section \<open>Packing from scratch\<close>

text \<open>Subtraction of values of the given width.\<close>

definition usub :: "nat \<Rightarrow> bool \<Rightarrow> nat \<Rightarrow> nat \<Rightarrow> nat outcome" where
  "usub w ovf a b =
     (if b \<le> a then Inr (a - b)
      else if ovf then Inl (Panic ''attempt to subtract with overflow'')
      else Inr (2 ^ w + a - b))"

text \<open>Medium-size partitions: bins of at most \<^verbatim>\<open>pkg_per_bin_ms\<close> packages.\<close>

fun ms_bins :: "nat \<Rightarrow> 'a list \<Rightarrow> 'a list \<Rightarrow> 'a list list" where
  "ms_bins per bin [] = []"
| "ms_bins per bin (pkg # pkgs) =
     (let pushed = (if length bin < per then [] else [bin]);
          bin' = (if length bin < per then bin @ [pkg] else [pkg])
      in if pkgs = [] \<and> bin' \<noteq> [] then pushed @ [bin'] else pushed @ ms_bins per bin' pkgs)"

definition partition_bins :: "nat \<Rightarrow> string \<times> 'a list \<Rightarrow> 'a list list" where
  "partition_bins per p =
     (if fst p = HIGH_PARTITION then map (\<lambda>pkg. [pkg]) (snd p)
      else if fst p = LOW_PARTITION then [snd p]
      else ms_bins per [] (snd p))"

text \<open>
  One merge: \<^verbatim>\<open>remove(i)\<close>, \<^verbatim>\<open>remove(i - 1)\<close>, \<^verbatim>\<open>insert(i, merge)\<close>. \<^verbatim>\<open>Vec::remove\<close> and \<^verbatim>\<open>Vec::insert\<close>
  panic when the index is out of range, and \<^verbatim>\<open>r[i - 1]\<close> needs a positive \<^verbatim>\<open>i\<close>.
\<close>

definition merge_at :: "nat \<Rightarrow> 'a list list \<Rightarrow> 'a list list outcome" where
  "merge_at i r =
     (if i = 0 \<or> length r \<le> i then Inl (Panic ''index out of bounds'')
      else
        let merge = r ! (i - 1) @ r ! i;
            r' = take (i - 1) r @ drop (i + 1) r
        in if length r' < i then Inl (Panic ''insertion index out of bounds'')
           else Inr (take i r' @ merge # drop i r'))"

text \<open>The indices of \<^verbatim>\<open>(first..len - 1).step_by(2).rev()\<close>, and one pass over them.\<close>

definition merge_indices :: "nat \<Rightarrow> nat \<Rightarrow> nat list" where
  "merge_indices first len = rev (filter (\<lambda>i. (i - first) mod 2 = 0) [first..<len - 1])"

fun merge_pass :: "nat \<Rightarrow> nat list \<Rightarrow> 'a list list \<Rightarrow> 'a list list outcome" where
  "merge_pass limit [] r = Inr r"
| "merge_pass limit (i # is) r =
     (if length r \<le> limit then Inr r else rbind (merge_at i r) (merge_pass limit is))"

partial_function (option) merge_loop ::
  "nat \<Rightarrow> nat \<Rightarrow> 'a list list \<Rightarrow> 'a list list outcome option" where
  "merge_loop limit first r =
     (if length r \<le> limit then Some (Inr r)
      else (case merge_pass limit (merge_indices first (length r)) r of
              Inl e \<Rightarrow> Some (Inl e)
            | Inr r' \<Rightarrow> merge_loop limit first r'))"

text \<open>Lines 751 to 852: the bins of the components that are not of maximal frequency.\<close>

definition pack_components ::
  "'f float_ops \<Rightarrow> bool \<Rightarrow> component list \<Rightarrow> nat \<Rightarrow> nat \<Rightarrow> component list list outcome option" where
  "pack_components F ovf components bin_size limit_max_frequency_bins =
     (let limit_ls_bins = 1; limit_new_bins = 1;
          low_and_other_bin_limit = limit_ls_bins + limit_new_bins + limit_max_frequency_bins;
          limit_hs_bins = high_cut F (bin_size - low_and_other_bin_limit)
      in case usub 32 ovf bin_size ((limit_hs_bins + low_and_other_bin_limit) mod 2 ^ 32) of
           Inl e \<Rightarrow> Some (Inl e)
         | Inr limit_ms_bins \<Rightarrow>
      (case get_partitions_with_threshold F ovf components limit_hs_bins (f_two F) of
         Inl e \<Rightarrow> Some (Inl e)
       | Inr None \<Rightarrow> Some (Inl (Panic ''Partitioning components into sets''))
       | Inr (Some partitions) \<Rightarrow>
           let low_sized_component_count =
                 (case bt_get partitions LOW_PARTITION of None \<Rightarrow> 0 | Some p \<Rightarrow> length p)
           in case rbind (usub 64 ovf (length components) limit_hs_bins)
                     (\<lambda>d. usub 64 ovf d low_sized_component_count) of
                Inl e \<Rightarrow> Some (Inl e)
              | Inr d \<Rightarrow>
                  if limit_ms_bins = 0 then Some (Inl (Err ''number of bins should be >= 4''))
                  else
                    merge_loop (bin_size - limit_new_bins - limit_max_frequency_bins)
                      (limit_ls_bins + limit_hs_bins)
                      (concat (map (partition_bins (d div limit_ms_bins)) partitions))))"

text \<open>The end of \<^verbatim>\<open>basic_packing\<close>: the last bins and the two assertions.\<close>

definition finish_packing ::
  "nat \<Rightarrow> nat \<Rightarrow> component list \<Rightarrow> component list list \<Rightarrow> component list list outcome" where
  "finish_packing before_processing_pkgs_len bin_size max_freq_components r0 =
     (let r = (if max_freq_components = [] then r0 else r0 @ [max_freq_components]) @ [[]]
      in if sum_list (map length r) \<noteq> before_processing_pkgs_len
         then Inl (Panic ''assertion `left == right` failed'')
         else if \<not> length r \<le> bin_size then Inl (Panic ''assertion failed'')
         else Inr r)"

definition fresh_packing ::
  "'f float_ops \<Rightarrow> bool \<Rightarrow> component list \<Rightarrow> nat \<Rightarrow> component list list outcome option" where
  "fresh_packing F ovf all_components bin_size =
     (if length all_components < bin_size then
        Some (Inr (map (\<lambda>pkg. [pkg]) all_components @ (if all_components = [] then [] else [[]])))
      else
        let components = filter (\<lambda>pkg. change_frequency (meta pkg) \<noteq> u32_max) all_components;
            max_freq_components =
              filter (\<lambda>pkg. change_frequency (meta pkg) = u32_max) all_components
        in case (if components = [] then Some (Inr [])
                 else pack_components F ovf components bin_size (min (length max_freq_components) 1)) of
             None \<Rightarrow> None
           | Some (Inl e) \<Rightarrow> Some (Inl e)
           | Some (Inr r) \<Rightarrow>
               Some (finish_packing (length all_components) bin_size max_freq_components r))"

definition basic_packing ::
  "'f float_ops \<Rightarrow> bool \<Rightarrow> component list \<Rightarrow> nat \<Rightarrow> layer_annotations list option
     \<Rightarrow> component list list outcome option" where
  "basic_packing F ovf components bin_size prior_build_metadata =
     (if bin_size < MIN_CHUNKED_LAYERS
      then Some (Inl (Err ''Condition failed: `bin_size.get() >= MIN_CHUNKED_LAYERS`''))
      else
        case prior_build_metadata of
          None \<Rightarrow> fresh_packing F ovf components bin_size
        | Some prior_build \<Rightarrow>
            (case basic_packing_with_prior_build components bin_size prior_build of
               Inl e \<Rightarrow> Some (Inl e)
             | Inr (Some packing) \<Rightarrow> Some (Inr packing)
             | Inr None \<Rightarrow> fresh_packing F ovf components bin_size))"

section \<open>The merge loop\<close>

lemma merge_at_ok:
  assumes "0 < i" and "i + 2 \<le> length r"
  obtains r' where "merge_at i r = Inr r'" and "length r' = length r - 1"
    and "mset (concat r') = mset (concat r)"
proof -
  obtain xs a b ys where r: "r = xs @ a # b # ys" and xs: "length xs = i - 1"
  proof -
    have "r = take (i - 1) r @ r ! (i - 1) # r ! i # drop (i + 1) r"
      using assms id_take_nth_drop [of "i - 1" r] Cons_nth_drop_Suc [of i r] by simp
    then show thesis using that [of "take (i - 1) r" "r ! (i - 1)" "r ! i" "drop (i + 1) r"] assms
      by simp
  qed
  have ia: "r ! (i - 1) = a" and ib: "r ! i = b"
    using xs assms(1) by (auto simp: r nth_append)
  have rest: "take (i - 1) r @ drop (i + 1) r = xs @ ys"
    using xs assms(1) by (simp add: r)
  let ?r' = "take i (xs @ ys) @ (a @ b) # drop i (xs @ ys)"
  have len: "i \<le> length (xs @ ys)" using xs assms by (simp add: r)
  have "merge_at i r = Inr ?r'"
    using assms len by (simp only: merge_at_def Let_def rest ia ib) simp
  moreover have "length ?r' = length r - 1"
    using len by (simp add: r)
  moreover have "mset (concat ?r') = mset (concat r)"
  proof -
    have "mset (concat (take i (xs @ ys))) + mset (concat (drop i (xs @ ys))) = mset (concat (xs @ ys))"
      by (metis append_take_drop_id concat_append mset_append)
    then show ?thesis by (simp add: r ac_simps)
  qed
  ultimately show thesis using that by blast
qed

text \<open>Descending indices that leave room for the merge.\<close>

definition good_indices :: "nat \<Rightarrow> nat list \<Rightarrow> bool" where
  "good_indices n is = (sorted_wrt (>) is \<and> (\<forall>i \<in> set is. 0 < i \<and> i + 2 \<le> n))"

lemma good_merge_indices: "0 < first \<Longrightarrow> good_indices n (merge_indices first n)"
  by (auto simp: good_indices_def merge_indices_def sorted_wrt_rev intro!: sorted_wrt_filter)

lemma merge_pass_ok:
  assumes "good_indices (length r) is"
  shows "\<exists>r'. merge_pass limit is r = Inr r' \<and> length r' \<le> length r
           \<and> mset (concat r') = mset (concat r)
           \<and> (limit < length r \<and> is \<noteq> [] \<longrightarrow> length r' < length r)"
  using assms
proof (induction "is" arbitrary: r)
  case Nil
  then show ?case by simp
next
  case (Cons i "is")
  show ?case
  proof (cases "length r \<le> limit")
    case True
    then show ?thesis by simp
  next
    case False
    obtain r1 where r1: "merge_at i r = Inr r1" "length r1 = length r - 1"
      "mset (concat r1) = mset (concat r)"
      using Cons.prems by (elim merge_at_ok [of i r, rotated 2]) (auto simp: good_indices_def)
    have "good_indices (length r1) is"
      using Cons.prems by (fastforce simp: good_indices_def r1(2))
    from Cons.IH [OF this] r1 False show ?thesis by fastforce
  qed
qed

lemma merge_indices_not_Nil: "first + 1 < n \<Longrightarrow> merge_indices first n \<noteq> []"
  by (force simp: merge_indices_def filter_empty_conv)

lemma merge_loop_ok:
  assumes "0 < first" and "first < limit"
  shows "\<exists>r'. merge_loop limit first r = Some (Inr r') \<and> length r' \<le> limit
           \<and> mset (concat r') = mset (concat r)"
proof (induction "length r" arbitrary: r rule: less_induct)
  case less
  show ?case
  proof (cases "length r \<le> limit")
    case True
    then show ?thesis by (subst merge_loop.simps) simp
  next
    case False
    have "merge_indices first (length r) \<noteq> []"
      using assms False by (intro merge_indices_not_Nil) simp
    then obtain r1 where r1: "merge_pass limit (merge_indices first (length r)) r = Inr r1"
      "length r1 < length r" "mset (concat r1) = mset (concat r)"
      using merge_pass_ok [OF good_merge_indices [OF assms(1)], of limit r] False by auto
    obtain r' where "merge_loop limit first r1 = Some (Inr r')" "length r' \<le> limit"
      "mset (concat r') = mset (concat r1)"
      using less [OF r1(2)] by blast
    with r1 False show ?thesis by (subst merge_loop.simps) simp
  qed
qed

section \<open>Bins of the partitions\<close>

lemma mset_ms_bins: "pkgs \<noteq> [] \<Longrightarrow> mset (concat (ms_bins per bin pkgs)) = mset bin + mset pkgs"
  by (induction per bin pkgs rule: ms_bins.induct) (auto simp: Let_def)

lemma mset_partition_bins: "mset (concat (partition_bins per p)) = mset (snd p)"
proof -
  have "concat (map (\<lambda>x. [x]) xs) = xs" for xs :: "'a list" by (induction xs) auto
  then show ?thesis
    by (cases "snd p = []") (auto simp: partition_bins_def mset_ms_bins)
qed

lemma mset_all_partition_bins:
  "mset (concat (concat (map (partition_bins per) ps))) = mset (concat (map snd ps))"
  by (induction ps) (simp_all add: mset_partition_bins)

lemma mset_classes:
  "mset (filter (is_high F hi) cs) + mset (filter (is_low F hi lo) cs)
     + mset (filter (is_medium F hi lo) cs) = mset cs"
  by (induction cs) (auto simp: is_low_def is_medium_def)

lemma opt_try_SomeE:
  assumes "opt_try x f = Inr (Some y)"
  obtains v where "x = Inr (Some v)" and "f v = Inr (Some y)"
  using assms by (auto simp: opt_try_def rbind_Inr_iff split: option.splits)

lemma mset_partitions:
  assumes "get_partitions_with_threshold F ovf cs limit threshold = Inr (Some ps)"
  shows "mset (concat (map snd ps)) = mset cs"
proof -
  obtain hi lo k where ps: "ps = fold (\<lambda>pkg. bt_push (k pkg) pkg)
      (sort_key (\<lambda>p. change_frequency (meta p))
        (drop limit (filter (is_high F hi) cs) @ filter (is_medium F hi lo) cs))
      (bt_insert HIGH_PARTITION (take limit (filter (is_high F hi) cs))
        (if filter (is_low F hi lo) cs = [] then []
         else [(LOW_PARTITION, filter (is_low F hi lo) cs)]))"
    using assms unfolding get_partitions_with_threshold_def
    by (elim opt_try_SomeE) (auto simp: Let_def elim!: opt_try_SomeE)
  have base: "mset (concat (map snd (bt_insert HIGH_PARTITION h (if l = [] then [] else [(LOW_PARTITION, l)]))))
      = mset h + mset l" for h l :: "component list"
    by (auto simp: bt_insert_def LOW_PARTITION_def HIGH_PARTITION_def)
  have "mset (take limit (filter (is_high F hi) cs)) + mset (drop limit (filter (is_high F hi) cs))
      = mset (filter (is_high F hi) cs)"
    by (metis append_take_drop_id mset_append)
  then show ?thesis
    using mset_classes [of F hi cs lo]
    by (simp only: ps mset_bt_push_all base mset_sort mset_append) (metis add.assoc add.commute)
qed

section \<open>Outcome of packing from scratch\<close>

text \<open>The panics of \<^verbatim>\<open>basic_packing\<close> that the code does not exclude.\<close>

abbreviation no_partition :: "'a outcome option" where
  "no_partition \<equiv> Some (Inl (Panic ''Partitioning components into sets''))"

abbreviation sub_overflow :: "'a outcome option" where
  "sub_overflow \<equiv> Some (Inl (Panic ''attempt to subtract with overflow''))"

abbreviation add_overflow :: "'a outcome option" where
  "add_overflow \<equiv> Some (Inl (Panic ''attempt to add with overflow''))"

text \<open>The sizes or the frequencies add up to more than a \<^verbatim>\<open>u64\<close> holds.\<close>

definition sums_exceed :: "component list \<Rightarrow> bool" where
  "sums_exceed cs =
     (2 ^ 64 \<le> sum_list (map size_of cs) \<or> 2 ^ 64 \<le> sum_list (map (\<lambda>c. change_frequency (meta c)) cs))"

definition cut_ok :: "'f float_ops \<Rightarrow> bool" where
  "cut_ok F = (\<forall>x > 0. high_cut F x < x)"

lemma usum_Inl: "usum ovf acc xs = Inl e \<Longrightarrow> ovf \<and> e = Panic ''attempt to add with overflow'' \<and> 2 ^ 64 \<le> acc + sum_list xs"
proof (induction xs arbitrary: acc)
  case (Cons x xs)
  show ?case
  proof (cases "acc + x < 2 ^ 64")
    case True
    with Cons.prems have "usum ovf (acc + x) xs = Inl e" by (simp add: uadd_def)
    from Cons.IH [OF this] show ?thesis by (simp add: add.assoc)
  next
    case False
    then show ?thesis
    proof (cases ovf)
      case True
      with False Cons.prems show ?thesis by (simp add: uadd_def)
    next
      case no: False
      with False Cons.prems have "usum ovf ((acc + x) mod 2 ^ 64) xs = Inl e" by (simp add: uadd_def)
      from Cons.IH [OF this] no show ?thesis by simp
    qed
  qed
qed simp

lemma mean_Inl: "mean F ovf xs = Inl e \<Longrightarrow> ovf \<and> e = Panic ''attempt to add with overflow'' \<and> 2 ^ 64 \<le> sum_list xs"
  by (auto simp: mean_def rbind_Inl_iff dest!: usum_Inl split: if_splits)

lemma std_Inl: "std_deviation F ovf xs = Inl e \<Longrightarrow> ovf \<and> e = Panic ''attempt to add with overflow'' \<and> 2 ^ 64 \<le> sum_list xs"
  by (auto simp: std_deviation_def rbind_Inl_iff dest!: mean_Inl)

lemma two_le_sum_list:
  fixes xs :: "nat list"
  assumes "Suc i < length xs"
  shows "xs ! i + xs ! Suc i \<le> sum_list xs"
proof -
  have "xs = take i xs @ xs ! i # xs ! Suc i # drop (Suc (Suc i)) xs"
    using assms by (metis Cons_nth_drop_Suc Suc_lessD append_take_drop_id)
  then have "sum_list xs = sum_list (take i xs) + (xs ! i + (xs ! Suc i + sum_list (drop (Suc (Suc i)) xs)))"
    by (metis sum_list.Cons sum_list.append)
  then show ?thesis by simp
qed

lemma mad_Inl:
  assumes "median_absolute_deviation F ovf xs = Inl e"
  shows "ovf \<and> e = Panic ''attempt to add with overflow'' \<and> 2 ^ 64 \<le> sum_list xs"
proof -
  let ?l = "length xs"
  have ne: "xs \<noteq> []" and even: "?l mod 2 \<noteq> 1"
    and u: "uadd ovf (xs ! (?l div 2 - 1)) (xs ! (?l div 2)) = Inl e"
    using assms by (auto simp: median_absolute_deviation_def Let_def rbind_Inl_iff split: if_splits)
  then have l: "Suc (?l div 2 - 1) = ?l div 2" "Suc (?l div 2 - 1) < ?l"
    by (cases xs; cases "tl xs"; auto simp: mod_Suc)+
  have "xs ! (?l div 2 - 1) + xs ! (?l div 2) \<le> sum_list xs" using two_le_sum_list [OF l(2)] unfolding l(1) .
  moreover have "ovf \<and> e = Panic ''attempt to add with overflow'' \<and> 2 ^ 64 \<le> xs ! (?l div 2 - 1) + xs ! (?l div 2)"
    using u by (auto simp: uadd_def not_less split: if_splits)
  ultimately show ?thesis using order_trans by blast
qed

lemma opt_try_Inl_iff: "opt_try x f = Inl e \<longleftrightarrow> x = Inl e \<or> (\<exists>v. x = Inr (Some v) \<and> f v = Inl e)"
  by (auto simp: opt_try_def rbind_Inl_iff split: option.splits)

lemma sum_list_le_mset:
  fixes f :: "'a \<Rightarrow> nat"
  assumes "mset xs \<subseteq># mset ys"
  shows "sum_list (map f xs) \<le> sum_list (map f ys)"
proof -
  obtain M where "mset ys = mset xs + M" using assms unfolding mset_subset_eq_exists_conv by blast
  then have "sum_mset (image_mset f (mset ys)) = sum_mset (image_mset f (mset xs)) + sum_mset (image_mset f M)" by simp
  then show ?thesis by (metis le_add1 mset_map sum_mset_sum_list)
qed

lemma partitions_Inl:
  assumes "get_partitions_with_threshold F ovf cs limit threshold = Inl e"
  shows "ovf \<and> e = Panic ''attempt to add with overflow'' \<and> sums_exceed cs"
proof -
  have rest: "mset (sort_key (\<lambda>p. change_frequency (meta p)) (drop limit (filter (is_high F hi) cs) @ filter (is_medium F hi lo) cs))
      \<subseteq># mset cs" for hi lo
  proof -
    have "mset (drop limit (filter (is_high F hi) cs)) \<subseteq># mset (filter (is_high F hi) cs)"
      by (metis append_take_drop_id mset_append mset_subset_eq_add_right)
    then have "mset (drop limit (filter (is_high F hi) cs)) + mset (filter (is_medium F hi lo) cs)
        \<subseteq># mset (filter (is_high F hi) cs) + mset (filter (is_medium F hi lo) cs)"
      by (rule subset_mset.add_right_mono)
    also have "\<dots> \<subseteq># mset cs" using mset_classes [of F hi cs lo] by (metis add.assoc add.commute mset_subset_eq_add_left)
    finally show ?thesis by simp
  qed
  have big: "2 ^ 64 \<le> sum_list (map f cs)"
    if "2 ^ 64 \<le> sum_list (map f (sort_key (\<lambda>p. change_frequency (meta p)) (drop limit (filter (is_high F hi) cs) @ filter (is_medium F hi lo) cs)))"
    for hi lo and f :: "component \<Rightarrow> nat"
    using that sum_list_le_mset [OF rest, of f hi lo] by (rule order_trans)
  from assms show ?thesis
    unfolding get_partitions_with_threshold_def Let_def
    by (auto simp: opt_try_Inl_iff sums_exceed_def simp del: map_append sum_list_append dest!: mad_Inl mean_Inl std_Inl dest: big)
qed

lemma usub_cases:
  "ovf \<and> usub w ovf a b = Inl (Panic ''attempt to subtract with overflow'') \<or> (\<exists>d. usub w ovf a b = Inr d)"
  by (simp add: usub_def)

lemma pack_components_cases:
  assumes "4 \<le> n" and "m \<le> 1" and "cut_ok F"
  shows "pack_components F ovf cs n m = no_partition
       \<or> ovf \<and> pack_components F ovf cs n m = sub_overflow
       \<or> ovf \<and> sums_exceed cs \<and> pack_components F ovf cs n m = add_overflow
       \<or> (\<exists>r. pack_components F ovf cs n m = Some (Inr r)
            \<and> length r \<le> n - 1 - m \<and> mset (concat r) = mset cs)"
proof -
  let ?hs = "high_cut F (n - (2 + m))"
  let ?ms = "n - (?hs + (2 + m)) mod 2 ^ 32"
  have cut: "?hs < n - (2 + m)" using assms by (simp add: cut_ok_def)
  have "(?hs + (2 + m)) mod 2 ^ 32 \<le> ?hs + (2 + m)" by simp
  then have lt: "(?hs + (2 + m)) mod 2 ^ 32 < n" using cut by linarith
  then have u1: "usub 32 ovf n ((?hs + (2 + m)) mod 2 ^ 32) = Inr ?ms" and ms: "?ms > 0"
    by (simp_all only: usub_def less_imp_le if_True zero_less_diff)
  have pc: "pack_components F ovf cs n m =
      (case get_partitions_with_threshold F ovf cs ?hs (f_two F) of
         Inl e \<Rightarrow> Some (Inl e)
       | Inr None \<Rightarrow> no_partition
       | Inr (Some ps) \<Rightarrow>
           (case rbind (usub 64 ovf (length cs) ?hs)
                   (\<lambda>d. usub 64 ovf d (case bt_get ps LOW_PARTITION of None \<Rightarrow> 0 | Some p \<Rightarrow> length p)) of
              Inl e \<Rightarrow> Some (Inl e)
            | Inr d \<Rightarrow> merge_loop (n - 1 - m) (1 + ?hs) (concat (map (partition_bins (d div ?ms)) ps))))"
  proof -
    have two: "1 + 1 + m = 2 + m" and nz: "(?ms = 0) = False" using ms by simp_all
    show ?thesis unfolding pack_components_def Let_def two u1 sum.case nz if_False by (rule refl)
  qed
  show ?thesis
  proof (cases "get_partitions_with_threshold F ovf cs ?hs (f_two F)")
    case (Inl e)
    with partitions_Inl [OF Inl] pc show ?thesis by simp
  next
    case (Inr q)
    show ?thesis
    proof (cases q)
      case None
      with Inr pc show ?thesis by simp
    next
      case (Some ps)
      let ?low = "case bt_get ps LOW_PARTITION of None \<Rightarrow> 0 | Some p \<Rightarrow> length p"
      show ?thesis
      proof (cases "rbind (usub 64 ovf (length cs) ?hs) (\<lambda>d. usub 64 ovf d ?low)")
        case e: (Inl e)
        then have "ovf \<and> e = Panic ''attempt to subtract with overflow''"
          by (auto simp: rbind_Inl_iff usub_def split: if_splits)
        with e Inr Some show ?thesis unfolding pc by simp
      next
        case d: (Inr d)
        let ?r = "concat (map (partition_bins (d div ?ms)) ps)"
        have run: "pack_components F ovf cs n m = merge_loop (n - 1 - m) (1 + ?hs) ?r"
          using d Inr Some unfolding pc by simp
        have c: "1 + ?hs < n - 1 - m" using cut by linarith
        obtain r where "merge_loop (n - 1 - m) (1 + ?hs) ?r = Some (Inr r)" "length r \<le> n - 1 - m"
          "mset (concat r) = mset (concat ?r)"
          using merge_loop_ok [OF _ c, of ?r] by auto
        then show ?thesis
          using run mset_all_partition_bins mset_partitions [OF Inr [unfolded Some]] by metis
      qed
    qed
  qed
qed

lemma length_concat_mset: "mset (concat r) = mset xs \<Longrightarrow> sum_list (map length r) = length xs"
  by (metis length_concat size_mset)

lemma finish_packing_ok:
  assumes "mset (concat r) + mset mf = mset cs"
    and "length r + (if mf = [] then 0 else 1) + 1 \<le> n"
  shows "\<exists>r'. finish_packing (length cs) n mf r = Inr r' \<and> mset (concat r') = mset cs \<and> length r' \<le> n"
proof -
  let ?r = "(if mf = [] then r else r @ [mf]) @ [[]]"
  have m: "mset (concat ?r) = mset cs" using assms(1) by auto
  have l: "length ?r \<le> n" using assms(2) by auto
  have s: "sum_list (map length ?r) = length cs" using m by (rule length_concat_mset)
  have "finish_packing (length cs) n mf r = Inr ?r"
    using l s by (simp only: finish_packing_def Let_def) simp
  with m l show ?thesis by blast
qed

lemma mset_filter_split: "mset (filter P xs) + mset (filter (\<lambda>x. \<not> P x) xs) = mset xs"
  by (induction xs) auto

lemma concat_singletons: "concat (map (\<lambda>x. [x]) xs) = xs"
  by (induction xs) auto

lemma fresh_packing_cases:
  assumes "4 \<le> n" and "cut_ok F"
  shows "fresh_packing F ovf cs n = no_partition
       \<or> ovf \<and> fresh_packing F ovf cs n = sub_overflow
       \<or> ovf \<and> sums_exceed cs \<and> fresh_packing F ovf cs n = add_overflow
       \<or> (\<exists>r. fresh_packing F ovf cs n = Some (Inr r) \<and> mset (concat r) = mset cs \<and> length r \<le> n)"
proof (cases "length cs < n")
  case True
  then show ?thesis by (auto simp: fresh_packing_def concat_singletons)
next
  case False
  let ?P = "\<lambda>pkg. change_frequency (meta pkg) \<noteq> u32_max"
  let ?c = "filter ?P cs" and ?mf = "filter (\<lambda>pkg. change_frequency (meta pkg) = u32_max) cs"
  let ?m = "min (length ?mf) 1"
  have split: "mset ?c + mset ?mf = mset cs" using mset_filter_split [of ?P cs] by simp
  have fin: "\<exists>r'. finish_packing (length cs) n ?mf r = Inr r' \<and> mset (concat r') = mset cs \<and> length r' \<le> n"
    if "mset (concat r) = mset ?c" "length r \<le> n - 1 - ?m" for r
  proof (rule finish_packing_ok)
    show "mset (concat r) + mset ?mf = mset cs" using that(1) split by simp
    have "(if ?mf = [] then 0 else 1) = ?m" by (cases ?mf) auto
    then show "length r + (if ?mf = [] then 0 else 1) + 1 \<le> n" using that(2) assms(1) by linarith
  qed
  show ?thesis
  proof (cases "?c = []")
    case True
    then have "fresh_packing F ovf cs n = Some (finish_packing (length cs) n ?mf [])"
      using False by (simp add: fresh_packing_def Let_def)
    then show ?thesis using fin [of "[]"] True by auto
  next
    case c: False
    have run: "fresh_packing F ovf cs n =
      (case pack_components F ovf ?c n ?m of None \<Rightarrow> None | Some (Inl e) \<Rightarrow> Some (Inl e)
       | Some (Inr r) \<Rightarrow> Some (finish_packing (length cs) n ?mf r))"
      using False c by (simp add: fresh_packing_def Let_def)
    have sums: "sums_exceed cs" if "sums_exceed ?c"
      using that sum_list_le_mset [OF multiset_filter_subset [of ?P "mset cs", folded mset_filter]]
      unfolding sums_exceed_def by (meson order_trans)
    have "?m \<le> 1" by simp
    from pack_components_cases [OF assms(1) this assms(2), of ovf ?c] show ?thesis
    proof (elim disjE exE conjE)
      fix r assume "pack_components F ovf ?c n ?m = Some (Inr r)" "length r \<le> n - 1 - ?m" "mset (concat r) = mset ?c"
      then show ?thesis using fin [of r] run by auto
    next
      assume "pack_components F ovf ?c n ?m = no_partition"
      then show ?thesis unfolding run by simp
    next
      assume ov: ovf "pack_components F ovf ?c n ?m = sub_overflow"
      show ?thesis unfolding run ov(2) using ov(1) by simp
    next
      assume ov: ovf "sums_exceed ?c" "pack_components F ovf ?c n ?m = add_overflow"
      show ?thesis unfolding run ov(3) using ov(1) sums [OF ov(2)] by simp
    qed
  qed
qed

section \<open>Outcome of packing with a prior build\<close>

lemma keep_bins_concat: "set (concat (keep_bins bins)) = set (concat bins)"
proof -
  have "set (concat (keep_bins bins)) \<subseteq> set (concat bins)"
    by (force simp: keep_bins_def in_set_enumerate_eq)
  moreover have "x \<in> set (concat (keep_bins bins))" if "x \<in> set (concat bins)" for x
  proof -
    from that obtain b where b: "b \<in> set bins" "x \<in> set b" by auto
    then obtain i where "i < length bins" "bins ! i = b" by (auto simp: in_set_conv_nth)
    then have "(i, b) \<in> set (enumerate 0 bins)" by (auto simp: in_set_enumerate_eq)
    moreover have "b \<noteq> []" using b by auto
    ultimately show ?thesis using b by (force simp: keep_bins_def)
  qed
  ultimately show ?thesis by blast
qed

lemma lookup_component_name:
  "lookup_component cs pkg = Inr c \<Longrightarrow> c \<in> set cs \<and> meta_name (meta c) = pkg"
  by (auto simp: lookup_component_def ok_or_Inr_iff find_Some_iff)

lemma collect_lookup_names:
  "collect_res (map (lookup_component cs) pkgs) = Inr ys \<Longrightarrow>
     map (\<lambda>c. meta_name (meta c)) ys = pkgs \<and> set ys \<subseteq> set cs"
  by (induction pkgs arbitrary: ys) (auto simp: rbind_Inr_iff dest: lookup_component_name)

lemma collect_lookup_bins:
  "collect_res (map (\<lambda>bin. collect_res (map (lookup_component cs) (f bin))) bins) = Inr yss \<Longrightarrow>
     map (map (\<lambda>c. meta_name (meta c))) yss = map f bins \<and> (\<forall>ys \<in> set yss. set ys \<subseteq> set cs)"
proof (induction bins arbitrary: yss)
  case Nil
  then show ?case by simp
next
  case (Cons a bins)
  then obtain v vs where v: "collect_res (map (lookup_component cs) (f a)) = Inr v"
    and vs: "collect_res (map (\<lambda>bin. collect_res (map (lookup_component cs) (f bin))) bins) = Inr vs"
    and yss: "yss = v # vs"
    by (auto simp: rbind_Inr_iff)
  show ?case using collect_lookup_names [OF v] Cons.IH [OF vs] by (auto simp: yss)
qed

lemma names_perm:
  assumes "distinct (map g cs)" and "set ys \<subseteq> set cs" and "set (map g cs) \<subseteq> set (map g ys)"
    and "length ys = length cs"
  shows "mset ys = mset cs"
proof -
  have inj: "inj_on g (set cs)" and d: "distinct cs"
    using assms(1) by (auto simp: distinct_map)
  have "g ` set ys = g ` set cs" using assms(2,3) by auto
  then have eq: "set ys = set cs"
    using inj_on_image_eq_iff [OF inj assms(2) subset_refl] by simp
  have "card (set ys) = length ys"
    using eq assms(4) distinct_card [OF d] by simp
  then have "distinct ys" by (rule card_distinct)
  with d eq show ?thesis by (simp add: set_eq_iff_mset_eq_distinct)
qed

lemma set_concat_filter: "set (concat (map (filter P) bs)) = {x \<in> set (concat bs). P x}"
  by auto

lemma prior_bins_complete:
  assumes "cb \<noteq> []" and "x \<in> set (map (\<lambda>c. meta_name (meta c)) cs)" and "x \<noteq> []"
  shows "x \<in> set (concat (prior_bins cs cb))"
proof -
  have "concat (butlast cb) @ last cb = concat cb"
    using assms(1) by (metis append_butlast_last_id concat.simps concat_append append_Nil2)
  then have cb: "set (concat cb) = set (concat (butlast cb)) \<union> set (last cb)"
    by (metis set_append)
  show ?thesis
    unfolding prior_bins_def Let_def keep_bins_concat
    using assms(2,3) cb by (auto simp: set_concat_filter simp del: set_concat)
qed

lemma prior_build_ok:
  assumes "basic_packing_with_prior_build cs n prior = Inr (Some r)"
    and "distinct (map (\<lambda>c. meta_name (meta c)) cs)"
    and "[] \<notin> set (map (\<lambda>c. meta_name (meta c)) cs)"
  shows "mset (concat r) = mset cs \<and> length r \<le> n"
proof -
  let ?g = "\<lambda>c. meta_name (meta c)"
  from assms(1) obtain cb where cb: "cb \<noteq> []"
    and len: "sum_list (map length r) = length cs" "length r \<le> n"
    and r: "collect_res (map (\<lambda>bin. collect_res (map (lookup_component cs) (filter (\<lambda>pkg. pkg \<noteq> []) bin)))
      (prior_bins cs cb)) = Inr r"
    unfolding basic_packing_with_prior_build_def
    by (auto simp: rbind_Inr_iff Let_def split: if_splits)
  note c = collect_lookup_bins [OF r]
  have names: "set (map ?g (concat r)) = set (concat (map (filter (\<lambda>pkg. pkg \<noteq> [])) (prior_bins cs cb)))"
    using c by (simp only: map_concat)
  have "set (map ?g cs) \<subseteq> set (map ?g (concat r))"
  proof
    fix x assume x: "x \<in> set (map ?g cs)"
    then have ne: "x \<noteq> []" using assms(3) by metis
    from prior_bins_complete [OF cb x ne] ne show "x \<in> set (map ?g (concat r))"
      unfolding names by auto
  qed
  moreover have "set (concat r) \<subseteq> set cs" using c by auto
  moreover have "length (concat r) = length cs" using len(1) by (simp add: length_concat)
  ultimately show ?thesis using names_perm [OF assms(2)] len(2) by blast
qed

section \<open>Properties\<close>

text \<open>An exact arithmetic to evaluate examples with.\<close>

definition rat_ops :: "rat float_ops" where
  "rat_ops = \<lparr>of_u64 = of_nat, f_half = 1 / 2, f_two = 2, f_zero = 0, fadd = (+), fsub = (-),
     fmul = (*), fdiv = (/), f_abs = abs, f_sqrt = (\<lambda>x. x), fle = (\<le>), high_cut = (\<lambda>x. 6 * x div 10)\<rparr>"

definition mk_pkg :: "string \<Rightarrow> nat \<Rightarrow> nat \<Rightarrow> component" where
  "mk_pkg n sz freq = \<lparr>meta = \<lparr>content_id = n, meta_name = n, srcid = n, change_time_offset = 0,
     change_frequency = freq\<rparr>, size_of = sz\<rparr>"

lemma cut_ok_rat_ops: "cut_ok rat_ops"
  by (auto simp: cut_ok_def rat_ops_def)

text \<open>
  C19. \<^verbatim>\<open>basic_packing\<close> without a prior build and with at least four layers always ends, whatever the
  floating-point arithmetic does: either it returns bins that hold exactly the given components (as a multiset)
  and are no more than the requested number of layers, so that neither of its two final
  assertions fires, or it panics at the \<^verbatim>\<open>expect\<close> on the partitioning, or, in a build with overflow checks only, at a
  subtraction, or at an addition when the sizes or frequencies of the components add up to more than 64 bits.
\<close>

theorem basic_packing_total:
  assumes "MIN_CHUNKED_LAYERS \<le> n" and "cut_ok F"
  shows "basic_packing F ovf cs n None = no_partition
       \<or> ovf \<and> basic_packing F ovf cs n None = sub_overflow
       \<or> ovf \<and> sums_exceed cs \<and> basic_packing F ovf cs n None = add_overflow
       \<or> (\<exists>r. basic_packing F ovf cs n None = Some (Inr r) \<and> mset (concat r) = mset cs \<and> length r \<le> n)"
  using fresh_packing_cases [of n F ovf cs] assms
  by (simp add: basic_packing_def MIN_CHUNKED_LAYERS_def)

theorem basic_packing_total_witness:
  "\<exists>r. basic_packing rat_ops True [mk_pkg ''a'' 5 1, mk_pkg ''b'' 3 1] 4 None = Some (Inr r)
     \<and> mset (concat r) = mset [mk_pkg ''a'' 5 1, mk_pkg ''b'' 3 1] \<and> length r \<le> 4"
proof -
  have m: "MIN_CHUNKED_LAYERS \<le> 4" by (simp add: MIN_CHUNKED_LAYERS_def)
  have "basic_packing rat_ops True [mk_pkg ''a'' 5 1, mk_pkg ''b'' 3 1] 4 None
      = Some (Inr [[mk_pkg ''a'' 5 1], [mk_pkg ''b'' 3 1], []])"
    by (simp add: basic_packing_def MIN_CHUNKED_LAYERS_def fresh_packing_def)
  with basic_packing_total [OF m cut_ok_rat_ops, of True "[mk_pkg ''a'' 5 1, mk_pkg ''b'' 3 1]"]
  show ?thesis by auto
qed

text \<open>
  C20. For components with distinct names that are not empty, every packing that \<^verbatim>\<open>basic_packing\<close> returns, from
  scratch or by reusing the layer structure
  of a prior build, puts each component in exactly one bin and uses at most the requested number
  of bins.
\<close>

theorem basic_packing_partition:
  assumes "basic_packing F ovf cs n prior = Some (Inr r)" and "cut_ok F"
    and "distinct (map (\<lambda>c. meta_name (meta c)) cs)" and "[] \<notin> set (map (\<lambda>c. meta_name (meta c)) cs)"
  shows "mset (concat r) = mset cs \<and> length r \<le> n"
proof -
  have n: "4 \<le> n" using assms(1)
    by (auto simp: basic_packing_def MIN_CHUNKED_LAYERS_def split: if_splits)
  have fresh: "mset (concat r) = mset cs \<and> length r \<le> n" if "fresh_packing F ovf cs n = Some (Inr r)"
    using fresh_packing_cases [OF n assms(2), of ovf cs] that by auto
  show ?thesis
    using assms(1) fresh prior_build_ok [OF _ assms(3,4), of n _ r]
    by (auto simp: basic_packing_def split: if_splits option.splits sum.splits)
qed

theorem basic_packing_partition_witness:
  "basic_packing rat_ops True [mk_pkg ''a'' 5 1, mk_pkg ''b'' 3 1] 4
     (Some [None, Some [CONTENT_ANNOTATION \<mapsto> ''b,c''], Some [CONTENT_ANNOTATION \<mapsto> []]])
     = Some (Inr [[mk_pkg ''b'' 3 1], [mk_pkg ''a'' 5 1]])
   \<and> mset (concat [[mk_pkg ''b'' 3 1], [mk_pkg ''a'' 5 1]]) = mset [mk_pkg ''a'' 5 1, mk_pkg ''b'' 3 1]"
proof -
  let ?cs = "[mk_pkg ''a'' 5 1, mk_pkg ''b'' 3 1]"
  let ?prior = "Some [None, Some [CONTENT_ANNOTATION \<mapsto> ''b,c''], Some [CONTENT_ANNOTATION \<mapsto> []]]"
  have run: "basic_packing rat_ops True ?cs 4 ?prior = Some (Inr [[mk_pkg ''b'' 3 1], [mk_pkg ''a'' 5 1]])"
    by (simp add: basic_packing_def MIN_CHUNKED_LAYERS_def basic_packing_with_prior_build_def
        prior_bins_def layer_components_def CONTENT_ANNOTATION_def btset_def bt_difference_def keep_bins_def
        lookup_component_def mk_pkg_def Let_def)
  have "distinct (map (\<lambda>c. meta_name (meta c)) ?cs)" "[] \<notin> set (map (\<lambda>c. meta_name (meta c)) ?cs)"
    by (simp_all add: mk_pkg_def)
  from basic_packing_partition [OF run cut_ok_rat_ops this] run show ?thesis by blast
qed

text \<open>
  \<^verbatim>\<open>basic_packing\<close> panics (``Partitioning components into sets'') when all components but one
  have the maximal change frequency: the only other component is a high-size outlier of itself,
  the medium partition is empty, and the mean of no values is \<^verbatim>\<open>None\<close>.
\<close>

theorem basic_packing_panics:
  assumes "MIN_CHUNKED_LAYERS \<le> n" and "n \<le> length (c # ms)"
    and "change_frequency (meta c) \<noteq> u32_max" and "\<forall>m \<in> set ms. change_frequency (meta m) = u32_max"
    and "0 < high_cut F (n - 3)" and "cut_ok F"
    and "let s = of_u64 F (size_of c) in fle F (fadd F s (fmul F (f_two F) (f_abs F (fsub F s s)))) s"
  shows "basic_packing F ovf (c # ms) n None = no_partition"
proof -
  have n: "4 \<le> n" using assms(1) by (simp add: MIN_CHUNKED_LAYERS_def)
  have ms: "ms \<noteq> []" using n assms(2) by auto
  have f: "filter (\<lambda>p. change_frequency (meta p) \<noteq> u32_max) (c # ms) = [c]"
    "filter (\<lambda>p. change_frequency (meta p) = u32_max) (c # ms) = ms"
    using assms(3,4) by (auto simp: filter_empty_conv)
  have mad: "median_absolute_deviation F ovf [size_of c] =
      Inr (Some (of_u64 F (size_of c), f_abs F (fsub F (of_u64 F (size_of c)) (of_u64 F (size_of c)))))"
    by (simp add: median_absolute_deviation_def sort_by_def Let_def)
  have cut: "high_cut F (n - 3) < n - 3" using assms(6) n by (simp add: cut_ok_def)
  have part: "get_partitions_with_threshold F ovf [c] (high_cut F (n - 3)) (f_two F) = Inr None"
    using assms(5,7)
    by (simp add: get_partitions_with_threshold_def opt_try_def mad Let_def is_high_def is_medium_def mean_def)
  have m: "min (length ms) 1 = 1" using ms by (cases ms) auto
  have "(high_cut F (n - 3) + 3) mod 2 ^ 32 \<le> high_cut F (n - 3) + 3" by simp
  then have "(high_cut F (n - 3) + 3) mod 2 ^ 32 \<le> n" using cut by linarith
  then have u: "\<exists>d. usub 32 ovf n ((high_cut F (n - 3) + 3) mod 2 ^ 32) = Inr d"
    by (simp only: usub_def if_True) blast
  have "pack_components F ovf [c] n 1 = no_partition"
  proof -
    obtain d where d: "usub 32 ovf n ((high_cut F (n - 3) + 3) mod 2 ^ 32) = Inr d" using u by blast
    have three: "1 + 1 + 1 = (3 :: nat)" by simp
    show ?thesis unfolding pack_components_def Let_def three d part sum.case option.case by (rule refl)
  qed
  then show ?thesis
    using assms(2) n by (simp only: basic_packing_def fresh_packing_def Let_def f m)
      (simp add: MIN_CHUNKED_LAYERS_def)
qed

theorem basic_packing_panics_witness:
  "basic_packing rat_ops True
     [mk_pkg ''a'' 5 1, mk_pkg ''b'' 1 u32_max, mk_pkg ''c'' 1 u32_max, mk_pkg ''d'' 1 u32_max, mk_pkg ''e'' 1 u32_max]
     5 None = no_partition"
  by (rule basic_packing_panics [OF _ _ _ _ _ cut_ok_rat_ops])
    (simp_all add: MIN_CHUNKED_LAYERS_def mk_pkg_def u32_max_def rat_ops_def)

end
