(* ===== verification/Chunk_Objects.thy ===== *)
theory Chunk_Objects
  imports Chunking
begin

text \<open>
  The chunks themselves: \<^verbatim>\<open>Chunk\<close>, \<^verbatim>\<open>Chunking\<close> and the walk over an ostree commit, in
  \<^verbatim>\<open>crates/ostree-ext/src/chunking.rs\<close>. The ostree repository is a parameter: \<^verbatim>\<open>repo\<close> gives the
  size of a file object, the decoded directory tree and the serialized length of a metadata
  object, each by checksum.
\<close>

section \<open>Definitions\<close>

type_synonym chunk_mapping = "(string, nat \<times> string list) btree"

record chunk =
  ck_name :: string
  ck_content :: chunk_mapping
  ck_size :: nat
  ck_packages :: "string list"

definition chunk_new :: "string \<Rightarrow> chunk" where
  "chunk_new name = \<lparr>ck_name = name, ck_content = [], ck_size = 0, ck_packages = []\<rparr>"

record chunking =
  metadata_size :: nat
  remainder :: chunk
  chunks :: "chunk list"
  max_layers :: nat
  processed_mapping :: bool
  n_provided_components :: nat
  n_sized_components :: nat

subsection \<open>Walking a commit\<close>

record generation =
  gen_path :: string
  gen_metadata_size :: nat
  dirtree_found :: "string set"
  dirmeta_found :: "string set"

record dirtree_variant =
  dt_files :: "(string \<times> string) list"
  dt_dirs :: "(string \<times> string \<times> string) list"
  dt_len :: nat

record ostree_repo =
  load_dirtree :: "string \<Rightarrow> dirtree_variant res"
  load_dirmeta_len :: "string \<Rightarrow> nat res"
  query_file_size :: "string \<Rightarrow> nat res"

definition push_dirmeta :: "ostree_repo \<Rightarrow> generation \<Rightarrow> string \<Rightarrow> generation res" where
  "push_dirmeta repo g checksum =
     (if checksum \<in> dirtree_found g then Inr g
      else
        let g = g\<lparr>dirmeta_found := insert checksum (dirmeta_found g)\<rparr>
        in rbind (load_dirmeta_len repo checksum)
             (\<lambda>len. Inr (g\<lparr>gen_metadata_size := gen_metadata_size g + len\<rparr>)))"

definition push_dirtree ::
  "ostree_repo \<Rightarrow> generation \<Rightarrow> string \<Rightarrow> (generation \<times> dirtree_variant) res" where
  "push_dirtree repo g checksum =
     rbind (load_dirtree repo checksum) (\<lambda>child_v.
       if checksum \<notin> dirtree_found g
       then Inr (g\<lparr>gen_metadata_size := gen_metadata_size g + dt_len child_v\<rparr>, child_v)
       else Inr (g\<lparr>dirtree_found := insert checksum (dirtree_found g)\<rparr>, child_v))"

text \<open>\<^verbatim>\<open>Utf8Path::join\<close> with a single relative name.\<close>

definition path_join :: "string \<Rightarrow> string \<Rightarrow> string" where
  "path_join dir name =
     (if dir = [] \<or> last dir = CHR ''/'' then dir @ name else dir @ ''/'' @ name)"

definition add_file :: "nat \<Rightarrow> string \<Rightarrow> string \<Rightarrow> chunk \<Rightarrow> chunk" where
  "add_file sz checksum fpath c =
     (let first = (case bt_get (ck_content c) checksum of None \<Rightarrow> True | Some (_, ps) \<Rightarrow> ps = [])
      in c\<lparr>ck_content := bt_update checksum
             (\<lambda>old. case old of None \<Rightarrow> (sz, [fpath]) | Some (_, ps) \<Rightarrow> (sz, ps @ [fpath]))
             (ck_content c),
           ck_size := (if first then ck_size c + sz else ck_size c)\<rparr>)"

fun add_files :: "ostree_repo \<Rightarrow> string \<Rightarrow> (string \<times> string) list \<Rightarrow> chunk \<Rightarrow> chunk res" where
  "add_files repo dir [] c = Inr c"
| "add_files repo dir ((name, checksum) # files) c =
     rbind (query_file_size repo checksum)
       (\<lambda>size. add_files repo dir files (add_file size checksum (path_join dir name) c))"

text \<open>
  The recursion follows the directory trees of the repository; the first argument bounds its
  depth (an ostree commit is a finite tree, so some bound is always enough).
\<close>

fun generate_chunking_recurse ::
  "nat \<Rightarrow> ostree_repo \<Rightarrow> generation \<Rightarrow> chunk \<Rightarrow> dirtree_variant \<Rightarrow> (generation \<times> chunk) res option"
  and generate_chunking_dirs ::
  "nat \<Rightarrow> ostree_repo \<Rightarrow> generation \<Rightarrow> chunk \<Rightarrow> (string \<times> string \<times> string) list
     \<Rightarrow> (generation \<times> chunk) res option" where
  "generate_chunking_recurse depth repo g c dt =
     (case add_files repo (gen_path g) (dt_files dt) c of
        Inl e \<Rightarrow> Some (Inl e)
      | Inr c' \<Rightarrow>
          (case depth of
             0 \<Rightarrow> if dt_dirs dt = [] then Some (Inr (g, c')) else None
           | Suc d \<Rightarrow> generate_chunking_dirs d repo g c' (dt_dirs dt)))"
| "generate_chunking_dirs d repo g c [] = Some (Inr (g, c))"
| "generate_chunking_dirs d repo g c ((name, contents_csum, meta_csum) # dirs) =
     (let parent = gen_path g;
          g = g\<lparr>gen_path := path_join (gen_path g) name\<rparr>
      in case push_dirtree repo g contents_csum of
           Inl e \<Rightarrow> Some (Inl e)
         | Inr (g, dt) \<Rightarrow>
             (case generate_chunking_recurse d repo g c dt of
                None \<Rightarrow> None
              | Some (Inl e) \<Rightarrow> Some (Inl e)
              | Some (Inr (g, c)) \<Rightarrow>
                  (case push_dirmeta repo g meta_csum of
                     Inl e \<Rightarrow> Some (Inl e)
                   | Inr g \<Rightarrow> generate_chunking_dirs d repo (g\<lparr>gen_path := parent\<rparr>) c dirs)))"

subsection \<open>Moving objects between chunks\<close>

definition move_obj :: "chunk \<Rightarrow> chunk \<Rightarrow> string \<Rightarrow> chunk \<times> chunk \<times> bool" where
  "move_obj self dest checksum =
     (case bt_get (ck_content self) checksum of
        Some (sz, paths) \<Rightarrow>
          (self\<lparr>ck_content := bt_remove checksum (ck_content self), ck_size := ck_size self - sz\<rparr>,
           dest\<lparr>ck_content := bt_insert checksum (sz, paths) (ck_content dest),
                ck_size := ck_size dest + sz\<rparr>,
           True)
      | None \<Rightarrow> (self, dest, False))"

definition move_path :: "chunk \<Rightarrow> chunk \<Rightarrow> string \<Rightarrow> string \<Rightarrow> chunk \<times> chunk" where
  "move_path self dest checksum path =
     (case bt_get (ck_content self) checksum of
        Some (sz, paths) \<Rightarrow>
          if path \<in> set paths then
            let paths' = remove1 path paths
            in (self\<lparr>ck_content :=
                       (if paths' = [] then bt_remove checksum (ck_content self)
                        else bt_insert checksum (sz, paths') (ck_content self))\<rparr>,
                dest\<lparr>ck_content := bt_update checksum
                       (\<lambda>old. case old of None \<Rightarrow> (0, [path]) | Some (sz, ps) \<Rightarrow> (sz, ps @ [path]))
                       (ck_content dest)\<rparr>)
          else (self, dest)
      | None \<Rightarrow> (self, dest))"

subsection \<open>Processing a mapping\<close>

text \<open>\<^verbatim>\<open>IndexMap\<close>: keys in insertion order.\<close>

fun im_push :: "'k \<Rightarrow> 'a \<Rightarrow> ('k \<times> 'a list) list \<Rightarrow> ('k \<times> 'a list) list" where
  "im_push k x [] = [(k, [x])]"
| "im_push k x ((k', xs) # m) = (if k = k' then (k', xs @ [x]) # m else (k', xs) # im_push k x m)"

definition create_content_id_map :: "(string \<times> string) list \<Rightarrow> (string \<times> string list) list" where
  "create_content_id_map meta_map =
     fold (\<lambda>(checksum, contentid). im_push contentid checksum) meta_map []"

definition remaining :: "chunking \<Rightarrow> nat" where
  "remaining self = max_layers self - length (chunks self)"

definition bin_name :: "component list \<Rightarrow> string" where
  "bin_name bin =
     (case bin of
        [] \<Rightarrow> ''Reserved for new packages''
      | first # rest \<Rightarrow>
          if length bin \<le> 5
          then foldl (\<lambda>acc v. acc @ '' and '' @ content_id (meta v)) (content_id (meta first)) rest
          else show_nat (length bin) @ '' components'')"

text \<open>Create the chunk of one exclusive component.\<close>

definition exclusive_chunk ::
  "chunk \<Rightarrow> string \<times> (string \<times> string) list \<Rightarrow> chunk \<times> chunk" where
  "exclusive_chunk rem0 spec =
     fold (\<lambda>(path, checksum) (r, c). move_path r c checksum path) (snd spec)
       (rem0, (chunk_new (fst spec))\<lparr>ck_packages := [fst spec]\<rparr>)"

definition exclusive_chunks ::
  "(string \<times> (string \<times> string) list) list \<Rightarrow> chunking \<Rightarrow> chunking" where
  "exclusive_chunks specific_meta self =
     fold (\<lambda>spec s. let (r, c) = exclusive_chunk (remainder s) spec
                    in s\<lparr>remainder := r, chunks := chunks s @ [c]\<rparr>)
       specific_meta self"

text \<open>Fill the chunk of one bin with the objects of its components.\<close>

definition move_objs :: "string list \<Rightarrow> chunk \<times> chunk \<Rightarrow> chunk \<times> chunk" where
  "move_objs objs = fold (\<lambda>obj (r, c). case move_obj r c obj of (r', c', _) \<Rightarrow> (r', c')) objs"

fun fill_bin ::
  "(string \<times> string list) list \<Rightarrow> component list \<Rightarrow> chunk \<times> chunk \<Rightarrow> (chunk \<times> chunk) outcome" where
  "fill_bin rmap [] rc = Inr rc"
| "fill_bin rmap (szmeta # bin) rc =
     (case map_of rmap (content_id (meta szmeta)) of
        None \<Rightarrow> Inl (Panic ''called `Option::unwrap()` on a `None` value'')
      | Some objs \<Rightarrow> fill_bin rmap bin (move_objs objs rc))"

fun fill_bins ::
  "(string \<times> string list) list \<Rightarrow> component list list \<Rightarrow> chunking \<Rightarrow> chunking outcome" where
  "fill_bins rmap [] self = Inr self"
| "fill_bins rmap (bin # bins) self =
     rbind (fill_bin rmap bin
              (remainder self,
               (chunk_new (bin_name bin))\<lparr>ck_packages := map (\<lambda>v. meta_name (meta v)) bin\<rparr>))
       (\<lambda>(r, c). fill_bins rmap bins (self\<lparr>remainder := r, chunks := chunks self @ [c]\<rparr>))"

definition process_mapping ::
  "'f float_ops \<Rightarrow> bool \<Rightarrow> chunking \<Rightarrow> (string \<times> string) list \<Rightarrow> component list \<Rightarrow> nat option
     \<Rightarrow> layer_annotations list option \<Rightarrow> (string \<times> (string \<times> string) list) list option
     \<Rightarrow> chunking outcome option" where
  "process_mapping F ovf self0 meta_map sizes max_opt prior specific =
     (let self = self0\<lparr>max_layers := (case max_opt of None \<Rightarrow> MAX_CHUNKS | Some m \<Rightarrow> m)\<rparr>
      in if processed_mapping self then Some (Inl (Panic ''assertion failed''))
         else
      let self = self\<lparr>processed_mapping := True\<rparr>
      in if remaining self = 0 then Some (Inr self)
         else
      if u32_max < length sizes
      then Some (Inl (Panic ''called `Result::unwrap()` on an `Err` value''))
      else
      let specific_meta = (case specific of None \<Rightarrow> [] | Some m \<Rightarrow> m);
          self = exclusive_chunks specific_meta self;
          self = self\<lparr>n_provided_components := length sizes,
                      n_sized_components := length (filter (\<lambda>v. 0 < size_of v) sizes)\<rparr>;
          regular_sizes = filter (\<lambda>c. content_id (meta c) \<notin> fst ` set specific_meta) sizes;
          rmap = create_content_id_map meta_map;
          check = (\<lambda>s. if (specific_meta \<noteq> [] \<or> regular_sizes \<noteq> []) \<and> ck_content (remainder s) \<noteq> []
                       then Inl (Panic ''assertion `left == right` failed'') else Inr s)
      in if remaining self = 0 then Some (check self)
         else
           (case basic_packing F ovf regular_sizes (remaining self) prior of
              None \<Rightarrow> None
            | Some (Inl e) \<Rightarrow> Some (Inl e)
            | Some (Inr packing) \<Rightarrow> Some (rbind (fill_bins rmap packing self) check)))"

section \<open>Sizes and objects\<close>

definition content_size :: "chunk_mapping \<Rightarrow> nat" where
  "content_size m = sum_mset (image_mset (\<lambda>e. fst (snd e)) (mset m))"

text \<open>The recorded size of a chunk is the total size of its objects.\<close>

definition chunk_exact :: "chunk \<Rightarrow> bool" where
  "chunk_exact c = (bt_wf (ck_content c) \<and> ck_size c = content_size (ck_content c))"

definition chunk_keys :: "chunk \<Rightarrow> string set" where
  "chunk_keys c = dom (bt_get (ck_content c))"

definition pair_ok :: "(string \<times> nat \<times> string list) multiset \<Rightarrow> chunk \<times> chunk \<Rightarrow> bool" where
  "pair_ok T rc =
     (chunk_exact (fst rc) \<and> chunk_exact (snd rc) \<and> chunk_keys (fst rc) \<inter> chunk_keys (snd rc) = {}
      \<and> mset (ck_content (fst rc)) + mset (ck_content (snd rc)) = T)"

definition move_step :: "string \<Rightarrow> chunk \<times> chunk \<Rightarrow> chunk \<times> chunk" where
  "move_step obj rc = (case move_obj (fst rc) (snd rc) obj of (r', c', _) \<Rightarrow> (r', c'))"

lemma move_objs_step: "move_objs objs = fold move_step objs"
  unfolding move_objs_def move_step_def by (rule arg_cong [where f = "\<lambda>f. fold f objs"]) (auto simp: fun_eq_iff)

lemma move_step_ok:
  assumes "pair_ok T rc"
  shows "pair_ok T (move_step obj rc)"
proof (cases "bt_get (ck_content (fst rc)) obj")
  case None
  then show ?thesis using assms by (simp add: move_step_def move_obj_def)
next
  case (Some sp)
  obtain r c where rc: "rc = (r, c)" by (cases rc)
  obtain sz ps where sp: "sp = (sz, ps)" by (cases sp)
  have r: "bt_wf (ck_content r)" "ck_size r = content_size (ck_content r)"
    and c: "bt_wf (ck_content c)" "ck_size c = content_size (ck_content c)"
    and disj: "chunk_keys r \<inter> chunk_keys c = {}"
    and T: "mset (ck_content r) + mset (ck_content c) = T"
    using assms by (auto simp: pair_ok_def chunk_exact_def rc)
  have new: "bt_get (ck_content c) obj = None"
    using Some disj unfolding chunk_keys_def rc fst_conv by (metis disjoint_iff domI domIff)
  note out = mset_bt_remove [OF r(1) Some [unfolded rc sp fst_conv]]
  have ins: "mset (bt_insert obj (sz, ps) (ck_content c)) = add_mset (obj, sz, ps) (mset (ck_content c))"
    unfolding bt_insert_def using mset_bt_update_new [OF new] by simp
  let ?r = "r\<lparr>ck_content := bt_remove obj (ck_content r), ck_size := ck_size r - sz\<rparr>"
  let ?c = "c\<lparr>ck_content := bt_insert obj (sz, ps) (ck_content c), ck_size := ck_size c + sz\<rparr>"
  have step: "move_step obj rc = (?r, ?c)"
    using Some by (simp add: move_step_def move_obj_def rc sp)
  have "chunk_exact ?r"
    using r out by (simp add: chunk_exact_def content_size_def bt.wf_del)
  moreover have "chunk_exact ?c"
    using c ins by (simp add: chunk_exact_def content_size_def bt_insert_def bt.wf_upd)
  moreover have "chunk_keys ?r \<inter> chunk_keys ?c = {}"
    using disj r(1) c(1) by (auto simp: chunk_keys_def bt.get_del bt_insert_def bt.get_upd)
  moreover have "mset (ck_content ?r) + mset (ck_content ?c) = T"
    using T out ins by simp
  ultimately show ?thesis by (simp add: pair_ok_def step)
qed

interpretation moves: stateful "pair_ok T" move_step for T
  by unfold_locales (rule move_step_ok)

lemma fill_bin_ok: "fill_bin rmap bin rc = Inr rc' \<Longrightarrow> pair_ok T rc \<Longrightarrow> pair_ok T rc'"
  by (induction rmap bin rc rule: fill_bin.induct)
    (auto simp: move_objs_step moves.run_inv split: option.splits)

text \<open>All objects of a chunking, wherever they are.\<close>

definition all_objects :: "chunking \<Rightarrow> (string \<times> nat \<times> string list) multiset" where
  "all_objects s = mset (ck_content (remainder s)) + (\<Sum>c\<leftarrow>chunks s. mset (ck_content c))"

definition chunking_exact :: "chunking \<Rightarrow> bool" where
  "chunking_exact s = (chunk_exact (remainder s) \<and> (\<forall>c \<in> set (chunks s). chunk_exact c))"

lemma pair_ok_new: "chunk_exact r \<Longrightarrow> pair_ok (mset (ck_content r)) (r, (chunk_new n)\<lparr>ck_packages := ps\<rparr>)"
  by (simp add: pair_ok_def chunk_new_def chunk_exact_def content_size_def chunk_keys_def)

lemma fill_bins_ok:
  "fill_bins rmap bins s = Inr s' \<Longrightarrow> chunking_exact s \<Longrightarrow>
     chunking_exact s' \<and> all_objects s' = all_objects s
     \<and> length (chunks s') = length (chunks s) + length bins \<and> max_layers s' = max_layers s"
proof (induction bins arbitrary: s)
  case Nil
  then show ?case by simp
next
  case (Cons bin bins)
  from Cons.prems(1) obtain r c where
    fill: "fill_bin rmap bin (remainder s,
      (chunk_new (bin_name bin))\<lparr>ck_packages := map (\<lambda>v. meta_name (meta v)) bin\<rparr>) = Inr (r, c)"
    and rest: "fill_bins rmap bins (s\<lparr>remainder := r, chunks := chunks s @ [c]\<rparr>) = Inr s'"
    by (auto simp: rbind_Inr_iff)
  have "pair_ok (mset (ck_content (remainder s))) (r, c)"
    using fill_bin_ok [OF fill] pair_ok_new Cons.prems(2) by (simp add: chunking_exact_def)
  then have "chunking_exact (s\<lparr>remainder := r, chunks := chunks s @ [c]\<rparr>)"
    and "all_objects (s\<lparr>remainder := r, chunks := chunks s @ [c]\<rparr>) = all_objects s"
    using Cons.prems(2) by (auto simp: pair_ok_def chunking_exact_def all_objects_def)
  with Cons.IH [OF rest] show ?case by simp
qed

lemma basic_packing_length:
  assumes "basic_packing F ovf cs n prior = Some (Inr r)" and "cut_ok F"
  shows "length r \<le> n"
proof -
  have n: "4 \<le> n" using assms(1)
    by (auto simp: basic_packing_def MIN_CHUNKED_LAYERS_def split: if_splits)
  have prior: "length r \<le> n" if "basic_packing_with_prior_build cs n p = Inr (Some r)" for p
    using that unfolding basic_packing_with_prior_build_def
    by (auto simp: rbind_Inr_iff Let_def split: if_splits)
  show ?thesis
    using assms(1) prior fresh_packing_cases [OF n assms(2), of ovf cs]
    by (auto simp: basic_packing_def split: if_splits option.splits sum.splits)
qed

section \<open>The walk records exact sizes\<close>

text \<open>Every object has the size the repository reports and at least one path.\<close>

definition walk_ok :: "ostree_repo \<Rightarrow> chunk \<Rightarrow> bool" where
  "walk_ok repo c =
     (chunk_exact c \<and> (\<forall>k s ps. bt_get (ck_content c) k = Some (s, ps) \<longrightarrow> query_file_size repo k = Inr s \<and> ps \<noteq> []))"

lemma add_file_ok:
  assumes "walk_ok repo c" and "query_file_size repo k = Inr sz"
  shows "walk_ok repo (add_file sz k p c)"
proof -
  have wf: "bt_wf (ck_content c)" and sz: "ck_size c = content_size (ck_content c)"
    using assms(1) by (auto simp: walk_ok_def chunk_exact_def)
  show ?thesis
  proof (cases "bt_get (ck_content c) k")
    case None
    then show ?thesis
      using assms wf sz mset_bt_update_new [OF None]
      by (auto simp: walk_ok_def chunk_exact_def add_file_def content_size_def bt.wf_upd bt.get_upd)
  next
    case (Some v)
    then obtain ps where v: "v = (sz, ps)" "ps \<noteq> []"
      using assms by (cases v) (auto simp: walk_ok_def)
    have "content_size (bt_update k f (ck_content c)) = content_size (ck_content c)"
      if "fst (f (Some v)) = sz" for f
      using that mset_bt_update_old [OF wf Some, of f] mset_bt_remove [OF wf Some] v
      by (simp add: content_size_def)
    then show ?thesis
      using assms wf sz Some v
      by (auto simp: walk_ok_def chunk_exact_def add_file_def bt.wf_upd bt.get_upd)
  qed
qed

lemma add_files_ok: "add_files repo dir fs c = Inr c' \<Longrightarrow> walk_ok repo c \<Longrightarrow> walk_ok repo c'"
  by (induction repo dir fs c rule: add_files.induct) (auto simp: rbind_Inr_iff add_file_ok)

lemma push_dirtree_found: "push_dirtree repo g k = Inr (g', dt) \<Longrightarrow> dirtree_found g' = dirtree_found g"
  by (auto simp: push_dirtree_def rbind_Inr_iff split: if_splits)

lemma push_dirmeta_found: "push_dirmeta repo g k = Inr g' \<Longrightarrow> dirtree_found g' = dirtree_found g"
  by (auto simp: push_dirmeta_def rbind_Inr_iff Let_def split: if_splits)

lemma walk_invariants:
  "generate_chunking_recurse depth repo g c dt = Some (Inr (g', c')) \<Longrightarrow>
     dirtree_found g' = dirtree_found g \<and> (walk_ok repo c \<longrightarrow> walk_ok repo c')"
  "generate_chunking_dirs d repo g c dirs = Some (Inr (g', c')) \<Longrightarrow>
     dirtree_found g' = dirtree_found g \<and> (walk_ok repo c \<longrightarrow> walk_ok repo c')"
proof (induction depth repo g c dt and d repo g c dirs arbitrary: g' c' and g' c'
    rule: generate_chunking_recurse_generate_chunking_dirs.induct)
  case (1 depth repo g c dt)
  then show ?case
    by (auto split: sum.splits nat.splits if_splits dest: add_files_ok)
next
  case (2 d repo g c)
  then show ?case by simp
next
  case (3 d repo g c name contents_csum meta_csum dirs)
  let ?g = "g\<lparr>gen_path := path_join (gen_path g) name\<rparr>"
  from "3.prems" obtain g1 dt g2 c2 g3 where
    p: "push_dirtree repo ?g contents_csum = Inr (g1, dt)"
    and r: "generate_chunking_recurse d repo g1 c dt = Some (Inr (g2, c2))"
    and m: "push_dirmeta repo g2 meta_csum = Inr g3"
    and rest: "generate_chunking_dirs d repo (g3\<lparr>gen_path := gen_path g\<rparr>) c2 dirs = Some (Inr (g', c'))"
    by (auto simp: Let_def split: sum.splits option.splits prod.splits)
  note "3.IH"(1) [OF refl refl p refl r]
  moreover note "3.IH"(2) [OF refl refl p refl r refl refl m rest]
  ultimately show ?case
    using push_dirtree_found [OF p] push_dirmeta_found [OF m] by simp
qed

section \<open>Properties\<close>

text \<open>
  C21. Without exclusive components and from a freshly generated chunking, \<^verbatim>\<open>process_mapping\<close> neither loses
  nor duplicates an object: the objects of the layers and the remainder together are
  those of the commit, the recorded size of every layer is the total size of its objects, the
  layers are no more than the requested maximum, and, when there are components at all, the
  remainder is empty.
\<close>

theorem process_mapping_conserves:
  assumes "process_mapping F ovf s meta_map sizes max_opt prior None = Some (Inr s')"
    and "chunking_exact s" and "chunks s = []" and "cut_ok F"
  shows "all_objects s' = all_objects s \<and> chunking_exact s'
       \<and> length (chunks s') \<le> max_layers s'
       \<and> (sizes \<noteq> [] \<and> max_layers s' \<noteq> 0 \<longrightarrow> ck_content (remainder s') = [])"
proof -
  let ?s1 = "s\<lparr>max_layers := (case max_opt of None \<Rightarrow> MAX_CHUNKS | Some m \<Rightarrow> m), processed_mapping := True\<rparr>"
  let ?s2 = "?s1\<lparr>n_provided_components := length sizes,
                  n_sized_components := length (filter (\<lambda>v. 0 < size_of v) sizes)\<rparr>"
  have ex: "chunking_exact ?s2" and ob: "all_objects ?s2 = all_objects s"
    and r: "remaining ?s2 = max_layers ?s1" "max_layers ?s2 = max_layers ?s1" "chunks ?s2 = []"
    using assms(2,3) by (simp_all add: chunking_exact_def all_objects_def remaining_def)
  show ?thesis
  proof (cases "max_layers ?s1 = 0")
    case True
    then have "s' = ?s1"
      using assms(1,3) by (auto simp: process_mapping_def Let_def remaining_def split: if_splits)
    then show ?thesis
      using True assms(2,3) by (simp add: all_objects_def chunking_exact_def)
  next
    case False
    then obtain packing where
      p: "basic_packing F ovf sizes (max_layers ?s1) prior = Some (Inr packing)"
      and f: "fill_bins (create_content_id_map meta_map) packing ?s2 = Inr s'"
      and e: "sizes \<noteq> [] \<longrightarrow> ck_content (remainder s') = []"
      using assms(1,3)
      by (auto simp: process_mapping_def Let_def remaining_def exclusive_chunks_def rbind_Inr_iff
          split: if_splits option.splits sum.splits)
    show ?thesis
      using fill_bins_ok [OF f ex] basic_packing_length [OF p assms(4)] ob r e by simp
  qed
qed

text \<open>
  The walk that generates the initial chunk keeps the recorded size equal to the total size of
  the distinct objects, counting a hard-linked object once, and records at least one path for
  each object.
\<close>

theorem generate_chunking_exact:
  assumes "generate_chunking_recurse depth repo g (chunk_new n) dt = Some (Inr (g', c))"
  shows "chunk_exact c \<and> (\<forall>k s ps. bt_get (ck_content c) k = Some (s, ps) \<longrightarrow>
           query_file_size repo k = Inr s \<and> ps \<noteq> [])"
proof -
  have "walk_ok repo (chunk_new n)"
    by (simp add: walk_ok_def chunk_exact_def chunk_new_def content_size_def)
  then show ?thesis using walk_invariants(1) [OF assms] by (simp add: walk_ok_def)
qed

text \<open>
  The walk never records a directory tree as found, so the check that is meant to count the
  metadata of a shared directory tree once is never taken: pushing a tree again adds its length
  again.
\<close>

theorem dirtree_never_found:
  assumes "generate_chunking_recurse depth repo g c dt = Some (Inr (g', c'))"
    and "dirtree_found g = {}" and "load_dirtree repo k = Inr v"
  shows "dirtree_found g' = {}
       \<and> push_dirtree repo g' k = Inr (g'\<lparr>gen_metadata_size := gen_metadata_size g' + dt_len v\<rparr>, v)"
  using walk_invariants(1) [OF assms(1)] assms(2,3) by (simp add: push_dirtree_def)

text \<open>
  \<^verbatim>\<open>move_path\<close> does not maintain sizes: moving the last path of a non-empty object removes the
  object from the source but leaves its size there, so the recorded size no longer matches the
  content, and the destination records the object with size zero.
\<close>

theorem move_path_loses_size:
  assumes "chunk_exact src" and "bt_get (ck_content src) k = Some (sz, [p])" and "0 < sz"
    and "bt_get (ck_content dest) k = None" and "bt_wf (ck_content dest)"
    and "move_path src dest k p = (src', dest')"
  shows "\<not> chunk_exact src' \<and> bt_get (ck_content dest') k = Some (0, [p]) \<and> ck_size dest' = ck_size dest"
proof -
  have wf: "bt_wf (ck_content src)" and sz: "ck_size src = content_size (ck_content src)"
    using assms(1) by (auto simp: chunk_exact_def)
  have "src' = src\<lparr>ck_content := bt_remove k (ck_content src)\<rparr>" and
    d: "dest' = dest\<lparr>ck_content := bt_update k
          (\<lambda>old. case old of None \<Rightarrow> (0, [p]) | Some (sz, ps) \<Rightarrow> (sz, ps @ [p])) (ck_content dest)\<rparr>"
    using assms(2,6) by (simp_all add: move_path_def)
  moreover have "content_size (ck_content src) = sz + content_size (bt_remove k (ck_content src))"
    using mset_bt_remove [OF wf assms(2)] by (simp add: content_size_def)
  ultimately show ?thesis
    using sz assms(3,4,5) by (simp add: chunk_exact_def bt.get_upd)
qed

subsection \<open>Examples\<close>

definition ex_repo :: ostree_repo where
  "ex_repo = \<lparr>
     load_dirtree = (\<lambda>k. if k = ''sub'' then Inr \<lparr>dt_files = [(''f'', ''obj'')], dt_dirs = [], dt_len = 7\<rparr>
                         else Inl ''No such metadata object''),
     load_dirmeta_len = (\<lambda>_. Inr 12),
     query_file_size = (\<lambda>_. Inr 5)\<rparr>"

definition ex_gen :: generation where
  "ex_gen = \<lparr>gen_path = ''/'', gen_metadata_size = 0, dirtree_found = {}, dirmeta_found = {}\<rparr>"

definition ex_root :: dirtree_variant where
  "ex_root = \<lparr>dt_files = [(''g'', ''obj'')], dt_dirs = [(''a'', ''sub'', ''m''), (''b'', ''sub'', ''m'')],
     dt_len = 9\<rparr>"

lemma ex_walk:
  "generate_chunking_recurse 2 ex_repo ex_gen (chunk_new []) ex_root =
     Some (Inr (\<lparr>gen_path = ''/'', gen_metadata_size = 38, dirtree_found = {}, dirmeta_found = {''m''}\<rparr>,
       \<lparr>ck_name = [], ck_content = [(''obj'', 5, [''/g'', ''/a/f'', ''/b/f''])], ck_size = 5, ck_packages = []\<rparr>))"
  by (simp add: ex_repo_def ex_gen_def ex_root_def chunk_new_def add_file_def path_join_def
      push_dirtree_def push_dirmeta_def Let_def numeral_2_eq_2)

theorem generate_chunking_exact_witness:
  "chunk_exact \<lparr>ck_name = [], ck_content = [(''obj'', 5, [''/g'', ''/a/f'', ''/b/f''])], ck_size = 5, ck_packages = []\<rparr>"
  using generate_chunking_exact [OF ex_walk] by blast

theorem dirtree_never_found_witness:
  "push_dirtree ex_repo
     \<lparr>gen_path = ''/'', gen_metadata_size = 38, dirtree_found = {}, dirmeta_found = {''m''}\<rparr> ''sub'' =
   Inr (\<lparr>gen_path = ''/'', gen_metadata_size = 45, dirtree_found = {}, dirmeta_found = {''m''}\<rparr>,
     \<lparr>dt_files = [(''f'', ''obj'')], dt_dirs = [], dt_len = 7\<rparr>)"
  using dirtree_never_found [OF ex_walk, of "''sub''" "\<lparr>dt_files = [(''f'', ''obj'')], dt_dirs = [], dt_len = 7\<rparr>"]
  by (simp add: ex_gen_def ex_repo_def)

definition ex_chunk :: chunk where
  "ex_chunk = \<lparr>ck_name = [], ck_content = [(''o1'', 5, [''/g'']), (''o2'', 2, [''/h''])], ck_size = 7, ck_packages = []\<rparr>"

lemma ex_chunk_exact: "chunk_exact ex_chunk"
  by (simp add: ex_chunk_def chunk_exact_def content_size_def bt_wf_def)

theorem move_path_loses_size_witness:
  "\<not> chunk_exact (fst (move_path ex_chunk (chunk_new []) ''o1'' ''/g''))"
  using move_path_loses_size [OF ex_chunk_exact, of "''o1''" 5 "''/g''" "chunk_new []"]
  by (cases "move_path ex_chunk (chunk_new []) ''o1'' ''/g''") (simp add: ex_chunk_def chunk_new_def)

definition ex_chunking :: chunking where
  "ex_chunking = \<lparr>metadata_size = 0, remainder = ex_chunk, chunks = [], max_layers = 0,
     processed_mapping = False, n_provided_components = 0, n_sized_components = 0\<rparr>"

lemma ex_process:
  "process_mapping rat_ops True ex_chunking [(''o1'', ''a''), (''o2'', ''b'')]
     [mk_pkg ''a'' 5 1, mk_pkg ''b'' 2 1] (Some 4) None None =
   Some (Inr (ex_chunking\<lparr>max_layers := 4, processed_mapping := True, n_provided_components := 2,
     n_sized_components := 2,
     remainder := \<lparr>ck_name = [], ck_content = [], ck_size = 0, ck_packages = []\<rparr>,
     chunks :=
       [\<lparr>ck_name = ''a'', ck_content = [(''o1'', 5, [''/g''])], ck_size = 5, ck_packages = [''a'']\<rparr>,
        \<lparr>ck_name = ''b'', ck_content = [(''o2'', 2, [''/h''])], ck_size = 2, ck_packages = [''b'']\<rparr>,
        \<lparr>ck_name = ''Reserved for new packages'', ck_content = [], ck_size = 0, ck_packages = []\<rparr>]\<rparr>))"
  by (simp add: process_mapping_def ex_chunking_def ex_chunk_def remaining_def exclusive_chunks_def
      u32_max_def mk_pkg_def basic_packing_def MIN_CHUNKED_LAYERS_def fresh_packing_def
      create_content_id_map_def move_objs_def move_obj_def chunk_new_def bin_name_def bt_remove_def
      bt_insert_def)

theorem process_mapping_conserves_witness:
  "\<exists>s'. process_mapping rat_ops True ex_chunking [(''o1'', ''a''), (''o2'', ''b'')]
          [mk_pkg ''a'' 5 1, mk_pkg ''b'' 2 1] (Some 4) None None = Some (Inr s')
     \<and> all_objects s' = all_objects ex_chunking \<and> length (chunks s') \<le> 4"
proof -
  have "chunking_exact ex_chunking" "chunks ex_chunking = []"
    using ex_chunk_exact by (simp_all add: ex_chunking_def chunking_exact_def)
  from process_mapping_conserves [OF ex_process this cut_ok_rat_ops] ex_process
  show ?thesis by auto
qed

end
