(* ===== verification/Etc_Merge.thy ===== *)
theory Etc_Merge
  imports Rust_Collections
begin

text \<open>
  The three-way merge of \<^verbatim>\<open>/etc\<close> (\<^verbatim>\<open>crates/etc-merge/src/lib.rs\<close>): the difference between the
  pristine and the current tree, the check against the tree of the new deployment, and the merge
  itself.

  The trees are those of the crate \<^verbatim>\<open>composefs\<close>: a directory is its metadata and its entries in
  sorted order, a leaf is an index into a table. The lookups of that crate are a record of
  parameters. A path is its list of names. The merge runs file system operations; executing one and
  reading the type of a path are parameters over an arbitrary state.
\<close>

section \<open>Trees\<close>

record fstat =
  st_mode :: nat
  st_uid :: nat
  st_gid :: nat
  st_mtim_sec :: int
  st_mtim_nsec :: nat
  st_xattrs :: "(string \<times> string) list"

record custom_metadata =
  content_hash :: string
  meta_verity :: "string option"

datatype leaf_content = Regular custom_metadata | Symlink string | OtherLeaf

record leaf =
  leaf_stat :: fstat
  leaf_content :: leaf_content

datatype inode = DirInode fstat "(string \<times> inode) list" | LeafInode nat

type_synonym dir = "fstat \<times> (string \<times> inode) list"
type_synonym path = "string list"

datatype image_error = NotFound | NotADirectory | IsADirectory | OtherImageError

record tree_ops =
  get_directory :: "dir \<Rightarrow> path \<Rightarrow> image_error + dir"
  get_leaf_id :: "dir \<Rightarrow> string \<Rightarrow> image_error + nat"
  tree_split :: "dir \<Rightarrow> path \<Rightarrow> image_error + (dir \<times> string)"
  tree_lookup :: "dir \<Rightarrow> string \<Rightarrow> inode option"

record unmergable =
  um_path :: path
  um_reason :: string

record diff =
  added :: "path list"
  modified :: "path list"
  removed :: "path list"
  unmergable_paths :: "unmergable list"

definition stat_eq_ignore_mtime :: "fstat \<Rightarrow> fstat \<Rightarrow> bool" where
  "stat_eq_ignore_mtime a b =
     (if st_uid a \<noteq> st_uid b then False
      else if st_gid a \<noteq> st_gid b then False
      else if st_mode a \<noteq> st_mode b then False
      else if st_xattrs a \<noteq> st_xattrs b then False
      else True)"

section \<open>The difference\<close>

fun collect_all_files :: "(string \<times> inode) list \<Rightarrow> path \<Rightarrow> path list" where
  "collect_all_files [] path = []"
| "collect_all_files ((n, DirInode st es) # rest) path =
     (path @ [n]) # collect_all_files es (path @ [n]) @ collect_all_files rest path"
| "collect_all_files ((n, LeafInode i) # rest) path = (path @ [n]) # collect_all_files rest path"

definition push_added :: "path \<Rightarrow> diff \<Rightarrow> diff" where
  "push_added p d = d\<lparr>added := added d @ [p]\<rparr>"

definition push_modified :: "path \<Rightarrow> diff \<Rightarrow> diff" where
  "push_modified p d = d\<lparr>modified := modified d @ [p]\<rparr>"

definition push_removed :: "path \<Rightarrow> diff \<Rightarrow> diff" where
  "push_removed p d = d\<lparr>removed := removed d @ [p]\<rparr>"

definition push_unmergable :: "path \<Rightarrow> string \<Rightarrow> diff \<Rightarrow> diff" where
  "push_unmergable p r d = d\<lparr>unmergable_paths := unmergable_paths d @ [\<lparr>um_path = p, um_reason = r\<rparr>]\<rparr>"

fun get_deletions ::
    "tree_ops \<Rightarrow> dir \<Rightarrow> (string \<times> inode) list \<Rightarrow> path \<Rightarrow> diff \<Rightarrow> diff outcome" where
  "get_deletions T current [] path d = Inr d"
| "get_deletions T current ((n, DirInode st es) # rest) path d =
     rbind (case get_directory T current [n] of
              Inr curr_dir \<Rightarrow> get_deletions T curr_dir es (path @ [n]) d
            | Inl NotFound \<Rightarrow> Inr (push_removed (path @ [n]) d)
            | Inl NotADirectory \<Rightarrow> Inr d
            | Inl e \<Rightarrow> Inl (Err ''Getting deletions''))
       (\<lambda>d'. get_deletions T current rest path d')"
| "get_deletions T current ((n, LeafInode i) # rest) path d =
     rbind (case get_leaf_id T current n of
              Inr _ \<Rightarrow> Inr d
            | Inl NotFound \<Rightarrow> Inr (push_removed (path @ [n]) d)
            | Inl IsADirectory \<Rightarrow> Inr d
            | Inl e \<Rightarrow> Inl (Err ''Getting deletions''))
       (\<lambda>d'. get_deletions T current rest path d')"

definition check_if_mergable :: "tree_ops \<Rightarrow> dir \<Rightarrow> inode \<Rightarrow> path \<Rightarrow> diff \<Rightarrow> diff outcome" where
  "check_if_mergable T new current_inode path d =
     (case current_inode of
        DirInode _ _ \<Rightarrow>
          (case get_directory T new path of
             Inr _ \<Rightarrow> Inr d
           | Inl NotADirectory \<Rightarrow>
               Inr (push_unmergable path ''Directory now defaults to a file in new etc'' d)
           | Inl NotFound \<Rightarrow> Inr d
           | Inl e \<Rightarrow> Inl (Err ''Checking mergability''))
      | LeafInode _ \<Rightarrow>
          (case get_directory T new path of
             Inr _ \<Rightarrow> Inr (push_unmergable path ''File now defaults to a directory in new etc'' d)
           | Inl NotFound \<Rightarrow> Inr d
           | Inl NotADirectory \<Rightarrow> Inr d
           | Inl e \<Rightarrow> Inl (Err ''Checking mergability'')))"

text \<open>\<^verbatim>\<open>Vec::insert\<close>.\<close>

definition vec_insert :: "nat \<Rightarrow> 'a \<Rightarrow> 'a list \<Rightarrow> 'a list" where
  "vec_insert i x xs = take i xs @ x # drop i xs"

text \<open>A changed directory that the new tree does not have as a directory is listed itself.\<close>

definition restore_dir :: "path \<Rightarrow> nat \<Rightarrow> nat \<Rightarrow> diff \<Rightarrow> diff" where
  "restore_dir p total_added total_modified d =
     (if length (added d) \<noteq> total_added then d\<lparr>added := vec_insert total_added p (added d)\<rparr>
      else if length (modified d) \<noteq> total_modified
      then d\<lparr>modified := vec_insert total_modified p (modified d)\<rparr>
      else d)"

definition leaf_changed :: "leaf \<Rightarrow> leaf \<Rightarrow> bool outcome" where
  "leaf_changed old_leaf leaf =
     (if \<not> stat_eq_ignore_mtime (leaf_stat old_leaf) (leaf_stat leaf) then Inr True
      else case (leaf_content old_leaf, leaf_content leaf) of
             (Regular old_meta, Regular current_meta) \<Rightarrow>
               Inr (content_hash old_meta \<noteq> content_hash current_meta)
           | (Symlink old_link, Symlink current_link) \<Rightarrow> Inr (old_link \<noteq> current_link)
           | (Symlink _, Regular _) \<Rightarrow> Inr True
           | (Regular _, Symlink _) \<Rightarrow> Inr True
           | _ \<Rightarrow> Inl (Panic ''unreachable''))"

definition leaf_at :: "leaf list \<Rightarrow> nat \<Rightarrow> leaf outcome" where
  "leaf_at leaves i =
     (if i < length leaves then Inr (leaves ! i) else Inl (Panic ''index out of bounds''))"

fun get_modifications ::
    "tree_ops \<Rightarrow> leaf list \<Rightarrow> leaf list \<Rightarrow> dir \<Rightarrow> dir \<Rightarrow> (string \<times> inode) list \<Rightarrow> path \<Rightarrow> diff
     \<Rightarrow> diff outcome" where
  "get_modifications T old_leaves leaves new pristine [] path d = Inr d"
| "get_modifications T old_leaves leaves new pristine ((n, DirInode st es) # rest) path d =
     rbind (case get_directory T pristine [n] of
              Inr old_dir \<Rightarrow>
                (let d1 = (if \<not> stat_eq_ignore_mtime st (fst old_dir)
                           then push_modified (path @ [n]) d else d) in
                 rbind (get_modifications T old_leaves leaves new old_dir es (path @ [n]) d1) (\<lambda>d2.
                 rbind (case get_directory T new (path @ [n]) of
                          Inr _ \<Rightarrow> Inr d2
                        | Inl NotFound \<Rightarrow>
                            Inr (restore_dir (path @ [n]) (length (added d1)) (length (modified d1)) d2)
                        | Inl NotADirectory \<Rightarrow>
                            Inr (restore_dir (path @ [n]) (length (added d1)) (length (modified d1)) d2)
                        | Inl e \<Rightarrow> Inl (Err ''Getting modifications'')) (\<lambda>d3.
                 if length (modified d3) \<noteq> length (modified d1) \<or> length (added d3) \<noteq> length (added d1)
                 then check_if_mergable T new (DirInode st es) (path @ [n]) d3 else Inr d3)))
            | Inl NotFound \<Rightarrow>
                rbind (check_if_mergable T new (DirInode st es) (path @ [n])
                         (push_added (path @ [n]) d)) (\<lambda>d1.
                Inr (d1\<lparr>added := added d1 @ collect_all_files es (path @ [n])\<rparr>))
            | Inl NotADirectory \<Rightarrow>
                check_if_mergable T new (DirInode st es) (path @ [n]) (push_modified (path @ [n]) d)
            | Inl e \<Rightarrow> Inl (Err ''Opening pristine''))
       (\<lambda>d'. get_modifications T old_leaves leaves new pristine rest path d')"
| "get_modifications T old_leaves leaves new pristine ((n, LeafInode i) # rest) path d =
     rbind (case get_leaf_id T pristine n of
              Inr old_id \<Rightarrow>
                rbind (leaf_at leaves i) (\<lambda>leaf.
                rbind (leaf_at old_leaves old_id) (\<lambda>old_leaf.
                rbind (leaf_changed old_leaf leaf) (\<lambda>changed.
                if changed then
                  check_if_mergable T new (LeafInode i) (path @ [n]) (push_modified (path @ [n]) d)
                else Inr d)))
            | Inl IsADirectory \<Rightarrow>
                check_if_mergable T new (LeafInode i) (path @ [n]) (push_modified (path @ [n]) d)
            | Inl NotFound \<Rightarrow>
                check_if_mergable T new (LeafInode i) (path @ [n]) (push_added (path @ [n]) d)
            | Inl e \<Rightarrow> Inl (Err ''Opening pristine''))
       (\<lambda>d'. get_modifications T old_leaves leaves new pristine rest path d')"

text \<open>A file system: the root directory and the table of leaves.\<close>

type_synonym filesystem = "dir \<times> leaf list"

definition diff_empty :: diff where
  "diff_empty = \<lparr>added = [], modified = [], removed = [], unmergable_paths = []\<rparr>"

definition compute_diff ::
    "tree_ops \<Rightarrow> filesystem \<Rightarrow> filesystem \<Rightarrow> filesystem \<Rightarrow> diff outcome" where
  "compute_diff T pristine current new =
     rbind (get_modifications T (snd pristine) (snd current) (fst new) (fst pristine)
              (snd (fst current)) [] diff_empty) (\<lambda>d.
     get_deletions T (fst current) (snd (fst pristine)) [] d)"

section \<open>The merge\<close>

datatype fs_op =
    CreateDirAll path
  | SetPermissions path nat
  | Chown path nat nat
  | SetXattr path string string
  | RemoveAllOptional path
  | CreateSymlink string path
  | CopyFromCurrent path
  | RemoveFile path
  | RemoveDirAll path

datatype file_type = FileType | SymlinkType | DirType | OtherType

record 's fs =
  fs_exec :: "fs_op \<Rightarrow> 's \<Rightarrow> 's res"
  fs_symlink_metadata :: "'s \<Rightarrow> path \<Rightarrow> file_type option res"

fun run_ops :: "'s fs \<Rightarrow> fs_op list \<Rightarrow> 's \<Rightarrow> 's outcome" where
  "run_ops F [] s = Inr s"
| "run_ops F (x # ops) s =
     (case fs_exec F x s of Inl e \<Rightarrow> Inl (Err e) | Inr s' \<Rightarrow> run_ops F ops s')"

definition copy_xattrs :: "(string \<times> string) list \<Rightarrow> path \<Rightarrow> fs_op list" where
  "copy_xattrs xattrs p = map (\<lambda>(attr, v). SetXattr p attr v) xattrs"

definition create_dir_with_perms :: "path \<Rightarrow> fstat \<Rightarrow> inode option \<Rightarrow> fs_op list outcome" where
  "create_dir_with_perms p st new_inode =
     rbind (case new_inode of
              Some (DirInode _ _) \<Rightarrow> Inr []
            | Some (LeafInode _) \<Rightarrow>
                Inl (Err ''Modified config directory newly defaults to file. Cannot merge'')
            | None \<Rightarrow> Inr [CreateDirAll p]) (\<lambda>mk.
     Inr (mk @ [SetPermissions p (st_mode st), Chown p (st_uid st) (st_gid st)]
          @ copy_xattrs (st_xattrs st) p))"

definition merge_leaf :: "leaf \<Rightarrow> inode option \<Rightarrow> path \<Rightarrow> fs_op list outcome" where
  "merge_leaf leaf new_inode p =
     (case leaf_content leaf of
        OtherLeaf \<Rightarrow> Inr []
      | content \<Rightarrow>
          (if (case new_inode of Some (DirInode _ _) \<Rightarrow> True | _ \<Rightarrow> False) then
             Inl (Err ''Modified config file newly defaults to directory. Cannot merge'')
           else Inr (RemoveAllOptional p
                     # (case content of Symlink target \<Rightarrow> CreateSymlink target p | _ \<Rightarrow> CopyFromCurrent p)
                     # Chown p (st_uid (leaf_stat leaf)) (st_gid (leaf_stat leaf))
                     # copy_xattrs (st_xattrs (leaf_stat leaf)) p)))"

definition merge_inode :: "leaf list \<Rightarrow> inode \<Rightarrow> inode option \<Rightarrow> path \<Rightarrow> fs_op list outcome" where
  "merge_inode leaves current_inode new_inode p =
     (case current_inode of
        DirInode st _ \<Rightarrow> create_dir_with_perms p st new_inode
      | LeafInode i \<Rightarrow> rbind (leaf_at leaves i) (\<lambda>leaf. merge_leaf leaf new_inode p))"

definition merge_file_ops :: "tree_ops \<Rightarrow> filesystem \<Rightarrow> dir \<Rightarrow> path \<Rightarrow> fs_op list outcome" where
  "merge_file_ops T current new p =
     (case tree_split T (fst current) p of
        Inl e \<Rightarrow> Inl (Err ''Getting directory and file'')
      | Inr (dir, filename) \<Rightarrow>
          rbind (ok_or (Err ''not found'') (tree_lookup T dir filename)) (\<lambda>current_inode.
          case tree_split T new p of
            Inr (new_dir, name) \<Rightarrow> merge_inode (snd current) current_inode (tree_lookup T new_dir name) p
          | Inl NotFound \<Rightarrow> merge_inode (snd current) current_inode None p
          | Inl e \<Rightarrow> Inl (Err ''Opening in new etc'')))"

fun merge_modified_files ::
    "tree_ops \<Rightarrow> 's fs \<Rightarrow> filesystem \<Rightarrow> dir \<Rightarrow> path list \<Rightarrow> 's \<Rightarrow> 's outcome" where
  "merge_modified_files T F current new [] s = Inr s"
| "merge_modified_files T F current new (p # ps) s =
     rbind (merge_file_ops T current new p) (\<lambda>ops.
     rbind (run_ops F ops s) (\<lambda>s'. merge_modified_files T F current new ps s'))"

fun merge_removed :: "'s fs \<Rightarrow> path list \<Rightarrow> 's \<Rightarrow> 's outcome" where
  "merge_removed F [] s = Inr s"
| "merge_removed F (p # ps) s =
     (case fs_symlink_metadata F s p of
        Inl e \<Rightarrow> Inl (Err e)
      | Inr None \<Rightarrow> merge_removed F ps s
      | Inr (Some t) \<Rightarrow>
          rbind (run_ops F (if t = FileType \<or> t = SymlinkType then [RemoveFile p]
                            else if t = DirType then [RemoveDirAll p] else []) s)
            (\<lambda>s'. merge_removed F ps s'))"

definition merge :: "tree_ops \<Rightarrow> 's fs \<Rightarrow> filesystem \<Rightarrow> filesystem \<Rightarrow> diff \<Rightarrow> 's \<Rightarrow> 's outcome" where
  "merge T F current new d s =
     rbind (merge_modified_files T F current (fst new) (added d) s) (\<lambda>s1.
     rbind (merge_modified_files T F current (fst new) (modified d) s1) (\<lambda>s2.
     merge_removed F (removed d) s2))"

section \<open>Reading files into the tree\<close>

text \<open>
  The leaf that is recorded for a regular file: for a file with fs-verity enabled, its digest and an
  empty content hash; otherwise the hash of its contents.
\<close>

definition file_leaf :: "fstat \<Rightarrow> string option \<Rightarrow> string \<Rightarrow> leaf" where
  "file_leaf st measured_verity content_digest =
     (case measured_verity of
        Some v \<Rightarrow> \<lparr>leaf_stat = st, leaf_content = Regular \<lparr>content_hash = '''', meta_verity = Some v\<rparr>\<rparr>
      | None \<Rightarrow> \<lparr>leaf_stat = st,
                 leaf_content = Regular \<lparr>content_hash = content_digest, meta_verity = None\<rparr>\<rparr>)"

section \<open>Lookups\<close>

text \<open>The inode at a path, and the walk to a directory with the errors it reports.\<close>

fun at_path :: "(string \<times> inode) list \<Rightarrow> path \<Rightarrow> inode option" where
  "at_path es [] = None"
| "at_path es [n] = map_of es n"
| "at_path es (n # m # p) =
     (case map_of es n of Some (DirInode st es') \<Rightarrow> at_path es' (m # p) | _ \<Rightarrow> None)"

fun walk :: "dir \<Rightarrow> path \<Rightarrow> image_error + dir" where
  "walk d [] = Inr d"
| "walk d (n # p) =
     (case map_of (snd d) n of
        None \<Rightarrow> Inl NotFound
      | Some (LeafInode _) \<Rightarrow> Inl NotADirectory
      | Some (DirInode st es) \<Rightarrow> walk (st, es) p)"

lemma walk_append: "walk d (p @ q) = rbind (walk d p) (\<lambda>d'. walk d' q)"
  by (induction d p rule: walk.induct) (auto split: option.splits inode.splits)

lemma walk_errors: "walk d p = Inl e \<Longrightarrow> e = NotFound \<or> e = NotADirectory"
  by (induction d p rule: walk.induct) (auto split: option.splits inode.splits)

lemma walk_NotFound_append: "walk d p = Inl NotFound \<Longrightarrow> walk d (p @ q) = Inl NotFound"
  by (simp add: walk_append)

lemma at_path_walk:
  "at_path es p = Some i \<Longrightarrow>
   p \<noteq> [] \<and> (\<exists>d'. walk (st, es) (butlast p) = Inr d' \<and> map_of (snd d') (last p) = Some i)"
proof (induction es p arbitrary: st rule: at_path.induct)
  case (3 es n m p)
  then obtain st' es' where e: "map_of es n = Some (DirInode st' es')" "at_path es' (m # p) = Some i"
    by (auto split: option.splits inode.splits)
  then obtain d' where "walk (st', es') (butlast (m # p)) = Inr d'" "map_of (snd d') (last (m # p)) = Some i"
    using 3(1) [OF e(1) refl e(2)] by blast
  with e(1) show ?case by simp
qed auto

lemma at_path_extend:
  assumes "map_of es n = Some (DirInode st es')" and "at_path es' r = Some i"
  shows "at_path es (n # r) = Some i"
  using assms by (cases r) auto

text \<open>Names are unique in every directory and leaf indices are in range.\<close>

fun wf_entries :: "nat \<Rightarrow> (string \<times> inode) list \<Rightarrow> bool" where
  "wf_entries k [] = True"
| "wf_entries k ((n, DirInode st es) # rest) =
     (n \<notin> fst ` set rest \<and> wf_entries k es \<and> wf_entries k rest)"
| "wf_entries k ((n, LeafInode i) # rest) = (n \<notin> fst ` set rest \<and> i < k \<and> wf_entries k rest)"

lemma at_path_rest:
  assumes "n \<notin> fst ` set rest" and "at_path rest r = Some i"
  shows "at_path ((n, x) # rest) r = Some i"
proof -
  obtain m r' where r: "r = m # r'" using assms(2) by (cases r) auto
  then have "map_of rest m \<noteq> None" using assms(2) by (cases r') (auto split: option.splits)
  then have "m \<in> fst ` set rest" by (metis map_of_eq_None_iff)
  then have "m \<noteq> n" using assms(1) by blast
  with assms(2) r show ?thesis by (cases r') auto
qed

lemma wf_entries_child:
  "wf_entries k es \<Longrightarrow> map_of es n = Some (DirInode st es') \<Longrightarrow> wf_entries k es'"
  by (induction k es rule: wf_entries.induct) (auto split: if_splits)

lemma wf_entries_leaf_entry: "wf_entries k es \<Longrightarrow> map_of es n = Some (LeafInode i) \<Longrightarrow> i < k"
  by (induction k es rule: wf_entries.induct) (auto split: if_splits)

lemma wf_entries_leaf: "wf_entries k es \<Longrightarrow> at_path es p = Some (LeafInode i) \<Longrightarrow> i < k"
proof (induction es p rule: at_path.induct)
  case (3 es n m p)
  then show ?case
    using wf_entries_child [OF 3(2)] by (auto split: option.splits inode.splits)
qed (auto dest: wf_entries_leaf_entry)

text \<open>The documented behaviour of the tree that the merge relies on.\<close>

locale etc_tree =
  fixes T :: tree_ops
  assumes get_directory: "p \<noteq> [] \<Longrightarrow> get_directory T d p = walk d p"
    and get_leaf_id: "get_leaf_id T d n =
      (case map_of (snd d) n of
         None \<Rightarrow> Inl NotFound | Some (DirInode _ _) \<Rightarrow> Inl IsADirectory | Some (LeafInode i) \<Rightarrow> Inr i)"
    and tree_split: "p \<noteq> [] \<Longrightarrow> tree_split T d p = rbind (walk d (butlast p)) (\<lambda>d'. Inr (d', last p))"
    and tree_lookup: "tree_lookup T d n = map_of (snd d) n"

definition tree_ref :: tree_ops where
  "tree_ref =
     \<lparr>get_directory = walk,
      get_leaf_id = (\<lambda>d n. case map_of (snd d) n of
         None \<Rightarrow> Inl NotFound | Some (DirInode _ _) \<Rightarrow> Inl IsADirectory | Some (LeafInode i) \<Rightarrow> Inr i),
      tree_split = (\<lambda>d p. rbind (walk d (butlast p)) (\<lambda>d'. Inr (d', last p))),
      tree_lookup = (\<lambda>d. map_of (snd d))\<rparr>"

interpretation tree_ref: etc_tree tree_ref
  by unfold_locales (simp_all add: tree_ref_def)

section \<open>What the difference lists\<close>

text \<open>A step of the computation appends to the lists of the difference.\<close>

definition extends :: "diff \<Rightarrow> diff \<Rightarrow> path list \<Rightarrow> path list \<Rightarrow> unmergable list \<Rightarrow> bool" where
  "extends d d' A M U \<longleftrightarrow>
     added d' = added d @ A \<and> modified d' = modified d @ M \<and> removed d' = removed d
     \<and> unmergable_paths d' = unmergable_paths d @ U"

lemma extends_refl: "extends d d [] [] []"
  by (simp add: extends_def)

lemma extends_trans:
  "extends d d1 A M U \<Longrightarrow> extends d1 d2 A' M' U' \<Longrightarrow> extends d d2 (A @ A') (M @ M') (U @ U')"
  by (simp add: extends_def)

lemma extends_push:
  "extends d (push_added p d) [p] [] []" "extends d (push_modified p d) [] [p] []"
  by (simp_all add: extends_def push_added_def push_modified_def)

lemma restore_dir_extends:
  assumes "extends d1 d2 A M U"
  shows "\<exists>A' M'. extends d1 (restore_dir p (length (added d1)) (length (modified d1)) d2) A' M' U
    \<and> (if A \<noteq> [] then A' = p # A \<and> M' = M else if M \<noteq> [] then A' = A \<and> M' = p # M else A' = A \<and> M' = M)"
  using assms by (auto simp: extends_def restore_dir_def vec_insert_def)

text \<open>The new tree has room for an inode of the current one at a path.\<close>

definition mergable :: "dir \<Rightarrow> inode \<Rightarrow> path \<Rightarrow> bool" where
  "mergable new i p =
     (case i of DirInode _ _ \<Rightarrow> walk new p \<noteq> Inl NotADirectory
              | LeafInode _ \<Rightarrow> (\<forall>x. walk new p \<noteq> Inr x))"

definition compatible :: "dir \<Rightarrow> path \<Rightarrow> path \<Rightarrow> inode \<Rightarrow> bool" where
  "compatible new path r i \<longleftrightarrow>
     mergable new i (path @ r) \<and> (length r > 1 \<longrightarrow> walk new (path @ butlast r) \<noteq> Inl NotADirectory)"

definition lists :: "dir \<Rightarrow> (string \<times> inode) list \<Rightarrow> path \<Rightarrow> bool \<Rightarrow> path list \<Rightarrow> bool" where
  "lists new es path ok ps \<longleftrightarrow>
     (\<forall>p \<in> set ps. \<exists>r i. p = path @ r \<and> at_path es r = Some i \<and> (ok \<longrightarrow> compatible new path r i))"

lemma lists_append [simp]: "lists new es path ok (xs @ ys) \<longleftrightarrow> lists new es path ok xs \<and> lists new es path ok ys"
  by (auto simp: lists_def)

lemma lists_Nil [simp]: "lists new es path ok []"
  by (simp add: lists_def)

lemma lists_Cons: "lists new es path ok (p # ps) \<longleftrightarrow> lists new es path ok [p] \<and> lists new es path ok ps"
  by (auto simp: lists_def)

lemma lists_single:
  "at_path es [n] = Some i \<Longrightarrow> (ok \<Longrightarrow> mergable new i (path @ [n])) \<Longrightarrow> lists new es path ok [path @ [n]]"
  unfolding lists_def compatible_def by (auto intro!: exI [of _ "[n]"])

lemma lists_rest:
  "n \<notin> fst ` set rest \<Longrightarrow> lists new rest path ok ps \<Longrightarrow> lists new ((n, x) # rest) path ok ps"
  unfolding lists_def using at_path_rest by (metis (no_types, lifting))

lemma lists_weaken: "lists new es path ok ps \<Longrightarrow> (ok' \<Longrightarrow> ok) \<Longrightarrow> lists new es path ok' ps"
  unfolding lists_def by blast

lemma compatible_child:
  assumes "compatible new (path @ [n]) r i" and "r \<noteq> []" and "walk new (path @ [n]) \<noteq> Inl NotADirectory"
  shows "compatible new path (n # r) i"
proof (cases "butlast r = []")
  case True
  then show ?thesis using assms by (simp add: compatible_def)
next
  case False
  then have "length r > 1" by (cases r) (auto split: if_splits)
  then show ?thesis using assms by (simp add: compatible_def)
qed

lemma lists_child:
  assumes "map_of es n = Some (DirInode st es')" and "lists new es' (path @ [n]) ok ps"
    and "ok \<Longrightarrow> walk new (path @ [n]) \<noteq> Inl NotADirectory"
  shows "lists new es path ok ps"
  unfolding lists_def
proof
  fix p assume "p \<in> set ps"
  then obtain r i where r: "p = (path @ [n]) @ r" "at_path es' r = Some i"
      and c: "ok \<longrightarrow> compatible new (path @ [n]) r i"
    using assms(2) by (auto simp: lists_def)
  have ne: "r \<noteq> []" using r(2) by auto
  then have "ok \<longrightarrow> compatible new path (n # r) i" using c assms(3) compatible_child by blast
  moreover have "at_path es (n # r) = Some i" by (rule at_path_extend [OF assms(1) r(2)])
  ultimately show "\<exists>r i. p = path @ r \<and> at_path es r = Some i \<and> (ok \<longrightarrow> compatible new path r i)"
    using r(1) by (intro exI [of _ "n # r"]) auto
qed

lemma collect_all_files_lists:
  "wf_entries k es \<Longrightarrow> (ok \<Longrightarrow> walk new path = Inl NotFound) \<Longrightarrow>
   lists new es path ok (collect_all_files es path)"
proof (induction es path rule: collect_all_files.induct)
  case (2 n st es rest path)
  have nf: "ok \<Longrightarrow> walk new (path @ [n]) = Inl NotFound"
    using 2(4) walk_NotFound_append by blast
  have "lists new ((n, DirInode st es) # rest) path ok (collect_all_files es (path @ [n]))"
    by (rule lists_child) (use 2 nf in auto)
  moreover have "lists new ((n, DirInode st es) # rest) path ok (collect_all_files rest path)"
    by (rule lists_rest) (use 2 in auto)
  moreover have "lists new ((n, DirInode st es) # rest) path ok [path @ [n]]"
    by (rule lists_single [where i = "DirInode st es"]) (use nf in \<open>auto simp: mergable_def\<close>)
  ultimately show ?case unfolding collect_all_files.simps by (subst lists_Cons) simp
next
  case (3 n i rest path)
  have nf: "ok \<Longrightarrow> walk new (path @ [n]) = Inl NotFound"
    using 3(3) walk_NotFound_append by blast
  have "lists new ((n, LeafInode i) # rest) path ok (collect_all_files rest path)"
    by (rule lists_rest) (use 3 in auto)
  moreover have "lists new ((n, LeafInode i) # rest) path ok [path @ [n]]"
    by (rule lists_single [where i = "LeafInode i"]) (use nf in \<open>auto simp: mergable_def\<close>)
  ultimately show ?case unfolding collect_all_files.simps by (subst lists_Cons) simp
qed simp

text \<open>
  The computation does not check directories inside an added directory, nor a directory of which
  only the metadata changed. For these the new tree must not have anything in the way.
\<close>

definition unchecked_ok :: "dir \<Rightarrow> dir \<Rightarrow> (string \<times> inode) list \<Rightarrow> path \<Rightarrow> bool" where
  "unchecked_ok new pristine es path \<longleftrightarrow>
     (\<forall>r st es'. at_path es r = Some (DirInode st es') \<longrightarrow>
        (walk pristine r = Inl NotFound \<longrightarrow> walk new (path @ r) = Inl NotFound)
        \<and> (\<forall>old. walk pristine r = Inr old \<and> \<not> stat_eq_ignore_mtime st (fst old) \<longrightarrow>
             walk new (path @ r) \<noteq> Inl NotADirectory))"

lemma unchecked_ok_rest:
  "unchecked_ok new pristine ((n, x) # rest) path \<Longrightarrow> n \<notin> fst ` set rest \<Longrightarrow>
   unchecked_ok new pristine rest path"
  unfolding unchecked_ok_def using at_path_rest by blast

lemma unchecked_ok_child:
  assumes "unchecked_ok new pristine es path" and "map_of es n = Some (DirInode st es')"
    and "walk pristine [n] = Inr old"
  shows "unchecked_ok new old es' (path @ [n])"
  unfolding unchecked_ok_def
proof (intro allI impI)
  fix r st' es'' assume "at_path es' r = Some (DirInode st' es'')"
  then have "at_path es (n # r) = Some (DirInode st' es'')" using at_path_extend [OF assms(2)] by blast
  moreover have "walk pristine (n # r) = walk old r"
    using walk_append [of pristine "[n]" r] assms(3) by simp
  ultimately show "(walk old r = Inl NotFound \<longrightarrow> walk new ((path @ [n]) @ r) = Inl NotFound)
        \<and> (\<forall>o'. walk old r = Inr o' \<and> \<not> stat_eq_ignore_mtime st' (fst o') \<longrightarrow>
             walk new ((path @ [n]) @ r) \<noteq> Inl NotADirectory)"
    using assms(1) unfolding unchecked_ok_def by fastforce
qed

lemma lists_combine:
  assumes "lists new ((n, x) # rest) path (U1 = [] \<and> F) (A1 @ M1)"
    and "lists new rest path (U2 = [] \<and> F') (A2 @ M2)"
    and "n \<notin> fst ` set rest" and "F \<Longrightarrow> F'"
  shows "lists new ((n, x) # rest) path (U1 @ U2 = [] \<and> F) ((A1 @ A2) @ (M1 @ M2))"
proof -
  have "lists new ((n, x) # rest) path (U1 @ U2 = [] \<and> F) (A1 @ M1)"
    by (rule lists_weaken [OF assms(1)]) simp
  moreover have "lists new ((n, x) # rest) path (U1 @ U2 = [] \<and> F) (A2 @ M2)"
    by (rule lists_weaken [OF lists_rest [OF assms(3,2)]]) (use assms(4) in simp)
  ultimately show ?thesis by simp
qed

context etc_tree
begin

lemma check_extends:
  assumes "check_if_mergable T new i p d = Inr d'" and "p \<noteq> []"
  shows "\<exists>U. extends d d' [] [] U \<and> (U = [] \<longrightarrow> mergable new i p)"
  using assms get_directory [of p new]
  by (auto simp: check_if_mergable_def extends_def push_unmergable_def mergable_def
      split: inode.splits sum.splits image_error.splits)

text \<open>The cases of an entry that is pushed and checked.\<close>

lemma check_pushed:
  assumes "check_if_mergable T new i (path @ [n]) d1 = Inr d'"
    and "d1 = push_added (path @ [n]) d \<or> d1 = push_modified (path @ [n]) d"
    and "at_path es [n] = Some i"
  shows "\<exists>A M U. extends d d' A M U \<and> lists new es path (U = [] \<and> F) (A @ M)
    \<and> (U = [] \<longrightarrow> mergable new i (path @ [n]))"
proof -
  obtain U where U: "extends d1 d' [] [] U" "U = [] \<longrightarrow> mergable new i (path @ [n])"
    using check_extends [OF assms(1)] by auto
  have l: "lists new es path (U = [] \<and> F) [path @ [n]]"
    using U(2) by (intro lists_single [OF assms(3)]) simp
  obtain A M where "extends d d1 A M []" "A @ M = [path @ [n]]"
    using assms(2) extends_push by (metis append_Nil append_Nil2)
  then have "extends d d' A M U" "lists new es path (U = [] \<and> F) (A @ M)"
    using extends_trans [OF _ U(1)] l by fastforce+
  with U(2) show ?thesis by blast
qed

text \<open>A directory that is new in the current tree.\<close>

lemma added_dir_lists:
  assumes "check_if_mergable T new (DirInode st es) (path @ [n]) (push_added (path @ [n]) d) = Inr d1"
    and "wf_entries k es" and "walk pristine [n] = Inl NotFound" and "map_of E n = Some (DirInode st es)"
  shows "\<exists>A M U. extends d (d1\<lparr>added := added d1 @ collect_all_files es (path @ [n])\<rparr>) A M U
    \<and> lists new E path (U = [] \<and> unchecked_ok new pristine E path) (A @ M)"
proof -
  obtain U where U: "extends (push_added (path @ [n]) d) d1 [] [] U" "U = [] \<longrightarrow> mergable new (DirInode st es) (path @ [n])"
    using check_extends [OF assms(1)] by auto
  let ?C = "collect_all_files es (path @ [n])" and ?ok = "U = [] \<and> unchecked_ok new pristine E path"
  have f: "walk new (path @ [n]) = Inl NotFound" if ?ok
    using that assms(3,4) unfolding unchecked_ok_def by (metis at_path.simps(2))
  have "lists new E path ?ok [path @ [n]]"
    using U(2) assms(4) by (intro lists_single) auto
  moreover have "lists new E path ?ok ?C"
    by (rule lists_child [OF assms(4) collect_all_files_lists [OF assms(2)]]) (use f in simp_all)
  ultimately have "lists new E path ?ok (((path @ [n]) # ?C) @ [])"
    by (subst lists_append, subst lists_Cons) simp
  moreover have "extends d (d1\<lparr>added := added d1 @ ?C\<rparr>) ((path @ [n]) # ?C) [] U"
    using U(1) by (simp add: extends_def push_added_def)
  ultimately show ?thesis by blast
qed

text \<open>A directory that both trees have, after its entries were compared.\<close>

lemma kept_dir_lists:
  assumes "extends d1 d2 A M U" and "lists new es (path @ [n]) (U = [] \<and> F') (A @ M)"
    and "F \<Longrightarrow> F'"
    and "d1 = d \<or> d1 = push_modified (path @ [n]) d"
    and "d3 = d2 \<or> d3 = restore_dir (path @ [n]) (length (added d1)) (length (modified d1)) d2"
    and "(if length (modified d3) \<noteq> length (modified d1) \<or> length (added d3) \<noteq> length (added d1)
          then check_if_mergable T new (DirInode st es) (path @ [n]) d3 else Inr d3) = Inr d4"
    and "map_of E n = Some (DirInode st es)"
    and "d1 = push_modified (path @ [n]) d \<Longrightarrow> F \<Longrightarrow> mergable new (DirInode st es) (path @ [n])"
  shows "\<exists>A M U. extends d d4 A M U \<and> lists new E path (U = [] \<and> F) (A @ M)"
proof -
  let ?p = "path @ [n]"
  obtain A' M' where d3: "extends d1 d3 A' M' U" and am: "set (A' @ M') \<subseteq> insert ?p (set (A @ M))"
      "A' @ M' = [] \<longleftrightarrow> A @ M = []"
  proof (cases "d3 = d2")
    case True
    then show ?thesis using that [of A M] assms(1) by auto
  next
    case False
    then obtain A' M' where r: "extends d1 d3 A' M' U" "(if A \<noteq> [] then A' = ?p # A \<and> M' = M
        else if M \<noteq> [] then A' = A \<and> M' = ?p # M else A' = A \<and> M' = M)"
      using restore_dir_extends [OF assms(1), of ?p] assms(5) by auto
    then have "set (A' @ M') \<subseteq> insert ?p (set (A @ M))" "A' @ M' = [] \<longleftrightarrow> A @ M = []"
      by (auto split: if_splits)
    then show ?thesis by (rule that [OF r(1)])
  qed
  have changed: "(length (modified d3) \<noteq> length (modified d1) \<or> length (added d3) \<noteq> length (added d1))
      \<longleftrightarrow> A' @ M' \<noteq> []"
    using d3 by (auto simp: extends_def)
  obtain U' where d4: "extends d3 d4 [] [] U'" and u': "U' = [] \<longrightarrow> A' @ M' \<noteq> [] \<longrightarrow> mergable new (DirInode st es) ?p"
    using assms(6) changed check_extends [of new "DirInode st es" ?p d3 d4] extends_refl [of d3]
    by (auto split: if_splits)
  obtain M0 where m0: "extends d d1 [] M0 []" "M0 = [] \<or> M0 = [?p]"
      "M0 = [?p] \<longrightarrow> F \<longrightarrow> mergable new (DirInode st es) ?p"
  proof (cases "d1 = d")
    case True
    then show ?thesis using that [of "[]"] extends_refl by simp
  next
    case False
    then show ?thesis using that [of "[?p]"] extends_push(2) [of d ?p] assms(4,8) by auto
  qed
  have e: "extends d d4 A' (M0 @ M') (U @ U')"
    using extends_trans [OF extends_trans [OF m0(1) d3] d4] by simp
  have "lists new E path (U @ U' = [] \<and> F) (A' @ M0 @ M')"
  proof (cases "A' @ M' = []")
    case True
    then have "lists new E path (U @ U' = [] \<and> F) M0"
      using m0(2,3) assms(7) by (auto intro: lists_single)
    with True show ?thesis by simp
  next
    case False
    have dirok: "walk new ?p \<noteq> Inl NotADirectory" if "U @ U' = [] \<and> F"
      using u' False that by (simp add: mergable_def)
    have "lists new es ?p (U @ U' = [] \<and> F) (A @ M)"
      by (rule lists_weaken [OF assms(2)]) (use assms(3) in simp)
    then have "lists new E path (U @ U' = [] \<and> F) (A @ M)"
      by (rule lists_child [OF assms(7)]) (use dirok in simp)
    moreover have "lists new E path (U @ U' = [] \<and> F) [?p]"
      using dirok assms(7) by (intro lists_single) (auto simp: mergable_def)
    moreover have "set (A' @ M0 @ M') \<subseteq> insert ?p (set (A @ M))" using am m0(2) by auto
    ultimately show ?thesis unfolding lists_def by (metis insertE list.set_intros(1) subsetD)
  qed
  with e show ?thesis by blast
qed

lemma kept_dir_step:
  assumes "get_directory T pristine [n] = Inr old"
    and "d1 = (if \<not> stat_eq_ignore_mtime st (fst old) then push_modified (path @ [n]) d else d)"
    and "rbind (case get_directory T new (path @ [n]) of
            Inr _ \<Rightarrow> Inr d2
          | Inl NotFound \<Rightarrow> Inr (restore_dir (path @ [n]) (length (added d1)) (length (modified d1)) d2)
          | Inl NotADirectory \<Rightarrow> Inr (restore_dir (path @ [n]) (length (added d1)) (length (modified d1)) d2)
          | Inl e \<Rightarrow> Inl (Err ''Getting modifications'')) (\<lambda>d3.
          if length (modified d3) \<noteq> length (modified d1) \<or> length (added d3) \<noteq> length (added d1)
          then check_if_mergable T new (DirInode st es) (path @ [n]) d3 else Inr d3) = Inr d4"
    and "\<exists>A M U. extends d1 d2 A M U
      \<and> lists new es (path @ [n]) (U = [] \<and> unchecked_ok new old es (path @ [n])) (A @ M)"
    and "map_of E n = Some (DirInode st es)"
  shows "\<exists>A M U. extends d d4 A M U \<and> lists new E path (U = [] \<and> unchecked_ok new pristine E path) (A @ M)"
proof -
  let ?F = "unchecked_ok new pristine E path" and ?p = "path @ [n]"
  have old: "walk pristine [n] = Inr old" using assms(1) get_directory by simp
  obtain A M U where amu: "extends d1 d2 A M U"
      "lists new es ?p (U = [] \<and> unchecked_ok new old es ?p) (A @ M)"
    using assms(4) by blast
  obtain d3 where d3: "d3 = d2 \<or> d3 = restore_dir ?p (length (added d1)) (length (modified d1)) d2"
      "(if length (modified d3) \<noteq> length (modified d1) \<or> length (added d3) \<noteq> length (added d1)
          then check_if_mergable T new (DirInode st es) ?p d3 else Inr d3) = Inr d4"
    using assms(3) by (auto simp: rbind_Inr_iff split: sum.splits image_error.splits)
  have "mergable new (DirInode st es) ?p" if "d1 = push_modified ?p d" and f: ?F
  proof -
    have "modified (push_modified ?p d) \<noteq> modified d" by (simp add: push_modified_def)
    then have "\<not> stat_eq_ignore_mtime st (fst old)" using that assms(2) by (auto split: if_splits)
    moreover have "at_path E [n] = Some (DirInode st es)" using assms(5) by simp
    ultimately have "walk new ?p \<noteq> Inl NotADirectory"
      using f old unfolding unchecked_ok_def by blast
    then show ?thesis by (simp add: mergable_def)
  qed
  moreover have "d1 = d \<or> d1 = push_modified ?p d" using assms(2) by auto
  moreover have "?F \<Longrightarrow> unchecked_ok new old es ?p" using unchecked_ok_child assms(5) old by blast
  ultimately show ?thesis using kept_dir_lists [OF amu _ _ d3 assms(5)] by blast
qed

lemma mods_lists:
  "get_modifications T old_leaves leaves new pristine es path d = Inr d' \<Longrightarrow> wf_entries k es \<Longrightarrow>
   \<exists>A M U. extends d d' A M U \<and> lists new es path (U = [] \<and> unchecked_ok new pristine es path) (A @ M)"
proof (induction T \<equiv> T old_leaves leaves new pristine es path d arbitrary: d' rule: get_modifications.induct)
  case (1 ol lv new pristine path d)
  then show ?case using extends_refl [of d] by (intro exI [of _ "[]"]) simp
next
  case (2 ol lv new pristine n st es rest path d)
  let ?E = "(n, DirInode st es) # rest" and ?F = "unchecked_ok new pristine ((n, DirInode st es) # rest) path"
  obtain d4 where r: "get_modifications T ol lv new pristine rest path d4 = Inr d'"
    and step: "\<exists>A M U. extends d d4 A M U \<and> lists new ?E path (U = [] \<and> ?F) (A @ M)"
  proof (cases "get_directory T pristine [n]")
    case (Inr old)
    let ?d1 = "if \<not> stat_eq_ignore_mtime st (fst old) then push_modified (path @ [n]) d else d"
    obtain d2 d4 where d2: "get_modifications T ol lv new old es (path @ [n]) ?d1 = Inr d2"
      and d4: "rbind (case get_directory T new (path @ [n]) of
            Inr _ \<Rightarrow> Inr d2
          | Inl NotFound \<Rightarrow> Inr (restore_dir (path @ [n]) (length (added ?d1)) (length (modified ?d1)) d2)
          | Inl NotADirectory \<Rightarrow> Inr (restore_dir (path @ [n]) (length (added ?d1)) (length (modified ?d1)) d2)
          | Inl e \<Rightarrow> Inl (Err ''Getting modifications'')) (\<lambda>d3.
          if length (modified d3) \<noteq> length (modified ?d1) \<or> length (added d3) \<noteq> length (added ?d1)
          then check_if_mergable T new (DirInode st es) (path @ [n]) d3 else Inr d3) = Inr d4"
      and rest: "get_modifications T ol lv new pristine rest path d4 = Inr d'"
      using 2(3) unfolding get_modifications.simps Inr sum.case Let_def rbind_Inr_iff by blast
    have "wf_entries k es" using 2(4) by simp
    moreover have "map_of ?E n = Some (DirInode st es)" by simp
    ultimately show ?thesis
      using kept_dir_step [OF Inr refl d4 2(1) [OF Inr refl d2]] by (intro that [OF rest])
  next
    case (Inl e)
    then have w: "walk pristine [n] = Inl e" using get_directory by simp
    show ?thesis
    proof (cases "e = NotFound")
      case True
      then obtain d1 where d1: "check_if_mergable T new (DirInode st es) (path @ [n]) (push_added (path @ [n]) d) = Inr d1"
          "get_modifications T ol lv new pristine rest path
             (d1\<lparr>added := added d1 @ collect_all_files es (path @ [n])\<rparr>) = Inr d'"
        using 2(3) Inl by (auto simp: rbind_Inr_iff)
      have "wf_entries k es" using 2(4) by simp
      moreover have "walk pristine [n] = Inl NotFound" using w True by simp
      moreover have "map_of ?E n = Some (DirInode st es)" by simp
      ultimately show ?thesis using added_dir_lists [OF d1(1)] by (intro that [OF d1(2)])
    next
      case False
      then have "e = NotADirectory" using walk_errors [OF w] by simp
      then obtain d4 where d4: "check_if_mergable T new (DirInode st es) (path @ [n]) (push_modified (path @ [n]) d) = Inr d4"
          "get_modifications T ol lv new pristine rest path d4 = Inr d'"
        using 2(3) Inl by (auto simp: rbind_Inr_iff)
      have "at_path ?E [n] = Some (DirInode st es)" by simp
      from check_pushed [OF d4(1) disjI2 [OF refl] this] show ?thesis
        using that [OF d4(2)] by blast
    qed
  qed
  obtain A M U where "extends d d4 A M U" "lists new ?E path (U = [] \<and> ?F) (A @ M)" using step by blast
  moreover obtain A2 M2 U2 where "extends d4 d' A2 M2 U2"
      "lists new rest path (U2 = [] \<and> unchecked_ok new pristine rest path) (A2 @ M2)"
    using 2(2) [OF r] 2(4) by auto
  moreover have "n \<notin> fst ` set rest" using 2(4) by simp
  ultimately show ?case
    using lists_combine extends_trans unchecked_ok_rest by metis
next
  case (3 ol lv new pristine n i rest path d)
  let ?E = "(n, LeafInode i) # rest" and ?F = "unchecked_ok new pristine ((n, LeafInode i) # rest) path"
  obtain d4 where r: "get_modifications T ol lv new pristine rest path d4 = Inr d'"
    and chk: "d4 = d \<or> (\<exists>d1. (d1 = push_added (path @ [n]) d \<or> d1 = push_modified (path @ [n]) d)
      \<and> check_if_mergable T new (LeafInode i) (path @ [n]) d1 = Inr d4)"
    using 3(2) by (auto simp: rbind_Inr_iff split: sum.splits image_error.splits if_splits)
  have "\<exists>A M U. extends d d4 A M U \<and> lists new ?E path (U = [] \<and> ?F) (A @ M)"
  proof (cases "d4 = d")
    case True
    then show ?thesis using extends_refl [of d] by (intro exI [of _ "[]"]) simp
  next
    case False
    then obtain d1 where d1: "check_if_mergable T new (LeafInode i) (path @ [n]) d1 = Inr d4"
        "d1 = push_added (path @ [n]) d \<or> d1 = push_modified (path @ [n]) d"
      using chk by blast
    have "at_path ?E [n] = Some (LeafInode i)" by simp
    from check_pushed [OF d1 this] show ?thesis by blast
  qed
  then obtain A M U where "extends d d4 A M U" "lists new ?E path (U = [] \<and> ?F) (A @ M)" by blast
  moreover obtain A2 M2 U2 where "extends d4 d' A2 M2 U2"
      "lists new rest path (U2 = [] \<and> unchecked_ok new pristine rest path) (A2 @ M2)"
    using 3(1) [OF r] 3(3) by auto
  moreover have "n \<notin> fst ` set rest" using 3(3) by simp
  ultimately show ?case
    using lists_combine extends_trans unchecked_ok_rest by metis
qed

end

section \<open>Deletions\<close>

text \<open>
  A path was deleted when the pristine tree has it and the current tree has its directory, but no
  entry of its name.
\<close>

definition deleted :: "dir \<Rightarrow> (string \<times> inode) list \<Rightarrow> path \<Rightarrow> bool" where
  "deleted current es r \<longleftrightarrow>
     at_path es r \<noteq> None \<and> (\<exists>cd. walk current (butlast r) = Inr cd \<and> map_of (snd cd) (last r) = None)"

lemma deleted_Nil: "\<not> deleted current es []"
  by (simp add: deleted_def)

lemma deleted_single:
  "deleted current es [n] \<longleftrightarrow> map_of es n \<noteq> None \<and> map_of (snd current) n = None"
  by (simp add: deleted_def)

lemma at_path_step:
  "r \<noteq> [] \<Longrightarrow> at_path es (n # r) =
    (case map_of es n of Some (DirInode st es') \<Rightarrow> at_path es' r | _ \<Rightarrow> None)"
  by (cases r) auto

lemma deleted_child:
  assumes "r \<noteq> []"
  shows "deleted current es (n # r) \<longleftrightarrow>
    (\<exists>st es' cst ces. map_of es n = Some (DirInode st es') \<and> map_of (snd current) n = Some (DirInode cst ces)
       \<and> deleted (cst, ces) es' r)"
proof -
  have b: "butlast (n # r) = n # butlast r" "last (n # r) = last r" using assms by simp_all
  show ?thesis
    unfolding deleted_def b at_path_step [OF assms] walk.simps
    by (cases "map_of es n"; cases "map_of (snd current) n") (auto split: inode.splits)
qed

lemma deleted_Cons:
  assumes "n \<notin> fst ` set rest"
  shows "deleted current ((n, x) # rest) r \<longleftrightarrow>
    deleted current rest r \<or> (\<exists>r'. r = n # r' \<and> deleted current [(n, x)] r)"
proof (cases r)
  case Nil
  then show ?thesis by (simp add: deleted_Nil)
next
  case (Cons m r')
  have "map_of rest n = None" using assms by (simp add: map_of_eq_None_iff)
  with Cons show ?thesis
    by (cases "r' = []") (auto simp: deleted_single deleted_child)
qed

text \<open>The deletions a computation adds.\<close>

definition removes :: "diff \<Rightarrow> diff \<Rightarrow> path \<Rightarrow> (path \<Rightarrow> bool) \<Rightarrow> bool" where
  "removes d d' path P \<longleftrightarrow>
     added d' = added d \<and> modified d' = modified d \<and> unmergable_paths d' = unmergable_paths d
     \<and> (\<exists>R. removed d' = removed d @ R \<and> set R = {path @ r | r. P r})"

lemma removes_refl: "removes d d path (\<lambda>r. False)"
  by (simp add: removes_def)

lemma removes_push: "removes d (push_removed (path @ [n]) d) path (\<lambda>r. r = [n])"
  by (auto simp: removes_def push_removed_def)

lemma removes_child:
  assumes "removes d d' (path @ [n]) P"
  shows "removes d d' path (\<lambda>r. \<exists>r'. r = n # r' \<and> P r')"
proof -
  have "{(path @ [n]) @ r |r. P r} = {path @ r |r. \<exists>r'. r = n # r' \<and> P r'}" by fastforce
  then show ?thesis using assms by (auto simp: removes_def)
qed

lemma removes_trans:
  assumes "removes d d1 path P" and "removes d1 d2 path Q"
  shows "removes d d2 path (\<lambda>r. P r \<or> Q r)"
proof -
  obtain R R' where "removed d1 = removed d @ R" "set R = {path @ r |r. P r}"
      "removed d2 = removed d1 @ R'" "set R' = {path @ r |r. Q r}"
    using assms unfolding removes_def by blast
  then have "removed d2 = removed d @ (R @ R') \<and> set (R @ R') = {path @ r |r. P r \<or> Q r}" by auto
  then show ?thesis using assms unfolding removes_def by auto
qed

lemma removes_cong: "removes d d' path P \<Longrightarrow> (\<And>r. P r \<longleftrightarrow> Q r) \<Longrightarrow> removes d d' path Q"
  by (simp add: ext [of P Q])

context etc_tree
begin

lemma deletion_step_dir:
  assumes "(case get_directory T current [n] of
              Inr curr_dir \<Rightarrow> get_deletions T curr_dir es (path @ [n]) d
            | Inl NotFound \<Rightarrow> Inr (push_removed (path @ [n]) d)
            | Inl NotADirectory \<Rightarrow> Inr d
            | Inl e \<Rightarrow> Inl (Err ''Getting deletions'')) = Inr d1"
    and IH: "\<And>cd. get_directory T current [n] = Inr cd \<Longrightarrow>
      get_deletions T cd es (path @ [n]) d = Inr d1 \<Longrightarrow> removes d d1 (path @ [n]) (deleted cd es)"
  shows "removes d d1 path (\<lambda>r. \<exists>r'. r = n # r' \<and> deleted current [(n, DirInode st es)] r)"
proof (cases "map_of (snd current) n")
  case None
  then have "d1 = push_removed (path @ [n]) d" using assms(1) get_directory by simp
  moreover have "(\<exists>r'. r = n # r' \<and> deleted current [(n, DirInode st es)] r) \<longleftrightarrow> r = [n]" for r
    using None by (cases "tl r = []") (auto simp: deleted_single deleted_child)
  ultimately show ?thesis using removes_push by (auto intro: removes_cong)
next
  case (Some x)
  show ?thesis
  proof (cases x)
    case (LeafInode j)
    then have "d1 = d" using assms(1) get_directory Some by simp
    moreover have "\<not> deleted current [(n, DirInode st es)] (n # r')" for r'
      using Some LeafInode by (cases "r' = []") (auto simp: deleted_single deleted_child)
    ultimately show ?thesis using removes_refl by (auto intro: removes_cong)
  next
    case (DirInode cst ces)
    then have g: "get_directory T current [n] = Inr (cst, ces)" using Some get_directory by simp
    then have a: "removes d d1 path (\<lambda>r. \<exists>r'. r = n # r' \<and> deleted (cst, ces) es r')"
      using removes_child [OF IH [OF g]] assms(1) by simp
    have b: "deleted current [(n, DirInode st es)] (n # r') \<longleftrightarrow> deleted (cst, ces) es r'" for r'
      using Some DirInode by (cases "r' = []") (auto simp: deleted_single deleted_child deleted_Nil)
    from a show ?thesis by (rule removes_cong) (use b in auto)
  qed
qed

lemma deletion_step_leaf:
  assumes "(case get_leaf_id T current n of
              Inr _ \<Rightarrow> Inr d
            | Inl NotFound \<Rightarrow> Inr (push_removed (path @ [n]) d)
            | Inl IsADirectory \<Rightarrow> Inr d
            | Inl e \<Rightarrow> Inl (Err ''Getting deletions'')) = Inr d1"
  shows "removes d d1 path (\<lambda>r. \<exists>r'. r = n # r' \<and> deleted current [(n, LeafInode i)] r)"
proof (cases "map_of (snd current) n")
  case None
  then have "d1 = push_removed (path @ [n]) d" using assms get_leaf_id by simp
  moreover have "(\<exists>r'. r = n # r' \<and> deleted current [(n, LeafInode i)] r) \<longleftrightarrow> r = [n]" for r
    using None by (cases "tl r = []") (auto simp: deleted_single deleted_child)
  ultimately show ?thesis using removes_push by (auto intro: removes_cong)
next
  case (Some x)
  then have "d1 = d" using assms get_leaf_id by (cases x) auto
  moreover have "\<not> deleted current [(n, LeafInode i)] (n # r')" for r'
    using Some by (cases "r' = []") (auto simp: deleted_single deleted_child)
  ultimately show ?thesis using removes_refl by (auto intro: removes_cong)
qed

lemma deletions_correct:
  "get_deletions T current es path d = Inr d' \<Longrightarrow> wf_entries k es \<Longrightarrow>
   removes d d' path (deleted current es)"
proof (induction T \<equiv> T current es path d arbitrary: d' rule: get_deletions.induct)
  case (1 current path d)
  have "\<not> deleted current [] r" for r
    by (cases r; cases "tl r = []") (auto simp: deleted_Nil deleted_single deleted_child)
  with 1 show ?case using removes_refl by (auto intro: removes_cong)
next
  case (2 current n st es rest path d)
  obtain d1 where d1: "(case get_directory T current [n] of
              Inr curr_dir \<Rightarrow> get_deletions T curr_dir es (path @ [n]) d
            | Inl NotFound \<Rightarrow> Inr (push_removed (path @ [n]) d)
            | Inl NotADirectory \<Rightarrow> Inr d
            | Inl e \<Rightarrow> Inl (Err ''Getting deletions'')) = Inr d1"
      "get_deletions T current rest path d1 = Inr d'"
    using 2(3) unfolding get_deletions.simps rbind_Inr_iff by blast
  have wf: "wf_entries k es" "wf_entries k rest" "n \<notin> fst ` set rest" using 2(4) by simp_all
  have "removes d d1 path (\<lambda>r. \<exists>r'. r = n # r' \<and> deleted current [(n, DirInode st es)] r)"
    by (rule deletion_step_dir [OF d1(1)]) (use 2(1) wf(1) in blast)
  from removes_trans [OF this 2(2) [OF d1(2) wf(2)]] show ?case
    by (rule removes_cong) (use deleted_Cons [OF wf(3)] in blast)
next
  case (3 current n i rest path d)
  obtain d1 where d1: "(case get_leaf_id T current n of
              Inr _ \<Rightarrow> Inr d
            | Inl NotFound \<Rightarrow> Inr (push_removed (path @ [n]) d)
            | Inl IsADirectory \<Rightarrow> Inr d
            | Inl e \<Rightarrow> Inl (Err ''Getting deletions'')) = Inr d1"
      "get_deletions T current rest path d1 = Inr d'"
    using 3(2) unfolding get_deletions.simps rbind_Inr_iff by blast
  have wf: "wf_entries k rest" "n \<notin> fst ` set rest" using 3(3) by simp_all
  from removes_trans [OF deletion_step_leaf [OF d1(1)] 3(1) [OF d1(2) wf(1)]] show ?case
    by (rule removes_cong) (use deleted_Cons [OF wf(2)] in blast)
qed

end

section \<open>The merge succeeds\<close>

text \<open>A file system whose operations do not fail.\<close>

definition fs_total :: "'s fs \<Rightarrow> bool" where
  "fs_total F \<longleftrightarrow> (\<forall>x s. is_ok (fs_exec F x s)) \<and> (\<forall>s p. is_ok (fs_symlink_metadata F s p))"

lemma run_ops_total: "fs_total F \<Longrightarrow> \<exists>s'. run_ops F ops s = Inr s'"
  by (induction ops arbitrary: s) (auto simp: fs_total_def is_ok_def split: sum.splits)

lemma merge_removed_total: "fs_total F \<Longrightarrow> \<exists>s'. merge_removed F ps s = Inr s'"
proof (induction ps arbitrary: s)
  case (Cons p ps)
  then obtain t where t: "fs_symlink_metadata F s p = Inr t"
    by (meson fs_total_def is_ok_iff)
  show ?case
  proof (cases t)
    case None
    with t Cons show ?thesis by simp
  next
    case (Some k)
    then show ?thesis
      using t Cons run_ops_total [OF Cons.prems, of "if k = FileType \<or> k = SymlinkType then [RemoveFile p]
          else if k = DirType then [RemoveDirAll p] else []" s]
      by (auto simp: rbind_Inr_iff)
  qed
qed simp

lemma merge_inode_ok:
  assumes "\<forall>i. current_inode = LeafInode i \<longrightarrow> i < length leaves"
    and "\<forall>st es. current_inode = DirInode st es \<longrightarrow> (\<forall>i. new_inode \<noteq> Some (LeafInode i))"
    and "\<forall>i. current_inode = LeafInode i \<longrightarrow> (\<forall>st es. new_inode \<noteq> Some (DirInode st es))"
  shows "\<exists>ops. merge_inode leaves current_inode new_inode p = Inr ops"
proof (cases current_inode)
  case (DirInode st es)
  then show ?thesis
    using assms(2) by (auto simp: merge_inode_def create_dir_with_perms_def split: option.splits inode.splits)
next
  case (LeafInode i)
  then show ?thesis
    using assms(1,3)
    by (auto simp: merge_inode_def leaf_at_def merge_leaf_def split: leaf_content.splits option.splits inode.splits)
qed

context etc_tree
begin

lemma merge_file_ops_ok:
  assumes "wf_entries (length leaves) es" and "at_path es p = Some i" and "compatible new [] p i"
  shows "\<exists>ops. merge_file_ops T ((st, es), leaves) new p = Inr ops"
proof -
  obtain d' where p: "p \<noteq> []" and d': "walk (st, es) (butlast p) = Inr d'" "map_of (snd d') (last p) = Some i"
    using at_path_walk [OF assms(2)] by blast
  have leaf: "\<forall>j. i = LeafInode j \<longrightarrow> j < length leaves"
    using wf_entries_leaf [OF assms(1)] assms(2) by blast
  have none: "\<exists>ops. merge_inode leaves i None p = Inr ops"
    by (rule merge_inode_ok) (use leaf in auto)
  have full: "walk new p = rbind (walk new (butlast p)) (\<lambda>d. walk d [last p])"
    using p walk_append [of new "butlast p" "[last p]"] by simp
  have "\<exists>ops. merge_inode leaves i (map_of (snd nd) (last p)) p = Inr ops" if nd: "walk new (butlast p) = Inr nd" for nd
    by (rule merge_inode_ok [OF leaf])
      (use assms(3) full nd in \<open>auto simp: compatible_def mergable_def\<close>)
  moreover have "walk new (butlast p) \<noteq> Inl NotADirectory"
  proof (cases "length p > 1")
    case True
    then show ?thesis using assms(3) by (simp add: compatible_def)
  next
    case False
    then have "butlast p = []" using p by (cases p) auto
    then show ?thesis by simp
  qed
  ultimately show ?thesis
    using p d' none walk_errors [of new "butlast p"] tree_split [OF p]
    by (cases "walk new (butlast p)") (auto simp: merge_file_ops_def tree_lookup)
qed

lemma merge_modified_files_ok:
  assumes "wf_entries (length leaves) es" and "lists new es [] True ps" and "fs_total F"
  shows "\<exists>s'. merge_modified_files T F ((st, es), leaves) new ps s = Inr s'"
  using assms(2)
proof (induction ps arbitrary: s)
  case (Cons p ps)
  obtain i where "at_path es p = Some i" "compatible new [] p i"
    using Cons.prems by (auto simp: lists_def)
  then obtain ops where "merge_file_ops T ((st, es), leaves) new p = Inr ops"
    using merge_file_ops_ok [OF assms(1)] by blast
  moreover obtain s' where "run_ops F ops s = Inr s'" using run_ops_total [OF assms(3)] by blast
  moreover have "lists new es [] True ps" using Cons.prems by (auto simp: lists_def)
  ultimately show ?case using Cons.IH by simp
qed simp

lemma compute_diff_lists:
  assumes "compute_diff T (pristine, old_leaves) ((st, es), leaves) (new, new_leaves) = Inr d"
    and "wf_entries (length leaves) es" and "wf_entries k (snd pristine)"
  shows "lists new es [] (unmergable_paths d = [] \<and> unchecked_ok new pristine es []) (added d @ modified d)
    \<and> set (removed d) = {p. deleted (st, es) (snd pristine) p}"
proof -
  obtain d1 where d1: "get_modifications T old_leaves leaves new pristine es [] diff_empty = Inr d1"
      "get_deletions T (st, es) (snd pristine) [] d1 = Inr d"
    using assms(1) by (auto simp: compute_diff_def rbind_Inr_iff)
  obtain A M U where amu: "extends diff_empty d1 A M U"
      "lists new es [] (U = [] \<and> unchecked_ok new pristine es []) (A @ M)"
    using mods_lists [OF d1(1) assms(2)] by blast
  have "removes d1 d [] (deleted (st, es) (snd pristine))"
    by (rule deletions_correct [OF d1(2) assms(3)])
  with amu show ?thesis
    by (auto simp: extends_def removes_def diff_empty_def)
qed

lemma merge_succeeds:
  assumes "compute_diff T (pristine, old_leaves) ((st, es), leaves) (new, new_leaves) = Inr d"
    and "wf_entries (length leaves) es" and "wf_entries k (snd pristine)"
    and "unmergable_paths d = []" and "unchecked_ok new pristine es []" and "fs_total F"
  shows "\<exists>s'. merge T F ((st, es), leaves) (new, new_leaves) d s = Inr s'"
proof -
  have l: "lists new es [] True (added d)" "lists new es [] True (modified d)"
    using compute_diff_lists [OF assms(1-3)] assms(4,5) by simp_all
  obtain s1 where "merge_modified_files T F ((st, es), leaves) new (added d) s = Inr s1"
    using merge_modified_files_ok [OF assms(2) l(1) assms(6)] by blast
  moreover obtain s2 where "merge_modified_files T F ((st, es), leaves) new (modified d) s1 = Inr s2"
    using merge_modified_files_ok [OF assms(2) l(2) assms(6)] by blast
  moreover obtain s3 where "merge_removed F (removed d) s2 = Inr s3"
    using merge_removed_total [OF assms(6)] by blast
  ultimately show ?thesis by (simp add: merge_def)
qed

end

section \<open>Unchanged trees\<close>

definition plain_leaves :: "leaf list \<Rightarrow> bool" where
  "plain_leaves leaves = list_all (\<lambda>l. leaf_content l \<noteq> OtherLeaf) leaves"

lemma stat_eq_refl [simp]: "stat_eq_ignore_mtime st st"
  by (simp add: stat_eq_ignore_mtime_def)

lemma leaf_changed_refl: "leaf_content l \<noteq> OtherLeaf \<Longrightarrow> leaf_changed l l = Inr False"
  by (auto simp: leaf_changed_def split: leaf_content.splits)

lemma submap_rest:
  assumes "\<forall>m i. map_of ((n, x) # rest) m = Some i \<longrightarrow> map_of big m = Some i" and "n \<notin> fst ` set rest"
  shows "\<forall>m i. map_of rest m = Some i \<longrightarrow> map_of big m = Some i"
proof (intro allI impI)
  fix m i assume m: "map_of rest m = Some i"
  then have "m \<noteq> n" using assms(2) by (metis map_of_eq_None_iff option.distinct(1))
  with m assms(1) show "map_of big m = Some i" by simp
qed

context etc_tree
begin

lemma mods_unchanged:
  "wf_entries (length leaves) es \<Longrightarrow> plain_leaves leaves \<Longrightarrow>
   \<forall>m i. map_of es m = Some i \<longrightarrow> map_of (snd pristine) m = Some i \<Longrightarrow>
   get_modifications T leaves leaves new pristine es path d = Inr d"
proof (induction T \<equiv> T old_leaves \<equiv> leaves leaves \<equiv> leaves new pristine es path d rule: get_modifications.induct)
  case (2 new pristine n st es rest path d)
  have "map_of (snd pristine) n = Some (DirInode st es)" using 2(5) by simp
  then have g: "get_directory T pristine [n] = Inr (st, es)" using get_directory by simp
  have "get_modifications T leaves leaves new (st, es) es (path @ [n]) d = Inr d"
    using 2(1) [OF g refl] 2(3,4) by simp
  moreover have "get_modifications T leaves leaves new pristine rest path d = Inr d"
    using 2(2) 2(3,4) submap_rest [OF 2(5)] by simp
  moreover have "e = NotFound \<or> e = NotADirectory" if "get_directory T new (path @ [n]) = Inl e" for e
    using that walk_errors get_directory [of "path @ [n]"] by simp
  ultimately show ?case
    using g by (cases "get_directory T new (path @ [n])") (auto simp: restore_dir_def)
next
  case (3 new pristine n i rest path d)
  have "map_of (snd pristine) n = Some (LeafInode i)" using 3(4) by simp
  then have "get_leaf_id T pristine n = Inr i" using get_leaf_id by simp
  moreover have "leaf_at leaves i = Inr (leaves ! i)" "leaf_content (leaves ! i) \<noteq> OtherLeaf"
    using 3(2,3) by (simp_all add: leaf_at_def plain_leaves_def list_all_length)
  moreover have "get_modifications T leaves leaves new pristine rest path d = Inr d"
    using 3(1) 3(2,3) submap_rest [OF 3(4)] by simp
  ultimately show ?case by (simp add: leaf_changed_refl)
qed simp

lemma deletions_unchanged:
  "wf_entries k es \<Longrightarrow> \<forall>m i. map_of es m = Some i \<longrightarrow> map_of (snd current) m = Some i \<Longrightarrow>
   get_deletions T current es path d = Inr d"
proof (induction T \<equiv> T current es path d rule: get_deletions.induct)
  case (2 current n st es rest path d)
  have "map_of (snd current) n = Some (DirInode st es)" using 2(4) by simp
  then have g: "get_directory T current [n] = Inr (st, es)" using get_directory by simp
  moreover have "get_deletions T (st, es) es (path @ [n]) d = Inr d" using 2(1) [OF g] 2(3) by simp
  moreover have "get_deletions T current rest path d = Inr d"
    using 2(2) 2(3) submap_rest [OF 2(4)] by simp
  ultimately show ?case by simp
next
  case (3 current n i rest path d)
  have "map_of (snd current) n = Some (LeafInode i)" using 3(3) by simp
  then have "get_leaf_id T current n = Inr i" using get_leaf_id by simp
  moreover have "get_deletions T current rest path d = Inr d"
    using 3(1) 3(2) submap_rest [OF 3(3)] by simp
  ultimately show ?case by simp
qed simp

end

section \<open>Properties\<close>


text \<open>A file system that records the operations.\<close>

definition log_fs :: "fs_op list fs" where
  "log_fs = \<lparr>fs_exec = (\<lambda>x s. Inr (s @ [x])), fs_symlink_metadata = (\<lambda>_ _. Inr (Some FileType))\<rparr>"

definition stat_ex :: "nat \<Rightarrow> fstat" where
  "stat_ex mode = \<lparr>st_mode = mode, st_uid = 0, st_gid = 0, st_mtim_sec = 0, st_mtim_nsec = 0, st_xattrs = []\<rparr>"

definition text_leaf :: "string \<Rightarrow> leaf" where
  "text_leaf h = file_leaf (stat_ex 420) None h"


text \<open>
  The difference is accurate about existence: every path it lists as added or modified is in
  the current tree, and the paths it lists as removed are exactly those of the pristine tree whose
  directory is still in the current tree while they are not.
\<close>

theorem etc_diff_accurate:
  assumes "etc_tree T"
    and "compute_diff T (pristine, old_leaves) ((st, es), leaves) (new, new_leaves) = Inr d"
    and "wf_entries (length leaves) es" and "wf_entries k (snd pristine)"
  shows "(\<forall>p \<in> set (added d) \<union> set (modified d). at_path es p \<noteq> None)
    \<and> set (removed d) = {p. deleted (st, es) (snd pristine) p}"
  using etc_tree.compute_diff_lists [OF assms] by (fastforce simp: lists_def)

theorem etc_diff_accurate_witness:
  "let pristine = (stat_ex 493, [(''a'', LeafInode 0), (''b'', LeafInode 1)]);
       d = \<lparr>added = [], modified = [[''a'']], removed = [[''b'']], unmergable_paths = []\<rparr>
   in compute_diff tree_ref (pristine, [text_leaf ''1'', text_leaf ''2''])
        ((stat_ex 493, [(''a'', LeafInode 0)]), [text_leaf ''3'']) (pristine, []) = Inr d
      \<and> set (removed d) = {p. deleted (stat_ex 493, [(''a'', LeafInode 0)]) (snd pristine) p}"
proof -
  let ?p = "(stat_ex 493, [(''a'', LeafInode 0), (''b'', LeafInode 1)])"
  let ?d = "\<lparr>added = [], modified = [[''a'']], removed = [[''b'']], unmergable_paths = []\<rparr>"
  have c: "compute_diff tree_ref (?p, [text_leaf ''1'', text_leaf ''2''])
      ((stat_ex 493, [(''a'', LeafInode 0)]), [text_leaf ''3'']) (?p, []) = Inr ?d"
    by (simp add: compute_diff_def tree_ref_def diff_empty_def leaf_at_def leaf_changed_def text_leaf_def
        file_leaf_def check_if_mergable_def push_modified_def push_removed_def)
  from etc_diff_accurate [OF tree_ref.etc_tree_axioms c, of 2] c show ?thesis by (simp add: Let_def)
qed

text \<open>
  An unmodified \<^verbatim>\<open>/etc\<close> yields the empty difference, whatever the new tree is, so that the
  new defaults are taken over unchanged.
\<close>

theorem etc_diff_unchanged:
  assumes "etc_tree T" and "wf_entries (length leaves) es" and "plain_leaves leaves"
  shows "compute_diff T ((st, es), leaves) ((st, es), leaves) new = Inr diff_empty"
  using etc_tree.mods_unchanged [OF assms, of "(st, es)"] etc_tree.deletions_unchanged [OF assms(1,2), of "(st, es)"]
  by (simp add: compute_diff_def)

theorem etc_diff_unchanged_witness:
  "let t = ((stat_ex 493, [(''a'', DirInode (stat_ex 493) [(''b'', LeafInode 0)])]), [text_leaf ''1''])
   in compute_diff tree_ref t t ((stat_ex 493, []), []) = Inr diff_empty"
  unfolding Let_def
  by (rule etc_diff_unchanged [OF tree_ref.etc_tree_axioms])
    (simp_all add: plain_leaves_def text_leaf_def file_leaf_def)

lemma merge_files_fail:
  assumes "merge_file_ops T current new q = Inl e"
  shows "q \<in> set ps \<Longrightarrow> \<exists>e. merge_modified_files T F current new ps s = Inl e"
proof (induction ps arbitrary: s)
  case (Cons p ps)
  then show ?case
    using assms by (cases "merge_file_ops T current new p") (auto simp: rbind_def split: sum.splits)
qed simp

lemma merge_fails:
  assumes "merge_file_ops T current (fst new) q = Inl e" and "q \<in> set (added d) \<union> set (modified d)"
  shows "\<exists>e. merge T F current new d s = Inl e"
proof (cases "q \<in> set (added d)")
  case True
  then show ?thesis using merge_files_fail [OF assms(1) True, of F s] by (auto simp: merge_def)
next
  case False
  then have m: "q \<in> set (modified d)" using assms(2) by simp
  show ?thesis
  proof (cases "merge_modified_files T F current (fst new) (added d) s")
    case (Inr s1)
    then show ?thesis using merge_files_fail [OF assms(1) m, of F s1] by (auto simp: merge_def)
  qed (simp add: merge_def)
qed

lemmas etc_diff_simps = compute_diff_def diff_empty_def leaf_at_def leaf_changed_def check_if_mergable_def
  push_added_def push_modified_def push_removed_def restore_dir_def merge_file_ops_def merge_inode_def
  merge_leaf_def create_dir_with_perms_def stat_eq_ignore_mtime_def

text \<open>
  The report of unmergable paths is incomplete. A file inside a directory that the user added
  is not checked: when the new tree has a directory in its place, no path is reported and the merge
  fails. Likewise for a directory of which only the metadata was changed and that is a file in the
  new tree.
\<close>

theorem etc_unmergable_incomplete:
  assumes "etc_tree T"
  shows "(\<exists>pristine current new d. compute_diff T pristine current new = Inr d
      \<and> unmergable_paths d = [] \<and> added d \<noteq> [] \<and> (\<forall>(F :: 's fs) s. \<exists>e. merge T F current new d s = Inl e))
    \<and> (\<exists>pristine current new d. compute_diff T pristine current new = Inr d
      \<and> unmergable_paths d = [] \<and> modified d \<noteq> [] \<and> (\<forall>(F :: 's fs) s. \<exists>e. merge T F current new d s = Inl e))"
proof -
  let ?dir = "\<lambda>es. (stat_ex 493, es)"
  let ?c1 = "(?dir [(''foo'', DirInode (stat_ex 493) [(''bar'', LeafInode 0)])], [text_leaf ''1''])"
  let ?n1 = "(?dir [(''foo'', DirInode (stat_ex 493) [(''bar'', DirInode (stat_ex 493) [])])], [])"
  let ?d1 = "\<lparr>added = [[''foo''], [''foo'', ''bar'']], modified = [], removed = [], unmergable_paths = []\<rparr>"
  note T = etc_tree.get_directory [OF assms] etc_tree.get_leaf_id [OF assms]
    etc_tree.tree_split [OF assms] etc_tree.tree_lookup [OF assms]
  have c1: "compute_diff T (?dir [], []) ?c1 ?n1 = Inr ?d1" by (simp add: etc_diff_simps T)
  have f1: "merge_file_ops T ?c1 (fst ?n1) [''foo'', ''bar'']
      = Inl (Err ''Modified config file newly defaults to directory. Cannot merge'')"
    by (simp add: etc_diff_simps T text_leaf_def file_leaf_def)
  have m1: "\<exists>e. merge T F ?c1 ?n1 ?d1 s = Inl e" for F :: "'s fs" and s
    by (rule merge_fails [OF f1]) simp
  let ?c2 = "(?dir [(''foo'', DirInode (stat_ex 448) [])], [])"
  let ?p2 = "(?dir [(''foo'', DirInode (stat_ex 493) [])], [])"
  let ?n2 = "(?dir [(''foo'', LeafInode 0)], [text_leaf ''1''])"
  let ?d2 = "\<lparr>added = [], modified = [[''foo'']], removed = [], unmergable_paths = []\<rparr>"
  have c2: "compute_diff T ?p2 ?c2 ?n2 = Inr ?d2" by (simp add: etc_diff_simps T stat_ex_def)
  have f2: "merge_file_ops T ?c2 (fst ?n2) [''foo'']
      = Inl (Err ''Modified config directory newly defaults to file. Cannot merge'')"
    by (simp add: etc_diff_simps T)
  have m2: "\<exists>e. merge T F ?c2 ?n2 ?d2 s = Inl e" for F :: "'s fs" and s
    by (rule merge_fails [OF f2]) simp
  show ?thesis
  proof
    show "\<exists>pristine current new d. compute_diff T pristine current new = Inr d
      \<and> unmergable_paths d = [] \<and> added d \<noteq> [] \<and> (\<forall>(F :: 's fs) s. \<exists>e. merge T F current new d s = Inl e)"
      by (intro exI conjI) (rule c1, simp, simp, use m1 in blast)
    show "\<exists>pristine current new d. compute_diff T pristine current new = Inr d
      \<and> unmergable_paths d = [] \<and> modified d \<noteq> [] \<and> (\<forall>(F :: 's fs) s. \<exists>e. merge T F current new d s = Inl e)"
      by (intro exI conjI) (rule c2, simp, simp, use m2 in blast)
  qed
qed

theorem etc_unmergable_incomplete_witness:
  "\<exists>pristine current new d. compute_diff tree_ref pristine current new = Inr d
      \<and> unmergable_paths d = [] \<and> added d \<noteq> [] \<and> (\<forall>s. \<exists>e. merge tree_ref log_fs current new d s = Inl e)"
  using etc_unmergable_incomplete [OF tree_ref.etc_tree_axioms, where 's = "fs_op list"] by blast

text \<open>
  When a file of the pristine tree was replaced by a directory and the new tree has neither,
  the difference lists the directory but nothing inside it, and no unmergable path: the merge
  creates an empty directory and the contents are lost.
\<close>

theorem etc_replaced_dir_loses_contents:
  assumes "etc_tree T"
  shows "compute_diff T ((rst, [(n, LeafInode 0)]), [l]) ((rst, [(n, DirInode st es)]), leaves) ((rst', []), [])
    = Inr \<lparr>added = [], modified = [[n]], removed = [], unmergable_paths = []\<rparr>"
  by (simp add: etc_diff_simps etc_tree.get_directory [OF assms] etc_tree.get_leaf_id [OF assms])

theorem etc_replaced_dir_loses_contents_witness:
  "compute_diff tree_ref ((stat_ex 493, [(''foo'', LeafInode 0)]), [text_leaf ''1''])
     ((stat_ex 493, [(''foo'', DirInode (stat_ex 493) [(''bar'', LeafInode 0)])]), [text_leaf ''2''])
     ((stat_ex 493, []), [])
   = Inr \<lparr>added = [], modified = [[''foo'']], removed = [], unmergable_paths = []\<rparr>"
  by (rule etc_replaced_dir_loses_contents [OF tree_ref.etc_tree_axioms])

text \<open>
  A change to a file with fs-verity enabled is not noticed: only content hashes are compared,
  and they are empty for such files, so that two files with different digests and equal metadata
  yield an empty difference.
\<close>

theorem etc_verity_change_missed:
  assumes "etc_tree T" and "v1 \<noteq> v2"
  shows "compute_diff T ((rst, [(n, LeafInode 0)]), [file_leaf st (Some v1) h1])
      ((rst, [(n, LeafInode 0)]), [file_leaf st (Some v2) h2]) new = Inr diff_empty"
  by (simp add: etc_diff_simps file_leaf_def etc_tree.get_directory [OF assms(1)] etc_tree.get_leaf_id [OF assms(1)])

theorem etc_verity_change_missed_witness:
  "compute_diff tree_ref ((stat_ex 493, [(''f'', LeafInode 0)]), [file_leaf (stat_ex 420) (Some ''11'') ''aa''])
      ((stat_ex 493, [(''f'', LeafInode 0)]), [file_leaf (stat_ex 420) (Some ''22'') ''bb''])
      ((stat_ex 493, []), []) = Inr diff_empty"
  by (rule etc_verity_change_missed [OF tree_ref.etc_tree_axioms]) simp

end
