(* ===== verification/Rust_Path.thy ===== *)
theory Rust_Path
  imports Rust_Prelude
begin

text \<open>
  \<^verbatim>\<open>std::path::Path\<close> on Unix, which \<^verbatim>\<open>camino::Utf8Path\<close> wraps: the iterator over components, the
  file name, the parent and joining. A path is its text.
\<close>

datatype component = RootDir | CurDir | ParentDir | Normal string

definition path_sep :: char where
  "path_sep = CHR ''/''"

text \<open>
  Empty segments and \<^verbatim>\<open>.\<close> are skipped, except a \<^verbatim>\<open>.\<close> at the front of a relative path.
\<close>

definition seg_trivial :: "string \<Rightarrow> bool" where
  "seg_trivial s = (s = '''' \<or> s = ''.'')"

definition seg_component :: "string \<Rightarrow> component" where
  "seg_component s = (if s = ''..'' then ParentDir else Normal s)"

definition body_components :: "string list \<Rightarrow> component list" where
  "body_components segs = map seg_component (filter (\<lambda>s. \<not> seg_trivial s) segs)"

definition path_absolute :: "string \<Rightarrow> bool" where
  "path_absolute p = starts_with [path_sep] p"

definition path_components :: "string \<Rightarrow> component list" where
  "path_components p =
     (if path_absolute p then RootDir # body_components (split_on path_sep (tl p))
      else let segs = split_on path_sep p in
           (if hd segs = ''.'' then [CurDir] else []) @ body_components segs)"

text \<open>\<^verbatim>\<open>Path::file_name\<close>: the last component, if it is a normal one.\<close>

definition path_file_name :: "string \<Rightarrow> string option" where
  "path_file_name p =
     (if path_components p = [] then None
      else case last (path_components p) of Normal s \<Rightarrow> Some s | _ \<Rightarrow> None)"

text \<open>
  \<^verbatim>\<open>Path::parent\<close>: the path without its final component; none for the root and the empty path.
\<close>

definition trim_segs :: "string list \<Rightarrow> string list" where
  "trim_segs segs = rev (dropWhile seg_trivial (rev segs))"

definition path_parent :: "string \<Rightarrow> string option" where
  "path_parent p =
     (if path_absolute p then
        (let body = trim_segs (split_on path_sep (tl p)) in
         if body = [] then None
         else Some (path_sep # join_with [path_sep] (trim_segs (butlast body))))
      else
        (let segs = split_on path_sep p in
         if hd segs = ''.'' then
           (let body = trim_segs (tl segs) in
            if body = [] then Some ''''
            else Some (join_with [path_sep] (''.'' # trim_segs (butlast body))))
         else
           (let body = trim_segs segs in
            if body = [] then None
            else Some (join_with [path_sep] (trim_segs (butlast body))))))"

text \<open>\<^verbatim>\<open>Path::join\<close>: an absolute right-hand side replaces the left one.\<close>

definition path_join :: "string \<Rightarrow> string \<Rightarrow> string" where
  "path_join a b =
     (if path_absolute b then b
      else if a = [] \<or> last a = path_sep then a @ b
      else a @ path_sep # b)"

text \<open>\<^verbatim>\<open>Component::as_os_str\<close>.\<close>

fun component_str :: "component \<Rightarrow> string" where
  "component_str RootDir = ''/''"
| "component_str CurDir = ''.''"
| "component_str ParentDir = ''..''"
| "component_str (Normal s) = s"

text \<open>\<^verbatim>\<open>Path::extension\<close> of a file name.\<close>

definition path_extension :: "string \<Rightarrow> string option" where
  "path_extension name =
     (if name = ''..'' then None
      else (case rsplit_once (CHR ''.'') name of
              Some (stem, ext) \<Rightarrow> if stem = [] then None else Some ext
            | None \<Rightarrow> None))"

section \<open>Names\<close>

text \<open>A string that is one normal component.\<close>

definition is_name :: "string \<Rightarrow> bool" where
  "is_name s = (path_sep \<notin> set s \<and> s \<noteq> '''' \<and> s \<noteq> ''.'' \<and> s \<noteq> ''..'')"

lemma is_name_seg: "is_name s \<Longrightarrow> \<not> seg_trivial s \<and> seg_component s = Normal s"
  by (simp add: is_name_def seg_trivial_def seg_component_def)

lemma split_on_snoc: "c \<notin> set n \<Longrightarrow> split_on c (a @ c # n) = split_on c a @ [n]"
  by (induction a) (auto split: list.splits)

lemma not_absolute_nil [simp]: "\<not> path_absolute []"
  by (simp add: path_absolute_def starts_with_def)

lemma path_absolute_Cons [simp]: "path_absolute (c # p) \<longleftrightarrow> c = path_sep"
  by (auto simp: path_absolute_def starts_with_iff)

lemma path_absolute_append: "path_absolute (a @ path_sep # n) \<longleftrightarrow> a = [] \<or> path_absolute a"
  by (cases a) auto

text \<open>Appending a name appends a component.\<close>

lemma path_components_snoc:
  assumes "is_name n" and "a \<noteq> []"
  shows "path_components (a @ path_sep # n) = path_components a @ [Normal n]"
proof (cases "path_absolute a")
  case True
  then have "a = path_sep # tl a"
    using \<open>a \<noteq> []\<close> by (cases a) auto
  then obtain r where r: "a = path_sep # r" by blast
  show ?thesis
    using assms is_name_seg [OF assms(1)]
    by (simp add: r path_components_def body_components_def split_on_snoc is_name_def)
next
  case False
  have "hd (split_on path_sep a @ [n]) = hd (split_on path_sep a)" by simp
  then show ?thesis
    using False assms is_name_seg [OF assms(1)]
    by (simp add: path_absolute_append path_components_def body_components_def split_on_snoc
        is_name_def Let_def)
qed

lemma path_file_name_snoc [simp]:
  "is_name n \<Longrightarrow> a \<noteq> [] \<Longrightarrow> path_file_name (a @ path_sep # n) = Some n"
  by (simp add: path_file_name_def path_components_snoc)

lemma path_components_name: "is_name n \<Longrightarrow> path_components n = [Normal n]"
  using is_name_seg [of n]
  by (cases n) (auto simp: path_components_def body_components_def is_name_def Let_def)

lemma path_file_name_root [simp]: "is_name n \<Longrightarrow> path_file_name (path_sep # n) = Some n"
  using is_name_seg [of n]
  by (auto simp: path_file_name_def path_components_def body_components_def is_name_def)

lemma trim_segs_snoc [simp]: "\<not> seg_trivial n \<Longrightarrow> trim_segs (xs @ [n]) = xs @ [n]"
  by (simp add: trim_segs_def)

lemma filter_trim_segs [simp]:
  "filter (\<lambda>s. \<not> seg_trivial s) (trim_segs segs) = filter (\<lambda>s. \<not> seg_trivial s) segs"
proof -
  have "filter (\<lambda>s. \<not> seg_trivial s) (dropWhile seg_trivial xs) = filter (\<lambda>s. \<not> seg_trivial s) xs"
    for xs by (induction xs) auto
  from this [of "rev segs"] show ?thesis
    unfolding trim_segs_def by (metis rev_filter rev_rev_ident)
qed

lemma trim_segs_sep: "\<forall>s \<in> set segs. c \<notin> set s \<Longrightarrow> \<forall>s \<in> set (trim_segs segs). c \<notin> set s"
  unfolding trim_segs_def by (auto dest: set_dropWhileD)

text \<open>
  The parent of a path with a name appended has the components of the path; in general, taking
  the parent removes the last component.
\<close>

lemma components_join_root:
  assumes "\<forall>s \<in> set segs. path_sep \<notin> set s"
  shows "path_components (path_sep # join_with [path_sep] segs) = RootDir # body_components segs"
proof (cases "segs = []")
  case True
  then show ?thesis by (simp add: path_components_def body_components_def seg_trivial_def)
next
  case False
  with assms show ?thesis by (simp add: path_components_def split_on_join)
qed

lemma path_parent_absolute:
  assumes "path_absolute p" and "path_parent p = Some q"
  shows "path_components q = RootDir # body_components (butlast (trim_segs (split_on path_sep (tl p))))"
proof -
  let ?b = "trim_segs (split_on path_sep (tl p))"
  have q: "q = path_sep # join_with [path_sep] (trim_segs (butlast ?b))"
    using assms by (auto simp: path_parent_def Let_def split: if_splits)
  have "\<forall>s \<in> set (split_on path_sep (tl p)). path_sep \<notin> set s"
    by (auto dest: split_on_parts)
  then have "\<forall>s \<in> set ?b. path_sep \<notin> set s" by (rule trim_segs_sep)
  then have "\<forall>s \<in> set (butlast ?b). path_sep \<notin> set s" by (meson in_set_butlastD)
  then have "\<forall>s \<in> set (trim_segs (butlast ?b)). path_sep \<notin> set s" by (rule trim_segs_sep)
  then show ?thesis by (simp add: q components_join_root body_components_def)
qed

lemma path_parent_root_snoc:
  assumes "is_name n" "is_name m" and "path_absolute a"
  shows "\<exists>q. path_parent (a @ path_sep # m @ path_sep # n) = Some q \<and> path_file_name q = Some m"
proof -
  obtain r where r: "a = path_sep # r" using assms(3) by (cases a) auto
  let ?p = "a @ path_sep # m @ path_sep # n"
  have s: "split_on path_sep (tl ?p) = split_on path_sep r @ [m, n]"
    using assms split_on_snoc [of path_sep n "r @ path_sep # m"] split_on_snoc [of path_sep m r]
    by (simp add: r is_name_def)
  have n: "\<not> seg_trivial n" "\<not> seg_trivial m" using assms is_name_seg by blast+
  then have t: "trim_segs (split_on path_sep (tl ?p)) = split_on path_sep r @ [m, n]"
    using trim_segs_snoc [of n "split_on path_sep r @ [m]"] by (simp add: s)
  have abs: "path_absolute ?p" by (simp add: r)
  then obtain q where q: "path_parent ?p = Some q" by (simp add: path_parent_def t Let_def)
  have "path_components q = RootDir # body_components (split_on path_sep r @ [m])"
    using path_parent_absolute [OF abs q] by (simp only: t butlast_append) simp
  then have "path_file_name q = Some m"
    using n is_name_seg [OF assms(2)] by (simp add: path_file_name_def body_components_def)
  with q show ?thesis by blast
qed

end
