(* ===== verification/BLS_Config.thy ===== *)
theory BLS_Config
  imports Rust_Collections Rust_Path
begin

text \<open>
  Boot Loader Specification entries (\<^verbatim>\<open>crates/lib/src/parsers/bls_config.rs\<close>): the entry type,
  its order in the boot menu, the printer and the parser, and the names of the boot artifacts an
  entry refers to.

  A path and a kernel command line are their texts. A \<^verbatim>\<open>HashMap\<close> is a map, and printing takes the
  order in which it happens to be iterated as an argument. The comparison of version strings, the
  \<^verbatim>\<open>.efi\<close> extension, the search for a composefs digest in a command line and the version of
  systemd come from outside this component and are arguments of the definitions that use them.
\<close>

section \<open>Types\<close>

datatype bootloader = Grub | GrubCC | Systemd | BootloaderNone

definition SYSTEMD_UKI_MIN_VERSION :: nat where
  "SYSTEMD_UKI_MIN_VERSION = 258"

datatype efi_key = Efi string | Uki string

definition for_bootloader :: "nat res \<Rightarrow> string \<Rightarrow> bootloader \<Rightarrow> efi_key" where
  "for_bootloader systemd_version path bootloader =
     (if bootloader = GrubCC then Efi path
      else case systemd_version of
             Inr version \<Rightarrow> if version \<ge> SYSTEMD_UKI_MIN_VERSION then Uki path else Efi path
           | Inl _ \<Rightarrow> Efi path)"

datatype bls_config_type =
    EFI efi_key
  | NonEFI string "string list" "string option"
  | Unknown

record bls_config =
  bls_title :: "string option"
  bls_version :: string
  bls_cfg_type :: bls_config_type
  bls_machine_id :: "string option"
  bls_sort_key :: "string option"
  bls_extra :: "string \<rightharpoonup> string"

definition bls_default :: bls_config where
  "bls_default = \<lparr>bls_title = None, bls_version = '''', bls_cfg_type = Unknown,
     bls_machine_id = None, bls_sort_key = None, bls_extra = Map.empty\<rparr>"

section \<open>Order in the boot menu\<close>

text \<open>A comparison that decides only when both sides have the field.\<close>

definition opt_cmp :: "string option \<Rightarrow> string option \<Rightarrow> ordering" where
  "opt_cmp a b = (case (a, b) of (Some x, Some y) \<Rightarrow> ord_cmp x y | _ \<Rightarrow> Equal)"

definition bls_cmp :: "(string \<Rightarrow> string \<Rightarrow> ordering) \<Rightarrow> bls_config \<Rightarrow> bls_config \<Rightarrow> ordering" where
  "bls_cmp vcmp a b =
     (let o1 = opt_cmp (bls_sort_key a) (bls_sort_key b) in
      if o1 \<noteq> Equal then o1
      else let o2 = opt_cmp (bls_machine_id a) (bls_machine_id b) in
           if o2 \<noteq> Equal then o2
           else ord_reverse (vcmp (bls_version a) (bls_version b)))"

section \<open>Printing\<close>

definition writeln :: "string \<Rightarrow> string \<Rightarrow> string" where
  "writeln key v = key @ SPC # v @ [NL]"

definition write_opt :: "string \<Rightarrow> string option \<Rightarrow> string" where
  "write_opt key v = (case v of None \<Rightarrow> '''' | Some x \<Rightarrow> writeln key x)"

definition fmt_cfg_type :: "bls_config_type \<Rightarrow> string res" where
  "fmt_cfg_type t =
     (case t of
        EFI (Efi path) \<Rightarrow> Inr (writeln ''efi'' path)
      | EFI (Uki path) \<Rightarrow> Inr (writeln ''uki'' path)
      | NonEFI linux initrd options \<Rightarrow>
          Inr (writeln ''linux'' linux @ concat (map (writeln ''initrd'') initrd)
               @ write_opt ''options'' options)
      | Unknown \<Rightarrow> Inl ''fmt::Error'')"

text \<open>\<^term>\<open>iter\<close> is the iteration order of the extra fields.\<close>

definition bls_fmt :: "(string \<times> string) list \<Rightarrow> bls_config \<Rightarrow> string res" where
  "bls_fmt iter c =
     rbind (fmt_cfg_type (bls_cfg_type c)) (\<lambda>body.
       Inr (write_opt ''title'' (bls_title c) @ writeln ''version'' (bls_version c) @ body
            @ write_opt ''machine-id'' (bls_machine_id c)
            @ write_opt ''sort-key'' (bls_sort_key c)
            @ concat (map (\<lambda>(k, v). writeln k v) iter)))"

section \<open>Setters\<close>

definition with_title :: "string \<Rightarrow> bls_config \<Rightarrow> bls_config" where
  "with_title v c = c\<lparr>bls_title := Some v\<rparr>"

definition with_version :: "string \<Rightarrow> bls_config \<Rightarrow> bls_config" where
  "with_version v c = c\<lparr>bls_version := v\<rparr>"

definition with_cfg :: "bls_config_type \<Rightarrow> bls_config \<Rightarrow> bls_config" where
  "with_cfg v c = c\<lparr>bls_cfg_type := v\<rparr>"

definition with_machine_id :: "string \<Rightarrow> bls_config \<Rightarrow> bls_config" where
  "with_machine_id v c = c\<lparr>bls_machine_id := Some v\<rparr>"

definition with_sort_key :: "string \<Rightarrow> bls_config \<Rightarrow> bls_config" where
  "with_sort_key v c = c\<lparr>bls_sort_key := Some v\<rparr>"

definition with_extra :: "(string \<rightharpoonup> string) \<Rightarrow> bls_config \<Rightarrow> bls_config" where
  "with_extra v c = c\<lparr>bls_extra := v\<rparr>"

section \<open>Boot artifacts\<close>

definition TYPE1_BOOT_DIR_PREFIX :: string where
  "TYPE1_BOOT_DIR_PREFIX = ''bootc_composefs-''"

definition UKI_NAME_PREFIX :: string where
  "UKI_NAME_PREFIX = TYPE1_BOOT_DIR_PREFIX"

fun efi_path :: "efi_key \<Rightarrow> string" where
  "efi_path (Efi path) = path"
| "efi_path (Uki path) = path"

text \<open>
  \<^term>\<open>find_digest\<close> is the search for the composefs digest in a command line
  (\<^verbatim>\<open>ComposefsCmdline::find_in_cmdline\<close>), which is composefs-boot's parser.
\<close>

definition bls_get_verity ::
    "string \<Rightarrow> (string \<Rightarrow> string option res) \<Rightarrow> bls_config \<Rightarrow> string res" where
  "bls_get_verity efi_ext find_digest c =
     (case bls_cfg_type c of
        EFI key \<Rightarrow>
          (let comps = path_components (efi_path key) in
           rbind (ok_or ''Empty efi field'' (if comps = [] then None else Some (component_str (last comps))))
             (\<lambda>name. rbind (ok_or ''efi does not start with custom prefix''
                              (strip_prefix UKI_NAME_PREFIX name))
             (\<lambda>rest. ok_or ''efi doesn't end with .efi'' (strip_suffix efi_ext rest))))
      | NonEFI _ _ options \<Rightarrow>
          rbind (ok_or ''No options'' options) (\<lambda>opts.
          rbind (find_digest opts) (\<lambda>found.
          ok_or ''No composefs= or composefs.digest= param'' found))
      | Unknown \<Rightarrow> Inl ''Unknown config type'')"

text \<open>For backwards compatibility the prefix is not mandatory here.\<close>

definition optional_prefix :: "string \<Rightarrow> string \<Rightarrow> string \<times> bool" where
  "optional_prefix p name =
     (case strip_prefix p name of Some r \<Rightarrow> (r, True) | None \<Rightarrow> (name, False))"

definition bls_boot_artifact_info :: "string \<Rightarrow> bls_config \<Rightarrow> (string \<times> bool) res" where
  "bls_boot_artifact_info efi_ext c =
     (case bls_cfg_type c of
        EFI key \<Rightarrow>
          rbind (ok_or ''EFI path missing file name'' (path_file_name (efi_path key))) (\<lambda>file_name.
          rbind (ok_or ''EFI file name missing expected suffix'' (strip_suffix efi_ext file_name))
            (\<lambda>without_suffix. Inr (optional_prefix UKI_NAME_PREFIX without_suffix)))
      | NonEFI linux _ _ \<Rightarrow>
          rbind (ok_or ''Linux kernel path has no parent directory'' (path_parent linux)) (\<lambda>parent_dir.
          rbind (ok_or ''Parent directory has no file name'' (path_file_name parent_dir)) (\<lambda>dir_name.
          Inr (optional_prefix TYPE1_BOOT_DIR_PREFIX dir_name)))
      | Unknown \<Rightarrow> Inl ''Cannot extract boot artifact name from unknown config type'')"

definition bls_boot_artifact_name :: "string \<Rightarrow> bls_config \<Rightarrow> string res" where
  "bls_boot_artifact_name efi_ext c =
     rbind (bls_boot_artifact_info efi_ext c) (\<lambda>info. Inr (fst info))"

definition bls_get_cmdline :: "bls_config \<Rightarrow> string res" where
  "bls_get_cmdline c =
     (case bls_cfg_type c of
        NonEFI _ _ options \<Rightarrow> ok_or ''No cmdline found for config'' options
      | _ \<Rightarrow> Inl ''No cmdline found for config'')"

section \<open>Parsing\<close>

text \<open>The local variables of the parser.\<close>

record bls_vars =
  v_title :: "string option"
  v_version :: "string option"
  v_linux :: "string option"
  v_efi_key :: "efi_key option"
  v_initrd :: "string list"
  v_options :: "string option"
  v_machine_id :: "string option"
  v_sort_key :: "string option"
  v_extra :: "string \<rightharpoonup> string"

definition bls_vars_init :: bls_vars where
  "bls_vars_init = \<lparr>v_title = None, v_version = None, v_linux = None, v_efi_key = None,
     v_initrd = [], v_options = None, v_machine_id = None, v_sort_key = None,
     v_extra = Map.empty\<rparr>"

definition bls_set_field :: "string \<Rightarrow> string \<Rightarrow> bls_vars \<Rightarrow> bls_vars" where
  "bls_set_field key value v =
     (if key = ''title'' then v\<lparr>v_title := Some value\<rparr>
      else if key = ''version'' then v\<lparr>v_version := Some value\<rparr>
      else if key = ''linux'' then v\<lparr>v_linux := Some value\<rparr>
      else if key = ''initrd'' then v\<lparr>v_initrd := v_initrd v @ [value]\<rparr>
      else if key = ''options'' then v\<lparr>v_options := Some value\<rparr>
      else if key = ''machine-id'' then v\<lparr>v_machine_id := Some value\<rparr>
      else if key = ''sort-key'' then v\<lparr>v_sort_key := Some value\<rparr>
      else if key = ''efi'' then v\<lparr>v_efi_key := Some (Efi value)\<rparr>
      else if key = ''uki'' then v\<lparr>v_efi_key := Some (Uki value)\<rparr>
      else v\<lparr>v_extra := (v_extra v)(key \<mapsto> value)\<rparr>)"

definition bls_parse_line :: "string \<Rightarrow> bls_vars \<Rightarrow> bls_vars" where
  "bls_parse_line raw v =
     (let line = trim raw in
      if line = [] \<or> starts_with ''#'' line then v
      else case split_once SPC line of
             None \<Rightarrow> v
           | Some (key, value) \<Rightarrow> bls_set_field key (trim value) v)"

definition bls_finish :: "bls_vars \<Rightarrow> bls_config res" where
  "bls_finish v =
     rbind (ok_or ''Missing 'version' value'' (v_version v)) (\<lambda>version.
     rbind (case (v_linux v, v_efi_key v) of
              (None, Some key) \<Rightarrow> Inr (EFI key)
            | (Some linux, None) \<Rightarrow> Inr (NonEFI linux (v_initrd v) (v_options v))
            | (Some _, Some _) \<Rightarrow> Inl '''linux' and 'efi'/'uki' values present''
            | (None, None) \<Rightarrow> Inl ''Missing 'linux', 'efi', or 'uki' value'') (\<lambda>cfg_type.
     Inr \<lparr>bls_title = v_title v, bls_version = version, bls_cfg_type = cfg_type,
          bls_machine_id = v_machine_id v, bls_sort_key = v_sort_key v,
          bls_extra = v_extra v\<rparr>))"

definition parse_bls_config :: "string \<Rightarrow> bls_config res" where
  "parse_bls_config input = bls_finish (fold bls_parse_line (str_lines input) bls_vars_init)"

section \<open>Round trip\<close>

text \<open>
  A value survives when it is one trimmed, non-empty line. A key of an extra field must in addition
  be free of blanks, not start a comment and differ from the fields of the specification.
\<close>

definition clean :: "string \<Rightarrow> bool" where
  "clean v = (v \<noteq> [] \<and> NL \<notin> set v \<and> no_lead_ws v \<and> no_trail_ws v)"

definition bls_keys :: "string list" where
  "bls_keys = [''title'', ''version'', ''linux'', ''initrd'', ''options'', ''machine-id'',
     ''sort-key'', ''efi'', ''uki'']"

definition key_ok :: "string \<Rightarrow> bool" where
  "key_ok k = (k \<noteq> [] \<and> SPC \<notin> set k \<and> NL \<notin> set k \<and> no_lead_ws k \<and> hd k \<noteq> CHR ''#'')"

definition cfg_clean :: "bls_config_type \<Rightarrow> bool" where
  "cfg_clean t =
     (case t of
        EFI k \<Rightarrow> clean (efi_path k)
      | NonEFI linux initrd options \<Rightarrow>
          clean linux \<and> list_all clean initrd \<and> pred_option clean options
      | Unknown \<Rightarrow> False)"

definition bls_clean :: "bls_config \<Rightarrow> bool" where
  "bls_clean c =
     (pred_option clean (bls_title c) \<and> clean (bls_version c) \<and> cfg_clean (bls_cfg_type c)
      \<and> pred_option clean (bls_machine_id c) \<and> pred_option clean (bls_sort_key c))"

definition extra_ok :: "(string \<times> string) list \<Rightarrow> bool" where
  "extra_ok iter =
     (distinct (map fst iter) \<and> list_all (\<lambda>(k, v). key_ok k \<and> k \<notin> set bls_keys \<and> clean v) iter)"

text \<open>The printer as a list of fields, and the parser on such a list.\<close>

definition fields_text :: "(string \<times> string) list \<Rightarrow> string" where
  "fields_text kvs = concat (map (\<lambda>(k, v). writeln k v) kvs)"

definition fields_ok :: "(string \<times> string) list \<Rightarrow> bool" where
  "fields_ok kvs = list_all (\<lambda>(k, v). key_ok k \<and> clean v) kvs"

definition opt_field :: "string \<Rightarrow> string option \<Rightarrow> (string \<times> string) list" where
  "opt_field k v = (case v of None \<Rightarrow> [] | Some x \<Rightarrow> [(k, x)])"

definition cfg_fields :: "bls_config_type \<Rightarrow> (string \<times> string) list" where
  "cfg_fields t =
     (case t of
        EFI (Efi path) \<Rightarrow> [(''efi'', path)]
      | EFI (Uki path) \<Rightarrow> [(''uki'', path)]
      | NonEFI linux initrd options \<Rightarrow>
          (''linux'', linux) # map (Pair ''initrd'') initrd @ opt_field ''options'' options
      | Unknown \<Rightarrow> [])"

definition bls_fields :: "(string \<times> string) list \<Rightarrow> bls_config \<Rightarrow> (string \<times> string) list" where
  "bls_fields iter c =
     opt_field ''title'' (bls_title c) @ (''version'', bls_version c) # cfg_fields (bls_cfg_type c)
     @ opt_field ''machine-id'' (bls_machine_id c) @ opt_field ''sort-key'' (bls_sort_key c) @ iter"

lemma fields_text_simps [simp]:
  "fields_text [] = []" "fields_text ((k, v) # kvs) = writeln k v @ fields_text kvs"
  "fields_text (xs @ ys) = fields_text xs @ fields_text ys"
  "fields_text (opt_field k x) = write_opt k x"
  by (auto simp: fields_text_def opt_field_def write_opt_def split: option.splits)

lemma fields_ok_simps [simp]:
  "fields_ok []" "fields_ok ((k, v) # kvs) \<longleftrightarrow> key_ok k \<and> clean v \<and> fields_ok kvs"
  "fields_ok (xs @ ys) \<longleftrightarrow> fields_ok xs \<and> fields_ok ys"
  "fields_ok (opt_field k x) \<longleftrightarrow> pred_option (\<lambda>v. key_ok k \<and> clean v) x"
  by (auto simp: fields_ok_def opt_field_def split: option.splits)

lemma fmt_cfg_type_fields:
  "t \<noteq> Unknown \<Longrightarrow> fmt_cfg_type t = Inr (fields_text (cfg_fields t))"
  by (auto simp: fmt_cfg_type_def cfg_fields_def fields_text_def opt_field_def write_opt_def comp_def
      split: bls_config_type.splits efi_key.splits option.splits)

lemma bls_fmt_fields:
  "bls_cfg_type c \<noteq> Unknown \<Longrightarrow> bls_fmt iter c = Inr (fields_text (bls_fields iter c))"
  by (simp add: bls_fmt_def fmt_cfg_type_fields bls_fields_def) (simp add: fields_text_def)

lemma clean_nonempty: "clean v \<Longrightarrow> v \<noteq> [] \<and> no_trail_ws v"
  by (simp add: clean_def)

lemma no_lead_key_value:
  assumes "no_lead_ws k" and "k \<noteq> []"
  shows "no_lead_ws (k @ SPC # v)"
  unfolding no_lead_ws_def
proof
  fix w assume w: "w \<in> set utf8_ws"
  show "\<not> prefix w (k @ SPC # v)"
  proof
    assume "prefix w (k @ SPC # v)"
    moreover have "\<not> prefix w k" using assms(1) w by (simp add: no_lead_ws_def)
    ultimately obtain u where u: "w = k @ u" "u \<noteq> []" "prefix u (SPC # v)"
      by (auto simp: prefix_append)
    then have "SPC \<in> set w" by (auto simp: prefix_Cons)
    then have "w = [SPC]" using utf8_ws_long [OF w] by simp
    with u assms(2) show False by (cases k) auto
  qed
qed

lemma no_trail_not_cr: "no_trail_ws s \<Longrightarrow> strip_cr s = s"
  by (rule strip_cr_id) (simp add: no_trail_ws_def utf8_ws_def)

lemma str_lines_field:
  assumes "key_ok k" and "clean v"
  shows "str_lines (writeln k v @ rest) = (k @ SPC # v) # str_lines rest"
proof -
  have "NL \<notin> set (k @ SPC # v)" using assms by (auto simp: key_ok_def clean_def)
  moreover have "no_trail_ws (k @ SPC # v)"
    using no_trail_key_value clean_nonempty [OF assms(2)] by blast
  ultimately show ?thesis
    using str_lines_Cons [of "k @ SPC # v" rest] no_trail_not_cr by (simp add: writeln_def)
qed

text \<open>What the line-based parsers do with a printed field: it is not trimmed, skipped or cut.\<close>

lemma field_line:
  assumes "key_ok k" and "clean v"
  shows "trim (k @ SPC # v) = k @ SPC # v \<and> \<not> starts_with ''#'' (k @ SPC # v)
    \<and> split_once SPC (k @ SPC # v) = Some (k, v) \<and> trim v = v"
proof -
  have l: "no_lead_ws (k @ SPC # v)"
    using no_lead_key_value assms by (simp add: key_ok_def)
  have e: "no_trail_ws (k @ SPC # v)"
    using no_trail_key_value clean_nonempty [OF assms(2)] by blast
  have "\<not> starts_with ''#'' (k @ SPC # v)"
    using assms(1) by (cases k) (auto simp: key_ok_def starts_with_iff)
  moreover have "split_once SPC (k @ SPC # v) = Some (k, v)"
    using assms(1) by (simp add: key_ok_def)
  moreover have "trim v = v" using assms(2) by (simp add: clean_def trim_id)
  ultimately show ?thesis using trim_id [OF l e] by simp
qed

lemma bls_parse_line_field:
  "key_ok k \<Longrightarrow> clean v \<Longrightarrow> bls_parse_line (k @ SPC # v) s = bls_set_field k v s"
  using field_line [of k v] by (simp add: bls_parse_line_def)

lemma fold_parse_fields:
  "fields_ok kvs \<Longrightarrow>
   fold bls_parse_line (str_lines (fields_text kvs)) s = fold (\<lambda>(k, v). bls_set_field k v) kvs s"
proof (induction kvs arbitrary: s)
  case (Cons kv kvs)
  then show ?case
    by (cases kv) (simp add: str_lines_field bls_parse_line_field)
qed simp

lemma parse_fields:
  "fields_ok kvs \<Longrightarrow>
   parse_bls_config (fields_text kvs) = bls_finish (fold (\<lambda>(k, v). bls_set_field k v) kvs bls_vars_init)"
  by (simp add: parse_bls_config_def fold_parse_fields)

text \<open>Folding the fields of an entry sets the variables of the parser to the entry.\<close>

lemma key_ok_bls_keys: "list_all key_ok bls_keys"
  by (simp add: bls_keys_def key_ok_def no_lead_solid)

lemma key_ok_bls [simp]:
  "key_ok ''title''" "key_ok ''version''" "key_ok ''linux''" "key_ok ''initrd''" "key_ok ''options''"
  "key_ok ''machine-id''" "key_ok ''sort-key''" "key_ok ''efi''" "key_ok ''uki''"
  using key_ok_bls_keys by (simp_all add: bls_keys_def)

lemma cfg_fields_ok: "cfg_clean t \<Longrightarrow> fields_ok (cfg_fields t)"
  by (auto simp: cfg_clean_def cfg_fields_def fields_ok_def opt_field_def list_all_iff
      split: bls_config_type.splits efi_key.splits option.splits)

lemma bls_fields_ok: "bls_clean c \<Longrightarrow> extra_ok iter \<Longrightarrow> fields_ok (bls_fields iter c)"
proof -
  assume c: "bls_clean c" and e: "extra_ok iter"
  have "fields_ok iter" using e by (auto simp: extra_ok_def fields_ok_def list_all_iff)
  then show ?thesis
    using c cfg_fields_ok [of "bls_cfg_type c"] by (simp add: bls_clean_def bls_fields_def)
qed

lemma fold_initrd:
  "fold (\<lambda>(k, v). bls_set_field k v) (map (Pair ''initrd'') xs) s = s\<lparr>v_initrd := v_initrd s @ xs\<rparr>"
  by (induction xs arbitrary: s) (simp_all add: bls_set_field_def)

lemma fold_opt_field [simp]:
  "fold f (opt_field k x) s = (case x of None \<Rightarrow> s | Some v \<Rightarrow> f (k, v) s)"
  by (simp add: opt_field_def split: option.splits)

lemma bls_set_field_extra:
  "k \<notin> set bls_keys \<Longrightarrow> bls_set_field k v s = s\<lparr>v_extra := (v_extra s)(k \<mapsto> v)\<rparr>"
  by (simp add: bls_keys_def bls_set_field_def)

lemma fold_extra:
  "distinct (map fst iter) \<Longrightarrow> list_all (\<lambda>(k, v). k \<notin> set bls_keys) iter \<Longrightarrow>
   fold (\<lambda>(k, v). bls_set_field k v) iter s = s\<lparr>v_extra := v_extra s ++ map_of iter\<rparr>"
proof (induction iter arbitrary: s)
  case (Cons kv iter)
  obtain k v where kv: "kv = (k, v)" by (cases kv)
  then have "k \<notin> dom (map_of iter)" using Cons.prems by (simp add: dom_map_of_conv_image_fst)
  then have "(v_extra s)(k \<mapsto> v) ++ map_of iter = v_extra s ++ map_of (kv # iter)"
    by (auto simp: map_add_def fun_eq_iff kv split: option.splits)
  moreover have "fold (\<lambda>(k, v). bls_set_field k v) (kv # iter) s =
      s\<lparr>v_extra := (v_extra s)(k \<mapsto> v) ++ map_of iter\<rparr>"
    using Cons kv by (simp add: bls_set_field_extra)
  ultimately show ?case by (simp only:)
qed simp

text \<open>The variables of the parser after the fields of the entry type.\<close>

lemma fold_cfg_fields:
  "t \<noteq> Unknown \<Longrightarrow>
   fold (\<lambda>(k, v). bls_set_field k v) (cfg_fields t) s =
     (case t of
        EFI key \<Rightarrow> s\<lparr>v_efi_key := Some key\<rparr>
      | NonEFI linux initrd options \<Rightarrow>
          s\<lparr>v_linux := Some linux, v_initrd := v_initrd s @ initrd,
            v_options := (case options of None \<Rightarrow> v_options s | Some x \<Rightarrow> Some x)\<rparr>
      | Unknown \<Rightarrow> s)"
  by (simp add: cfg_fields_def fold_initrd bls_set_field_def
      split: bls_config_type.splits efi_key.splits option.splits)

lemma bls_finish_fields:
  assumes "cfg_clean (bls_cfg_type c)" and "extra_ok iter" and "map_of iter = bls_extra c"
  shows "bls_finish (fold (\<lambda>(k, v). bls_set_field k v) (bls_fields iter c) bls_vars_init) = Inr c"
proof -
  let ?f = "\<lambda>(k, v). bls_set_field k v"
  let ?s = "bls_vars_init\<lparr>v_title := bls_title c, v_version := Some (bls_version c)\<rparr>"
  have t: "bls_cfg_type c \<noteq> Unknown" using assms(1) by (auto simp: cfg_clean_def)
  have 1: "fold ?f [(''version'', bls_version c)]
      (fold ?f (opt_field ''title'' (bls_title c)) bls_vars_init) = ?s"
    by (simp add: bls_set_field_def bls_vars_init_def split: option.splits)
  have 2: "fold ?f (opt_field ''sort-key'' (bls_sort_key c))
      (fold ?f (opt_field ''machine-id'' (bls_machine_id c)) s)
      = s\<lparr>v_machine_id := bls_machine_id c, v_sort_key := bls_sort_key c\<rparr>"
    if "v_machine_id s = None" "v_sort_key s = None" for s
    using that by (simp add: bls_set_field_def split: option.splits)
  have 3: "fold ?f iter s = s\<lparr>v_extra := bls_extra c\<rparr>" if "v_extra s = Map.empty" for s
    using fold_extra [of iter s] assms(2,3) that
    by (simp add: extra_ok_def list_all_iff split_beta)
  define s2 where "s2 = fold ?f (cfg_fields (bls_cfg_type c)) ?s"
  have s2: "v_machine_id s2 = None" "v_sort_key s2 = None" "v_extra s2 = Map.empty"
    using t by (simp_all add: s2_def fold_cfg_fields bls_vars_init_def split: bls_config_type.splits)
  let ?r = "s2\<lparr>v_machine_id := bls_machine_id c, v_sort_key := bls_sort_key c, v_extra := bls_extra c\<rparr>"
  have app: "fold ?f (a @ b) s = fold ?f b (fold ?f a s)" for a b s by simp
  have fields: "bls_fields iter c = opt_field ''title'' (bls_title c) @ [(''version'', bls_version c)]
      @ cfg_fields (bls_cfg_type c)
      @ opt_field ''machine-id'' (bls_machine_id c) @ opt_field ''sort-key'' (bls_sort_key c) @ iter"
    by (simp add: bls_fields_def)
  have "fold ?f (bls_fields iter c) bls_vars_init = ?r"
    unfolding fields app 1 s2_def [symmetric] 2 [OF s2(1,2)] by (subst 3) (simp_all add: s2)
  moreover have "bls_finish ?r = Inr c"
    using t by (cases "bls_cfg_type c")
      (simp_all add: s2_def fold_cfg_fields bls_finish_def bls_vars_init_def split: option.splits)
  ultimately show ?thesis by simp
qed

lemma bls_roundtrip:
  assumes "bls_clean c" and "extra_ok iter" and "map_of iter = bls_extra c"
  shows "\<exists>s. bls_fmt iter c = Inr s \<and> parse_bls_config s = Inr c"
proof -
  have t: "cfg_clean (bls_cfg_type c)" using assms(1) by (simp add: bls_clean_def)
  then have "bls_cfg_type c \<noteq> Unknown" by (auto simp: cfg_clean_def)
  then show ?thesis
    using bls_fmt_fields [of c iter] parse_fields [OF bls_fields_ok [OF assms(1,2)]]
      bls_finish_fields [OF t assms(2,3)] by simp
qed

text \<open>
  C22. Parsing the printed form of a boot entry gives back the entry, whatever the order in which
  the extra fields happen to be iterated, provided that every value is one trimmed non-empty line
  and that the extra keys are well-formed.
\<close>

theorem bls_parse_print:
  assumes "bls_clean c" and "extra_ok iter" and "map_of iter = bls_extra c"
  shows "\<exists>s. bls_fmt iter c = Inr s \<and> parse_bls_config s = Inr c"
  by (rule bls_roundtrip [OF assms])

theorem bls_parse_print_witness:
  "let c = bls_default\<lparr>bls_title := Some ''Fedora 42'', bls_version := ''2'',
             bls_cfg_type := NonEFI ''/boot/a/vmlinuz'' [''/boot/a/initrd''] (Some ''rw quiet''),
             bls_sort_key := Some ''bootc-fedora-0'', bls_extra := [''custom1'' \<mapsto> ''value 1'']\<rparr>
   in \<exists>s. bls_fmt [(''custom1'', ''value 1'')] c = Inr s \<and> parse_bls_config s = Inr c"
  unfolding Let_def
  by (rule bls_parse_print)
    (simp_all add: bls_clean_def cfg_clean_def clean_def extra_ok_def key_ok_def bls_keys_def
      bls_default_def no_lead_solid no_trail_solid)

section \<open>The menu order\<close>

text \<open>
  Entries that agree on which of the two optional keys they have. Among these the comparison is a
  total preorder as soon as the comparison of versions is one.
\<close>

definition uniform :: "bool \<Rightarrow> bool \<Rightarrow> bls_config set" where
  "uniform has_key has_id =
     {c. (bls_sort_key c \<noteq> None) = has_key \<and> (bls_machine_id c \<noteq> None) = has_id}"

lemma opt_cmp_same:
  "(a \<noteq> None) = p \<Longrightarrow> (b \<noteq> None) = p \<Longrightarrow>
   opt_cmp a b = (if p then ord_cmp (the a) (the b) else Equal)"
  by (auto simp: opt_cmp_def split: option.splits)

definition bls_key :: "bool \<Rightarrow> bool \<Rightarrow> bls_config \<Rightarrow> string \<times> string" where
  "bls_key p q c =
     ((if p then the (bls_sort_key c) else []), (if q then the (bls_machine_id c) else []))"

lemma bls_cmp_uniform:
  assumes "a \<in> uniform p q" and "b \<in> uniform p q"
  shows "bls_cmp vcmp a b =
    (if fst (bls_key p q a) \<noteq> fst (bls_key p q b) then ord_cmp (fst (bls_key p q a)) (fst (bls_key p q b))
     else if snd (bls_key p q a) \<noteq> snd (bls_key p q b) then ord_cmp (snd (bls_key p q a)) (snd (bls_key p q b))
     else ord_reverse (vcmp (bls_version a) (bls_version b)))"
proof -
  have "opt_cmp (bls_sort_key a) (bls_sort_key b) = ord_cmp (fst (bls_key p q a)) (fst (bls_key p q b))"
    using assms opt_cmp_same [of "bls_sort_key a" p "bls_sort_key b"]
    by (auto simp: uniform_def bls_key_def ord_cmp_def)
  moreover have "opt_cmp (bls_machine_id a) (bls_machine_id b) = ord_cmp (snd (bls_key p q a)) (snd (bls_key p q b))"
    using assms opt_cmp_same [of "bls_machine_id a" q "bls_machine_id b"]
    by (auto simp: uniform_def bls_key_def ord_cmp_def)
  ultimately show ?thesis by (simp add: bls_cmp_def Let_def)
qed

lemma bls_cmp_le_uniform:
  assumes "a \<in> uniform p q" and "b \<in> uniform p q"
  shows "bls_cmp vcmp a b \<noteq> Greater \<longleftrightarrow>
    fst (bls_key p q a) < fst (bls_key p q b) \<or> fst (bls_key p q a) = fst (bls_key p q b)
      \<and> (snd (bls_key p q a) < snd (bls_key p q b) \<or> snd (bls_key p q a) = snd (bls_key p q b)
          \<and> vcmp (bls_version a) (bls_version b) \<noteq> Less)"
  using bls_cmp_uniform [OF assms, of vcmp] by auto

locale version_order = versions: comparator UNIV vcmp
  for vcmp :: "string \<Rightarrow> string \<Rightarrow> ordering"
begin

lemma version_ge_trans: "vcmp x y \<noteq> Less \<Longrightarrow> vcmp y z \<noteq> Less \<Longrightarrow> vcmp x z \<noteq> Less"
  using comparator.cmp_trans [OF comparator_reverse [OF versions.comparator_axioms], of x y z] by simp

lemma bls_comparator: "comparator (uniform p q) (bls_cmp vcmp)"
proof
  fix a b assume "a \<in> uniform p q" "b \<in> uniform p q"
  then show "bls_cmp vcmp b a = ord_reverse (bls_cmp vcmp a b)"
    using versions.cmp_sym [of "bls_version a" "bls_version b"]
    by (auto simp: bls_cmp_uniform ord_cmp_def)
next
  fix a b c assume "a \<in> uniform p q" "b \<in> uniform p q" "c \<in> uniform p q"
    and "bls_cmp vcmp a b \<noteq> Greater" "bls_cmp vcmp b c \<noteq> Greater"
  then show "bls_cmp vcmp a c \<noteq> Greater"
    using version_ge_trans [of "bls_version a" "bls_version b" "bls_version c"]
    by (auto simp: bls_cmp_le_uniform)
qed

end

interpretation bytes: version_order ord_cmp
  by unfold_locales

text \<open>
  Sorting boot entries that all have, or all lack, a sort key, and likewise a machine id,
  yields a permutation in which no entry is greater than a later one, for any comparison of
  versions that is a total preorder. Entries with equal keys come newest version first.
\<close>

theorem bls_sort_sorted:
  assumes "comparator UNIV vcmp" and "set cs \<subseteq> uniform p q"
  shows "mset (sort_by (bls_cmp vcmp) cs) = mset cs
    \<and> sorted_wrt (\<lambda>a b. bls_cmp vcmp a b \<noteq> Greater) (sort_by (bls_cmp vcmp) cs)
    \<and> sorted_wrt (\<lambda>a b. bls_key p q a = bls_key p q b \<longrightarrow>
          vcmp (bls_version a) (bls_version b) \<noteq> Less) (sort_by (bls_cmp vcmp) cs)"
proof -
  have v: "version_order vcmp" using assms(1) by (simp add: version_order_def)
  have s: "sorted_wrt (\<lambda>a b. bls_cmp vcmp a b \<noteq> Greater) (sort_by (bls_cmp vcmp) cs)"
    using comparator.sort_by_sorted [OF version_order.bls_comparator [OF v] assms(2)] .
  moreover have "sorted_wrt (\<lambda>a b. bls_key p q a = bls_key p q b \<longrightarrow>
          vcmp (bls_version a) (bls_version b) \<noteq> Less) (sort_by (bls_cmp vcmp) cs)"
    by (rule sorted_wrt_mono_rel [OF _ s])
      (use assms(2) bls_cmp_le_uniform [of _ p q _ vcmp] in \<open>force\<close>)
  ultimately show ?thesis by simp
qed

theorem bls_sort_sorted_witness:
  "let a = bls_default\<lparr>bls_sort_key := Some ''k'', bls_version := ''1''\<rparr>;
       b = bls_default\<lparr>bls_sort_key := Some ''k'', bls_version := ''2''\<rparr>
   in sort_by (bls_cmp ord_cmp) [a, b] = [b, a]
      \<and> sorted_wrt (\<lambda>a b. bls_cmp ord_cmp a b \<noteq> Greater) (sort_by (bls_cmp ord_cmp) [a, b])"
  using bls_sort_sorted [of ord_cmp "[bls_default\<lparr>bls_sort_key := Some ''k'', bls_version := ''1''\<rparr>,
      bls_default\<lparr>bls_sort_key := Some ''k'', bls_version := ''2''\<rparr>]" True False]
    str_order.comparator_axioms
  by (simp add: uniform_def bls_default_def sort_by_def bls_cmp_def opt_cmp_def Let_def ord_cmp_def)

text \<open>
  Without that restriction the comparison is not an order: with three versions in ascending
  order there are entries, one of them without a sort key, each smaller than the next around a cycle.
\<close>

theorem bls_cmp_cycle:
  assumes "vcmp v2 v1 = Greater" and "vcmp v3 v2 = Greater"
  shows "\<exists>a b c. bls_cmp vcmp a b = Less \<and> bls_cmp vcmp b c = Less \<and> bls_cmp vcmp c a = Less"
proof -
  let ?a = "bls_default\<lparr>bls_sort_key := Some ''a'', bls_version := v1\<rparr>"
  let ?b = "bls_default\<lparr>bls_sort_key := Some ''b'', bls_version := v3\<rparr>"
  let ?c = "bls_default\<lparr>bls_version := v2\<rparr>"
  have "bls_cmp vcmp ?a ?b = Less \<and> bls_cmp vcmp ?b ?c = Less \<and> bls_cmp vcmp ?c ?a = Less"
    using assms by (simp add: bls_cmp_def opt_cmp_def bls_default_def Let_def ord_cmp_def)
  then show ?thesis by blast
qed

theorem bls_cmp_cycle_witness:
  "\<exists>a b c. bls_cmp ord_cmp a b = Less \<and> bls_cmp ord_cmp b c = Less \<and> bls_cmp ord_cmp c a = Less"
  by (rule bls_cmp_cycle [of _ "''2''" "''1''" "''3''"]) (simp_all add: ord_cmp_def)

section \<open>Names of boot artifacts\<close>

lemma name_prefix_is_name:
  assumes "path_sep \<notin> set v"
  shows "is_name (TYPE1_BOOT_DIR_PREFIX @ v)"
  using assms by (auto simp: is_name_def TYPE1_BOOT_DIR_PREFIX_def path_sep_def)

lemma path_file_name_last:
  "path_file_name p = Some n \<longleftrightarrow> path_components p \<noteq> [] \<and> last (path_components p) = Normal n"
  by (auto simp: path_file_name_def split: component.splits)

lemma last_prefixed:
  assumes "strip_prefix UKI_NAME_PREFIX (component_str x) = Some r"
  shows "x = Normal (UKI_NAME_PREFIX @ r)"
  using assms by (cases x) (simp_all add: strip_prefix_iff UKI_NAME_PREFIX_def TYPE1_BOOT_DIR_PREFIX_def)

text \<open>
  For an EFI entry the digest of the deployment and the name of its boot artifact are the
  same, and one is found exactly when the other is found with the mandatory prefix.
\<close>

theorem efi_verity_is_artifact_name:
  assumes "bls_cfg_type c = EFI key"
  shows "bls_get_verity efi_ext find_digest c = Inr v \<longleftrightarrow> bls_boot_artifact_info efi_ext c = Inr (v, True)"
proof -
  have "bls_get_verity efi_ext find_digest c = Inr v \<longleftrightarrow>
      path_file_name (efi_path key) = Some (UKI_NAME_PREFIX @ v @ efi_ext)"
    (is "?l \<longleftrightarrow> ?r")
  proof
    assume ?l
    then obtain r where "path_components (efi_path key) \<noteq> []"
      and "strip_prefix UKI_NAME_PREFIX (component_str (last (path_components (efi_path key)))) = Some r"
      and "r = v @ efi_ext"
      using assms by (auto simp: bls_get_verity_def Let_def rbind_Inr_iff ok_or_Inr_iff strip_suffix_iff
          split: if_splits)
    then show ?r using last_prefixed by (simp add: path_file_name_last)
  next
    assume ?r
    then show ?l
      using assms by (simp add: path_file_name_last bls_get_verity_def)
  qed
  also have "?r \<longleftrightarrow> bls_boot_artifact_info efi_ext c = Inr (v, True)"
    using assms by (auto simp: bls_boot_artifact_info_def rbind_Inr_iff ok_or_Inr_iff strip_suffix_iff
        optional_prefix_def strip_prefix_iff split: option.splits)
  finally show ?thesis .
qed

theorem efi_verity_is_artifact_name_witness:
  "let c = bls_default\<lparr>bls_cfg_type := EFI (Uki ''/EFI/Linux/bootc/bootc_composefs-ab.efi'')\<rparr>
   in bls_get_verity ''.efi'' (\<lambda>_. Inr None) c = Inr ''ab''
      \<and> bls_boot_artifact_info ''.efi'' c = Inr (''ab'', True)"
proof -
  let ?c = "bls_default\<lparr>bls_cfg_type := EFI (Uki ''/EFI/Linux/bootc/bootc_composefs-ab.efi'')\<rparr>"
  have "bls_get_verity ''.efi'' (\<lambda>_. Inr None) ?c = Inr ''ab''" by code_simp
  moreover have "bls_get_verity ''.efi'' (\<lambda>_. Inr None) ?c = Inr ''ab''
      \<longleftrightarrow> bls_boot_artifact_info ''.efi'' ?c = Inr (''ab'', True)"
    by (rule efi_verity_is_artifact_name) (simp add: bls_default_def)
  ultimately show ?thesis by (simp add: Let_def)
qed

end
