(* ===== verification/Boot_Names.thy ===== *)
theory Boot_Names
  imports BLS_Config
begin

text \<open>
  Names of boot artifacts, entry files and sort keys (\<^verbatim>\<open>crates/lib/src/bootc_composefs/boot.rs\<close>)
  and the boot type of a deployment. The extensions of EFI binaries and addons are constants of
  composefs-boot and arguments here.
\<close>

section \<open>Boot type\<close>

datatype boot_type = Bls | UkiBoot

fun boot_type_fmt :: "boot_type \<Rightarrow> string" where
  "boot_type_fmt Bls = ''bls''"
| "boot_type_fmt UkiBoot = ''uki''"

definition boot_type_try_from :: "string \<Rightarrow> boot_type res" where
  "boot_type_try_from v =
     (if v = ''bls'' then Inr Bls else if v = ''uki'' then Inr UkiBoot
      else Inl ''Unrecognized boot option'')"

interpretation boot_type: codec "\<lambda>_. True" boot_type_fmt boot_type_try_from
proof
  show "boot_type_try_from (boot_type_fmt t) = Inr t" for t
    by (cases t) (simp_all add: boot_type_try_from_def)
qed

section \<open>Names\<close>

definition EFI_UUID_FILE :: string where
  "EFI_UUID_FILE = ''efiuuid.cfg''"

definition EFI_LINUX :: string where
  "EFI_LINUX = ''EFI/Linux''"

definition BOOTC_UKI_DIR :: string where
  "BOOTC_UKI_DIR = ''EFI/Linux/bootc''"

definition BLS_ENTRY_FILE_PREFIX :: string where
  "BLS_ENTRY_FILE_PREFIX = ''bootc_''"

definition FILENAME_PRIORITY_PRIMARY :: string where
  "FILENAME_PRIORITY_PRIMARY = ''1''"

definition FILENAME_PRIORITY_SECONDARY :: string where
  "FILENAME_PRIORITY_SECONDARY = ''0''"

definition SORTKEY_PRIORITY_PRIMARY :: string where
  "SORTKEY_PRIORITY_PRIMARY = ''0''"

definition SORTKEY_PRIORITY_SECONDARY :: string where
  "SORTKEY_PRIORITY_SECONDARY = ''1''"

definition replace_char :: "char \<Rightarrow> char \<Rightarrow> string \<Rightarrow> string" where
  "replace_char a b s = map (\<lambda>c. if c = a then b else c) s"

definition type1_entry_conf_file_name :: "string \<Rightarrow> string \<Rightarrow> string \<Rightarrow> string" where
  "type1_entry_conf_file_name os_id version priority =
     BLS_ENTRY_FILE_PREFIX @ replace_char (CHR ''-'') (CHR ''_'') os_id @ ''-'' @ version @ ''-''
     @ priority @ ''.conf''"

definition primary_sort_key :: "string \<Rightarrow> string" where
  "primary_sort_key os_id = ''bootc-'' @ os_id @ ''-'' @ SORTKEY_PRIORITY_PRIMARY"

definition secondary_sort_key :: "string \<Rightarrow> string" where
  "secondary_sort_key os_id = ''bootc-'' @ os_id @ ''-'' @ SORTKEY_PRIORITY_SECONDARY"

definition get_type1_dir_name :: "string \<Rightarrow> string" where
  "get_type1_dir_name depl_verity = TYPE1_BOOT_DIR_PREFIX @ depl_verity"

definition get_uki_name :: "string \<Rightarrow> string \<Rightarrow> string" where
  "get_uki_name efi_ext depl_verity = UKI_NAME_PREFIX @ depl_verity @ efi_ext"

definition get_uki_addon_dir_name :: "string \<Rightarrow> string \<Rightarrow> string" where
  "get_uki_addon_dir_name addon_dir_ext depl_verity = UKI_NAME_PREFIX @ depl_verity @ addon_dir_ext"

definition get_uki_addon_file_name :: "string \<Rightarrow> string \<Rightarrow> string" where
  "get_uki_addon_file_name addon_file_ext depl_verity =
     UKI_NAME_PREFIX @ depl_verity @ addon_file_ext"

definition get_efi_uuid_source :: string where
  "get_efi_uuid_source =
     NL # ''if [ -f ${config_directory}/'' @ EFI_UUID_FILE @ '' ]; then'' @
     NL # ''        source ${config_directory}/'' @ EFI_UUID_FILE @
     NL # ''fi'' @ [NL]"

section \<open>Properties of the names\<close>

lemma append_less_iff: "a @ b < a @ c \<longleftrightarrow> b < (c :: string)"
  by (induction a) auto

lemma uki_name_is_name:
  assumes "path_sep \<notin> set v" and "path_sep \<notin> set efi_ext"
  shows "is_name (get_uki_name efi_ext v)"
  using assms name_prefix_is_name [of "v @ efi_ext"] by (simp add: get_uki_name_def UKI_NAME_PREFIX_def)

text \<open>
  The artifact names written into boot entries identify the deployment: from the path of a
  UKI, and from the path of a kernel below its Type1 directory, the digest is read back and found
  with its prefix.
\<close>

theorem artifact_name_roundtrip:
  assumes "path_sep \<notin> set v" and "path_sep \<notin> set efi_ext"
    and "path_absolute dir" and "is_name kern"
  shows "bls_boot_artifact_info efi_ext
           (with_cfg (EFI (Uki (dir @ path_sep # get_uki_name efi_ext v))) c) = Inr (v, True)
       \<and> bls_boot_artifact_info efi_ext
           (with_cfg (NonEFI (dir @ path_sep # get_type1_dir_name v @ path_sep # kern) initrd opts) c)
         = Inr (v, True)"
proof -
  have dir: "dir \<noteq> []" using assms(3) by auto
  have "path_file_name (dir @ path_sep # get_uki_name efi_ext v) = Some (get_uki_name efi_ext v)"
    using path_file_name_snoc uki_name_is_name assms(1,2) dir by blast
  moreover have "strip_suffix efi_ext (get_uki_name efi_ext v) = Some (UKI_NAME_PREFIX @ v)"
    by (simp add: strip_suffix_iff get_uki_name_def)
  ultimately have uki: "bls_boot_artifact_info efi_ext
           (with_cfg (EFI (Uki (dir @ path_sep # get_uki_name efi_ext v))) c) = Inr (v, True)"
    by (simp add: bls_boot_artifact_info_def with_cfg_def optional_prefix_def)
  have "is_name (get_type1_dir_name v)"
    using name_prefix_is_name [OF assms(1)] by (simp add: get_type1_dir_name_def)
  from path_parent_root_snoc [OF assms(4) this assms(3)]
  have "bls_boot_artifact_info efi_ext
           (with_cfg (NonEFI (dir @ path_sep # get_type1_dir_name v @ path_sep # kern) initrd opts) c)
         = Inr (v, True)"
    by (auto simp: bls_boot_artifact_info_def with_cfg_def optional_prefix_def get_type1_dir_name_def)
  with uki show ?thesis by simp
qed

theorem artifact_name_roundtrip_witness:
  "bls_boot_artifact_info ''.efi''
     (with_cfg (EFI (Uki (''/EFI/Linux/bootc'' @ path_sep # get_uki_name ''.efi'' ''ab''))) bls_default)
     = Inr (''ab'', True)
   \<and> bls_boot_artifact_info ''.efi''
     (with_cfg (NonEFI (''/boot'' @ path_sep # get_type1_dir_name ''ab'' @ path_sep # ''vmlinuz'') [] None)
        bls_default) = Inr (''ab'', True)"
  using artifact_name_roundtrip [of "''ab''" "''.efi''" "''/EFI/Linux/bootc''" "''vmlinuz''" bls_default "[]" None]
    artifact_name_roundtrip [of "''ab''" "''.efi''" "''/boot''" "''vmlinuz''" bls_default "[]" None]
  by (simp add: path_sep_def is_name_def path_absolute_def starts_with_def)

text \<open>
  The new deployment comes first in the boot menu: with systemd-boot, which sorts by the sort
  key, the primary entry is smaller than the secondary one whatever the versions are; with GRUB,
  which sorts by file name in descending order, the primary entry's file name is the greater of
  the two for the same operating system and version.
\<close>

theorem primary_entry_first:
  "bls_cmp vcmp (with_sort_key (primary_sort_key os_id) a) (with_sort_key (secondary_sort_key os_id) b) = Less
   \<and> ord_cmp (type1_entry_conf_file_name os_id version FILENAME_PRIORITY_PRIMARY)
       (type1_entry_conf_file_name os_id version FILENAME_PRIORITY_SECONDARY) = Greater"
proof -
  have "primary_sort_key os_id < secondary_sort_key os_id"
    unfolding primary_sort_key_def secondary_sort_key_def append_less_iff
    by (simp add: SORTKEY_PRIORITY_PRIMARY_def SORTKEY_PRIORITY_SECONDARY_def less_char_def)
  moreover have "type1_entry_conf_file_name os_id version FILENAME_PRIORITY_SECONDARY
      < type1_entry_conf_file_name os_id version FILENAME_PRIORITY_PRIMARY"
    unfolding type1_entry_conf_file_name_def append_less_iff
    by (simp add: FILENAME_PRIORITY_PRIMARY_def FILENAME_PRIORITY_SECONDARY_def less_char_def)
  ultimately show ?thesis
    by (auto simp: bls_cmp_def opt_cmp_def with_sort_key_def Let_def)
qed

end
