(* ===== verification/Grub_Menu.thy ===== *)
theory Grub_Menu
  imports Boot_Names
begin

text \<open>
  GRUB menu entries for UKIs (\<^verbatim>\<open>crates/lib/src/parsers/grub_menuconfig.rs\<close>): the entry type, its
  printer and the parser of \<^verbatim>\<open>user.cfg\<close>.

  The elementary parsers come from the crate \<^verbatim>\<open>nom\<close>. They are the fields of a record that the
  parser takes as an argument; the locale \<^verbatim>\<open>nom_laws\<close> states the part of their documented behaviour
  that the round trip of printed entries relies on. A parser maps its input to the rest and the
  output. The bracket matcher is the program's own and is modelled in full.
\<close>

section \<open>Entries\<close>

record menuentry_body =
  insmod :: "string list"
  chainloader :: string
  search :: string
  body_version :: nat
  body_extra :: "(string \<times> string) list"

record menu_entry =
  entry_title :: string
  entry_body :: menuentry_body

definition menuentry_body_fmt :: "menuentry_body \<Rightarrow> string" where
  "menuentry_body_fmt b =
     concat (map (writeln ''insmod'') (insmod b)) @ writeln ''search'' (search b)
     @ writeln ''chainloader'' (chainloader b) @ concat (map (\<lambda>(k, v). writeln k v) (body_extra b))"

definition body_empty :: menuentry_body where
  "body_empty = \<lparr>insmod = [], chainloader = '''', search = '''', body_version = 0, body_extra = []\<rparr>"

definition body_set :: "string \<times> string \<Rightarrow> menuentry_body \<Rightarrow> menuentry_body" where
  "body_set kv entry =
     (case kv of (key, value) \<Rightarrow>
        if key = ''insmod'' then entry\<lparr>insmod := insmod entry @ [value]\<rparr>
        else if key = ''chainloader'' then entry\<lparr>chainloader := value\<rparr>
        else if key = ''search'' then entry\<lparr>search := value\<rparr>
        else if key = ''set'' then entry
        else entry\<lparr>body_extra := body_extra entry @ [(key, value)]\<rparr>)"

definition menuentry_body_from :: "(string \<times> string) list \<Rightarrow> menuentry_body" where
  "menuentry_body_from vec = fold body_set vec body_empty"

definition menu_entry_fmt :: "menu_entry \<Rightarrow> string" where
  "menu_entry_fmt e =
     ''menuentry '' @ [CHR 0x22] @ entry_title e @ [CHR 0x22] @ '' {'' @ [NL]
     @ menuentry_body_fmt (entry_body e) @ ''}'' @ [NL]"

definition menu_entry_new :: "string \<Rightarrow> string \<Rightarrow> string \<Rightarrow> menu_entry" where
  "menu_entry_new efi_ext boot_label uki_id =
     \<lparr>entry_title = boot_label @ '': ('' @ uki_id @ '')'',
      entry_body =
        \<lparr>insmod = [''fat'', ''chain''],
         chainloader = path_sep # BOOTC_UKI_DIR @ path_sep # get_uki_name efi_ext uki_id,
         search = ''--no-floppy --set=root --fs-uuid '' @ [CHR 0x22] @ ''${EFI_PART_UUID}'' @ [CHR 0x22],
         body_version = 0, body_extra = []\<rparr>\<rparr>"

definition menu_get_verity :: "string \<Rightarrow> menu_entry \<Rightarrow> string res" where
  "menu_get_verity efi_ext e =
     (let comps = path_components (chainloader (entry_body e)) in
      rbind (ok_or ''Empty efi field'' (if comps = [] then None else Some (component_str (last comps))))
        (\<lambda>name. rbind (ok_or ''efi does not start with custom prefix''
                         (strip_prefix UKI_NAME_PREFIX name))
        (\<lambda>rest. ok_or ''efi doesn't end with .efi'' (strip_suffix efi_ext rest))))"

definition menu_boot_artifact_info :: "string \<Rightarrow> menu_entry \<Rightarrow> (string \<times> bool) res" where
  "menu_boot_artifact_info efi_ext e =
     rbind (ok_or ''Chainloader path missing file name'' (path_file_name (chainloader (entry_body e))))
       (\<lambda>file_name.
     rbind (ok_or ''EFI file name missing expected suffix'' (strip_suffix efi_ext file_name))
       (\<lambda>without_suffix. Inr (optional_prefix UKI_NAME_PREFIX without_suffix)))"

definition menu_boot_artifact_name :: "string \<Rightarrow> menu_entry \<Rightarrow> string res" where
  "menu_boot_artifact_name efi_ext e =
     rbind (menu_boot_artifact_info efi_ext e) (\<lambda>info. Inr (fst info))"

section \<open>The bracket matcher\<close>

text \<open>
  The loop over brackets and backslashes, from the current index on. It returns what it consumes
  and the rest. After a backslash at the very end of the input the index points one past the end,
  and slicing there panics.
\<close>

definition backslash :: char where
  "backslash = CHR 0x5C"

fun balanced_loop :: "char \<Rightarrow> char \<Rightarrow> int \<Rightarrow> string \<Rightarrow> (string \<times> string) outcome" where
  "balanced_loop op cl n [] = (if n = 0 then Inr ([], []) else Inl (Err ''TakeUntil''))"
| "balanced_loop op cl n (x # xs) =
     (if x = backslash then
        (case xs of
           [] \<Rightarrow> Inl (Panic ''byte index out of bounds'')
         | y # ys \<Rightarrow> rbind (balanced_loop op cl n ys) (\<lambda>(a, r). Inr (x # y # a, r)))
      else if x = op then rbind (balanced_loop op cl (n + 1) xs) (\<lambda>(a, r). Inr (x # a, r))
      else if x = cl then
        (if n - 1 = -1 then Inr ([], x # xs)
         else rbind (balanced_loop op cl (n - 1) xs) (\<lambda>(a, r). Inr (x # a, r)))
      else rbind (balanced_loop op cl n xs) (\<lambda>(a, r). Inr (x # a, r)))"

definition take_until_balanced_allow_nested ::
    "char \<Rightarrow> char \<Rightarrow> string \<Rightarrow> (string \<times> string) outcome" where
  "take_until_balanced_allow_nested op cl i =
     rbind (balanced_loop op cl 0 i) (\<lambda>(a, r). Inr (r, a))"

section \<open>The parser\<close>

type_synonym nparser = "string \<Rightarrow> (string \<times> string) outcome"

text \<open>
  The parsers of \<^verbatim>\<open>nom\<close> that are used: \<^verbatim>\<open>tag\<close>, \<^verbatim>\<open>multispace0\<close>, \<^verbatim>\<open>multispace1\<close>,
  \<^verbatim>\<open>escaped\<close> with the arguments for titles, and \<^verbatim>\<open>take_until\<close>.
\<close>

record nom =
  nom_tag :: "string \<Rightarrow> nparser"
  nom_multispace0 :: nparser
  nom_multispace1 :: nparser
  nom_escaped :: nparser
  nom_take_until :: "string \<Rightarrow> nparser"

text \<open>\<^verbatim>\<open>delimited\<close> runs three parsers and keeps the output of the second.\<close>

definition delimited :: "nparser \<Rightarrow> nparser \<Rightarrow> nparser \<Rightarrow> nparser" where
  "delimited a b c i =
     rbind (a i) (\<lambda>(i1, _). rbind (b i1) (\<lambda>(i2, out). rbind (c i2) (\<lambda>(i3, _). Inr (i3, out))))"

definition body_line :: "string \<Rightarrow> (string \<times> string) list" where
  "body_line raw =
     (let line = trim raw in
      if line = [] \<or> starts_with ''#'' line then []
      else case split_once SPC line of
             None \<Rightarrow> []
           | Some (key, value) \<Rightarrow> [(key, trim value)])"

definition body_fields :: "string \<Rightarrow> (string \<times> string) list" where
  "body_fields body = concat (map body_line (str_lines body))"

definition parse_menuentry :: "nom \<Rightarrow> string \<Rightarrow> (string \<times> menu_entry) outcome" where
  "parse_menuentry N input =
     rbind (nom_tag N ''menuentry'' input) (\<lambda>(i1, _).
     rbind (nom_multispace1 N i1) (\<lambda>(i2, _).
     rbind (delimited (nom_tag N [CHR 0x22]) (nom_escaped N) (nom_tag N [CHR 0x22]) i2) (\<lambda>(i3, title).
     rbind (nom_multispace0 N i3) (\<lambda>(i4, _).
     rbind (delimited (nom_tag N ''{'')
              (take_until_balanced_allow_nested (CHR ''{'') (CHR ''}'')) (nom_tag N ''}'') i4)
       (\<lambda>(i5, body).
     Inr (i5, \<lparr>entry_title = title, entry_body = menuentry_body_from (body_fields body)\<rparr>))))))"

definition skip_to_menuentry :: "nom \<Rightarrow> string \<Rightarrow> string outcome" where
  "skip_to_menuentry N input = rbind (nom_take_until N ''menuentry'' input) (\<lambda>(rest, _). Inr rest)"

text \<open>
  The loop of \<^verbatim>\<open>parse_all\<close>. It ends when each entry consumes some input, which depends on the
  parsers of \<^verbatim>\<open>nom\<close>; not ending is the value \<^const>\<open>None\<close>.
\<close>

partial_function (option) parse_entries ::
    "nom \<Rightarrow> menu_entry list \<Rightarrow> string \<Rightarrow> (string \<times> menu_entry list) outcome option" where
  "parse_entries N entries remaining =
     (if trim remaining = [] then Some (Inr (remaining, entries))
      else case parse_menuentry N remaining of
             Inl e \<Rightarrow> Some (Inl e)
           | Inr (new_input, entry) \<Rightarrow>
               (case nom_multispace0 N new_input of
                  Inl e \<Rightarrow> Some (Inl e)
                | Inr (ws_input, _) \<Rightarrow>
                    (case skip_to_menuentry N ws_input of
                       Inr next_input \<Rightarrow> parse_entries N (entries @ [entry]) next_input
                     | Inl (Panic m) \<Rightarrow> Some (Inl (Panic m))
                     | Inl (Err m) \<Rightarrow>
                         if trim ws_input \<noteq> [] then Some (Inr (ws_input, entries @ [entry]))
                         else parse_entries N (entries @ [entry]) ws_input)))"

definition parse_all :: "nom \<Rightarrow> string \<Rightarrow> (string \<times> menu_entry list) outcome option" where
  "parse_all N input =
     (case skip_to_menuentry N input of
        Inl (Panic m) \<Rightarrow> Some (Inl (Panic m))
      | Inl (Err _) \<Rightarrow> Some (Inr ('''', []))
      | Inr new_input \<Rightarrow> parse_entries N [] new_input)"

definition check_titles :: "menu_entry list \<Rightarrow> menu_entry list outcome" where
  "check_titles entries =
     (if list_ex (\<lambda>e. entry_title e = []) entries
      then Inl (Err ''Found menuentry with empty title'') else Inr entries)"

definition parse_grub_menuentry_file :: "nom \<Rightarrow> string \<Rightarrow> menu_entry list outcome option" where
  "parse_grub_menuentry_file N contents =
     (case parse_all N contents of
        None \<Rightarrow> None
      | Some r \<Rightarrow> Some (rbind r (\<lambda>(_, entries). check_titles entries)))"

section \<open>Verity of a new entry\<close>

lemma menu_verity_new:
  assumes "path_sep \<notin> set v" and "path_sep \<notin> set efi_ext"
  shows "menu_get_verity efi_ext (menu_entry_new efi_ext label v) = Inr v
    \<and> menu_boot_artifact_info efi_ext (menu_entry_new efi_ext label v) = Inr (v, True)"
proof -
  let ?p = "(path_sep # BOOTC_UKI_DIR) @ path_sep # get_uki_name efi_ext v"
  have f: "path_file_name ?p = Some (get_uki_name efi_ext v)"
    by (rule path_file_name_snoc [OF uki_name_is_name]) (use assms in simp_all)
  then have "path_components ?p \<noteq> [] \<and> last (path_components ?p) = Normal (get_uki_name efi_ext v)"
    by (rule iffD1 [OF path_file_name_last])
  moreover have "strip_suffix efi_ext (get_uki_name efi_ext v) = Some (UKI_NAME_PREFIX @ v)"
    by (simp add: strip_suffix_iff get_uki_name_def)
  ultimately show ?thesis
    using f by (simp add: menu_get_verity_def menu_boot_artifact_info_def menu_entry_new_def
        optional_prefix_def get_uki_name_def)
qed

section \<open>Round trip\<close>

definition menu_keys :: "string list" where
  "menu_keys = [''insmod'', ''chainloader'', ''search'', ''set'']"

text \<open>Text whose brackets match, so that the matcher passes over it.\<close>

definition brackets_ok :: "string \<Rightarrow> bool" where
  "brackets_ok s = (balanced_loop (CHR ''{'') (CHR ''}'') 0 s = Inr (s, []))"

definition body_ok :: "menuentry_body \<Rightarrow> bool" where
  "body_ok b =
     (list_all clean (insmod b) \<and> clean (search b) \<and> clean (chainloader b) \<and> body_version b = 0
      \<and> list_all (\<lambda>(k, v). key_ok k \<and> k \<notin> set menu_keys \<and> clean v) (body_extra b)
      \<and> brackets_ok (menuentry_body_fmt b))"

definition entry_ok :: "menu_entry \<Rightarrow> bool" where
  "entry_ok e =
     (entry_title e \<noteq> [] \<and> CHR 0x22 \<notin> set (entry_title e) \<and> backslash \<notin> set (entry_title e)
      \<and> body_ok (entry_body e))"

definition menu_fields :: "menuentry_body \<Rightarrow> (string \<times> string) list" where
  "menu_fields b =
     map (Pair ''insmod'') (insmod b) @ (''search'', search b) # (''chainloader'', chainloader b)
     # body_extra b"

lemma menuentry_body_fmt_fields: "menuentry_body_fmt b = fields_text (menu_fields b)"
  by (simp add: menuentry_body_fmt_def menu_fields_def) (simp add: fields_text_def comp_def)

lemma menu_fields_ok: "body_ok b \<Longrightarrow> fields_ok (menu_fields b)"
proof -
  assume b: "body_ok b"
  have "list_all key_ok [''insmod'', ''search'', ''chainloader'']"
    by (simp add: key_ok_def no_lead_solid)
  with b show ?thesis
    by (auto simp: body_ok_def menu_fields_def fields_ok_def list_all_iff)
qed

lemma body_line_field: "key_ok k \<Longrightarrow> clean v \<Longrightarrow> body_line (k @ SPC # v) = [(k, v)]"
  using field_line [of k v] by (simp add: body_line_def)

lemma body_fields_text: "fields_ok kvs \<Longrightarrow> body_fields (fields_text kvs) = kvs"
proof (induction kvs)
  case (Cons kv kvs)
  then show ?case
    by (cases kv) (simp add: body_fields_def str_lines_field body_line_field)
qed (simp add: body_fields_def)

lemma body_fields_newline: "body_fields (NL # s) = body_fields s"
proof -
  have "str_lines (NL # s) = [] # str_lines s"
    using str_lines_Cons [of "[]" s] by (simp add: strip_cr_id)
  moreover have "body_line [] = []"
    by (simp add: body_line_def)
  ultimately show ?thesis by (simp add: body_fields_def)
qed

lemma fold_insmod:
  "fold body_set (map (Pair ''insmod'') xs) b = b\<lparr>insmod := insmod b @ xs\<rparr>"
  by (induction xs arbitrary: b) (simp_all add: body_set_def)

lemma fold_body_extra:
  "list_all (\<lambda>(k, v). k \<notin> set menu_keys) kvs \<Longrightarrow>
   fold body_set kvs b = b\<lparr>body_extra := body_extra b @ kvs\<rparr>"
  by (induction kvs arbitrary: b) (auto simp: body_set_def menu_keys_def)

lemma menuentry_body_from_fields: "body_ok b \<Longrightarrow> menuentry_body_from (menu_fields b) = b"
proof -
  assume b: "body_ok b"
  then have "list_all (\<lambda>(k, v). k \<notin> set menu_keys) (body_extra b)"
    by (auto simp: body_ok_def list_all_iff)
  with b show ?thesis
    by (simp add: menuentry_body_from_def menu_fields_def fold_insmod fold_body_extra body_set_def
        body_empty_def body_ok_def)
qed

lemma balanced_loop_append:
  assumes "balanced_loop op cl n a = Inr (a, [])" and "cl \<noteq> backslash" and "cl \<noteq> op"
  shows "balanced_loop op cl n (a @ cl # r) = Inr (a, cl # r)"
  using assms
proof (induction op cl n a rule: balanced_loop.induct)
  case (2 op cl n x xs)
  then show ?case
    by (cases xs) (auto simp: rbind_Inr_iff split: if_splits)
qed (auto split: if_splits)

lemma matcher_body:
  assumes "brackets_ok s"
  shows "take_until_balanced_allow_nested (CHR ''{'') (CHR ''}'') (NL # s @ CHR ''}'' # r)
    = Inr (CHR ''}'' # r, NL # s)"
  using assms balanced_loop_append [of "CHR ''{''" "CHR ''}''" 0 s r]
  by (simp add: take_until_balanced_allow_nested_def brackets_ok_def backslash_def)

definition nom_space :: "char \<Rightarrow> bool" where
  "nom_space c = (c \<in> {CHR 0x20, CHR 0x09, CHR 0x0D, CHR 0x0A})"

locale nom_laws =
  fixes N :: nom
  assumes tag: "nom_tag N t (t @ r) = Inr (r, t)"
    and multispace0: "list_all nom_space w \<Longrightarrow> r = [] \<or> \<not> nom_space (hd r) \<Longrightarrow>
      nom_multispace0 N (w @ r) = Inr (r, w)"
    and multispace1: "w \<noteq> [] \<Longrightarrow> list_all nom_space w \<Longrightarrow> r = [] \<or> \<not> nom_space (hd r) \<Longrightarrow>
      nom_multispace1 N (w @ r) = Inr (r, w)"
    and escaped: "t \<noteq> [] \<Longrightarrow> CHR 0x22 \<notin> set t \<Longrightarrow> backslash \<notin> set t \<Longrightarrow>
      nom_escaped N (t @ CHR 0x22 # r) = Inr (CHR 0x22 # r, t)"
    and take_until_found: "\<not> sublist t (p @ butlast t) \<Longrightarrow> nom_take_until N t (p @ t @ r) = Inr (t @ r, p)"
    and take_until_missing: "\<not> sublist t s \<Longrightarrow> \<exists>e. nom_take_until N t s = Inl (Err e)"
begin

lemma parse_title:
  assumes "t \<noteq> []" "CHR 0x22 \<notin> set t" "backslash \<notin> set t"
  shows "delimited (nom_tag N [CHR 0x22]) (nom_escaped N) (nom_tag N [CHR 0x22])
    (CHR 0x22 # t @ CHR 0x22 # r) = Inr (r, t)"
  using tag [of "[CHR 0x22]" "t @ CHR 0x22 # r"] escaped [OF assms, of r] tag [of "[CHR 0x22]" r]
  by (simp add: delimited_def)

lemma parse_braces:
  assumes "brackets_ok s"
  shows "delimited (nom_tag N ''{'') (take_until_balanced_allow_nested (CHR ''{'') (CHR ''}''))
    (nom_tag N ''}'') (CHR ''{'' # NL # s @ CHR ''}'' # r) = Inr (r, NL # s)"
  using tag [of "''{''" "NL # s @ CHR ''}'' # r"] tag [of "''}''" r] matcher_body [OF assms, of r]
  by (simp add: delimited_def)

lemma parse_header:
  assumes "t \<noteq> []" "CHR 0x22 \<notin> set t" "backslash \<notin> set t" and "\<not> nom_space c"
  shows "parse_menuentry N (''menuentry '' @ CHR 0x22 # t @ CHR 0x22 # SPC # c # r) =
    rbind (delimited (nom_tag N ''{'')
      (take_until_balanced_allow_nested (CHR ''{'') (CHR ''}'')) (nom_tag N ''}'') (c # r))
    (\<lambda>(i5, body). Inr (i5, \<lparr>entry_title = t, entry_body = menuentry_body_from (body_fields body)\<rparr>))"
proof -
  have "nom_tag N ''menuentry'' (''menuentry '' @ s) = Inr (SPC # s, ''menuentry'')" for s
    using tag [of "''menuentry''" "SPC # s"] by simp
  moreover have "nom_multispace1 N (SPC # CHR 0x22 # s) = Inr (CHR 0x22 # s, [SPC])" for s
    using multispace1 [of "[SPC]" "CHR 0x22 # s"] by (simp add: nom_space_def)
  moreover have "nom_multispace0 N (SPC # c # r) = Inr (c # r, [SPC])"
    using multispace0 [of "[SPC]" "c # r"] assms(4) by (simp add: nom_space_def)
  ultimately show ?thesis
    using parse_title [OF assms(1-3)] by (simp only: parse_menuentry_def rbind_simps prod.case)
qed

lemma parse_printed_entry:
  assumes "entry_ok e"
  shows "parse_menuentry N (menu_entry_fmt e @ r) = Inr (NL # r, e)"
proof -
  let ?b = "entry_body e"
  have b: "body_ok ?b" using assms by (simp add: entry_ok_def)
  have "menu_entry_fmt e @ r = ''menuentry '' @ CHR 0x22 # entry_title e @ CHR 0x22 # SPC # CHR ''{'' #
      (NL # menuentry_body_fmt ?b @ CHR ''}'' # NL # r)"
    by (simp add: menu_entry_fmt_def)
  moreover have "body_fields (NL # menuentry_body_fmt ?b) = menu_fields ?b"
    using menu_fields_ok [OF b] by (simp add: body_fields_newline menuentry_body_fmt_fields body_fields_text)
  ultimately show ?thesis
    using assms parse_header [of "entry_title e" "CHR ''{''"] parse_braces [of "menuentry_body_fmt ?b" "NL # r"]
      menuentry_body_from_fields [OF b] b
    by (simp add: entry_ok_def body_ok_def nom_space_def)
qed

lemma trim_menuentry: "trim (''menuentry'' @ s) \<noteq> []"
  using trim_start_solid [of "CHR ''m''" "''enuentry'' @ s"] by simp

lemma skip_at_menuentry: "skip_to_menuentry N (''menuentry'' @ s) = Inr (''menuentry'' @ s)"
  using take_until_found [of "''menuentry''" "[]" s]
  by (simp add: skip_to_menuentry_def not_sublist_shorter)

lemma skip_after_preamble:
  assumes "CHR ''m'' \<notin> set p"
  shows "skip_to_menuentry N (p @ ''menuentry'' @ s) = Inr (''menuentry'' @ s)"
  using take_until_found [of "''menuentry''" p s] not_sublist_fresh [OF assms, of "''enuentry''"]
  by (simp add: skip_to_menuentry_def)

lemma skip_missing:
  assumes "CHR ''m'' \<notin> set p"
  shows "\<exists>e. skip_to_menuentry N p = Inl (Err e)"
proof -
  have "\<not> sublist ''menuentry'' p" using assms by (auto dest!: set_mono_sublist)
  then obtain e where "nom_take_until N ''menuentry'' p = Inl (Err e)"
    using take_until_missing by blast
  then show ?thesis by (simp add: skip_to_menuentry_def)
qed

lemma parse_printed_entries:
  assumes "list_all entry_ok es"
  shows "parse_entries N acc (concat (map menu_entry_fmt es)) = Some (Inr ([], acc @ es))"
  using assms
proof (induction es arbitrary: acc)
  case Nil
  then show ?case by (simp add: parse_entries.simps)
next
  case (Cons e es)
  define rest where "rest = concat (map menu_entry_fmt es)"
  have start: "\<exists>s. menu_entry_fmt d = ''menuentry'' @ s" for d by (simp add: menu_entry_fmt_def)
  obtain s where s: "menu_entry_fmt e @ rest = ''menuentry'' @ s"
    using start [of e] by fastforce
  have nonblank: "trim (menu_entry_fmt e @ rest) \<noteq> []"
    using trim_menuentry [of s] by (simp only: s not_False_eq_True)
  have rest_cases: "rest = [] \<or> (\<exists>s. rest = ''menuentry'' @ s)"
    using start [of "hd es"] unfolding rest_def by (cases es) auto
  then have ms: "nom_multispace0 N (NL # rest) = Inr (rest, [NL])"
    using multispace0 [of "[NL]" rest] by (auto simp: nom_space_def)
  have p: "parse_menuentry N (menu_entry_fmt e @ rest) = Inr (NL # rest, e)"
    using parse_printed_entry Cons.prems by simp
  have "parse_entries N acc (menu_entry_fmt e @ rest) = parse_entries N (acc @ [e]) rest"
  proof (cases "rest = []")
    case True
    then obtain err where "skip_to_menuentry N rest = Inl (Err err)" using skip_missing [of "[]"] by auto
    with p ms nonblank True show ?thesis
      by (subst parse_entries.simps) simp
  next
    case False
    then obtain u where "rest = ''menuentry'' @ u" using rest_cases by blast
    then have "skip_to_menuentry N rest = Inr rest" using skip_at_menuentry by simp
    with p ms nonblank show ?thesis
      by (subst parse_entries.simps) simp
  qed
  with Cons show ?case by (simp add: rest_def)
qed

lemma parse_printed_file:
  assumes "list_all entry_ok es" and "CHR ''m'' \<notin> set p"
  shows "parse_grub_menuentry_file N (p @ concat (map menu_entry_fmt es)) = Some (Inr es)"
proof -
  have "parse_all N (p @ concat (map menu_entry_fmt es)) = Some (Inr ([], es))"
  proof (cases es)
    case Nil
    then show ?thesis using skip_missing [OF assms(2)] by (auto simp: parse_all_def)
  next
    case (Cons e es')
    then obtain s where "concat (map menu_entry_fmt es) = ''menuentry'' @ s"
      by (simp add: menu_entry_fmt_def)
    then show ?thesis
      using skip_after_preamble [OF assms(2), of s] parse_printed_entries [OF assms(1), of "[]"]
      by (simp add: parse_all_def)
  qed
  moreover have "check_titles es = Inr es"
    using assms(1) by (auto simp: check_titles_def list_ex_iff list_all_iff entry_ok_def)
  ultimately show ?thesis by (simp add: parse_grub_menuentry_file_def)
qed

lemma trailing_backslash:
  assumes "t \<noteq> []" "CHR 0x22 \<notin> set t" "backslash \<notin> set t"
    and "set s \<inter> {CHR ''{'', CHR ''}'', backslash} = {}"
  shows "parse_grub_menuentry_file N (''menuentry '' @ CHR 0x22 # t @ CHR 0x22 # '' {'' @ s @ [backslash])
    = Some (Inl (Panic ''byte index out of bounds''))"
proof -
  let ?rest = "CHR 0x22 # t @ CHR 0x22 # '' {'' @ s @ [backslash]"
  define i where "i = ''menuentry '' @ ?rest"
  have "balanced_loop (CHR ''{'') (CHR ''}'') 0 (s @ [backslash]) = Inl (Panic ''byte index out of bounds'')"
    using assms(4) by (induction s) (auto simp: backslash_def)
  then have "delimited (nom_tag N ''{'') (take_until_balanced_allow_nested (CHR ''{'') (CHR ''}''))
    (nom_tag N ''}'') (CHR ''{'' # s @ [backslash]) = Inl (Panic ''byte index out of bounds'')"
    using tag [of "''{''" "s @ [backslash]"]
    by (simp add: delimited_def take_until_balanced_allow_nested_def)
  then have "parse_menuentry N i = Inl (Panic ''byte index out of bounds'')"
    using parse_header [OF assms(1-3), of "CHR ''{''" "s @ [backslash]"] by (simp add: i_def nom_space_def)
  moreover have "skip_to_menuentry N i = Inr i" "trim i \<noteq> []"
    using skip_at_menuentry [of "SPC # ?rest"] trim_menuentry [of "SPC # ?rest"] by (simp_all add: i_def)
  ultimately have "parse_all N i = Some (Inl (Panic ''byte index out of bounds''))"
    by (simp add: parse_all_def parse_entries.simps)
  then show ?thesis by (simp add: parse_grub_menuentry_file_def i_def)
qed

end

text \<open>Functions with the behaviour of the \<^verbatim>\<open>nom\<close> parsers on unescaped input.\<close>

fun until_ref :: "string \<Rightarrow> nparser" where
  "until_ref t [] = (if t = [] then Inr ([], []) else Inl (Err ''TakeUntil''))"
| "until_ref t (x # xs) =
     (if starts_with t (x # xs) then Inr (x # xs, [])
      else rbind (until_ref t xs) (\<lambda>(r, p). Inr (r, x # p)))"

definition nom_ref :: nom where
  "nom_ref =
     \<lparr>nom_tag = (\<lambda>t s. case strip_prefix t s of Some r \<Rightarrow> Inr (r, t) | None \<Rightarrow> Inl (Err ''Tag'')),
      nom_multispace0 = (\<lambda>s. Inr (dropWhile nom_space s, takeWhile nom_space s)),
      nom_multispace1 = (\<lambda>s. if takeWhile nom_space s = [] then Inl (Err ''MultiSpace'')
                             else Inr (dropWhile nom_space s, takeWhile nom_space s)),
      nom_escaped = (\<lambda>s. let plain = (\<lambda>c. c \<noteq> CHR 0x22 \<and> c \<noteq> backslash)
                         in Inr (dropWhile plain s, takeWhile plain s)),
      nom_take_until = until_ref\<rparr>"

lemma span_append:
  assumes "list_all P w" and "r = [] \<or> \<not> P (hd r)"
  shows "dropWhile P (w @ r) = r \<and> takeWhile P (w @ r) = w"
  using assms by (cases r) (induction w, auto)+

lemma until_ref_found:
  "\<not> sublist t (p @ butlast t) \<Longrightarrow> until_ref t (p @ t @ r) = Inr (t @ r, p)"
proof (induction p)
  case Nil
  show ?case
  proof (cases "t @ r")
    case (Cons x xs)
    moreover have "starts_with t (t @ r)" by (simp add: starts_with_iff)
    ultimately show ?thesis by simp
  qed simp
next
  case (Cons x p)
  have "\<not> prefix t (x # p @ t @ r)"
  proof
    assume "prefix t (x # p @ t @ r)"
    then have "t = take (length t) ((x # p @ butlast t) @ last t # r)"
      using Cons.prems by (auto simp: prefix_def) (metis append_eq_conv_conj append_butlast_last_id append.assoc append_Cons append_Nil)
    also have "\<dots> = take (length t) (x # p @ butlast t)"
      by (subst take_append) simp
    finally have "prefix t (x # p @ butlast t)" using take_is_prefix by metis
    then show False using Cons.prems by (auto dest: prefix_imp_sublist)
  qed
  moreover have "\<not> sublist t (p @ butlast t)"
    using Cons.prems by (auto simp: sublist_Cons_right)
  ultimately show ?case using Cons.IH by (simp add: starts_with_iff)
qed

lemma until_ref_missing: "\<not> sublist t s \<Longrightarrow> until_ref t s = Inl (Err ''TakeUntil'')"
  by (induction s) (auto simp: starts_with_iff sublist_Cons_right)

interpretation nom_ref: nom_laws nom_ref
proof
  fix t r w p s :: string
  show "nom_tag nom_ref t (t @ r) = Inr (r, t)" by (simp add: nom_ref_def)
  show "nom_multispace0 nom_ref (w @ r) = Inr (r, w)"
    if "list_all nom_space w" "r = [] \<or> \<not> nom_space (hd r)"
    using span_append [OF that] by (simp add: nom_ref_def)
  show "nom_multispace1 nom_ref (w @ r) = Inr (r, w)"
    if "w \<noteq> []" "list_all nom_space w" "r = [] \<or> \<not> nom_space (hd r)"
    using span_append [OF that(2,3)] that(1) by (simp add: nom_ref_def)
  show "nom_escaped nom_ref (t @ CHR 0x22 # r) = Inr (CHR 0x22 # r, t)"
    if "t \<noteq> []" "CHR 0x22 \<notin> set t" "backslash \<notin> set t"
  proof -
    have "list_all (\<lambda>c. c \<noteq> CHR 0x22 \<and> c \<noteq> backslash) t" using that by (auto simp: list_all_iff)
    from span_append [OF this, of "CHR 0x22 # r"] show ?thesis by (simp add: nom_ref_def Let_def)
  qed
  show "nom_take_until nom_ref t (p @ t @ r) = Inr (t @ r, p)" if "\<not> sublist t (p @ butlast t)"
    using until_ref_found [OF that] by (simp add: nom_ref_def)
  show "\<exists>e. nom_take_until nom_ref t s = Inl (Err e)" if "\<not> sublist t s"
    using until_ref_missing [OF that] by (simp add: nom_ref_def)
qed

text \<open>
  C23. A \<^verbatim>\<open>user.cfg\<close> that consists of the preamble and printed menu entries parses back to these
  entries, in order, and the parser terminates on it.
\<close>

theorem grub_menu_roundtrip:
  assumes "nom_laws N" and "list_all entry_ok es"
  shows "parse_grub_menuentry_file N (get_efi_uuid_source @ concat (map menu_entry_fmt es)) = Some (Inr es)"
  by (rule nom_laws.parse_printed_file [OF assms])
    (simp add: get_efi_uuid_source_def EFI_UUID_FILE_def)

theorem grub_menu_roundtrip_witness:
  "let es = [menu_entry_new ''.efi'' ''Fedora 42'' ''ab'', menu_entry_new ''.efi'' ''Fedora 41'' ''cd'']
   in parse_grub_menuentry_file nom_ref (get_efi_uuid_source @ concat (map menu_entry_fmt es))
      = Some (Inr es)"
proof -
  let ?es = "[menu_entry_new ''.efi'' ''Fedora 42'' ''ab'', menu_entry_new ''.efi'' ''Fedora 41'' ''cd'']"
  have "list_all entry_ok ?es"
    by (simp add: entry_ok_def body_ok_def menu_entry_new_def clean_def no_lead_solid no_trail_solid
        brackets_ok_def menuentry_body_fmt_def writeln_def get_uki_name_def BOOTC_UKI_DIR_def
        UKI_NAME_PREFIX_def TYPE1_BOOT_DIR_PREFIX_def path_sep_def backslash_def)
  from grub_menu_roundtrip [OF nom_ref.nom_laws_axioms this] show ?thesis by (simp only: Let_def)
qed

text \<open>
  The bracket matcher panics when the input ends in a backslash inside the braces of an
  entry: the index it computes lies past the end of the input.
\<close>

theorem grub_menu_trailing_backslash_panics:
  assumes "nom_laws N" and "t \<noteq> []" and "CHR 0x22 \<notin> set t" and "backslash \<notin> set t"
    and "set s \<inter> {CHR ''{'', CHR ''}'', backslash} = {}"
  shows "parse_grub_menuentry_file N (''menuentry '' @ CHR 0x22 # t @ CHR 0x22 # '' {'' @ s @ [backslash])
    = Some (Inl (Panic ''byte index out of bounds''))"
  by (rule nom_laws.trailing_backslash [OF assms])

theorem grub_menu_trailing_backslash_panics_witness:
  "parse_grub_menuentry_file nom_ref (''menuentry '' @ CHR 0x22 # ''t'' @ CHR 0x22 # '' {'' @ ''insmod'' @ [backslash])
    = Some (Inl (Panic ''byte index out of bounds''))"
  by (rule grub_menu_trailing_backslash_panics [OF nom_ref.nom_laws_axioms])
    (simp_all add: backslash_def)

end
