(* ===== verification/Image_Ref.thy ===== *)
theory Image_Ref
  imports Rust_Collections
begin

text \<open>
  Image references with signature verification and the difference of two manifests
  (\<^verbatim>\<open>crates/ostree-ext/src/container/mod.rs\<close>), and the conversion to the references of the host
  specification (\<^verbatim>\<open>crates/lib/src/status.rs\<close>).

  Transports and plain image references belong to the crate \<^verbatim>\<open>containers-image-proxy\<close>: their
  parsers and printers are a record of parameters, and the locale \<^verbatim>\<open>image_proxy\<close> states the
  documented behaviour that is relied on.
\<close>

section \<open>Plain image references\<close>

record 't image_ref =
  ref_transport :: 't
  ref_name :: string

record 't proxy =
  px_registry :: 't
  px_parse :: "string \<Rightarrow> 't image_ref res"
  px_fmt :: "'t image_ref \<Rightarrow> string"
  px_transport_of :: "string \<Rightarrow> 't res"
  px_transport_fmt :: "'t \<Rightarrow> string"

section \<open>References with a signature source\<close>

datatype signature_source =
    OstreeRemote string
  | ContainerPolicy
  | ContainerPolicyAllowInsecure

record 't ostree_image_ref =
  sigverify :: signature_source
  imgref :: "'t image_ref"

abbreviation colon :: char where "colon \<equiv> CHR '':''"

definition signature_source_try_from :: "string \<Rightarrow> signature_source res" where
  "signature_source_try_from v =
     (if v = ''ostree-image-signed'' then Inr ContainerPolicy
      else if v = ''ostree-unverified-image'' then Inr ContainerPolicyAllowInsecure
      else case strip_prefix ''ostree-remote-image:'' v of
             Some rest \<Rightarrow> Inr (OstreeRemote rest)
           | None \<Rightarrow> Inl ''Invalid signature source'')"

fun signature_source_fmt :: "signature_source \<Rightarrow> string" where
  "signature_source_fmt (OstreeRemote r) = ''ostree-remote-image:'' @ r"
| "signature_source_fmt ContainerPolicy = ''ostree-image-signed''"
| "signature_source_fmt ContainerPolicyAllowInsecure = ''ostree-unverified-image''"

definition split_remote :: "string \<Rightarrow> (string \<times> string) res" where
  "split_remote second = ok_or ''Missing second ':' '' (split_once colon second)"

definition ostree_image_ref_try_from :: "'t proxy \<Rightarrow> string \<Rightarrow> 't ostree_image_ref res" where
  "ostree_image_ref_try_from P value =
     rbind (ok_or ''Missing ':' '' (split_once colon value)) (\<lambda>(first, second).
     rbind (if first = ''ostree-image-signed'' then Inr (ContainerPolicy, second)
            else if first = ''ostree-unverified-image'' then Inr (ContainerPolicyAllowInsecure, second)
            else if first = ''ostree-unverified-registry'' then
              Inr (ContainerPolicyAllowInsecure, ''registry:'' @ second)
            else if first = ''ostree-remote-registry'' then
              rbind (split_remote second) (\<lambda>(remote, rest).
                Inr (OstreeRemote remote, ''registry:'' @ rest))
            else if first = ''ostree-remote-image'' then
              rbind (split_remote second) (\<lambda>(remote, rest). Inr (OstreeRemote remote, rest))
            else Inl ''Invalid ostree image reference scheme'') (\<lambda>(sv, rest).
     rbind (px_parse P rest) (\<lambda>r. Inr \<lparr>sigverify = sv, imgref = r\<rparr>)))"

text \<open>\<^term>\<open>alternate\<close> is the \<^verbatim>\<open>#\<close> flag of the format string.\<close>

definition ostree_image_ref_fmt :: "'t proxy \<Rightarrow> bool \<Rightarrow> 't ostree_image_ref \<Rightarrow> string" where
  "ostree_image_ref_fmt P alternate r =
     (if sigverify r = ContainerPolicyAllowInsecure \<and> ref_transport (imgref r) = px_registry P then
        (if alternate then px_fmt P (imgref r)
         else ''ostree-unverified-registry:'' @ ref_name (imgref r))
      else signature_source_fmt (sigverify r) @ colon # px_fmt P (imgref r))"

section \<open>References of the host specification\<close>

datatype image_signature = SigOstreeRemote string | SigContainerPolicy | SigInsecure

record spec_image_ref =
  spec_image :: string
  spec_transport :: string
  spec_signature :: "image_signature option"

fun signature_of_source :: "signature_source \<Rightarrow> image_signature" where
  "signature_of_source (OstreeRemote r) = SigOstreeRemote r"
| "signature_of_source ContainerPolicy = SigContainerPolicy"
| "signature_of_source ContainerPolicyAllowInsecure = SigInsecure"

fun source_of_signature :: "image_signature \<Rightarrow> signature_source" where
  "source_of_signature (SigOstreeRemote r) = OstreeRemote r"
| "source_of_signature SigContainerPolicy = ContainerPolicy"
| "source_of_signature SigInsecure = ContainerPolicyAllowInsecure"

definition transport_to_string :: "'t proxy \<Rightarrow> 't \<Rightarrow> string outcome" where
  "transport_to_string P t =
     (if t = px_registry P then Inr ''registry''
      else case rsplit_once colon (px_transport_fmt P t) of
             Some (s, _) \<Rightarrow> Inr s
           | None \<Rightarrow> Inl (Panic ''called Option::unwrap() on a None value''))"

definition spec_of_ostree_ref :: "'t proxy \<Rightarrow> 't ostree_image_ref \<Rightarrow> spec_image_ref outcome" where
  "spec_of_ostree_ref P r =
     rbind (transport_to_string P (ref_transport (imgref r))) (\<lambda>transport.
     Inr \<lparr>spec_image = ref_name (imgref r), spec_transport = transport,
          spec_signature = (case sigverify r of
              ContainerPolicyAllowInsecure \<Rightarrow> None
            | v \<Rightarrow> Some (signature_of_source v))\<rparr>)"

definition ostree_of_spec_ref :: "'t proxy \<Rightarrow> spec_image_ref \<Rightarrow> 't ostree_image_ref outcome" where
  "ostree_of_spec_ref P img =
     (case px_transport_of P (spec_transport img) of
        Inl e \<Rightarrow> Inl (Panic ''called Result::unwrap() on an Err value'')
      | Inr t \<Rightarrow>
          Inr \<lparr>sigverify = (case spec_signature img of
                  Some v \<Rightarrow> source_of_signature v
                | None \<Rightarrow> ContainerPolicyAllowInsecure),
               imgref = \<lparr>ref_transport = t, ref_name = spec_image img\<rparr>\<rparr>)"

section \<open>Difference of two manifests\<close>

text \<open>
  A layer descriptor with its digest and size. The two maps from digests to descriptors are
  iterated in an unspecified order, which is an argument; a later layer with the same digest
  replaces an earlier one.
\<close>

record descriptor =
  desc_digest :: string
  desc_size :: nat

record manifest_diff =
  md_removed :: "descriptor list"
  md_added :: "descriptor list"
  md_total :: nat
  md_total_size :: nat
  md_n_removed :: nat
  md_removed_size :: nat
  md_n_added :: nat
  md_added_size :: nat

definition layer_map :: "descriptor list \<Rightarrow> (string \<rightharpoonup> descriptor)" where
  "layer_map layers = map_of (rev (map (\<lambda>l. (desc_digest l, l)) layers))"

definition layersum :: "descriptor list \<Rightarrow> nat" where
  "layersum layers = sum_list (map desc_size layers)"

definition missing_layers ::
    "(string \<times> descriptor) list \<Rightarrow> (string \<rightharpoonup> descriptor) \<Rightarrow> descriptor list" where
  "missing_layers iter other =
     sort_by (\<lambda>a b. ord_cmp (desc_digest a) (desc_digest b))
       (map snd (filter (\<lambda>(blobid, _). other blobid = None) iter))"

definition manifest_diff_new ::
    "(string \<times> descriptor) list \<Rightarrow> (string \<times> descriptor) list \<Rightarrow> descriptor list \<Rightarrow> descriptor list
     \<Rightarrow> manifest_diff" where
  "manifest_diff_new src_iter dest_iter src dest =
     (let removed = missing_layers src_iter (layer_map dest);
          added = missing_layers dest_iter (layer_map src)
      in \<lparr>md_removed = removed, md_added = added,
          md_total = length dest_iter, md_total_size = layersum dest,
          md_n_removed = length removed, md_removed_size = layersum removed,
          md_n_added = length added, md_added_size = layersum added\<rparr>)"

text \<open>\<^term>\<open>iter\<close> is an iteration of the map of the given layers.\<close>

definition iterates :: "descriptor list \<Rightarrow> (string \<times> descriptor) list \<Rightarrow> bool" where
  "iterates layers iter \<longleftrightarrow> distinct (map fst iter) \<and> map_of iter = layer_map layers"

section \<open>Round trips\<close>

interpretation signature_source: codec "\<lambda>_. True" signature_source_fmt signature_source_try_from
proof
  show "signature_source_try_from (signature_source_fmt s) = Inr s" for s
    by (cases s) (auto simp: signature_source_try_from_def)
qed

locale image_proxy =
  fixes P :: "'t proxy" and valid_ref :: "'t image_ref \<Rightarrow> bool"
  assumes parse_fmt: "valid_ref r \<Longrightarrow> px_parse P (px_fmt P r) = Inr r"
    and parse_registry: "valid_ref r \<Longrightarrow> ref_transport r = px_registry P \<Longrightarrow>
      px_parse P (''registry:'' @ ref_name r) = Inr r"
    and transport_registry: "px_transport_of P ''registry'' = Inr (px_registry P)"
    and transport_scheme: "t \<noteq> px_registry P \<Longrightarrow>
      \<exists>s rest. px_transport_fmt P t = s @ colon # rest \<and> colon \<notin> set rest \<and> px_transport_of P s = Inr t"
begin

lemma try_from_unverified_registry:
  assumes "valid_ref r" and "ref_transport r = px_registry P"
  shows "ostree_image_ref_try_from P (''ostree-unverified-registry:'' @ ref_name r)
    = Inr \<lparr>sigverify = ContainerPolicyAllowInsecure, imgref = r\<rparr>"
proof -
  have "split_once colon (''ostree-unverified-registry'' @ colon # ref_name r)
      = Some (''ostree-unverified-registry'', ref_name r)"
    by (rule split_once_append) simp
  then show ?thesis
    using parse_registry [OF assms] by (simp add: ostree_image_ref_try_from_def)
qed

lemma try_from_scheme:
  assumes "valid_ref r" and "\<forall>remote. s = OstreeRemote remote \<longrightarrow> colon \<notin> set remote"
  shows "ostree_image_ref_try_from P (signature_source_fmt s @ colon # px_fmt P r)
    = Inr \<lparr>sigverify = s, imgref = r\<rparr>"
proof (cases s)
  case (OstreeRemote remote)
  then have "split_once colon (signature_source_fmt s @ colon # px_fmt P r)
      = Some (''ostree-remote-image'', remote @ colon # px_fmt P r)"
    using split_once_append [of colon "''ostree-remote-image''" "remote @ colon # px_fmt P r"] by simp
  moreover have "split_once colon (remote @ colon # px_fmt P r) = Some (remote, px_fmt P r)"
    using OstreeRemote assms(2) by simp
  ultimately show ?thesis
    using parse_fmt [OF assms(1)] OstreeRemote by (simp add: ostree_image_ref_try_from_def split_remote_def)
next
  case ContainerPolicy
  have "split_once colon (''ostree-image-signed'' @ colon # px_fmt P r)
      = Some (''ostree-image-signed'', px_fmt P r)"
    by (rule split_once_append) simp
  then show ?thesis
    using parse_fmt [OF assms(1)] ContainerPolicy by (simp add: ostree_image_ref_try_from_def)
next
  case ContainerPolicyAllowInsecure
  have "split_once colon (''ostree-unverified-image'' @ colon # px_fmt P r)
      = Some (''ostree-unverified-image'', px_fmt P r)"
    by (rule split_once_append) simp
  then show ?thesis
    using parse_fmt [OF assms(1)] ContainerPolicyAllowInsecure by (simp add: ostree_image_ref_try_from_def)
qed

lemma ostree_ref_roundtrip:
  assumes "valid_ref (imgref r)" and "\<forall>remote. sigverify r = OstreeRemote remote \<longrightarrow> colon \<notin> set remote"
  shows "ostree_image_ref_try_from P (ostree_image_ref_fmt P False r) = Inr r"
proof (cases "sigverify r = ContainerPolicyAllowInsecure \<and> ref_transport (imgref r) = px_registry P")
  case True
  then show ?thesis
    using try_from_unverified_registry [of "imgref r"] assms(1) by (cases r) (simp add: ostree_image_ref_fmt_def)
next
  case False
  then have "ostree_image_ref_fmt P False r = signature_source_fmt (sigverify r) @ colon # px_fmt P (imgref r)"
    by (auto simp: ostree_image_ref_fmt_def)
  then show ?thesis using try_from_scheme [OF assms] by (cases r) simp
qed

lemma transport_roundtrip: "\<exists>s. transport_to_string P t = Inr s \<and> px_transport_of P s = Inr t"
proof (cases "t = px_registry P")
  case True
  then show ?thesis using transport_registry by (simp add: transport_to_string_def)
next
  case False
  then obtain s rest where s: "px_transport_fmt P t = s @ colon # rest" "colon \<notin> set rest"
      "px_transport_of P s = Inr t"
    using transport_scheme by blast
  then have "rsplit_once colon (px_transport_fmt P t) = Some (s, rest)"
    by (simp add: rsplit_once_Some_iff)
  with False s show ?thesis by (simp add: transport_to_string_def)
qed

lemma spec_roundtrip: "\<exists>img. spec_of_ostree_ref P r = Inr img \<and> ostree_of_spec_ref P img = Inr r"
proof -
  obtain s where s: "transport_to_string P (ref_transport (imgref r)) = Inr s"
      "px_transport_of P s = Inr (ref_transport (imgref r))"
    using transport_roundtrip by blast
  have "source_of_signature (signature_of_source v) = v" for v by (cases v) auto
  with s show ?thesis
    by (cases "sigverify r") (auto simp: spec_of_ostree_ref_def ostree_of_spec_ref_def)
qed

end

text \<open>A registry transport and one other transport with the printed forms they have.\<close>

datatype transport_ref = Registry | OciDir

definition proxy_ref :: "transport_ref proxy" where
  "proxy_ref =
     \<lparr>px_registry = Registry,
      px_parse = (\<lambda>s. case strip_prefix ''docker://'' s of
          Some n \<Rightarrow> Inr \<lparr>ref_transport = Registry, ref_name = n\<rparr>
        | None \<Rightarrow> (case strip_prefix ''registry:'' s of
            Some n \<Rightarrow> Inr \<lparr>ref_transport = Registry, ref_name = n\<rparr>
          | None \<Rightarrow> (case strip_prefix ''oci:'' s of
              Some n \<Rightarrow> Inr \<lparr>ref_transport = OciDir, ref_name = n\<rparr>
            | None \<Rightarrow> Inl ''Unknown transport''))),
      px_fmt = (\<lambda>r. (case ref_transport r of Registry \<Rightarrow> ''docker://'' | OciDir \<Rightarrow> ''oci:'') @ ref_name r),
      px_transport_of = (\<lambda>s. if s = ''registry'' then Inr Registry
        else if s = ''oci'' then Inr OciDir else Inl ''Unknown transport''),
      px_transport_fmt = (\<lambda>t. case t of Registry \<Rightarrow> ''docker://'' | OciDir \<Rightarrow> ''oci:'')\<rparr>"

interpretation proxy_ref: image_proxy proxy_ref "\<lambda>_. True"
proof
  fix r :: "transport_ref image_ref" and t :: transport_ref
  show "px_parse proxy_ref (px_fmt proxy_ref r) = Inr r"
    by (cases "ref_transport r") (simp_all add: proxy_ref_def)
  show "px_parse proxy_ref (''registry:'' @ ref_name r) = Inr r"
    if "ref_transport r = px_registry proxy_ref"
    using that by (cases r) (simp add: proxy_ref_def)
  show "px_transport_of proxy_ref ''registry'' = Inr (px_registry proxy_ref)"
    by (simp add: proxy_ref_def)
  show "\<exists>s rest. px_transport_fmt proxy_ref t = s @ colon # rest \<and> colon \<notin> set rest
      \<and> px_transport_of proxy_ref s = Inr t" if "t \<noteq> px_registry proxy_ref"
    using that by (cases t) (auto simp: proxy_ref_def intro!: exI [of _ "''oci''"])
qed

text \<open>
  An image reference with its signature source, printed in the normal form, parses back to the
  same reference, provided that the plain reference is valid and the name of the remote has no colon.
\<close>

theorem ostree_image_ref_roundtrip:
  assumes "image_proxy P valid_ref" and "valid_ref (imgref r)"
    and "\<forall>remote. sigverify r = OstreeRemote remote \<longrightarrow> colon \<notin> set remote"
  shows "ostree_image_ref_try_from P (ostree_image_ref_fmt P False r) = Inr r"
  by (rule image_proxy.ostree_ref_roundtrip [OF assms])

theorem ostree_image_ref_roundtrip_witness:
  "let r = \<lparr>sigverify = OstreeRemote ''fedora'',
            imgref = \<lparr>ref_transport = OciDir, ref_name = ''/tmp/x:latest''\<rparr>\<rparr>
   in ostree_image_ref_fmt proxy_ref False r = ''ostree-remote-image:fedora:oci:/tmp/x:latest''
      \<and> ostree_image_ref_try_from proxy_ref (ostree_image_ref_fmt proxy_ref False r) = Inr r"
proof -
  let ?r = "\<lparr>sigverify = OstreeRemote ''fedora'',
            imgref = \<lparr>ref_transport = OciDir, ref_name = ''/tmp/x:latest''\<rparr>\<rparr>"
  have "ostree_image_ref_try_from proxy_ref (ostree_image_ref_fmt proxy_ref False ?r) = Inr ?r"
    by (rule ostree_image_ref_roundtrip [OF proxy_ref.image_proxy_axioms]) simp_all
  then show ?thesis by (simp add: Let_def ostree_image_ref_fmt_def proxy_ref_def)
qed

text \<open>
  Converting an image reference to the host specification and back never panics and gives the
  same reference.
\<close>

theorem spec_image_ref_roundtrip:
  assumes "image_proxy P valid_ref"
  shows "\<exists>img. spec_of_ostree_ref P r = Inr img \<and> ostree_of_spec_ref P img = Inr r"
  by (rule image_proxy.spec_roundtrip [OF assms])

theorem spec_image_ref_roundtrip_witness:
  "\<exists>img. spec_of_ostree_ref proxy_ref \<lparr>sigverify = ContainerPolicyAllowInsecure,
            imgref = \<lparr>ref_transport = OciDir, ref_name = ''/tmp/x''\<rparr>\<rparr> = Inr img
     \<and> ostree_of_spec_ref proxy_ref img = Inr \<lparr>sigverify = ContainerPolicyAllowInsecure,
            imgref = \<lparr>ref_transport = OciDir, ref_name = ''/tmp/x''\<rparr>\<rparr>"
  by (rule spec_image_ref_roundtrip [OF proxy_ref.image_proxy_axioms])

section \<open>The manifest difference\<close>

abbreviation digests :: "descriptor list \<Rightarrow> string set" where
  "digests layers \<equiv> desc_digest ` set layers"

lemma layer_map_digest: "layer_map layers k = Some d \<Longrightarrow> desc_digest d = k"
  by (auto simp: layer_map_def dest!: map_of_SomeD)

lemma dom_layer_map: "dom (layer_map layers) = digests layers"
  by (auto simp: layer_map_def dom_map_of_conv_image_fst image_iff)

lemma iterates_keys:
  assumes "iterates layers iter"
  shows "fst ` set iter = digests layers" and "\<forall>(k, d) \<in> set iter. desc_digest d = k"
proof -
  have m: "map_of iter = layer_map layers" using assms by (simp add: iterates_def)
  have "fst ` set iter = dom (map_of iter)" by (simp add: dom_map_of_conv_image_fst)
  then show "fst ` set iter = digests layers" by (simp add: m dom_layer_map)
  show "\<forall>(k, d) \<in> set iter. desc_digest d = k"
    using assms layer_map_digest [of layers] map_of_is_SomeI [of iter] by (auto simp: iterates_def)
qed

lemma map_digest_iter:
  "\<forall>(k, d) \<in> set iter. desc_digest d = k \<Longrightarrow> map desc_digest (map snd iter) = map fst iter"
  by auto

lemma sorted_distinct_digests:
  assumes "distinct (map desc_digest xs)"
  shows "sorted_wrt (<) (map desc_digest (sort_by (\<lambda>a b. ord_cmp (desc_digest a) (desc_digest b)) xs))"
    (is "sorted_wrt (<) (map desc_digest ?s)")
proof -
  have "sorted_wrt (\<lambda>a b. ord_cmp (desc_digest a) (desc_digest b) \<noteq> Greater) ?s"
    by (rule comparator.sort_by_sorted [OF comparator_key [of UNIV]]) simp
  then have "sorted (map desc_digest ?s)" by (simp add: sorted_wrt_map not_less)
  moreover have "mset (map desc_digest ?s) = mset (map desc_digest xs)"
    by (simp only: mset_map mset_sort_by)
  then have "distinct (map desc_digest ?s)" using assms mset_eq_imp_distinct_iff by blast
  ultimately show ?thesis by (simp only: strict_sorted_iff)
qed

lemma missing_layers_correct:
  assumes "iterates layers iter"
  shows "digests (missing_layers iter (layer_map other)) = digests layers - digests other"
    and "sorted_wrt (<) (map desc_digest (missing_layers iter (layer_map other)))"
proof -
  let ?f = "filter (\<lambda>(blobid, _). layer_map other blobid = None) iter"
  note keys = iterates_keys [OF assms]
  have f: "map desc_digest (map snd ?f) = map fst ?f"
    by (rule map_digest_iter) (use keys(2) in auto)
  have "digests (missing_layers iter (layer_map other)) = set (map desc_digest (map snd ?f))"
    by (simp add: missing_layers_def image_image)
  also have "\<dots> = set (map fst ?f)" by (simp only: f)
  also have "\<dots> = {k \<in> fst ` set iter. layer_map other k = None}" by force
  also have "\<dots> = digests layers - digests other"
    unfolding keys(1) dom_layer_map [symmetric] by (auto simp: domIff)
  finally show "digests (missing_layers iter (layer_map other)) = digests layers - digests other" .
  have "distinct (map fst ?f)" using assms by (simp add: iterates_def distinct_map_filter)
  then show "sorted_wrt (<) (map desc_digest (missing_layers iter (layer_map other)))"
    unfolding missing_layers_def by (intro sorted_distinct_digests) (simp only: f)
qed

text \<open>
  The difference of two manifests lists exactly the layers of one image that the other lacks,
  each once, in ascending order of digest and whatever the iteration order of the hash maps; the
  counts agree with the sets of digests, and the new layers are the added ones and the shared ones.
\<close>

theorem manifest_diff_correct:
  assumes "iterates src src_iter" and "iterates dest dest_iter"
  shows "let d = manifest_diff_new src_iter dest_iter src dest in
      digests (md_added d) = digests dest - digests src
    \<and> digests (md_removed d) = digests src - digests dest
    \<and> sorted_wrt (<) (map desc_digest (md_added d)) \<and> sorted_wrt (<) (map desc_digest (md_removed d))
    \<and> md_n_added d = card (digests dest - digests src)
    \<and> md_n_removed d = card (digests src - digests dest)
    \<and> md_total d = md_n_added d + card (digests dest \<inter> digests src)"
proof -
  let ?a = "missing_layers dest_iter (layer_map src)" and ?r = "missing_layers src_iter (layer_map dest)"
  have card: "length xs = card (digests xs)" if "sorted_wrt (<) (map desc_digest xs)" for xs
    using that distinct_card [of "map desc_digest xs"] by (simp add: strict_sorted_iff)
  note a = missing_layers_correct [OF assms(2), of src]
  note r = missing_layers_correct [OF assms(1), of dest]
  have "length dest_iter = card (fst ` set dest_iter)"
    using assms(2) distinct_card [of "map fst dest_iter"] by (simp add: iterates_def)
  also have "\<dots> = card ((digests dest - digests src) \<union> (digests dest \<inter> digests src))"
    using iterates_keys(1) [OF assms(2)] by (simp add: Un_Diff_Int)
  also have "\<dots> = card (digests dest - digests src) + card (digests dest \<inter> digests src)"
    by (rule card_Un_disjoint) auto
  finally show ?thesis
    using a r card [OF a(2)] card [OF r(2)] by (simp add: manifest_diff_new_def Let_def)
qed

theorem manifest_diff_correct_witness:
  "let a = \<lparr>desc_digest = ''a'', desc_size = 1\<rparr>; b = \<lparr>desc_digest = ''b'', desc_size = 2\<rparr>;
       d = manifest_diff_new [(''a'', a)] [(''b'', b), (''a'', a)] [a] [a, b]
   in digests (md_added d) = {''b''} \<and> md_n_added d = 1 \<and> md_removed d = [] \<and> md_added_size d = 2"
proof -
  let ?a = "\<lparr>desc_digest = ''a'', desc_size = 1\<rparr>" and ?b = "\<lparr>desc_digest = ''b'', desc_size = 2\<rparr>"
  have "iterates [?a] [(''a'', ?a)]" "iterates [?a, ?b] [(''b'', ?b), (''a'', ?a)]"
    by (simp_all add: iterates_def layer_map_def)
  from manifest_diff_correct [OF this] show ?thesis
    by (simp add: Let_def manifest_diff_new_def missing_layers_def layer_map_def sort_by_def layersum_def)
qed

end
