(* ===== verification/Rust_State.thy ===== *)
theory Rust_State
  imports Rust_Collections
begin

text \<open>
  Operations that change a state and can fail: they return an outcome and the state they leave,
  also when they fail, so that the changes made before an error stay visible. A locale carries
  what a sequence of operations keeps of the state.
\<close>

section \<open>Lifting results\<close>

definition lift_res :: "'a res \<Rightarrow> 'a outcome" where
  "lift_res r = (case r of Inl e \<Rightarrow> Inl (Err e) | Inr v \<Rightarrow> Inr v)"

lemma lift_res_Inr_iff: "lift_res r = Inr v \<longleftrightarrow> r = Inr v"
  by (cases r) (auto simp: lift_res_def)

section \<open>Operations with a state\<close>

type_synonym ('s, 'a) oper = "'s \<Rightarrow> 'a outcome \<times> 's"

definition sret :: "'a \<Rightarrow> ('s, 'a) oper" where
  "sret v s = (Inr v, s)"

definition sfail :: "fault \<Rightarrow> ('s, 'a) oper" where
  "sfail e s = (Inl e, s)"

definition slift :: "'a outcome \<Rightarrow> ('s, 'a) oper" where
  "slift r s = (r, s)"

definition sbind :: "('s, 'a) oper \<Rightarrow> ('a \<Rightarrow> ('s, 'b) oper) \<Rightarrow> ('s, 'b) oper" where
  "sbind m f s = (case m s of (Inl e, s') \<Rightarrow> (Inl e, s') | (Inr v, s') \<Rightarrow> f v s')"

definition sget :: "('s \<Rightarrow> 'a) \<Rightarrow> ('s, 'a) oper" where
  "sget f s = (Inr (f s), s)"

definition smodify :: "('s \<Rightarrow> 's) \<Rightarrow> ('s, unit) oper" where
  "smodify f s = (Inr (), f s)"

fun for_each :: "('x \<Rightarrow> ('s, unit) oper) \<Rightarrow> 'x list \<Rightarrow> ('s, unit) oper" where
  "for_each f [] = sret ()"
| "for_each f (x # xs) = sbind (f x) (\<lambda>_. for_each f xs)"

text \<open>
  A relation between the states before and after, on every outcome. A preorder on states is kept by
  sequencing and by loops.
\<close>

definition keeps :: "('s \<Rightarrow> 's \<Rightarrow> bool) \<Rightarrow> ('s, 'a) oper \<Rightarrow> bool" where
  "keeps R m \<longleftrightarrow> (\<forall>s. R s (snd (m s)))"

locale state_order =
  fixes R :: "'s \<Rightarrow> 's \<Rightarrow> bool"
  assumes R_refl: "R s s"
    and R_trans: "R s t \<Longrightarrow> R t u \<Longrightarrow> R s u"
begin

lemma keeps_pure [intro, simp]:
  "keeps R (sret v)" "keeps R (sfail e)" "keeps R (slift r)" "keeps R (sget f)"
  by (simp_all add: keeps_def sret_def sfail_def slift_def sget_def R_refl)

lemma keeps_bind [intro]:
  assumes "keeps R m" and "\<And>v. keeps R (f v)"
  shows "keeps R (sbind m f)"
  unfolding keeps_def
proof
  fix s
  have "R s (snd (m s))" using assms(1) by (simp add: keeps_def)
  moreover have "R t (snd (f v t))" for v t using assms(2) by (simp add: keeps_def)
  ultimately show "R s (snd (sbind m f s))"
    by (auto simp: sbind_def split: prod.split sum.split intro: R_trans)
qed

lemma keeps_get: "(\<And>s. keeps R (f (g s))) \<Longrightarrow> keeps R (sbind (sget g) f)"
  by (simp add: keeps_def sbind_def sget_def)

lemma keeps_for_each [intro]: "(\<And>x. x \<in> set xs \<Longrightarrow> keeps R (f x)) \<Longrightarrow> keeps R (for_each f xs)"
  by (induction xs) auto

end

text \<open>Inversion of sequencing.\<close>

lemma sbind_snd: "snd (sbind m f s) = (case fst (m s) of Inl e \<Rightarrow> snd (m s) | Inr v \<Rightarrow> snd (f v (snd (m s))))"
  by (simp add: sbind_def split: prod.splits sum.splits)

lemma sbind_Inr_iff: "sbind m f s = (Inr v, s') \<longleftrightarrow> (\<exists>w t. m s = (Inr w, t) \<and> f w t = (Inr v, s'))"
  by (auto simp: sbind_def split: prod.splits sum.splits)

end
