(* ===== verification/Host_Spec.thy ===== *)
theory Host_Spec
  imports Image_Ref Rust_State Boot_Names
begin

text \<open>
  The host specification and status (\<^verbatim>\<open>crates/lib/src/spec.rs\<close>) and its computation from the
  ostree deployments (\<^verbatim>\<open>crates/lib/src/status.rs\<close>).

  OCI references, ostree deployments and the lookups in the ostree repository belong to other
  libraries and are records of parameters.
\<close>

section \<open>Types\<close>

definition API_VERSION :: string where "API_VERSION = ''org.containers.bootc/v1''"
definition KIND :: string where "KIND = ''BootcHost''"
definition OBJECT_NAME :: string where "OBJECT_NAME = ''host''"

datatype boot_order = OrderDefault | OrderRollback

datatype store = OstreeContainer

datatype slot = SlotStaged | SlotBooted | SlotRollback

datatype bootloader_kind = BLSCompatible | GRUBClassic

datatype host_type = BootcHost

datatype access_mode = ReadOnly | ReadWrite

datatype persistence = Transient | Persistent

record filesystem_overlay =
  ov_access_mode :: access_mode
  ov_persistence :: persistence

record host_spec =
  hs_image :: "spec_image_ref option"
  hs_boot_order :: boot_order

record image_status =
  st_image :: spec_image_ref
  st_version :: "string option"
  st_timestamp :: "string option"
  st_image_digest :: string
  st_architecture :: string

record boot_entry_ostree =
  os_stateroot :: string
  os_checksum :: string
  os_deploy_serial :: nat

record boot_entry_composefs =
  verity :: string
  boot_type :: boot_type
  cfs_bootloader :: bootloader
  boot_digest :: "string option"
  missing_verity_allowed :: bool

record boot_entry =
  be_image :: "image_status option"
  be_cached_update :: "image_status option"
  be_incompatible :: bool
  be_pinned :: bool
  be_soft_reboot_capable :: bool
  be_download_only :: bool
  be_store :: "store option"
  be_ostree :: "boot_entry_ostree option"
  be_composefs :: "boot_entry_composefs option"

record host_status =
  staged :: "boot_entry option"
  booted :: "boot_entry option"
  rollback :: "boot_entry option"
  other_deployments :: "boot_entry list"
  rollback_queued :: bool
  host_ty :: "host_type option"
  usr_overlay :: "filesystem_overlay option"
  read_only :: bool

record host =
  api_version :: string
  kind_name :: string
  object_name :: "string option"
  host_spec_of :: host_spec
  host_status_of :: host_status

record deployment_entry =
  de_ty :: "slot option"
  de_deployment :: boot_entry_composefs
  de_pinned :: bool
  de_soft_reboot_capable :: bool

section \<open>Bootloaders and overlays\<close>

fun bootloader_fmt :: "bootloader \<Rightarrow> string" where
  "bootloader_fmt Grub = ''grub''"
| "bootloader_fmt GrubCC = ''grub-cc''"
| "bootloader_fmt Systemd = ''systemd''"
| "bootloader_fmt BootloaderNone = ''none''"

definition bootloader_from_str :: "string \<Rightarrow> bootloader res" where
  "bootloader_from_str v =
     (if v = ''grub'' then Inr Grub
      else if v = ''grub-cc'' then Inr GrubCC
      else if v = ''systemd'' then Inr Systemd
      else if v = ''none'' then Inr BootloaderNone
      else Inl ''Unrecognized bootloader'')"

interpretation bootloader: codec "\<lambda>_. True" bootloader_fmt bootloader_from_str
proof
  show "bootloader_from_str (bootloader_fmt b) = Inr b" for b
    by (cases b) (simp_all add: bootloader_from_str_def)
qed

fun bootloader_kind_of :: "bootloader \<Rightarrow> bootloader_kind res" where
  "bootloader_kind_of Grub = Inr GRUBClassic"
| "bootloader_kind_of Systemd = Inr BLSCompatible"
| "bootloader_kind_of GrubCC = Inr BLSCompatible"
| "bootloader_kind_of BootloaderNone = Inl ''Bootloader was None''"

fun access_mode_fmt :: "access_mode \<Rightarrow> string" where
  "access_mode_fmt ReadOnly = ''read-only''"
| "access_mode_fmt ReadWrite = ''read/write''"

fun persistence_fmt :: "persistence \<Rightarrow> string" where
  "persistence_fmt Transient = ''transient''"
| "persistence_fmt Persistent = ''persistent''"

definition filesystem_overlay_fmt :: "filesystem_overlay \<Rightarrow> string" where
  "filesystem_overlay_fmt ov =
     persistence_fmt (ov_persistence ov) @ '', '' @ access_mode_fmt (ov_access_mode ov)"

text \<open>The unlocked states of an ostree deployment; the last one stands for later additions.\<close>

datatype unlocked_state = UnlockedNone | Development | Hotfix | UnlockedTransient | UnlockedOther

fun deployment_unlocked_state_to_usr_overlay :: "unlocked_state \<Rightarrow> filesystem_overlay option" where
  "deployment_unlocked_state_to_usr_overlay UnlockedNone = None"
| "deployment_unlocked_state_to_usr_overlay Development =
     Some \<lparr>ov_access_mode = ReadWrite, ov_persistence = Transient\<rparr>"
| "deployment_unlocked_state_to_usr_overlay Hotfix =
     Some \<lparr>ov_access_mode = ReadWrite, ov_persistence = Persistent\<rparr>"
| "deployment_unlocked_state_to_usr_overlay UnlockedTransient =
     Some \<lparr>ov_access_mode = ReadOnly, ov_persistence = Transient\<rparr>"
| "deployment_unlocked_state_to_usr_overlay UnlockedOther = None"

section \<open>Image references of the specification\<close>

record 'r oci =
  oci_parse :: "string \<Rightarrow> 'r res"
  oci_fmt :: "'r \<Rightarrow> string"
  oci_tag :: "'r \<Rightarrow> string option"
  oci_digest :: "'r \<Rightarrow> string option"
  oci_clone_with_digest :: "'r \<Rightarrow> string \<Rightarrow> 'r"
  oci_registry :: "'r \<Rightarrow> string"
  oci_repository :: "'r \<Rightarrow> string"
  oci_with_tag :: "string \<Rightarrow> string \<Rightarrow> string \<Rightarrow> 'r"

definition canonicalize_reference :: "'r oci \<Rightarrow> 'r \<Rightarrow> 'r option" where
  "canonicalize_reference R reference =
     (case oci_tag R reference of
        None \<Rightarrow> None
      | Some _ \<Rightarrow> (case oci_digest R reference of
          None \<Rightarrow> None
        | Some digest \<Rightarrow> Some (oci_clone_with_digest R reference digest)))"

definition canonicalize :: "'t proxy \<Rightarrow> 'r oci \<Rightarrow> spec_image_ref \<Rightarrow> spec_image_ref res" where
  "canonicalize P R img =
     rbind (px_transport_of P (spec_transport img)) (\<lambda>transport.
     if transport = px_registry P then
       rbind (oci_parse R (spec_image img)) (\<lambda>reference.
       case canonicalize_reference R reference of
         None \<Rightarrow> Inr img
       | Some r \<Rightarrow> Inr (img\<lparr>spec_image := oci_fmt R r\<rparr>))
     else Inr img)"

definition spec_transport_of :: "'t proxy \<Rightarrow> spec_image_ref \<Rightarrow> 't res" where
  "spec_transport_of P img =
     (case px_transport_of P (spec_transport img) of
        Inl e \<Rightarrow> Inl ''Invalid transport''
      | Inr t \<Rightarrow> Inr t)"

definition to_image_proxy_ref :: "'t proxy \<Rightarrow> spec_image_ref \<Rightarrow> 't image_ref res" where
  "to_image_proxy_ref P img =
     (case px_parse P (spec_transport img @ colon # spec_image img) of
        Inl e \<Rightarrow> Inl ''Parsing image reference''
      | Inr r \<Rightarrow> Inr r)"

definition to_transport_image :: "'t proxy \<Rightarrow> spec_image_ref \<Rightarrow> string res" where
  "to_transport_image P img =
     rbind (spec_transport_of P img) (\<lambda>t.
     if t = px_registry P then Inr (spec_image img)
     else Inr (spec_transport img @ colon # spec_image img))"

definition with_tag :: "'r oci \<Rightarrow> string \<Rightarrow> spec_image_ref \<Rightarrow> spec_image_ref" where
  "with_tag R new_tag img =
     img\<lparr>spec_image :=
       (case oci_parse R (spec_image img) of
          Inr reference \<Rightarrow>
            oci_fmt R (oci_with_tag R (oci_registry R reference) (oci_repository R reference) new_tag)
        | Inl _ \<Rightarrow>
            (let without_digest = hd (split_on (CHR ''@'') (spec_image img));
                 image_part = (case rsplit_once colon without_digest of
                                 Some (base, _) \<Rightarrow> base | None \<Rightarrow> without_digest)
             in image_part @ colon # new_tag))\<rparr>"

text \<open>
  The alternate form prints the bare image name for unsigned references to a registry; converting
  to an ostree reference can panic.
\<close>

definition spec_image_ref_fmt :: "'t proxy \<Rightarrow> bool \<Rightarrow> spec_image_ref \<Rightarrow> string outcome" where
  "spec_image_ref_fmt P alternate img =
     (if alternate \<and> spec_signature img = None \<and> spec_transport img = ''registry''
      then Inr (spec_image img)
      else rbind (ostree_of_spec_ref P img) (\<lambda>r. Inr (ostree_image_ref_fmt P alternate r)))"

section \<open>The host\<close>

definition host_spec_default :: host_spec where
  "host_spec_default = \<lparr>hs_image = None, hs_boot_order = OrderDefault\<rparr>"

definition host_status_default :: host_status where
  "host_status_default = \<lparr>staged = None, booted = None, rollback = None, other_deployments = [],
     rollback_queued = False, host_ty = None, usr_overlay = None, read_only = False\<rparr>"

definition host_new :: "host_spec \<Rightarrow> host" where
  "host_new spec = \<lparr>api_version = API_VERSION, kind_name = KIND, object_name = Some OBJECT_NAME,
     host_spec_of = spec, host_status_of = host_status_default\<rparr>"

definition host_default :: host where
  "host_default = host_new host_spec_default"

definition filter_to_slot :: "slot \<Rightarrow> host \<Rightarrow> host" where
  "filter_to_slot s h =
     (let st = host_status_of h in
      h\<lparr>host_status_of :=
        (case s of
           SlotStaged \<Rightarrow> st\<lparr>booted := None, rollback := None\<rparr>
         | SlotBooted \<Rightarrow> st\<lparr>staged := None, rollback := None\<rparr>
         | SlotRollback \<Rightarrow> st\<lparr>staged := None, booted := None\<rparr>)\<rparr>)"

abbreviation opt_list :: "'a option \<Rightarrow> 'a list" where
  "opt_list x \<equiv> (case x of None \<Rightarrow> [] | Some v \<Rightarrow> [v])"

definition list_deployments :: "host \<Rightarrow> boot_entry list" where
  "list_deployments h =
     (let st = host_status_of h in
      opt_list (staged st) @ opt_list (booted st) @ opt_list (rollback st) @ other_deployments st)"

definition require_composefs :: "boot_entry \<Rightarrow> boot_entry_composefs res" where
  "require_composefs e = ok_or ''BootEntry is not a composefs native boot entry'' (be_composefs e)"

definition composefs_boot_digest :: "boot_entry \<Rightarrow> string res" where
  "composefs_boot_digest e =
     rbind (require_composefs e) (\<lambda>c.
     ok_or ''Could not find boot digest for deployment'' (boot_digest c))"

definition require_composefs_booted :: "host \<Rightarrow> boot_entry_composefs res" where
  "require_composefs_booted h =
     rbind (ok_or ''Could not find booted deployment'' (booted (host_status_of h))) require_composefs"

definition slot_entries :: "slot option \<Rightarrow> bool \<Rightarrow> boot_entry list \<Rightarrow> deployment_entry list res" where
  "slot_entries s pin es =
     collect_res (map (\<lambda>e. rbind (require_composefs e) (\<lambda>c.
       Inr \<lparr>de_ty = s, de_deployment = c, de_pinned = pin,
            de_soft_reboot_capable = be_soft_reboot_capable e\<rparr>)) es)"

definition all_composefs_deployments :: "host \<Rightarrow> deployment_entry list res" where
  "all_composefs_deployments h =
     (let st = host_status_of h in
      rbind (require_composefs_booted h) (\<lambda>b.
      rbind (slot_entries (Some SlotStaged) False (opt_list (staged st))) (\<lambda>ss.
      rbind (slot_entries (Some SlotRollback) False (opt_list (rollback st))) (\<lambda>rs.
      rbind (slot_entries None True (other_deployments st)) (\<lambda>os.
      Inr (\<lparr>de_ty = Some SlotBooted, de_deployment = b, de_pinned = False,
            de_soft_reboot_capable = False\<rparr> # ss @ rs @ os))))))"

definition verify_transition :: "host_spec \<Rightarrow> host_spec \<Rightarrow> unit res" where
  "verify_transition old new =
     (let rollback = hs_boot_order old \<noteq> hs_boot_order new;
          image_change = hs_image old \<noteq> hs_image new
      in if rollback \<and> image_change
         then Inl ''Invalid state transition: rollback and image change'' else Inr ())"

fun boot_order_swap :: "boot_order \<Rightarrow> boot_order" where
  "boot_order_swap OrderDefault = OrderRollback"
| "boot_order_swap OrderRollback = OrderDefault"

fun slot_fmt :: "slot \<Rightarrow> string" where
  "slot_fmt SlotStaged = ''staged''"
| "slot_fmt SlotBooted = ''booted''"
| "slot_fmt SlotRollback = ''rollback''"

section \<open>Status of the ostree deployments\<close>

text \<open>What is read from an ostree deployment, its origin file and the repository.\<close>

record ('d, 'o, 't) ostree_view =
  d_osname :: "'d \<Rightarrow> string"
  d_is_staged :: "'d \<Rightarrow> bool"
  d_is_finalization_locked :: "'d \<Rightarrow> bool"
  d_is_pinned :: "'d \<Rightarrow> bool"
  d_equal :: "'d \<Rightarrow> 'd \<Rightarrow> bool"
  d_index :: "'d \<Rightarrow> int"
  d_unlocked :: "'d \<Rightarrow> unlocked_state"
  d_csum :: "'d \<Rightarrow> string"
  d_deployserial :: "'d \<Rightarrow> int"
  d_stateroot :: "'d \<Rightarrow> string"
  d_origin :: "'d \<Rightarrow> 'o option"
  d_soft_reboot :: "'d \<Rightarrow> bool"
  o_has_rpmostree_stuff :: "'o \<Rightarrow> bool"
  o_container :: "'o \<Rightarrow> string option res"
  r_image_status :: "'d \<Rightarrow> 't ostree_image_ref \<Rightarrow> (image_status option \<times> image_status option) res"

definition get_image_origin ::
    "'t proxy \<Rightarrow> ('d, 'o, 't) ostree_view \<Rightarrow> 'o \<Rightarrow> 't ostree_image_ref option res" where
  "get_image_origin P V origin =
     rbind (o_container V origin) (\<lambda>c.
     case c of None \<Rightarrow> Inr None
     | Some v \<Rightarrow> rbind (ostree_image_ref_try_from P v) (\<lambda>r. Inr (Some r)))"

definition boot_entry_from_deployment ::
    "'t proxy \<Rightarrow> ('d, 'o, 't) ostree_view \<Rightarrow> 'd \<Rightarrow> boot_entry outcome" where
  "boot_entry_from_deployment P V d =
     rbind (case d_origin V d of
              None \<Rightarrow> Inr ((None, None), False)
            | Some origin \<Rightarrow>
                (let incompatible = o_has_rpmostree_stuff V origin in
                 if incompatible then Inr ((None, None), incompatible)
                 else rbind (lift_res (get_image_origin P V origin)) (\<lambda>img.
                      case img of
                        None \<Rightarrow> Inr ((None, None), incompatible)
                      | Some oref \<Rightarrow>
                          rbind (lift_res (r_image_status V d oref)) (\<lambda>c. Inr (c, incompatible)))))
       (\<lambda>((im, cached_update), incompatible).
     if d_deployserial V d < 0 then Inl (Panic ''called Result::unwrap() on an Err value'')
     else Inr \<lparr>be_image = im, be_cached_update = cached_update, be_incompatible = incompatible,
               be_pinned = d_is_pinned V d, be_soft_reboot_capable = d_soft_reboot V d,
               be_download_only = (d_is_staged V d \<and> d_is_finalization_locked V d),
               be_store = Some OstreeContainer,
               be_ostree = Some \<lparr>os_stateroot = d_stateroot V d, os_checksum = d_csum V d,
                                 os_deploy_serial = nat (d_deployserial V d)\<rparr>,
               be_composefs = None\<rparr>)"

text \<open>Removing the first element with a property, as \<^verbatim>\<open>position\<close> and \<^verbatim>\<open>remove\<close> do.\<close>

fun take_first :: "('a \<Rightarrow> bool) \<Rightarrow> 'a list \<Rightarrow> 'a option \<times> 'a list" where
  "take_first p [] = (None, [])"
| "take_first p (x # xs) =
     (if p x then (Some x, xs) else (case take_first p xs of (r, ys) \<Rightarrow> (r, x # ys)))"

fun pop_front :: "'a list \<Rightarrow> 'a option \<times> 'a list" where
  "pop_front [] = (None, [])"
| "pop_front (x # xs) = (Some x, xs)"

record 'd deployments =
  dp_staged :: "'d option"
  dp_rollback :: "'d option"
  dp_other :: "'d list"

definition classify_deployments :: "('d, 'o, 't) ostree_view \<Rightarrow> 'd list \<Rightarrow> 'd \<Rightarrow> 'd deployments \<times> bool" where
  "classify_deployments V ds b =
     (let related = filter (\<lambda>d. d_osname V d = d_osname V b) ds;
          others = filter (\<lambda>d. d_osname V d \<noteq> d_osname V b) ds
      in case take_first (d_is_staged V) related of (stg, related1) \<Rightarrow>
         let related2 = filter (\<lambda>d. \<not> d_equal V d b) related1
         in case pop_front related2 of (rb, related3) \<Rightarrow>
            (\<lparr>dp_staged = stg, dp_rollback = rb, dp_other = related3 @ others\<rparr>,
             (case rb of Some r \<Rightarrow> d_index V r < d_index V b | None \<Rightarrow> False)))"

definition opt_transpose :: "('a \<Rightarrow> 'e + 'b) \<Rightarrow> 'a option \<Rightarrow> 'e + 'b option" where
  "opt_transpose f x = (case x of None \<Rightarrow> Inr None | Some v \<Rightarrow> rbind (f v) (\<lambda>w. Inr (Some w)))"

definition get_status ::
    "'t proxy \<Rightarrow> ('d, 'o, 't) ostree_view \<Rightarrow> 'd list \<Rightarrow> 'd \<Rightarrow> ('d deployments \<times> host) outcome" where
  "get_status P V ds b =
     (case classify_deployments V ds b of (deps, queued) \<Rightarrow>
      rbind (opt_transpose (boot_entry_from_deployment P V) (dp_staged deps)) (\<lambda>stg.
      rbind (boot_entry_from_deployment P V b) (\<lambda>bt.
      rbind (opt_transpose (boot_entry_from_deployment P V) (dp_rollback deps)) (\<lambda>rb.
      rbind (collect_res (map (boot_entry_from_deployment P V) (dp_other deps))) (\<lambda>others.
      let spec = (case be_image (case stg of Some s \<Rightarrow> s | None \<Rightarrow> bt) of
                    Some img \<Rightarrow> \<lparr>hs_image = Some (st_image img),
                                hs_boot_order = (if queued then OrderRollback else OrderDefault)\<rparr>
                  | None \<Rightarrow> host_spec_default)
      in Inr (deps, (host_new spec)\<lparr>host_status_of :=
           \<lparr>staged = stg, booted = Some bt, rollback = rb, other_deployments = others,
            rollback_queued = queued,
            host_ty = (if be_image bt \<noteq> None then Some BootcHost else None),
            usr_overlay = deployment_unlocked_state_to_usr_overlay (d_unlocked V b),
            read_only = False\<rparr>\<rparr>))))))"

section \<open>Classification of deployments\<close>

lemma take_first_mset: "take_first p xs = (r, ys) \<Longrightarrow> mset xs = mset (opt_list r) + mset ys"
  by (induction xs arbitrary: r ys) (auto split: if_splits prod.splits)

lemma take_first_SomeD: "take_first p xs = (Some x, ys) \<Longrightarrow> p x"
  by (induction xs arbitrary: ys) (auto split: if_splits prod.splits)

lemma pop_front_mset: "pop_front xs = (r, ys) \<Longrightarrow> xs = opt_list r @ ys"
  by (cases xs) auto

lemma mset_partition: "mset xs = mset (filter P xs) + mset (filter (\<lambda>x. \<not> P x) xs)"
  by (induction xs) auto

text \<open>Dropping the staged deployment does not drop the booted one.\<close>

lemma booted_survives:
  assumes "filter (\<lambda>d. d_equal V d b) ds = [b]" and "\<not> d_is_staged V b"
    and "take_first (d_is_staged V) (filter (\<lambda>d. d_osname V d = d_osname V b) ds) = (stg, rest)"
  shows "mset (filter (\<lambda>d. d_equal V d b) rest) = {#b#}"
proof -
  let ?eq = "\<lambda>d. d_equal V d b" and ?rel = "filter (\<lambda>d. d_osname V d = d_osname V b) ds"
  have "filter ?eq ?rel = filter (\<lambda>d. d_osname V d = d_osname V b) (filter ?eq ds)"
    by (simp add: conj_commute)
  then have rel: "filter ?eq ?rel = [b]" by (simp add: assms(1))
  have m: "mset ?rel = mset (opt_list stg) + mset rest"
    by (rule take_first_mset [OF assms(3)])
  have "mset (filter ?eq ?rel) = filter_mset ?eq (mset ?rel)" by (rule mset_filter)
  also have "\<dots> = filter_mset ?eq (mset (opt_list stg)) + mset (filter ?eq rest)"
    by (subst m) (simp only: filter_union_mset mset_filter)
  finally have "mset (filter ?eq ?rel) = \<dots>" .
  moreover have "filter_mset ?eq (mset (opt_list stg)) = {#}"
  proof (cases stg)
    case (Some s)
    then have "d_is_staged V s" using take_first_SomeD assms(3) by fastforce
    then have "s \<noteq> b" using assms(2) by auto
    moreover have "s \<in> set ds" using arg_cong [OF m, of set_mset] Some by auto
    ultimately have "\<not> d_equal V s b" using arg_cong [OF assms(1), of set] by auto
    with Some show ?thesis by simp
  qed simp
  ultimately show ?thesis by (simp only: rel) simp
qed

lemma classify_mset:
  assumes "filter (\<lambda>d. d_equal V d b) ds = [b]" and "\<not> d_is_staged V b"
    and "classify_deployments V ds b = (deps, queued)"
  shows "mset (opt_list (dp_staged deps) @ b # opt_list (dp_rollback deps) @ dp_other deps) = mset ds"
proof -
  let ?rel = "filter (\<lambda>d. d_osname V d = d_osname V b) ds"
  obtain stg r1 where t: "take_first (d_is_staged V) ?rel = (stg, r1)" by fastforce
  obtain rb r3 where p: "pop_front (filter (\<lambda>d. \<not> d_equal V d b) r1) = (rb, r3)" by fastforce
  have d: "deps = \<lparr>dp_staged = stg, dp_rollback = rb,
      dp_other = r3 @ filter (\<lambda>d. d_osname V d \<noteq> d_osname V b) ds\<rparr>"
    using assms(3) t p by (simp add: classify_deployments_def Let_def)
  have "mset r1 = mset (filter (\<lambda>d. d_equal V d b) r1) + mset (opt_list rb @ r3)"
    using mset_partition [of r1 "\<lambda>d. d_equal V d b"] pop_front_mset [OF p] by simp
  then have "mset r1 = {#b#} + mset (opt_list rb @ r3)"
    using booted_survives [OF assms(1,2) t] by simp
  then show ?thesis
    unfolding mset_partition [of ds "\<lambda>d. d_osname V d = d_osname V b"] take_first_mset [OF t]
    by (simp add: d)
qed

lemma opt_transpose_Inr: "opt_transpose f x = Inr y \<Longrightarrow> map f (opt_list x) = map Inr (opt_list y)"
  by (cases x) (auto simp: opt_transpose_def rbind_Inr_iff)

text \<open>
  C24. The status lists every ostree deployment exactly once, as staged, booted, rollback or other,
  provided that the booted deployment occurs once and is not staged; a rollback is reported as
  queued exactly when the rollback deployment precedes the booted one in the boot order.
\<close>

theorem get_status_complete:
  assumes "filter (\<lambda>d. d_equal V d b) ds = [b]" and "\<not> d_is_staged V b"
    and "get_status P V ds b = Inr (deps, h)"
  shows "mset (map Inr (list_deployments h)) = mset (map (boot_entry_from_deployment P V) ds)
    \<and> (rollback_queued (host_status_of h) \<longleftrightarrow>
         (\<exists>r. dp_rollback deps = Some r \<and> d_index V r < d_index V b))"
proof -
  let ?e = "boot_entry_from_deployment P V"
  obtain queued where c: "classify_deployments V ds b = (deps, queued)"
    using assms(3) by (auto simp: get_status_def rbind_Inr_iff Let_def split: prod.splits)
  obtain stg bt rb others where e: "opt_transpose ?e (dp_staged deps) = Inr stg" "?e b = Inr bt"
      "opt_transpose ?e (dp_rollback deps) = Inr rb" "collect_res (map ?e (dp_other deps)) = Inr others"
    and h: "list_deployments h = opt_list stg @ bt # opt_list rb @ others"
      "rollback_queued (host_status_of h) = queued"
    using assms(3) c by (auto simp: get_status_def rbind_Inr_iff Let_def list_deployments_def)
  have "map Inr (list_deployments h) =
      map ?e (opt_list (dp_staged deps) @ b # opt_list (dp_rollback deps) @ dp_other deps)"
    using opt_transpose_Inr [OF e(1)] opt_transpose_Inr [OF e(3)] e(2) e(4)
    by (simp add: h(1) collect_res_Inr_iff)
  then have "mset (map Inr (list_deployments h)) = mset (map ?e ds)"
    using classify_mset [OF assms(1,2) c] by (metis mset_map)
  moreover have "queued \<longleftrightarrow> (\<exists>r. dp_rollback deps = Some r \<and> d_index V r < d_index V b)"
    using c by (auto simp: classify_deployments_def Let_def split: prod.splits option.splits)
  ultimately show ?thesis by (simp add: h(2))
qed

text \<open>Deployments as pairs of an index and whether they are staged.\<close>

definition view_ex :: "(nat \<times> bool, unit, transport_ref) ostree_view" where
  "view_ex = \<lparr>d_osname = (\<lambda>_. ''default''), d_is_staged = snd, d_is_finalization_locked = (\<lambda>_. False),
     d_is_pinned = (\<lambda>_. False), d_equal = (=), d_index = (\<lambda>d. int (fst d)),
     d_unlocked = (\<lambda>_. UnlockedNone), d_csum = (\<lambda>_. ''c''), d_deployserial = (\<lambda>_. 0),
     d_stateroot = (\<lambda>_. ''default''), d_origin = (\<lambda>_. None), d_soft_reboot = (\<lambda>_. False),
     o_has_rpmostree_stuff = (\<lambda>_. False), o_container = (\<lambda>_. Inr None),
     r_image_status = (\<lambda>_ _. Inr (None, None))\<rparr>"

theorem get_status_complete_witness:
  "\<exists>deps h. get_status proxy_ref view_ex [(0, True), (1, False), (2, False)] (1, False) = Inr (deps, h)
     \<and> length (list_deployments h) = 3 \<and> \<not> rollback_queued (host_status_of h)"
proof -
  let ?ds = "[(0 :: nat, True), (1, False), (2, False)]"
  obtain deps h where g: "get_status proxy_ref view_ex ?ds (1, False) = Inr (deps, h)"
      and r: "dp_rollback deps = Some (2, False)"
    by (simp add: get_status_def classify_deployments_def view_ex_def opt_transpose_def
        boot_entry_from_deployment_def Let_def)
  have c: "mset (map Inr (list_deployments h)) = mset (map (boot_entry_from_deployment proxy_ref view_ex) ?ds)
      \<and> (rollback_queued (host_status_of h) \<longleftrightarrow>
         (\<exists>r. dp_rollback deps = Some r \<and> d_index view_ex r < d_index view_ex (1, False)))"
    by (rule get_status_complete [OF _ _ g]) (simp_all add: view_ex_def)
  have "length (map Inr (list_deployments h)) = length ?ds"
    using mset_eq_length [OF conjunct1 [OF c]] by (simp only: length_map)
  moreover have "\<not> rollback_queued (host_status_of h)" using c r by (simp add: view_ex_def)
  ultimately show ?thesis using g by simp
qed

section \<open>Canonical references and tags\<close>

text \<open>What is relied on of OCI references: cloning with a digest drops the tag and is printable.\<close>

locale oci_laws =
  fixes R :: "'r oci"
  assumes clone_tag: "oci_tag R (oci_clone_with_digest R r d) = None"
    and parse_clone: "oci_parse R s = Inr r \<Longrightarrow>
      oci_parse R (oci_fmt R (oci_clone_with_digest R r d)) = Inr (oci_clone_with_digest R r d)"
begin

lemma canonicalize_idem:
  assumes "canonicalize P R img = Inr c"
  shows "canonicalize P R c = Inr c"
proof -
  obtain t where t: "px_transport_of P (spec_transport img) = Inr t"
    using assms by (auto simp: canonicalize_def rbind_Inr_iff)
  show ?thesis
  proof (cases "c = img")
    case False
    then obtain r d where p: "oci_parse R (spec_image img) = Inr r"
      and c: "c = img\<lparr>spec_image := oci_fmt R (oci_clone_with_digest R r d)\<rparr>"
      using assms t by (auto simp: canonicalize_def canonicalize_reference_def rbind_Inr_iff
          split: if_splits option.splits)
    then show ?thesis
      using t parse_clone [OF p, of d] clone_tag
      by (simp add: canonicalize_def canonicalize_reference_def)
  qed (use assms in simp)
qed

end

text \<open>References as name, tag and digest.\<close>

definition oci_ref :: "(string \<times> string option \<times> string option) oci" where
  "oci_ref =
     \<lparr>oci_parse = (\<lambda>s. case split_once (CHR ''@'') s of
         Some (n, d) \<Rightarrow> (case split_once colon n of
             Some (b, t) \<Rightarrow> Inr (b, Some t, Some d) | None \<Rightarrow> Inr (n, None, Some d))
       | None \<Rightarrow> (case split_once colon s of
             Some (b, t) \<Rightarrow> Inr (b, Some t, None) | None \<Rightarrow> Inr (s, None, None))),
      oci_fmt = (\<lambda>(n, t, d). n @ (case t of Some x \<Rightarrow> colon # x | None \<Rightarrow> [])
                  @ (case d of Some x \<Rightarrow> CHR ''@'' # x | None \<Rightarrow> [])),
      oci_tag = (\<lambda>(n, t, d). t), oci_digest = (\<lambda>(n, t, d). d),
      oci_clone_with_digest = (\<lambda>(n, t, _) d. (n, None, Some d)),
      oci_registry = (\<lambda>_. []), oci_repository = fst,
      oci_with_tag = (\<lambda>_ n t. (n, Some t, None))\<rparr>"

interpretation oci_ref: oci_laws oci_ref
proof
  fix r :: "string \<times> string option \<times> string option" and d s
  show "oci_tag oci_ref (oci_clone_with_digest oci_ref r d) = None"
    by (cases r) (simp add: oci_ref_def)
  assume p: "oci_parse oci_ref s = Inr r"
  obtain n t e where r: "r = (n, t, e)" by (cases r)
  have "CHR ''@'' \<notin> set n" "colon \<notin> set n"
    using p by (auto simp: oci_ref_def r split_once_Some_iff split_once_None_iff split: option.splits)
  then show "oci_parse oci_ref (oci_fmt oci_ref (oci_clone_with_digest oci_ref r d))
      = Inr (oci_clone_with_digest oci_ref r d)"
    using split_once_None_iff [of colon n] by (simp add: oci_ref_def r)
qed

text \<open>
  Canonicalizing an image reference is idempotent: a canonical reference never carries both a
  tag and a digest.
\<close>

theorem canonicalize_idempotent:
  assumes "oci_laws R" and "canonicalize P R img = Inr c"
  shows "canonicalize P R c = Inr c"
  by (rule oci_laws.canonicalize_idem [OF assms])

theorem canonicalize_idempotent_witness:
  "let img = \<lparr>spec_image = ''q/x:latest@sha256:ab'', spec_transport = ''registry'', spec_signature = None\<rparr>;
       c = img\<lparr>spec_image := ''q/x@sha256:ab''\<rparr>
   in canonicalize proxy_ref oci_ref img = Inr c \<and> canonicalize proxy_ref oci_ref c = Inr c"
proof -
  let ?img = "\<lparr>spec_image = ''q/x:latest@sha256:ab'', spec_transport = ''registry'', spec_signature = None\<rparr>"
  have c: "canonicalize proxy_ref oci_ref ?img = Inr (?img\<lparr>spec_image := ''q/x@sha256:ab''\<rparr>)"
    by (simp add: canonicalize_def proxy_ref_def oci_ref_def canonicalize_reference_def)
  from canonicalize_idempotent [OF oci_ref.oci_laws_axioms c] c show ?thesis by (simp add: Let_def)
qed

text \<open>
  For images that are not OCI references, such as directories, setting a tag twice is setting
  the second one: the first tag and any digest are replaced, not accumulated.
\<close>

theorem with_tag_replaces:
  assumes "oci_parse R (spec_image img) = Inl e" and "oci_parse R (spec_image (with_tag R t1 img)) = Inl e'"
    and "colon \<notin> set t1" and "CHR ''@'' \<notin> set t1"
  shows "with_tag R t2 (with_tag R t1 img) = with_tag R t2 img"
proof -
  let ?w = "hd (split_on (CHR ''@'') (spec_image img))"
  define base where "base = (case rsplit_once colon ?w of Some (b, _) \<Rightarrow> b | None \<Rightarrow> ?w)"
  have tag: "with_tag R t img = img\<lparr>spec_image := base @ colon # t\<rparr>" for t
    using assms(1) by (simp add: with_tag_def base_def Let_def)
  have "CHR ''@'' \<notin> set ?w" by (rule split_on_parts [OF hd_in_set]) simp
  then have "CHR ''@'' \<notin> set base"
    by (auto simp: base_def rsplit_once_Some_iff split: option.splits)
  then have "split_on (CHR ''@'') (base @ colon # t1) = [base @ colon # t1]"
    using assms(4) by (intro split_on_no_sep) simp
  moreover have "rsplit_once colon (base @ colon # t1) = Some (base, t1)"
    using assms(3) by (simp add: rsplit_once_Some_iff)
  moreover have "oci_parse R (base @ colon # t1) = Inl e'" using assms(2) by (simp add: tag)
  ultimately have "with_tag R t2 (img\<lparr>spec_image := base @ colon # t1\<rparr>) = img\<lparr>spec_image := base @ colon # t2\<rparr>"
    by (simp add: with_tag_def)
  then show ?thesis by (simp add: tag)
qed

theorem with_tag_replaces_witness:
  "let R = oci_ref\<lparr>oci_parse := (\<lambda>s. if starts_with ''/'' s then Inl ''invalid'' else Inr (s, None, None))\<rparr>;
       img = \<lparr>spec_image = ''/srv/img:old@sha256:ab'', spec_transport = ''oci'', spec_signature = None\<rparr>
   in with_tag R ''b'' (with_tag R ''a'' img) = with_tag R ''b'' img
      \<and> spec_image (with_tag R ''b'' img) = ''/srv/img:b''"
proof -
  let ?R = "oci_ref\<lparr>oci_parse := (\<lambda>s. if starts_with ''/'' s then Inl ''invalid'' else Inr (s, None, None))\<rparr>"
  let ?img = "\<lparr>spec_image = ''/srv/img:old@sha256:ab'', spec_transport = ''oci'', spec_signature = None\<rparr>"
  have t: "spec_image (with_tag ?R t ?img) = ''/srv/img:'' @ t" for t
    by (simp add: with_tag_def starts_with_def rsplit_once_def)
  have "with_tag ?R ''b'' (with_tag ?R ''a'' ?img) = with_tag ?R ''b'' ?img"
    by (rule with_tag_replaces [where e = "''invalid''" and e' = "''invalid''"])
      (simp_all add: t, simp_all add: starts_with_def)
  then show ?thesis using t [of "''b''"] by (simp add: Let_def)
qed

end
