(* ===== verification/Boot_Dir.thy ===== *)
theory Boot_Dir
  imports Grub_Menu Host_Spec
begin

text \<open>
  The boot directory: listing its entries in menu order
  (\<^verbatim>\<open>crates/lib/src/bootc_composefs/status.rs\<close>), rolling back (\<^verbatim>\<open>rollback.rs\<close>) and deleting
  entries (\<^verbatim>\<open>delete.rs\<close>).

  The directory is a state: the Type1 entry files, live and staged, as lists of names and contents
  in directory order, and the live and staged GRUB configuration. Exchanging two files atomically
  and removing one are steps on that state. Reading and writing succeed. The order in which extra
  fields of an entry are printed, the comparison and printing of versions, and the containment test
  on command lines are arguments collected in a record.
\<close>

section \<open>State and environment\<close>

record boot_dir =
  entries :: "(string \<times> string) list option"
  entries_staged :: "(string \<times> string) list option"
  user_cfg :: "string option"
  user_cfg_staged :: "string option"

record boot_env =
  env_vcmp :: "string \<Rightarrow> string \<Rightarrow> ordering"
  env_vfmt :: "string \<Rightarrow> string"
  env_iter :: "bls_config \<Rightarrow> (string \<times> string) list"
  env_efi_ext :: string
  env_find_digest :: "string \<Rightarrow> string option res"
  env_cmdline_contains :: "string \<Rightarrow> string \<Rightarrow> bool"
  env_nom :: nom

fun str_contains :: "string \<Rightarrow> string \<Rightarrow> bool" where
  "str_contains p [] = (p = [])"
| "str_contains p (c # s) = (starts_with p (c # s) \<or> str_contains p s)"

definition atomic_write :: "string \<Rightarrow> string \<Rightarrow> (string \<times> string) list \<Rightarrow> (string \<times> string) list" where
  "atomic_write name text files = filter (\<lambda>f. fst f \<noteq> name) files @ [(name, text)]"

section \<open>Listing Type1 entries\<close>

text \<open>The \<^verbatim>\<open>.conf\<close> files of a directory, parsed.\<close>

fun read_configs :: "(string \<times> string) list \<Rightarrow> (bls_config \<times> string) list outcome" where
  "read_configs [] = Inr []"
| "read_configs ((file_name, contents) # rest) =
     (if \<not> ends_with ''.conf'' file_name then read_configs rest
      else rbind (lift_res (parse_bls_config contents)) (\<lambda>config.
           rbind (read_configs rest) (\<lambda>cs. Inr ((config, file_name) # cs))))"

definition menu_cmp ::
    "boot_env \<Rightarrow> bootloader \<Rightarrow> bool \<Rightarrow> bls_config \<times> string \<Rightarrow> bls_config \<times> string \<Rightarrow> ordering" where
  "menu_cmp E bl ascending a b =
     (let o1 = (case bl of
                  Systemd \<Rightarrow> bls_cmp (env_vcmp E) (fst a) (fst b)
                | _ \<Rightarrow> ord_cmp (snd b) (snd a))
      in if ascending then o1 else ord_reverse o1)"

text \<open>Comparing entries is unreachable without a bootloader.\<close>

definition get_sorted_type1_boot_entries_helper ::
    "boot_env \<Rightarrow> boot_dir \<Rightarrow> bool \<Rightarrow> bool \<Rightarrow> bootloader \<Rightarrow> bls_config list outcome" where
  "get_sorted_type1_boot_entries_helper E d ascending get_staged_entries bl =
     (case (if get_staged_entries then entries_staged d else entries d) of
        None \<Rightarrow> if get_staged_entries then Inr [] else Inl (Err ''Getting sorted Type1 boot entries'')
      | Some files \<Rightarrow>
          rbind (read_configs files) (\<lambda>cs.
          if bl = BootloaderNone \<and> length cs > 1 then Inl (Panic ''unreachable'')
          else Inr (map fst (sort_by (menu_cmp E bl ascending) cs))))"

definition get_sorted_type1_boot_entries ::
    "boot_env \<Rightarrow> bootloader \<Rightarrow> boot_dir \<Rightarrow> bool \<Rightarrow> bls_config list outcome" where
  "get_sorted_type1_boot_entries E bl d ascending =
     get_sorted_type1_boot_entries_helper E d ascending False bl"

definition get_sorted_staged_type1_boot_entries ::
    "boot_env \<Rightarrow> bootloader \<Rightarrow> boot_dir \<Rightarrow> bool \<Rightarrow> bls_config list outcome" where
  "get_sorted_staged_type1_boot_entries E bl d ascending =
     get_sorted_type1_boot_entries_helper E d ascending True bl"

record bootloader_entry =
  ble_fsverity :: string
  ble_boot_artifact_name :: string

definition list_type1_entries ::
    "boot_env \<Rightarrow> bootloader \<Rightarrow> boot_dir \<Rightarrow> bootloader_entry list outcome" where
  "list_type1_entries E bl d =
     rbind (get_sorted_type1_boot_entries E bl d True) (\<lambda>boot_entries.
     rbind (get_sorted_staged_type1_boot_entries E bl d True) (\<lambda>staged_boot_entries.
     collect_res (map (\<lambda>e.
       rbind (lift_res (bls_get_verity (env_efi_ext E) (env_find_digest E) e)) (\<lambda>v.
       rbind (lift_res (bls_boot_artifact_name (env_efi_ext E) e)) (\<lambda>a.
       Inr \<lparr>ble_fsverity = v, ble_boot_artifact_name = a\<rparr>))) (boot_entries @ staged_boot_entries))))"

section \<open>Listing GRUB entries\<close>

text \<open>Sequencing of computations that may not end, fail or panic.\<close>

definition obind :: "'a outcome option \<Rightarrow> ('a \<Rightarrow> 'b outcome option) \<Rightarrow> 'b outcome option" where
  "obind x f = (case x of None \<Rightarrow> None | Some (Inl e) \<Rightarrow> Some (Inl e) | Some (Inr v) \<Rightarrow> f v)"

lemma obind_simps [simp]:
  "obind (Some (Inr v)) f = f v" "obind (Some (Inl e)) f = Some (Inl e)" "obind None f = None"
  by (simp_all add: obind_def)

definition get_sorted_grub_uki_boot_entries_helper ::
    "boot_env \<Rightarrow> boot_dir \<Rightarrow> bool \<Rightarrow> menu_entry list outcome option" where
  "get_sorted_grub_uki_boot_entries_helper E d stg =
     (case (if stg then user_cfg_staged d else user_cfg d) of
        None \<Rightarrow> Some (if stg then Inr [] else Inl (Err ''Opening user.cfg''))
      | Some s \<Rightarrow> parse_grub_menuentry_file (env_nom E) s)"

definition list_grub_entries :: "boot_env \<Rightarrow> boot_dir \<Rightarrow> bootloader_entry list outcome option" where
  "list_grub_entries E d =
     obind (get_sorted_grub_uki_boot_entries_helper E d False) (\<lambda>boot_entries.
     obind (get_sorted_grub_uki_boot_entries_helper E d True) (\<lambda>boot_entries_staged.
     Some (collect_res (map (\<lambda>e.
       rbind (lift_res (menu_get_verity (env_efi_ext E) e)) (\<lambda>v.
       rbind (lift_res (menu_boot_artifact_name (env_efi_ext E) e)) (\<lambda>a.
       Inr \<lparr>ble_fsverity = v, ble_boot_artifact_name = a\<rparr>))) (boot_entries @ boot_entries_staged)))))"

definition list_bootloader_entries ::
    "boot_env \<Rightarrow> bootloader \<Rightarrow> boot_dir \<Rightarrow> bootloader_entry list outcome option" where
  "list_bootloader_entries E bl d =
     (case bootloader_kind_of bl of
        Inl e \<Rightarrow> Some (Inl (Err e))
      | Inr GRUBClassic \<Rightarrow>
          if user_cfg d \<noteq> None then list_grub_entries E d else Some (list_type1_entries E bl d)
      | Inr BLSCompatible \<Rightarrow> Some (list_type1_entries E bl d))"

section \<open>Rollback\<close>

definition rename_exchange_user_cfg :: "boot_dir \<Rightarrow> boot_dir outcome" where
  "rename_exchange_user_cfg d =
     (case (user_cfg_staged d, user_cfg d) of
        (Some s, Some _) \<Rightarrow> Inr (d\<lparr>user_cfg := Some s, user_cfg_staged := None\<rparr>)
      | _ \<Rightarrow> Inl (Err ''renameat''))"

definition rename_exchange_bls_entries :: "boot_dir \<Rightarrow> boot_dir outcome" where
  "rename_exchange_bls_entries d =
     (case (entries_staged d, entries d) of
        (Some s, Some _) \<Rightarrow> Inr (d\<lparr>entries := Some s, entries_staged := None\<rparr>)
      | _ \<Rightarrow> Inl (Err ''renameat''))"

definition grub_cfg_text :: "menu_entry list \<Rightarrow> string" where
  "grub_cfg_text es = get_efi_uuid_source @ concat (map menu_entry_fmt es)"

definition rollback_grub_uki_entries :: "boot_env \<Rightarrow> boot_dir \<Rightarrow> boot_dir outcome option" where
  "rollback_grub_uki_entries E d =
     obind (get_sorted_grub_uki_boot_entries_helper E d False) (\<lambda>es.
     case es of
       [a, b] \<Rightarrow> Some (rename_exchange_user_cfg (d\<lparr>user_cfg_staged := Some (grub_cfg_text [b, a])\<rparr>))
     | _ \<Rightarrow> Some (Inl (Panic ''assertion failed: menuentries.len() == 2'')))"

definition write_rollback_entry ::
    "boot_env \<Rightarrow> bls_config \<Rightarrow> (string \<times> string) list \<Rightarrow> (string \<times> string) list outcome" where
  "write_rollback_entry E cfg files =
     (let priority = (if bls_sort_key cfg = Some (secondary_sort_key ''bootc'')
                      then FILENAME_PRIORITY_SECONDARY else FILENAME_PRIORITY_PRIMARY);
          file_name = type1_entry_conf_file_name ''bootc'' (env_vfmt E (bls_version cfg)) priority
      in case bls_fmt (env_iter E cfg) cfg of
           Inl e \<Rightarrow> Inl (Panic ''a Display implementation returned an error unexpectedly'')
         | Inr text \<Rightarrow> Inr (atomic_write file_name text files))"

text \<open>
  The two entries in reverse menu order get the primary and the secondary key. A staged deployment
  is dropped: its entries and the file that records it. Without that file the operation fails after
  the staged entries are gone.
\<close>

definition rollback_composefs_entries ::
    "boot_env \<Rightarrow> bootloader \<Rightarrow> host \<Rightarrow> bool \<Rightarrow> boot_dir \<Rightarrow> (boot_dir \<times> bool) outcome" where
  "rollback_composefs_entries E bl h staged_file d =
     rbind (get_sorted_type1_boot_entries E bl d False) (\<lambda>all_configs.
     case all_configs of
       [c0, c1] \<Rightarrow>
         rbind (case staged (host_status_of h) of
                  None \<Rightarrow> Inr ()
                | Some s \<Rightarrow> if be_composefs s = None then Inl (Panic ''called `Option::unwrap()` on a `None` value'')
                            else if staged_file then Inr ()
                            else Inl (Err ''Removing staged deployment file'')) (\<lambda>_.
         rbind (write_rollback_entry E (c0\<lparr>bls_sort_key := Some (primary_sort_key ''bootc'')\<rparr>) []) (\<lambda>f0.
         rbind (write_rollback_entry E (c1\<lparr>bls_sort_key := Some (secondary_sort_key ''bootc'')\<rparr>) f0) (\<lambda>f1.
         rbind (rename_exchange_bls_entries (d\<lparr>entries_staged := Some f1\<rparr>)) (\<lambda>d'.
         Inr (d', staged_file \<and> staged (host_status_of h) = None)))))
     | _ \<Rightarrow> Inl (Panic ''assertion failed: all_configs.len() == 2''))"

definition composefs_rollback ::
    "boot_env \<Rightarrow> bootloader \<Rightarrow> host \<Rightarrow> bool \<Rightarrow> boot_dir \<Rightarrow> (boot_dir \<times> bool) outcome option" where
  "composefs_rollback E bl h staged_file d =
     obind (Some (lift_res (verify_transition (host_spec_of h)
              ((host_spec_of h)\<lparr>hs_boot_order := boot_order_swap (hs_boot_order (host_spec_of h))\<rparr>)))) (\<lambda>_.
     obind (Some (ok_or (Err ''No rollback available'') (rollback (host_status_of h)))) (\<lambda>rollback_status.
     obind (Some (ok_or (Err ''Rollback deployment not a composefs deployment'')
              (be_composefs rollback_status))) (\<lambda>rollback_entry.
     case bootloader_kind_of (cfs_bootloader rollback_entry) of
       Inl e \<Rightarrow> Some (Inl (Err e))
     | Inr GRUBClassic \<Rightarrow>
         (case boot_type rollback_entry of
            Bls \<Rightarrow> Some (rollback_composefs_entries E bl h staged_file d)
          | UkiBoot \<Rightarrow> obind (rollback_grub_uki_entries E d) (\<lambda>d'. Some (Inr (d', staged_file))))
     | Inr BLSCompatible \<Rightarrow> Some (rollback_composefs_entries E bl h staged_file d))))"

section \<open>Deleting entries\<close>

text \<open>Whether an entry file belongs to the deployment with the given digest.\<close>

definition conf_mentions :: "boot_env \<Rightarrow> string \<Rightarrow> string \<Rightarrow> bool outcome" where
  "conf_mentions E vrt cfg =
     rbind (lift_res (parse_bls_config cfg)) (\<lambda>bls_config.
     case bls_cfg_type bls_config of
       EFI key \<Rightarrow> Inr (str_contains vrt (efi_path key))
     | NonEFI _ _ options \<Rightarrow>
         rbind (ok_or (Err ''options not found in BLS config file'') options) (\<lambda>opts.
         Inr (env_cmdline_contains E opts vrt))
     | Unknown \<Rightarrow> Inl (Err ''Unknown BLS Config Type''))"

fun delete_conf_loop ::
    "boot_env \<Rightarrow> string \<Rightarrow> (string \<times> string) list \<Rightarrow> (string \<times> string) list outcome" where
  "delete_conf_loop E vrt [] = Inr []"
| "delete_conf_loop E vrt ((file_name, cfg) # rest) =
     (if \<not> ends_with ''.conf'' file_name then
        rbind (delete_conf_loop E vrt rest) (\<lambda>r. Inr ((file_name, cfg) # r))
      else rbind (conf_mentions E vrt cfg) (\<lambda>mentions.
           if mentions then Inr rest
           else rbind (delete_conf_loop E vrt rest) (\<lambda>r. Inr ((file_name, cfg) # r))))"

definition delete_type1_conf_file :: "boot_env \<Rightarrow> string \<Rightarrow> boot_dir \<Rightarrow> bool \<Rightarrow> boot_dir outcome" where
  "delete_type1_conf_file E vrt d deleting_staged =
     rbind (ok_or (Err ''Opening entries dir'') (if deleting_staged then entries_staged d else entries d)) (\<lambda>files.
     rbind (delete_conf_loop E vrt files) (\<lambda>files'.
     Inr (if deleting_staged then d\<lparr>entries_staged := None\<rparr> else d\<lparr>entries := Some files'\<rparr>)))"

definition remove_grub_menucfg_entry ::
    "boot_env \<Rightarrow> string \<Rightarrow> boot_dir \<Rightarrow> bool \<Rightarrow> boot_dir outcome option" where
  "remove_grub_menucfg_entry E uki d deleting_staged =
     (if deleting_staged then
        Some (case user_cfg_staged d of
                None \<Rightarrow> Inl (Err ''Deleting staged Menuentry'')
              | Some _ \<Rightarrow> Inr (d\<lparr>user_cfg_staged := None\<rparr>))
      else obind (get_sorted_grub_uki_boot_entries_helper E d False) (\<lambda>es.
           Some (rename_exchange_user_cfg (d\<lparr>user_cfg_staged :=
             Some (grub_cfg_text (filter (\<lambda>e. \<not> str_contains uki (chainloader (entry_body e))) es))\<rparr>))))"

definition delete_depl_boot_entries ::
    "boot_env \<Rightarrow> deployment_entry \<Rightarrow> boot_dir \<Rightarrow> bool \<Rightarrow> boot_dir outcome option" where
  "delete_depl_boot_entries E depl d deleting_staged =
     (let c = de_deployment depl in
      case bootloader_kind_of (cfs_bootloader c) of
        Inl e \<Rightarrow> Some (Inl (Err e))
      | Inr GRUBClassic \<Rightarrow>
          (case boot_type c of
             Bls \<Rightarrow> Some (delete_type1_conf_file E (verity c) d deleting_staged)
           | UkiBoot \<Rightarrow> remove_grub_menucfg_entry E (verity c) d deleting_staged)
      | Inr BLSCompatible \<Rightarrow> Some (delete_type1_conf_file E (verity c) d deleting_staged))"

section \<open>Reading back written entries\<close>

lemma ends_with_append [simp]: "ends_with p (s @ p)"
  by (simp add: ends_with_def)

lemma conf_name_ends: "ends_with ''.conf'' (type1_entry_conf_file_name os v prio)"
  using ends_with_append [of "''.conf''" "BLS_ENTRY_FILE_PREFIX @ replace_char (CHR ''-'') (CHR ''_'') os @ ''-'' @ v @ ''-'' @ prio"]
  by (simp add: type1_entry_conf_file_name_def)

text \<open>An entry that survives printing and parsing, with the iteration order that printing uses.\<close>

definition printable :: "boot_env \<Rightarrow> bls_config \<Rightarrow> bool" where
  "printable E c \<longleftrightarrow> bls_clean c \<and> extra_ok (env_iter E c) \<and> map_of (env_iter E c) = bls_extra c"

lemma clean_sort_keys:
  "clean (primary_sort_key ''bootc'')" "clean (secondary_sort_key ''bootc'')"
  by (simp_all add: clean_def primary_sort_key_def secondary_sort_key_def SORTKEY_PRIORITY_PRIMARY_def
      SORTKEY_PRIORITY_SECONDARY_def no_lead_solid no_trail_solid)

lemma sort_keys_less: "ord_cmp (primary_sort_key os) (secondary_sort_key os) = Less"
  by (simp add: primary_sort_key_def secondary_sort_key_def append_less_iff SORTKEY_PRIORITY_PRIMARY_def
      SORTKEY_PRIORITY_SECONDARY_def less_char_def)

lemma sort_keys_neq: "primary_sort_key os \<noteq> secondary_sort_key os"
  using sort_keys_less [of os] by auto

lemma bls_clean_sort_key: "bls_clean c \<Longrightarrow> clean k \<Longrightarrow> bls_clean (c\<lparr>bls_sort_key := Some k\<rparr>)"
  by (simp add: bls_clean_def)

lemma two_names_differ:
  "type1_entry_conf_file_name os v FILENAME_PRIORITY_PRIMARY
     \<noteq> type1_entry_conf_file_name os w FILENAME_PRIORITY_SECONDARY"
proof
  assume "type1_entry_conf_file_name os v FILENAME_PRIORITY_PRIMARY
     = type1_entry_conf_file_name os w FILENAME_PRIORITY_SECONDARY"
  then have "(v @ ''-'') @ ''1.conf'' = (w @ ''-'') @ ''0.conf''"
    by (simp add: type1_entry_conf_file_name_def FILENAME_PRIORITY_PRIMARY_def FILENAME_PRIORITY_SECONDARY_def)
  then show False by (subst (asm) append_eq_append_conv) simp_all
qed

text \<open>The files that a rollback writes for the two entries.\<close>

definition rollback_files :: "boot_env \<Rightarrow> bls_config \<Rightarrow> bls_config \<Rightarrow> (bls_config \<times> string) list" where
  "rollback_files E c0 c1 =
     [(c0\<lparr>bls_sort_key := Some (primary_sort_key ''bootc'')\<rparr>,
       type1_entry_conf_file_name ''bootc'' (env_vfmt E (bls_version c0)) FILENAME_PRIORITY_PRIMARY),
      (c1\<lparr>bls_sort_key := Some (secondary_sort_key ''bootc'')\<rparr>,
       type1_entry_conf_file_name ''bootc'' (env_vfmt E (bls_version c1)) FILENAME_PRIORITY_SECONDARY)]"

lemma rollback_writes:
  assumes "printable E (c0\<lparr>bls_sort_key := Some (primary_sort_key ''bootc'')\<rparr>)"
    and "printable E (c1\<lparr>bls_sort_key := Some (secondary_sort_key ''bootc'')\<rparr>)"
  shows "\<exists>files. rbind (write_rollback_entry E (c0\<lparr>bls_sort_key := Some (primary_sort_key ''bootc'')\<rparr>) [])
      (write_rollback_entry E (c1\<lparr>bls_sort_key := Some (secondary_sort_key ''bootc'')\<rparr>)) = Inr files
    \<and> read_configs files = Inr (rollback_files E c0 c1)"
proof -
  let ?c0 = "c0\<lparr>bls_sort_key := Some (primary_sort_key ''bootc'')\<rparr>"
  let ?c1 = "c1\<lparr>bls_sort_key := Some (secondary_sort_key ''bootc'')\<rparr>"
  let ?n0 = "type1_entry_conf_file_name ''bootc'' (env_vfmt E (bls_version c0)) FILENAME_PRIORITY_PRIMARY"
  let ?n1 = "type1_entry_conf_file_name ''bootc'' (env_vfmt E (bls_version c1)) FILENAME_PRIORITY_SECONDARY"
  obtain t0 where t0: "bls_fmt (env_iter E ?c0) ?c0 = Inr t0" "parse_bls_config t0 = Inr ?c0"
    using bls_roundtrip assms(1) unfolding printable_def by blast
  obtain t1 where t1: "bls_fmt (env_iter E ?c1) ?c1 = Inr t1" "parse_bls_config t1 = Inr ?c1"
    using bls_roundtrip assms(2) unfolding printable_def by blast
  have w: "write_rollback_entry E ?c0 [] = Inr [(?n0, t0)]"
    "write_rollback_entry E ?c1 [(?n0, t0)] = Inr [(?n0, t0), (?n1, t1)]"
    using t0(1) t1(1) sort_keys_neq two_names_differ
    by (simp_all add: write_rollback_entry_def atomic_write_def)
  have "read_configs [(?n0, t0), (?n1, t1)] = Inr (rollback_files E c0 c1)"
    using t0(2) t1(2) conf_name_ends by (simp add: lift_res_def rollback_files_def)
  with w show ?thesis by (simp only: rbind_simps) blast
qed

lemma sort_by_two: "sort_by cmp [x, y] = (if cmp x y = Greater then [y, x] else [x, y])"
  by (simp add: sort_by_def)

lemma sort_by_two_reverse:
  assumes "cmp x y \<noteq> Equal"
  shows "sort_by (\<lambda>a b. ord_reverse (cmp a b)) [x, y] = rev (sort_by cmp [x, y])"
  using assms by (cases "cmp x y") (simp_all add: sort_by_two)

lemma menu_cmp_descending: "menu_cmp E bl False = (\<lambda>a b. ord_reverse (menu_cmp E bl True a b))"
  by (simp add: menu_cmp_def fun_eq_iff Let_def)

text \<open>
  The state after a rollback of a directory with two entries, with the menu it has: the former second
  entry is written with the primary key and name.
\<close>

definition staged_droppable :: "host \<Rightarrow> bool \<Rightarrow> bool" where
  "staged_droppable h staged_file =
     (case staged (host_status_of h) of None \<Rightarrow> True | Some s \<Rightarrow> be_composefs s \<noteq> None \<and> staged_file)"

lemma sorted_type1_two:
  assumes "entries d = Some files" and "read_configs files = Inr cs" and "bl \<noteq> BootloaderNone"
  shows "get_sorted_type1_boot_entries E bl d asc = Inr (map fst (sort_by (menu_cmp E bl asc) cs))"
  using assms by (simp add: get_sorted_type1_boot_entries_def get_sorted_type1_boot_entries_helper_def)

lemma rollback_two_entries:
  assumes "entries d = Some files" and "read_configs files = Inr [x, y]" and "bl \<noteq> BootloaderNone"
    and "menu_cmp E bl True x y \<noteq> Equal"
    and "get_sorted_type1_boot_entries E bl d True = Inr [p, s]"
    and "printable E (s\<lparr>bls_sort_key := Some (primary_sort_key ''bootc'')\<rparr>)"
    and "printable E (p\<lparr>bls_sort_key := Some (secondary_sort_key ''bootc'')\<rparr>)"
    and "staged_droppable h sf"
  shows "\<exists>d' sf' fs. rollback_composefs_entries E bl h sf d = Inr (d', sf') \<and> entries_staged d' = None
    \<and> entries d' = Some fs \<and> read_configs fs = Inr (rollback_files E s p)"
proof -
  have "get_sorted_type1_boot_entries E bl d False = Inr (rev [p, s])"
    using assms(5) sort_by_two_reverse [of "menu_cmp E bl True" x y] assms(4)
    unfolding sorted_type1_two [OF assms(1-3)] menu_cmp_descending by (simp add: rev_map [symmetric])
  moreover obtain fs where fs: "rbind (write_rollback_entry E (s\<lparr>bls_sort_key := Some (primary_sort_key ''bootc'')\<rparr>) [])
      (write_rollback_entry E (p\<lparr>bls_sort_key := Some (secondary_sort_key ''bootc'')\<rparr>)) = Inr fs"
      "read_configs fs = Inr (rollback_files E s p)"
    using rollback_writes [OF assms(6,7)] by blast
  ultimately have "rollback_composefs_entries E bl h sf d =
      Inr (d\<lparr>entries := Some fs, entries_staged := None\<rparr>, sf \<and> staged (host_status_of h) = None)"
    using assms(1,8) by (auto simp: rollback_composefs_entries_def rename_exchange_bls_entries_def rbind_Inr_iff
        staged_droppable_def split: option.splits)
  with fs(2) show ?thesis by simp
qed

text \<open>The order of the two files that a rollback writes.\<close>

lemma rollback_files_order:
  assumes "bl = Systemd \<or> bl \<noteq> BootloaderNone \<and> env_vfmt E (bls_version c0) = env_vfmt E (bls_version c1)"
  shows "menu_cmp E bl True (rollback_files E c0 c1 ! 0) (rollback_files E c0 c1 ! 1) = Less"
  using assms sort_keys_less [of "''bootc''"]
  by (cases bl) (auto simp: menu_cmp_def rollback_files_def bls_cmp_def opt_cmp_def ord_cmp_def
      type1_entry_conf_file_name_def append_less_iff FILENAME_PRIORITY_PRIMARY_def
      FILENAME_PRIORITY_SECONDARY_def less_char_def)

lemma sorted_two_less:
  assumes "entries d = Some fs" and "read_configs fs = Inr cs" and "bl \<noteq> BootloaderNone"
  shows "length cs = 2 \<Longrightarrow> menu_cmp E bl True (cs ! 0) (cs ! 1) = Less \<Longrightarrow>
    get_sorted_type1_boot_entries E bl d True = Inr (map fst cs)"
  unfolding sorted_type1_two [OF assms] by (auto simp: length_Suc_conv numeral_2_eq_2 sort_by_two)

lemma rollback_once:
  assumes "entries d = Some files" and "read_configs files = Inr [x, y]" and "bl \<noteq> BootloaderNone"
    and "menu_cmp E bl True x y \<noteq> Equal"
    and "get_sorted_type1_boot_entries E bl d True = Inr [p, s]"
    and "bl = Systemd \<or> env_vfmt E (bls_version p) = env_vfmt E (bls_version s)"
    and "printable E (s\<lparr>bls_sort_key := Some (primary_sort_key ''bootc'')\<rparr>)"
    and "printable E (p\<lparr>bls_sort_key := Some (secondary_sort_key ''bootc'')\<rparr>)"
    and "staged_droppable h sf"
  obtains d' sf' fs where "rollback_composefs_entries E bl h sf d = Inr (d', sf')"
    and "entries_staged d' = None" and "entries d' = Some fs" and "read_configs fs = Inr (rollback_files E s p)"
    and "get_sorted_type1_boot_entries E bl d' True =
        Inr [s\<lparr>bls_sort_key := Some (primary_sort_key ''bootc'')\<rparr>,
             p\<lparr>bls_sort_key := Some (secondary_sort_key ''bootc'')\<rparr>]"
proof -
  obtain d' sf' fs where d': "rollback_composefs_entries E bl h sf d = Inr (d', sf')"
      "entries_staged d' = None" "entries d' = Some fs" "read_configs fs = Inr (rollback_files E s p)"
    using rollback_two_entries [OF assms(1-5,7-9)] by blast
  have "get_sorted_type1_boot_entries E bl d' True =
      Inr [s\<lparr>bls_sort_key := Some (primary_sort_key ''bootc'')\<rparr>,
           p\<lparr>bls_sort_key := Some (secondary_sort_key ''bootc'')\<rparr>]"
    using sorted_two_less [OF d'(3,4) assms(3)] rollback_files_order [of bl E s p] assms(3,6)
    by (auto simp: rollback_files_def)
  with d' show thesis by (rule that)
qed

lemma rollback_twice:
  assumes "entries d = Some files" and "read_configs files = Inr [x, y]" and "bl \<noteq> BootloaderNone"
    and "menu_cmp E bl True x y \<noteq> Equal"
    and "get_sorted_type1_boot_entries E bl d True = Inr [p, s]"
    and "bl = Systemd \<or> env_vfmt E (bls_version p) = env_vfmt E (bls_version s)"
    and "\<forall>c\<in>{p, s}. \<forall>k\<in>{primary_sort_key ''bootc'', secondary_sort_key ''bootc''}.
           printable E (c\<lparr>bls_sort_key := Some k\<rparr>)"
    and "staged_droppable h sf" and "staged_droppable h2 sf2"
  obtains d1 sf1 d2 sf3 where "rollback_composefs_entries E bl h sf d = Inr (d1, sf1)"
    and "entries_staged d1 = None"
    and "get_sorted_type1_boot_entries E bl d1 True =
        Inr [s\<lparr>bls_sort_key := Some (primary_sort_key ''bootc'')\<rparr>,
             p\<lparr>bls_sort_key := Some (secondary_sort_key ''bootc'')\<rparr>]"
    and "rollback_composefs_entries E bl h2 sf2 d1 = Inr (d2, sf3)"
    and "get_sorted_type1_boot_entries E bl d2 True =
        Inr [p\<lparr>bls_sort_key := Some (primary_sort_key ''bootc'')\<rparr>,
             s\<lparr>bls_sort_key := Some (secondary_sort_key ''bootc'')\<rparr>]"
proof -
  obtain d1 sf1 fs where d1: "rollback_composefs_entries E bl h sf d = Inr (d1, sf1)"
      "entries_staged d1 = None" "entries d1 = Some fs" "read_configs fs = Inr (rollback_files E s p)"
    and m1: "get_sorted_type1_boot_entries E bl d1 True =
        Inr [s\<lparr>bls_sort_key := Some (primary_sort_key ''bootc'')\<rparr>,
             p\<lparr>bls_sort_key := Some (secondary_sort_key ''bootc'')\<rparr>]"
    by (rule rollback_once [OF assms(1-6) _ _ assms(8)]) (use assms(7) in auto)
  obtain d2 sf3 where "rollback_composefs_entries E bl h2 sf2 d1 = Inr (d2, sf3)"
    and "get_sorted_type1_boot_entries E bl d2 True =
        Inr [p\<lparr>bls_sort_key := Some (primary_sort_key ''bootc'')\<rparr>,
             s\<lparr>bls_sort_key := Some (secondary_sort_key ''bootc'')\<rparr>]"
    by (rule rollback_once [OF d1(3) d1(4) [unfolded rollback_files_def] assms(3) _ m1 _ _ _ assms(9)])
      (use rollback_files_order [of bl E s p] assms(3,6,7) in \<open>auto simp: rollback_files_def\<close>)
  with d1(1,2) m1 show thesis by (rule that)
qed

text \<open>
  C5. With systemd-boot, or with GRUB when both entries have the same version, rolling back a directory with two
  entries that are not equal in the menu order swaps them in the menu, drops the staged entries and,
  done again, restores the menu order. Only sort keys change. With GRUB and different versions the order stays.
\<close>
theorem rollback_swaps_menu:
  assumes "entries d = Some files" and "read_configs files = Inr [x, y]" and "bl \<noteq> BootloaderNone"
    and "menu_cmp E bl True x y \<noteq> Equal"
    and "get_sorted_type1_boot_entries E bl d True = Inr [p, s]"
    and "bl = Systemd \<or> env_vfmt E (bls_version p) = env_vfmt E (bls_version s)"
    and "\<forall>c\<in>{p, s}. \<forall>k\<in>{primary_sort_key ''bootc'', secondary_sort_key ''bootc''}.
           printable E (c\<lparr>bls_sort_key := Some k\<rparr>)"
    and "staged_droppable h sf" and "staged_droppable h2 sf2"
  shows "\<exists>d1 sf1 d2 sf3. rollback_composefs_entries E bl h sf d = Inr (d1, sf1)
    \<and> entries_staged d1 = None
    \<and> get_sorted_type1_boot_entries E bl d1 True =
        Inr [s\<lparr>bls_sort_key := Some (primary_sort_key ''bootc'')\<rparr>,
             p\<lparr>bls_sort_key := Some (secondary_sort_key ''bootc'')\<rparr>]
    \<and> rollback_composefs_entries E bl h2 sf2 d1 = Inr (d2, sf3)
    \<and> get_sorted_type1_boot_entries E bl d2 True =
        Inr [p\<lparr>bls_sort_key := Some (primary_sort_key ''bootc'')\<rparr>,
             s\<lparr>bls_sort_key := Some (secondary_sort_key ''bootc'')\<rparr>]"
  by (rule rollback_twice [OF assms]) blast

section \<open>A concrete directory\<close>

definition demo_env :: boot_env where
  "demo_env = \<lparr>env_vcmp = ord_cmp, env_vfmt = id, env_iter = (\<lambda>_. []), env_efi_ext = ''.efi'',
     env_find_digest = (\<lambda>_. Inr None), env_cmdline_contains = (\<lambda>s d. str_contains d s), env_nom = nom_ref\<rparr>"

definition demo_entry :: "string \<Rightarrow> string \<Rightarrow> string \<Rightarrow> bls_config" where
  "demo_entry version digest key =
     bls_default\<lparr>bls_title := Some ''Linux'', bls_version := version,
       bls_cfg_type := EFI (Uki (''/EFI/Linux/bootc/bootc_composefs-'' @ digest @ ''.efi'')),
       bls_sort_key := Some key\<rparr>"

definition demo_text :: "bls_config \<Rightarrow> string" where
  "demo_text c = (case bls_fmt [] c of Inr t \<Rightarrow> t | Inl _ \<Rightarrow> [])"

definition demo_dir :: "bls_config \<Rightarrow> bls_config \<Rightarrow> boot_dir" where
  "demo_dir a b = \<lparr>
     entries = Some [(type1_entry_conf_file_name ''bootc'' (bls_version a) FILENAME_PRIORITY_PRIMARY, demo_text a),
                     (type1_entry_conf_file_name ''bootc'' (bls_version b) FILENAME_PRIORITY_SECONDARY, demo_text b)],
     entries_staged = Some [(''x.conf'', '''')], user_cfg = None, user_cfg_staged = None\<rparr>"

lemma demo_vfmt [simp]: "env_vfmt demo_env = id"
  by (simp add: demo_env_def)

lemma demo_entry_sort_key [simp]: "(demo_entry v g k)\<lparr>bls_sort_key := Some l\<rparr> = demo_entry v g l"
  by (simp add: demo_entry_def)

lemma demo_entry_fields [simp]:
  "bls_version (demo_entry v g k) = v" "bls_sort_key (demo_entry v g k) = Some k"
  "bls_machine_id (demo_entry v g k) = None"
  by (simp_all add: demo_entry_def bls_default_def)

lemma demo_printable:
  assumes "clean v" and "clean g" and "clean k"
  shows "printable demo_env (demo_entry v g k)"
  using assms by (simp add: printable_def demo_env_def demo_entry_def bls_default_def bls_clean_def cfg_clean_def
      extra_ok_def clean_def no_lead_solid no_trail_solid)

lemma demo_parse:
  assumes "printable demo_env c"
  shows "parse_bls_config (demo_text c) = Inr c"
  using assms bls_roundtrip [of c "[]"] by (auto simp: printable_def demo_env_def demo_text_def)

lemma demo_read:
  assumes "printable demo_env a" and "printable demo_env b"
  shows "\<exists>files. entries (demo_dir a b) = Some files
    \<and> read_configs files =
      Inr [(a, type1_entry_conf_file_name ''bootc'' (bls_version a) FILENAME_PRIORITY_PRIMARY),
           (b, type1_entry_conf_file_name ''bootc'' (bls_version b) FILENAME_PRIORITY_SECONDARY)]"
  using demo_parse [OF assms(1)] demo_parse [OF assms(2)] conf_name_ends
  by (simp add: demo_dir_def lift_res_def)

lemma demo_sorted:
  assumes "printable demo_env a" and "printable demo_env b" and "bl \<noteq> BootloaderNone"
    and "menu_cmp demo_env bl True
          (a, type1_entry_conf_file_name ''bootc'' (bls_version a) FILENAME_PRIORITY_PRIMARY)
          (b, type1_entry_conf_file_name ''bootc'' (bls_version b) FILENAME_PRIORITY_SECONDARY) = Less"
  shows "get_sorted_type1_boot_entries demo_env bl (demo_dir a b) True = Inr [a, b]"
  using demo_read [OF assms(1,2)] sorted_two_less [of "demo_dir a b" _ _ bl demo_env] assms(3,4) by auto

lemma demo_keys [simp]: "printable demo_env (demo_entry ''41'' ''cd'' (primary_sort_key ''bootc''))"
  "printable demo_env (demo_entry ''41'' ''cd'' (secondary_sort_key ''bootc''))"
  "printable demo_env (demo_entry ''42'' ''ab'' (primary_sort_key ''bootc''))"
  "printable demo_env (demo_entry ''42'' ''ab'' (secondary_sort_key ''bootc''))"
  by (rule demo_printable; use clean_sort_keys in \<open>simp add: clean_def no_lead_solid no_trail_solid\<close>)+

lemma demo_not_staged [simp]: "staged_droppable host_default sf"
  by (simp add: staged_droppable_def host_default_def host_new_def host_status_default_def)

abbreviation demo_new :: "string \<Rightarrow> bls_config" where
  "demo_new k \<equiv> demo_entry ''42'' ''ab'' k"

abbreviation demo_old :: "string \<Rightarrow> bls_config" where
  "demo_old k \<equiv> demo_entry ''41'' ''cd'' k"

theorem rollback_swaps_menu_witness:
  "let p = primary_sort_key ''bootc''; s = secondary_sort_key ''bootc''; d = demo_dir (demo_new p) (demo_old s)
   in \<exists>d1 sf1 d2 sf3. rollback_composefs_entries demo_env Systemd host_default False d = Inr (d1, sf1)
    \<and> entries_staged d1 = None
    \<and> get_sorted_type1_boot_entries demo_env Systemd d1 True = Inr [demo_old p, demo_new s]
    \<and> rollback_composefs_entries demo_env Systemd host_default False d1 = Inr (d2, sf3)
    \<and> get_sorted_type1_boot_entries demo_env Systemd d2 True = Inr [demo_new p, demo_old s]"
proof -
  let ?p = "primary_sort_key ''bootc''" and ?s = "secondary_sort_key ''bootc''"
  let ?d = "demo_dir (demo_new ?p) (demo_old ?s)"
  obtain files where files: "entries ?d = Some files" "read_configs files =
      Inr [(demo_new ?p, type1_entry_conf_file_name ''bootc'' ''42'' FILENAME_PRIORITY_PRIMARY),
           (demo_old ?s, type1_entry_conf_file_name ''bootc'' ''41'' FILENAME_PRIORITY_SECONDARY)]"
    using demo_read [of "demo_new ?p" "demo_old ?s"] by auto
  have less: "menu_cmp demo_env Systemd True (demo_new ?p, n) (demo_old ?s, m) = Less" for n m
    using sort_keys_less [of "''bootc''"] sort_keys_neq [of "''bootc''"]
    by (simp add: menu_cmp_def bls_cmp_def opt_cmp_def)
  have sorted: "get_sorted_type1_boot_entries demo_env Systemd ?d True = Inr [demo_new ?p, demo_old ?s]"
    by (rule demo_sorted) (simp_all add: less)
  show ?thesis
    unfolding Let_def
    using rollback_swaps_menu [OF files _ _ sorted, of host_default False host_default False] less by simp
qed

text \<open>
  With GRUB a rollback has no effect when the version of the first entry's file name exceeds
  that of the second: GRUB ignores sort keys, the version precedes the priority in the file name, and
  the menu lists the same deployment first as before.
\<close>
theorem grub_rollback_ineffective:
  assumes "entries d = Some files" and "read_configs files = Inr [x, y]" and "bl \<in> {Grub, GrubCC}"
    and "menu_cmp E bl True x y \<noteq> Equal"
    and "get_sorted_type1_boot_entries E bl d True = Inr [p, s]"
    and "env_vfmt E (bls_version s) @ ''-1.conf'' < env_vfmt E (bls_version p) @ ''-0.conf''"
    and "printable E (s\<lparr>bls_sort_key := Some (primary_sort_key ''bootc'')\<rparr>)"
    and "printable E (p\<lparr>bls_sort_key := Some (secondary_sort_key ''bootc'')\<rparr>)"
    and "staged_droppable h sf"
  shows "\<exists>d' sf'. rollback_composefs_entries E bl h sf d = Inr (d', sf')
    \<and> get_sorted_type1_boot_entries E bl d' True =
        Inr [p\<lparr>bls_sort_key := Some (secondary_sort_key ''bootc'')\<rparr>,
             s\<lparr>bls_sort_key := Some (primary_sort_key ''bootc'')\<rparr>]"
proof -
  have bl: "bl \<noteq> BootloaderNone" using assms(3) by auto
  obtain d' sf' fs where d': "rollback_composefs_entries E bl h sf d = Inr (d', sf')"
      "entries d' = Some fs" "read_configs fs = Inr (rollback_files E s p)"
    using rollback_two_entries [OF assms(1,2) bl assms(4,5,7-9)] by auto
  have "menu_cmp E bl True (rollback_files E s p ! 0) (rollback_files E s p ! 1) = Greater"
    using assms(3,6) by (auto simp: menu_cmp_def rollback_files_def ord_cmp_def
        type1_entry_conf_file_name_def append_less_iff FILENAME_PRIORITY_PRIMARY_def FILENAME_PRIORITY_SECONDARY_def)
  then show ?thesis
    using d' sorted_type1_two [OF d'(2,3) bl, of E True] by (simp add: rollback_files_def sort_by_two)
qed

theorem grub_rollback_ineffective_witness:
  "let p = primary_sort_key ''bootc''; s = secondary_sort_key ''bootc''; d = demo_dir (demo_new p) (demo_old s)
   in \<exists>d' sf'. rollback_composefs_entries demo_env Grub host_default False d = Inr (d', sf')
    \<and> get_sorted_type1_boot_entries demo_env Grub d' True = Inr [demo_new s, demo_old p]"
proof -
  let ?p = "primary_sort_key ''bootc''" and ?s = "secondary_sort_key ''bootc''"
  let ?d = "demo_dir (demo_new ?p) (demo_old ?s)"
  let ?n = "type1_entry_conf_file_name ''bootc'' ''42'' FILENAME_PRIORITY_PRIMARY"
  let ?m = "type1_entry_conf_file_name ''bootc'' ''41'' FILENAME_PRIORITY_SECONDARY"
  obtain files where files: "entries ?d = Some files"
      "read_configs files = Inr [(demo_new ?p, ?n), (demo_old ?s, ?m)]"
    using demo_read [of "demo_new ?p" "demo_old ?s"] by auto
  have less: "menu_cmp demo_env Grub True (demo_new ?p, ?n) (demo_old ?s, ?m) = Less"
    by (simp add: menu_cmp_def ord_cmp_def type1_entry_conf_file_name_def append_less_iff less_char_def)
  have sorted: "get_sorted_type1_boot_entries demo_env Grub ?d True = Inr [demo_new ?p, demo_old ?s]"
    by (rule demo_sorted) (simp_all add: less)
  show ?thesis
    unfolding Let_def
    using grub_rollback_ineffective [OF files _ _ sorted, of host_default False] less
    by (simp add: less_char_def)
qed

section \<open>GRUB menus\<close>

lemma parse_grub_cfg_text:
  assumes "nom_laws N" and "list_all entry_ok es"
  shows "parse_grub_menuentry_file N (grub_cfg_text es) = Some (Inr es)"
  unfolding grub_cfg_text_def
  by (rule nom_laws.parse_printed_file [OF assms]) (simp add: get_efi_uuid_source_def EFI_UUID_FILE_def)

lemma demo_menu_ok:
  "list_all entry_ok [menu_entry_new ''.efi'' ''Fedora 42'' ''ab'', menu_entry_new ''.efi'' ''Fedora 41'' ''cd'']"
  by (simp add: entry_ok_def body_ok_def menu_entry_new_def clean_def no_lead_solid no_trail_solid
      brackets_ok_def menuentry_body_fmt_def writeln_def get_uki_name_def BOOTC_UKI_DIR_def
      UKI_NAME_PREFIX_def TYPE1_BOOT_DIR_PREFIX_def path_sep_def backslash_def)

abbreviation demo_menu_dir :: boot_dir where
  "demo_menu_dir \<equiv> \<lparr>entries = None, entries_staged = None,
     user_cfg = Some (grub_cfg_text [menu_entry_new ''.efi'' ''Fedora 42'' ''ab'', menu_entry_new ''.efi'' ''Fedora 41'' ''cd'']),
     user_cfg_staged = None\<rparr>"

text \<open>
  Rolling back a GRUB menu of two entries swaps them and leaves no staged menu; rolling back
  again restores the menu file.
\<close>
theorem grub_uki_rollback_involutive:
  assumes "nom_laws (env_nom E)" and "list_all entry_ok [a, b]" and "user_cfg d = Some (grub_cfg_text [a, b])"
  shows "\<exists>d'. rollback_grub_uki_entries E d = Some (Inr d')
    \<and> get_sorted_grub_uki_boot_entries_helper E d' False = Some (Inr [b, a])
    \<and> user_cfg_staged d' = None \<and> entries d' = entries d
    \<and> rollback_grub_uki_entries E d' = Some (Inr (d\<lparr>user_cfg_staged := None\<rparr>))"
proof -
  have p: "parse_grub_menuentry_file (env_nom E) (grub_cfg_text [a, b]) = Some (Inr [a, b])"
    "parse_grub_menuentry_file (env_nom E) (grub_cfg_text [b, a]) = Some (Inr [b, a])"
    using parse_grub_cfg_text [OF assms(1), of "[a, b]"] parse_grub_cfg_text [OF assms(1), of "[b, a]"] assms(2)
    by simp_all
  show ?thesis
    by (rule exI [of _ "d\<lparr>user_cfg := Some (grub_cfg_text [b, a]), user_cfg_staged := None\<rparr>"])
      (use p assms(3) in \<open>simp add: rollback_grub_uki_entries_def get_sorted_grub_uki_boot_entries_helper_def
        rename_exchange_user_cfg_def\<close>)
qed

theorem grub_uki_rollback_involutive_witness:
  "let a = menu_entry_new ''.efi'' ''Fedora 42'' ''ab''; b = menu_entry_new ''.efi'' ''Fedora 41'' ''cd''
   in \<exists>d'. rollback_grub_uki_entries demo_env demo_menu_dir = Some (Inr d')
    \<and> get_sorted_grub_uki_boot_entries_helper demo_env d' False = Some (Inr [b, a])
    \<and> user_cfg_staged d' = None \<and> entries d' = entries demo_menu_dir
    \<and> rollback_grub_uki_entries demo_env d' = Some (Inr demo_menu_dir)"
  unfolding Let_def
  using grub_uki_rollback_involutive [OF _ demo_menu_ok, of demo_env demo_menu_dir] nom_ref.nom_laws_axioms
  by (simp add: demo_env_def)

text \<open>
  Deleting a deployment from a GRUB menu keeps exactly the entries whose chainloader does not
  mention its digest, in order.
\<close>
theorem delete_uki_entry_filters:
  assumes "nom_laws (env_nom E)" and "user_cfg d = Some s"
    and "parse_grub_menuentry_file (env_nom E) s = Some (Inr es)" and "list_all entry_ok es"
  shows "\<exists>d'. remove_grub_menucfg_entry E uki d False = Some (Inr d')
    \<and> get_sorted_grub_uki_boot_entries_helper E d' False =
        Some (Inr (filter (\<lambda>e. \<not> str_contains uki (chainloader (entry_body e))) es))
    \<and> user_cfg_staged d' = None \<and> entries d' = entries d \<and> entries_staged d' = entries_staged d"
proof -
  let ?es = "filter (\<lambda>e. \<not> str_contains uki (chainloader (entry_body e))) es"
  have "parse_grub_menuentry_file (env_nom E) (grub_cfg_text ?es) = Some (Inr ?es)"
    using assms(4) by (intro parse_grub_cfg_text [OF assms(1)]) (auto simp: list_all_iff)
  then show ?thesis
    using assms(2,3) by (simp add: remove_grub_menucfg_entry_def get_sorted_grub_uki_boot_entries_helper_def
        rename_exchange_user_cfg_def)
qed

theorem delete_uki_entry_filters_witness:
  "\<exists>d'. remove_grub_menucfg_entry demo_env ''cd'' demo_menu_dir False = Some (Inr d')
    \<and> get_sorted_grub_uki_boot_entries_helper demo_env d' False = Some (Inr [menu_entry_new ''.efi'' ''Fedora 42'' ''ab''])
    \<and> user_cfg_staged d' = None \<and> entries d' = None \<and> entries_staged d' = None"
proof -
  have N: "nom_laws (env_nom demo_env)" using nom_ref.nom_laws_axioms by (simp add: demo_env_def)
  show ?thesis
    using delete_uki_entry_filters [OF N _ parse_grub_cfg_text [OF N demo_menu_ok] demo_menu_ok, of demo_menu_dir "''cd''"]
    by (simp add: menu_entry_new_def get_uki_name_def BOOTC_UKI_DIR_def UKI_NAME_PREFIX_def
        TYPE1_BOOT_DIR_PREFIX_def starts_with_def path_sep_def)
qed

section \<open>Deleting an entry file\<close>

text \<open>
  The entry files of a deployment, the files that the scan can read, and the result of removing the
  first element with a property from a list.
\<close>

definition belongs :: "boot_env \<Rightarrow> string \<Rightarrow> string \<times> string \<Rightarrow> bool" where
  "belongs E vrt f \<longleftrightarrow> ends_with ''.conf'' (fst f) \<and> conf_mentions E vrt (snd f) = Inr True"

definition scannable :: "boot_env \<Rightarrow> string \<Rightarrow> string \<times> string \<Rightarrow> bool" where
  "scannable E vrt f \<longleftrightarrow> (ends_with ''.conf'' (fst f) \<longrightarrow> is_ok (conf_mentions E vrt (snd f)))"

fun remove_first :: "('a \<Rightarrow> bool) \<Rightarrow> 'a list \<Rightarrow> 'a list" where
  "remove_first P [] = []"
| "remove_first P (x # xs) = (if P x then xs else x # remove_first P xs)"

lemma remove_first_cases:
  "remove_first P xs = xs \<and> list_all (\<lambda>x. \<not> P x) xs
   \<or> (\<exists>before x after. xs = before @ x # after \<and> remove_first P xs = before @ after \<and> P x)"
proof (induction xs)
  case (Cons a xs)
  show ?case
  proof (cases "P a")
    case True
    then have "a # xs = [] @ a # xs \<and> remove_first P (a # xs) = [] @ xs \<and> P a" by simp
    then show ?thesis by blast
  next
    case False
    from Cons.IH show ?thesis
    proof (elim disjE exE)
      fix before x after
      assume "xs = before @ x # after \<and> remove_first P xs = before @ after \<and> P x"
      with False have "a # xs = (a # before) @ x # after \<and> remove_first P (a # xs) = (a # before) @ after \<and> P x"
        by auto
      then show ?thesis by blast
    qed (use False in simp)
  qed
qed simp

lemma delete_conf_loop_removes:
  "list_all (scannable E vrt) files \<Longrightarrow> delete_conf_loop E vrt files = Inr (remove_first (belongs E vrt) files)"
  by (induction E vrt files rule: delete_conf_loop.induct)
    (auto simp: scannable_def belongs_def is_ok_iff)

text \<open>
  Deleting the entry file of a deployment, when every entry file can be read, removes the first
  file that mentions the digest of the deployment, or none when there is none; every other file and
  the GRUB configuration stay as they are. The staged directory is removed as a whole.
\<close>
theorem delete_type1_removes_one:
  assumes "entries d = Some files" and "entries_staged d = Some staged_files"
    and "list_all (scannable E vrt) (files @ staged_files)"
  shows "delete_type1_conf_file E vrt d False = Inr (d\<lparr>entries := Some (remove_first (belongs E vrt) files)\<rparr>)
    \<and> delete_type1_conf_file E vrt d True = Inr (d\<lparr>entries_staged := None\<rparr>)
    \<and> (remove_first (belongs E vrt) files = files \<and> list_all (\<lambda>f. \<not> belongs E vrt f) files
       \<or> (\<exists>before f after. files = before @ f # after
            \<and> remove_first (belongs E vrt) files = before @ after \<and> belongs E vrt f))"
  using assms delete_conf_loop_removes [of E vrt files] delete_conf_loop_removes [of E vrt staged_files]
    remove_first_cases [of "belongs E vrt" files]
  by (simp add: delete_type1_conf_file_def)

theorem delete_type1_removes_one_witness:
  "let d = demo_dir (demo_new (primary_sort_key ''bootc'')) (demo_old (secondary_sort_key ''bootc''))
   in delete_type1_conf_file demo_env ''cd'' (d\<lparr>entries_staged := Some []\<rparr>) False
      = Inr (d\<lparr>entries := Some (butlast (the (entries d))), entries_staged := Some []\<rparr>)"
proof -
  let ?p = "primary_sort_key ''bootc''" and ?s = "secondary_sort_key ''bootc''"
  let ?d = "(demo_dir (demo_new ?p) (demo_old ?s))\<lparr>entries_staged := Some []\<rparr>"
  let ?a = "(type1_entry_conf_file_name ''bootc'' ''42'' FILENAME_PRIORITY_PRIMARY, demo_text (demo_new ?p))"
  let ?b = "(type1_entry_conf_file_name ''bootc'' ''41'' FILENAME_PRIORITY_SECONDARY, demo_text (demo_old ?s))"
  have m: "conf_mentions demo_env ''cd'' (demo_text (demo_new ?p)) = Inr False"
    "conf_mentions demo_env ''cd'' (demo_text (demo_old ?s)) = Inr True"
    by (simp_all add: conf_mentions_def demo_parse lift_res_def)
      (simp_all add: demo_entry_def starts_with_def)
  have files: "entries ?d = Some [?a, ?b]" by (simp add: demo_dir_def)
  from m have "list_all (scannable demo_env ''cd'') ([?a, ?b] @ [])" by (simp add: scannable_def)
  from delete_type1_removes_one [OF files _ this] m conf_name_ends show ?thesis
    by (simp add: belongs_def demo_dir_def Let_def)
qed

end
