(* ===== verification/Cfs_Status.thy ===== *)
theory Cfs_Status
  imports Boot_Dir "HOL-Library.Option_ord"
begin

text \<open>
  The status of a composefs host (\<^verbatim>\<open>crates/lib/src/bootc_composefs/status.rs\<close>, with
  \<^verbatim>\<open>read_origin\<close> of \<^verbatim>\<open>state.rs\<close> and the policy comparison of \<^verbatim>\<open>selinux.rs\<close>): the composefs argument
  of the kernel command line, the choice of the bootloader, the classification of the listed
  boot entries into slots, and whether a soft reboot into a deployment is possible.

  The environment record collects what is read from the system or computed by other crates: the
  parsers of origin files and of the staged deployment file, image metadata, kernel command line
  parameters, SELinux policy checksums and the command lines and digests of UKIs.
\<close>

section \<open>The composefs argument\<close>

record composefs_cmdline =
  allow_missing_fsverity :: bool
  cl_digest :: string
  is_transient :: bool

definition composefs_cmdline_new :: "string \<Rightarrow> composefs_cmdline" where
  "composefs_cmdline_new s =
     (case strip_prefix ''?'' s of
        Some v \<Rightarrow> \<lparr>allow_missing_fsverity = True, cl_digest = v, is_transient = False\<rparr>
      | None \<Rightarrow> \<lparr>allow_missing_fsverity = False, cl_digest = s, is_transient = False\<rparr>)"

definition reconcile_composefs_cmdline_with_mount_source ::
    "composefs_cmdline \<Rightarrow> string \<Rightarrow> composefs_cmdline res" where
  "reconcile_composefs_cmdline_with_mount_source cmdline mount_source =
     rbind (case strip_prefix ''composefs:'' mount_source of
              Some v \<Rightarrow> Inr (v, False)
            | None \<Rightarrow> (case strip_prefix ''transient:composefs='' mount_source of
                Some v \<Rightarrow> Inr (v, True)
              | None \<Rightarrow> Inl ''Root not mounted using composefs'')) (\<lambda>(vrt, transient).
     let mount_cmdline = composefs_cmdline_new vrt;
         c = (if cl_digest mount_cmdline \<noteq> cl_digest cmdline
              then cmdline\<lparr>cl_digest := cl_digest mount_cmdline\<rparr> else cmdline)
     in Inr (c\<lparr>is_transient := transient\<rparr>))"

text \<open>The key of the argument is a constant of composefs-boot.\<close>

definition composefs_cmdline_fmt :: "string \<Rightarrow> composefs_cmdline \<Rightarrow> string" where
  "composefs_cmdline_fmt karg_v2 c =
     karg_v2 @ ''='' @ (if allow_missing_fsverity c then ''?'' else '''') @ cl_digest c"

section \<open>The bootloader\<close>

datatype efi_error = SystemNotUEFI | MissingVar | InvalidData string | IoError string

definition lowercase :: "string \<Rightarrow> string" where
  "lowercase s = map (\<lambda>c. if CHR ''A'' \<le> c \<and> c \<le> CHR ''Z'' then char_of (of_char c + 32 :: nat) else c) s"

definition classify_bootloader :: "efi_error + string \<Rightarrow> bool \<Rightarrow> bool \<Rightarrow> bootloader res" where
  "classify_bootloader efi_loader_info bls_entries_dir_present grub_dir_present =
     (case efi_loader_info of
        Inr loader \<Rightarrow>
          (let l = lowercase loader in
           if str_contains ''systemd-boot'' l then Inr Systemd
           else if str_contains ''grub cc'' l then Inr GrubCC
           else Inr Grub)
      | Inl e \<Rightarrow>
          (if e = SystemNotUEFI \<or> e = MissingVar then
             if grub_dir_present then Inr Grub
             else if bls_entries_dir_present then Inr Systemd
             else Inr Grub
           else Inl ''Failed to read EfiLoaderInfo''))"

text \<open>The file system is only probed when there are no EFI variables.\<close>

definition get_bootloader :: "efi_error + string \<Rightarrow> (string \<Rightarrow> bool) \<Rightarrow> bootloader res" where
  "get_bootloader efi_result is_dir =
     (let non_efi = (efi_result = Inl SystemNotUEFI \<or> efi_result = Inl MissingVar)
      in classify_bootloader efi_result
           (non_efi \<and> is_dir ''/boot/loader/entries'')
           (non_efi \<and> list_ex is_dir [''/boot/grub2'', ''/boot/grub'']))"

section \<open>The environment\<close>

type_synonym ini = "string \<Rightarrow> string \<Rightarrow> string option"

datatype state_item = StateFile | StateDir "string \<rightharpoonup> string"

record staged_deployment =
  depl_id :: string
  finalization_locked :: bool

record img_config_manifest =
  img_architecture :: string
  img_annotations :: "(string \<rightharpoonup> string) option"
  img_created :: "string option"

record kparam =
  kp_key :: string
  kp_value :: "string option"

record 't status_env =
  se_boot :: boot_env
  se_bootloader :: bootloader
  se_proxy :: "'t proxy"
  se_ini :: "string \<Rightarrow> ini res"
  se_imginfo :: "string \<Rightarrow> (img_config_manifest \<times> string) res"
  se_timestamp :: "string \<Rightarrow> string option"
  se_annotation_version :: string
  se_origin_container :: string
  se_parse_staged :: "string \<Rightarrow> staged_deployment res"
  se_usr_overlay :: "filesystem_overlay option res"
  se_params :: "string \<Rightarrow> kparam list"
  se_param_eq :: "kparam \<Rightarrow> kparam \<Rightarrow> bool"
  se_is_cfs_key :: "string \<Rightarrow> bool"
  se_selinux_enabled :: bool
  se_policy :: "string \<Rightarrow> string option res"
  se_uki_digest :: "string \<Rightarrow> string res"
  se_uki_cmdline :: "string \<Rightarrow> string res"

text \<open>What is on disk: the boot directory, the state directories and the file of the staged deployment.\<close>

record storage =
  st_boot :: boot_dir
  st_state :: "(string \<times> state_item) list"
  st_staged_file :: "string option"

definition read_origin :: "(string \<Rightarrow> ini res) \<Rightarrow> (string \<times> state_item) list \<Rightarrow> string \<Rightarrow> ini option res" where
  "read_origin parse state deployment_id =
     (case map_of state deployment_id of
        None \<Rightarrow> Inr None
      | Some StateFile \<Rightarrow> Inl ''Not a directory''
      | Some (StateDir files) \<Rightarrow>
          (case files (deployment_id @ ''.origin'') of
             None \<Rightarrow> Inr None
           | Some origin_contents \<Rightarrow>
               (case parse origin_contents of
                  Inl e \<Rightarrow> Inl ''Failed to parse origin file''
                | Inr i \<Rightarrow> Inr (Some i))))"

section \<open>One boot entry\<close>

definition origin_image ::
    "'t status_env \<Rightarrow> ini \<Rightarrow> string \<Rightarrow> image_status option outcome" where
  "origin_image V origin vrt =
     (case origin ''origin'' (se_origin_container V) of
        None \<Rightarrow> Inr None
      | Some img_name_from_config \<Rightarrow>
          rbind (lift_res (ostree_image_ref_try_from (se_proxy V) img_name_from_config)) (\<lambda>ostree_img_ref.
          rbind (spec_of_ostree_ref (se_proxy V) ostree_img_ref) (\<lambda>img_ref.
          rbind (lift_res (se_imginfo V vrt)) (\<lambda>(img_conf, image_digest).
          Inr (Some \<lparr>st_image = img_ref,
             st_version = (case img_annotations img_conf of None \<Rightarrow> None
                           | Some a \<Rightarrow> a (se_annotation_version V)),
             st_timestamp = (case img_created img_conf of None \<Rightarrow> None | Some x \<Rightarrow> se_timestamp V x),
             st_image_digest = image_digest,
             st_architecture = img_architecture img_conf\<rparr>)))))"

definition boot_entry_from_composefs_deployment ::
    "'t status_env \<Rightarrow> ini \<Rightarrow> string \<Rightarrow> bool \<Rightarrow> boot_entry outcome" where
  "boot_entry_from_composefs_deployment V origin vrt missing =
     rbind (origin_image V origin vrt) (\<lambda>img.
     rbind (case origin ''boot'' ''boot_type'' of
              Some s \<Rightarrow> lift_res (boot_type_try_from s)
            | None \<Rightarrow> Inl (Err ''boot not found'')) (\<lambda>ty.
     Inr \<lparr>be_image = img, be_cached_update = None, be_incompatible = False, be_pinned = False,
          be_soft_reboot_capable = False, be_download_only = False, be_store = None, be_ostree = None,
          be_composefs = Some \<lparr>verity = vrt, boot_type = ty, cfs_bootloader = se_bootloader V,
            boot_digest = origin ''boot'' ''digest'', missing_verity_allowed = missing\<rparr>\<rparr>))"

section \<open>Classifying the entries\<close>

record scan =
  sc_booted :: "boot_entry option"
  sc_staged :: "boot_entry option"
  sc_boot_type :: "boot_type option"
  sc_extra :: "boot_entry list"

definition scan_init :: scan where
  "scan_init = \<lparr>sc_booted = None, sc_staged = None, sc_boot_type = None, sc_extra = []\<rparr>"

definition check_boot_type :: "scan \<Rightarrow> boot_type \<Rightarrow> scan outcome" where
  "check_boot_type s boot_type_from_origin =
     (case sc_boot_type s of
        Some current_type \<Rightarrow>
          if current_type \<noteq> boot_type_from_origin then Inl (Err ''Conflicting boot types'') else Inr s
      | None \<Rightarrow> Inr (s\<lparr>sc_boot_type := Some boot_type_from_origin\<rparr>))"

definition place_entry ::
    "'t status_env \<Rightarrow> storage \<Rightarrow> composefs_cmdline \<Rightarrow> string \<Rightarrow> boot_entry \<Rightarrow> scan \<Rightarrow> scan outcome" where
  "place_entry V S cmdline verity_digest boot_entry s =
     (if verity_digest = cl_digest cmdline then Inr (s\<lparr>sc_booted := Some boot_entry\<rparr>)
      else case st_staged_file S of
             None \<Rightarrow> Inr (s\<lparr>sc_extra := sc_extra s @ [boot_entry]\<rparr>)
           | Some f \<Rightarrow>
               rbind (lift_res (se_parse_staged V f)) (\<lambda>staged_depl.
               if verity_digest = depl_id staged_depl
               then Inr (s\<lparr>sc_staged := Some (boot_entry\<lparr>be_download_only := finalization_locked staged_depl\<rparr>)\<rparr>)
               else Inr (s\<lparr>sc_extra := sc_extra s @ [boot_entry]\<rparr>)))"

definition scan_entry ::
    "'t status_env \<Rightarrow> storage \<Rightarrow> composefs_cmdline \<Rightarrow> string \<Rightarrow> scan \<Rightarrow> scan outcome" where
  "scan_entry V S cmdline verity_digest s =
     rbind (lift_res (read_origin (se_ini V) (st_state S) verity_digest)) (\<lambda>i.
     case i of
       None \<Rightarrow> Inr s
     | Some i \<Rightarrow>
         rbind (boot_entry_from_composefs_deployment V i verity_digest (allow_missing_fsverity cmdline)) (\<lambda>boot_entry.
         rbind (ok_or (Panic ''called `Option::unwrap()` on a `None` value'') (be_composefs boot_entry)) (\<lambda>cfs.
         rbind (check_boot_type s (boot_type cfs)) (place_entry V S cmdline verity_digest boot_entry))))"

fun scan_entries ::
    "'t status_env \<Rightarrow> storage \<Rightarrow> composefs_cmdline \<Rightarrow> bootloader_entry list \<Rightarrow> scan \<Rightarrow> scan outcome" where
  "scan_entries V S cmdline [] s = Inr s"
| "scan_entries V S cmdline (e # es) s =
     rbind (scan_entry V S cmdline (ble_fsverity e) s) (scan_entries V S cmdline es)"

section \<open>The menu\<close>

definition rollback_queued_from_first_entry :: "boot_env \<Rightarrow> bls_config \<Rightarrow> string \<Rightarrow> bool outcome" where
  "rollback_queued_from_first_entry E bls_config booted_digest =
     (case bls_cfg_type bls_config of
        EFI key \<Rightarrow> Inr (\<not> str_contains booted_digest (efi_path key))
      | NonEFI _ _ options \<Rightarrow>
          rbind (ok_or (Err ''options key not found in bls config'') options) (\<lambda>opts.
          Inr (\<not> env_cmdline_contains E opts booted_digest))
      | Unknown \<Rightarrow> Inl (Err ''Unknown BLS Config Type''))"

definition first_entry :: "'a list \<Rightarrow> 'a outcome" where
  "first_entry xs = (case xs of [] \<Rightarrow> Inl (Err ''First boot entry not found'') | x # _ \<Rightarrow> Inr x)"

text \<open>Whether a rollback is queued, with the sorted Type1 entries or the GRUB menu.\<close>

definition menu_state ::
    "'t status_env \<Rightarrow> boot_dir \<Rightarrow> string \<Rightarrow> bootloader \<Rightarrow> boot_type
      \<Rightarrow> (bool \<times> bls_config list option \<times> menu_entry list option) outcome option" where
  "menu_state V d booted_digest bl ty =
     obind (Some (lift_res (bootloader_kind_of bl))) (\<lambda>kind.
     case kind of
       GRUBClassic \<Rightarrow>
         (case ty of
            Bls \<Rightarrow>
              Some (rbind (get_sorted_type1_boot_entries (se_boot V) (se_bootloader V) d True) (\<lambda>bls_configs.
                rbind (first_entry bls_configs) (\<lambda>bls_config.
                case bls_cfg_type bls_config of
                  NonEFI _ _ _ \<Rightarrow>
                    rbind (rollback_queued_from_first_entry (se_boot V) bls_config booted_digest) (\<lambda>q.
                    Inr (q, Some bls_configs, None))
                | EFI _ \<Rightarrow> Inl (Err ''Found 'efi' field in Type1 boot entry'')
                | Unknown \<Rightarrow> Inl (Err ''Unknown BLS Config Type''))))
          | UkiBoot \<Rightarrow>
              obind (get_sorted_grub_uki_boot_entries_helper (se_boot V) d False) (\<lambda>menuentries.
              Some (rbind (first_entry menuentries) (\<lambda>m.
              Inr (\<not> str_contains booted_digest (chainloader (entry_body m)), None, Some menuentries)))))
     | BLSCompatible \<Rightarrow>
         Some (rbind (get_sorted_type1_boot_entries (se_boot V) (se_bootloader V) d True) (\<lambda>bls_configs.
           rbind (first_entry bls_configs) (\<lambda>bls_config.
           rbind (rollback_queued_from_first_entry (se_boot V) bls_config booted_digest) (\<lambda>q.
           Inr (q, Some bls_configs, None))))))"

definition configured_verity ::
    "boot_env \<Rightarrow> bls_config list option \<Rightarrow> menu_entry list option \<Rightarrow> string list res" where
  "configured_verity E sorted_bls_config grub_menu_entries =
     collect_res (map (bls_get_verity (env_efi_ext E) (env_find_digest E))
                    (case sorted_bls_config of None \<Rightarrow> [] | Some cs \<Rightarrow> cs)
                  @ map (menu_get_verity (env_efi_ext E))
                    (case grub_menu_entries of None \<Rightarrow> [] | Some ms \<Rightarrow> ms))"

text \<open>\<^verbatim>\<open>Iterator::position\<close>.\<close>

fun position :: "'a \<Rightarrow> 'a list \<Rightarrow> nat option" where
  "position x [] = None"
| "position x (y # ys) = (if x = y then Some 0 else map_option Suc (position x ys))"

abbreviation be_verity :: "boot_entry \<Rightarrow> string option" where
  "be_verity e \<equiv> map_option verity (be_composefs e)"

definition rollback_candidates :: "string list \<Rightarrow> boot_entry list \<Rightarrow> boot_entry list outcome" where
  "rollback_candidates configured extra =
     (if list_ex (\<lambda>e. be_composefs e = None) extra
      then Inl (Panic ''composefs is always Some for composefs deployments'')
      else let pos = (\<lambda>e. case be_verity e of None \<Rightarrow> None | Some v \<Rightarrow> position v configured)
           in Inr (sort_by (\<lambda>a b. ord_cmp (pos a) (pos b))
                     (filter (\<lambda>e. \<exists>v \<in> set configured. be_verity e = Some v) extra)))"

section \<open>Soft reboots\<close>

record deployment_boot_info =
  bi_boot_digest :: string
  bi_full_cmdline :: string
  bi_verity :: string

fun find_bls_entry :: "boot_env \<Rightarrow> string \<Rightarrow> bls_config list \<Rightarrow> bls_config option res" where
  "find_bls_entry E vrt [] = Inr None"
| "find_bls_entry E vrt (ent # rest) =
     rbind (bls_get_verity (env_efi_ext E) (env_find_digest E) ent) (\<lambda>v.
     if v = vrt then Inr (Some ent) else find_bls_entry E vrt rest)"

fun compare_params :: "'t status_env \<Rightarrow> kparam list \<Rightarrow> kparam list \<Rightarrow> bool" where
  "compare_params V [] second = True"
| "compare_params V (param # rest) second =
     (if se_is_cfs_key V (kp_key param) then compare_params V rest second
      else case List.find (\<lambda>b. se_param_eq V b param) second of
             None \<Rightarrow> False
           | Some found_param \<Rightarrow>
               if kp_value found_param \<noteq> kp_value param then False
               else compare_params V rest second)"

definition compare_cmdline_skip_cfs :: "'t status_env \<Rightarrow> string \<Rightarrow> string \<Rightarrow> bool" where
  "compare_cmdline_skip_cfs V first second = compare_params V (se_params V first) (se_params V second)"

definition are_selinux_policies_compatible :: "'t status_env \<Rightarrow> string \<Rightarrow> string \<Rightarrow> bool res" where
  "are_selinux_policies_compatible V booted_digest depl =
     (if \<not> se_selinux_enabled V then Inr True
      else rbind (se_policy V booted_digest) (\<lambda>booted_policy_hash.
           rbind (se_policy V depl) (\<lambda>depl_policy_hash.
           Inr (case (booted_policy_hash, depl_policy_hash) of
                  (Some booted_csum, Some target_csum) \<Rightarrow> booted_csum = target_csum
                | (Some _, None) \<Rightarrow> False | (None, Some _) \<Rightarrow> False
                | (None, None) \<Rightarrow> True))))"

definition is_soft_rebootable ::
    "'t status_env \<Rightarrow> string \<Rightarrow> deployment_boot_info \<Rightarrow> deployment_boot_info \<Rightarrow> bool res" where
  "is_soft_rebootable V booted_digest booted_info target =
     (if bi_boot_digest target \<noteq> bi_boot_digest booted_info then Inr False
      else if length (bi_full_cmdline target) \<noteq> length (bi_full_cmdline booted_info) then Inr False
      else rbind (are_selinux_policies_compatible V booted_digest (bi_verity target)) (\<lambda>selinux_compatible.
           Inr (compare_cmdline_skip_cfs V (bi_full_cmdline target) (bi_full_cmdline booted_info)
                \<and> compare_cmdline_skip_cfs V (bi_full_cmdline booted_info) (bi_full_cmdline target)
                \<and> selinux_compatible)))"

fun update_all :: "(boot_entry \<Rightarrow> bool res) \<Rightarrow> boot_entry list \<Rightarrow> boot_entry list res" where
  "update_all f [] = Inr []"
| "update_all f (e # es) =
     rbind (f e) (\<lambda>capable. rbind (update_all f es) (\<lambda>es'.
     Inr (e\<lparr>be_soft_reboot_capable := capable\<rparr> # es')))"

definition update_opt :: "(boot_entry \<Rightarrow> bool res) \<Rightarrow> boot_entry option \<Rightarrow> boot_entry option res" where
  "update_opt f e =
     (case e of None \<Rightarrow> Inr None
      | Some e \<Rightarrow> rbind (f e) (\<lambda>capable. Inr (Some (e\<lparr>be_soft_reboot_capable := capable\<rparr>))))"

text \<open>The loop over the staged, the rollback and the other deployments.\<close>

definition update_deployments :: "(boot_entry \<Rightarrow> bool res) \<Rightarrow> host \<Rightarrow> host res" where
  "update_deployments f h =
     (let st = host_status_of h in
      rbind (update_opt f (staged st)) (\<lambda>s.
      rbind (update_opt f (rollback st)) (\<lambda>r.
      rbind (update_all f (other_deployments st)) (\<lambda>others.
      Inr (h\<lparr>host_status_of := st\<lparr>staged := s, rollback := r, other_deployments := others\<rparr>\<rparr>)))))"

definition set_reboot_capable_type1_deployments ::
    "'t status_env \<Rightarrow> composefs_cmdline \<Rightarrow> host \<Rightarrow> bls_config list \<Rightarrow> host res" where
  "set_reboot_capable_type1_deployments V booted_cmdline h bls_entries =
     rbind (ok_or ''Failed to find booted entry'' (booted (host_status_of h))) (\<lambda>b.
     rbind (composefs_boot_digest b) (\<lambda>booted_boot_digest.
     rbind (find_bls_entry (se_boot V) (cl_digest booted_cmdline) bls_entries) (\<lambda>found.
     rbind (ok_or ''Booted BLS entry not found'' found) (\<lambda>booted_bls_entry.
     rbind (bls_get_cmdline booted_bls_entry) (\<lambda>booted_full_cmdline.
     update_deployments (\<lambda>depl.
       rbind (require_composefs depl) (\<lambda>c.
       rbind (find_bls_entry (se_boot V) (verity c) bls_entries) (\<lambda>found.
       rbind (ok_or ''Entry not found'' found) (\<lambda>ent.
       rbind (bls_get_cmdline ent) (\<lambda>depl_cmdline.
       rbind (composefs_boot_digest depl) (\<lambda>depl_boot_digest.
       is_soft_rebootable V (cl_digest booted_cmdline)
         \<lparr>bi_boot_digest = booted_boot_digest, bi_full_cmdline = booted_full_cmdline,
          bi_verity = cl_digest booted_cmdline\<rparr>
         \<lparr>bi_boot_digest = depl_boot_digest, bi_full_cmdline = depl_cmdline, bi_verity = verity c\<rparr>)))))) h)))))"

definition uki_boot_digest :: "'t status_env \<Rightarrow> boot_entry \<Rightarrow> string \<Rightarrow> string res" where
  "uki_boot_digest V e vrt =
     (case composefs_boot_digest e of Inr d \<Rightarrow> Inr d | Inl _ \<Rightarrow> se_uki_digest V vrt)"

definition set_reboot_capable_uki_deployments ::
    "'t status_env \<Rightarrow> composefs_cmdline \<Rightarrow> host \<Rightarrow> host res" where
  "set_reboot_capable_uki_deployments V booted_cmdline h =
     rbind (ok_or ''Failed to find booted entry'' (booted (host_status_of h))) (\<lambda>b.
     rbind (uki_boot_digest V b (cl_digest booted_cmdline)) (\<lambda>booted_boot_digest.
     rbind (se_uki_cmdline V (cl_digest booted_cmdline)) (\<lambda>booted_full_cmdline.
     update_deployments (\<lambda>depl.
       rbind (require_composefs depl) (\<lambda>c.
       rbind (uki_boot_digest V depl (verity c)) (\<lambda>depl_boot_digest.
       rbind (se_uki_cmdline V (verity c)) (\<lambda>depl_cmdline.
       is_soft_rebootable V (cl_digest booted_cmdline)
         \<lparr>bi_boot_digest = booted_boot_digest, bi_full_cmdline = booted_full_cmdline,
          bi_verity = cl_digest booted_cmdline\<rparr>
         \<lparr>bi_boot_digest = depl_boot_digest, bi_full_cmdline = depl_cmdline, bi_verity = verity c\<rparr>)))) h)))"

definition set_soft_reboot_capability ::
    "'t status_env \<Rightarrow> storage \<Rightarrow> host \<Rightarrow> bls_config list option \<Rightarrow> composefs_cmdline \<Rightarrow> host outcome" where
  "set_soft_reboot_capability V S h bls_entries booted_cmdline =
     rbind (lift_res (require_composefs_booted h)) (\<lambda>b.
     case boot_type b of
       Bls \<Rightarrow>
         rbind (ok_or (Err ''BLS entries not provided'') bls_entries) (\<lambda>bls_entries.
         rbind (get_sorted_staged_type1_boot_entries (se_boot V) (se_bootloader V) (st_boot S) False) (\<lambda>staged_entries.
         lift_res (set_reboot_capable_type1_deployments V booted_cmdline h (bls_entries @ staged_entries))))
     | UkiBoot \<Rightarrow> lift_res (set_reboot_capable_uki_deployments V booted_cmdline h))"

section \<open>The status\<close>

definition scanned_host :: "scan \<Rightarrow> host" where
  "scanned_host s =
     (let h = host_new \<lparr>hs_image = None, hs_boot_order = OrderDefault\<rparr>;
          current = (case sc_staged s of Some e \<Rightarrow> Some e | None \<Rightarrow> sc_booted s);
          img = (case current of None \<Rightarrow> None
                 | Some e \<Rightarrow> (case be_image e of None \<Rightarrow> None | Some st \<Rightarrow> Some (st_image st)))
      in h\<lparr>host_spec_of := (host_spec_of h)\<lparr>hs_image := img\<rparr>,
           host_status_of := (host_status_of h)\<lparr>booted := sc_booted s, staged := sc_staged s\<rparr>\<rparr>)"

definition fill_slots :: "boot_entry list \<Rightarrow> bool \<Rightarrow> host \<Rightarrow> host" where
  "fill_slots candidates queued h =
     (let st = host_status_of h;
          st = (case candidates of [] \<Rightarrow> st | c # cs \<Rightarrow> st\<lparr>rollback := Some c, other_deployments := cs\<rparr>);
          spec = (if queued then (host_spec_of h)\<lparr>hs_boot_order := OrderRollback\<rparr> else host_spec_of h)
      in h\<lparr>host_spec_of := spec, host_status_of := st\<lparr>rollback_queued := queued\<rparr>\<rparr>)"

definition composefs_deployment_status_from ::
    "'t status_env \<Rightarrow> storage \<Rightarrow> composefs_cmdline \<Rightarrow> host outcome option" where
  "composefs_deployment_status_from V S cmdline =
     obind (list_bootloader_entries (se_boot V) (se_bootloader V) (st_boot S)) (\<lambda>entries.
     obind (Some (scan_entries V S cmdline entries scan_init)) (\<lambda>s.
     let h = scanned_host s in
     obind (Some (ok_or (Err ''Could not determine boot type'') (sc_boot_type s))) (\<lambda>ty.
     obind (Some (lift_res (require_composefs_booted h))) (\<lambda>booted_cfs.
     obind (menu_state V (st_boot S) (cl_digest cmdline) (cfs_bootloader booted_cfs) ty)
       (\<lambda>(queued, sorted_bls_config, grub_menu_entries).
     obind (Some (lift_res (configured_verity (se_boot V) sorted_bls_config grub_menu_entries))) (\<lambda>configured.
     obind (Some (rollback_candidates configured (sc_extra s))) (\<lambda>candidates.
     let h = fill_slots candidates queued h;
         h = h\<lparr>host_status_of := (host_status_of h)\<lparr>usr_overlay :=
               (case se_usr_overlay V of Inl _ \<Rightarrow> None | Inr ov \<Rightarrow> ov)\<rparr>\<rparr>
     in Some (set_soft_reboot_capability V S h sorted_bls_config cmdline))))))))"

section \<open>What the scan finds\<close>

lemma obind_Inr_iff: "obind x f = Some (Inr y) \<longleftrightarrow> (\<exists>v. x = Some (Inr v) \<and> f v = Some (Inr y))"
  by (auto simp: obind_def split: option.splits sum.splits)

definition has_origin :: "'t status_env \<Rightarrow> storage \<Rightarrow> string \<Rightarrow> bool" where
  "has_origin V S v \<longleftrightarrow> (\<exists>i. read_origin (se_ini V) (st_state S) v = Inr (Some i))"

definition is_staged :: "'t status_env \<Rightarrow> storage \<Rightarrow> string \<Rightarrow> bool" where
  "is_staged V S v \<longleftrightarrow>
     (\<exists>f sd. st_staged_file S = Some f \<and> se_parse_staged V f = Inr sd \<and> v = depl_id sd)"

lemma boot_entry_verity:
  "boot_entry_from_composefs_deployment V i v m = Inr e \<Longrightarrow> be_verity e = Some v"
  by (auto simp: boot_entry_from_composefs_deployment_def rbind_Inr_iff)

lemma boot_entry_bootloader:
  "boot_entry_from_composefs_deployment V i v m = Inr e \<Longrightarrow>
   map_option cfs_bootloader (be_composefs e) = Some (se_bootloader V)"
  by (auto simp: boot_entry_from_composefs_deployment_def rbind_Inr_iff)

lemma check_boot_type_frame:
  assumes "check_boot_type s ty = Inr s'"
  obtains t where "s' = s\<lparr>sc_boot_type := t\<rparr>"
proof (cases "sc_boot_type s")
  case None
  then show thesis using assms that [of "Some ty"] by (simp add: check_boot_type_def)
next
  case (Some t)
  then show thesis using assms that [of "Some t"] by (simp add: check_boot_type_def split: if_splits)
qed

text \<open>The effect of one step: the entry goes to one of the slots, or nowhere without an origin.\<close>

lemma scan_entry_cases:
  assumes "scan_entry V S c v s = Inr s'"
  obtains (no_origin) "\<not> has_origin V S v" "s' = s"
  | (booted) e t where "has_origin V S v" "v = cl_digest c" "be_verity e = Some v"
      "map_option cfs_bootloader (be_composefs e) = Some (se_bootloader V)"
      "s' = s\<lparr>sc_boot_type := t, sc_booted := Some e\<rparr>"
  | (staged) e t where "has_origin V S v" "v \<noteq> cl_digest c" "is_staged V S v" "be_verity e = Some v"
      "s' = s\<lparr>sc_boot_type := t, sc_staged := Some e\<rparr>"
  | (extra) e t where "has_origin V S v" "v \<noteq> cl_digest c" "\<not> is_staged V S v" "be_verity e = Some v"
      "s' = s\<lparr>sc_boot_type := t, sc_extra := sc_extra s @ [e]\<rparr>"
proof -
  obtain i where i: "read_origin (se_ini V) (st_state S) v = Inr i"
    using assms by (auto simp: scan_entry_def rbind_Inr_iff lift_res_Inr_iff)
  show thesis
  proof (cases i)
    case None
    then show thesis
      using assms i by (intro no_origin) (auto simp: scan_entry_def has_origin_def lift_res_def)
  next
    case (Some i')
    have org: "has_origin V S v" using i Some by (simp add: has_origin_def)
    obtain e s1 and cfs :: boot_entry_composefs where e: "boot_entry_from_composefs_deployment V i' v (allow_missing_fsverity c) = Inr e"
      and t: "check_boot_type s (boot_type cfs) = Inr s1" and r: "place_entry V S c v e s1 = Inr s'"
      using assms i Some by (simp add: scan_entry_def rbind_Inr_iff lift_res_def) blast
    obtain t where s1: "s1 = s\<lparr>sc_boot_type := t\<rparr>" by (rule check_boot_type_frame [OF t])
    note r = r [unfolded place_entry_def]
    note ev = boot_entry_verity [OF e] and eb = boot_entry_bootloader [OF e]
    show thesis
    proof (cases "v = cl_digest c")
      case True
      then show thesis using r s1 org ev eb by (intro booted [of e t]) auto
    next
      case False
      show thesis
      proof (cases "is_staged V S v")
        case True
        then obtain f sd where "st_staged_file S = Some f" "se_parse_staged V f = Inr sd" "v = depl_id sd"
          by (auto simp: is_staged_def)
        then show thesis
          using r s1 org ev False True
          by (intro staged [of "e\<lparr>be_download_only := finalization_locked sd\<rparr>" t]) (auto simp: lift_res_def)
      next
        case ns: False
        then show thesis
          using r s1 org ev False
          by (intro extra [of e t])
            (auto simp: is_staged_def rbind_Inr_iff lift_res_Inr_iff split: option.splits if_splits)
      qed
    qed
  qed
qed

definition is_extra :: "'t status_env \<Rightarrow> storage \<Rightarrow> composefs_cmdline \<Rightarrow> string \<Rightarrow> bool" where
  "is_extra V S c v \<longleftrightarrow> has_origin V S v \<and> v \<noteq> cl_digest c \<and> \<not> is_staged V S v"

lemma scan_entries_extra:
  "scan_entries V S c es s = Inr s' \<Longrightarrow>
   map be_verity (sc_extra s') =
     map be_verity (sc_extra s) @ map Some (filter (is_extra V S c) (map ble_fsverity es))"
proof (induction es arbitrary: s)
  case (Cons e es)
  then obtain s1 where 1: "scan_entry V S c (ble_fsverity e) s = Inr s1" "scan_entries V S c es s1 = Inr s'"
    by (auto simp: rbind_Inr_iff)
  from 1(1) show ?case
    by (rule scan_entry_cases) (use Cons.IH [OF 1(2)] in \<open>simp_all add: is_extra_def\<close>)
qed simp

definition booted_ok :: "'t status_env \<Rightarrow> composefs_cmdline \<Rightarrow> scan \<Rightarrow> bool" where
  "booted_ok V c s \<longleftrightarrow> (\<forall>e. sc_booted s = Some e \<longrightarrow> be_verity e = Some (cl_digest c)
     \<and> map_option cfs_bootloader (be_composefs e) = Some (se_bootloader V))"

definition staged_ok :: "'t status_env \<Rightarrow> storage \<Rightarrow> composefs_cmdline \<Rightarrow> scan \<Rightarrow> bool" where
  "staged_ok V S c s \<longleftrightarrow> (\<forall>e. sc_staged s = Some e \<longrightarrow>
     (\<exists>v. be_verity e = Some v \<and> is_staged V S v \<and> v \<noteq> cl_digest c))"

lemma scan_entry_ok:
  assumes "scan_entry V S c v s = Inr s'" and "booted_ok V c s" and "staged_ok V S c s"
  shows "booted_ok V c s' \<and> staged_ok V S c s'"
  using assms(1) by (rule scan_entry_cases) (use assms(2,3) in \<open>auto simp: booted_ok_def staged_ok_def\<close>)

lemma scan_entries_ok:
  "scan_entries V S c es s = Inr s' \<Longrightarrow> booted_ok V c s \<Longrightarrow> staged_ok V S c s \<Longrightarrow>
   booted_ok V c s' \<and> staged_ok V S c s'"
  by (induction es arbitrary: s) (auto simp: rbind_Inr_iff dest: scan_entry_ok)

lemma scan_entry_staged:
  assumes "scan_entry V S c v s = Inr s'"
  shows "sc_staged s' \<noteq> None \<longleftrightarrow> sc_staged s \<noteq> None \<or> has_origin V S v \<and> v \<noteq> cl_digest c \<and> is_staged V S v"
  using assms by (rule scan_entry_cases) simp_all

lemma scan_entries_staged:
  "scan_entries V S c es s = Inr s' \<Longrightarrow> sc_staged s' \<noteq> None \<longleftrightarrow> sc_staged s \<noteq> None \<or>
   (\<exists>e \<in> set es. has_origin V S (ble_fsverity e) \<and> ble_fsverity e \<noteq> cl_digest c \<and> is_staged V S (ble_fsverity e))"
proof (induction es arbitrary: s)
  case (Cons e es)
  then obtain s1 where 1: "scan_entry V S c (ble_fsverity e) s = Inr s1" "scan_entries V S c es s1 = Inr s'"
    by (auto simp: rbind_Inr_iff)
  from scan_entry_staged [OF 1(1)] Cons.IH [OF 1(2)] show ?case by auto
qed simp

section \<open>Soft reboot flags change nothing else\<close>

definition same_slots :: "host \<Rightarrow> host \<Rightarrow> bool" where
  "same_slots h h' \<longleftrightarrow>
     (let st = host_status_of h; st' = host_status_of h' in
      booted st' = booted st
      \<and> map_option be_composefs (staged st') = map_option be_composefs (staged st)
      \<and> map_option be_composefs (rollback st') = map_option be_composefs (rollback st)
      \<and> map be_composefs (other_deployments st') = map be_composefs (other_deployments st)
      \<and> rollback_queued st' = rollback_queued st \<and> host_spec_of h' = host_spec_of h)"

lemma update_all_composefs: "update_all f es = Inr es' \<Longrightarrow> map be_composefs es' = map be_composefs es"
  by (induction es arbitrary: es') (auto simp: rbind_Inr_iff)

lemma update_opt_composefs: "update_opt f e = Inr e' \<Longrightarrow> map_option be_composefs e' = map_option be_composefs e"
  by (auto simp: update_opt_def rbind_Inr_iff split: option.splits)

lemma update_deployments_slots: "update_deployments f h = Inr h' \<Longrightarrow> same_slots h h'"
  by (auto simp: update_deployments_def same_slots_def Let_def rbind_Inr_iff update_all_composefs update_opt_composefs)

lemma set_soft_reboot_slots:
  assumes "set_soft_reboot_capability V S h b c = Inr h'"
  shows "same_slots h h'"
proof -
  have "\<exists>f. update_deployments f h = Inr h'"
  proof -
    obtain bt where "require_composefs_booted h = Inr bt"
      using assms by (auto simp: set_soft_reboot_capability_def rbind_Inr_iff lift_res_Inr_iff)
    with assms show ?thesis
      by (cases "boot_type bt")
        (auto simp: set_soft_reboot_capability_def rbind_Inr_iff lift_res_Inr_iff
          set_reboot_capable_type1_deployments_def set_reboot_capable_uki_deployments_def)
  qed
  then show ?thesis using update_deployments_slots by blast
qed

section \<open>The slots\<close>

lemma position_Some: "x \<in> set ys \<Longrightarrow> \<exists>i. position x ys = Some i"
  by (induction ys) auto

text \<open>The deployments that the status offers for rollback: the rollback slot, then the others.\<close>

definition fallbacks :: "host \<Rightarrow> string option list" where
  "fallbacks h = map be_verity (opt_list (rollback (host_status_of h)) @ other_deployments (host_status_of h))"

lemma fallbacks_cong: "same_slots h h' \<Longrightarrow> fallbacks h' = fallbacks h"
  by (auto simp: same_slots_def fallbacks_def Let_def comp_def split: option.splits
      dest!: arg_cong [where f = "map (map_option verity)"])

lemma fill_slots_simps [simp]:
  "fallbacks (fill_slots cands q (scanned_host s)) = map be_verity cands"
  "booted (host_status_of (fill_slots cands q (scanned_host s))) = sc_booted s"
  "staged (host_status_of (fill_slots cands q (scanned_host s))) = sc_staged s"
  "rollback_queued (host_status_of (fill_slots cands q (scanned_host s))) = q"
  "hs_boot_order (host_spec_of (fill_slots cands q (scanned_host s))) = (if q then OrderRollback else OrderDefault)"
  by (cases cands;
      simp add: fallbacks_def fill_slots_def scanned_host_def host_new_def host_status_default_def Let_def)+

lemma rollback_candidates_spec:
  assumes "rollback_candidates configured extra = Inr cands" and "map be_verity extra = map Some vs"
  shows "set (map be_verity cands) = Some ` (set vs \<inter> set configured)"
    and "sorted_wrt (\<lambda>a b. position (the a) configured \<le> position (the b) configured) (map be_verity cands)"
proof -
  let ?pos = "\<lambda>e. case be_verity e of None \<Rightarrow> None | Some v \<Rightarrow> position v configured"
  let ?F = "filter (\<lambda>e. \<exists>v \<in> set configured. be_verity e = Some v) extra"
  have cands: "cands = sort_by (\<lambda>a b. ord_cmp (?pos a) (?pos b)) ?F"
    using assms(1) by (auto simp: rollback_candidates_def Let_def split: if_splits)
  have "be_verity ` set extra = Some ` set vs"
    using arg_cong [OF assms(2), of set] by simp
  moreover have "be_verity ` set cands = be_verity ` set extra \<inter> Some ` set configured"
    unfolding cands by auto
  ultimately show "set (map be_verity cands) = Some ` (set vs \<inter> set configured)"
    by (simp add: image_Int)
  have "sorted_wrt (\<lambda>a b. ord_cmp (?pos a) (?pos b) \<noteq> Greater) cands"
    unfolding cands by (rule comparator.sort_by_sorted [OF comparator_key [of UNIV ?pos]]) simp
  moreover have "\<exists>v. be_verity e = Some v" if "e \<in> set cands" for e
    using that unfolding cands by auto
  then have "?pos e = position (the (be_verity e)) configured" if "e \<in> set cands" for e
    using that by force
  ultimately have "sorted_wrt (\<lambda>a b. position (the (be_verity a)) configured \<le> position (the (be_verity b)) configured) cands"
    by (elim sorted_wrt_mono_rel [rotated]) (simp add: not_less)
  then show "sorted_wrt (\<lambda>a b. position (the a) configured \<le> position (the b) configured) (map be_verity cands)"
    by (simp add: sorted_wrt_map)
qed

lemma fallbacks_usr_overlay [simp]:
  "fallbacks (h\<lparr>host_status_of := (host_status_of h)\<lparr>usr_overlay := ov\<rparr>\<rparr>) = fallbacks h"
  by (simp add: fallbacks_def)

text \<open>The parts that a successful status is put together from.\<close>

lemma status_parts:
  assumes "composefs_deployment_status_from V S c = Some (Inr h)"
  obtains es s ty bc q bls menus configured cands where
    "list_bootloader_entries (se_boot V) (se_bootloader V) (st_boot S) = Some (Inr es)"
    and "scan_entries V S c es scan_init = Inr s"
    and "require_composefs_booted (scanned_host s) = Inr bc"
    and "menu_state V (st_boot S) (cl_digest c) (cfs_bootloader bc) ty = Some (Inr (q, bls, menus))"
    and "configured_verity (se_boot V) bls menus = Inr configured"
    and "rollback_candidates configured (sc_extra s) = Inr cands"
    and "booted (host_status_of h) = sc_booted s"
    and "map_option be_composefs (staged (host_status_of h)) = map_option be_composefs (sc_staged s)"
    and "fallbacks h = map be_verity cands"
    and "rollback_queued (host_status_of h) = q"
    and "hs_boot_order (host_spec_of h) = (if q then OrderRollback else OrderDefault)"
proof -
  from assms obtain es s ty bc q bls menus configured cands where
    es: "list_bootloader_entries (se_boot V) (se_bootloader V) (st_boot S) = Some (Inr es)"
    and s: "scan_entries V S c es scan_init = Inr s"
    and bc: "require_composefs_booted (scanned_host s) = Inr bc"
    and m: "menu_state V (st_boot S) (cl_digest c) (cfs_bootloader bc) ty = Some (Inr (q, bls, menus))"
    and conf: "configured_verity (se_boot V) bls menus = Inr configured"
    and cands: "rollback_candidates configured (sc_extra s) = Inr cands"
    and h: "set_soft_reboot_capability V S
        (let h = fill_slots cands q (scanned_host s) in h\<lparr>host_status_of := (host_status_of h)\<lparr>usr_overlay :=
          (case se_usr_overlay V of Inl _ \<Rightarrow> None | Inr ov \<Rightarrow> ov)\<rparr>\<rparr>) bls c = Inr h"
    unfolding composefs_deployment_status_from_def
    by (auto simp: obind_Inr_iff lift_res_Inr_iff ok_or_Inr_iff Let_def split: prod.splits)
  let ?h = "fill_slots cands q (scanned_host s)"
  have slots: "booted (host_status_of h) = sc_booted s"
    "map_option be_composefs (staged (host_status_of h)) = map_option be_composefs (sc_staged s)"
    "fallbacks h = map be_verity cands" "rollback_queued (host_status_of h) = q"
    "hs_boot_order (host_spec_of h) = (if q then OrderRollback else OrderDefault)"
    using set_soft_reboot_slots [OF h] fallbacks_cong [OF set_soft_reboot_slots [OF h]]
    by (simp_all add: same_slots_def Let_def fallbacks_usr_overlay)
  show thesis by (rule that [OF es s bc m conf cands slots])
qed

text \<open>Every deployment of the status stems from a listed entry.\<close>

definition listed :: "bootloader_entry list \<Rightarrow> boot_entry \<Rightarrow> bool" where
  "listed es e \<longleftrightarrow> (\<exists>v \<in> set (map ble_fsverity es). be_verity e = Some v)"

lemma scan_entry_listed:
  assumes "scan_entry V S c v s = Inr s'"
  shows "set (opt_list (sc_booted s') @ opt_list (sc_staged s') @ sc_extra s')
    \<subseteq> set (opt_list (sc_booted s) @ opt_list (sc_staged s) @ sc_extra s) \<union> {e. be_verity e = Some v}"
  using assms by (rule scan_entry_cases) auto

lemma scan_entries_listed:
  "scan_entries V S c es s = Inr s' \<Longrightarrow>
   set (opt_list (sc_booted s') @ opt_list (sc_staged s') @ sc_extra s')
    \<subseteq> set (opt_list (sc_booted s) @ opt_list (sc_staged s) @ sc_extra s) \<union> {e. listed es e}"
proof (induction es arbitrary: s)
  case (Cons e es)
  then obtain s1 where 1: "scan_entry V S c (ble_fsverity e) s = Inr s1" "scan_entries V S c es s1 = Inr s'"
    by (auto simp: rbind_Inr_iff)
  have "{x. be_verity x = Some (ble_fsverity e)} \<subseteq> {x. listed (e # es) x}" "{x. listed es x} \<subseteq> {x. listed (e # es) x}"
    by (auto simp: listed_def)
  with scan_entry_listed [OF 1(1)] Cons.IH [OF 1(2)] show ?case by blast
qed simp

lemma status_listed:
  assumes "composefs_deployment_status_from V S c = Some (Inr h)" and "e \<in> set (list_deployments h)"
    and "list_bootloader_entries (se_boot V) (se_bootloader V) (st_boot S) = Some (Inr es)"
  shows "listed es e"
proof -
  obtain es' s configured cands where
    es: "list_bootloader_entries (se_boot V) (se_bootloader V) (st_boot S) = Some (Inr es')"
    and s': "scan_entries V S c es' scan_init = Inr s"
    and cands: "rollback_candidates configured (sc_extra s) = Inr cands"
    and slots: "booted (host_status_of h) = sc_booted s"
      "map_option be_composefs (staged (host_status_of h)) = map_option be_composefs (sc_staged s)"
      "fallbacks h = map be_verity cands"
    by (rule status_parts [OF assms(1)])
  have s: "scan_entries V S c es scan_init = Inr s" using es s' assms(3) by simp
  have sub: "set (opt_list (sc_booted s) @ opt_list (sc_staged s) @ sc_extra s) \<subseteq> {e. listed es e}"
    using scan_entries_listed [OF s] by (simp add: scan_init_def)
  have "set cands \<subseteq> set (sc_extra s)"
    using cands by (auto simp: rollback_candidates_def Let_def split: if_splits)
  then have c: "\<forall>x\<in>set cands. listed es x" using sub by auto
  consider "booted (host_status_of h) = Some e" | "staged (host_status_of h) = Some e"
    | "be_verity e \<in> set (fallbacks h)"
    using assms(2) by (auto simp: list_deployments_def fallbacks_def Let_def split: option.splits)
  then show ?thesis
  proof cases
    case 1
    then show ?thesis using slots(1) sub by (auto simp: subset_iff split: option.splits)
  next
    case 2
    then obtain x where "sc_staged s = Some x" "be_composefs x = be_composefs e"
      using slots(2) by (cases "sc_staged s") auto
    then show ?thesis using sub by (auto simp: listed_def subset_iff)
  next
    case 3
    then obtain x where x: "x \<in> set cands" "be_verity e = be_verity x" using slots(3) by auto
    with c have "listed es x" by blast
    then show ?thesis unfolding listed_def x(2) .
  qed
qed


definition demo_status_env :: "transport_ref status_env" where
  "demo_status_env = \<lparr>se_boot = demo_env, se_bootloader = Systemd, se_proxy = proxy_ref,
     se_ini = (\<lambda>_. Inr (\<lambda>section key. if section = ''boot'' \<and> key = ''boot_type'' then Some ''uki''
       else if section = ''image'' \<and> key = ''manifest_digest'' then Some ''sha256:1'' else None)),
     se_imginfo = (\<lambda>_. Inl ''none''), se_timestamp = (\<lambda>_. None), se_annotation_version = ''version'',
     se_origin_container = ''container-image-reference'', se_parse_staged = (\<lambda>_. Inl ''none''),
     se_usr_overlay = Inr None, se_params = (\<lambda>_. []), se_param_eq = (=), se_is_cfs_key = (\<lambda>_. False),
     se_selinux_enabled = False, se_policy = (\<lambda>_. Inr None), se_uki_digest = (\<lambda>_. Inr ''k''),
     se_uki_cmdline = (\<lambda>_. Inr ''rw'')\<rparr>"

definition demo_storage :: storage where
  "demo_storage = \<lparr>st_boot = (demo_dir (demo_new (primary_sort_key ''bootc'')) (demo_old (secondary_sort_key ''bootc'')))
       \<lparr>entries_staged := None\<rparr>,
     st_state = [(''ab'', StateDir [''ab.origin'' \<mapsto> '''']), (''cd'', StateDir [''cd.origin'' \<mapsto> ''''])],
     st_staged_file = None\<rparr>"

lemma demo_sorted_systemd:
  "get_sorted_type1_boot_entries demo_env Systemd (st_boot demo_storage) True
     = Inr [demo_new (primary_sort_key ''bootc''), demo_old (secondary_sort_key ''bootc'')]"
proof -
  let ?p = "primary_sort_key ''bootc''" and ?s = "secondary_sort_key ''bootc''"
  have "get_sorted_type1_boot_entries demo_env Systemd (demo_dir (demo_new ?p) (demo_old ?s)) True
     = Inr [demo_new ?p, demo_old ?s]"
    by (rule demo_sorted) (use sort_keys_less [of "''bootc''"] sort_keys_neq [of "''bootc''"] in
        \<open>simp_all add: menu_cmp_def bls_cmp_def opt_cmp_def\<close>)
  then show ?thesis
    by (simp add: demo_storage_def get_sorted_type1_boot_entries_def get_sorted_type1_boot_entries_helper_def)
qed

lemma demo_verity:
  "bls_get_verity ''.efi'' f (demo_new k) = Inr ''ab''" "bls_get_verity ''.efi'' f (demo_old k) = Inr ''cd''"
  "bls_boot_artifact_name ''.efi'' (demo_new k) = Inr ''ab''" "bls_boot_artifact_name ''.efi'' (demo_old k) = Inr ''cd''"
  by (code_simp; simp add: demo_entry_def)+

definition demo_cmdline :: composefs_cmdline where
  "demo_cmdline = composefs_cmdline_new ''ab''"

lemma demo_list:
  "list_bootloader_entries demo_env Systemd (st_boot demo_storage)
     = Some (Inr [\<lparr>ble_fsverity = ''ab'', ble_boot_artifact_name = ''ab''\<rparr>,
                  \<lparr>ble_fsverity = ''cd'', ble_boot_artifact_name = ''cd''\<rparr>])"
proof -
  have "get_sorted_staged_type1_boot_entries demo_env Systemd (st_boot demo_storage) True = Inr []"
    by (simp add: get_sorted_staged_type1_boot_entries_def get_sorted_type1_boot_entries_helper_def demo_storage_def)
  moreover have "env_efi_ext demo_env = ''.efi''" by (simp add: demo_env_def)
  ultimately show ?thesis
    by (simp only: list_bootloader_entries_def list_type1_entries_def demo_sorted_systemd bootloader_kind_of.simps)
      (simp add: demo_verity lift_res_def)
qed

definition demo_boot_entry :: "string \<Rightarrow> boot_entry" where
  "demo_boot_entry v =
     \<lparr>be_image = None, be_cached_update = None, be_incompatible = False, be_pinned = False,
      be_soft_reboot_capable = False, be_download_only = False, be_store = None, be_ostree = None,
      be_composefs = Some \<lparr>verity = v, boot_type = UkiBoot, cfs_bootloader = Systemd, boot_digest = None,
        missing_verity_allowed = False\<rparr>\<rparr>"

lemma demo_scan:
  "scan_entries demo_status_env demo_storage demo_cmdline
     [\<lparr>ble_fsverity = ''ab'', ble_boot_artifact_name = ''ab''\<rparr>, \<lparr>ble_fsverity = ''cd'', ble_boot_artifact_name = ''cd''\<rparr>]
     scan_init
   = Inr \<lparr>sc_booted = Some (demo_boot_entry ''ab''), sc_staged = None, sc_boot_type = Some UkiBoot,
          sc_extra = [demo_boot_entry ''cd'']\<rparr>"
  by (simp add: scan_entry_def read_origin_def demo_storage_def demo_status_env_def demo_cmdline_def
      composefs_cmdline_new_def lift_res_def boot_entry_from_composefs_deployment_def origin_image_def
      boot_type_try_from_def check_boot_type_def place_entry_def scan_init_def demo_boot_entry_def)

lemma demo_menu_state:
  "menu_state demo_status_env (st_boot demo_storage) ''ab'' Systemd UkiBoot
     = Some (Inr (False, Some [demo_new (primary_sort_key ''bootc''), demo_old (secondary_sort_key ''bootc'')], None))"
proof -
  have "rollback_queued_from_first_entry demo_env (demo_new (primary_sort_key ''bootc'')) ''ab'' = Inr False"
    by (simp add: rollback_queued_from_first_entry_def demo_entry_def starts_with_def)
  moreover have "se_boot demo_status_env = demo_env" "se_bootloader demo_status_env = Systemd"
    by (simp_all add: demo_status_env_def)
  ultimately show ?thesis
    by (simp add: menu_state_def lift_res_def demo_sorted_systemd first_entry_def)
qed

definition demo_host :: host where
  "demo_host = fill_slots [(demo_boot_entry ''cd'')\<lparr>be_soft_reboot_capable := True\<rparr>] False
     (scanned_host \<lparr>sc_booted = Some (demo_boot_entry ''ab''), sc_staged = None, sc_boot_type = Some UkiBoot,
        sc_extra = [demo_boot_entry ''cd'']\<rparr>)"

lemma demo_status:
  "composefs_deployment_status_from demo_status_env demo_storage demo_cmdline = Some (Inr demo_host)"
proof -
  have e: "se_boot demo_status_env = demo_env" "se_bootloader demo_status_env = Systemd"
    "cl_digest demo_cmdline = ''ab''" "env_efi_ext demo_env = ''.efi''"
    by (simp_all add: demo_status_env_def demo_cmdline_def composefs_cmdline_new_def demo_env_def)
  have conf: "configured_verity demo_env (Some [demo_new k, demo_old l]) None = Inr [''ab'', ''cd'']" for k l
    by (simp add: configured_verity_def e demo_verity)
  have cands: "rollback_candidates [''ab'', ''cd''] [demo_boot_entry ''cd''] = Inr [demo_boot_entry ''cd'']"
    by (simp add: rollback_candidates_def demo_boot_entry_def sort_by_def)
  have rb: "require_composefs_booted (scanned_host \<lparr>sc_booted = Some (demo_boot_entry v), sc_staged = None,
      sc_boot_type = t, sc_extra = x\<rparr>) = Inr (the (be_composefs (demo_boot_entry v)))"
    and bl: "cfs_bootloader (the (be_composefs (demo_boot_entry v))) = Systemd" for v t x
    by (simp_all add: require_composefs_booted_def require_composefs_def scanned_host_def host_new_def
        demo_boot_entry_def Let_def)
  show ?thesis
    unfolding composefs_deployment_status_from_def
    by (simp del: scan_entries.simps add: e demo_list demo_scan rb bl demo_menu_state conf cands Let_def lift_res_def)
      (simp add: demo_boot_entry_def scanned_host_def fill_slots_def host_new_def host_status_default_def
        require_composefs_booted_def require_composefs_def set_soft_reboot_capability_def lift_res_def
        set_reboot_capable_uki_deployments_def uki_boot_digest_def composefs_boot_digest_def
        update_deployments_def update_opt_def is_soft_rebootable_def are_selinux_policies_compatible_def
        compare_cmdline_skip_cfs_def demo_host_def demo_status_env_def Let_def)
qed


section \<open>When a soft reboot is possible\<close>

text \<open>All arguments of one command line but the composefs one occur in the other.\<close>

definition covers :: "'t status_env \<Rightarrow> string \<Rightarrow> string \<Rightarrow> bool" where
  "covers V a b \<longleftrightarrow> (\<forall>p\<in>set (se_params V a). se_is_cfs_key V (kp_key p) \<or>
     (\<exists>q\<in>set (se_params V b). se_param_eq V q p \<and> kp_value q = kp_value p))"

lemma compare_params_iff:
  assumes "\<And>a b. se_param_eq V a b \<Longrightarrow> kp_value a = kp_value b"
  shows "compare_params V ps qs \<longleftrightarrow> (\<forall>p\<in>set ps. se_is_cfs_key V (kp_key p) \<or>
     (\<exists>q\<in>set qs. se_param_eq V q p \<and> kp_value q = kp_value p))"
proof (induction ps)
  case (Cons p ps)
  show ?case
  proof (cases "List.find (\<lambda>b. se_param_eq V b p) qs")
    case None
    then have "\<not> (\<exists>q\<in>set qs. se_param_eq V q p)" by (auto simp: find_None_iff)
    then show ?thesis using None Cons.IH by auto
  next
    case (Some q)
    then have "q \<in> set qs" "se_param_eq V q p" "kp_value q = kp_value p"
      using assms by (auto simp: find_Some_iff)
    then show ?thesis using Some Cons.IH by auto
  qed
qed simp

definition policies_agree :: "'t status_env \<Rightarrow> string \<Rightarrow> string \<Rightarrow> bool" where
  "policies_agree V a b \<longleftrightarrow> \<not> se_selinux_enabled V \<or> (\<exists>p. se_policy V a = Inr p \<and> se_policy V b = Inr p)"

lemma policies_compatible_iff: "are_selinux_policies_compatible V a b = Inr True \<longleftrightarrow> policies_agree V a b"
  by (auto simp: are_selinux_policies_compatible_def policies_agree_def rbind_Inr_iff split: option.splits)

text \<open>
  A soft reboot is reported as possible exactly when kernel and initrd have the same digest,
  the command lines have the same length and the same arguments but for the composefs one, and with
  SELinux both deployments have the same policy checksum or none.
\<close>
theorem soft_reboot_iff:
  assumes "\<And>a b. se_param_eq V a b \<Longrightarrow> kp_value a = kp_value b"
  shows "is_soft_rebootable V booted_digest b t = Inr True \<longleftrightarrow>
    bi_boot_digest t = bi_boot_digest b
    \<and> length (bi_full_cmdline t) = length (bi_full_cmdline b)
    \<and> covers V (bi_full_cmdline t) (bi_full_cmdline b) \<and> covers V (bi_full_cmdline b) (bi_full_cmdline t)
    \<and> policies_agree V booted_digest (bi_verity t)"
  using policies_compatible_iff [of V booted_digest "bi_verity t"]
  by (auto simp: is_soft_rebootable_def rbind_Inr_iff compare_cmdline_skip_cfs_def covers_def
      compare_params_iff [OF assms] split: if_splits)

theorem soft_reboot_iff_witness:
  "let V = demo_status_env\<lparr>se_params := (\<lambda>s. map (\<lambda>w. \<lparr>kp_key = w, kp_value = None\<rparr>) (split_on SPC s))\<rparr>
   in is_soft_rebootable V ''ab''
        \<lparr>bi_boot_digest = ''k'', bi_full_cmdline = ''rw quiet'', bi_verity = ''ab''\<rparr>
        \<lparr>bi_boot_digest = ''k'', bi_full_cmdline = ''quiet rw'', bi_verity = ''cd''\<rparr> = Inr True"
  unfolding Let_def
proof (subst soft_reboot_iff)
  show "kp_value a = kp_value b"
    if "se_param_eq (demo_status_env\<lparr>se_params := P\<rparr>) a b" for P a b
    using that by (simp add: demo_status_env_def)
qed (simp add: covers_def policies_agree_def demo_status_env_def)

end
