(* ===== verification/Cfs_GC.thy ===== *)
theory Cfs_GC
  imports Cfs_Status
begin

text \<open>
  Garbage collection of the composefs backend (\<^verbatim>\<open>crates/lib/src/bootc_composefs/gc.rs\<close>, with the
  deletions of \<^verbatim>\<open>delete.rs\<close> and the pruning of \<^verbatim>\<open>podstorage.rs\<close>).

  An operation takes the state and returns an outcome with the state it leaves, also when it fails,
  so the changes made before an error stay visible. The composefs repository is a parameter: a
  record of its operations with what the collection relies on stated in a locale.
\<close>

section \<open>State and parameters\<close>

record gc_result =
  objects_removed :: nat
  objects_bytes :: nat

definition gc_result_default :: gc_result where
  "gc_result_default = \<lparr>objects_removed = 0, objects_bytes = 0\<rparr>"

record 'r gc_state =
  g_storage :: storage
  g_uki_dir :: "string list option"
  g_boot_dir :: "(string \<times> bool) list"
  g_images :: "(string \<times> string list option) list option"
  g_repo :: 'r

text \<open>The composefs repository: OCI tags, images with their EROFS references, objects.\<close>

record 'r repo_ops =
  r_upgrade :: "'r \<Rightarrow> 'r res"
  r_list_refs :: "'r \<Rightarrow> (string \<times> string) list res"
  r_image_refs :: "'r \<Rightarrow> string \<Rightarrow> (string option \<times> string option) res"
  r_tag :: "'r \<Rightarrow> string \<Rightarrow> string \<Rightarrow> 'r res"
  r_untag :: "'r \<Rightarrow> string \<Rightarrow> 'r res"
  r_parse_digest :: "string \<Rightarrow> string res"
  r_hash :: "string \<Rightarrow> string res"
  r_linked :: "'r \<Rightarrow> string \<Rightarrow> (string \<times> bool) list res"
  r_dump :: "'r \<Rightarrow> string \<Rightarrow> string res"
  r_dump_regular :: "string \<Rightarrow> string option res"
  r_object_size :: "'r \<Rightarrow> string \<Rightarrow> nat option"
  r_unlink :: "'r \<Rightarrow> string \<Rightarrow> 'r res"
  r_gc :: "'r \<Rightarrow> string list \<Rightarrow> ('r \<times> gc_result) res"
  r_gc_dry_run :: "'r \<Rightarrow> string list \<Rightarrow> gc_result res"

record ('t, 'r) gc_env =
  ge_status :: "'t status_env"
  ge_repo :: "'r repo_ops"
  ge_efi_ext :: string
  ge_addon_ext :: string

record gc_opts =
  dry_run :: bool
  prune_repo :: bool

definition BOOTC_TAG_PREFIX :: string where
  "BOOTC_TAG_PREFIX = ''localhost/bootc-''"

definition bootc_tag_for_manifest :: "string \<Rightarrow> string" where
  "bootc_tag_for_manifest manifest_digest = BOOTC_TAG_PREFIX @ manifest_digest"

section \<open>Listing\<close>

definition list_deployment_state_dirs :: "(string \<times> state_item) list \<Rightarrow> string list" where
  "list_deployment_state_dirs state = map fst (filter (\<lambda>(n, i). i \<noteq> StateFile) state)"

definition image_refs_match :: "string option \<Rightarrow> string option \<Rightarrow> string \<Rightarrow> bool" where
  "image_refs_match image_ref_v1 image_ref_v2 vrt =
     list_ex (\<lambda>image_ref. image_ref = vrt) (concat (map opt_list [image_ref_v1, image_ref_v2]))"

type_synonym boot_binary = "boot_type \<times> string"

definition collect_uki_binaries :: "string \<Rightarrow> string list option \<Rightarrow> boot_binary list" where
  "collect_uki_binaries efi_ext efi_dir =
     (case efi_dir of None \<Rightarrow> []
      | Some names \<Rightarrow>
          concat (map (\<lambda>name. case strip_prefix UKI_NAME_PREFIX name of None \<Rightarrow> []
            | Some r \<Rightarrow> (case strip_suffix efi_ext r of None \<Rightarrow> [] | Some v \<Rightarrow> [(UkiBoot, v)])) names))"

definition collect_type1_boot_binaries :: "(string \<times> bool) list \<Rightarrow> boot_binary list" where
  "collect_type1_boot_binaries boot_dir =
     concat (map (\<lambda>(name, is_dir). if \<not> is_dir then []
       else case strip_prefix TYPE1_BOOT_DIR_PREFIX name of None \<Rightarrow> [] | Some v \<Rightarrow> [(Bls, v)]) boot_dir)"

definition collect_boot_binaries :: "('t, 'r) gc_env \<Rightarrow> 'r gc_state \<Rightarrow> boot_binary list" where
  "collect_boot_binaries G s =
     collect_uki_binaries (ge_efi_ext G) (g_uki_dir s) @ collect_type1_boot_binaries (g_boot_dir s)"

definition unreferenced_boot_binaries :: "boot_binary list \<Rightarrow> bootloader_entry list \<Rightarrow> boot_binary list" where
  "unreferenced_boot_binaries boot_binaries bootloader_entries =
     filter (\<lambda>bin. \<not> list_ex (\<lambda>e. ble_boot_artifact_name e = snd bin) bootloader_entries) boot_binaries"

section \<open>Deleting\<close>

definition delete_kernel_initrd :: "string \<Rightarrow> bool \<Rightarrow> ('r gc_state, unit) oper" where
  "delete_kernel_initrd dir_to_delete dry =
     (if dry then sret ()
      else sbind (sget g_boot_dir) (\<lambda>d.
           if (dir_to_delete, True) \<in> set d
           then smodify (\<lambda>s. s\<lparr>g_boot_dir := filter (\<lambda>e. fst e \<noteq> dir_to_delete) (g_boot_dir s)\<rparr>)
           else sfail (Err ''Deleting kernel and initrd'')))"

definition delete_uki :: "('t, 'r) gc_env \<Rightarrow> string \<Rightarrow> bool \<Rightarrow> ('r gc_state, unit) oper" where
  "delete_uki G uki_id dry =
     sbind (sget g_uki_dir) (\<lambda>uki_dir.
     case uki_dir of
       None \<Rightarrow> sfail (Err ''Deleting UKI and UKI addons'')
     | Some names \<Rightarrow>
         for_each (\<lambda>entry_name.
           if entry_name = get_uki_name (ge_efi_ext G) uki_id
              \<or> entry_name = get_uki_addon_dir_name (ge_addon_ext G) uki_id
           then if dry then sret ()
                else smodify (\<lambda>s. s\<lparr>g_uki_dir := map_option (filter (\<lambda>n. n \<noteq> entry_name)) (g_uki_dir s)\<rparr>)
           else sret ()) names)"

definition delete_binary :: "('t, 'r) gc_env \<Rightarrow> bool \<Rightarrow> boot_binary \<Rightarrow> ('r gc_state, unit) oper" where
  "delete_binary G dry b =
     (case fst b of
        Bls \<Rightarrow> delete_kernel_initrd (get_type1_dir_name (snd b)) dry
      | UkiBoot \<Rightarrow> delete_uki G (snd b) dry)"

definition delete_state_dir :: "string \<Rightarrow> bool \<Rightarrow> ('r gc_state, unit) oper" where
  "delete_state_dir deployment_id dry =
     (if dry then sret ()
      else smodify (\<lambda>s. s\<lparr>g_storage := (g_storage s)\<lparr>st_state :=
             filter (\<lambda>d. fst d \<noteq> deployment_id) (st_state (g_storage s))\<rparr>\<rparr>))"

definition delete_staged :: "boot_entry option \<Rightarrow> string list \<Rightarrow> bool \<Rightarrow> ('r gc_state, unit) oper" where
  "delete_staged staged_entry cleanup_list dry =
     (case staged_entry of
        None \<Rightarrow> sret ()
      | Some staged_depl \<Rightarrow>
          sbind (slift (lift_res (require_composefs staged_depl))) (\<lambda>c.
          if verity c \<notin> set cleanup_list then sret ()
          else if \<not> dry
               then smodify (\<lambda>s. s\<lparr>g_storage := (g_storage s)\<lparr>st_staged_file := None\<rparr>\<rparr>)
               else sret ()))"

section \<open>Live deployments\<close>

record live =
  live_manifest_digests :: "string list"
  additional_roots :: "string list"
  live_container_images :: "string list"

definition live_init :: live where
  "live_init = \<lparr>live_manifest_digests = [], additional_roots = [], live_container_images = []\<rparr>"

text \<open>The first tagged manifest whose image is the given deployment.\<close>

fun find_manifest :: "'r repo_ops \<Rightarrow> 'r \<Rightarrow> string \<Rightarrow> (string \<times> string) list \<Rightarrow> string option" where
  "find_manifest R repo vrt [] = None"
| "find_manifest R repo vrt ((_, ref_digest) # rest) =
     (case r_image_refs R repo ref_digest of
        Inl _ \<Rightarrow> find_manifest R repo vrt rest
      | Inr (v1, v2) \<Rightarrow> if image_refs_match v1 v2 vrt then Some ref_digest
                        else find_manifest R repo vrt rest)"

definition live_of_origin ::
    "('t, 'r) gc_env \<Rightarrow> 'r \<Rightarrow> (string \<times> string) list \<Rightarrow> string \<Rightarrow> ini \<Rightarrow> live \<Rightarrow> live outcome" where
  "live_of_origin G repo existing_tags vrt ini l =
     (let l1 = (case ini ''origin'' (se_origin_container (ge_status G)) of
                  None \<Rightarrow> l
                | Some container_ref \<Rightarrow>
                    (let name = (case ostree_image_ref_try_from (se_proxy (ge_status G)) container_ref of
                                   Inr r \<Rightarrow> ref_name (imgref r) | Inl _ \<Rightarrow> container_ref)
                     in l\<lparr>live_container_images := name # live_container_images l\<rparr>))
      in case ini ''image'' ''manifest_digest'' of
           Some manifest_digest_str \<Rightarrow>
             rbind (lift_res (r_parse_digest (ge_repo G) manifest_digest_str)) (\<lambda>digest.
             Inr (l1\<lparr>live_manifest_digests := live_manifest_digests l1 @ [digest]\<rparr>))
         | None \<Rightarrow>
             (case find_manifest (ge_repo G) repo vrt existing_tags of
                None \<Rightarrow> Inr l1
              | Some ref_digest \<Rightarrow> Inr (l1\<lparr>live_manifest_digests := live_manifest_digests l1 @ [ref_digest]\<rparr>)))"

fun collect_live ::
    "('t, 'r) gc_env \<Rightarrow> 'r gc_state \<Rightarrow> (string \<times> string) list \<Rightarrow> string list \<Rightarrow> boot_entry list \<Rightarrow> live \<Rightarrow> live outcome" where
  "collect_live G s existing_tags all_orphans [] l = Inr l"
| "collect_live G s existing_tags all_orphans (deployment # rest) l =
     rbind (lift_res (require_composefs deployment)) (\<lambda>c.
     let vrt = verity c in
     if vrt \<in> set all_orphans then collect_live G s existing_tags all_orphans rest l
     else let l = l\<lparr>additional_roots := additional_roots l @ [vrt]\<rparr> in
          rbind (lift_res (read_origin (se_ini (ge_status G)) (st_state (g_storage s)) vrt)) (\<lambda>ini.
          case ini of
            None \<Rightarrow> collect_live G s existing_tags all_orphans rest l
          | Some ini \<Rightarrow>
              rbind (live_of_origin G (g_repo s) existing_tags vrt ini l)
                (collect_live G s existing_tags all_orphans rest)))"

section \<open>Tags\<close>

definition repo_step :: "('r \<Rightarrow> 'r res) \<Rightarrow> ('r gc_state, unit) oper" where
  "repo_step f = sbind (sget g_repo) (\<lambda>r.
     case f r of Inl e \<Rightarrow> sfail (Err e) | Inr r' \<Rightarrow> smodify (\<lambda>s. s\<lparr>g_repo := r'\<rparr>))"

definition create_missing_tags ::
    "'r repo_ops \<Rightarrow> bool \<Rightarrow> (string \<times> string) list \<Rightarrow> string list \<Rightarrow> ('r gc_state, unit) oper" where
  "create_missing_tags R dry existing_tags =
     for_each (\<lambda>manifest_digest.
       let expected_tag = bootc_tag_for_manifest manifest_digest in
       if list_ex (\<lambda>(tag_name, _). tag_name = expected_tag) existing_tags then sret ()
       else if dry then sret ()
       else repo_step (\<lambda>r. r_tag R r manifest_digest expected_tag))"

definition remove_dead_tags ::
    "'r repo_ops \<Rightarrow> bool \<Rightarrow> string list \<Rightarrow> (string \<times> string) list \<Rightarrow> ('r gc_state, unit) oper" where
  "remove_dead_tags R dry live_digests =
     for_each (\<lambda>(tag_name, manifest_digest).
       if \<not> starts_with BOOTC_TAG_PREFIX tag_name then sret ()
       else if manifest_digest \<in> set live_digests then sret ()
       else if dry then sret ()
       else repo_step (\<lambda>r. r_untag R r tag_name))"

section \<open>Container images and boot objects\<close>

definition prune_except_roots :: "string list \<Rightarrow> (string \<times> string list option) list \<Rightarrow> (string \<times> string list option) list" where
  "prune_except_roots roots all_images =
     filter (\<lambda>(_, names). \<not> list_all (\<lambda>name. name \<notin> set roots) (concat (opt_list names))) all_images"

definition prune_images :: "bool \<Rightarrow> string list \<Rightarrow> ('r gc_state, unit) oper" where
  "prune_images dry roots =
     (if \<not> dry \<and> roots \<noteq> []
      then smodify (\<lambda>s. s\<lparr>g_images := map_option (prune_except_roots roots) (g_images s)\<rparr>)
      else sret ())"

text \<open>One line of the dump of the boot directory; a line that does not parse is a panic.\<close>

definition remove_object ::
    "'r repo_ops \<Rightarrow> bool \<Rightarrow> string \<Rightarrow> gc_result \<Rightarrow> ('r gc_state, gc_result) oper" where
  "remove_object R dry line acc =
     (case r_dump_regular R line of
        Inl _ \<Rightarrow> sfail (Panic ''called `Result::unwrap()` on an `Err` value'')
      | Inr None \<Rightarrow> sret acc
      | Inr (Some path) \<Rightarrow>
          if dry then sret acc
          else sbind (sget g_repo) (\<lambda>r.
               sbind (repo_step (\<lambda>r. r_unlink R r path)) (\<lambda>_.
               sret \<lparr>objects_removed = objects_removed acc + 1,
                     objects_bytes = objects_bytes acc
                       + (case r_object_size R r path of Some n \<Rightarrow> n | None \<Rightarrow> 0)\<rparr>)))"

fun remove_objects ::
    "'r repo_ops \<Rightarrow> bool \<Rightarrow> string list \<Rightarrow> gc_result \<Rightarrow> ('r gc_state, gc_result) oper" where
  "remove_objects R dry [] acc = sret acc"
| "remove_objects R dry (line # rest) acc = sbind (remove_object R dry line acc) (remove_objects R dry rest)"

fun gc_boot_objects ::
    "'r repo_ops \<Rightarrow> bool \<Rightarrow> string list \<Rightarrow> gc_result \<Rightarrow> ('r gc_state, gc_result) oper" where
  "gc_boot_objects R dry [] acc = sret acc"
| "gc_boot_objects R dry (vrt # rest) acc =
     (case r_hash R vrt of
        Inl _ \<Rightarrow> gc_boot_objects R dry rest acc
      | Inr sha \<Rightarrow> sbind (sget g_repo) (\<lambda>repo.
          case r_linked R repo sha of
            Inl _ \<Rightarrow> gc_boot_objects R dry rest acc
          | Inr linked_images \<Rightarrow>
              (case List.find (\<lambda>(_, bootable). \<not> bootable) linked_images of
                 None \<Rightarrow> gc_boot_objects R dry rest acc
               | Some (non_bootable_img, _) \<Rightarrow>
                   sbind (slift (lift_res (r_dump R repo non_bootable_img))) (\<lambda>boot_dump.
                   if boot_dump = [] then gc_boot_objects R dry rest acc
                   else sbind (remove_objects R dry (str_lines boot_dump) acc)
                          (gc_boot_objects R dry rest)))))"

section \<open>The collection\<close>

definition orphans :: "string list \<Rightarrow> bootloader_entry list \<Rightarrow> string list \<times> string list" where
  "orphans state_dirs bootloader_entries =
     (filter (\<lambda>s. \<not> list_ex (\<lambda>e. ble_fsverity e = s) bootloader_entries) state_dirs,
      filter (\<lambda>v. v \<notin> set state_dirs) (map ble_fsverity bootloader_entries))"

definition gc_binaries ::
    "('t, 'r) gc_env \<Rightarrow> bool \<Rightarrow> boot_entry_composefs \<Rightarrow> bootloader_entry list \<Rightarrow> ('r gc_state, unit) oper" where
  "gc_binaries G dry booted_status bootloader_entries =
     sbind (sget (collect_boot_binaries G)) (\<lambda>boot_binaries.
     let unreferenced = unreferenced_boot_binaries boot_binaries bootloader_entries in
     if list_ex (\<lambda>be. snd be = verity booted_status) unreferenced
     then sfail (Err ''Inconsistent state. Booted binaries found for cleanup'')
     else for_each (delete_binary G dry) unreferenced)"

definition gc_orphans ::
    "bool \<Rightarrow> boot_entry option \<Rightarrow> string list \<Rightarrow> string list \<Rightarrow> ('r gc_state, unit) oper" where
  "gc_orphans dry staged_entry orphaned_state_dirs orphaned_boot_entries =
     (let all_orphans = orphaned_state_dirs @ orphaned_boot_entries in
      sbind (for_each (\<lambda>v. sbind (delete_staged staged_entry all_orphans dry) (\<lambda>_. delete_state_dir v dry))
               orphaned_state_dirs) (\<lambda>_.
      for_each (\<lambda>v. delete_staged staged_entry all_orphans dry) orphaned_boot_entries))"

definition gc_tags ::
    "('t, 'r) gc_env \<Rightarrow> bool \<Rightarrow> host \<Rightarrow> string list \<Rightarrow> ('r gc_state, live) oper" where
  "gc_tags G dry h all_orphans =
     (let R = ge_repo G in
      sbind (sget (\<lambda>s. r_list_refs R (g_repo s))) (\<lambda>refs.
      sbind (slift (lift_res refs)) (\<lambda>existing_tags.
      sbind (sget (\<lambda>s. collect_live G s existing_tags all_orphans (list_deployments h) live_init)) (\<lambda>l.
      sbind (slift l) (\<lambda>l.
      sbind (create_missing_tags R dry existing_tags (live_manifest_digests l)) (\<lambda>_.
      sbind (sget (\<lambda>s. r_list_refs R (g_repo s))) (\<lambda>refs.
      sbind (slift (lift_res refs)) (\<lambda>all_tags.
      sbind (remove_dead_tags R dry (live_manifest_digests l) all_tags) (\<lambda>_. sret l)))))))))"

definition gc_repo ::
    "'r repo_ops \<Rightarrow> bool \<Rightarrow> string list \<Rightarrow> gc_result \<Rightarrow> ('r gc_state, gc_result) oper" where
  "gc_repo R dry roots acc =
     sbind (sget g_repo) (\<lambda>r.
     sbind (if dry then slift (lift_res (r_gc_dry_run R r roots))
            else case r_gc R r roots of
                   Inl e \<Rightarrow> sfail (Err e)
                 | Inr (r', res) \<Rightarrow> sbind (smodify (\<lambda>s. s\<lparr>g_repo := r'\<rparr>)) (\<lambda>_. sret res)) (\<lambda>res.
     sret \<lparr>objects_removed = objects_removed res + objects_removed acc,
           objects_bytes = objects_bytes res + objects_bytes acc\<rparr>))"

text \<open>What follows the boot binaries: state directories, tags, images, objects.\<close>

definition gc_prune ::
    "('t, 'r) gc_env \<Rightarrow> bool \<Rightarrow> host \<Rightarrow> boot_entry_composefs \<Rightarrow> bootloader_entry list \<Rightarrow> ('r gc_state, gc_result) oper" where
  "gc_prune G dry h booted_status bootloader_entries =
     sbind (sget (\<lambda>s. orphans (list_deployment_state_dirs (st_state (g_storage s))) bootloader_entries))
       (\<lambda>(orphaned_state_dirs, orphaned_boot_entries).
     let all_orphans = orphaned_state_dirs @ orphaned_boot_entries in
     if verity booted_status \<in> set all_orphans
     then sfail (Err ''Inconsistent state. Booted entry found for cleanup'')
     else
       sbind (gc_orphans dry (staged (host_status_of h)) orphaned_state_dirs orphaned_boot_entries) (\<lambda>_.
       sbind (gc_tags G dry h all_orphans) (\<lambda>l.
       sbind (prune_images dry (live_container_images l)) (\<lambda>_.
       sbind (gc_boot_objects (ge_repo G) dry all_orphans gc_result_default) (\<lambda>acc.
       gc_repo (ge_repo G) dry (additional_roots l) acc)))))"

definition gc_run ::
    "('t, 'r) gc_env \<Rightarrow> gc_opts \<Rightarrow> host \<Rightarrow> bootloader_entry list \<Rightarrow> ('r gc_state, gc_result) oper" where
  "gc_run G opts h bootloader_entries =
     sbind (slift (lift_res (require_composefs_booted h))) (\<lambda>booted_status.
     sbind (gc_binaries G (dry_run opts) booted_status bootloader_entries) (\<lambda>_.
     if \<not> prune_repo opts then sret gc_result_default
     else gc_prune G (dry_run opts) h booted_status bootloader_entries))"

text \<open>Without a value the parser of the GRUB menu does not return.\<close>

definition composefs_gc ::
    "('t, 'r) gc_env \<Rightarrow> composefs_cmdline \<Rightarrow> gc_opts \<Rightarrow> 'r gc_state \<Rightarrow> (gc_result outcome \<times> 'r gc_state) option" where
  "composefs_gc G cmdline opts s =
     (case r_upgrade (ge_repo G) (g_repo s) of
        Inl e \<Rightarrow> Some (Inl (Err e), s)
      | Inr r \<Rightarrow>
          (let s = s\<lparr>g_repo := r\<rparr>; V = ge_status G in
           case composefs_deployment_status_from V (g_storage s) cmdline of
             None \<Rightarrow> None
           | Some (Inl e) \<Rightarrow> Some (Inl e, s)
           | Some (Inr h) \<Rightarrow>
               (case list_bootloader_entries (se_boot V) (se_bootloader V) (st_boot (g_storage s)) of
                  None \<Rightarrow> None
                | Some (Inl e) \<Rightarrow> Some (Inl e, s)
                | Some (Inr bootloader_entries) \<Rightarrow> Some (gc_run G opts h bootloader_entries s))))"

text \<open>How a collection ends: at the migration, before it starts, or in its run.\<close>

lemma composefs_gc_cases:
  assumes "composefs_gc G cmdline opts s = Some (r, s')"
  obtains (failed) "s' = s"
  | (stopped) repo where "r_upgrade (ge_repo G) (g_repo s) = Inr repo" "s' = s\<lparr>g_repo := repo\<rparr>"
  | (run) repo h es where "r_upgrade (ge_repo G) (g_repo s) = Inr repo"
      "composefs_deployment_status_from (ge_status G) (g_storage s) cmdline = Some (Inr h)"
      "list_bootloader_entries (se_boot (ge_status G)) (se_bootloader (ge_status G)) (st_boot (g_storage s)) = Some (Inr es)"
      "gc_run G opts h es (s\<lparr>g_repo := repo\<rparr>) = (r, s')"
  using assms unfolding composefs_gc_def Let_def by (auto split: sum.splits option.splits)

section \<open>A dry run\<close>

interpretation unchanged: state_order "\<lambda>s t. t = s"
  by unfold_locales simp_all

lemma dry_delete: "keeps (\<lambda>s t. t = s) (delete_binary G True b)"
  unfolding delete_binary_def delete_kernel_initrd_def delete_uki_def
  by (auto split: boot_type.split option.split intro!: unchanged.keeps_bind unchanged.keeps_for_each)

lemma dry_orphans: "keeps (\<lambda>s t. t = s) (gc_orphans True e xs ys)"
  unfolding gc_orphans_def delete_staged_def delete_state_dir_def Let_def
  by (auto split: option.split intro!: unchanged.keeps_bind unchanged.keeps_for_each)

lemma dry_tags: "keeps (\<lambda>s t. t = s) (gc_tags G True h os)"
  unfolding gc_tags_def create_missing_tags_def remove_dead_tags_def Let_def
  by (auto intro!: unchanged.keeps_bind unchanged.keeps_for_each)

lemma dry_remove_objects: "keeps (\<lambda>s t. t = s) (remove_objects R True ls acc)"
  by (induction R "True" ls acc rule: remove_objects.induct)
    (auto simp: remove_object_def split: sum.split option.split)

lemma dry_boot_objects: "keeps (\<lambda>s t. t = s) (gc_boot_objects R True os acc)"
  by (induction R "True" os acc rule: gc_boot_objects.induct)
    (auto intro!: unchanged.keeps_bind dry_remove_objects split: sum.split option.split)

lemma dry_binaries: "keeps (\<lambda>s t. t = s) (gc_binaries G True b es)"
  unfolding gc_binaries_def Let_def by (auto intro!: unchanged.keeps_bind unchanged.keeps_for_each dry_delete)

lemma dry_run_unchanged: "dry_run opts \<Longrightarrow> keeps (\<lambda>s t. t = s) (gc_run G opts h es)"
  unfolding gc_run_def gc_prune_def Let_def gc_repo_def prune_images_def
  by (auto intro!: unchanged.keeps_bind dry_binaries dry_orphans dry_tags dry_boot_objects split: prod.split)

text \<open>
  A dry run changes nothing but the format of the repository, whatever its outcome: the boot
  entries, boot binaries, state directories, tags and container images stay as they were.
\<close>
theorem gc_dry_run_unchanged:
  assumes "dry_run opts" and "composefs_gc G cmdline opts s = Some (r, s')"
  shows "s' = s \<or> (\<exists>repo. r_upgrade (ge_repo G) (g_repo s) = Inr repo \<and> s' = s\<lparr>g_repo := repo\<rparr>)"
  using assms(2)
proof (cases rule: composefs_gc_cases)
  case (run repo h es)
  moreover have "snd (gc_run G opts h es (s\<lparr>g_repo := repo\<rparr>)) = s\<lparr>g_repo := repo\<rparr>"
    using dry_run_unchanged [OF assms(1), of G h es] by (simp add: keeps_def)
  ultimately show ?thesis by simp
qed auto

section \<open>What a collection keeps\<close>

text \<open>
  With the artifact names and digests of the bootloader entries: boot binaries of these names, files
  that are not boot binaries, state directories of these digests and the boot directory are kept.
\<close>

definition protects :: "('t, 'r) gc_env \<Rightarrow> string set \<Rightarrow> string set \<Rightarrow> 'r gc_state \<Rightarrow> 'r gc_state \<Rightarrow> bool" where
  "protects G A D s t \<longleftrightarrow>
     (\<forall>e\<in>set (g_boot_dir s). (\<forall>v. fst e = get_type1_dir_name v \<longrightarrow> v \<in> A) \<longrightarrow> e \<in> set (g_boot_dir t))
     \<and> (\<forall>names. g_uki_dir s = Some names \<longrightarrow> (\<exists>names'. g_uki_dir t = Some names' \<and>
          (\<forall>n\<in>set names. (\<forall>v. n = get_uki_name (ge_efi_ext G) v \<or> n = get_uki_addon_dir_name (ge_addon_ext G) v \<longrightarrow> v \<in> A)
             \<longrightarrow> n \<in> set names')))
     \<and> st_boot (g_storage t) = st_boot (g_storage s)
     \<and> (\<forall>v\<in>D. map_of (st_state (g_storage t)) v = map_of (st_state (g_storage s)) v)"

interpretation protects: state_order "protects G A D" for G :: "('t, 'r) gc_env" and A D
proof
  fix s t u :: "'r gc_state"
  show "protects G A D s s" by (auto simp: protects_def)
  assume st: "protects G A D s t" and tu: "protects G A D t u"
  show "protects G A D s u"
    unfolding protects_def
  proof (intro conjI allI impI)
    fix names assume "g_uki_dir s = Some names"
    then obtain n1 where n1: "g_uki_dir t = Some n1"
      "\<forall>n\<in>set names. (\<forall>v. n = get_uki_name (ge_efi_ext G) v \<or> n = get_uki_addon_dir_name (ge_addon_ext G) v \<longrightarrow> v \<in> A)
        \<longrightarrow> n \<in> set n1"
      using st by (auto simp: protects_def)
    then obtain n2 where "g_uki_dir u = Some n2"
      "\<forall>n\<in>set n1. (\<forall>v. n = get_uki_name (ge_efi_ext G) v \<or> n = get_uki_addon_dir_name (ge_addon_ext G) v \<longrightarrow> v \<in> A)
        \<longrightarrow> n \<in> set n2"
      using tu by (auto simp: protects_def)
    with n1(2) show "\<exists>names'. g_uki_dir u = Some names' \<and>
          (\<forall>n\<in>set names. (\<forall>v. n = get_uki_name (ge_efi_ext G) v \<or> n = get_uki_addon_dir_name (ge_addon_ext G) v \<longrightarrow> v \<in> A)
             \<longrightarrow> n \<in> set names')" by auto
  qed (use st tu in \<open>auto simp: protects_def\<close>)
qed

lemma protects_other:
  assumes "\<And>s. g_boot_dir (f s) = g_boot_dir s" "\<And>s. g_uki_dir (f s) = g_uki_dir s" "\<And>s. g_storage (f s) = g_storage s"
  shows "keeps (protects G A D) (smodify f)"
  using assms by (auto simp: keeps_def smodify_def protects_def)

lemma protects_repo_step: "keeps (protects G A D) (repo_step f)"
  unfolding repo_step_def by (auto intro!: protects.keeps_bind protects_other split: sum.split)

lemma protects_delete_binary:
  assumes "snd b \<notin> A"
  shows "keeps (protects G A D) (delete_binary G dry b)"
proof (cases "fst b")
  case Bls
  have "keeps (protects G A D) (smodify (\<lambda>s. s\<lparr>g_boot_dir := filter (\<lambda>e. fst e \<noteq> get_type1_dir_name (snd b)) (g_boot_dir s)\<rparr>))"
    using assms by (auto simp: keeps_def smodify_def protects_def)
  then show ?thesis using Bls by (auto simp: delete_binary_def delete_kernel_initrd_def)
next
  case UkiBoot
  have "keeps (protects G A D) (smodify (\<lambda>s. s\<lparr>g_uki_dir := map_option (filter (\<lambda>n. n \<noteq> m)) (g_uki_dir s)\<rparr>))"
    if "m = get_uki_name (ge_efi_ext G) (snd b) \<or> m = get_uki_addon_dir_name (ge_addon_ext G) (snd b)" for m
    using assms that by (auto simp: keeps_def smodify_def protects_def)
  then show ?thesis
    using UkiBoot by (auto simp: delete_binary_def delete_uki_def
        intro!: protects.keeps_bind protects.keeps_for_each split: option.split)
qed

lemma unreferenced_names:
  assumes "b \<in> set (unreferenced_boot_binaries bs es)"
  shows "snd b \<notin> ble_boot_artifact_name ` set es"
proof
  assume "snd b \<in> ble_boot_artifact_name ` set es"
  then obtain e where "e \<in> set es" "snd b = ble_boot_artifact_name e" by blast
  with assms show False by (auto simp: unreferenced_boot_binaries_def list_ex_iff)
qed

lemma protects_binaries:
  "keeps (protects G (ble_boot_artifact_name ` set es) D) (gc_binaries G dry b es)"
  unfolding gc_binaries_def Let_def
  by (auto intro!: protects.keeps_bind protects.keeps_for_each protects_delete_binary unreferenced_names)

lemma protects_staged: "keeps (protects G A D) (delete_staged e xs dry)"
proof -
  have "keeps (protects G A D) (smodify (\<lambda>s. s\<lparr>g_storage := (g_storage s)\<lparr>st_staged_file := None\<rparr>\<rparr>))"
    by (auto simp: keeps_def smodify_def protects_def)
  then show ?thesis unfolding delete_staged_def by (auto intro!: protects.keeps_bind split: option.split)
qed

lemma map_of_filter_other: "v \<noteq> w \<Longrightarrow> map_of (filter (\<lambda>d. fst d \<noteq> w) xs) v = map_of xs v"
  by (induction xs) auto

lemma protects_orphans:
  assumes "set xs \<inter> D = {}"
  shows "keeps (protects G A D) (gc_orphans dry e xs ys)"
proof -
  have "keeps (protects G A D) (delete_state_dir v dry)" if "v \<in> set xs" for v
  proof (cases dry)
    case False
    have "\<forall>w\<in>D. w \<noteq> v" using assms that by auto
    then show ?thesis
      using False by (auto simp: delete_state_dir_def keeps_def smodify_def protects_def map_of_filter_other)
  qed (simp add: delete_state_dir_def)
  then show ?thesis
    unfolding gc_orphans_def Let_def
    by (auto intro!: protects.keeps_bind protects.keeps_for_each protects_staged)
qed

lemma protects_tags: "keeps (protects G A D) (gc_tags G dry h os)"
  unfolding gc_tags_def create_missing_tags_def remove_dead_tags_def Let_def
  by (auto intro!: protects.keeps_bind protects.keeps_for_each protects_repo_step split: prod.split)

lemma protects_remove_objects: "keeps (protects G A D) (remove_objects R dry ls acc)"
  by (induction R dry ls acc rule: remove_objects.induct)
    (auto simp: remove_object_def intro!: protects.keeps_bind protects_repo_step split: sum.split option.split)

lemma protects_boot_objects: "keeps (protects G A D) (gc_boot_objects R dry os acc)"
  by (induction R dry os acc rule: gc_boot_objects.induct)
    (auto intro!: protects.keeps_bind protects_remove_objects split: sum.split option.split)

lemma protects_repo: "keeps (protects G A D) (gc_repo R dry roots acc)"
  unfolding gc_repo_def by (auto intro!: protects.keeps_bind protects_other split: sum.split prod.split)

lemma protects_images: "keeps (protects G A D) (prune_images dry roots)"
  unfolding prune_images_def by (auto intro!: protects_other)

lemma orphans_disjoint: "orphans dirs es = (xs, ys) \<Longrightarrow> set xs \<inter> ble_fsverity ` set es = {}"
  by (auto simp: orphans_def list_ex_iff)

lemma gc_prune_protects: "keeps (protects G A (ble_fsverity ` set es)) (gc_prune G dry h b es)"
  unfolding gc_prune_def Let_def
  by (rule protects.keeps_get)
    (auto split: prod.split intro!: protects.keeps_bind protects_orphans orphans_disjoint protects_tags
      protects_images protects_boot_objects protects_repo)

lemma gc_run_protects:
  "keeps (protects G (ble_boot_artifact_name ` set es) (ble_fsverity ` set es)) (gc_run G opts h es)"
  unfolding gc_run_def by (auto intro!: protects.keeps_bind protects_binaries gc_prune_protects)

lemma type1_name_inj: "get_type1_dir_name v = get_type1_dir_name w \<longleftrightarrow> v = w"
  by (simp add: get_type1_dir_name_def)

text \<open>
  C3. A collection never removes what a bootloader entry uses, also when it fails midway: the
  directory of its kernel and initrd, its UKI and its state directory stay, and the boot entries
  themselves are not changed. The hypothesis on the extensions is that no name is both that of a UKI
  and of an addon directory.
\<close>
theorem gc_keeps_referenced:
  assumes "composefs_gc G cmdline opts s = Some (r, s')"
    and "list_bootloader_entries (se_boot (ge_status G)) (se_bootloader (ge_status G)) (st_boot (g_storage s)) = Some (Inr es)"
    and "e \<in> set es"
    and "\<And>v w. v @ ge_efi_ext G \<noteq> w @ ge_addon_ext G"
  shows "st_boot (g_storage s') = st_boot (g_storage s)
    \<and> ((get_type1_dir_name (ble_boot_artifact_name e), d) \<in> set (g_boot_dir s) \<longrightarrow>
       (get_type1_dir_name (ble_boot_artifact_name e), d) \<in> set (g_boot_dir s'))
    \<and> (\<forall>names. g_uki_dir s = Some names \<and> get_uki_name (ge_efi_ext G) (ble_boot_artifact_name e) \<in> set names \<longrightarrow>
       (\<exists>names'. g_uki_dir s' = Some names' \<and> get_uki_name (ge_efi_ext G) (ble_boot_artifact_name e) \<in> set names'))
    \<and> map_of (st_state (g_storage s')) (ble_fsverity e) = map_of (st_state (g_storage s)) (ble_fsverity e)"
proof -
  let ?A = "ble_boot_artifact_name ` set es" and ?D = "ble_fsverity ` set es"
  have "\<exists>t. g_boot_dir t = g_boot_dir s \<and> g_uki_dir t = g_uki_dir s \<and> g_storage t = g_storage s \<and> protects G ?A ?D t s'"
    using assms(1)
  proof (cases rule: composefs_gc_cases)
    case (run repo h es')
    then have "es' = es" using assms(2) by simp
    then have "protects G ?A ?D (s\<lparr>g_repo := repo\<rparr>) s'"
      using run(4) gc_run_protects [of G es opts h] by (auto simp: keeps_def dest: spec [of _ "s\<lparr>g_repo := repo\<rparr>"])
    then show ?thesis by (intro exI [of _ "s\<lparr>g_repo := repo\<rparr>"]) simp
  next
    case (stopped repo)
    then show ?thesis using protects.R_refl by (intro exI [of _ s']) simp
  next
    case failed
    then show ?thesis using protects.R_refl by blast
  qed
  then obtain t where t: "g_boot_dir t = g_boot_dir s" "g_uki_dir t = g_uki_dir s" "g_storage t = g_storage s"
    and p: "protects G ?A ?D t s'" by blast
  have uki: "v \<in> ?A" if "get_uki_name (ge_efi_ext G) (ble_boot_artifact_name e) = get_uki_name (ge_efi_ext G) v
      \<or> get_uki_name (ge_efi_ext G) (ble_boot_artifact_name e) = get_uki_addon_dir_name (ge_addon_ext G) v" for v
    using that assms(3,4) by (auto simp: get_uki_name_def get_uki_addon_dir_name_def)
  show ?thesis
    using p assms(3) uki unfolding protects_def t by (auto simp: type1_name_inj)
qed

section \<open>Tags\<close>

lemma op_simps [simp]:
  "sret v s = (w, s') \<longleftrightarrow> w = Inr v \<and> s' = s" "slift r s = (w, s') \<longleftrightarrow> r = w \<and> s' = s"
  "sget f s = (w, s') \<longleftrightarrow> w = Inr (f s) \<and> s' = s" "sfail e s = (w, s') \<longleftrightarrow> w = Inl e \<and> s' = s"
  by (auto simp: sret_def slift_def sget_def sfail_def)

lemma smodify_simp [simp]: "smodify g s = (w, s') \<longleftrightarrow> w = Inr () \<and> s' = g s"
  by (auto simp: smodify_def)

lemma repo_step_Inr_iff:
  "repo_step f s = (Inr (), s') \<longleftrightarrow> (\<exists>r'. f (g_repo s) = Inr r' \<and> s' = s\<lparr>g_repo := r'\<rparr>)"
  by (auto simp: repo_step_def sbind_Inr_iff split: sum.splits)

text \<open>
  What the collection relies on: the tags of the repository map names to digests, tagging and
  untagging change the named tag only, and removing objects leaves the tags alone.
\<close>

locale tag_store =
  fixes R :: "'r repo_ops"
    and refs :: "'r \<Rightarrow> (string \<times> string) set"
  assumes list_refs: "r_list_refs R r = Inr l \<Longrightarrow> set l = refs r"
    and functional: "(n, d) \<in> refs r \<Longrightarrow> (n, d') \<in> refs r \<Longrightarrow> d = d'"
    and tag: "r_tag R r d n = Inr r' \<Longrightarrow> refs r' = insert (n, d) {p \<in> refs r. fst p \<noteq> n}"
    and untag: "r_untag R r n = Inr r' \<Longrightarrow> refs r' = {p \<in> refs r. fst p \<noteq> n}"
    and unlink: "r_unlink R r p = Inr r' \<Longrightarrow> refs r' = refs r"
    and repo_gc: "r_gc R r roots = Inr (r', res) \<Longrightarrow> refs r' = refs r"
begin

lemma create_missing_tags_refs:
  assumes "create_missing_tags R False existing ds s = (Inr (), s')"
    and "refs (g_repo s) = T \<union> {(bootc_tag_for_manifest d, d) |d. d \<in> D \<and> bootc_tag_for_manifest d \<notin> fst ` set existing}"
    and "fst ` T \<subseteq> fst ` set existing"
  shows "refs (g_repo s') = T \<union> {(bootc_tag_for_manifest d, d) |d. d \<in> D \<union> set ds \<and> bootc_tag_for_manifest d \<notin> fst ` set existing}"
  using assms
proof (induction ds arbitrary: s D)
  case (Cons d ds)
  let ?new = "\<lambda>D. {(bootc_tag_for_manifest d, d) |d. d \<in> D \<and> bootc_tag_for_manifest d \<notin> fst ` set existing}"
  from Cons.prems(1) obtain t where
    step: "(if bootc_tag_for_manifest d \<in> fst ` set existing then sret ()
        else repo_step (\<lambda>r. r_tag R r d (bootc_tag_for_manifest d))) s = (Inr (), t)"
    and rest: "create_missing_tags R False existing ds t = (Inr (), s')"
    by (force simp: create_missing_tags_def sbind_Inr_iff list_ex_iff Let_def split: if_splits)
  have "refs (g_repo t) = T \<union> ?new (insert d D)"
  proof (cases "bootc_tag_for_manifest d \<in> fst ` set existing")
    case True
    then show ?thesis using step Cons.prems(2) by auto
  next
    case False
    then have "refs (g_repo t) = insert (bootc_tag_for_manifest d, d)
        {p \<in> T \<union> ?new D. fst p \<noteq> bootc_tag_for_manifest d}"
      using step tag Cons.prems(2) by (auto simp: repo_step_Inr_iff)
    moreover have "fst p \<noteq> bootc_tag_for_manifest d" if "p \<in> T" for p
      using subsetD [OF Cons.prems(3) imageI [OF that]] False by metis
    ultimately show ?thesis using False by (auto simp: bootc_tag_for_manifest_def)
  qed
  from Cons.IH [OF rest this Cons.prems(3)] show ?case by simp
qed (simp add: create_missing_tags_def)

lemma remove_dead_tags_refs:
  assumes "remove_dead_tags R False ds tags s = (Inr (), s')"
  shows "refs (g_repo s') = {p \<in> refs (g_repo s).
    \<not> (\<exists>d. (fst p, d) \<in> set tags \<and> starts_with BOOTC_TAG_PREFIX (fst p) \<and> d \<notin> set ds)}"
  using assms
proof (induction tags arbitrary: s)
  case (Cons nd tags)
  obtain n d where nd: "nd = (n, d)" by force
  let ?dead = "starts_with BOOTC_TAG_PREFIX n \<and> d \<notin> set ds"
  from Cons.prems obtain t where
    step: "(if ?dead then repo_step (\<lambda>r. r_untag R r n) else sret ()) s = (Inr (), t)"
    and rest: "remove_dead_tags R False ds tags t = (Inr (), s')"
    by (auto simp: remove_dead_tags_def sbind_Inr_iff nd split: if_splits)
  have "refs (g_repo t) = {p \<in> refs (g_repo s). \<not> (?dead \<and> fst p = n)}"
    using step untag by (auto simp: repo_step_Inr_iff split: if_splits)
  with Cons.IH [OF rest] show ?case by (auto simp: nd)
qed (simp add: remove_dead_tags_def)

text \<open>After the tag phase: the tags of other owners, and for bootc exactly the live manifests.\<close>

lemma gc_tags_refs:
  assumes "gc_tags G False h os s = (Inr l, s')" and "ge_repo G = R"
  shows "\<exists>existing. set existing = refs (g_repo s) \<and> collect_live G s existing os (list_deployments h) live_init = Inr l
    \<and> refs (g_repo s') = {p \<in> refs (g_repo s) \<union>
        {(bootc_tag_for_manifest d, d) |d. d \<in> set (live_manifest_digests l) \<and> bootc_tag_for_manifest d \<notin> fst ` refs (g_repo s)}.
        starts_with BOOTC_TAG_PREFIX (fst p) \<longrightarrow> snd p \<in> set (live_manifest_digests l)}"
proof -
  from assms obtain existing t tags where
    1: "r_list_refs R (g_repo s) = Inr existing"
    and 2: "collect_live G s existing os (list_deployments h) live_init = Inr l"
    and 3: "create_missing_tags R False existing (live_manifest_digests l) s = (Inr (), t)"
    and 4: "r_list_refs R (g_repo t) = Inr tags"
    and 5: "remove_dead_tags R False (live_manifest_digests l) tags t = (Inr (), s')"
    by (auto simp: gc_tags_def sbind_Inr_iff lift_res_Inr_iff Let_def)
  have ex: "set existing = refs (g_repo s)" by (rule list_refs [OF 1])
  have t: "refs (g_repo t) = refs (g_repo s) \<union>
      {(bootc_tag_for_manifest d, d) |d. d \<in> set (live_manifest_digests l) \<and> bootc_tag_for_manifest d \<notin> fst ` refs (g_repo s)}"
    using create_missing_tags_refs [OF 3, of "refs (g_repo s)" "{}"] by (simp add: ex)
  have "refs (g_repo s') = {p \<in> refs (g_repo t). starts_with BOOTC_TAG_PREFIX (fst p) \<longrightarrow> snd p \<in> set (live_manifest_digests l)}"
    using remove_dead_tags_refs [OF 5] list_refs [OF 4] functional [of _ _ "g_repo t"] by fastforce
  with ex 2 show ?thesis unfolding t by blast
qed

end

context tag_store
begin

text \<open>The later phases leave the tags alone, and so do the earlier ones.\<close>

lemma remove_objects_refs:
  "remove_objects R dry ls acc s = (Inr acc', s') \<Longrightarrow> refs (g_repo s') = refs (g_repo s)"
proof (induction ls arbitrary: acc s)
  case (Cons x ls)
  then obtain a t where 1: "remove_object R dry x acc s = (Inr a, t)" "remove_objects R dry ls a t = (Inr acc', s')"
    by (auto simp: sbind_Inr_iff)
  have "refs (g_repo t) = refs (g_repo s)"
    using 1(1) unlink
    by (auto simp: remove_object_def sbind_Inr_iff repo_step_Inr_iff split: sum.splits option.splits if_splits)
  with Cons.IH [OF 1(2)] show ?case by simp
qed simp

lemma gc_boot_objects_refs:
  "gc_boot_objects R dry os acc s = (Inr acc', s') \<Longrightarrow> refs (g_repo s') = refs (g_repo s)"
proof (induction os arbitrary: acc s)
  case (Cons v os)
  have "\<exists>a t. refs (g_repo t) = refs (g_repo s) \<and> gc_boot_objects R dry os a t = (Inr acc', s')"
    using Cons.prems remove_objects_refs
    by (auto simp: sbind_Inr_iff split: sum.splits option.splits if_splits prod.splits) blast+
  with Cons.IH show ?case by metis
qed simp

lemma gc_repo_refs: "gc_repo R False roots acc s = (Inr res, s') \<Longrightarrow> refs (g_repo s') = refs (g_repo s)"
  using repo_gc by (auto simp: gc_repo_def sbind_Inr_iff split: sum.splits prod.splits)

end

definition same_repo :: "'r gc_state \<Rightarrow> 'r gc_state \<Rightarrow> bool" where
  "same_repo s t \<longleftrightarrow> g_repo t = g_repo s"

interpretation same_repo: state_order same_repo
  by unfold_locales (simp_all add: same_repo_def)

lemma same_repo_modify: "(\<And>s. g_repo (f s) = g_repo s) \<Longrightarrow> keeps same_repo (smodify f)"
  by (simp add: keeps_def same_repo_def smodify_def)

lemma same_repo_phases:
  "keeps same_repo (gc_binaries G dry b es)" "keeps same_repo (gc_orphans dry e xs ys)" "keeps same_repo (prune_images dry roots)"
  unfolding gc_binaries_def delete_binary_def delete_kernel_initrd_def delete_uki_def gc_orphans_def delete_staged_def
    delete_state_dir_def prune_images_def Let_def
  by (auto split: boot_type.split option.split
      intro!: same_repo.keeps_bind same_repo.keeps_for_each same_repo_modify)

lemma keepsD: "keeps R m \<Longrightarrow> m s = (r, s') \<Longrightarrow> R s s'"
  by (auto simp: keeps_def dest: spec [of _ s])

section \<open>Live deployments\<close>

lemma live_of_origin_mono:
  "live_of_origin G repo tags v ini l = Inr l' \<Longrightarrow> set (live_manifest_digests l) \<subseteq> set (live_manifest_digests l')"
  by (auto simp: live_of_origin_def rbind_Inr_iff Let_def split: option.splits)

lemma live_of_origin_digest:
  assumes "live_of_origin G repo tags v ini l = Inr l'" and "ini ''image'' ''manifest_digest'' = Some m"
  shows "\<exists>dg. r_parse_digest (ge_repo G) m = Inr dg \<and> dg \<in> set (live_manifest_digests l')"
  using assms by (auto simp: live_of_origin_def rbind_Inr_iff lift_res_Inr_iff Let_def)

text \<open>The remaining deployments after one step of the loop.\<close>

lemma collect_live_step:
  assumes "collect_live G s tags os (d # ds) l = Inr l'"
  obtains c l1 where "be_composefs d = Some c" "collect_live G s tags os ds l1 = Inr l'"
    "set (live_manifest_digests l) \<subseteq> set (live_manifest_digests l1)"
    "\<forall>ini m. verity c \<notin> set os \<and> read_origin (se_ini (ge_status G)) (st_state (g_storage s)) (verity c) = Inr (Some ini) \<and>
      ini ''image'' ''manifest_digest'' = Some m \<longrightarrow>
      (\<exists>dg. r_parse_digest (ge_repo G) m = Inr dg \<and> dg \<in> set (live_manifest_digests l1))"
proof -
  obtain c where c: "be_composefs d = Some c"
    using assms by (auto simp: rbind_Inr_iff lift_res_Inr_iff require_composefs_def ok_or_Inr_iff)
  let ?l = "l\<lparr>additional_roots := additional_roots l @ [verity c]\<rparr>"
  show thesis
  proof (cases "verity c \<in> set os")
    case True
    then show thesis using assms c that [of c l] by (simp add: require_composefs_def lift_res_def)
  next
    case False
    then obtain i where i: "read_origin (se_ini (ge_status G)) (st_state (g_storage s)) (verity c) = Inr i"
      using assms c by (auto simp: require_composefs_def lift_res_Inr_iff rbind_Inr_iff Let_def)
    show thesis
    proof (cases i)
      case None
      then show thesis using assms c i False that [of c ?l] by (simp add: require_composefs_def lift_res_def)
    next
      case (Some ini)
      then obtain l1 where "live_of_origin G (g_repo s) tags (verity c) ini ?l = Inr l1" "collect_live G s tags os ds l1 = Inr l'"
        using assms c i False by (auto simp: require_composefs_def lift_res_def rbind_Inr_iff Let_def)
      then show thesis
        using c i Some live_of_origin_mono live_of_origin_digest by (intro that [of c l1]) fastforce+
    qed
  qed
qed

lemma collect_live_mono:
  "collect_live G s tags os ds l = Inr l' \<Longrightarrow> set (live_manifest_digests l) \<subseteq> set (live_manifest_digests l')"
  by (induction ds arbitrary: l) (simp, blast elim: collect_live_step dest: subset_trans)

lemma collect_live_digest:
  "collect_live G s tags os ds l = Inr l' \<Longrightarrow> d \<in> set ds \<Longrightarrow> be_composefs d = Some c \<Longrightarrow> verity c \<notin> set os \<Longrightarrow>
   read_origin (se_ini (ge_status G)) (st_state (g_storage s)) (verity c) = Inr (Some ini) \<Longrightarrow>
   ini ''image'' ''manifest_digest'' = Some m \<Longrightarrow>
   \<exists>dg. r_parse_digest (ge_repo G) m = Inr dg \<and> dg \<in> set (live_manifest_digests l')"
proof (induction ds arbitrary: l)
  case (Cons d' ds)
  from Cons.prems(1) obtain c' l1 where step: "be_composefs d' = Some c'" "collect_live G s tags os ds l1 = Inr l'"
    "set (live_manifest_digests l) \<subseteq> set (live_manifest_digests l1)"
    "\<forall>ini m. verity c' \<notin> set os \<and> read_origin (se_ini (ge_status G)) (st_state (g_storage s)) (verity c') = Inr (Some ini) \<and>
      ini ''image'' ''manifest_digest'' = Some m \<longrightarrow>
      (\<exists>dg. r_parse_digest (ge_repo G) m = Inr dg \<and> dg \<in> set (live_manifest_digests l1))"
    by (rule collect_live_step)
  show ?case
  proof (cases "d = d'")
    case True
    with step(1) Cons.prems(3) have "c' = c" by simp
    with step(4) Cons.prems(4-6) collect_live_mono [OF step(2)] show ?thesis by blast
  next
    case False
    with Cons.prems show ?thesis by (intro Cons.IH [OF step(2)]) auto
  qed
qed simp

lemma read_origin_cong: "map_of a v = map_of b v \<Longrightarrow> read_origin p a v = read_origin p b v"
  by (simp add: read_origin_def)

lemma not_orphan:
  assumes "orphans (list_deployment_state_dirs st) es = (xs, ys)" and "v \<in> ble_fsverity ` set es"
    and "read_origin p st v = Inr (Some ini)"
  shows "v \<notin> set (xs @ ys)"
proof -
  from assms(3) obtain f where "map_of st v = Some (StateDir f)"
    by (auto simp: read_origin_def split: option.splits state_item.splits sum.splits)
  then have "v \<in> set (list_deployment_state_dirs st)"
    by (force simp: list_deployment_state_dirs_def dest: map_of_SomeD)
  moreover have "v \<notin> set xs" using orphans_disjoint [OF assms(1)] assms(2) by blast
  ultimately show ?thesis using assms(1) by (auto simp: orphans_def)
qed

definition bootc_tags_named :: "(string \<times> string) set \<Rightarrow> bool" where
  "bootc_tags_named T \<longleftrightarrow> (\<forall>(n, d) \<in> T. starts_with BOOTC_TAG_PREFIX n \<longrightarrow> n = bootc_tag_for_manifest d)"

lemma starts_with_bootc_tag: "starts_with BOOTC_TAG_PREFIX (bootc_tag_for_manifest d)"
  by (simp add: bootc_tag_for_manifest_def BOOTC_TAG_PREFIX_def starts_with_def)

context tag_store
begin

lemma gc_tags_live:
  assumes "gc_tags G False h os s = (Inr l, s')" and "ge_repo G = R" and "bootc_tags_named (refs (g_repo s))"
  shows "{p \<in> refs (g_repo s). \<not> starts_with BOOTC_TAG_PREFIX (fst p)} \<subseteq> refs (g_repo s')"
    and "dg \<in> set (live_manifest_digests l) \<Longrightarrow> (bootc_tag_for_manifest dg, dg) \<in> refs (g_repo s')"
proof -
  note refs' = gc_tags_refs [OF assms(1,2)]
  from refs' show "{p \<in> refs (g_repo s). \<not> starts_with BOOTC_TAG_PREFIX (fst p)} \<subseteq> refs (g_repo s')" by auto
  assume dg: "dg \<in> set (live_manifest_digests l)"
  have "(bootc_tag_for_manifest dg, dg) \<in> refs (g_repo s)" if "bootc_tag_for_manifest dg \<in> fst ` refs (g_repo s)"
  proof -
    from that obtain d where "(bootc_tag_for_manifest dg, d) \<in> refs (g_repo s)" by force
    moreover from this have "bootc_tag_for_manifest dg = bootc_tag_for_manifest d"
      using assms(3) starts_with_bootc_tag [of dg] by (auto simp: bootc_tags_named_def)
    ultimately show ?thesis by (simp add: bootc_tag_for_manifest_def)
  qed
  with dg refs' show "(bootc_tag_for_manifest dg, dg) \<in> refs (g_repo s')" by auto
qed

lemma gc_prune_parts:
  assumes "gc_prune G False h b es s = (Inr res, s')" and "ge_repo G = R"
  obtains xs ys t l t2 where "orphans (list_deployment_state_dirs (st_state (g_storage s))) es = (xs, ys)"
    "gc_orphans False (staged (host_status_of h)) xs ys s = (Inr (), t)"
    "gc_tags G False h (xs @ ys) t = (Inr l, t2)" "refs (g_repo s') = refs (g_repo t2)"
proof -
  obtain xs ys where o: "orphans (list_deployment_state_dirs (st_state (g_storage s))) es = (xs, ys)" by force
  with assms obtain t l t2 t3 t4 acc where
    "gc_orphans False (staged (host_status_of h)) xs ys s = (Inr (), t)"
    "gc_tags G False h (xs @ ys) t = (Inr l, t2)"
    and p: "prune_images False (live_container_images l) t2 = (Inr (), t3)"
    "gc_boot_objects R False (xs @ ys) gc_result_default t3 = (Inr acc, t4)"
    "gc_repo R False (additional_roots l) acc t4 = (Inr res, s')"
    by (auto simp: gc_prune_def sbind_Inr_iff Let_def split: if_splits)
  moreover have "refs (g_repo s') = refs (g_repo t2)"
    using gc_repo_refs [OF p(3)] gc_boot_objects_refs [OF p(2)] keepsD [OF same_repo_phases(3) p(1)]
    by (simp add: same_repo_def)
  ultimately show thesis using that o by blast
qed

lemma gc_prune_tags:
  assumes "gc_prune G False h b es s = (Inr res, s')" and "ge_repo G = R" and "bootc_tags_named (refs (g_repo s))"
  shows "{p \<in> refs (g_repo s). \<not> starts_with BOOTC_TAG_PREFIX (fst p)} \<subseteq> refs (g_repo s')"
    and "d \<in> set (list_deployments h) \<Longrightarrow> be_composefs d = Some c \<Longrightarrow> verity c \<in> ble_fsverity ` set es \<Longrightarrow>
      read_origin (se_ini (ge_status G)) (st_state (g_storage s)) (verity c) = Inr (Some ini) \<Longrightarrow>
      ini ''image'' ''manifest_digest'' = Some m \<Longrightarrow>
      \<exists>dg. r_parse_digest R m = Inr dg \<and> (bootc_tag_for_manifest dg, dg) \<in> refs (g_repo s')"
proof -
  obtain xs ys t l t2 where o: "orphans (list_deployment_state_dirs (st_state (g_storage s))) es = (xs, ys)"
    and t: "gc_orphans False (staged (host_status_of h)) xs ys s = (Inr (), t)"
    and l: "gc_tags G False h (xs @ ys) t = (Inr l, t2)" and s': "refs (g_repo s') = refs (g_repo t2)"
    by (rule gc_prune_parts [OF assms(1,2)])
  have repo: "g_repo t = g_repo s" using keepsD [OF same_repo_phases(2) t] by (simp add: same_repo_def)
  note live = gc_tags_live [OF l assms(2)] gc_tags_refs [OF l assms(2)]
  show "{p \<in> refs (g_repo s). \<not> starts_with BOOTC_TAG_PREFIX (fst p)} \<subseteq> refs (g_repo s')"
    using live(1) assms(3) unfolding repo s' .
  assume d: "d \<in> set (list_deployments h)" "be_composefs d = Some c" "verity c \<in> ble_fsverity ` set es"
    and ini: "read_origin (se_ini (ge_status G)) (st_state (g_storage s)) (verity c) = Inr (Some ini)"
      "ini ''image'' ''manifest_digest'' = Some m"
  have "map_of (st_state (g_storage t)) (verity c) = map_of (st_state (g_storage s)) (verity c)"
    using keepsD [OF protects_orphans [OF orphans_disjoint [OF o], where G = G and A = "{}"] t] d(3) by (auto simp: protects_def)
  then have ro: "read_origin (se_ini (ge_status G)) (st_state (g_storage t)) (verity c) = Inr (Some ini)"
    using ini(1) read_origin_cong by metis
  have no: "verity c \<notin> set (xs @ ys)" by (rule not_orphan [OF o d(3) ini(1)])
  obtain existing where "collect_live G t existing (xs @ ys) (list_deployments h) live_init = Inr l"
    using live(3) by blast
  from collect_live_digest [OF this d(1,2) no ro, where m = m] ini(2)
  obtain dg where "r_parse_digest (ge_repo G) m = Inr dg" "dg \<in> set (live_manifest_digests l)" by blast
  with live(2) show "\<exists>dg. r_parse_digest R m = Inr dg \<and> (bootc_tag_for_manifest dg, dg) \<in> refs (g_repo s')"
    using assms(2,3) by (auto simp: repo s')
qed

end

text \<open>
  C26. After a successful collection that is not a dry run and prunes the repository, every deployment of the status
  whose origin records a manifest
  digest has its bootc tag, and tags of other owners are untouched. The repository satisfies the
  laws of tags, and bootc tags are named by their digests. A collection that does not prune the repository, as in the finalization of
  a staged deployment, does not touch tags.
\<close>
theorem gc_live_tags:
  assumes "tag_store (ge_repo G) refs" and "composefs_gc G cmdline opts s = Some (Inr res, s')"
    and "\<not> dry_run opts" and "prune_repo opts"
    and "r_upgrade (ge_repo G) (g_repo s) = Inr repo" and "bootc_tags_named (refs repo)"
    and "composefs_deployment_status_from (ge_status G) (g_storage s) cmdline = Some (Inr h)"
  shows "{p \<in> refs repo. \<not> starts_with BOOTC_TAG_PREFIX (fst p)} \<subseteq> refs (g_repo s')
    \<and> (\<forall>d\<in>set (list_deployments h). \<forall>c ini m. be_composefs d = Some c
         \<and> read_origin (se_ini (ge_status G)) (st_state (g_storage s)) (verity c) = Inr (Some ini)
         \<and> ini ''image'' ''manifest_digest'' = Some m \<longrightarrow>
         (\<exists>dg. r_parse_digest (ge_repo G) m = Inr dg \<and> (bootc_tag_for_manifest dg, dg) \<in> refs (g_repo s')))"
proof -
  let ?V = "ge_status G"
  obtain es where es: "list_bootloader_entries (se_boot ?V) (se_bootloader ?V) (st_boot (g_storage s)) = Some (Inr es)"
    by (rule status_parts [OF assms(7)])
  then have run: "gc_run G opts h es (s\<lparr>g_repo := repo\<rparr>) = (Inr res, s')"
    using assms(2,5,7) by (simp add: composefs_gc_def)
  then obtain b t where t: "gc_binaries G False b es (s\<lparr>g_repo := repo\<rparr>) = (Inr (), t)"
    and p: "gc_prune G False h b es t = (Inr res, s')"
    using assms(3,4) by (auto simp: gc_run_def sbind_Inr_iff)
  have repo: "g_repo t = repo" using keepsD [OF same_repo_phases(1) t] by (simp add: same_repo_def)
  have same: "read_origin (se_ini ?V) (st_state (g_storage t)) v = read_origin (se_ini ?V) (st_state (g_storage s)) v"
    if "v \<in> ble_fsverity ` set es" for v
    using keepsD [OF protects_binaries [where D = "ble_fsverity ` set es"] t] that
    by (intro read_origin_cong) (auto simp: protects_def)
  note tags = tag_store.gc_prune_tags [OF assms(1) p refl]
  have "\<exists>dg. r_parse_digest (ge_repo G) m = Inr dg \<and> (bootc_tag_for_manifest dg, dg) \<in> refs (g_repo s')"
    if d: "d \<in> set (list_deployments h)" "be_composefs d = Some c"
      and ini: "read_origin (se_ini ?V) (st_state (g_storage s)) (verity c) = Inr (Some ini)"
        "ini ''image'' ''manifest_digest'' = Some m" for d c ini m
  proof -
    have v: "verity c \<in> ble_fsverity ` set es"
      using status_listed [OF assms(7) d(1) es] d(2) by (auto simp: listed_def)
    from tags(2) [where ini = ini and m = m, OF _ d v] same [OF v] ini assms(6) repo show ?thesis by simp
  qed
  with tags(1) assms(6) show ?thesis unfolding repo by blast
qed

section \<open>A concrete repository and collection\<close>

text \<open>Tags as an association list; no objects.\<close>

definition repo_ref :: "(string \<times> string) list repo_ops" where
  "repo_ref = \<lparr>r_upgrade = Inr,
     r_list_refs = (\<lambda>r. Inr (filter (\<lambda>(n, d). map_of r n = Some d) r)),
     r_image_refs = (\<lambda>_ _. Inl ''not found''),
     r_tag = (\<lambda>r d n. Inr ((n, d) # filter (\<lambda>p. fst p \<noteq> n) r)),
     r_untag = (\<lambda>r n. Inr (filter (\<lambda>p. fst p \<noteq> n) r)),
     r_parse_digest = Inr, r_hash = Inr, r_linked = (\<lambda>_ _. Inr []), r_dump = (\<lambda>_ _. Inr []),
     r_dump_regular = (\<lambda>_. Inr None), r_object_size = (\<lambda>_ _. None), r_unlink = (\<lambda>r _. Inr r),
     r_gc = (\<lambda>r _. Inr (r, gc_result_default)), r_gc_dry_run = (\<lambda>_ _. Inr gc_result_default)\<rparr>"

abbreviation refs_ref :: "(string \<times> string) list \<Rightarrow> (string \<times> string) set" where
  "refs_ref r \<equiv> {(n, d). map_of r n = Some d}"

lemma map_of_filter_name: "map_of (filter (\<lambda>p. fst p \<noteq> n) r) m = (if m = n then None else map_of r m)"
  by (induction r) auto

interpretation repo_ref: tag_store repo_ref refs_ref
proof
  fix r :: "(string \<times> string) list" and l
  assume "r_list_refs repo_ref r = Inr l"
  then show "set l = refs_ref r" by (auto simp: repo_ref_def dest: map_of_SomeD)
qed (auto simp: repo_ref_def map_of_filter_name split: if_splits)

definition demo_gc_env :: "(transport_ref, (string \<times> string) list) gc_env" where
  "demo_gc_env = \<lparr>ge_status = demo_status_env, ge_repo = repo_ref, ge_efi_ext = ''.efi'', ge_addon_ext = ''.efi.extra.d''\<rparr>"

definition demo_gc_state :: "(string \<times> string) list gc_state" where
  "demo_gc_state = \<lparr>g_storage = demo_storage,
     g_uki_dir = Some [get_uki_name ''.efi'' ''ab'', get_uki_name ''.efi'' ''cd'', get_uki_name ''.efi'' ''ef''],
     g_boot_dir = [(''grub2'', True)], g_images = None,
     g_repo = [(''localhost/bootc-sha256:0'', ''sha256:0''), (''quay.io/app'', ''sha256:2'')]\<rparr>"

lemma demo_deployments: "list_deployments demo_host = [demo_boot_entry ''ab'', (demo_boot_entry ''cd'')\<lparr>be_soft_reboot_capable := True\<rparr>]"
  "staged (host_status_of demo_host) = None"
  "require_composefs_booted demo_host = Inr (the (be_composefs (demo_boot_entry ''ab'')))"
  by (simp_all add: demo_host_def list_deployments_def fill_slots_def scanned_host_def host_new_def host_status_default_def
      require_composefs_booted_def require_composefs_def demo_boot_entry_def Let_def)

lemma demo_gc_unfold:
  "composefs_gc demo_gc_env demo_cmdline opts demo_gc_state = Some (gc_run demo_gc_env opts demo_host
     [\<lparr>ble_fsverity = ''ab'', ble_boot_artifact_name = ''ab''\<rparr>, \<lparr>ble_fsverity = ''cd'', ble_boot_artifact_name = ''cd''\<rparr>] demo_gc_state)"
proof -
  have e: "ge_status demo_gc_env = demo_status_env" "ge_repo demo_gc_env = repo_ref" "g_storage demo_gc_state = demo_storage"
    "se_boot demo_status_env = demo_env" "se_bootloader demo_status_env = Systemd" "r_upgrade repo_ref = Inr"
    by (simp_all add: demo_gc_env_def demo_gc_state_def demo_status_env_def repo_ref_def)
  show ?thesis by (simp add: composefs_gc_def e demo_status demo_list)
qed

theorem gc_dry_run_unchanged_witness:
  "\<exists>r. composefs_gc demo_gc_env demo_cmdline \<lparr>dry_run = True, prune_repo = True\<rparr> demo_gc_state = Some (r, demo_gc_state)"
proof -
  obtain r s' where run: "composefs_gc demo_gc_env demo_cmdline \<lparr>dry_run = True, prune_repo = True\<rparr> demo_gc_state = Some (r, s')"
    using demo_gc_unfold by (metis surj_pair)
  have "r_upgrade (ge_repo demo_gc_env) (g_repo demo_gc_state) = Inr (g_repo demo_gc_state)"
    by (simp add: demo_gc_env_def repo_ref_def)
  with gc_dry_run_unchanged [OF _ run] have "s' = demo_gc_state" by auto
  with run show ?thesis by blast
qed

theorem gc_keeps_referenced_witness:
  "\<exists>r s'. composefs_gc demo_gc_env demo_cmdline \<lparr>dry_run = False, prune_repo = False\<rparr> demo_gc_state = Some (r, s')
    \<and> (\<exists>names. g_uki_dir s' = Some names \<and> get_uki_name ''.efi'' ''cd'' \<in> set names)
    \<and> map_of (st_state (g_storage s')) ''cd'' = map_of (st_state demo_storage) ''cd''"
proof -
  let ?e = "\<lparr>ble_fsverity = ''cd'', ble_boot_artifact_name = ''cd''\<rparr>"
  obtain r s' where run: "composefs_gc demo_gc_env demo_cmdline \<lparr>dry_run = False, prune_repo = False\<rparr> demo_gc_state = Some (r, s')"
    using demo_gc_unfold by (metis surj_pair)
  have l: "list_bootloader_entries (se_boot (ge_status demo_gc_env)) (se_bootloader (ge_status demo_gc_env))
      (st_boot (g_storage demo_gc_state)) = Some (Inr [\<lparr>ble_fsverity = ''ab'', ble_boot_artifact_name = ''ab''\<rparr>, ?e])"
    using demo_list by (simp add: demo_gc_env_def demo_gc_state_def demo_status_env_def)
  have x: "v @ ge_efi_ext demo_gc_env \<noteq> w @ ge_addon_ext demo_gc_env" for v w
    by (auto simp: demo_gc_env_def dest: arg_cong [where f = last])
  have "\<exists>names. g_uki_dir s' = Some names \<and> get_uki_name ''.efi'' ''cd'' \<in> set names"
    and "map_of (st_state (g_storage s')) ''cd'' = map_of (st_state demo_storage) ''cd''"
    using gc_keeps_referenced [OF run l, of ?e] x by (auto simp: demo_gc_env_def demo_gc_state_def)
  with run show ?thesis by blast
qed

lemma repo_ref_list: "\<exists>l. r_list_refs repo_ref r = Inr l"
  by (simp add: repo_ref_def)

lemma repo_ref_create: "\<exists>s'. create_missing_tags repo_ref dry ex ds s = (Inr (), s')"
proof (induction ds arbitrary: s)
  case (Cons d ds)
  have "\<exists>t. (let tag = bootc_tag_for_manifest d in if list_ex (\<lambda>(n, _). n = tag) ex then sret ()
      else if dry then sret () else repo_step (\<lambda>r. r_tag repo_ref r d tag)) s = (Inr (), t)"
    by (auto simp: repo_step_Inr_iff repo_ref_def Let_def)
  with Cons.IH show ?case by (fastforce simp: create_missing_tags_def sbind_Inr_iff)
qed (simp add: create_missing_tags_def)

lemma repo_ref_remove: "\<exists>s'. remove_dead_tags repo_ref dry ds tags s = (Inr (), s')"
proof (induction tags arbitrary: s)
  case (Cons nd tags)
  have "\<exists>t. (\<lambda>(n, d). if \<not> starts_with BOOTC_TAG_PREFIX n then sret () else if d \<in> set ds then sret ()
      else if dry then sret () else repo_step (\<lambda>r. r_untag repo_ref r n)) nd s = (Inr (), t)"
    by (auto simp: repo_step_Inr_iff repo_ref_def split: prod.split)
  with Cons.IH show ?case by (fastforce simp: remove_dead_tags_def sbind_Inr_iff)
qed (simp add: remove_dead_tags_def)

lemma demo_gc_runs:
  "\<exists>res s'. composefs_gc demo_gc_env demo_cmdline \<lparr>dry_run = False, prune_repo = True\<rparr> demo_gc_state = Some (Inr res, s')"
proof -
  have bins: "unreferenced_boot_binaries (collect_boot_binaries demo_gc_env demo_gc_state)
      [\<lparr>ble_fsverity = ''ab'', ble_boot_artifact_name = ''ab''\<rparr>, \<lparr>ble_fsverity = ''cd'', ble_boot_artifact_name = ''cd''\<rparr>]
      = [(UkiBoot, ''ef'')]"
    by code_simp
  have del: "delete_binary demo_gc_env False (UkiBoot, ''ef'') demo_gc_state = (Inr (),
      demo_gc_state\<lparr>g_uki_dir := Some [get_uki_name ''.efi'' ''ab'', get_uki_name ''.efi'' ''cd'']\<rparr>)"
    by (simp add: delete_binary_def delete_uki_def sbind_def sget_def sret_def smodify_def demo_gc_state_def demo_gc_env_def
        get_uki_name_def get_uki_addon_dir_name_def)
  have ge: "ge_repo demo_gc_env = repo_ref" by (simp add: demo_gc_env_def)
  let ?s = "demo_gc_state\<lparr>g_uki_dir := Some [get_uki_name ''.efi'' ''ab'', get_uki_name ''.efi'' ''cd'']\<rparr>"
  have o: "orphans (list_deployment_state_dirs (st_state (g_storage demo_gc_state)))
      [\<lparr>ble_fsverity = ''ab'', ble_boot_artifact_name = ''ab''\<rparr>, \<lparr>ble_fsverity = ''cd'', ble_boot_artifact_name = ''cd''\<rparr>] = ([], [])"
    by (simp add: orphans_def list_deployment_state_dirs_def demo_gc_state_def demo_storage_def)
  have live: "collect_live demo_gc_env ?s tags [] (list_deployments demo_host) live_init
      = Inr \<lparr>live_manifest_digests = [''sha256:1'', ''sha256:1''], additional_roots = [''ab'', ''cd''], live_container_images = []\<rparr>" for tags
    by (simp add: demo_deployments live_init_def require_composefs_def lift_res_def demo_boot_entry_def read_origin_def
        demo_gc_env_def demo_gc_state_def demo_storage_def demo_status_env_def live_of_origin_def repo_ref_def Let_def)
  let ?l = "\<lparr>live_manifest_digests = [''sha256:1'', ''sha256:1''], additional_roots = [''ab'', ''cd''], live_container_images = []\<rparr>"
  obtain ex t1 tg t2 where steps: "r_list_refs repo_ref (g_repo ?s) = Inr ex"
    "create_missing_tags repo_ref False ex (live_manifest_digests ?l) ?s = (Inr (), t1)"
    "r_list_refs repo_ref (g_repo t1) = Inr tg" "remove_dead_tags repo_ref False (live_manifest_digests ?l) tg t1 = (Inr (), t2)"
    using repo_ref_list repo_ref_create repo_ref_remove by metis
  define l where "l = ?l"
  have tags: "gc_tags demo_gc_env False demo_host [] ?s = (Inr l, t2)"
    using steps live [of ex]
    unfolding l_def [symmetric] gc_tags_def Let_def ge sbind_def sget_def slift_def sret_def by (simp add: lift_res_def)
  show ?thesis
    using tags l_def by (simp add: demo_gc_unfold gc_run_def gc_binaries_def gc_prune_def sbind_def slift_def sget_def sret_def
        demo_deployments lift_res_def bins del o gc_orphans_def prune_images_def gc_repo_def repo_ref_def smodify_def
        demo_boot_entry_def ge Let_def)
qed

theorem gc_live_tags_witness:
  "\<exists>res s'. composefs_gc demo_gc_env demo_cmdline \<lparr>dry_run = False, prune_repo = True\<rparr> demo_gc_state = Some (Inr res, s')
    \<and> (''quay.io/app'', ''sha256:2'') \<in> refs_ref (g_repo s')
    \<and> (bootc_tag_for_manifest ''sha256:1'', ''sha256:1'') \<in> refs_ref (g_repo s')"
proof -
  obtain res s' where run: "composefs_gc demo_gc_env demo_cmdline \<lparr>dry_run = False, prune_repo = True\<rparr> demo_gc_state = Some (Inr res, s')"
    using demo_gc_runs by blast
  have e: "ge_repo demo_gc_env = repo_ref" "ge_status demo_gc_env = demo_status_env" "g_storage demo_gc_state = demo_storage"
    by (simp_all add: demo_gc_env_def demo_gc_state_def)
  define T where "T = refs_ref (g_repo demo_gc_state)"
  have T: "T = {(''localhost/bootc-sha256:0'', ''sha256:0''), (''quay.io/app'', ''sha256:2'')}"
    by (auto simp: T_def demo_gc_state_def split: if_splits)
  have named: "bootc_tags_named T"
    by (simp add: T bootc_tags_named_def starts_with_def bootc_tag_for_manifest_def BOOTC_TAG_PREFIX_def)
  have up: "r_upgrade (ge_repo demo_gc_env) (g_repo demo_gc_state) = Inr (g_repo demo_gc_state)"
    by (simp add: e repo_ref_def)
  have st: "tag_store (ge_repo demo_gc_env) refs_ref" using repo_ref.tag_store_axioms by (simp add: e)
  have status: "composefs_deployment_status_from (ge_status demo_gc_env) (g_storage demo_gc_state) demo_cmdline = Some (Inr demo_host)"
    using demo_status by (simp add: e)
  have g: "{p \<in> T. \<not> starts_with BOOTC_TAG_PREFIX (fst p)} \<subseteq> refs_ref (g_repo s')
    \<and> (\<forall>d\<in>set (list_deployments demo_host). \<forall>c ini m. be_composefs d = Some c
         \<and> read_origin (se_ini demo_status_env) (st_state demo_storage) (verity c) = Inr (Some ini)
         \<and> ini ''image'' ''manifest_digest'' = Some m \<longrightarrow>
         (\<exists>dg. r_parse_digest repo_ref m = Inr dg \<and> (bootc_tag_for_manifest dg, dg) \<in> refs_ref (g_repo s')))"
    unfolding T_def e [symmetric]
    by (rule gc_live_tags [OF st run _ _ up _ status]) (use named T_def in simp_all)
  note p = conjunct1 [OF g] and live = conjunct2 [OF g]
  have "(''quay.io/app'', ''sha256:2'') \<in> refs_ref (g_repo s')"
    by (rule subsetD [OF p]) (simp add: T starts_with_def BOOTC_TAG_PREFIX_def)
  moreover have "(bootc_tag_for_manifest ''sha256:1'', ''sha256:1'') \<in> refs_ref (g_repo s')"
    using live by (simp add: demo_deployments demo_boot_entry_def read_origin_def demo_storage_def demo_status_env_def repo_ref_def)
  ultimately show ?thesis using run by blast
qed

end
