(* ===== verification/Cfs_Delete.thy ===== *)
theory Cfs_Delete
  imports Cfs_GC
begin

text \<open>
  Deleting a deployment (\<^verbatim>\<open>delete_composefs_deployment\<close> of
  \<^verbatim>\<open>crates/lib/src/bootc_composefs/delete.rs\<close>): a queued rollback to it is undone, its boot entry is
  removed, and the garbage collection removes what nothing refers to any more. When undoing the
  rollback or removing the entry fails, the state returned is the one before that step.
\<close>

definition is_staged_deployment :: "host \<Rightarrow> string \<Rightarrow> bool" where
  "is_staged_deployment h deployment_id =
     (case staged (host_status_of h) of
        None \<Rightarrow> False
      | Some s \<Rightarrow> (case be_composefs s of None \<Rightarrow> False | Some cfs \<Rightarrow> verity cfs = deployment_id))"

definition unqueue_rollback ::
    "('t, 'r) gc_env \<Rightarrow> host \<Rightarrow> deployment_entry \<Rightarrow> storage \<Rightarrow> storage outcome option" where
  "unqueue_rollback G h depl S =
     (if de_ty depl = Some SlotRollback \<and> rollback_queued (host_status_of h)
      then obind (composefs_rollback (se_boot (ge_status G)) (se_bootloader (ge_status G)) h
                    (st_staged_file S \<noteq> None) (st_boot S)) (\<lambda>(d, staged_file).
           Some (Inr (S\<lparr>st_boot := d, st_staged_file := (if staged_file then st_staged_file S else None)\<rparr>)))
      else Some (Inr S))"

definition select_deployment :: "host \<Rightarrow> string \<Rightarrow> deployment_entry outcome" where
  "select_deployment h deployment_id =
     rbind (lift_res (require_composefs_booted h)) (\<lambda>b.
     if deployment_id = verity b then Inl (Err ''Cannot delete currently booted deployment'')
     else rbind (lift_res (all_composefs_deployments h)) (\<lambda>all_depls.
          ok_or (Err ''Deployment not found'')
            (List.find (\<lambda>d. verity (de_deployment d) = deployment_id) all_depls)))"

definition remove_entry ::
    "('t, 'r) gc_env \<Rightarrow> host \<Rightarrow> string \<Rightarrow> storage \<Rightarrow> storage outcome option" where
  "remove_entry G h deployment_id S =
     obind (Some (select_deployment h deployment_id)) (\<lambda>depl.
     obind (unqueue_rollback G h depl S) (\<lambda>S.
     obind (delete_depl_boot_entries (se_boot (ge_status G)) depl (st_boot S) (is_staged_deployment h deployment_id)) (\<lambda>d.
     Some (Inr (S\<lparr>st_boot := d\<rparr>)))))"

definition delete_composefs_deployment ::
    "('t, 'r) gc_env \<Rightarrow> composefs_cmdline \<Rightarrow> string \<Rightarrow> 'r gc_state \<Rightarrow> (gc_result outcome \<times> 'r gc_state) option" where
  "delete_composefs_deployment G cmdline deployment_id s =
     (case obind (composefs_deployment_status_from (ge_status G) (g_storage s) cmdline) (\<lambda>h.
             remove_entry G h deployment_id (g_storage s)) of
        None \<Rightarrow> None
      | Some (Inl e) \<Rightarrow> Some (Inl e, s)
      | Some (Inr S) \<Rightarrow> composefs_gc G cmdline \<lparr>dry_run = False, prune_repo = True\<rparr> (s\<lparr>g_storage := S\<rparr>))"

section \<open>Returning\<close>

text \<open>Without a GRUB menu every step returns.\<close>

lemma list_entries_returns:
  "bootloader_kind_of bl \<noteq> Inr GRUBClassic \<or> user_cfg d = None \<Longrightarrow> list_bootloader_entries E bl d \<noteq> None"
  by (auto simp: list_bootloader_entries_def split: sum.split bootloader_kind.split)

lemma obind_None_iff: "obind x f = None \<longleftrightarrow> x = None \<or> (\<exists>v. x = Some (Inr v) \<and> f v = None)"
  by (auto simp: obind_def split: option.splits sum.splits)

lemma menu_state_returns:
  "bootloader_kind_of bl \<noteq> Inr GRUBClassic \<Longrightarrow> menu_state V d g bl ty \<noteq> None"
  by (cases bl) (auto simp: menu_state_def lift_res_def)

lemma scanned_bootloader:
  assumes "scan_entries V S c es scan_init = Inr s" and "require_composefs_booted (scanned_host s) = Inr b"
  shows "cfs_bootloader b = se_bootloader V"
proof -
  have "booted_ok V c s"
    using scan_entries_ok [OF assms(1)] by (simp add: booted_ok_def staged_ok_def scan_init_def)
  then show ?thesis
    using assms(2) by (auto simp: booted_ok_def require_composefs_booted_def require_composefs_def rbind_Inr_iff
        ok_or_Inr_iff scanned_host_def host_new_def Let_def)
qed

lemma status_returns:
  assumes "bootloader_kind_of (se_bootloader V) \<noteq> Inr GRUBClassic"
  shows "composefs_deployment_status_from V S c \<noteq> None"
proof
  assume "composefs_deployment_status_from V S c = None"
  then obtain es s b ty where "scan_entries V S c es scan_init = Inr s" "require_composefs_booted (scanned_host s) = Inr b"
    "menu_state V (st_boot S) (cl_digest c) (cfs_bootloader b) ty = None"
    using list_entries_returns [of "se_bootloader V" "st_boot S" "se_boot V"] assms
    unfolding composefs_deployment_status_from_def Let_def
    by (auto simp: obind_None_iff lift_res_Inr_iff split: prod.splits)
  then show False using scanned_bootloader menu_state_returns assms by metis
qed

lemma gc_returns_helper:
  assumes "bootloader_kind_of (se_bootloader (ge_status G)) \<noteq> Inr GRUBClassic"
  shows "\<exists>r s'. composefs_gc G cmdline opts s = Some (r, s')"
  using status_returns [OF assms, of "g_storage s" cmdline]
    list_entries_returns [of "se_bootloader (ge_status G)" "st_boot (g_storage s)" "se_boot (ge_status G)"] assms
  by (auto simp: composefs_gc_def Let_def split: sum.splits option.splits intro: prod.exhaust)

text \<open>
  With a BLS-compatible bootloader the status and the garbage collection have an outcome in the model, a
  result or an error, on every state: of what is modelled as a loop only the parser of GRUB menus can fail to end.
\<close>
theorem gc_returns:
  assumes "bootloader_kind_of (se_bootloader (ge_status G)) \<noteq> Inr GRUBClassic"
  shows "(\<exists>r. composefs_deployment_status_from (ge_status G) S cmdline = Some r)
    \<and> (\<exists>r s'. composefs_gc G cmdline opts s = Some (r, s'))"
  using status_returns [OF assms, of S cmdline] gc_returns_helper [OF assms] by blast

theorem gc_returns_witness:
  "\<exists>r s'. composefs_gc demo_gc_env demo_cmdline \<lparr>dry_run = False, prune_repo = True\<rparr> (demo_gc_state\<lparr>g_uki_dir := None\<rparr>) = Some (r, s')"
  by (rule conjunct2 [OF gc_returns]) (simp add: demo_gc_env_def demo_status_env_def)

section \<open>The effect of a deletion\<close>

lemma composefs_gc_boot:
  assumes "composefs_gc G cmdline opts s = Some (r, s')"
  shows "st_boot (g_storage s') = st_boot (g_storage s)"
  using assms
proof (cases rule: composefs_gc_cases)
  case (run repo h es)
  then have "protects G (ble_boot_artifact_name ` set es) (ble_fsverity ` set es) (s\<lparr>g_repo := repo\<rparr>) s'"
    using keepsD [OF gc_run_protects] by blast
  then show ?thesis by (simp add: protects_def)
qed simp_all

lemma select_deployment_verity:
  "select_deployment h v = Inr depl \<Longrightarrow> verity (de_deployment depl) = v"
  by (auto simp: select_deployment_def rbind_Inr_iff ok_or_Inr_iff find_Some_iff split: if_splits)

lemma remove_entry_type1:
  assumes "select_deployment h v = Inr depl" and "\<not> is_staged_deployment h v"
    and "\<not> (de_ty depl = Some SlotRollback \<and> rollback_queued (host_status_of h))"
    and "bootloader_kind_of (cfs_bootloader (de_deployment depl)) = Inr BLSCompatible"
    and "entries (st_boot S) = Some files" and "list_all (scannable (se_boot (ge_status G)) v) files"
  shows "remove_entry G h v S = Some (Inr (S\<lparr>st_boot := (st_boot S)\<lparr>entries :=
    Some (remove_first (belongs (se_boot (ge_status G)) v) files)\<rparr>\<rparr>))"
proof -
  have "unqueue_rollback G h depl S = Some (Inr S)" unfolding unqueue_rollback_def if_not_P [OF assms(3)] ..
  then show ?thesis
    using assms select_deployment_verity [OF assms(1)] delete_conf_loop_removes [OF assms(6)]
    by (simp add: remove_entry_def delete_depl_boot_entries_def delete_type1_conf_file_def)
qed



end
