(* ===== verification/Rust_Word.thy ===== *)
theory Rust_Word
  imports Rust_Collections "HOL-Library.Word"
begin

text \<open>
  Machine integers: \<^verbatim>\<open>u32\<close> and \<^verbatim>\<open>u64\<close> as words, \<^verbatim>\<open>u32::from_str\<close> with its checked multiplication and
  addition, decimal output, and the file modes of \<^verbatim>\<open>rustix::fs\<close>.
\<close>

unbundle bit_operations_syntax

section \<open>Unsigned 32-bit integers\<close>

type_synonym u32 = "32 word"

type_synonym u64 = "64 word"

text \<open>\<^verbatim>\<open>char::is_ascii_digit\<close> and the value of a digit.\<close>

definition is_ascii_digit :: "char \<Rightarrow> bool" where
  "is_ascii_digit c = (CHR ''0'' \<le> c \<and> c \<le> CHR ''9'')"

definition digit_val :: "char \<Rightarrow> nat" where
  "digit_val c = of_char c - 48"

text \<open>
  \<^verbatim>\<open>u32::from_str\<close>: an optional plus sign, then digits, with \<^verbatim>\<open>checked_mul\<close> and \<^verbatim>\<open>checked_add\<close> at
  each step: a result of $2^{32} = 4294967296$ or more is an error.
\<close>

fun parse_digits :: "u32 \<Rightarrow> string \<Rightarrow> u32 option" where
  "parse_digits acc [] = Some acc"
| "parse_digits acc (c # cs) =
     (if \<not> is_ascii_digit c then None
      else if 4294967296 \<le> uint acc * 10 then None
      else if 4294967296 \<le> uint acc * 10 + int (digit_val c) then None
      else parse_digits (acc * 10 + of_nat (digit_val c)) cs)"

definition parse_u32 :: "string \<Rightarrow> u32 option" where
  "parse_u32 s =
     (let ds = (case s of [] \<Rightarrow> [] | c # cs \<Rightarrow> if c = CHR ''+'' then cs else s)
      in if ds = [] then None else parse_digits 0 ds)"

text \<open>\<^verbatim>\<open>Display\<close> of an \<^verbatim>\<open>u32\<close>.\<close>

definition show_u32 :: "u32 \<Rightarrow> string" where
  "show_u32 w = show_nat (unat w)"

text \<open>The number a string of digits denotes.\<close>

definition dec_value :: "string \<Rightarrow> nat" where
  "dec_value ds = fold (\<lambda>c n. n * 10 + digit_val c) ds 0"

lemma is_ascii_digit_iff: "is_ascii_digit c \<longleftrightarrow> 48 \<le> (of_char c :: nat) \<and> (of_char c :: nat) \<le> 57"
  by (simp add: is_ascii_digit_def less_eq_char_def)

lemma fold_dec_append:
  "fold (\<lambda>c n. n * 10 + digit_val c) ds (m :: nat) = m * 10 ^ length ds + dec_value ds"
proof (induction ds arbitrary: m)
  case Nil
  then show ?case by (simp add: dec_value_def)
next
  case (Cons d ds)
  show ?case unfolding dec_value_def
    using Cons [of "m * 10 + digit_val d"] Cons [of "digit_val d"]
    by (simp add: algebra_simps)
qed

lemma dec_value_Cons: "dec_value (d # ds) = digit_val d * 10 ^ length ds + dec_value ds"
  using fold_dec_append [of ds "digit_val d"] by (simp add: dec_value_def)

lemma dec_value_snoc: "dec_value (ds @ [d]) = dec_value ds * 10 + digit_val d"
  by (simp add: dec_value_def)

lemma unat_step:
  assumes "unat (acc :: u32) * 10 + d < 2 ^ 32"
  shows "unat (acc * 10 + of_nat d) = unat acc * 10 + d"
proof -
  have "acc * 10 + of_nat d = of_nat (unat acc * 10 + d)" by simp
  then show ?thesis using assms by (simp only: unsigned_of_nat) (simp add: take_bit_nat_eq_self)
qed

text \<open>The loop succeeds exactly on digits whose value fits, and then has that value.\<close>

lemma parse_digits_iff:
  "parse_digits acc ds = Some w \<longleftrightarrow>
     list_all is_ascii_digit ds \<and> unat w = unat acc * 10 ^ length ds + dec_value ds"
proof (induction ds arbitrary: acc)
  case Nil
  show ?case by (auto simp: dec_value_def word_unat_eq_iff)
next
  case (Cons d ds)
  have u: "uint acc = int (unat acc)" by simp
  show ?case
  proof (cases "is_ascii_digit d \<and> unat acc * 10 + digit_val d < 2 ^ 32")
    case True
    then have "unat (acc * 10 + of_nat (digit_val d)) = unat acc * 10 + digit_val d"
      by (blast intro: unat_step)
    moreover from True have "unat acc * 10 + digit_val d < 4294967296" by simp
    then have "uint acc * 10 + int (digit_val d) < 4294967296" using u by linarith
    moreover from this have "uint acc * 10 < 4294967296" by linarith
    ultimately show ?thesis using True Cons by (auto simp: dec_value_Cons algebra_simps)
  next
    case False
    have "\<not> unat w = unat acc * 10 ^ length (d # ds) + dec_value (d # ds)" if "is_ascii_digit d"
    proof -
      have "2 ^ 32 \<le> (unat acc * 10 + digit_val d) * 1" using False that by simp
      also have "\<dots> \<le> (unat acc * 10 + digit_val d) * 10 ^ length ds" by (rule mult_le_mono2) simp
      also have "\<dots> \<le> unat acc * 10 ^ length (d # ds) + dec_value (d # ds)"
        by (simp add: dec_value_Cons algebra_simps)
      finally show ?thesis using unsigned_less [where 'a = nat, of w] by simp
    qed
    moreover have "4294967296 \<le> uint acc * 10 + int (digit_val d)" if "is_ascii_digit d"
    proof -
      have "4294967296 \<le> unat acc * 10 + digit_val d" using False that by simp
      then show ?thesis using u by linarith
    qed
    then have "parse_digits acc (d # ds) = None" by simp
    ultimately show ?thesis by auto
  qed
qed

text \<open>Printing a number gives its digits back.\<close>

lemma digit_char: "n < 10 \<Longrightarrow> is_ascii_digit (char_of (48 + n)) \<and> digit_val (char_of (48 + n)) = n"
  by (simp add: is_ascii_digit_iff digit_val_def)

lemma show_nat_digits: "list_all is_ascii_digit (show_nat n) \<and> dec_value (show_nat n) = n \<and> show_nat n \<noteq> []"
proof (induction n rule: show_nat.induct)
  case (1 n)
  show ?case
  proof (cases "n < 10")
    case True
    then show ?thesis using digit_char [of n]
      by (subst show_nat.simps) (simp add: show_nat.simps [of n] dec_value_def)
  next
    case False
    with 1 digit_char [of "n mod 10"] show ?thesis
      by (simp add: show_nat.simps [of n] dec_value_snoc)
  qed
qed

lemma show_u32_digits: "list_all is_ascii_digit (show_u32 w)" "show_u32 w \<noteq> []" "dec_value (show_u32 w) = unat w"
  using show_nat_digits [of "unat w"] by (simp_all add: show_u32_def)

lemma not_digit_show: "\<not> is_ascii_digit c \<Longrightarrow> c \<notin> set (show_u32 w)"
  using show_u32_digits(1) [of w] by (auto simp: list_all_iff)

lemma parse_show_u32 [simp]: "parse_u32 (show_u32 w) = Some w"
proof -
  obtain c cs where s: "show_u32 w = c # cs" using show_u32_digits(2) by (cases "show_u32 w") auto
  then have "c \<noteq> CHR ''+''" using show_u32_digits(1) [of w] by (auto simp: is_ascii_digit_iff)
  then have "parse_u32 (show_u32 w) = parse_digits 0 (show_u32 w)" by (simp add: parse_u32_def s)
  then show ?thesis using show_u32_digits [of w] by (simp add: parse_digits_iff)
qed

text \<open>
  A string is accepted exactly when it is, after an optional plus sign, a nonempty string of digits
  that denotes a number below $2^{32}$, and the number stored is the number denoted.
\<close>

lemma parse_u32_exact:
  "parse_u32 s = Some w \<longleftrightarrow>
     (\<exists>ds. (s = ds \<or> s = CHR ''+'' # ds) \<and> ds \<noteq> [] \<and> list_all is_ascii_digit ds
        \<and> dec_value ds = unat w \<and> dec_value ds < 2 ^ 32)"
proof -
  have plus: "\<not> is_ascii_digit (CHR ''+'')" by (simp add: is_ascii_digit_iff)
  have pd: "parse_digits 0 ds = Some w \<longleftrightarrow>
      list_all is_ascii_digit ds \<and> dec_value ds = unat w \<and> dec_value ds < 2 ^ 32" for ds
    using unsigned_less [where 'a = nat, of w] by (auto simp: parse_digits_iff)
  show ?thesis using plus by (cases s) (auto simp: parse_u32_def pd simp del: parse_digits.simps)
qed

section \<open>File modes\<close>

definition S_IFMT :: u32 where "S_IFMT = 61440"

definition S_IFREG :: u32 where "S_IFREG = 32768"

text \<open>\<^verbatim>\<open>Mode::from_raw_mode\<close> drops the file type bits.\<close>

definition from_raw_mode :: "u32 \<Rightarrow> u32" where
  "from_raw_mode m = m AND NOT S_IFMT"

text \<open>A regular file with the permissions of another keeps them.\<close>

lemma from_raw_mode_regular [simp]: "from_raw_mode (S_IFREG OR from_raw_mode m) = from_raw_mode m"
proof -
  have "S_IFREG AND NOT S_IFMT = 0" by (simp add: S_IFREG_def S_IFMT_def)
  then show ?thesis by (simp add: from_raw_mode_def bit.conj_disj_distrib2 and.assoc)
qed

end
