(* ===== verification/Name_Service.thy ===== *)
theory Name_Service
  imports Rust_Word
begin

text \<open>
  The name service files of \<^verbatim>\<open>crates/sysusers/src/nameservice\<close>: entries of \<^verbatim>\<open>/etc/passwd\<close>,
  \<^verbatim>\<open>/etc/group\<close>, \<^verbatim>\<open>/etc/shadow\<close> and \<^verbatim>\<open>/etc/gshadow\<close>, their parsers and writers.

  User and group ids are 32-bit words. Each file format is an instance of one interface, a line codec,
  in which the round trip of a whole file is proved once.
\<close>

section \<open>Splitting a line into fields\<close>

text \<open>\<^verbatim>\<open>str::splitn\<close>: at most so many fields, the last one takes the rest.\<close>

fun splitn :: "nat \<Rightarrow> 'a \<Rightarrow> 'a list \<Rightarrow> 'a list list" where
  "splitn 0 c s = []"
| "splitn (Suc 0) c s = [s]"
| "splitn (Suc (Suc n)) c s =
     (case split_once c s of None \<Rightarrow> [s] | Some (a, b) \<Rightarrow> a # splitn (Suc n) c b)"

lemma splitn_join:
  assumes "ps \<noteq> []" and "\<forall>p \<in> set (butlast ps). c \<notin> set p"
  shows "splitn (length ps) c (join_with [c] ps) = ps"
  using assms
proof (induction ps rule: induct_list012)
  case (3 p q ps)
  then show ?case by auto
qed auto

lemma join_splitn: "0 < n \<Longrightarrow> join_with [c] (splitn n c s) = s"
proof (induction n c s rule: splitn.induct)
  case (3 n c s)
  show ?case
  proof (cases "split_once c s")
    case (Some ab)
    obtain a b where ab: "ab = (a, b)" by (cases ab)
    have "splitn (Suc n) c b \<noteq> []" by (cases n) (auto split: option.splits prod.splits)
    with 3 Some ab show ?thesis
      by (cases "splitn (Suc n) c b") (auto dest: split_once_SomeD)
  qed simp
qed auto

section \<open>Entries\<close>

record passwd_entry =
  p_name :: string
  p_passwd :: string
  p_uid :: u32
  p_gid :: u32
  p_gecos :: string
  p_home_dir :: string
  p_shell :: string

record group_entry =
  g_name :: string
  g_passwd :: string
  g_gid :: u32
  g_users :: "string list"

record shadow_entry =
  namp :: string
  pwdp :: string
  lstchg :: "u32 option"
  sp_min :: "u32 option"
  sp_max :: "u32 option"
  sp_warn :: "u32 option"
  inact :: "u32 option"
  expire :: "u32 option"
  sp_flag :: string

record gshadow_entry =
  gs_name :: string
  gs_password :: string
  gs_admins :: string
  gs_members :: string

text \<open>
  The parsers take the fields one by one with \<^verbatim>\<open>parts.next()?\<close>; a missing field or a number that
  does not parse gives \<^verbatim>\<open>None\<close>.
\<close>

definition passwd_parse_line :: "string \<Rightarrow> passwd_entry option" where
  "passwd_parse_line s =
     (case splitn 7 (CHR '':'') s of
        [name, passwd, uid, gid, gecos, home_dir, shell] \<Rightarrow>
          (case (parse_u32 uid, parse_u32 gid) of
             (Some uid, Some gid) \<Rightarrow>
               Some \<lparr>p_name = name, p_passwd = passwd, p_uid = uid, p_gid = gid, p_gecos = gecos,
                     p_home_dir = home_dir, p_shell = shell\<rparr>
           | _ \<Rightarrow> None)
      | _ \<Rightarrow> None)"

definition passwd_to_writer :: "passwd_entry \<Rightarrow> string" where
  "passwd_to_writer e =
     join_with '':'' [p_name e, p_passwd e, show_u32 (p_uid e), show_u32 (p_gid e), p_gecos e,
       p_home_dir e, p_shell e] @ [NL]"

definition group_parse_line :: "string \<Rightarrow> group_entry option" where
  "group_parse_line s =
     (case splitn 4 (CHR '':'') s of
        [name, passwd, gid, users] \<Rightarrow>
          (case parse_u32 gid of
             Some gid \<Rightarrow> Some \<lparr>g_name = name, g_passwd = passwd, g_gid = gid,
                               g_users = split_on (CHR '','') users\<rparr>
           | None \<Rightarrow> None)
      | _ \<Rightarrow> None)"

definition group_to_writer :: "group_entry \<Rightarrow> string" where
  "group_to_writer e =
     join_with '':'' [g_name e, g_passwd e, show_u32 (g_gid e), join_with '','' (g_users e)] @ [NL]"

definition u32_or_none :: "string \<Rightarrow> u32 option option" where
  "u32_or_none value = (if value = [] then Some None else map_option Some (parse_u32 value))"

definition number_or_empty :: "u32 option \<Rightarrow> string" where
  "number_or_empty value = (case value of Some number \<Rightarrow> show_u32 number | None \<Rightarrow> [])"

definition shadow_parse_line :: "string \<Rightarrow> shadow_entry option" where
  "shadow_parse_line s =
     (case splitn 9 (CHR '':'') s of
        [nam, pwd, lst, mn, mx, wrn, ina, expi, flg] \<Rightarrow>
          (case (u32_or_none lst, u32_or_none mn, u32_or_none mx, u32_or_none wrn, u32_or_none ina,
                 u32_or_none expi) of
             (Some lst, Some mn, Some mx, Some wrn, Some ina, Some expi) \<Rightarrow>
               Some \<lparr>namp = nam, pwdp = pwd, lstchg = lst, sp_min = mn, sp_max = mx, sp_warn = wrn,
                     inact = ina, expire = expi, sp_flag = flg\<rparr>
           | _ \<Rightarrow> None)
      | _ \<Rightarrow> None)"

definition shadow_to_writer :: "shadow_entry \<Rightarrow> string" where
  "shadow_to_writer e =
     join_with '':'' [namp e, pwdp e, number_or_empty (lstchg e), number_or_empty (sp_min e),
       number_or_empty (sp_max e), number_or_empty (sp_warn e), number_or_empty (inact e),
       number_or_empty (expire e), sp_flag e] @ [NL]"

definition gshadow_parse_line :: "string \<Rightarrow> gshadow_entry option" where
  "gshadow_parse_line s =
     (case splitn 4 (CHR '':'') s of
        [name, password, admins, members] \<Rightarrow>
          Some \<lparr>gs_name = name, gs_password = password, gs_admins = admins, gs_members = members\<rparr>
      | _ \<Rightarrow> None)"

definition gshadow_to_writer :: "gshadow_entry \<Rightarrow> string" where
  "gshadow_to_writer e =
     join_with '':'' [gs_name e, gs_password e, gs_admins e, gs_members e] @ [NL]"

section \<open>Whole files\<close>

text \<open>
  The loop the four parsers share: skipped lines, and the first line that does not parse is an
  error. Reading does not fail, and a file is valid UTF-8.
\<close>

fun parse_content :: "string \<Rightarrow> (string \<Rightarrow> bool) \<Rightarrow> (string \<Rightarrow> 'e option) \<Rightarrow> string list \<Rightarrow> 'e list res" where
  "parse_content what skip parse [] = Inr []"
| "parse_content what skip parse (input # rest) =
     (if skip input then parse_content what skip parse rest
      else rbind (ok_or (''failed to parse '' @ what @ '' entry'') (parse input)) (\<lambda>entry.
           rbind (parse_content what skip parse rest) (\<lambda>entries. Inr (entry # entries))))"

definition skip_comment :: "string \<Rightarrow> bool" where
  "skip_comment input = (input = [] \<or> starts_with ''#'' input)"

definition skip_compat :: "string \<Rightarrow> bool" where
  "skip_compat input = (skip_comment input \<or> starts_with ''+'' input \<or> starts_with ''-'' input)"

definition parse_passwd_content :: "string \<Rightarrow> passwd_entry list res" where
  "parse_passwd_content content = parse_content ''passwd'' skip_compat passwd_parse_line (str_lines content)"

definition parse_group_content :: "string \<Rightarrow> group_entry list res" where
  "parse_group_content content = parse_content ''group'' skip_compat group_parse_line (str_lines content)"

definition parse_shadow_content :: "string \<Rightarrow> shadow_entry list res" where
  "parse_shadow_content content = parse_content ''shadow'' skip_comment shadow_parse_line (str_lines content)"

definition parse_gshadow_content :: "string \<Rightarrow> gshadow_entry list res" where
  "parse_gshadow_content content = parse_content ''gshadow'' skip_comment gshadow_parse_line (str_lines content)"

section \<open>The line format interface\<close>

text \<open>
  A format of one entry per line: a printed entry is a line the parser gives back and does not
  skip, and an entry that was parsed is one that can be printed. Lines with a carriage return are
  excluded, since \<^verbatim>\<open>BufRead::lines\<close> drops one at the end of a line.
\<close>

definition plain_line :: "string \<Rightarrow> bool" where
  "plain_line l = (NL \<notin> set l \<and> CR \<notin> set l)"

locale line_format =
  fixes what :: string
    and skip :: "string \<Rightarrow> bool"
    and parse :: "string \<Rightarrow> 'e option"
    and to_line :: "'e \<Rightarrow> string"
    and good :: "'e \<Rightarrow> bool"
  assumes parse_print: "good e \<Longrightarrow> parse (to_line e) = Some e"
    and print_plain: "good e \<Longrightarrow> plain_line (to_line e) \<and> \<not> skip (to_line e)"
    and parse_good: "parse l = Some e \<Longrightarrow> plain_line l \<Longrightarrow> \<not> skip l \<Longrightarrow> good e"
begin

definition write_all :: "'e list \<Rightarrow> string" where
  "write_all es = concat (map (\<lambda>e. to_line e @ [NL]) es)"

lemma str_lines_write_all: "list_all good es \<Longrightarrow> str_lines (write_all es) = map to_line es"
proof (induction es)
  case (Cons e es)
  then have p: "plain_line (to_line e)" using print_plain by simp
  then have "\<not> suffix [CR] (to_line e)" by (auto simp: plain_line_def suffix_def)
  with p Cons show ?case by (simp add: write_all_def plain_line_def strip_cr_id)
qed (simp add: write_all_def)

lemma parse_content_lines: "list_all good es \<Longrightarrow> parse_content what skip parse (map to_line es) = Inr es"
  by (induction es) (auto simp: parse_print print_plain)

lemma parse_write_all: "list_all good es \<Longrightarrow> parse_content what skip parse (str_lines (write_all es)) = Inr es"
  by (simp add: str_lines_write_all parse_content_lines)

lemma parse_content_good:
  "parse_content what skip parse ls = Inr es \<Longrightarrow> list_all plain_line ls \<Longrightarrow> list_all good es"
  by (induction ls arbitrary: es)
    (auto simp: rbind_Inr_iff ok_or_Inr_iff intro: parse_good split: if_splits)

end

text \<open>Lines without carriage returns.\<close>

lemma str_lines_plain: "CR \<notin> set s \<Longrightarrow> list_all plain_line (str_lines s)"
proof (induction s rule: str_lines.induct)
  case (1 s)
  let ?t = "takeWhile (\<lambda>c. c \<noteq> NL) s" and ?d = "dropWhile (\<lambda>c. c \<noteq> NL) s"
  have t: "NL \<notin> set ?t" "CR \<notin> set ?t" using 1(2) by (auto dest: set_takeWhileD)
  then have "\<not> suffix [CR] ?t" by (auto simp: suffix_def)
  then have c: "strip_cr ?t = ?t" by (rule strip_cr_id)
  show ?case
  proof (cases ?d)
    case Nil
    then have "?t = s" by (metis append.right_neutral takeWhile_dropWhile_id)
    then have "NL \<notin> set s" "CR \<notin> set s" using t by (metis)+
    then show ?thesis using str_lines_last [of s] by (cases "s = []") (simp_all add: plain_line_def)
  next
    case (Cons x rest)
    then have s: "s = ?t @ x # rest" by (metis takeWhile_dropWhile_id)
    then have "CR \<notin> set rest" using 1(2) by (metis UnCI list.set_intros(2) set_append)
    moreover have "s \<noteq> []" using Cons by auto
    ultimately have r: "list_all plain_line (str_lines rest)" using 1(1) Cons by blast
    have "str_lines s = ?t # str_lines rest"
      using \<open>s \<noteq> []\<close> c by (subst str_lines.simps) (simp add: Cons)
    then show ?thesis using t r by (simp add: list_all_iff) (simp add: plain_line_def)
  qed
qed

text \<open>Fields that can be joined and split again.\<close>

definition clean_fields :: "string list \<Rightarrow> bool" where
  "clean_fields fs \<longleftrightarrow> (\<forall>f \<in> set fs. plain_line f) \<and> (\<forall>f \<in> set (butlast fs). CHR '':'' \<notin> set f)"

lemma set_join_with: "set (join_with sep ps) \<subseteq> set sep \<union> (\<Union>p \<in> set ps. set p)"
  by (induction sep ps rule: join_with.induct) auto

lemma clean_fields_plain: "clean_fields fs \<Longrightarrow> plain_line (join_with '':'' fs)"
  using set_join_with [of "'':''" fs] by (fastforce simp: clean_fields_def plain_line_def)

lemma clean_fields_split: "clean_fields fs \<Longrightarrow> fs \<noteq> [] \<Longrightarrow> length fs = n \<Longrightarrow> splitn n (CHR '':'') (join_with '':'' fs) = fs"
  using splitn_join [of fs "CHR '':''"] by (auto simp: clean_fields_def)

lemma splitn_set: "f \<in> set (splitn n c s) \<Longrightarrow> set f \<subseteq> set s"
proof (induction n arbitrary: s)
  case (Suc n)
  show ?case
  proof (cases "n = 0 \<or> split_once c s = None")
    case False
    then obtain a b m where ab: "split_once c s = Some (a, b)" and n: "n = Suc m" by (cases n) auto
    with Suc.prems consider "f = a" | "f \<in> set (splitn n c b)" by auto
    then show ?thesis using ab Suc.IH by cases (auto simp: split_once_Some_iff)
  qed (use Suc.prems in \<open>cases n; auto\<close>)
qed simp

lemma splitn_butlast: "f \<in> set (butlast (splitn n c s)) \<Longrightarrow> c \<notin> set f"
proof (induction n arbitrary: s)
  case (Suc n)
  show ?case
  proof (cases "n = 0 \<or> split_once c s = None")
    case False
    then obtain a b m where ab: "split_once c s = Some (a, b)" and n: "n = Suc m" by (cases n) auto
    with Suc.prems consider "f = a" | "f \<in> set (butlast (splitn n c b))" by (auto split: if_splits)
    then show ?thesis using ab Suc.IH by cases (auto simp: split_once_Some_iff)
  qed (use Suc.prems in \<open>cases n; auto\<close>)
qed simp

lemma splitn_clean: "plain_line l \<Longrightarrow> splitn n (CHR '':'') l = fs \<Longrightarrow> clean_fields fs"
  using splitn_set [of _ n "CHR '':''" l] splitn_butlast [of _ n "CHR '':''" l]
  by (auto simp: clean_fields_def plain_line_def)

lemma skip_join:
  "skip_comment (join_with '':'' (f # g # fs)) = starts_with ''#'' f"
  "skip_compat (join_with '':'' (f # g # fs)) = (starts_with ''#'' f \<or> starts_with ''+'' f \<or> starts_with ''-'' f)"
  by (cases f; simp add: skip_comment_def skip_compat_def starts_with_def)+

lemma plain_number: "plain_line (show_u32 w)" "CHR '':'' \<notin> set (show_u32 w)"
  by (auto simp: plain_line_def is_ascii_digit_iff intro!: not_digit_show)

section \<open>The four formats\<close>

definition passwd_fields :: "passwd_entry \<Rightarrow> string list" where
  "passwd_fields e = [p_name e, p_passwd e, show_u32 (p_uid e), show_u32 (p_gid e), p_gecos e,
     p_home_dir e, p_shell e]"

definition group_fields :: "group_entry \<Rightarrow> string list" where
  "group_fields e = [g_name e, g_passwd e, show_u32 (g_gid e), join_with '','' (g_users e)]"

definition shadow_fields :: "shadow_entry \<Rightarrow> string list" where
  "shadow_fields e = [namp e, pwdp e, number_or_empty (lstchg e), number_or_empty (sp_min e),
     number_or_empty (sp_max e), number_or_empty (sp_warn e), number_or_empty (inact e),
     number_or_empty (expire e), sp_flag e]"

definition gshadow_fields :: "gshadow_entry \<Rightarrow> string list" where
  "gshadow_fields e = [gs_name e, gs_password e, gs_admins e, gs_members e]"

lemmas fields_defs = passwd_fields_def group_fields_def shadow_fields_def gshadow_fields_def

text \<open>The entries that can be written and read back.\<close>

definition good_passwd :: "passwd_entry \<Rightarrow> bool" where
  "good_passwd e \<longleftrightarrow> clean_fields (passwd_fields e) \<and> \<not> skip_compat (join_with '':'' (passwd_fields e))"

definition good_group :: "group_entry \<Rightarrow> bool" where
  "good_group e \<longleftrightarrow> clean_fields (group_fields e) \<and> \<not> skip_compat (join_with '':'' (group_fields e))
     \<and> g_users e \<noteq> [] \<and> (\<forall>u \<in> set (g_users e). CHR '','' \<notin> set u)"

definition good_shadow :: "shadow_entry \<Rightarrow> bool" where
  "good_shadow e \<longleftrightarrow> clean_fields (shadow_fields e) \<and> \<not> skip_comment (join_with '':'' (shadow_fields e))"

definition good_gshadow :: "gshadow_entry \<Rightarrow> bool" where
  "good_gshadow e \<longleftrightarrow> clean_fields (gshadow_fields e) \<and> \<not> skip_comment (join_with '':'' (gshadow_fields e))"

lemma u32_or_none_number [simp]: "u32_or_none (number_or_empty x) = Some x"
  using show_u32_digits(2) by (cases x) (simp_all add: u32_or_none_def number_or_empty_def)

lemma plain_number_or_empty:
  "plain_line (number_or_empty x)" "CHR '':'' \<notin> set (number_or_empty x)"
  by (cases x; simp add: number_or_empty_def plain_number; simp add: plain_line_def)+

lemma clean_fields_iff:
  "clean_fields (f # g # fs) \<longleftrightarrow> plain_line f \<and> CHR '':'' \<notin> set f \<and> clean_fields (g # fs)"
  "clean_fields [f] \<longleftrightarrow> plain_line f"
  by (auto simp: clean_fields_def)

lemmas clean_numbers = clean_fields_iff plain_number plain_number_or_empty

text \<open>A line that was split keeps its first field, which decides whether it is skipped.\<close>

lemma reparse:
  assumes l: "plain_line l" and f: "splitn n (CHR '':'') l = f # g # fs" and n: "0 < n"
  shows "clean_fields (f # g # fs)"
    and "\<not> skip_comment l \<Longrightarrow> \<not> skip_comment (join_with '':'' (f # h # hs))"
    and "\<not> skip_compat l \<Longrightarrow> \<not> skip_compat (join_with '':'' (f # h # hs))"
proof -
  show "clean_fields (f # g # fs)" using splitn_clean [OF l f] .
  have "l = join_with '':'' (f # g # fs)" using join_splitn [OF n, of "CHR '':''" l] f by simp
  then show "\<not> skip_comment l \<Longrightarrow> \<not> skip_comment (join_with '':'' (f # h # hs))"
    and "\<not> skip_compat l \<Longrightarrow> \<not> skip_compat (join_with '':'' (f # h # hs))"
    unfolding skip_join by (metis skip_join(1), metis skip_join(2))
qed

text \<open>Inversion of the parsers.\<close>

lemma passwd_parse_lineD:
  assumes "passwd_parse_line l = Some e"
  shows "\<exists>u g. splitn 7 (CHR '':'') l = [p_name e, p_passwd e, u, g, p_gecos e, p_home_dir e, p_shell e]
           \<and> parse_u32 u = Some (p_uid e) \<and> parse_u32 g = Some (p_gid e)"
  using assms by (auto simp: passwd_parse_line_def split: list.splits option.splits)

lemma group_parse_lineD:
  assumes "group_parse_line l = Some e"
  shows "\<exists>g u. splitn 4 (CHR '':'') l = [g_name e, g_passwd e, g, u]
           \<and> parse_u32 g = Some (g_gid e) \<and> g_users e = split_on (CHR '','') u"
  using assms by (auto simp: group_parse_line_def split: list.splits option.splits)

lemma shadow_parse_lineD:
  assumes "shadow_parse_line l = Some e"
  shows "\<exists>a b c d f g. splitn 9 (CHR '':'') l = [namp e, pwdp e, a, b, c, d, f, g, sp_flag e]
           \<and> map u32_or_none [a, b, c, d, f, g]
              = map Some [lstchg e, sp_min e, sp_max e, sp_warn e, inact e, expire e]"
  using assms by (auto simp: shadow_parse_line_def split: list.splits option.splits)

lemma gshadow_parse_lineD:
  assumes "gshadow_parse_line l = Some e"
  shows "splitn 4 (CHR '':'') l = gshadow_fields e"
  using assms by (auto simp: gshadow_parse_line_def fields_defs split: list.splits)

interpretation passwd: line_format "''passwd''" skip_compat passwd_parse_line
  "\<lambda>e. join_with '':'' (passwd_fields e)" good_passwd
proof
  fix e assume g: "good_passwd e"
  then have "splitn 7 (CHR '':'') (join_with '':'' (passwd_fields e)) = passwd_fields e"
    by (intro clean_fields_split) (simp_all add: good_passwd_def fields_defs)
  then show "passwd_parse_line (join_with '':'' (passwd_fields e)) = Some e"
    by (simp add: passwd_parse_line_def passwd_fields_def)
next
  fix l e assume p: "passwd_parse_line l = Some e" "plain_line l" "\<not> skip_compat l"
  from passwd_parse_lineD [OF p(1)] obtain u g where
    f: "splitn 7 (CHR '':'') l = [p_name e, p_passwd e, u, g, p_gecos e, p_home_dir e, p_shell e]"
    by blast
  from reparse(1,3) [OF p(2) f] p(3) show "good_passwd e"
    by (simp add: good_passwd_def passwd_fields_def clean_numbers del: join_with.simps)
qed (simp add: good_passwd_def clean_fields_plain)

interpretation group: line_format "''group''" skip_compat group_parse_line
  "\<lambda>e. join_with '':'' (group_fields e)" good_group
proof
  fix e assume g: "good_group e"
  then have "splitn 4 (CHR '':'') (join_with '':'' (group_fields e)) = group_fields e"
    by (intro clean_fields_split) (simp_all add: good_group_def fields_defs)
  then show "group_parse_line (join_with '':'' (group_fields e)) = Some e"
    using g by (simp add: group_parse_line_def group_fields_def good_group_def split_on_join)
next
  fix l e assume p: "group_parse_line l = Some e" "plain_line l" "\<not> skip_compat l"
  from group_parse_lineD [OF p(1)] obtain g u where
    f: "splitn 4 (CHR '':'') l = [g_name e, g_passwd e, g, u]" and u: "g_users e = split_on (CHR '','') u"
    by blast
  have "\<forall>x \<in> set (g_users e). CHR '','' \<notin> set x" by (metis split_on_parts u)
  with reparse(1,3) [OF p(2) f] p(3) show "good_group e"
    by (simp add: good_group_def group_fields_def clean_numbers u del: join_with.simps)
qed (simp add: good_group_def clean_fields_plain)

interpretation shadow: line_format "''shadow''" skip_comment shadow_parse_line
  "\<lambda>e. join_with '':'' (shadow_fields e)" good_shadow
proof
  fix e assume g: "good_shadow e"
  then have "splitn 9 (CHR '':'') (join_with '':'' (shadow_fields e)) = shadow_fields e"
    by (intro clean_fields_split) (simp_all add: good_shadow_def fields_defs)
  then show "shadow_parse_line (join_with '':'' (shadow_fields e)) = Some e"
    by (simp add: shadow_parse_line_def shadow_fields_def)
next
  fix l e assume p: "shadow_parse_line l = Some e" "plain_line l" "\<not> skip_comment l"
  from shadow_parse_lineD [OF p(1)] obtain a b c d h g where
    f: "splitn 9 (CHR '':'') l = [namp e, pwdp e, a, b, c, d, h, g, sp_flag e]"
    by blast
  from reparse(1,2) [OF p(2) f] p(3) show "good_shadow e"
    by (simp add: good_shadow_def shadow_fields_def clean_numbers del: join_with.simps)
qed (simp add: good_shadow_def clean_fields_plain)

interpretation gshadow: line_format "''gshadow''" skip_comment gshadow_parse_line
  "\<lambda>e. join_with '':'' (gshadow_fields e)" good_gshadow
proof
  fix e assume g: "good_gshadow e"
  then have "splitn 4 (CHR '':'') (join_with '':'' (gshadow_fields e)) = gshadow_fields e"
    by (intro clean_fields_split) (simp_all add: good_gshadow_def fields_defs)
  then show "gshadow_parse_line (join_with '':'' (gshadow_fields e)) = Some e"
    by (simp add: gshadow_parse_line_def gshadow_fields_def)
next
  fix l e assume p: "gshadow_parse_line l = Some e" "plain_line l" "\<not> skip_comment l"
  from gshadow_parse_lineD [OF p(1)] have
    f: "splitn 4 (CHR '':'') l = [gs_name e, gs_password e, gs_admins e, gs_members e]"
    by (simp add: gshadow_fields_def)
  from reparse(1,2) [OF p(2) f] p(3) show "good_gshadow e"
    by (simp add: good_gshadow_def gshadow_fields_def clean_numbers del: join_with.simps)
qed (simp add: good_gshadow_def clean_fields_plain)

text \<open>The writers print the fields of an entry and a line feed.\<close>

lemma to_writer_lines:
  "passwd_to_writer = (\<lambda>e. join_with '':'' (passwd_fields e) @ [NL])"
  "group_to_writer = (\<lambda>e. join_with '':'' (group_fields e) @ [NL])"
  "shadow_to_writer = (\<lambda>e. join_with '':'' (shadow_fields e) @ [NL])"
  "gshadow_to_writer = (\<lambda>e. join_with '':'' (gshadow_fields e) @ [NL])"
  by (simp_all add: passwd_to_writer_def group_to_writer_def shadow_to_writer_def
      gshadow_to_writer_def fields_defs fun_eq_iff del: join_with.simps)

lemma concat_to_writer:
  "concat (map passwd_to_writer es) = passwd.write_all es"
  "concat (map group_to_writer gs) = group.write_all gs"
  "concat (map shadow_to_writer ss) = shadow.write_all ss"
  "concat (map gshadow_to_writer hs) = gshadow.write_all hs"
  by (simp_all only: to_writer_lines passwd.write_all_def group.write_all_def shadow.write_all_def
      gshadow.write_all_def)

text \<open>
  Rewriting a name service file keeps its entries: for a file without carriage returns,
  writing the parsed entries of \<^verbatim>\<open>passwd\<close>, \<^verbatim>\<open>group\<close>, \<^verbatim>\<open>shadow\<close> or \<^verbatim>\<open>gshadow\<close> and parsing the
  result gives the same entries.
\<close>

theorem name_files_rewrite:
  assumes "CR \<notin> set content"
  shows "(parse_passwd_content content = Inr ps \<longrightarrow>
            parse_passwd_content (concat (map passwd_to_writer ps)) = Inr ps)
    \<and> (parse_group_content content = Inr gs \<longrightarrow>
            parse_group_content (concat (map group_to_writer gs)) = Inr gs)
    \<and> (parse_shadow_content content = Inr ss \<longrightarrow>
            parse_shadow_content (concat (map shadow_to_writer ss)) = Inr ss)
    \<and> (parse_gshadow_content content = Inr hs \<longrightarrow>
            parse_gshadow_content (concat (map gshadow_to_writer hs)) = Inr hs)"
  unfolding parse_passwd_content_def parse_group_content_def parse_shadow_content_def
    parse_gshadow_content_def concat_to_writer
  using str_lines_plain [OF assms]
  by (intro conjI)
    (blast intro: passwd.parse_write_all group.parse_write_all shadow.parse_write_all
      gshadow.parse_write_all passwd.parse_content_good group.parse_content_good
      shadow.parse_content_good gshadow.parse_content_good)+

text \<open>The witness: a shadow file with a signed number, a comment and an empty line.\<close>

definition demo_shadow :: string where
  "demo_shadow = ''# users'' @ [NL] @ ''root:x:+19:0:99999:7:::'' @ [NL, NL] @ ''bin:*::::::4294967295:a:b''"

definition demo_shadow_entries :: "shadow_entry list" where
  "demo_shadow_entries =
     [\<lparr>namp = ''root'', pwdp = ''x'', lstchg = Some 19, sp_min = Some 0, sp_max = Some 99999,
       sp_warn = Some 7, inact = None, expire = None, sp_flag = []\<rparr>,
      \<lparr>namp = ''bin'', pwdp = ''*'', lstchg = None, sp_min = None, sp_max = None,
       sp_warn = None, inact = None, expire = Some 4294967295, sp_flag = ''a:b''\<rparr>]"

lemma demo_shadow_parses: "parse_shadow_content demo_shadow = Inr demo_shadow_entries"
  by code_simp

theorem name_files_rewrite_witness:
  "parse_shadow_content demo_shadow = Inr demo_shadow_entries
   \<and> parse_shadow_content (concat (map shadow_to_writer demo_shadow_entries)) = Inr demo_shadow_entries"
proof -
  have "CR \<notin> set demo_shadow" by code_simp
  from name_files_rewrite [OF this] demo_shadow_parses show ?thesis by blast
qed

end
