(* ===== verification/Sysusers.thy ===== *)
theory Sysusers
  imports Name_Service Rust_State Rust_Path
begin

text \<open>
  Parsing of sysusers.d entries and their comparison with \<^verbatim>\<open>/etc/passwd\<close> and \<^verbatim>\<open>/etc/group\<close>
  (\<^verbatim>\<open>crates/sysusers/src/lib.rs\<close>), and the removal of stale shadow entries
  (\<^verbatim>\<open>crates/lib/src/sysusers_cleanup.rs\<close>, with the file replacement of \<^verbatim>\<open>lsm.rs\<close>).

  A root file system is the files the code opens, by path, and the files of
  \<^verbatim>\<open>usr/lib/sysusers.d\<close> in the order of \<^verbatim>\<open>filenames_sorted\<close>. The cleanup is an operation on the
  files and the password lock; the SELinux policy and the result of \<^verbatim>\<open>lckpwdf\<close> are parameters.
\<close>

section \<open>Entries of sysusers.d\<close>

datatype group_reference = GroupNumeric u32 | GroupName string | GroupPath string

datatype id_source = IdNumeric u32 | IdPath string

datatype sysusers_entry =
    User string "id_source option" "group_reference option" string "string option" "string option"
  | Group string "id_source option"
  | Range u32 u32

definition group_reference_from_str :: "string \<Rightarrow> group_reference option" where
  "group_reference_from_str s =
     (if starts_with ''/'' s then Some (GroupPath s)
      else if list_all is_ascii_digit s then map_option GroupNumeric (parse_u32 s)
      else Some (GroupName s))"

definition id_source_from_str :: "string \<Rightarrow> id_source option" where
  "id_source_from_str s =
     (if starts_with ''/'' s then Some (IdPath s) else map_option IdNumeric (parse_u32 s))"

subsection \<open>Tokens\<close>

text \<open>The text before the first whitespace character, and the text from there on.\<close>

fun split_ws :: "string \<Rightarrow> string \<times> string" where
  "split_ws [] = ([], [])"
| "split_ws (c # cs) =
     (if strip_first utf8_ws (c # cs) \<noteq> None then ([], c # cs)
      else (case split_ws cs of (a, b) \<Rightarrow> (c # a, b)))"

definition next_token :: "string \<Rightarrow> (string \<times> string) option" where
  "next_token s =
     (let s = trim_start s in
      if s = [] then None
      else (case strip_prefix [CHR 0x22] s of
              None \<Rightarrow> Some (split_ws s)
            | Some rest \<Rightarrow> split_once (CHR 0x22) rest))"

definition next_token_owned :: "string \<Rightarrow> (string \<times> string) option" where
  "next_token_owned s =
     (case next_token s of
        Some (token, rest) \<Rightarrow> if token = [] then None else Some (token, rest)
      | None \<Rightarrow> None)"

definition next_optional_token :: "string \<Rightarrow> (string option \<times> string) option" where
  "next_optional_token s =
     map_option (\<lambda>(token, s). (if token = [] \<or> token = ''-'' then None else Some token, s)) (next_token s)"

text \<open>\<^verbatim>\<open>next_optional_token(s).unwrap_or_default()\<close> and \<^verbatim>\<open>next_token(s).unwrap_or_default()\<close>.\<close>

definition optional_or_default :: "string \<Rightarrow> string option \<times> string" where
  "optional_or_default s = (case next_optional_token s of Some r \<Rightarrow> r | None \<Rightarrow> (None, []))"

definition token_or_default :: "string \<Rightarrow> string \<times> string" where
  "token_or_default s = (case next_token s of Some r \<Rightarrow> r | None \<Rightarrow> ([], []))"

text \<open>\<^verbatim>\<open>transpose\<close> of an optional result.\<close>

definition parse_opt :: "(string \<Rightarrow> 'a option) \<Rightarrow> string option \<Rightarrow> 'a option res" where
  "parse_opt f x =
     (case x of None \<Rightarrow> Inr None
      | Some v \<Rightarrow> rbind (ok_or ''Failed to parse sysusers entry'' (f v)) (\<lambda>r. Inr (Some r)))"

definition user_ids :: "string option \<Rightarrow> string option \<times> string option" where
  "user_ids ident =
     (case ident of
        None \<Rightarrow> (None, None)
      | Some v \<Rightarrow> (case split_once (CHR '':'') v of
                    Some (uid, gid) \<Rightarrow> (Some uid, Some gid)
                  | None \<Rightarrow> (Some v, Some v)))"

definition parse_user :: "string \<Rightarrow> sysusers_entry res" where
  "parse_user s =
     rbind (ok_or ''Failed to parse sysusers entry'' (next_token_owned s)) (\<lambda>(name, s).
     case optional_or_default s of (ident, s) \<Rightarrow>
     (case user_ids ident of (uid, pgid) \<Rightarrow>
      rbind (parse_opt id_source_from_str (if uid = Some ''-'' then None else uid)) (\<lambda>uid.
      rbind (parse_opt group_reference_from_str pgid) (\<lambda>pgid.
      case token_or_default s of (gecos, s) \<Rightarrow>
      (case optional_or_default s of (home, s) \<Rightarrow>
       (case optional_or_default s of (shell, _) \<Rightarrow>
        Inr (User name uid pgid gecos home shell)))))))"

definition parse_group :: "string \<Rightarrow> sysusers_entry res" where
  "parse_group s =
     rbind (ok_or ''Failed to parse sysusers entry'' (next_token_owned s)) (\<lambda>(name, s).
     case optional_or_default s of (ident, _) \<Rightarrow>
     rbind (parse_opt id_source_from_str ident) (\<lambda>ident. Inr (Group name ident)))"

definition parse_range :: "string \<Rightarrow> sysusers_entry res" where
  "parse_range s =
     (let err = ''Failed to parse sysusers entry'' in
      rbind (ok_or err (next_optional_token s)) (\<lambda>(_, s).
      rbind (ok_or err (next_token s)) (\<lambda>(range, _).
      rbind (ok_or err (split_once (CHR ''-'') range)) (\<lambda>(start, stop).
      rbind (ok_or err (parse_u32 start)) (\<lambda>start.
      rbind (ok_or err (parse_u32 stop)) (\<lambda>stop. Inr (Range start stop)))))))"

definition sysusers_parse :: "string \<Rightarrow> sysusers_entry option res" where
  "sysusers_parse s =
     rbind (ok_or ''Failed to parse sysusers entry'' (next_token s)) (\<lambda>(ftype, s).
     if ftype = ''u'' \<or> ftype = ''u!'' then rbind (parse_user s) (\<lambda>r. Inr (Some r))
     else if ftype = ''g'' then rbind (parse_group s) (\<lambda>r. Inr (Some r))
     else if ftype = ''r'' then rbind (parse_range s) (\<lambda>r. Inr (Some r))
     else Inr None)"

section \<open>Reading a directory\<close>

text \<open>The file system the crate sees.\<close>

record su_file =
  su_content :: string
  su_mode :: u32
  su_label :: "string option"

record su_root =
  su_files :: "string \<Rightarrow> su_file option"
  su_dropins :: "(string \<times> string) list option"

record su_scan =
  found_users :: "string list"
  found_groups :: "string list"
  scan_result :: "sysusers_entry list"

definition group_id_of :: "group_reference option \<Rightarrow> id_source option" where
  "group_id_of pgid =
     (case pgid of
        Some (GroupNumeric n) \<Rightarrow> Some (IdNumeric n)
      | Some (GroupPath p) \<Rightarrow> Some (IdPath p)
      | _ \<Rightarrow> None)"

definition add_entry :: "su_scan \<Rightarrow> sysusers_entry \<Rightarrow> su_scan" where
  "add_entry sc e =
     (case e of
        User name uid pgid gecos home shell \<Rightarrow>
          if name \<in> set (found_users sc) then sc
          else sc\<lparr>found_users := btset (name # found_users sc),
                  found_groups := btset (name # found_groups sc),
                  scan_result := scan_result sc @ [Group name (group_id_of pgid), e]\<rparr>
      | Group name _ \<Rightarrow>
          if name \<in> set (found_groups sc) then sc
          else sc\<lparr>found_groups := btset (name # found_groups sc), scan_result := scan_result sc @ [e]\<rparr>
      | Range _ _ \<Rightarrow> sc)"

fun scan_lines :: "string list \<Rightarrow> su_scan \<Rightarrow> su_scan res" where
  "scan_lines [] sc = Inr sc"
| "scan_lines (line # rest) sc =
     (if line = [] \<or> starts_with ''#'' line then scan_lines rest sc
      else rbind (sysusers_parse line) (\<lambda>e.
           case e of None \<Rightarrow> scan_lines rest sc | Some e \<Rightarrow> scan_lines rest (add_entry sc e)))"

fun scan_files :: "(string \<times> string) list \<Rightarrow> su_scan \<Rightarrow> su_scan res" where
  "scan_files [] sc = Inr sc"
| "scan_files ((name, content) # rest) sc =
     (if path_extension name \<noteq> Some ''conf'' then scan_files rest sc
      else rbind (scan_lines (str_lines content) sc) (scan_files rest))"

definition read_sysusers :: "su_root \<Rightarrow> sysusers_entry list res" where
  "read_sysusers rootfs =
     (case su_dropins rootfs of
        None \<Rightarrow> Inr []
      | Some d \<Rightarrow> rbind (scan_files d \<lparr>found_users = [], found_groups = [], scan_result = []\<rparr>)
                    (\<lambda>sc. Inr (scan_result sc)))"

section \<open>Analysis\<close>

record su_analysis =
  missing_users :: "string list"
  missing_groups :: "string list"

definition load_etc_passwd :: "su_root \<Rightarrow> passwd_entry list option res" where
  "load_etc_passwd rootfs =
     (case su_files rootfs ''etc/passwd'' of
        Some r \<Rightarrow> rbind (parse_passwd_content (su_content r)) (\<lambda>p. Inr (Some p))
      | None \<Rightarrow> Inr None)"

definition load_etc_group :: "su_root \<Rightarrow> group_entry list res" where
  "load_etc_group rootfs =
     rbind (ok_or ''No such file or directory'' (su_files rootfs ''etc/group'')) (\<lambda>r.
     parse_group_content (su_content r))"

text \<open>The maps of the names sysusers.d defines, as the sets of their keys.\<close>

definition collect_names :: "sysusers_entry list \<Rightarrow> string list \<times> string list" where
  "collect_names es =
     foldl (\<lambda>(users, groups) ent.
        case ent of
          User name _ _ _ _ _ \<Rightarrow> (btset (name # users), groups)
        | Group name _ \<Rightarrow> (users, btset (name # groups))
        | Range _ _ \<Rightarrow> (users, groups)) ([], []) es"

definition analyze :: "su_root \<Rightarrow> su_analysis res" where
  "analyze rootfs =
     rbind (load_etc_passwd rootfs) (\<lambda>passwd.
     case passwd of
       None \<Rightarrow> Inr \<lparr>missing_users = [], missing_groups = []\<rparr>
     | Some passwd \<Rightarrow>
         rbind (load_etc_group rootfs) (\<lambda>group.
         rbind (read_sysusers rootfs) (\<lambda>ents.
         case collect_names ents of (sysusers_users, sysusers_groups) \<Rightarrow>
         Inr \<lparr>missing_users = filter (\<lambda>k. k \<notin> set sysusers_users) (btset (map p_name passwd)),
              missing_groups = filter (\<lambda>k. k \<notin> set sysusers_groups) (btset (map g_name group))\<rparr>)))"

section \<open>Ids\<close>

lemma parse_u32_digits:
  "list_all is_ascii_digit s \<Longrightarrow>
     parse_u32 s = Some w \<longleftrightarrow> s \<noteq> [] \<and> dec_value s = unat w \<and> dec_value s < 2 ^ 32"
  unfolding parse_u32_exact by (auto simp: is_ascii_digit_iff)

text \<open>
  Numeric ids are read without wrap-around: a user id is accepted exactly when it is, after an
  optional plus sign, a nonempty string of digits that denotes a number below $2^{32}$, however many
  leading zeros it has, and the number stored is the number denoted. A group reference is
  numeric under the same condition but without a plus sign, and a string of digits that denotes a
  larger number, or an empty one, is an error instead of a group name.
\<close>

theorem sysusers_ids_exact:
  "(id_source_from_str s = Some (IdNumeric w) \<longleftrightarrow>
      (\<exists>ds. (s = ds \<or> s = CHR ''+'' # ds) \<and> ds \<noteq> [] \<and> list_all is_ascii_digit ds
         \<and> dec_value ds = unat w \<and> dec_value ds < 2 ^ 32))
   \<and> (group_reference_from_str s = Some (GroupNumeric w) \<longleftrightarrow>
      s \<noteq> [] \<and> list_all is_ascii_digit s \<and> dec_value s = unat w \<and> dec_value s < 2 ^ 32)
   \<and> (group_reference_from_str s = None \<longleftrightarrow>
      list_all is_ascii_digit s \<and> (s = [] \<or> 2 ^ 32 \<le> dec_value s))"
proof -
  have slash: "\<not> starts_with ''/'' s" if "list_all is_ascii_digit (tl s)" "s \<noteq> []" "is_ascii_digit (hd s) \<or> hd s = CHR ''+''"
    using that by (cases s) (auto simp: starts_with_iff is_ascii_digit_iff)
  have id: "id_source_from_str s = Some (IdNumeric w) \<longleftrightarrow> \<not> starts_with ''/'' s \<and> parse_u32 s = Some w"
    by (auto simp: id_source_from_str_def)
  have digits: "\<not> starts_with ''/'' s" if "list_all is_ascii_digit s"
    using that by (cases s) (auto simp: starts_with_iff is_ascii_digit_iff)
  have none: "parse_u32 s = None \<longleftrightarrow> s = [] \<or> 2 ^ 32 \<le> dec_value s" if l: "list_all is_ascii_digit s"
  proof -
    have "\<exists>w :: u32. unat w = n" if "n < 2 ^ 32" for n
      using that by (intro exI [of _ "of_nat n"]) (simp add: unsigned_of_nat take_bit_nat_eq_self)
    then have "(\<exists>w. parse_u32 s = Some w) \<longleftrightarrow> s \<noteq> [] \<and> dec_value s < 2 ^ 32"
      unfolding parse_u32_digits [OF l] by metis
    then show ?thesis by (cases "parse_u32 s") auto
  qed
  have "parse_u32 s = Some w \<Longrightarrow> \<not> starts_with ''/'' s"
    using slash unfolding parse_u32_exact by (cases s) auto
  then have 1: "id_source_from_str s = Some (IdNumeric w) \<longleftrightarrow> parse_u32 s = Some w" using id by blast
  have 2: "group_reference_from_str s = Some (GroupNumeric w) \<longleftrightarrow> list_all is_ascii_digit s \<and> parse_u32 s = Some w"
    and 3: "group_reference_from_str s = None \<longleftrightarrow> list_all is_ascii_digit s \<and> parse_u32 s = None"
    using digits by (auto simp: group_reference_from_str_def)
  have 4: "list_all is_ascii_digit s \<and> parse_u32 s = Some w \<longleftrightarrow>
      s \<noteq> [] \<and> list_all is_ascii_digit s \<and> dec_value s = unat w \<and> dec_value s < 2 ^ 32"
    using parse_u32_digits [of s w] by blast
  have 5: "list_all is_ascii_digit s \<and> parse_u32 s = None \<longleftrightarrow>
      list_all is_ascii_digit s \<and> (s = [] \<or> 2 ^ 32 \<le> dec_value s)"
    by (rule conj_cong [OF refl]) (rule none)
  from 2 4 3 5 1 [unfolded parse_u32_exact [of s w]] show ?thesis by (simp only: simp_thms)
qed

section \<open>Properties of the scan\<close>

text \<open>The entries of all lines, before duplicates are dropped.\<close>

fun parsed_lines :: "string list \<Rightarrow> sysusers_entry list res" where
  "parsed_lines [] = Inr []"
| "parsed_lines (line # rest) =
     (if line = [] \<or> starts_with ''#'' line then parsed_lines rest
      else rbind (sysusers_parse line) (\<lambda>e. rbind (parsed_lines rest) (\<lambda>es.
           Inr (case e of None \<Rightarrow> es | Some e \<Rightarrow> e # es))))"

definition conf_lines :: "(string \<times> string) list \<Rightarrow> string list" where
  "conf_lines d = concat (map (str_lines \<circ> snd) (filter (\<lambda>(n, _). path_extension n = Some ''conf'') d))"

fun entry_users :: "sysusers_entry \<Rightarrow> string list" where
  "entry_users (User n _ _ _ _ _) = [n]"
| "entry_users (Group _ _) = []"
| "entry_users (Range _ _) = []"

fun entry_groups :: "sysusers_entry \<Rightarrow> string list" where
  "entry_groups (User _ _ _ _ _ _) = []"
| "entry_groups (Group n _) = [n]"
| "entry_groups (Range _ _) = []"

definition user_names :: "sysusers_entry list \<Rightarrow> string list" where
  "user_names es = concat (map entry_users es)"

definition group_names :: "sysusers_entry list \<Rightarrow> string list" where
  "group_names es = concat (map entry_groups es)"

lemma names_simps [simp]:
  "user_names [] = []" "group_names [] = []"
  "user_names (e # es) = entry_users e @ user_names es"
  "group_names (e # es) = entry_groups e @ group_names es"
  "user_names (es @ fs) = user_names es @ user_names fs"
  "group_names (es @ fs) = group_names es @ group_names fs"
  by (simp_all add: user_names_def group_names_def)

lemma scan_lines_iff:
  "scan_lines ls sc = Inr sc' \<longleftrightarrow> (\<exists>es. parsed_lines ls = Inr es \<and> sc' = foldl add_entry sc es)"
proof (induction ls arbitrary: sc)
  case (Cons l ls)
  then show ?case by (auto simp: rbind_Inr_iff split: option.splits)
qed auto

lemma parsed_lines_append:
  "parsed_lines (ls @ ms) = rbind (parsed_lines ls) (\<lambda>es. rbind (parsed_lines ms) (\<lambda>fs. Inr (es @ fs)))"
proof (induction ls)
  case Nil
  then show ?case by (cases "parsed_lines ms") simp_all
next
  case (Cons l ls)
  then show ?case
    by (cases "sysusers_parse l"; cases "parsed_lines ls"; cases "parsed_lines ms")
      (auto split: option.splits)
qed

lemma scan_files_iff:
  "scan_files d sc = Inr sc' \<longleftrightarrow>
     (\<exists>es. parsed_lines (conf_lines d) = Inr es \<and> sc' = foldl add_entry sc es)"
proof (induction d arbitrary: sc)
  case (Cons f d)
  show ?case
    by (cases f) (auto simp: conf_lines_def Cons [unfolded conf_lines_def] rbind_Inr_iff
        scan_lines_iff parsed_lines_append)
qed (auto simp: conf_lines_def)

text \<open>What the scan has found so far is what its result defines.\<close>

definition scan_ok :: "su_scan \<Rightarrow> bool" where
  "scan_ok sc \<longleftrightarrow> set (found_users sc) = set (user_names (scan_result sc))
     \<and> set (found_groups sc) = set (group_names (scan_result sc))
     \<and> set (user_names (scan_result sc)) \<subseteq> set (group_names (scan_result sc))
     \<and> distinct (user_names (scan_result sc))"

lemma add_entry_names:
  assumes "scan_ok sc"
  shows "set (user_names (scan_result (add_entry sc e))) = set (user_names (scan_result sc)) \<union> set (entry_users e)"
    and "set (group_names (scan_result (add_entry sc e)))
      = set (group_names (scan_result sc)) \<union> set (entry_users e) \<union> set (entry_groups e)"
  using assms by (cases e; auto simp: add_entry_def scan_ok_def)+

lemma add_entry_ok: "scan_ok sc \<Longrightarrow> scan_ok (add_entry sc e)"
  by (cases e) (auto simp: add_entry_def scan_ok_def)

interpretation scan: stateful scan_ok "\<lambda>e sc. add_entry sc e"
  by unfold_locales (rule add_entry_ok)

lemma scan_names:
  assumes "scan_ok sc"
  shows "set (user_names (scan_result (foldl add_entry sc es))) = set (user_names (scan_result sc)) \<union> set (user_names es)"
    and "set (group_names (scan_result (foldl add_entry sc es)))
      = set (group_names (scan_result sc)) \<union> set (user_names es) \<union> set (group_names es)"
  using assms by (induction es arbitrary: sc) (auto simp: add_entry_names add_entry_ok)

lemma scan_init_ok: "scan_ok \<lparr>found_users = [], found_groups = [], scan_result = []\<rparr>"
  by (simp add: scan_ok_def)

text \<open>The result of a read, in terms of the lines of the \<^verbatim>\<open>.conf\<close> files.\<close>

definition dropin_lines :: "su_root \<Rightarrow> string list" where
  "dropin_lines rootfs = (case su_dropins rootfs of None \<Rightarrow> [] | Some d \<Rightarrow> conf_lines d)"

lemma read_sysusers_iff:
  "read_sysusers rootfs = Inr r \<longleftrightarrow>
     (\<exists>es. parsed_lines (dropin_lines rootfs) = Inr es
        \<and> r = scan_result (foldl add_entry \<lparr>found_users = [], found_groups = [], scan_result = []\<rparr> es))"
  by (cases "su_dropins rootfs")
    (auto simp: read_sysusers_def dropin_lines_def rbind_Inr_iff scan_files_iff)

lemma read_sysusers_names:
  assumes "read_sysusers rootfs = Inr r"
  shows "\<exists>es. parsed_lines (dropin_lines rootfs) = Inr es
      \<and> set (user_names r) = set (user_names es)
      \<and> set (group_names r) = set (user_names es) \<union> set (group_names es)
      \<and> distinct (user_names r)"
proof -
  let ?init = "\<lparr>found_users = [], found_groups = [], scan_result = []\<rparr> :: su_scan"
  from assms obtain es where es: "parsed_lines (dropin_lines rootfs) = Inr es"
    "r = scan_result (foldl add_entry ?init es)" by (auto simp: read_sysusers_iff)
  have "scan_ok (foldl add_entry ?init es)"
    using scan.run_inv [OF scan_init_ok, of es] by (simp add: foldl_conv_fold)
  with es scan_names [OF scan_init_ok, of es] show ?thesis by (auto simp: scan_ok_def)
qed

lemma collect_names_set:
  assumes "collect_names es = (us, gs)"
  shows "set us = set (user_names es)" "set gs = set (group_names es)"
proof -
  have "case foldl (\<lambda>(users, groups) ent.
        case ent of
          User name _ _ _ _ _ \<Rightarrow> (btset (name # users), groups)
        | Group name _ \<Rightarrow> (users, btset (name # groups))
        | Range _ _ \<Rightarrow> (users, groups)) (u0, g0) es of
     (us, gs) \<Rightarrow> set us = set u0 \<union> set (user_names es) \<and> set gs = set g0 \<union> set (group_names es)" for u0 g0
  proof (induction es arbitrary: u0 g0)
    case (Cons e es)
    show ?case
    proof (cases e)
      case (User n u p g h s)
      then show ?thesis using Cons [of "btset (n # u0)" g0] by (auto split: prod.splits)
    next
      case (Group n i)
      then show ?thesis using Cons [of u0 "btset (n # g0)"] by (auto split: prod.splits)
    next
      case (Range a b)
      then show ?thesis using Cons [of u0 g0] by (auto split: prod.splits)
    qed
  qed simp
  from this [of "[]" "[]"] assms show "set us = set (user_names es)" "set gs = set (group_names es)"
    by (simp_all add: collect_names_def)
qed

text \<open>
  C29. The analysis is exact: when it succeeds, a user is reported missing exactly when
  \<^verbatim>\<open>/etc/passwd\<close> lists it and no \<^verbatim>\<open>u\<close> line of a \<^verbatim>\<open>.conf\<close> file defines it, and a group exactly when
  \<^verbatim>\<open>/etc/group\<close> lists it and neither a \<^verbatim>\<open>g\<close> line nor the group implied by a \<^verbatim>\<open>u\<close> line defines it;
  which duplicate definitions are dropped plays no role. Both lists are sorted and free of
  duplicates.
\<close>

theorem analyze_exact:
  assumes "analyze rootfs = Inr a" and "load_etc_passwd rootfs = Inr (Some passwd)"
  shows "\<exists>group es. load_etc_group rootfs = Inr group \<and> parsed_lines (dropin_lines rootfs) = Inr es
    \<and> set (missing_users a) = set (map p_name passwd) - set (user_names es)
    \<and> set (missing_groups a) = set (map g_name group) - (set (user_names es) \<union> set (group_names es))
    \<and> sorted_wrt (<) (missing_users a) \<and> sorted_wrt (<) (missing_groups a)"
proof -
  from assms obtain group ents where g: "load_etc_group rootfs = Inr group"
    and r: "read_sysusers rootfs = Inr ents"
    and e: "(case collect_names ents of (us, gs) \<Rightarrow>
       Inr \<lparr>missing_users = filter (\<lambda>k. k \<notin> set us) (btset (map p_name passwd)),
            missing_groups = filter (\<lambda>k. k \<notin> set gs) (btset (map g_name group))\<rparr>) = (Inr a :: su_analysis res)"
    by (auto simp: analyze_def rbind_Inr_iff)
  obtain us gs where c: "collect_names ents = (us, gs)" by (cases "collect_names ents")
  have a: "a = \<lparr>missing_users = filter (\<lambda>k. k \<notin> set us) (btset (map p_name passwd)),
                missing_groups = filter (\<lambda>k. k \<notin> set gs) (btset (map g_name group))\<rparr>"
    using e by (simp add: c)
  have sorted: "sorted_wrt (<) (filter P (btset xs))" for P and xs :: "string list"
    by (intro sorted_wrt_filter) (simp add: strict_sorted_iff)
  from read_sysusers_names [OF r] g collect_names_set [OF c] show ?thesis
    using sorted by (auto simp: a)
qed

text \<open>The witness: one drop-in that defines a user and a group, and one user without definition.\<close>

definition demo_text_file :: "string \<Rightarrow> su_file" where
  "demo_text_file s = \<lparr>su_content = s, su_mode = 33188, su_label = None\<rparr>"

definition demo_su_root :: su_root where
  "demo_su_root =
     \<lparr>su_files = [''etc/passwd'' \<mapsto> demo_text_file (''root:x:0:0::/root:/bin/sh'' @ [NL] @ ''ext:x:9:9::/:/bin/sh''),
                   ''etc/group'' \<mapsto> demo_text_file (''root:x:0:'' @ [NL] @ ''wheel:x:10:root'' @ [NL] @ ''ext:x:9:'')],
      su_dropins = Some [(''README'', ''junk''), (''basic.conf'', ''# Basic'' @ [NL] @ ''u root 0 '' @ [CHR 0x22] @
         ''Super User'' @ [CHR 0x22] @ '' /root /bin/bash'' @ [NL] @ ''g wheel 10'' @ [NL] @ ''m a b'')]\<rparr>"

theorem analyze_exact_witness:
  "analyze demo_su_root = Inr \<lparr>missing_users = [''ext''], missing_groups = [''ext'']\<rparr>
   \<and> (\<exists>es. parsed_lines (dropin_lines demo_su_root) = Inr es \<and> ''ext'' \<notin> set (user_names es))"
proof -
  let ?a = "\<lparr>missing_users = [''ext''], missing_groups = [''ext'']\<rparr> :: su_analysis"
  have a: "analyze demo_su_root = Inr ?a" by code_simp
  have "\<exists>ps. load_etc_passwd demo_su_root = Inr (Some ps)"
  proof -
    have "(case load_etc_passwd demo_su_root of Inr (Some _) \<Rightarrow> True | _ \<Rightarrow> False)" by code_simp
    then show ?thesis by (auto split: sum.splits option.splits)
  qed
  then obtain ps where p: "load_etc_passwd demo_su_root = Inr (Some ps)" by blast
  from analyze_exact [OF a p] a show ?thesis by fastforce
qed

end
