(* ===== verification/Sysusers_Cleanup.thy ===== *)
theory Sysusers_Cleanup
  imports Sysusers
begin

text \<open>
  Removal of orphaned and duplicate entries from \<^verbatim>\<open>/etc/shadow\<close> and \<^verbatim>\<open>/etc/gshadow\<close>
  (\<^verbatim>\<open>crates/lib/src/sysusers_cleanup.rs\<close>), with the labelled replacement of a file from \<^verbatim>\<open>lsm.rs\<close>.

  The state is the files of the root and whether this process holds \<^verbatim>\<open>/etc/.pwd.lock\<close>. Whether the
  root is the real one, the result of \<^verbatim>\<open>lckpwdf\<close> and the SELinux policy are parameters. Opening and
  writing files does not fail; a replacement is atomic.
\<close>

unbundle bit_operations_syntax

section \<open>State and parameters\<close>

record cl_state =
  cl_files :: "string \<Rightarrow> su_file option"
  cl_locked :: bool

text \<open>An SELinux policy: the label of a path and mode, if any.\<close>

type_synonym sepolicy = "string \<Rightarrow> u32 \<Rightarrow> string option res"

record cl_env =
  ce_real_root :: bool
  ce_lckpwdf :: int
  ce_policy :: "sepolicy option res"

definition with_context :: "string \<Rightarrow> 'a res \<Rightarrow> 'a res" where
  "with_context msg r = (case r of Inl _ \<Rightarrow> Inl msg | Inr v \<Rightarrow> Inr v)"

section \<open>Replacing a file\<close>

definition require_label :: "sepolicy \<Rightarrow> string \<Rightarrow> u32 \<Rightarrow> string res" where
  "require_label policy destname mode =
     rbind (policy destname mode) (\<lambda>l. ok_or ''No label found in policy'' l)"

definition atomic_replace_labeled ::
    "string \<Rightarrow> u32 \<Rightarrow> sepolicy option \<Rightarrow> string \<Rightarrow> (cl_state, unit) oper" where
  "atomic_replace_labeled destname mode policy content =
     sbind (slift (lift_res (case policy of
              None \<Rightarrow> Inr None
            | Some p \<Rightarrow> rbind (require_label p (CHR ''/'' # destname) (S_IFREG OR mode)) (\<lambda>l. Inr (Some l)))))
     (\<lambda>label. smodify (\<lambda>s. s\<lparr>cl_files := (cl_files s)(destname \<mapsto>
        \<lparr>su_content = content, su_mode = S_IFREG OR mode, su_label = label\<rparr>)\<rparr>))"

section \<open>Filtering\<close>

definition load_usernames :: "cl_state \<Rightarrow> string \<Rightarrow> string list res" where
  "load_usernames root path =
     (case cl_files root path of
        None \<Rightarrow> Inr []
      | Some f \<Rightarrow> rbind (with_context (''Parsing '' @ path) (parse_passwd_content (su_content f)))
                    (\<lambda>entries. Inr (map p_name entries)))"

definition load_groupnames :: "cl_state \<Rightarrow> string \<Rightarrow> string list res" where
  "load_groupnames root path =
     (case cl_files root path of
        None \<Rightarrow> Inr []
      | Some f \<Rightarrow> rbind (with_context (''Parsing '' @ path) (parse_group_content (su_content f)))
                    (\<lambda>entries. Inr (map g_name entries)))"

record removed_entries =
  orphaned :: "string list"
  duplicates :: "string list"

definition removed_is_empty :: "removed_entries \<Rightarrow> bool" where
  "removed_is_empty r = (orphaned r = [] \<and> duplicates r = [])"

text \<open>The closure of the filter, with the names seen and removed so far.\<close>

fun filter_entries ::
    "('e \<Rightarrow> string) \<Rightarrow> string list \<Rightarrow> string list \<Rightarrow> removed_entries \<Rightarrow> 'e list \<Rightarrow> 'e list \<times> removed_entries" where
  "filter_entries name_fn valid seen removed [] = ([], removed)"
| "filter_entries name_fn valid seen removed (e # es) =
     (let name = name_fn e in
      if name \<notin> set valid
      then filter_entries name_fn valid seen (removed\<lparr>orphaned := orphaned removed @ [name]\<rparr>) es
      else if name \<in> set seen
      then filter_entries name_fn valid seen (removed\<lparr>duplicates := duplicates removed @ [name]\<rparr>) es
      else (case filter_entries name_fn valid (name # seen) removed es of
              (filtered, removed) \<Rightarrow> (e # filtered, removed)))"

definition filter_shadow_file ::
    "string \<Rightarrow> string list \<Rightarrow> ('e \<Rightarrow> string) \<Rightarrow> ('e \<Rightarrow> string) \<Rightarrow> (string \<Rightarrow> 'e list res)
       \<Rightarrow> sepolicy option \<Rightarrow> (cl_state, removed_entries option) oper" where
  "filter_shadow_file path valid_names name_fn serialize_fn parse_fn policy =
     sbind (sget (\<lambda>s. cl_files s path)) (\<lambda>f.
     case f of
       None \<Rightarrow> sret None
     | Some f \<Rightarrow>
         sbind (slift (lift_res (parse_fn (su_content f)))) (\<lambda>entries.
         case filter_entries name_fn valid_names [] \<lparr>orphaned = [], duplicates = []\<rparr> entries of
           (filtered, removed) \<Rightarrow>
             if removed_is_empty removed then sret (Some removed)
             else sbind (atomic_replace_labeled path (from_raw_mode (su_mode f)) policy
                           (concat (map serialize_fn filtered))) (\<lambda>_. sret (Some removed))))"

section \<open>The password lock\<close>

definition acquire_for_root :: "cl_env \<Rightarrow> (cl_state, bool) oper" where
  "acquire_for_root E =
     (if \<not> ce_real_root E then sret False
      else if ce_lckpwdf E \<noteq> 0 then sfail (Err ''lckpwdf() failed: could not acquire /etc/.pwd.lock'')
      else sbind (smodify (\<lambda>s. s\<lparr>cl_locked := True\<rparr>)) (\<lambda>_. sret True))"

definition drop_lock :: "bool \<Rightarrow> cl_state \<Rightarrow> cl_state" where
  "drop_lock locked s = (if \<not> locked then s else s\<lparr>cl_locked := False\<rparr>)"

text \<open>The guard is dropped when its scope ends, on success and on error.\<close>

definition with_pwd_lock :: "cl_env \<Rightarrow> (cl_state, 'a) oper \<Rightarrow> (cl_state, 'a) oper" where
  "with_pwd_lock E body =
     sbind (acquire_for_root E) (\<lambda>locked s. case body s of (r, s') \<Rightarrow> (r, drop_lock locked s'))"

section \<open>The cleanup\<close>

definition valid_names :: "(string \<Rightarrow> string list res) \<Rightarrow> string \<Rightarrow> string \<Rightarrow> string list res" where
  "valid_names load etc usr = rbind (load etc) (\<lambda>a. rbind (load usr) (\<lambda>b. Inr (a @ b)))"

definition fix_shadow_files :: "cl_env \<Rightarrow> (cl_state, unit) oper" where
  "fix_shadow_files E =
     sbind (slift (lift_res (ce_policy E))) (\<lambda>policy.
     sbind (sget (\<lambda>s. valid_names (load_usernames s) ''etc/passwd'' ''usr/lib/passwd'')) (\<lambda>us.
     sbind (slift (lift_res us)) (\<lambda>valid_users.
     sbind (sget (\<lambda>s. valid_names (load_groupnames s) ''etc/group'' ''usr/lib/group'')) (\<lambda>gs.
     sbind (slift (lift_res gs)) (\<lambda>valid_groups.
     if valid_users = [] then sret ()
     else
       sbind (filter_shadow_file ''etc/shadow'' valid_users namp shadow_to_writer parse_shadow_content policy) (\<lambda>_.
       if valid_groups = [] then sret ()
       else sbind (filter_shadow_file ''etc/gshadow'' valid_groups gs_name gshadow_to_writer
                     parse_gshadow_content policy) (\<lambda>_. sret ())))))))"

definition cleanup_run :: "cl_env \<Rightarrow> (cl_state, unit) oper" where
  "cleanup_run E = with_pwd_lock E (fix_shadow_files E)"

section \<open>What the filter keeps\<close>

text \<open>The specification: the entries with a valid name, each name once, at its first place.\<close>

definition keep_first :: "('e \<Rightarrow> string) \<Rightarrow> string list \<Rightarrow> 'e list \<Rightarrow> 'e list" where
  "keep_first name valid es =
     nths es {i. name (es ! i) \<in> set valid \<and> (\<forall>j < i. name (es ! j) \<noteq> name (es ! i))}"

lemma all_less_Suc_iff: "(\<forall>j < Suc i. P j) \<longleftrightarrow> P 0 \<and> (\<forall>j < i. P (Suc j))"
  by (auto simp: less_Suc_eq_0_disj)

lemma filter_entries_nths:
  assumes "filter_entries name valid seen r es = (fs, r')"
  shows "fs = nths es {i. name (es ! i) \<in> set valid \<and> name (es ! i) \<notin> set seen
           \<and> (\<forall>j < i. name (es ! j) \<noteq> name (es ! i))}"
  using assms
proof (induction es arbitrary: seen r fs)
  case (Cons e es)
  show ?case
  proof (cases "name e \<in> set valid \<and> name e \<notin> set seen")
    case True
    then obtain gs where g: "filter_entries name valid (name e # seen) r es = (gs, r')"
      and "fs = e # gs" using Cons.prems by (auto simp: Let_def split: prod.splits)
    with Cons.IH [OF g] True show ?thesis
      by (auto simp: nths_Cons all_less_Suc_iff intro!: arg_cong [where f = "nths es"])
  next
    case False
    then have "\<exists>r1. filter_entries name valid seen r1 es = (fs, r')"
      using Cons.prems by (auto simp: Let_def split: if_splits)
    then have "fs = nths es {i. name (es ! i) \<in> set valid \<and> name (es ! i) \<notin> set seen
        \<and> (\<forall>j < i. name (es ! j) \<noteq> name (es ! i))}" using Cons.IH by blast
    with False show ?thesis
      by (auto simp: nths_Cons all_less_Suc_iff intro!: arg_cong [where f = "nths es"])
  qed
qed simp

lemma filter_entries_keep:
  "filter_entries name valid [] r es = (fs, r') \<Longrightarrow> fs = keep_first name valid es"
  using filter_entries_nths [of name valid "[]" r es fs r'] by (simp add: keep_first_def)

lemma keep_first_code [code]:
  "keep_first name valid es = fst (filter_entries name valid [] \<lparr>orphaned = [], duplicates = []\<rparr> es)"
  using filter_entries_keep [OF prod.collapse [symmetric]] by metis

lemma filter_entries_count:
  "filter_entries name valid seen r es = (fs, r') \<Longrightarrow>
     length fs + length (orphaned r') + length (duplicates r')
       = length es + length (orphaned r) + length (duplicates r)"
  by (induction es arbitrary: seen r fs) (auto simp: Let_def split: if_splits prod.splits)

lemma subseq_nths: "subseq (nths xs A) xs"
  by (auto simp: subseq_conv_nths)

lemma keep_first_all_iff:
  assumes "filter_entries name valid [] \<lparr>orphaned = [], duplicates = []\<rparr> es = (fs, r)"
  shows "removed_is_empty r \<longleftrightarrow> keep_first name valid es = es"
proof -
  have fs: "fs = keep_first name valid es" using filter_entries_keep [OF assms] .
  have n: "length fs + length (orphaned r) + length (duplicates r) = length es"
    using filter_entries_count [OF assms] by simp
  have "length fs = length es \<longleftrightarrow> fs = es"
    using subseq_same_length [OF subseq_nths] by (auto simp: fs keep_first_def)
  moreover have "removed_is_empty r \<longleftrightarrow> length fs = length es" using n by (auto simp: removed_is_empty_def)
  ultimately show ?thesis unfolding fs by blast
qed

lemma set_keep_first: "set (keep_first name valid es) \<subseteq> set es"
  by (simp add: keep_first_def set_nths_subset)

text \<open>Its fixed points: valid and distinct names.\<close>

lemma filter_entries_names:
  "filter_entries name valid seen r es = (fs, r') \<Longrightarrow>
     distinct (map name fs) \<and> name ` set fs \<subseteq> set valid - set seen"
proof (induction es arbitrary: seen r fs)
  case (Cons e es)
  show ?case
  proof (cases "name e \<in> set valid \<and> name e \<notin> set seen")
    case True
    then obtain gs where g: "filter_entries name valid (name e # seen) r es = (gs, r')"
      and "fs = e # gs" using Cons.prems by (auto simp: Let_def split: prod.splits)
    with Cons.IH [OF g] True show ?thesis by auto
  next
    case False
    then have "\<exists>r1. filter_entries name valid seen r1 es = (fs, r')"
      using Cons.prems by (auto simp: Let_def split: if_splits)
    then show ?thesis using Cons.IH by blast
  qed
qed simp

lemma filter_entries_fixed:
  "distinct (map name es) \<Longrightarrow> name ` set es \<subseteq> set valid - set seen \<Longrightarrow>
     filter_entries name valid seen r es = (es, r)"
proof (induction es arbitrary: seen)
  case (Cons e es)
  then have "name e \<notin> name ` set es" "name ` set es \<subseteq> set valid - set seen" by auto
  then have "name ` set es \<subseteq> set valid - set (name e # seen)" unfolding list.set by blast
  with Cons.IH Cons.prems(1) have "filter_entries name valid (name e # seen) r es = (es, r)" by simp
  with Cons.prems(2) show ?case by (simp add: Let_def)
qed simp

lemma keep_first_props:
  "distinct (map name (keep_first name valid es))" "name ` set (keep_first name valid es) \<subseteq> set valid"
proof -
  obtain fs r where f: "filter_entries name valid [] \<lparr>orphaned = [], duplicates = []\<rparr> es = (fs, r)"
    by fastforce
  from filter_entries_names [OF f] filter_entries_keep [OF f]
  show "distinct (map name (keep_first name valid es))" "name ` set (keep_first name valid es) \<subseteq> set valid"
    by auto
qed

lemma keep_first_idem [simp]: "keep_first name valid (keep_first name valid es) = keep_first name valid es"
  using filter_entries_keep [OF filter_entries_fixed, of name "keep_first name valid es" valid]
    keep_first_props [of name valid es] by simp

section \<open>The effect on a file\<close>

text \<open>
  A rewritten file keeps its permissions, holds the serialised entries the filter keeps, and gets
  a label when there is a policy.
\<close>

definition rewritten :: "('e \<Rightarrow> string) \<Rightarrow> su_file \<Rightarrow> 'e list \<Rightarrow> string option \<Rightarrow> su_file" where
  "rewritten ser f es label =
     \<lparr>su_content = concat (map ser es), su_mode = S_IFREG OR from_raw_mode (su_mode f), su_label = label\<rparr>"

lemma filter_shadow_file_eq:
  assumes "cl_files s path = Some f" and "parse (su_content f) = Inr es"
    and "filter_entries name valid [] \<lparr>orphaned = [], duplicates = []\<rparr> es = (fs, rm)"
  shows "filter_shadow_file path valid name ser parse policy s =
    (if removed_is_empty rm then (Inr (Some rm), s)
     else sbind (atomic_replace_labeled path (from_raw_mode (su_mode f)) policy (concat (map ser fs)))
            (\<lambda>_. sret (Some rm)) s)"
  using assms
  by (simp add: filter_shadow_file_def sbind_def sget_def slift_def lift_res_def sret_def)

lemma filter_shadow_file_effect:
  assumes "filter_shadow_file path valid name ser parse policy s = (Inr r, s')"
  obtains (Absent) "cl_files s path = None" "s' = s"
    | (Clean) f es where "cl_files s path = Some f" "parse (su_content f) = Inr es"
        "keep_first name valid es = es" "s' = s"
    | (Rewritten) f es label where "cl_files s path = Some f" "parse (su_content f) = Inr es"
        "keep_first name valid es \<noteq> es" "label = None \<longleftrightarrow> policy = None"
        "s' = s\<lparr>cl_files := (cl_files s)(path \<mapsto> rewritten ser f (keep_first name valid es) label)\<rparr>"
proof (cases "cl_files s path")
  case None
  then have "s' = s" using assms by (simp add: filter_shadow_file_def sbind_def sget_def sret_def)
  with None show ?thesis by (rule Absent)
next
  case (Some f)
  with assms obtain es where es: "parse (su_content f) = Inr es"
    by (auto simp: filter_shadow_file_def sbind_Inr_iff sget_def slift_def lift_res_Inr_iff)
  obtain fs rm where f: "filter_entries name valid [] \<lparr>orphaned = [], duplicates = []\<rparr> es = (fs, rm)"
    by fastforce
  note k = filter_entries_keep [OF f] keep_first_all_iff [OF f]
  note e = filter_shadow_file_eq [where parse = parse and s = s and path = path, OF Some es f]
  show ?thesis
  proof (cases "keep_first name valid es = es")
    case True
    with k(2) have "removed_is_empty rm" by blast
    then have "s' = s" using assms by (simp add: e)
    then show ?thesis by (rule Clean [OF Some es True])
  next
    case False
    with k(2) have "\<not> removed_is_empty rm" by blast
    then have "\<exists>label. (label = None \<longleftrightarrow> policy = None) \<and>
        s' = s\<lparr>cl_files := (cl_files s)(path \<mapsto> rewritten ser f (keep_first name valid es) label)\<rparr>"
      using assms unfolding k(1) [symmetric]
      by (cases policy)
        (auto simp: e atomic_replace_labeled_def sbind_Inr_iff slift_def
          smodify_def sret_def rewritten_def rbind_Inr_iff lift_res_Inr_iff)
    then show ?thesis using Rewritten [OF Some es False] by blast
  qed
qed

lemma filter_shadow_file_error:
  "fst (filter_shadow_file path valid name ser parse policy s) = Inl e
     \<Longrightarrow> snd (filter_shadow_file path valid name ser parse policy s) = s"
  by (auto simp: filter_shadow_file_def atomic_replace_labeled_def sbind_def sget_def slift_def lift_res_def
      smodify_def sret_def split: option.splits prod.splits sum.splits if_splits)

section \<open>The cleanup as a whole\<close>

text \<open>What the body does with the lock and with the files it does not own.\<close>

definition cl_frame :: "cl_state \<Rightarrow> cl_state \<Rightarrow> bool" where
  "cl_frame s t \<longleftrightarrow> cl_locked t = cl_locked s
     \<and> (\<forall>p. p \<noteq> ''etc/shadow'' \<longrightarrow> p \<noteq> ''etc/gshadow'' \<longrightarrow> cl_files t p = cl_files s p)"

interpretation frame: state_order cl_frame
  by unfold_locales (simp_all add: cl_frame_def)

lemma keeps_filter:
  assumes "path = ''etc/shadow'' \<or> path = ''etc/gshadow''"
  shows "keeps cl_frame (filter_shadow_file path valid name ser parse policy)"
proof -
  have "keeps cl_frame (smodify (\<lambda>s. s\<lparr>cl_files := (cl_files s)(path \<mapsto> f)\<rparr>))" for f
    using assms by (auto simp: keeps_def smodify_def cl_frame_def)
  then show ?thesis
    unfolding filter_shadow_file_def atomic_replace_labeled_def
    by (auto intro!: frame.keeps_bind split: option.split prod.split)
qed

lemma keeps_fix_shadow_files: "keeps cl_frame (fix_shadow_files E)"
  unfolding fix_shadow_files_def by (auto intro!: frame.keeps_bind keeps_filter)

lemma cleanup_run_cases:
  assumes "\<not> cl_locked s"
  obtains (Failed) e where "cleanup_run E s = (Inl e, s)"
    | (Ran) s0 r t where "s0 = s \<or> s0 = s\<lparr>cl_locked := True\<rparr>" "fix_shadow_files E s0 = (r, t)"
        "cl_frame s0 t" "cleanup_run E s = (r, t\<lparr>cl_locked := False\<rparr>)"
proof -
  consider "\<not> ce_real_root E" | "ce_real_root E" "ce_lckpwdf E \<noteq> 0" | "ce_real_root E" "ce_lckpwdf E = 0" by blast
  then show ?thesis
  proof cases
    case 1
    obtain r t where rt: "fix_shadow_files E s = (r, t)" by fastforce
    then have fr: "cl_frame s t" using keeps_fix_shadow_files by (metis keeps_def snd_conv)
    then have "t\<lparr>cl_locked := False\<rparr> = t" using assms by (cases t) (simp add: cl_frame_def)
    then have "cleanup_run E s = (r, t\<lparr>cl_locked := False\<rparr>)" using 1 rt
      by (simp add: cleanup_run_def with_pwd_lock_def acquire_for_root_def sbind_def sret_def drop_lock_def)
    with rt fr show ?thesis by (intro Ran [of s r t]) simp_all
  next
    case 2
    then have "\<exists>e. cleanup_run E s = (Inl e, s)"
      by (simp add: cleanup_run_def with_pwd_lock_def acquire_for_root_def sbind_def sfail_def)
    with Failed show ?thesis by blast
  next
    case 3
    let ?s = "s\<lparr>cl_locked := True\<rparr>"
    obtain r t where rt: "fix_shadow_files E ?s = (r, t)" by fastforce
    then have fr: "cl_frame ?s t" using keeps_fix_shadow_files by (metis keeps_def snd_conv)
    have "cleanup_run E s = (r, t\<lparr>cl_locked := False\<rparr>)" using 3 rt
      by (simp add: cleanup_run_def with_pwd_lock_def acquire_for_root_def sbind_def sret_def smodify_def drop_lock_def)
    with rt fr show ?thesis by (intro Ran [of ?s r t]) simp_all
  qed
qed

text \<open>
  The cleanup is confined and releases its lock: whether it succeeds or fails, and at
  whatever step, the password lock is free afterwards and every file but \<^verbatim>\<open>etc/shadow\<close> and
  \<^verbatim>\<open>etc/gshadow\<close> is as it was.
\<close>

theorem cleanup_confined:
  assumes "\<not> cl_locked s" and "cleanup_run E s = (r, s')"
  shows "\<not> cl_locked s' \<and> (\<forall>p. p \<noteq> ''etc/shadow'' \<and> p \<noteq> ''etc/gshadow'' \<longrightarrow> cl_files s' p = cl_files s p)"
  using assms(1)
proof (cases rule: cleanup_run_cases [where E = E])
  case (Failed e)
  then show ?thesis using assms by simp
next
  case (Ran s0 r' t)
  from Ran(4) assms(2) have "s' = t\<lparr>cl_locked := False\<rparr>" by simp
  moreover from Ran(1) have "cl_files s0 = cl_files s" by (elim disjE) simp_all
  ultimately show ?thesis using Ran(3) by (simp add: cl_frame_def)
qed

section \<open>Refinement\<close>

text \<open>
  The abstract view: a shadow file is absent, broken, or a list of entries, and the cleanup keeps
  the first entry of each valid name.
\<close>

definition shadow_of :: "cl_state \<Rightarrow> shadow_entry list res option" where
  "shadow_of s = map_option (\<lambda>f. parse_shadow_content (su_content f)) (cl_files s ''etc/shadow'')"

definition gshadow_of :: "cl_state \<Rightarrow> gshadow_entry list res option" where
  "gshadow_of s = map_option (\<lambda>f. parse_gshadow_content (su_content f)) (cl_files s ''etc/gshadow'')"

definition clean :: "('e \<Rightarrow> string) \<Rightarrow> string list \<Rightarrow> 'e list res option \<Rightarrow> 'e list res option" where
  "clean name valid = map_option (map_sum id (keep_first name valid))"

definition same_perms :: "su_file option \<Rightarrow> su_file option \<Rightarrow> bool" where
  "same_perms x y = rel_option (\<lambda>f g. from_raw_mode (su_mode f) = from_raw_mode (su_mode g)) x y"

lemma same_perms_refl [simp]: "same_perms x x"
  by (cases x) (simp_all add: same_perms_def)

lemma filter_refines:
  assumes "filter_shadow_file path valid name ser parse policy s = (Inr r, s')"
    and "\<forall>f es. cl_files s path = Some f \<longrightarrow> parse (su_content f) = Inr es \<longrightarrow>
           parse (concat (map ser (keep_first name valid es))) = Inr (keep_first name valid es)"
  shows "map_option (\<lambda>f. parse (su_content f)) (cl_files s' path)
           = clean name valid (map_option (\<lambda>f. parse (su_content f)) (cl_files s path))"
    and "p \<noteq> path \<Longrightarrow> cl_files s' p = cl_files s p"
    and "same_perms (cl_files s path) (cl_files s' path)"
  using assms(1)
  by (cases rule: filter_shadow_file_effect;
      simp add: clean_def rewritten_def same_perms_def assms(2))+

text \<open>The entries of a file without carriage returns can be written back.\<close>

definition no_cr :: "su_file option \<Rightarrow> bool" where
  "no_cr f = (case f of None \<Rightarrow> True | Some f \<Rightarrow> CR \<notin> set (su_content f))"

lemma list_all_keep_first: "list_all P es \<Longrightarrow> list_all P (keep_first name valid es)"
  using set_keep_first [of name valid es] by (auto simp: list_all_iff)

lemma shadow_rewrite:
  assumes "CR \<notin> set c" and "parse_shadow_content c = Inr es"
  shows "parse_shadow_content (concat (map shadow_to_writer (keep_first name valid es))) = Inr (keep_first name valid es)"
  using assms unfolding parse_shadow_content_def concat_to_writer
  by (blast intro: shadow.parse_write_all list_all_keep_first shadow.parse_content_good str_lines_plain)

lemma gshadow_rewrite:
  assumes "CR \<notin> set c" and "parse_gshadow_content c = Inr es"
  shows "parse_gshadow_content (concat (map gshadow_to_writer (keep_first name valid es))) = Inr (keep_first name valid es)"
  using assms unfolding parse_gshadow_content_def concat_to_writer
  by (blast intro: gshadow.parse_write_all list_all_keep_first gshadow.parse_content_good str_lines_plain)

abbreviation valid_users :: "cl_state \<Rightarrow> string list res" where
  "valid_users s \<equiv> valid_names (load_usernames s) ''etc/passwd'' ''usr/lib/passwd''"

abbreviation valid_groups :: "cl_state \<Rightarrow> string list res" where
  "valid_groups s \<equiv> valid_names (load_groupnames s) ''etc/group'' ''usr/lib/group''"

lemma fix_shadow_files_steps:
  assumes "fix_shadow_files E s = (Inr (), t)"
  obtains policy us gs where "ce_policy E = Inr policy" "valid_users s = Inr us" "valid_groups s = Inr gs"
    "us = [] \<and> t = s \<or> us \<noteq> [] \<and> (\<exists>r s1.
       filter_shadow_file ''etc/shadow'' us namp shadow_to_writer parse_shadow_content policy s = (Inr r, s1)
       \<and> (gs = [] \<and> t = s1 \<or> gs \<noteq> [] \<and> (\<exists>r'. filter_shadow_file ''etc/gshadow'' gs gs_name
            gshadow_to_writer parse_gshadow_content policy s1 = (Inr r', t))))"
  using assms unfolding fix_shadow_files_def
  by (auto simp: sbind_Inr_iff slift_def sget_def lift_res_Inr_iff sret_def split: if_splits)

lemma fix_shadow_files_refines:
  assumes fx: "fix_shadow_files E s = (Inr (), t)"
    and cr: "no_cr (cl_files s ''etc/shadow'')" "no_cr (cl_files s ''etc/gshadow'')"
  shows "\<exists>us gs. valid_users s = Inr us \<and> valid_groups s = Inr gs
    \<and> shadow_of t = (if us = [] then shadow_of s else clean namp us (shadow_of s))
    \<and> gshadow_of t = (if us = [] \<or> gs = [] then gshadow_of s else clean gs_name gs (gshadow_of s))
    \<and> same_perms (cl_files s ''etc/shadow'') (cl_files t ''etc/shadow'')
    \<and> same_perms (cl_files s ''etc/gshadow'') (cl_files t ''etc/gshadow'')"
proof -
  from fx obtain policy us gs where v: "valid_users s = Inr us" "valid_groups s = Inr gs"
    and steps: "us = [] \<and> t = s \<or> us \<noteq> [] \<and> (\<exists>r s1.
       filter_shadow_file ''etc/shadow'' us namp shadow_to_writer parse_shadow_content policy s = (Inr r, s1)
       \<and> (gs = [] \<and> t = s1 \<or> gs \<noteq> [] \<and> (\<exists>r'. filter_shadow_file ''etc/gshadow'' gs gs_name
            gshadow_to_writer parse_gshadow_content policy s1 = (Inr r', t))))"
    by (rule fix_shadow_files_steps)
  show ?thesis
  proof (cases "us = []")
    case True
    with steps v show ?thesis by simp
  next
    case False
    with steps obtain r s1 where f1: "filter_shadow_file ''etc/shadow'' us namp shadow_to_writer
        parse_shadow_content policy s = (Inr r, s1)"
      and s1: "gs = [] \<and> t = s1 \<or> gs \<noteq> [] \<and> (\<exists>r'. filter_shadow_file ''etc/gshadow'' gs gs_name
            gshadow_to_writer parse_gshadow_content policy s1 = (Inr r', t))" by blast
    have "\<forall>f es. cl_files s ''etc/shadow'' = Some f \<longrightarrow> parse_shadow_content (su_content f) = Inr es \<longrightarrow>
        parse_shadow_content (concat (map shadow_to_writer (keep_first namp us es))) = Inr (keep_first namp us es)"
      using cr(1) by (auto simp: no_cr_def intro: shadow_rewrite)
    note r1 = filter_refines [OF f1 this]
    show ?thesis
    proof (cases "gs = []")
      case True
      with s1 r1 v False show ?thesis by (simp add: shadow_of_def gshadow_of_def)
    next
      case gs: False
      with s1 obtain r' where f2: "filter_shadow_file ''etc/gshadow'' gs gs_name
            gshadow_to_writer parse_gshadow_content policy s1 = (Inr r', t)" by blast
      have g1: "cl_files s1 ''etc/gshadow'' = cl_files s ''etc/gshadow''" by (rule r1(2)) simp
      have "\<forall>f es. cl_files s1 ''etc/gshadow'' = Some f \<longrightarrow> parse_gshadow_content (su_content f) = Inr es \<longrightarrow>
          parse_gshadow_content (concat (map gshadow_to_writer (keep_first gs_name gs es))) = Inr (keep_first gs_name gs es)"
        using cr(2) g1 by (auto simp: no_cr_def intro: gshadow_rewrite)
      note r2 = filter_refines [OF f2 this]
      have "cl_files t ''etc/shadow'' = cl_files s1 ''etc/shadow''" by (rule r2(2)) simp
      with r1 r2 g1 v False gs show ?thesis by (simp add: shadow_of_def gshadow_of_def)
    qed
  qed
qed

text \<open>A file that was filtered is left alone the next time.\<close>

lemma filter_clean:
  assumes "map_option (\<lambda>f. parse (su_content f)) (cl_files u path) = clean name valid x"
    and "\<forall>e. x \<noteq> Some (Inl e)"
  shows "\<exists>r. filter_shadow_file path valid name ser parse policy u = (Inr r, u)"
proof (cases "cl_files u path")
  case None
  then show ?thesis by (simp add: filter_shadow_file_def sbind_def sget_def sret_def)
next
  case (Some f)
  with assms obtain es where es: "parse (su_content f) = Inr (keep_first name valid es)"
    by (cases x) (auto simp: clean_def map_sum_def id_def split: sum.splits)
  obtain fs rm where f: "filter_entries name valid [] \<lparr>orphaned = [], duplicates = []\<rparr> (keep_first name valid es) = (fs, rm)"
    by fastforce
  have "removed_is_empty rm" using keep_first_all_iff [OF f] by simp
  then show ?thesis
    using filter_shadow_file_eq [where parse = parse and s = u and path = path, OF Some es f] by simp
qed

lemma filter_parsed:
  assumes "filter_shadow_file path valid name ser parse policy s = (Inr r, s')"
  shows "\<forall>e. map_option (\<lambda>f. parse (su_content f)) (cl_files s path) \<noteq> Some (Inl e)"
  using assms by (cases rule: filter_shadow_file_effect) simp_all

lemma fix_shadow_files_again:
  assumes fx: "fix_shadow_files E s = (Inr (), t)"
    and cr: "no_cr (cl_files s ''etc/shadow'')" "no_cr (cl_files s ''etc/gshadow'')"
  shows "fix_shadow_files E t = (Inr (), t)"
proof -
  have "cl_frame s t" using keeps_fix_shadow_files fx by (metis keeps_def snd_conv)
  then have v: "valid_users t = valid_users s" "valid_groups t = valid_groups s"
    by (simp_all add: valid_names_def load_usernames_def load_groupnames_def cl_frame_def)
  from fx obtain policy us gs where p: "ce_policy E = Inr policy"
    and vs: "valid_users s = Inr us" "valid_groups s = Inr gs"
    and steps: "us = [] \<and> t = s \<or> us \<noteq> [] \<and> (\<exists>r s1.
       filter_shadow_file ''etc/shadow'' us namp shadow_to_writer parse_shadow_content policy s = (Inr r, s1)
       \<and> (gs = [] \<and> t = s1 \<or> gs \<noteq> [] \<and> (\<exists>r'. filter_shadow_file ''etc/gshadow'' gs gs_name
            gshadow_to_writer parse_gshadow_content policy s1 = (Inr r', t))))"
    by (rule fix_shadow_files_steps)
  from fix_shadow_files_refines [OF fx cr] vs have c:
    "us \<noteq> [] \<Longrightarrow> shadow_of t = clean namp us (shadow_of s)"
    "us \<noteq> [] \<Longrightarrow> gs \<noteq> [] \<Longrightarrow> gshadow_of t = clean gs_name gs (gshadow_of s)" by auto
  have sh: "\<exists>r. filter_shadow_file ''etc/shadow'' us namp shadow_to_writer parse_shadow_content policy t = (Inr r, t)"
    if "us \<noteq> []"
    using steps that c(1) [OF that] by (intro filter_clean [of _ _ _ _ _ "shadow_of s"])
      (auto simp: shadow_of_def dest: filter_parsed)
  have gsh: "\<exists>r. filter_shadow_file ''etc/gshadow'' gs gs_name gshadow_to_writer parse_gshadow_content policy t = (Inr r, t)"
    if ne: "us \<noteq> []" "gs \<noteq> []"
  proof -
    from steps ne obtain r s1 r' where f1: "filter_shadow_file ''etc/shadow'' us namp shadow_to_writer
        parse_shadow_content policy s = (Inr r, s1)" and f2: "filter_shadow_file ''etc/gshadow'' gs gs_name
        gshadow_to_writer parse_gshadow_content policy s1 = (Inr r', t)" by blast
    have "cl_files s1 ''etc/gshadow'' = cl_files s ''etc/gshadow''"
      using f1 by (cases rule: filter_shadow_file_effect) simp_all
    then show ?thesis using filter_parsed [OF f2] c(2) [OF ne]
      by (intro filter_clean [of _ _ _ _ _ "gshadow_of s"]) (simp_all add: gshadow_of_def)
  qed
  show ?thesis
  proof (cases "us = [] \<or> gs = []")
    case True
    with sh p vs v show ?thesis
      by (auto simp: fix_shadow_files_def sbind_def sget_def slift_def lift_res_def sret_def)
  next
    case False
    with sh gsh p vs v show ?thesis
      by (auto simp: fix_shadow_files_def sbind_def sget_def slift_def lift_res_def sret_def)
  qed
qed

lemma cleanup_run_eq:
  "cleanup_run E s =
     (if \<not> ce_real_root E then fix_shadow_files E s
      else if ce_lckpwdf E \<noteq> 0 then (Inl (Err ''lckpwdf() failed: could not acquire /etc/.pwd.lock''), s)
      else (case fix_shadow_files E (s\<lparr>cl_locked := True\<rparr>) of (r, t) \<Rightarrow> (r, t\<lparr>cl_locked := False\<rparr>)))"
  by (simp add: cleanup_run_def with_pwd_lock_def acquire_for_root_def sbind_def sret_def sfail_def
      smodify_def drop_lock_def)

lemma cleanup_run_again:
  assumes "cleanup_run E s = (Inr (), s')"
    and "no_cr (cl_files s ''etc/shadow'')" and "no_cr (cl_files s ''etc/gshadow'')"
  shows "cleanup_run E s' = (Inr (), s')"
proof (cases "ce_real_root E")
  case False
  then show ?thesis using assms fix_shadow_files_again by (simp add: cleanup_run_eq)
next
  case True
  let ?s = "s\<lparr>cl_locked := True\<rparr>"
  from True assms(1) obtain t where t: "fix_shadow_files E ?s = (Inr (), t)" "s' = t\<lparr>cl_locked := False\<rparr>"
    and l: "ce_lckpwdf E = 0" by (auto simp: cleanup_run_eq split: if_splits prod.splits)
  have "cl_frame ?s t" using keeps_fix_shadow_files t(1) by (metis keeps_def snd_conv)
  then have "s'\<lparr>cl_locked := True\<rparr> = t" using t(2) by (cases t) (simp add: cl_frame_def)
  moreover have "fix_shadow_files E t = (Inr (), t)"
    using fix_shadow_files_again [OF t(1)] assms(2,3) by simp
  ultimately show ?thesis using True l t(2) by (simp add: cleanup_run_eq)
qed

text \<open>
  C9. A successful cleanup implements its specification on the parsed files: the shadow entries
  afterwards are, in order, the first entry of each name that \<^verbatim>\<open>passwd\<close> or \<^verbatim>\<open>/usr/lib/passwd\<close> knows
  (all entries when neither knows a user), likewise for \<^verbatim>\<open>gshadow\<close> and the group files, and both
  files keep their permission bits. A second run succeeds and changes nothing. The files have no
  carriage returns.
\<close>

theorem cleanup_refines:
  assumes "\<not> cl_locked s" and "cleanup_run E s = (Inr (), s')"
    and "no_cr (cl_files s ''etc/shadow'')" and "no_cr (cl_files s ''etc/gshadow'')"
  shows "\<exists>us gs. valid_users s = Inr us \<and> valid_groups s = Inr gs
    \<and> shadow_of s' = (if us = [] then shadow_of s else clean namp us (shadow_of s))
    \<and> gshadow_of s' = (if us = [] \<or> gs = [] then gshadow_of s else clean gs_name gs (gshadow_of s))
    \<and> same_perms (cl_files s ''etc/shadow'') (cl_files s' ''etc/shadow'')
    \<and> same_perms (cl_files s ''etc/gshadow'') (cl_files s' ''etc/gshadow'')
    \<and> cleanup_run E s' = (Inr (), s')"
  using assms(1)
proof (cases rule: cleanup_run_cases [where E = E])
  case (Failed e)
  then show ?thesis using assms(2) by simp
next
  case (Ran s0 r t)
  have same: "cl_files s0 = cl_files s" using Ran(1) by (elim disjE) simp_all
  then have v: "load_usernames s0 = load_usernames s" "load_groupnames s0 = load_groupnames s"
    "shadow_of s0 = shadow_of s" "gshadow_of s0 = gshadow_of s"
    by (simp_all add: load_usernames_def load_groupnames_def shadow_of_def gshadow_of_def fun_eq_iff)
  have s': "r = Inr ()" "s' = t\<lparr>cl_locked := False\<rparr>" using Ran(4) assms(2) by simp_all
  then have "shadow_of s' = shadow_of t" "gshadow_of s' = gshadow_of t" "cl_files s' = cl_files t"
    by (simp_all add: shadow_of_def gshadow_of_def)
  with fix_shadow_files_refines [of E s0 t] Ran(2) assms(3,4) cleanup_run_again [OF assms(2-4)] show ?thesis
    unfolding v same s'(1) by simp
qed

section \<open>Witnesses\<close>

definition demo_cl_env :: cl_env where
  "demo_cl_env = \<lparr>ce_real_root = True, ce_lckpwdf = 0, ce_policy = Inr None\<rparr>"

definition demo_cl_state :: cl_state where
  "demo_cl_state =
     \<lparr>cl_files =
        [''etc/passwd'' \<mapsto> demo_text_file ''root:x:0:0::/root:/bin/sh'',
         ''etc/group'' \<mapsto> demo_text_file ''wheel:x:10:root'',
         ''etc/shadow'' \<mapsto> demo_text_file (''root:x:1::::::'' @ [NL] @ ''ghost:y:2::::::'' @ [NL] @ ''root:z:3::::::''),
         ''etc/gshadow'' \<mapsto> demo_text_file (''wheel:::root'' @ [NL] @ ''+:::'')],
      cl_locked = False\<rparr>"

definition demo_root_shadow :: shadow_entry where
  "demo_root_shadow = \<lparr>namp = ''root'', pwdp = ''x'', lstchg = Some 1, sp_min = None, sp_max = None,
     sp_warn = None, inact = None, expire = None, sp_flag = []\<rparr>"

lemma demo_cleanup: "\<exists>t. cleanup_run demo_cl_env demo_cl_state = (Inr (), t)"
proof -
  have "fst (cleanup_run demo_cl_env demo_cl_state) = Inr ()" by code_simp
  then show ?thesis by (metis prod.collapse)
qed

lemma demo_unlocked: "\<not> cl_locked demo_cl_state"
  by code_simp

theorem cleanup_confined_witness:
  "\<exists>t. cleanup_run demo_cl_env demo_cl_state = (Inr (), t) \<and> \<not> cl_locked t
     \<and> cl_files t ''etc/passwd'' = cl_files demo_cl_state ''etc/passwd''"
proof -
  obtain t where t: "cleanup_run demo_cl_env demo_cl_state = (Inr (), t)" using demo_cleanup by blast
  from cleanup_confined [OF demo_unlocked t] t show ?thesis by auto
qed

theorem cleanup_refines_witness:
  "\<exists>t. cleanup_run demo_cl_env demo_cl_state = (Inr (), t) \<and> shadow_of t = Some (Inr [demo_root_shadow])"
proof -
  obtain t where t: "cleanup_run demo_cl_env demo_cl_state = (Inr (), t)" using demo_cleanup by blast
  have cr: "no_cr (cl_files demo_cl_state ''etc/shadow'')" "no_cr (cl_files demo_cl_state ''etc/gshadow'')"
    by code_simp+
  have u: "valid_users demo_cl_state = Inr [''root'']" by code_simp
  have c: "clean namp [''root''] (shadow_of demo_cl_state) = Some (Inr [demo_root_shadow])" by code_simp
  from cleanup_refines [OF demo_unlocked t cr] u c have "shadow_of t = Some (Inr [demo_root_shadow])" by auto
  with t show ?thesis by blast
qed

text \<open>
  Unlike the parsers of \<^verbatim>\<open>passwd\<close> and \<^verbatim>\<open>group\<close>, those of the shadow files do not skip NSS
  compatibility lines: such a line counts as an entry of an unknown name and is removed.
\<close>

theorem cleanup_drops_compat_line:
  "map_option su_content (cl_files demo_cl_state ''etc/gshadow'') = Some (''wheel:::root'' @ [NL] @ ''+:::'')
   \<and> map_option su_content (cl_files (snd (cleanup_run demo_cl_env demo_cl_state)) ''etc/gshadow'')
       = Some (''wheel:::root'' @ [NL])"
  by code_simp

end
