(* ===== verification/Tmpfiles.thy ===== *)
theory Tmpfiles
  imports Rust_Word Rust_State Rust_Path
begin

text \<open>
  Lines of tmpfiles.d (\<^verbatim>\<open>crates/tmpfiles/src/lib.rs\<close>): escaping and unescaping of paths, the
  translation of a directory or symbolic link to a line, and reading the path of a line.

  A path is its bytes. The round trip is proved for every absolute path, with the rewriting of
  \<^verbatim>\<open>/var/run\<close> to \<^verbatim>\<open>/run\<close> that the writer makes.
\<close>

section \<open>Bytes\<close>

definition byte :: "char \<Rightarrow> nat" where
  "byte c = of_char c"

definition is_ascii_alphanumeric :: "char \<Rightarrow> bool" where
  "is_ascii_alphanumeric c =
     (48 \<le> byte c \<and> byte c \<le> 57 \<or> 65 \<le> byte c \<and> byte c \<le> 90 \<or> 97 \<le> byte c \<and> byte c \<le> 122)"

definition is_ascii_punctuation :: "char \<Rightarrow> bool" where
  "is_ascii_punctuation c =
     (33 \<le> byte c \<and> byte c \<le> 47 \<or> 58 \<le> byte c \<and> byte c \<le> 64
      \<or> 91 \<le> byte c \<and> byte c \<le> 96 \<or> 123 \<le> byte c \<and> byte c \<le> 126)"

definition is_ascii_whitespace :: "char \<Rightarrow> bool" where
  "is_ascii_whitespace c = (c \<in> {CHR 0x20, CHR 0x09, CHR 0x0A, CHR 0x0C, CHR 0x0D})"

text \<open>Hexadecimal digits: \<^verbatim>\<open>{:02x}\<close>, and \<^verbatim>\<open>u8::from_str_radix(s, 16)\<close> of two characters.\<close>

definition hex_char :: "nat \<Rightarrow> char" where
  "hex_char n = char_of (if n < 10 then 48 + n else 87 + n)"

definition hex2 :: "char \<Rightarrow> string" where
  "hex2 c = [hex_char (byte c div 16), hex_char (byte c mod 16)]"

definition hex_val :: "char \<Rightarrow> nat option" where
  "hex_val c =
     (if 48 \<le> byte c \<and> byte c \<le> 57 then Some (byte c - 48)
      else if 97 \<le> byte c \<and> byte c \<le> 102 then Some (byte c - 87)
      else if 65 \<le> byte c \<and> byte c \<le> 70 then Some (byte c - 55)
      else None)"

definition parse_hex2 :: "char \<Rightarrow> char \<Rightarrow> char option" where
  "parse_hex2 a b =
     (if a = CHR ''+'' then map_option char_of (hex_val b)
      else (case (hex_val a, hex_val b) of
              (Some x, Some y) \<Rightarrow> Some (char_of (x * 16 + y))
            | _ \<Rightarrow> None))"

section \<open>Errors\<close>

datatype tmpfiles_error =
    UserNotFound u32
  | GroupNotFound u32
  | NonUtf8User u32
  | NonUtf8Group u32
  | FmtError
  | Io
  | PathIo
  | MissingTmpfilesDir
  | FoundVarRunNonSymlink
  | MalformedTmpfilesPath
  | MalformedTmpfilesEntry string

section \<open>Escaping\<close>

abbreviation BS :: char where "BS \<equiv> CHR 0x5C"

definition escape_byte :: "char \<Rightarrow> string" where
  "escape_byte c =
     (if (is_ascii_alphanumeric c \<or> is_ascii_punctuation c) \<and> c \<noteq> BS then [c]
      else if c = BS then [BS, BS]
      else if c = NL then [BS, CHR ''n'']
      else if c = CHR 0x09 then [BS, CHR ''t'']
      else if c = CR then [BS, CHR ''r'']
      else BS # CHR ''x'' # hex2 c)"

definition escape_path :: "string \<Rightarrow> tmpfiles_error + string" where
  "escape_path path =
     (if path = [] then Inl FmtError
      else if list_all (\<lambda>c. is_ascii_alphanumeric c \<or> c = CHR ''/'') path then Inr path
      else Inr (concat (map escape_byte path)))"

section \<open>Unescaping\<close>

definition should_take_next :: "bool \<Rightarrow> char \<Rightarrow> bool" where
  "should_take_next end_of_record_is_quote c =
     (if end_of_record_is_quote then c \<noteq> CHR 0x22 else \<not> is_ascii_whitespace c)"

text \<open>The byte after a backslash, and what is left of the input.\<close>

definition unescape_byte :: "string \<Rightarrow> tmpfiles_error + char \<times> string" where
  "unescape_byte src =
     (case src of
        [] \<Rightarrow> Inl MalformedTmpfilesPath
      | c # rest \<Rightarrow>
          if c = BS then Inr (BS, rest)
          else if c = CHR ''n'' then Inr (NL, rest)
          else if c = CHR ''r'' then Inr (CR, rest)
          else if c = CHR ''t'' then Inr (CHR 0x09, rest)
          else if c = CHR ''x'' then
            (case rest of
               a # b # rest' \<Rightarrow>
                 (case parse_hex2 a b of Some v \<Rightarrow> Inr (v, rest') | None \<Rightarrow> Inl MalformedTmpfilesPath)
             | _ \<Rightarrow> Inl MalformedTmpfilesPath)
          else Inl MalformedTmpfilesPath)"

lemma unescape_byte_shorter: "unescape_byte src = Inr (c, rest) \<Longrightarrow> length rest < length src"
  by (auto simp: unescape_byte_def split: list.splits if_splits option.splits)

function unescape_until :: "bool \<Rightarrow> string \<Rightarrow> string \<Rightarrow> tmpfiles_error + string \<times> string" where
  "unescape_until q [] buf = Inr (buf, [])"
| "unescape_until q (c # src) buf =
     (if \<not> should_take_next q c then Inr (buf, c # src)
      else if c \<noteq> BS then unescape_until q src (buf @ [c])
      else (case unescape_byte src of
              Inl e \<Rightarrow> Inl e
            | Inr (d, rest) \<Rightarrow> unescape_until q rest (buf @ [d])))"
  by pat_completeness auto
termination
  by (relation "measure (\<lambda>(q, src, buf). length src)") (auto dest: unescape_byte_shorter)

definition unescape_path :: "string \<Rightarrow> tmpfiles_error + string" where
  "unescape_path src =
     (case src of
        [] \<Rightarrow> Inr []
      | c # rest \<Rightarrow>
          if c = CHR 0x22 then map_sum id fst (unescape_until True rest [])
          else map_sum id fst (unescape_until False src []))"

section \<open>Lines\<close>

text \<open>\<^verbatim>\<open>Path::strip_prefix\<close> of an absolute base, by its normal components.\<close>

fun strip_segs :: "string list \<Rightarrow> string list \<Rightarrow> string option" where
  "strip_segs [] segs = Some (join_with [path_sep] (dropWhile seg_trivial (trim_segs segs)))"
| "strip_segs (b # bs) segs =
     (case dropWhile seg_trivial segs of
        [] \<Rightarrow> None
      | s # rest \<Rightarrow> if s = b then strip_segs bs rest else None)"

definition path_strip_prefix :: "string list \<Rightarrow> string \<Rightarrow> string option" where
  "path_strip_prefix base path =
     (if path_absolute path then strip_segs base (split_on path_sep (tl path)) else None)"

text \<open>The path the writer escapes.\<close>

definition canonical_path :: "string \<Rightarrow> string" where
  "canonical_path path =
     (case path_strip_prefix [''var'', ''run''] path of
        Some rest \<Rightarrow> if rest = [] then ''/run'' else path_join ''/run'' rest
      | None \<Rightarrow> path)"

definition canonicalize_escape_path :: "string \<Rightarrow> tmpfiles_error + string" where
  "canonicalize_escape_path path = escape_path (canonical_path path)"

datatype file_meta = Directory u32 | Symlink string

text \<open>\<^verbatim>\<open>{mode:04o}\<close>.\<close>

fun show_oct :: "nat \<Rightarrow> string" where
  "show_oct n = (if n < 8 then [char_of (48 + n)] else show_oct (n div 8) @ [char_of (48 + n mod 8)])"

declare show_oct.simps [simp del]

definition show_mode :: "u32 \<Rightarrow> string" where
  "show_mode m = (let s = show_oct (unat m) in replicate (4 - length s) (CHR ''0'') @ s)"

definition translate_to_tmpfiles_d ::
    "string \<Rightarrow> file_meta \<Rightarrow> string \<Rightarrow> string \<Rightarrow> tmpfiles_error + string" where
  "translate_to_tmpfiles_d abs_path meta username groupname =
     rbind (canonicalize_escape_path abs_path) (\<lambda>p.
     case meta of
       Directory mode \<Rightarrow>
         Inr (''d '' @ p @ '' '' @ show_mode mode @ '' '' @ username @ '' '' @ groupname @ '' - -'')
     | Symlink target \<Rightarrow>
         rbind (canonicalize_escape_path target) (\<lambda>t. Inr (''L '' @ p @ '' - - - - '' @ t)))"

definition tmpfiles_entry_get_path :: "string \<Rightarrow> tmpfiles_error + string" where
  "tmpfiles_entry_get_path line =
     (let s = dropWhile is_ascii_whitespace line;
          rest = dropWhile (\<lambda>c. \<not> is_ascii_whitespace c) s
      in if takeWhile (\<lambda>c. \<not> is_ascii_whitespace c) s = [] then Inl (MalformedTmpfilesEntry line)
         else unescape_path (dropWhile is_ascii_whitespace rest))"

section \<open>Round trip\<close>

lemma byte_lt [simp]: "byte c < 256"
  by (simp add: byte_def)

lemma char_of_byte [simp]: "char_of (byte c) = c"
  by (simp add: byte_def)

lemma byte_char_of: "n < 256 \<Longrightarrow> byte (char_of n) = n"
  by (simp add: byte_def)

lemma hex_val_hex_char: "n < 16 \<Longrightarrow> hex_val (hex_char n) = Some n"
  by (auto simp: hex_char_def hex_val_def byte_char_of)

lemma hex_char_digit: "n < 16 \<Longrightarrow> hex_char n \<noteq> CHR ''+''"
  using hex_val_hex_char [of n] by (auto simp: hex_val_def byte_def)

lemma parse_hex2_hex2: "parse_hex2 (hex_char (byte c div 16)) (hex_char (byte c mod 16)) = Some c"
proof -
  have "byte c div 16 < 16" "byte c mod 16 < 16"
    using byte_lt [of c] by (simp_all add: less_mult_imp_div_less)
  then show ?thesis by (simp add: parse_hex2_def hex_char_digit hex_val_hex_char)
qed

text \<open>An escaped byte starts no new record and is read back.\<close>

lemma escape_byte_cases:
  obtains "escape_byte c = [c]" "c \<noteq> BS" "\<not> is_ascii_whitespace c"
    | e where "escape_byte c = BS # e" "\<And>rest. unescape_byte (e @ rest) = Inr (c, rest)"
proof (cases "(is_ascii_alphanumeric c \<or> is_ascii_punctuation c) \<and> c \<noteq> BS")
  case True
  then have "\<not> is_ascii_whitespace c"
    by (auto simp: is_ascii_alphanumeric_def is_ascii_punctuation_def is_ascii_whitespace_def byte_def)
  with True show ?thesis by (intro that(1)) (simp_all add: escape_byte_def)
next
  case False
  have "unescape_byte ((CHR ''x'' # hex2 c) @ rest) = Inr (c, rest)" for rest
    by (simp add: unescape_byte_def hex2_def parse_hex2_hex2)
  with False show ?thesis
    by (intro that(2) [of "tl (escape_byte c)"]) (auto simp: escape_byte_def unescape_byte_def)
qed

lemma unescape_until_byte:
  "unescape_until False (escape_byte c @ rest) buf = unescape_until False rest (buf @ [c])"
proof (cases c rule: escape_byte_cases)
  case 1
  then show ?thesis by (simp add: should_take_next_def)
next
  case (2 e)
  have "should_take_next False BS" by (simp add: should_take_next_def is_ascii_whitespace_def)
  with 2 show ?thesis by simp
qed

lemma unescape_until_escaped:
  "unescape_until False (concat (map escape_byte p) @ rest) buf = unescape_until False rest (buf @ p)"
proof (induction p arbitrary: buf)
  case (Cons c p)
  have "unescape_until False (escape_byte c @ concat (map escape_byte p) @ rest) buf
      = unescape_until False (concat (map escape_byte p) @ rest) (buf @ [c])"
    by (rule unescape_until_byte)
  with Cons show ?case by simp
qed simp

text \<open>The shortcut for plain paths agrees with the loop.\<close>

lemma escape_byte_plain: "is_ascii_alphanumeric c \<or> c = CHR ''/'' \<Longrightarrow> escape_byte c = [c]"
proof -
  assume c: "is_ascii_alphanumeric c \<or> c = CHR ''/''"
  then have "c \<noteq> BS" by (auto simp: is_ascii_alphanumeric_def byte_def)
  moreover have "is_ascii_alphanumeric c \<or> is_ascii_punctuation c"
    using c by (auto simp: is_ascii_punctuation_def byte_def)
  ultimately show ?thesis by (simp add: escape_byte_def)
qed

lemma escape_plain:
  "list_all (\<lambda>c. is_ascii_alphanumeric c \<or> c = CHR ''/'') p \<Longrightarrow> concat (map escape_byte p) = p"
  by (induction p) (simp_all add: escape_byte_plain)

lemma escape_path_eq: "p \<noteq> [] \<Longrightarrow> escape_path p = Inr (concat (map escape_byte p))"
  by (simp add: escape_path_def escape_plain)

lemma escape_chars: "x \<in> set (escape_byte c) \<Longrightarrow> \<not> is_ascii_whitespace x"
proof -
  have h: "\<not> is_ascii_whitespace (hex_char n)" if "n < 16" for n
    using hex_val_hex_char [OF that] by (auto simp: hex_val_def is_ascii_whitespace_def byte_def)
  have "byte c div 16 < 16" using byte_lt [of c] by (simp add: less_mult_imp_div_less)
  then show "x \<in> set (escape_byte c) \<Longrightarrow> ?thesis"
    using h [of "byte c div 16"] h [of "byte c mod 16"]
    by (auto simp: escape_byte_def hex2_def is_ascii_alphanumeric_def is_ascii_punctuation_def
        is_ascii_whitespace_def byte_def split: if_splits)
qed

lemma canonical_absolute: "path_absolute p \<Longrightarrow> path_absolute (canonical_path p)"
  by (auto simp: canonical_path_def path_join_def path_sep_def split: option.splits)

lemma ws_space: "is_ascii_whitespace SPC" "\<not> is_ascii_whitespace (CHR ''d'')" "\<not> is_ascii_whitespace (CHR ''L'')"
    "\<not> is_ascii_whitespace (CHR ''/'')" "\<not> should_take_next False SPC"
  by (simp_all add: is_ascii_whitespace_def should_take_next_def)

text \<open>The path field of a line whose path is absolute.\<close>

lemma get_path_line:
  assumes "path_absolute p" and "c = CHR ''d'' \<or> c = CHR ''L''"
  shows "tmpfiles_entry_get_path (c # SPC # concat (map escape_byte p) @ SPC # rest) = Inr p"
proof -
  obtain q where p: "p = CHR ''/'' # q" using assms(1) by (cases p) (auto simp: path_sep_def)
  have e: "concat (map escape_byte p) = CHR ''/'' # concat (map escape_byte q)"
    by (simp add: p escape_byte_plain)
  have "tmpfiles_entry_get_path (c # SPC # concat (map escape_byte p) @ SPC # rest)
      = unescape_path (concat (map escape_byte p) @ SPC # rest)"
    using assms(2) by (auto simp: tmpfiles_entry_get_path_def ws_space e)
  also have "\<dots> = map_sum id fst (unescape_until False (concat (map escape_byte p) @ SPC # rest) [])"
    by (simp add: unescape_path_def e)
  also have "\<dots> = Inr p" unfolding unescape_until_escaped by (simp add: ws_space)
  finally show ?thesis .
qed

lemma canonical_nonempty: "path_absolute p \<or> p \<noteq> [] \<Longrightarrow> canonical_path p \<noteq> []"
  using canonical_absolute [of p]
  by (cases "path_absolute p") (auto simp: canonical_path_def path_strip_prefix_def)

lemma canonicalize_escape_path_eq:
  "p \<noteq> [] \<Longrightarrow> canonicalize_escape_path p = Inr (concat (map escape_byte (canonical_path p)))"
  using canonical_nonempty [of p] by (simp add: canonicalize_escape_path_def escape_path_eq)

lemma translate_get_path:
  assumes "translate_to_tmpfiles_d p m user grp = Inr line" and "path_absolute p"
  shows "tmpfiles_entry_get_path line = Inr (canonical_path p)"
proof -
  have "p \<noteq> []" using assms(2) by auto
  note e = canonicalize_escape_path_eq [OF this]
  note g = get_path_line [OF canonical_absolute [OF assms(2)]]
  show ?thesis using assms(1) g
    by (cases m) (auto simp: translate_to_tmpfiles_d_def e rbind_Inr_iff)
qed

text \<open>
  Every directory and every symbolic link with an absolute path and a nonempty target has a
  tmpfiles.d line, and reading the path of that line gives the path back, whatever bytes it has,
  with \<^verbatim>\<open>/var/run\<close> rewritten to \<^verbatim>\<open>/run\<close>.
\<close>

theorem tmpfiles_line_roundtrip:
  assumes "path_absolute p" and "m \<noteq> Symlink []"
  shows "\<exists>line. translate_to_tmpfiles_d p m user grp = Inr line
     \<and> tmpfiles_entry_get_path line = Inr (canonical_path p)"
proof -
  have "p \<noteq> []" using assms(1) by auto
  then have "\<exists>line. translate_to_tmpfiles_d p m user grp = Inr line"
    using assms(2) by (cases m) (auto simp: translate_to_tmpfiles_d_def canonicalize_escape_path_eq)
  then show ?thesis using translate_get_path [OF _ assms(1)] by blast
qed

theorem tmpfiles_line_roundtrip_witness:
  "\<exists>line. translate_to_tmpfiles_d (''/var/run/a b'' @ [CHR 0xFF, BS]) (Directory 493) ''root'' ''root'' = Inr line
     \<and> tmpfiles_entry_get_path line = Inr (''/run/a b'' @ [CHR 0xFF, BS])"
proof -
  have c: "canonical_path (''/var/run/a b'' @ [CHR 0xFF, BS]) = ''/run/a b'' @ [CHR 0xFF, BS]" by code_simp
  have "path_absolute (''/var/run/a b'' @ [CHR 0xFF, BS])" by code_simp
  from tmpfiles_line_roundtrip [OF this, of "Directory 493"] c show ?thesis by simp
qed

end
