(* ===== verification/Tmpfiles_Walk.thy ===== *)
theory Tmpfiles_Walk
  imports Tmpfiles "HOL-Library.Product_Lexorder"
begin

text \<open>
  The conversion of \<^verbatim>\<open>/var\<close> to tmpfiles.d lines (\<^verbatim>\<open>crates/tmpfiles/src/lib.rs\<close> and
  \<^verbatim>\<open>path_resolution.rs\<close>): the recursive walk that collects lines and deletes what it translated,
  the lines that exist already, and the file that is generated.

  The tree under \<^verbatim>\<open>/var\<close> is a datatype, with the identity of each directory and whether it is a
  mount point. User and group databases, the opening of a directory by path and the \<^verbatim>\<open>Debug\<close> output
  of paths are parameters. Reading and writing files does not fail; names and contents of
  tmpfiles.d files are UTF-8. Deleting a directory with a mount point inside fails, and the tree
  after an error is not tracked.
\<close>

section \<open>State and parameters\<close>

type_synonym dir_ident = "u64 \<times> u64"

text \<open>\<^verbatim>\<open>PathIdentity\<close>: device and inode of the parent directory, and the name in it.\<close>

type_synonym path_identity = "dir_ident \<times> string"

record fs_meta =
  fm_uid :: u32
  fm_gid :: u32
  fm_mode :: u32

datatype fs_node =
    DirNode fs_meta dir_ident bool "(string \<times> fs_node) list"
  | LinkNode fs_meta string
  | FileNode fs_meta

record tf_config =
  tc_users :: "u32 \<Rightarrow> string option option"
  tc_groups :: "u32 \<Rightarrow> string option option"
  tc_existing :: "(path_identity, string) btree"
  tc_readonly :: bool

record tf_out =
  out_entries :: "string list"
  out_unsupported :: "string list"

datatype tf_fault = Fail tmpfiles_error | Panicked string

section \<open>Translating one entry\<close>

fun node_meta :: "fs_node \<Rightarrow> fs_meta" where
  "node_meta (DirNode m _ _ _) = m"
| "node_meta (LinkNode m _) = m"
| "node_meta (FileNode m) = m"

fun file_meta_from_fs :: "fs_node \<Rightarrow> file_meta option" where
  "file_meta_from_fs (DirNode m _ _ _) = Some (Directory (from_raw_mode (fm_mode m)))"
| "file_meta_from_fs (LinkNode _ target) = Some (Symlink target)"
| "file_meta_from_fs (FileNode _) = None"

definition lookup_name ::
    "('a \<Rightarrow> string option option) \<Rightarrow> 'a \<Rightarrow> tmpfiles_error \<Rightarrow> tmpfiles_error \<Rightarrow> tmpfiles_error + string" where
  "lookup_name db i missing nonutf8 =
     rbind (ok_or missing (db i)) (\<lambda>name. ok_or nonutf8 name)"

definition entry_line :: "tf_config \<Rightarrow> string \<Rightarrow> fs_meta \<Rightarrow> file_meta \<Rightarrow> tmpfiles_error + string" where
  "entry_line config path meta tmpfiles_meta =
     (let uid = fm_uid meta; gid = fm_gid meta in
      rbind (lookup_name (tc_users config) uid (UserNotFound uid) (NonUtf8User uid)) (\<lambda>username.
      rbind (lookup_name (tc_groups config) gid (GroupNotFound gid) (NonUtf8Group gid)) (\<lambda>groupname.
      translate_to_tmpfiles_d path tmpfiles_meta username groupname)))"

definition has_tmpfiles_entry :: "tf_config \<Rightarrow> dir_ident \<Rightarrow> string \<Rightarrow> bool" where
  "has_tmpfiles_entry config ident fname = (map_of (tc_existing config) (ident, fname) \<noteq> None)"

definition add_new_entry ::
    "tf_config \<Rightarrow> dir_ident \<Rightarrow> string \<Rightarrow> string \<Rightarrow> fs_meta \<Rightarrow> file_meta \<Rightarrow> tf_out \<Rightarrow> tmpfiles_error + tf_out" where
  "add_new_entry config ident pfx fname meta tmpfiles_meta out =
     (if has_tmpfiles_entry config ident fname then Inr out
      else rbind (entry_line config (path_join pfx fname) meta tmpfiles_meta) (\<lambda>entry.
           Inr (out\<lparr>out_entries := btset (entry # out_entries out)\<rparr>)))"

text \<open>\<^verbatim>\<open>prefix.strip_prefix("/")\<close> of an absolute path.\<close>

definition relpath_of :: "string \<Rightarrow> string" where
  "relpath_of path = (case path_strip_prefix [] path of Some r \<Rightarrow> r | None \<Rightarrow> path)"

section \<open>The walk\<close>

text \<open>Whether a directory holds a mount point, so that it cannot be deleted.\<close>

fun has_mount :: "(string \<times> fs_node) list \<Rightarrow> bool" where
  "has_mount [] = False"
| "has_mount ((_, DirNode _ _ mounted ch) # rest) = (mounted \<or> has_mount ch \<or> has_mount rest)"
| "has_mount ((_, LinkNode _ _) # rest) = has_mount rest"
| "has_mount ((_, FileNode _) # rest) = has_mount rest"

text \<open>
  The result is the collected output and what is left of the directory. An entry that has no line
  yet gets one; a file that has none and cannot get one is recorded and kept; a directory is walked
  and then deleted unless it is a mount point; anything else is deleted.
\<close>

fun convert_path_to_tmpfiles_d_recurse ::
    "tf_config \<Rightarrow> string \<Rightarrow> dir_ident \<Rightarrow> (string \<times> fs_node) list \<Rightarrow> tf_out
       \<Rightarrow> tmpfiles_error + tf_out \<times> (string \<times> fs_node) list" where
  "convert_path_to_tmpfiles_d_recurse config pfx ident [] out = Inr (out, [])"
| "convert_path_to_tmpfiles_d_recurse config pfx ident ((fname, FileNode m) # rest) out =
     (if \<not> has_tmpfiles_entry config ident fname then
        rbind (convert_path_to_tmpfiles_d_recurse config pfx ident rest
                 (out\<lparr>out_unsupported := out_unsupported out @ [relpath_of (path_join pfx fname)]\<rparr>))
          (\<lambda>(out, left). Inr (out, (fname, FileNode m) # left))
      else
        rbind (convert_path_to_tmpfiles_d_recurse config pfx ident rest out)
          (\<lambda>(out, left). Inr (out, if tc_readonly config then (fname, FileNode m) # left else left)))"
| "convert_path_to_tmpfiles_d_recurse config pfx ident ((fname, LinkNode m target) # rest) out =
     rbind (add_new_entry config ident pfx fname m (Symlink target) out)
       (\<lambda>out. rbind (convert_path_to_tmpfiles_d_recurse config pfx ident rest out)
          (\<lambda>(out, left). Inr (out, if tc_readonly config then (fname, LinkNode m target) # left else left)))"
| "convert_path_to_tmpfiles_d_recurse config pfx ident ((fname, DirNode m sub mounted ch) # rest) out =
     rbind (add_new_entry config ident pfx fname m (Directory (from_raw_mode (fm_mode m))) out)
       (\<lambda>out.
        if mounted then
          rbind (convert_path_to_tmpfiles_d_recurse config pfx ident rest out)
            (\<lambda>(out, left). Inr (out, (fname, DirNode m sub mounted ch) # left))
        else
          rbind (convert_path_to_tmpfiles_d_recurse config (path_join pfx fname) sub ch out) (\<lambda>(out, _).
          if \<not> tc_readonly config \<and> has_mount ch then Inl Io
          else
            rbind (convert_path_to_tmpfiles_d_recurse config pfx ident rest out)
              (\<lambda>(out, left). Inr (out, if tc_readonly config then (fname, DirNode m sub mounted ch) # left else left))))"

section \<open>What the walk collects\<close>

text \<open>
  The entries the walk reaches: those of the directory itself and of its subdirectories that are
  not mount points, with the identity of their directory, their path, name and node.
\<close>

inductive visible ::
    "dir_ident \<Rightarrow> string \<Rightarrow> (string \<times> fs_node) list \<Rightarrow> dir_ident \<Rightarrow> string \<Rightarrow> string \<Rightarrow> fs_node \<Rightarrow> bool" where
  here: "(n, x) \<in> set ch \<Longrightarrow> visible i p ch i (path_join p n) n x"
| below: "(n, DirNode m sub False sch) \<in> set ch \<Longrightarrow> visible sub (path_join p n) sch j q k x
     \<Longrightarrow> visible i p ch j q k x"

inductive_cases visible_NilE [elim!]: "visible i p [] j q k x"

lemma visible_Cons:
  "visible i p ((n, x) # ch) j q k y \<longleftrightarrow>
     (j = i \<and> q = path_join p n \<and> k = n \<and> y = x)
     \<or> (\<exists>m sub sch. x = DirNode m sub False sch \<and> visible sub (path_join p n) sch j q k y)
     \<or> visible i p ch j q k y" (is "?l \<longleftrightarrow> ?r")
proof
  assume ?l
  then show ?r by cases (auto intro: visible.intros)
next
  assume ?r
  then show ?l
  proof (elim disjE exE conjE)
    assume "visible i p ch j q k y"
    then show ?l by cases (auto intro: visible.intros)
  qed (auto intro: visible.intros)
qed

lemma visible_ex_Cons:
  "(\<exists>j q k y. visible i p ((n, x) # ch) j q k y \<and> P j q k y) \<longleftrightarrow>
     P i (path_join p n) n x
     \<or> (\<exists>m sub sch. x = DirNode m sub False sch \<and> (\<exists>j q k y. visible sub (path_join p n) sch j q k y \<and> P j q k y))
     \<or> (\<exists>j q k y. visible i p ch j q k y \<and> P j q k y)"
  unfolding visible_Cons by blast

definition new_lines :: "tf_config \<Rightarrow> dir_ident \<Rightarrow> string \<Rightarrow> (string \<times> fs_node) list \<Rightarrow> string set" where
  "new_lines config i p ch =
     {l. \<exists>j q n x. visible i p ch j q n x \<and> \<not> has_tmpfiles_entry config j n
          \<and> (\<exists>fm. file_meta_from_fs x = Some fm \<and> entry_line config q (node_meta x) fm = Inr l)}"

definition ignored :: "tf_config \<Rightarrow> dir_ident \<Rightarrow> string \<Rightarrow> (string \<times> fs_node) list \<Rightarrow> string set" where
  "ignored config i p ch =
     {r. \<exists>j q n x. visible i p ch j q n x \<and> \<not> has_tmpfiles_entry config j n
          \<and> file_meta_from_fs x = None \<and> r = relpath_of q}"

lemma new_lines_Nil [simp]: "new_lines config i p [] = {}" "ignored config i p [] = {}"
  by (auto simp: new_lines_def ignored_def)

text \<open>The line of the first entry alone.\<close>

definition own_line :: "tf_config \<Rightarrow> dir_ident \<Rightarrow> string \<Rightarrow> string \<Rightarrow> fs_node \<Rightarrow> string set" where
  "own_line config i p n x =
     {l. \<not> has_tmpfiles_entry config i n
        \<and> (\<exists>fm. file_meta_from_fs x = Some fm \<and> entry_line config (path_join p n) (node_meta x) fm = Inr l)}"

lemma new_lines_iff:
  "l \<in> new_lines config i p ((n, x) # ch) \<longleftrightarrow> l \<in> own_line config i p n x
     \<or> (\<exists>m sub sch. x = DirNode m sub False sch \<and> l \<in> new_lines config sub (path_join p n) sch)
     \<or> l \<in> new_lines config i p ch"
  unfolding new_lines_def own_line_def mem_Collect_eq by (rule visible_ex_Cons)

lemma ignored_iff:
  "r \<in> ignored config i p ((n, x) # ch) \<longleftrightarrow>
     (\<not> has_tmpfiles_entry config i n \<and> file_meta_from_fs x = None \<and> r = relpath_of (path_join p n))
     \<or> (\<exists>m sub sch. x = DirNode m sub False sch \<and> r \<in> ignored config sub (path_join p n) sch)
     \<or> r \<in> ignored config i p ch"
  unfolding ignored_def mem_Collect_eq by (rule visible_ex_Cons)

lemma new_lines_Cons:
  "new_lines config i p ((n, FileNode m) # ch) = new_lines config i p ch"
  "new_lines config i p ((n, LinkNode m t) # ch) = own_line config i p n (LinkNode m t) \<union> new_lines config i p ch"
  "new_lines config i p ((n, DirNode m sub mounted sch) # ch) =
     own_line config i p n (DirNode m sub mounted sch)
     \<union> (if mounted then {} else new_lines config sub (path_join p n) sch) \<union> new_lines config i p ch"
  by (auto simp: new_lines_iff) (simp add: own_line_def)

lemma ignored_Cons:
  "ignored config i p ((n, FileNode m) # ch) =
     (if has_tmpfiles_entry config i n then {} else {relpath_of (path_join p n)}) \<union> ignored config i p ch"
  "ignored config i p ((n, LinkNode m t) # ch) = ignored config i p ch"
  "ignored config i p ((n, DirNode m sub mounted sch) # ch) =
     (if mounted then {} else ignored config sub (path_join p n) sch) \<union> ignored config i p ch"
  by (auto simp: ignored_iff)

text \<open>What is left of the directory.\<close>

fun stays :: "tf_config \<Rightarrow> dir_ident \<Rightarrow> string \<times> fs_node \<Rightarrow> bool" where
  "stays config i (n, FileNode m) = (tc_readonly config \<or> \<not> has_tmpfiles_entry config i n)"
| "stays config i (n, LinkNode m t) = tc_readonly config"
| "stays config i (n, DirNode m sub mounted ch) = (tc_readonly config \<or> mounted)"

lemma add_new_entry_own:
  assumes "add_new_entry config i p n (node_meta x) fm out = Inr out'" and "file_meta_from_fs x = Some fm"
  shows "set (out_entries out') = set (out_entries out) \<union> own_line config i p n x"
    and "out_unsupported out' = out_unsupported out"
  using assms by (auto simp: add_new_entry_def own_line_def rbind_Inr_iff split: if_splits)

lemma walk_exact:
  "convert_path_to_tmpfiles_d_recurse config p i ch out = Inr (out', left) \<Longrightarrow>
     set (out_entries out') = set (out_entries out) \<union> new_lines config i p ch
     \<and> set (out_unsupported out') = set (out_unsupported out) \<union> ignored config i p ch
     \<and> left = filter (stays config i) ch"
proof (induction config p i ch out arbitrary: out' left rule: convert_path_to_tmpfiles_d_recurse.induct)
  case (1 config p i out)
  then show ?case by simp
next
  case (2 config p i n m rest out)
  then show ?case
    by (auto simp: rbind_Inr_iff new_lines_Cons ignored_Cons split: if_splits)
next
  case (3 config p i n m t rest out)
  from 3(2) obtain out1 left2 where
    o1: "add_new_entry config i p n m (Symlink t) out = Inr out1"
    and r: "convert_path_to_tmpfiles_d_recurse config p i rest out1 = Inr (out', left2)"
    and o': "left = (if tc_readonly config then (n, LinkNode m t) # left2 else left2)"
    by (auto simp: rbind_Inr_iff)
  show ?case using 3(1) [OF r] o' add_new_entry_own [of config i p n "LinkNode m t", simplified, OF o1]
    by (auto simp: new_lines_Cons ignored_Cons)
next
  case (4 config p i n m sub mounted ch rest out)
  from 4(4) obtain out1 where
    o1: "add_new_entry config i p n m (Directory (from_raw_mode (fm_mode m))) out = Inr out1"
    by (auto simp: rbind_Inr_iff)
  note own = add_new_entry_own [of config i p n "DirNode m sub mounted ch", simplified, OF o1]
  show ?case
  proof (cases mounted)
    case True
    with 4(4) o1 obtain left2 where r: "convert_path_to_tmpfiles_d_recurse config p i rest out1 = Inr (out', left2)"
      and o': "left = (n, DirNode m sub mounted ch) # left2" by (auto simp: rbind_Inr_iff)
    show ?thesis using 4(1) [OF True r] o' own True by (auto simp: new_lines_Cons ignored_Cons)
  next
    case False
    with 4(4) o1 obtain out2 left1 left2 where
      s: "convert_path_to_tmpfiles_d_recurse config (path_join p n) sub ch out1 = Inr (out2, left1)"
      and g: "\<not> (\<not> tc_readonly config \<and> has_mount ch)"
      and r: "convert_path_to_tmpfiles_d_recurse config p i rest out2 = Inr (out', left2)"
      and o': "left = (if tc_readonly config then (n, DirNode m sub mounted ch) # left2 else left2)"
      by (auto simp: rbind_Inr_iff split: if_splits)
    show ?thesis using 4(2) [OF False s] 4(3) [OF False g r] o' own False
      by (auto simp: new_lines_Cons ignored_Cons)
  qed
qed

section \<open>Lines that exist already\<close>

record tf_root =
  tr_usr :: "(string \<times> string) list option"
  tr_etc :: "(string \<times> string) list option"
  tr_var :: "(dir_ident \<times> (string \<times> fs_node) list) option"

datatype open_error = PermissionDenied | OtherError

record tf_env =
  te_root_ident :: dir_ident
  te_open :: "string \<Rightarrow> open_error + dir_ident option"
  te_users :: "u32 \<Rightarrow> string option option"
  te_groups :: "u32 \<Rightarrow> string option option"
  te_debug :: "string \<Rightarrow> string"

text \<open>
  \<^verbatim>\<open>PathResolver::resolve_parent_identity\<close>: the parent is resolved by opening it, the last component
  is taken as it is.
\<close>

definition resolve_parent_identity :: "tf_env \<Rightarrow> string \<Rightarrow> tmpfiles_error + path_identity option" where
  "resolve_parent_identity E path =
     (let relpath = relpath_of path;
          leaf = (case path_file_name relpath of Some l \<Rightarrow> l | None \<Rightarrow> []);
          parent = (case path_parent relpath of Some p \<Rightarrow> p | None \<Rightarrow> [])
      in if parent = [] then Inr (Some (te_root_ident E, leaf))
         else (case te_open E parent of
                 Inr (Some ident) \<Rightarrow> Inr (Some (ident, leaf))
               | Inr None \<Rightarrow> Inr None
               | Inl PermissionDenied \<Rightarrow> Inr None
               | Inl OtherError \<Rightarrow> Inl PathIo))"

text \<open>The generation counter.\<close>

definition BOOTC_GENERATED_PREFIX :: string where
  "BOOTC_GENERATED_PREFIX = ''bootc-autogenerated-var''"

definition generation_increment :: "u32 \<Rightarrow> tf_fault + u32" where
  "generation_increment g =
     (if uint g + 1 < 4294967296 then Inr (g + 1)
      else Inl (Panicked ''called `Option::unwrap()` on a `None` value''))"

text \<open>The name of the generated file in \<^verbatim>\<open>usr/lib/tmpfiles.d\<close>.\<close>

definition generation_path :: "u32 \<Rightarrow> string" where
  "generation_path g = BOOTC_GENERATED_PREFIX @ ''-'' @ show_u32 g @ ''.conf''"

fun read_tmpfiles_lines ::
    "tf_env \<Rightarrow> string list \<Rightarrow> (path_identity, string) btree \<Rightarrow> tmpfiles_error + (path_identity, string) btree" where
  "read_tmpfiles_lines E [] res = Inr res"
| "read_tmpfiles_lines E (line # rest) res =
     (if line = [] \<or> starts_with ''#'' line then read_tmpfiles_lines E rest res
      else rbind (tmpfiles_entry_get_path line) (\<lambda>path.
           rbind (resolve_parent_identity E path) (\<lambda>ident.
           case ident of
             None \<Rightarrow> read_tmpfiles_lines E rest res
           | Some ident \<Rightarrow> read_tmpfiles_lines E rest (bt_insert ident line res))))"

definition lift_fail :: "tmpfiles_error + 'a \<Rightarrow> tf_fault + 'a" where
  "lift_fail = map_sum Fail id"

definition file_stem :: "string \<Rightarrow> string" where
  "file_stem name = (case rsplit_once (CHR ''.'') name of Some (stem, _) \<Rightarrow> stem | None \<Rightarrow> name)"

fun read_tmpfiles_files ::
    "tf_env \<Rightarrow> (string \<times> string) list \<Rightarrow> u32 \<Rightarrow> (path_identity, string) btree
       \<Rightarrow> tf_fault + (path_identity, string) btree \<times> u32" where
  "read_tmpfiles_files E [] g res = Inr (res, g)"
| "read_tmpfiles_files E ((name, content) # rest) g res =
     (if path_extension name \<noteq> Some ''conf'' then read_tmpfiles_files E rest g res
      else rbind (if starts_with BOOTC_GENERATED_PREFIX (file_stem name) then generation_increment g else Inr g) (\<lambda>g.
           rbind (lift_fail (read_tmpfiles_lines E (str_lines content) res)) (\<lambda>res.
           read_tmpfiles_files E rest g res)))"

definition read_tmpfiles_from_dir ::
    "tf_env \<Rightarrow> (string \<times> string) list option \<Rightarrow> u32 \<Rightarrow> tf_fault + (path_identity, string) btree \<times> u32" where
  "read_tmpfiles_from_dir E d g = (case d of None \<Rightarrow> Inr ([], g) | Some fs \<Rightarrow> read_tmpfiles_files E fs g [])"

definition read_tmpfiles :: "tf_env \<Rightarrow> tf_root \<Rightarrow> tf_fault + (path_identity, string) btree \<times> u32" where
  "read_tmpfiles E rootfs =
     rbind (read_tmpfiles_from_dir E (tr_usr rootfs) 0) (\<lambda>(res, g).
     rbind (read_tmpfiles_from_dir E (tr_etc rootfs) g) (\<lambda>(etc_res, g).
     Inr (fold (\<lambda>(k, v). bt_insert k v) etc_res res, g)))"

section \<open>Generating the file\<close>

record tf_written =
  generated :: "(nat \<times> string) option"
  unsupported :: nat

definition written_default :: tf_written where
  "written_default = \<lparr>generated = None, unsupported = 0\<rparr>"

text \<open>The lines in order, then a sample of what was ignored.\<close>

definition generated_content :: "tf_env \<Rightarrow> string list \<Rightarrow> string list \<Rightarrow> string" where
  "generated_content E entries unsup =
     concat (map (\<lambda>line. line @ [NL]) entries)
     @ (if unsup = [] then []
        else concat (map (\<lambda>elt. ''# bootc ignored: '' @ te_debug E elt @ [NL]) (take 5 unsup))
             @ (if 0 < length (drop 5 unsup)
                then ''# bootc ignored: ...and '' @ show_nat (length (drop 5 unsup)) @ '' more'' @ [NL]
                else []))"

definition var_run_ok :: "(string \<times> fs_node) list \<Rightarrow> bool" where
  "var_run_ok ch = (case map_of ch ''run'' of Some (LinkNode _ _) \<Rightarrow> True | Some _ \<Rightarrow> False | None \<Rightarrow> True)"

definition var_to_tmpfiles :: "tf_env \<Rightarrow> tf_root \<Rightarrow> tf_fault + tf_written \<times> tf_root" where
  "var_to_tmpfiles E rootfs =
     rbind (read_tmpfiles E rootfs) (\<lambda>(existing, generation).
     if (case tr_var rootfs of Some (_, ch) \<Rightarrow> \<not> var_run_ok ch | None \<Rightarrow> False)
     then Inl (Fail FoundVarRunNonSymlink)
     else (case tr_usr rootfs of
             None \<Rightarrow> Inl (Fail MissingTmpfilesDir)
           | Some d \<Rightarrow>
     (case tr_var rootfs of
        None \<Rightarrow> Inl (Fail Io)
      | Some (ident, ch) \<Rightarrow>
          rbind (lift_fail (convert_path_to_tmpfiles_d_recurse
                   \<lparr>tc_users = te_users E, tc_groups = te_groups E, tc_existing = existing, tc_readonly = False\<rparr>
                   ''/var'' ident ch \<lparr>out_entries = [], out_unsupported = []\<rparr>)) (\<lambda>(out, left).
          let rootfs = rootfs\<lparr>tr_var := Some (ident, left)\<rparr> in
          if out_entries out = [] then Inr (written_default, rootfs)
          else let path = generation_path generation in
          if path \<in> fst ` set d then Inl (Panicked ''assertion failed'')
          else Inr (\<lparr>generated = Some (length (out_entries out), path),
                     unsupported = length (out_unsupported out)\<rparr>,
                    rootfs\<lparr>tr_usr := Some (d @ [(path, generated_content E (out_entries out) (out_unsupported out))])\<rparr>)))))"

definition find_missing_tmpfiles :: "tf_env \<Rightarrow> tf_root \<Rightarrow> tf_fault + tf_out" where
  "find_missing_tmpfiles E rootfs =
     rbind (read_tmpfiles E rootfs) (\<lambda>(existing, _).
     case tr_var rootfs of
       None \<Rightarrow> Inl (Fail Io)
     | Some (ident, ch) \<Rightarrow>
         rbind (lift_fail (convert_path_to_tmpfiles_d_recurse
                  \<lparr>tc_users = te_users E, tc_groups = te_groups E, tc_existing = existing, tc_readonly = True\<rparr>
                  ''/var'' ident ch \<lparr>out_entries = [], out_unsupported = []\<rparr>)) (\<lambda>(out, _). Inr out))"

section \<open>The conversion is complete\<close>

lemma walk_total:
  "convert_path_to_tmpfiles_d_recurse config p i ch out = Inr r \<Longrightarrow> visible i p ch j q n x \<Longrightarrow>
     \<not> has_tmpfiles_entry config j n \<Longrightarrow> file_meta_from_fs x = Some fm \<Longrightarrow>
     \<exists>l. entry_line config q (node_meta x) fm = Inr l"
proof (induction config p i ch out arbitrary: r rule: convert_path_to_tmpfiles_d_recurse.induct)
  case (2 config p i k m rest out)
  then show ?case by (auto simp: rbind_Inr_iff visible_Cons split: if_splits)
next
  case (3 config p i k m t rest out)
  then show ?case by (auto simp: rbind_Inr_iff visible_Cons add_new_entry_def split: if_splits)
next
  case (4 config p i k m sub mounted ch rest out)
  from 4(4) obtain out1 where
    o1: "add_new_entry config i p k m (Directory (from_raw_mode (fm_mode m))) out = Inr out1"
    by (auto simp: rbind_Inr_iff)
  from 4(5) consider "j = i" "q = path_join p k" "n = k" "x = DirNode m sub mounted ch"
    | "\<not> mounted" "visible sub (path_join p k) ch j q n x" | "visible i p rest j q n x"
    by (auto simp: visible_Cons)
  then show ?case
  proof cases
    case 1
    then show ?thesis using o1 4(6,7) by (auto simp: add_new_entry_def rbind_Inr_iff split: if_splits)
  next
    case 2
    with 4(4) o1 obtain r1 where "convert_path_to_tmpfiles_d_recurse config (path_join p k) sub ch out1 = Inr r1"
      by (auto simp: rbind_Inr_iff)
    from 4(2) [OF 2(1) this 2(2) 4(6,7)] show ?thesis .
  next
    case 3
    show ?thesis
    proof (cases mounted)
      case True
      with 4(4) o1 obtain r2 where "convert_path_to_tmpfiles_d_recurse config p i rest out1 = Inr r2"
        by (auto simp: rbind_Inr_iff)
      from 4(1) [OF True this 3 4(6,7)] show ?thesis .
    next
      case False
      with 4(4) o1 obtain out2 r2 where g: "\<not> (\<not> tc_readonly config \<and> has_mount ch)"
        and "convert_path_to_tmpfiles_d_recurse config p i rest out2 = Inr r2"
        by (auto simp: rbind_Inr_iff split: if_splits)
      from 4(3) [OF False g this(2) 3 4(6,7)] show ?thesis .
    qed
  qed
qed auto

lemma path_join_absolute: "path_absolute p \<Longrightarrow> path_absolute (path_join p n)"
  by (auto simp: path_join_def path_absolute_append) (cases p; simp)

lemma visible_absolute: "visible i p ch j q n x \<Longrightarrow> path_absolute p \<Longrightarrow> path_absolute q"
  by (induction rule: visible.induct) (auto intro: path_join_absolute)

lemma entry_line_path:
  "entry_line config q m fm = Inr l \<Longrightarrow> path_absolute q \<Longrightarrow> tmpfiles_entry_get_path l = Inr (canonical_path q)"
  by (auto simp: entry_line_def rbind_Inr_iff Let_def intro: translate_get_path)

text \<open>The entries are a \<^verbatim>\<open>BTreeSet\<close>.\<close>

lemma walk_sorted:
  "convert_path_to_tmpfiles_d_recurse config p i ch out = Inr (out', left) \<Longrightarrow>
     sorted_wrt (<) (out_entries out) \<Longrightarrow> sorted_wrt (<) (out_entries out')"
proof (induction config p i ch out arbitrary: out' left rule: convert_path_to_tmpfiles_d_recurse.induct)
  case (2 config p i k m rest out)
  then show ?case by (auto simp: rbind_Inr_iff split: if_splits)
next
  case (3 config p i k m t rest out)
  then show ?case
    by (auto simp: rbind_Inr_iff add_new_entry_def strict_sorted_iff split: if_splits)
next
  case (4 config p i k m sub mounted ch rest out)
  then obtain out1 where
    o1: "add_new_entry config i p k m (Directory (from_raw_mode (fm_mode m))) out = Inr out1"
    by (auto simp: rbind_Inr_iff)
  have s: "sorted_wrt (<) (out_entries out1)"
    using o1 4(5) by (auto simp: rbind_Inr_iff add_new_entry_def strict_sorted_iff split: if_splits)
  show ?case
  proof (cases mounted)
    case True
    with 4(4) o1 4(1) [OF True _ s] show ?thesis by (auto simp: rbind_Inr_iff)
  next
    case False
    with 4(4) o1 obtain out2 left1 left2 where
      w: "convert_path_to_tmpfiles_d_recurse config (path_join p k) sub ch out1 = Inr (out2, left1)"
      and g: "\<not> (\<not> tc_readonly config \<and> has_mount ch)"
      and r: "convert_path_to_tmpfiles_d_recurse config p i rest out2 = Inr (out', left2)"
      by (auto simp: rbind_Inr_iff split: if_splits)
    from 4(3) [OF False g r 4(2) [OF False w s]] show ?thesis .
  qed
qed simp

definition conversion_config :: "tf_env \<Rightarrow> (path_identity, string) btree \<Rightarrow> tf_config" where
  "conversion_config E existing =
     \<lparr>tc_users = te_users E, tc_groups = te_groups E, tc_existing = existing, tc_readonly = False\<rparr>"

lemma lift_fail_Inr_iff [simp]: "lift_fail r = Inr v \<longleftrightarrow> r = Inr v"
  by (cases r) (auto simp: lift_fail_def)

lemma var_to_tmpfiles_steps:
  assumes "var_to_tmpfiles E rootfs = Inr (w, rootfs')"
  obtains existing g i ch d out lft where "read_tmpfiles E rootfs = Inr (existing, g)"
    "tr_var rootfs = Some (i, ch)" "tr_usr rootfs = Some d"
    "convert_path_to_tmpfiles_d_recurse (conversion_config E existing) ''/var'' i ch
       \<lparr>out_entries = [], out_unsupported = []\<rparr> = Inr (out, lft)"
    "if out_entries out = [] then w = written_default \<and> rootfs' = rootfs\<lparr>tr_var := Some (i, lft)\<rparr>
     else generation_path g \<notin> fst ` set d
       \<and> w = \<lparr>generated = Some (length (out_entries out), generation_path g), unsupported = length (out_unsupported out)\<rparr>
       \<and> rootfs' = rootfs\<lparr>tr_var := Some (i, lft),
           tr_usr := Some (d @ [(generation_path g, generated_content E (out_entries out) (out_unsupported out))])\<rparr>"
proof -
  from assms obtain existing g where e: "read_tmpfiles E rootfs = Inr (existing, g)"
    by (auto simp: var_to_tmpfiles_def rbind_Inr_iff)
  from assms e obtain d where d: "tr_usr rootfs = Some d"
    by (auto simp: var_to_tmpfiles_def split: option.splits if_splits)
  from assms e d obtain i ch where v: "tr_var rootfs = Some (i, ch)"
    by (auto simp: var_to_tmpfiles_def split: option.splits if_splits)
  from assms e d v obtain out lft where
    c: "convert_path_to_tmpfiles_d_recurse (conversion_config E existing) ''/var'' i ch
       \<lparr>out_entries = [], out_unsupported = []\<rparr> = Inr (out, lft)"
    by (auto simp: var_to_tmpfiles_def conversion_config_def rbind_Inr_iff split: if_splits)
  from assms e d v c [unfolded conversion_config_def] show ?thesis
    by (intro that [OF e v d c]) (auto simp: var_to_tmpfiles_def lift_fail_def Let_def split: if_splits)
qed

text \<open>
  C8. The conversion of \<^verbatim>\<open>/var\<close> loses no directory and no symbolic link: when it succeeds, every
  one it reached has an earlier line for its physical place, or a new line whose path reads back
  as its path. The generated file holds exactly the new lines, each once, in order, under a fresh
  name; it is written exactly when there is a new line. Only mount points and files without a
  line are left directly under \<^verbatim>\<open>/var\<close>.
\<close>

theorem tmpfiles_conversion_complete:
  assumes "var_to_tmpfiles E rootfs = Inr (w, rootfs')"
  shows "\<exists>existing g i ch d. read_tmpfiles E rootfs = Inr (existing, g)
    \<and> tr_var rootfs = Some (i, ch) \<and> tr_usr rootfs = Some d
    \<and> (let config = conversion_config E existing; new = new_lines config i ''/var'' ch in
       (\<forall>j q n x. visible i ''/var'' ch j q n x \<and> file_meta_from_fs x \<noteq> None \<and> \<not> has_tmpfiles_entry config j n
          \<longrightarrow> (\<exists>line. line \<in> new \<and> tmpfiles_entry_get_path line = Inr (canonical_path q)))
       \<and> tr_var rootfs' = Some (i, filter (stays config i) ch)
       \<and> (if new = {} then generated w = None \<and> tr_usr rootfs' = Some d
          else \<exists>es us. set es = new \<and> sorted_wrt (<) es \<and> set us = ignored config i ''/var'' ch
            \<and> generation_path g \<notin> fst ` set d \<and> generated w = Some (length es, generation_path g)
            \<and> tr_usr rootfs' = Some (d @ [(generation_path g, generated_content E es us)])))"
proof -
  from assms obtain existing g i ch d out lft where
    r: "read_tmpfiles E rootfs = Inr (existing, g)" "tr_var rootfs = Some (i, ch)" "tr_usr rootfs = Some d"
    and c: "convert_path_to_tmpfiles_d_recurse (conversion_config E existing) ''/var'' i ch
       \<lparr>out_entries = [], out_unsupported = []\<rparr> = Inr (out, lft)"
    and w: "if out_entries out = [] then w = written_default \<and> rootfs' = rootfs\<lparr>tr_var := Some (i, lft)\<rparr>
     else generation_path g \<notin> fst ` set d
       \<and> w = \<lparr>generated = Some (length (out_entries out), generation_path g), unsupported = length (out_unsupported out)\<rparr>
       \<and> rootfs' = rootfs\<lparr>tr_var := Some (i, lft),
           tr_usr := Some (d @ [(generation_path g, generated_content E (out_entries out) (out_unsupported out))])\<rparr>"
    by (rule var_to_tmpfiles_steps)
  let ?c = "conversion_config E existing"
  have x: "set (out_entries out) = new_lines ?c i ''/var'' ch"
    "set (out_unsupported out) = ignored ?c i ''/var'' ch" "lft = filter (stays ?c i) ch"
    using walk_exact [OF c] by simp_all
  have s: "sorted_wrt (<) (out_entries out)" using walk_sorted [OF c] by simp
  have abs: "path_absolute ''/var''" by (simp add: path_sep_def)
  have cover: "\<exists>line. line \<in> new_lines ?c i ''/var'' ch \<and> tmpfiles_entry_get_path line = Inr (canonical_path q)"
    if v: "visible i ''/var'' ch j q n y" "file_meta_from_fs y \<noteq> None" "\<not> has_tmpfiles_entry ?c j n" for j q n y
  proof -
    from v(2) obtain fm where fm: "file_meta_from_fs y = Some fm" by blast
    from walk_total [OF c v(1,3) fm] obtain l where l: "entry_line ?c q (node_meta y) fm = Inr l" by blast
    then have "l \<in> new_lines ?c i ''/var'' ch" using v fm unfolding new_lines_def mem_Collect_eq by blast
    with entry_line_path [OF l visible_absolute [OF v(1) abs]] show ?thesis by blast
  qed
  have new: "new_lines ?c i ''/var'' ch = {} \<longleftrightarrow> out_entries out = []" using x(1) by (metis set_empty)
  have "tr_var rootfs' = Some (i, filter (stays ?c i) ch)"
    using w x(3) by (auto split: if_splits)
  moreover have "if new_lines ?c i ''/var'' ch = {} then generated w = None \<and> tr_usr rootfs' = Some d
     else \<exists>es us. set es = new_lines ?c i ''/var'' ch \<and> sorted_wrt (<) es \<and> set us = ignored ?c i ''/var'' ch
            \<and> generation_path g \<notin> fst ` set d \<and> generated w = Some (length es, generation_path g)
            \<and> tr_usr rootfs' = Some (d @ [(generation_path g, generated_content E es us)])"
    unfolding new using w r(3) x(1,2) s by (auto simp: written_default_def)
  ultimately show ?thesis unfolding Let_def using r cover by blast
qed

section \<open>Generations\<close>

text \<open>The files counted as generated.\<close>

definition is_generated :: "string \<Rightarrow> bool" where
  "is_generated name = (path_extension name = Some ''conf'' \<and> starts_with BOOTC_GENERATED_PREFIX (file_stem name))"

definition generated_names :: "(string \<times> string) list option \<Rightarrow> string list" where
  "generated_names d = (case d of None \<Rightarrow> [] | Some fs \<Rightarrow> filter is_generated (map fst fs))"

lemma generation_increment_cases:
  "generation_increment g = (if unat g + 1 < 4294967296 then Inr (g + 1)
     else Inl (Panicked ''called `Option::unwrap()` on a `None` value''))"
proof -
  have "uint g = int (unat g)" by simp
  then have "uint g + 1 < 4294967296 \<longleftrightarrow> unat g + 1 < 4294967296" by linarith
  then show ?thesis by (simp add: generation_increment_def)
qed

lemma generation_increment_Inr: "generation_increment g = Inr g' \<Longrightarrow> unat g' = unat g + 1"
  by (auto simp: generation_increment_cases unat_word_ariths split: if_splits)

lemma read_files_count:
  "read_tmpfiles_files E fs g res = Inr (res', g') \<Longrightarrow>
     unat g' = unat g + length (filter is_generated (map fst fs))"
proof (induction E fs g res rule: read_tmpfiles_files.induct)
  case (2 E name content rest g res)
  show ?case
  proof (cases "path_extension name = Some ''conf''")
    case False
    with 2 show ?thesis by (simp add: is_generated_def)
  next
    case True
    with 2(3) obtain g1 res1 where
      g1: "(if starts_with BOOTC_GENERATED_PREFIX (file_stem name) then generation_increment g else Inr g) = Inr g1"
      and r: "read_tmpfiles_files E rest g1 res1 = Inr (res', g')"
      by (auto simp: rbind_Inr_iff)
    have "unat g1 = unat g + (if is_generated name then 1 else 0)"
      using g1 True generation_increment_Inr by (auto simp: is_generated_def split: if_splits)
    with 2(2) [OF _ r] True show ?thesis by simp
  qed
qed simp

lemma read_files_panic:
  "read_tmpfiles_files E fs g res = Inl (Panicked msg) \<Longrightarrow>
     4294967296 \<le> unat g + length (filter is_generated (map fst fs))"
proof (induction E fs g res rule: read_tmpfiles_files.induct)
  case (2 E name content rest g res)
  show ?case
  proof (cases "path_extension name = Some ''conf''")
    case False
    with 2 show ?thesis by (simp add: is_generated_def)
  next
    case ext: True
    show ?thesis
    proof (cases "is_generated name \<and> generation_increment g = Inl (Panicked msg)")
      case True
      then show ?thesis by (auto simp: generation_increment_cases split: if_splits)
    next
      case False
      with 2(3) ext obtain g1 res1 where
        g1: "(if is_generated name then generation_increment g else Inr g) = Inr g1"
        and r: "read_tmpfiles_files E rest g1 res1 = Inl (Panicked msg)"
        by (auto simp: rbind_Inl_iff is_generated_def lift_fail_def map_sum_def split: sum.splits if_splits)
      have "unat g1 = unat g + (if is_generated name then 1 else 0)"
        using g1 generation_increment_Inr by (auto split: if_splits)
      with 2(2) [OF _ r] ext show ?thesis by (simp split: if_splits)
    qed
  qed
qed simp

lemma read_dir_count:
  "read_tmpfiles_from_dir E d g = Inr (res, g') \<Longrightarrow> unat g' = unat g + length (generated_names d)"
  "read_tmpfiles_from_dir E d g = Inl (Panicked msg) \<Longrightarrow> 4294967296 \<le> unat g + length (generated_names d)"
  by (auto simp: read_tmpfiles_from_dir_def generated_names_def dest: read_files_count read_files_panic
      split: option.splits)

lemma read_tmpfiles_count:
  "read_tmpfiles E rootfs = Inr (ex, g) \<Longrightarrow>
     unat g = length (generated_names (tr_usr rootfs)) + length (generated_names (tr_etc rootfs))"
  "read_tmpfiles E rootfs = Inl (Panicked msg) \<Longrightarrow>
     4294967296 \<le> length (generated_names (tr_usr rootfs)) + length (generated_names (tr_etc rootfs))"
  by (auto simp: read_tmpfiles_def rbind_Inr_iff rbind_Inl_iff dest!: read_dir_count)

text \<open>The generated files are numbered from zero without gaps.\<close>

definition numbered :: "nat \<Rightarrow> tf_root \<Rightarrow> bool" where
  "numbered k rootfs \<longleftrightarrow> k < 4294967296 \<and> generated_names (tr_etc rootfs) = []
     \<and> distinct (generated_names (tr_usr rootfs))
     \<and> set (generated_names (tr_usr rootfs)) = (\<lambda>j. generation_path (of_nat j)) ` {..<k}"

lemma generation_path_inj: "generation_path g = generation_path h \<longleftrightarrow> g = h"
proof
  assume "generation_path g = generation_path h"
  then have "show_u32 g = show_u32 h" by (simp add: generation_path_def)
  then show "g = h" by (metis parse_show_u32 option.inject)
qed simp

lemma generation_path_generated [simp]: "is_generated (generation_path g)"
proof -
  have d: "CHR ''.'' \<notin> set (show_u32 g)" by (rule not_digit_show) (simp add: is_ascii_digit_iff)
  have r: "rsplit_once (CHR ''.'') (generation_path g) = Some (BOOTC_GENERATED_PREFIX @ ''-'' @ show_u32 g, ''conf'')"
    unfolding rsplit_once_Some_iff by (simp add: generation_path_def)
  have "generation_path g \<noteq> ''..''" by (simp add: generation_path_def BOOTC_GENERATED_PREFIX_def)
  with r show ?thesis
    by (simp add: is_generated_def path_extension_def file_stem_def BOOTC_GENERATED_PREFIX_def starts_with_iff)
qed

lemma of_nat_u32_inj: "j < 4294967296 \<Longrightarrow> k < 4294967296 \<Longrightarrow> (of_nat j :: u32) = of_nat k \<longleftrightarrow> j = k"
  by (simp add: word_of_nat_eq_iff take_bit_nat_eq_self)

lemma numbered_next:
  assumes n: "numbered k rootfs" and "read_tmpfiles E rootfs = Inr (ex, g)"
  shows "g = of_nat k" and "tr_usr rootfs = Some d \<Longrightarrow> generation_path g \<notin> fst ` set d"
proof -
  have inj: "inj_on (\<lambda>j. generation_path (of_nat j :: u32)) {..<k}"
    using n by (auto simp: inj_on_def generation_path_inj of_nat_u32_inj numbered_def)
  have "length (generated_names (tr_usr rootfs)) = card (set (generated_names (tr_usr rootfs)))"
    using n unfolding numbered_def by (metis distinct_card)
  also have "\<dots> = k" using n card_image [OF inj] by (simp add: numbered_def)
  finally have "unat g = k" using read_tmpfiles_count(1) [OF assms(2)] n by (simp add: numbered_def)
  then show g: "g = of_nat k" by auto
  assume d: "tr_usr rootfs = Some d"
  show "generation_path g \<notin> fst ` set d"
  proof
    assume "generation_path g \<in> fst ` set d"
    then have "generation_path g \<in> set (generated_names (tr_usr rootfs))" by (auto simp: generated_names_def d)
    with n g show False by (auto simp: numbered_def generation_path_inj of_nat_u32_inj)
  qed
qed

lemma numbered_append:
  assumes n: "numbered k rootfs" "k + 1 < 4294967296" and d: "tr_usr rootfs = Some d"
    and fresh: "generation_path (of_nat k) \<notin> fst ` set d"
    and usr: "tr_usr rootfs' = Some (d @ [(generation_path (of_nat k), content)])"
    and etc: "tr_etc rootfs' = tr_etc rootfs"
  shows "numbered (k + 1) rootfs'"
proof -
  have names: "generated_names (tr_usr rootfs') = generated_names (tr_usr rootfs) @ [generation_path (of_nat k)]"
    by (simp add: generated_names_def d usr)
  have "generation_path (of_nat k) \<notin> set (generated_names (tr_usr rootfs))"
    using fresh by (auto simp: generated_names_def d)
  then show ?thesis using n unfolding numbered_def names etc by (simp add: lessThan_Suc)
qed

text \<open>
  C30. Repeated conversions never collide: while the generated files are numbered from zero
  without gaps, a conversion does not panic, and it keeps the numbering, with one more file exactly
  when it generated one.
\<close>

theorem tmpfiles_generation_fresh:
  assumes "numbered k rootfs" and "k + 1 < 4294967296"
  shows "var_to_tmpfiles E rootfs \<noteq> Inl (Panicked msg)
    \<and> (\<forall>w rootfs'. var_to_tmpfiles E rootfs = Inr (w, rootfs') \<longrightarrow>
         numbered (if generated w = None then k else k + 1) rootfs')"
proof (intro conjI allI impI)
  show "var_to_tmpfiles E rootfs \<noteq> Inl (Panicked msg)"
  proof (cases "read_tmpfiles E rootfs")
    case (Inl e)
    have "length (generated_names (tr_usr rootfs)) \<le> k"
      using assms(1) card_image_le [of "{..<k}" "\<lambda>j. generation_path (of_nat j)"]
      unfolding numbered_def by (metis card_lessThan distinct_card finite_lessThan)
    then have "e \<noteq> Panicked msg"
      using read_tmpfiles_count(2) [of E rootfs msg] Inl assms by (auto simp: numbered_def)
    with Inl show ?thesis by (simp add: var_to_tmpfiles_def)
  next
    case (Inr r)
    obtain ex g where r: "r = (ex, g)" by (cases r)
    note f = numbered_next(2) [OF assms(1) Inr [unfolded r]]
    then show ?thesis using Inr r
      by (auto simp: var_to_tmpfiles_def rbind_Inl_iff Let_def lift_fail_def map_sum_def
          split: option.splits if_splits sum.splits)
  qed
next
  fix w rootfs' assume "var_to_tmpfiles E rootfs = Inr (w, rootfs')"
  then show "numbered (if generated w = None then k else k + 1) rootfs'"
  proof (rule var_to_tmpfiles_steps)
    fix existing g i ch d out lft
    assume r: "read_tmpfiles E rootfs = Inr (existing, g)" and d: "tr_usr rootfs = Some d"
      and w: "if out_entries out = [] then w = written_default \<and> rootfs' = rootfs\<lparr>tr_var := Some (i, lft)\<rparr>
     else generation_path g \<notin> fst ` set d
       \<and> w = \<lparr>generated = Some (length (out_entries out), generation_path g), unsupported = length (out_unsupported out)\<rparr>
       \<and> rootfs' = rootfs\<lparr>tr_var := Some (i, lft),
           tr_usr := Some (d @ [(generation_path g, generated_content E (out_entries out) (out_unsupported out))])\<rparr>"
    have g: "g = of_nat k" using numbered_next(1) [OF assms(1) r] .
    show ?thesis
    proof (cases "out_entries out = []")
      case True
      with w assms(1) show ?thesis by (simp add: numbered_def written_default_def)
    next
      case False
      then show ?thesis using numbered_append [OF assms d] w g by simp
    qed
  qed
qed

section \<open>Witnesses\<close>

definition demo_tf_env :: tf_env where
  "demo_tf_env =
     \<lparr>te_root_ident = (1, 2), te_open = (\<lambda>p. if p = ''var'' then Inr (Some (1, 3)) else Inr None),
      te_users = (\<lambda>u. if u = 0 then Some (Some ''root'') else None),
      te_groups = (\<lambda>g. if g = 0 then Some (Some ''root'') else None),
      te_debug = (\<lambda>p. p)\<rparr>"

definition demo_tf_meta :: fs_meta where
  "demo_tf_meta = \<lparr>fm_uid = 0, fm_gid = 0, fm_mode = 16877\<rparr>"

definition demo_var :: "(string \<times> fs_node) list" where
  "demo_var =
     [(''run'', LinkNode demo_tf_meta ''../run''),
      (''lib'', DirNode demo_tf_meta (1, 4) False
         [(''a b'', DirNode demo_tf_meta (1, 5) False []), (''data'', FileNode demo_tf_meta)]),
      (''log'', FileNode demo_tf_meta)]"

definition demo_tf_root :: tf_root where
  "demo_tf_root =
     \<lparr>tr_usr = Some [(''var.conf'', ''d /var/lib 0755 root root - -''),
                     (''bootc-autogenerated-var-0.conf'', ''# none'')],
      tr_etc = None, tr_var = Some ((1, 3), demo_var)\<rparr>"

definition demo_lines :: "string list" where
  "demo_lines = [''L /run - - - - ../run'', ''d /var/lib/a'' @ [BS] @ ''x20b 0755 root root - -'']"

lemma demo_conversion: "\<exists>rootfs'. var_to_tmpfiles demo_tf_env demo_tf_root
    = Inr (\<lparr>generated = Some (2, ''bootc-autogenerated-var-1.conf''), unsupported = 2\<rparr>, rootfs')
    \<and> map_option (map fst \<circ> snd) (tr_var rootfs') = Some [''log'']"
proof -
  have "(case var_to_tmpfiles demo_tf_env demo_tf_root of
      Inr (w, r) \<Rightarrow> w = \<lparr>generated = Some (2, ''bootc-autogenerated-var-1.conf''), unsupported = 2\<rparr>
        \<and> map_option (map fst \<circ> snd) (tr_var r) = Some [''log''] | Inl _ \<Rightarrow> False)"
    by code_simp
  then show ?thesis by (auto split: sum.splits)
qed

theorem tmpfiles_conversion_complete_witness:
  "(\<exists>w r. var_to_tmpfiles demo_tf_env demo_tf_root = Inr (w, r)
     \<and> map_option (map fst \<circ> snd) (tr_var r) = Some [''log''])
   \<and> (\<exists>line. tmpfiles_entry_get_path line = Inr (canonical_path ''/var/lib/a b''))"
proof -
  obtain r where v: "var_to_tmpfiles demo_tf_env demo_tf_root
      = Inr (\<lparr>generated = Some (2, ''bootc-autogenerated-var-1.conf''), unsupported = 2\<rparr>, r)"
    and t: "map_option (map fst \<circ> snd) (tr_var r) = Some [''log'']" using demo_conversion by blast
  have j: "path_join ''/var'' ''lib'' = ''/var/lib''" "path_join ''/var/lib'' ''a b'' = ''/var/lib/a b''"
    by code_simp+
  have vis: "visible (1, 3) ''/var'' demo_var (1, 4) ''/var/lib/a b'' ''a b'' (DirNode demo_tf_meta (1, 5) False [])"
    by (simp add: demo_var_def visible_Cons j)
  have var: "tr_var demo_tf_root = Some ((1, 3), demo_var)" by (simp add: demo_tf_root_def)
  have key: "(case read_tmpfiles demo_tf_env demo_tf_root of Inr (ex, _) \<Rightarrow> map_of ex ((1, 4), ''a b'') = None | _ \<Rightarrow> False)"
    by code_simp
  from tmpfiles_conversion_complete [OF v] obtain ex g i ch where
    e: "read_tmpfiles demo_tf_env demo_tf_root = Inr (ex, g)" and i: "tr_var demo_tf_root = Some (i, ch)"
    and cover: "\<forall>j q n x. visible i ''/var'' ch j q n x \<and> file_meta_from_fs x \<noteq> None
      \<and> \<not> has_tmpfiles_entry (conversion_config demo_tf_env ex) j n
      \<longrightarrow> (\<exists>line. line \<in> new_lines (conversion_config demo_tf_env ex) i ''/var'' ch
            \<and> tmpfiles_entry_get_path line = Inr (canonical_path q))"
    unfolding Let_def by blast
  have "i = (1, 3)" "ch = demo_var" using i var by simp_all
  with cover vis have c: "\<not> has_tmpfiles_entry (conversion_config demo_tf_env ex) (1, 4) ''a b'' \<longrightarrow>
      (\<exists>line. tmpfiles_entry_get_path line = Inr (canonical_path ''/var/lib/a b''))"
    by (metis file_meta_from_fs.simps(1) option.distinct(1))
  have "\<not> has_tmpfiles_entry (conversion_config demo_tf_env ex) (1, 4) ''a b''"
    using key e by (simp add: has_tmpfiles_entry_def conversion_config_def)
  with c v t show ?thesis by blast
qed

theorem tmpfiles_generation_fresh_witness:
  "numbered 1 demo_tf_root \<and> (\<exists>w r. var_to_tmpfiles demo_tf_env demo_tf_root = Inr (w, r) \<and> numbered 2 r)"
proof -
  have n: "numbered 1 demo_tf_root"
    by (simp add: numbered_def demo_tf_root_def generated_names_def lessThan_Suc is_generated_def; code_simp)
  obtain r where v: "var_to_tmpfiles demo_tf_env demo_tf_root
      = Inr (\<lparr>generated = Some (2, ''bootc-autogenerated-var-1.conf''), unsupported = 2\<rparr>, r)"
    using demo_conversion by blast
  from tmpfiles_generation_fresh [OF n, of demo_tf_env] n v show ?thesis by (auto simp: numeral_2_eq_2)
qed

text \<open>
  A gap in the numbering makes a conversion panic: with generation 1 present and generation 0
  removed the next file name is taken.
\<close>

theorem tmpfiles_gap_panics:
  "var_to_tmpfiles demo_tf_env
     (demo_tf_root\<lparr>tr_usr := Some [(''bootc-autogenerated-var-1.conf'', ''# none'')]\<rparr>)
   = Inl (Panicked ''assertion failed'')"
  by code_simp

text \<open>When there is no new line, the files that were ignored are not counted.\<close>

theorem tmpfiles_unsupported_uncounted:
  "map_sum id (unsupported \<circ> fst) (var_to_tmpfiles demo_tf_env
     (demo_tf_root\<lparr>tr_var := Some ((1, 3), [(''log'', FileNode demo_tf_meta)])\<rparr>)) = Inr 0
   \<and> ignored (conversion_config demo_tf_env []) (1, 3) ''/var'' [(''log'', FileNode demo_tf_meta)] \<noteq> {}"
proof
  show "map_sum id (unsupported \<circ> fst) (var_to_tmpfiles demo_tf_env
     (demo_tf_root\<lparr>tr_var := Some ((1, 3), [(''log'', FileNode demo_tf_meta)])\<rparr>)) = Inr 0" by code_simp
  show "ignored (conversion_config demo_tf_env []) (1, 3) ''/var'' [(''log'', FileNode demo_tf_meta)] \<noteq> {}"
    by (simp add: ignored_Cons has_tmpfiles_entry_def conversion_config_def)
qed

end
