(* ===== verification/Kargs.thy ===== *)
theory Kargs
  imports Rust_State Rust_Path
begin

text \<open>
  Kernel arguments: the kargs.d files of an image and their difference between two images
  (\<^verbatim>\<open>crates/lib/src/bootc_kargs.rs\<close>).

  A command line of the crate \<^verbatim>\<open>linux_kernel_cmdline\<close> is a parameter: a record of its operations,
  with the behaviour that is relied on in the locale \<^verbatim>\<open>kernel_cmdline\<close>. Parameters are taken up to
  the equality of that crate. TOML parsing and the listing of an ostree tree are parameters too.
\<close>

section \<open>Command lines\<close>

record ('c, 'p) cmdline_ops =
  c_from :: "string \<Rightarrow> 'c"
  c_text :: "'c \<Rightarrow> string"
  c_empty :: 'c
  c_iter :: "'c \<Rightarrow> 'p list"
  c_add :: "'p \<Rightarrow> 'c \<Rightarrow> 'c"
  c_remove_exact :: "'p \<Rightarrow> 'c \<Rightarrow> 'c"
  c_extend :: "'c \<Rightarrow> 'c \<Rightarrow> 'c"
  c_key :: "'p \<Rightarrow> string"
  c_str :: "'p \<Rightarrow> string"

text \<open>
  Documented behaviour: \<^verbatim>\<open>add\<close> appends a parameter that is not there yet, \<^verbatim>\<open>remove_exact\<close> removes all
  equal ones, \<^verbatim>\<open>extend\<close> adds each.
\<close>

locale kernel_cmdline =
  fixes C :: "('c, 'p) cmdline_ops"
  assumes iter_empty: "c_iter C (c_empty C) = []"
    and iter_add: "c_iter C (c_add C p c) = (if p \<in> set (c_iter C c) then c_iter C c else c_iter C c @ [p])"
    and iter_remove: "c_iter C (c_remove_exact C p c) = filter (\<lambda>q. q \<noteq> p) (c_iter C c)"
    and iter_extend: "c_iter C (c_extend C c d) = c_iter C (fold (c_add C) (c_iter C d) c)"
begin

lemma iter_fold_remove: "c_iter C (fold (c_remove_exact C) ps c) = filter (\<lambda>q. q \<notin> set ps) (c_iter C c)"
  by (induction ps arbitrary: c) (auto simp: iter_remove intro: filter_cong)

lemma set_fold_add: "set (c_iter C (fold (c_add C) ps c)) = set (c_iter C c) \<union> set ps"
  by (induction ps arbitrary: c) (auto simp: iter_add)

lemma iter_fold_add_prefix: "\<exists>rest. c_iter C (fold (c_add C) ps c) = c_iter C c @ rest \<and> set rest \<subseteq> set ps"
proof (induction ps arbitrary: c)
  case (Cons p ps)
  obtain rest where "c_iter C (fold (c_add C) ps (c_add C p c)) = c_iter C (c_add C p c) @ rest" "set rest \<subseteq> set ps"
    using Cons by blast
  then show ?case by (cases "p \<in> set (c_iter C c)") (auto simp: iter_add)
qed simp

lemma iter_fold_add_fresh:
  "distinct ps \<Longrightarrow> set ps \<inter> set (c_iter C c) = {} \<Longrightarrow> c_iter C (fold (c_add C) ps c) = c_iter C c @ ps"
proof (induction ps arbitrary: c)
  case (Cons p ps)
  then have "c_iter C (c_add C p c) = c_iter C c @ [p]" by (simp add: iter_add)
  with Cons show ?case by simp
qed simp

lemma iter_fold_add_known: "set ps \<subseteq> set (c_iter C c) \<Longrightarrow> c_iter C (fold (c_add C) ps c) = c_iter C c"
  by (induction ps arbitrary: c) (auto simp: iter_add)

end

section \<open>kargs.d\<close>

record kargs_config =
  kargs :: "string list"
  match_architectures :: "string list option"

definition filename_matches :: "string \<Rightarrow> bool" where
  "filename_matches name = (path_extension name = Some ''toml'')"

definition parse_kargs_toml ::
    "('c, 'p) cmdline_ops \<Rightarrow> (string \<Rightarrow> kargs_config res) \<Rightarrow> string \<Rightarrow> string \<Rightarrow> 'c option res" where
  "parse_kargs_toml C toml contents sys_arch =
     rbind (toml contents) (\<lambda>de.
     let matched = (case match_architectures de of Some arches \<Rightarrow> list_ex (\<lambda>s. s = sys_arch) arches | None \<Rightarrow> True)
     in Inr (if matched then Some (c_from C (join_with '' '' (kargs de))) else None))"

text \<open>Reading the files that match, in the order of the listing.\<close>

fun extend_kargs ::
    "('c, 'p) cmdline_ops \<Rightarrow> (string \<Rightarrow> kargs_config res) \<Rightarrow> string \<Rightarrow> (string \<times> string) list \<Rightarrow> 'c \<Rightarrow> 'c res" where
  "extend_kargs C toml sys_arch [] ret = Inr ret"
| "extend_kargs C toml sys_arch ((name, buf) # rest) ret =
     (if \<not> filename_matches name then extend_kargs C toml sys_arch rest ret
      else rbind (case parse_kargs_toml C toml buf sys_arch of Inl _ \<Rightarrow> Inl (''Parsing '' @ name) | Inr r \<Rightarrow> Inr r) (\<lambda>r.
           case r of
             Some ks \<Rightarrow> extend_kargs C toml sys_arch rest (c_extend C ret ks)
           | None \<Rightarrow> extend_kargs C toml sys_arch rest ret))"

text \<open>In a directory the names are sorted first; in an ostree tree they come as enumerated.\<close>

definition get_kargs_in_root ::
    "('c, 'p) cmdline_ops \<Rightarrow> (string \<Rightarrow> kargs_config res) \<Rightarrow> (string \<times> string) list option \<Rightarrow> string \<Rightarrow> 'c res" where
  "get_kargs_in_root C toml d sys_arch =
     (case d of
        None \<Rightarrow> Inr (c_empty C)
      | Some fs \<Rightarrow> extend_kargs C toml sys_arch (sort_by (\<lambda>a b. ord_cmp (fst a) (fst b)) fs) (c_empty C))"

definition get_kargs_from_ostree ::
    "('c, 'p) cmdline_ops \<Rightarrow> (string \<Rightarrow> kargs_config res) \<Rightarrow> (string \<times> string) list \<Rightarrow> string \<Rightarrow> 'c res" where
  "get_kargs_from_ostree C toml tree sys_arch = extend_kargs C toml sys_arch tree (c_empty C)"

definition get_kargs_from_ostree_root ::
    "('c, 'p) cmdline_ops \<Rightarrow> (string \<Rightarrow> kargs_config res) \<Rightarrow> (string \<times> string) list option \<Rightarrow> string \<Rightarrow> 'c res" where
  "get_kargs_from_ostree_root C toml kargsd sys_arch =
     (case kargsd of None \<Rightarrow> Inr (c_empty C) | Some t \<Rightarrow> get_kargs_from_ostree C toml t sys_arch)"

section \<open>Applying a difference\<close>

definition compute_apply_kargs_diff :: "('c, 'p) cmdline_ops \<Rightarrow> 'c \<Rightarrow> 'c \<Rightarrow> 'c \<Rightarrow> 'c" where
  "compute_apply_kargs_diff C existing remote new_kargs =
     (let added = filter (\<lambda>item. \<not> list_ex (\<lambda>e. item = e) (c_iter C existing)) (c_iter C remote);
          removed = filter (\<lambda>item. \<not> list_ex (\<lambda>r. item = r) (c_iter C remote)) (c_iter C existing)
      in fold (c_add C) added (fold (c_remove_exact C) removed new_kargs))"

definition compute_new_kargs ::
    "('c, 'p) cmdline_ops \<Rightarrow> (string \<Rightarrow> kargs_config res) \<Rightarrow> string \<Rightarrow> (string \<times> string) list option
       \<Rightarrow> (string \<times> string) list option option \<Rightarrow> 'c \<Rightarrow> 'c res" where
  "compute_new_kargs C toml arch new_fs current_root new_kargs =
     rbind (get_kargs_in_root C toml new_fs arch) (\<lambda>remote.
     rbind (case current_root of Some root \<Rightarrow> get_kargs_in_root C toml root arch | None \<Rightarrow> Inr (c_empty C)) (\<lambda>existing.
     Inr (compute_apply_kargs_diff C existing remote new_kargs)))"

text \<open>
  The arguments of a new deployment: the options of the merge deployment's boot configuration, its
  kargs.d directory, and the kargs.d tree of the fetched commit, if it has one.
\<close>

definition get_kargs ::
    "('c, 'p) cmdline_ops \<Rightarrow> (string \<Rightarrow> kargs_config res) \<Rightarrow> string \<Rightarrow> string option
       \<Rightarrow> (string \<times> string) list option \<Rightarrow> (string \<times> string) list option \<Rightarrow> 'c res" where
  "get_kargs C toml sys_arch options merge_root fetched_tree =
     (let ks = (case options of Some opts \<Rightarrow> c_from C opts | None \<Rightarrow> c_empty C) in
      rbind (get_kargs_in_root C toml merge_root sys_arch) (\<lambda>existing.
      case fetched_tree of
        None \<Rightarrow> Inr (c_extend C ks existing)
      | Some tree \<Rightarrow>
          rbind (get_kargs_from_ostree C toml tree sys_arch) (\<lambda>remote.
          Inr (compute_apply_kargs_diff C existing remote ks))))"

definition root_args_from_cmdline :: "('c, 'p) cmdline_ops \<Rightarrow> 'c \<Rightarrow> 'c" where
  "root_args_from_cmdline C cmdline =
     fold (\<lambda>param res.
        let key = c_key C param in
        if key = ''root'' \<or> key = ''rootflags'' \<or> starts_with ''rd.'' key then c_add C param res else res)
      (c_iter C cmdline) (c_empty C)"

section \<open>What an update does to the arguments\<close>

text \<open>Those of the old kargs.d that the new one lacks go, those it newly has come.\<close>

context kernel_cmdline
begin

lemma diff_iter:
  "\<exists>rest. c_iter C (compute_apply_kargs_diff C e r n)
     = filter (\<lambda>p. \<not> (p \<in> set (c_iter C e) \<and> p \<notin> set (c_iter C r))) (c_iter C n) @ rest
     \<and> set rest \<subseteq> set (c_iter C r) - set (c_iter C e)"
proof -
  let ?removed = "filter (\<lambda>item. \<not> list_ex (\<lambda>x. item = x) (c_iter C r)) (c_iter C e)"
  let ?added = "filter (\<lambda>item. \<not> list_ex (\<lambda>x. item = x) (c_iter C e)) (c_iter C r)"
  have m: "list_ex (\<lambda>x. p = x) xs \<longleftrightarrow> p \<in> set xs" for p and xs :: "'b list" by (auto simp: list_ex_iff)
  obtain rest where "c_iter C (compute_apply_kargs_diff C e r n)
      = c_iter C (fold (c_remove_exact C) ?removed n) @ rest" "set rest \<subseteq> set ?added"
    using iter_fold_add_prefix [of ?added "fold (c_remove_exact C) ?removed n"]
    by (auto simp: compute_apply_kargs_diff_def)
  then show ?thesis by (auto simp: iter_fold_remove m)
qed

lemma diff_set:
  "set (c_iter C (compute_apply_kargs_diff C e r n)) =
     (set (c_iter C n) - (set (c_iter C e) - set (c_iter C r))) \<union> (set (c_iter C r) - set (c_iter C e))"
  by (auto simp: compute_apply_kargs_diff_def set_fold_add iter_fold_remove list_ex_iff)

lemma set_extend: "set (c_iter C (c_extend C c d)) = set (c_iter C c) \<union> set (c_iter C d)"
  by (simp add: iter_extend set_fold_add)

end


text \<open>
  When the new image has no kargs.d directory at all, nothing is removed: the arguments of the old
  files stay and even those the administrator removed come back, while the computation for the
  composefs backend removes them.
\<close>

theorem kargs_missing_dir:
  assumes "kernel_cmdline C" and "get_kargs_in_root C toml merge_root arch = Inr existing"
  shows "\<exists>ks. get_kargs C toml arch (Some opts) merge_root None = Inr ks
      \<and> set (c_iter C ks) = set (c_iter C (c_from C opts)) \<union> set (c_iter C existing)"
    and "\<exists>ks. compute_new_kargs C toml arch None (Some merge_root) (c_from C opts) = Inr ks
      \<and> set (c_iter C ks) = set (c_iter C (c_from C opts)) - set (c_iter C existing)"
  using assms kernel_cmdline.set_extend [OF assms(1)] kernel_cmdline.diff_set [OF assms(1)]
    kernel_cmdline.iter_empty [OF assms(1)]
  by (simp_all add: get_kargs_def compute_new_kargs_def get_kargs_in_root_def [of C toml None])

section \<open>A reference command line\<close>

text \<open>A command line as the list of its words, separated by single spaces in its text.\<close>

definition cmdline_ref :: "(string list, string) cmdline_ops" where
  "cmdline_ref =
     \<lparr>c_from = (\<lambda>s. filter (\<lambda>w. w \<noteq> []) (split_on SPC s)), c_text = join_with '' '', c_empty = [],
      c_iter = (\<lambda>c. c), c_add = (\<lambda>p c. if p \<in> set c then c else c @ [p]),
      c_remove_exact = (\<lambda>p c. filter (\<lambda>q. q \<noteq> p) c),
      c_extend = (\<lambda>c d. fold (\<lambda>p c. if p \<in> set c then c else c @ [p]) d c),
      c_key = takeWhile (\<lambda>c. c \<noteq> CHR ''=''), c_str = (\<lambda>p. p)\<rparr>"

interpretation cmdline_ref: kernel_cmdline cmdline_ref
  by unfold_locales (simp_all add: cmdline_ref_def)

definition toml_ref :: "string \<Rightarrow> kargs_config res" where
  "toml_ref s = Inr \<lparr>kargs = split_on (CHR '','') s, match_architectures = None\<rparr>"


end
