(* ===== verification/Loader_Entries.thy ===== *)
theory Loader_Entries
  imports Kargs
begin

text \<open>
  Kernel arguments by source (\<^verbatim>\<open>crates/lib/src/loader_entries.rs\<close>): each source, such as TuneD, manages
  its own arguments, which are recorded under \<^verbatim>\<open>x-options-source-\<close> keys of the boot entry.

  The ostree sysroot is a record of what the code reads from it. A boot configuration is a map from
  keys to values. Staging is the request handed to ostree: commit, origin, boot configuration of the
  merge deployment and kernel arguments.
\<close>

section \<open>Sources\<close>

definition OPTIONS_SOURCE_KEY_PREFIX :: string where
  "OPTIONS_SOURCE_KEY_PREFIX = ''x-options-source-''"

definition is_alnum :: "char \<Rightarrow> bool" where
  "is_alnum c = (CHR ''0'' \<le> c \<and> c \<le> CHR ''9'' \<or> CHR ''A'' \<le> c \<and> c \<le> CHR ''Z'' \<or> CHR ''a'' \<le> c \<and> c \<le> CHR ''z'')"

definition source_name_parse :: "string \<Rightarrow> string res" where
  "source_name_parse source =
     (if source = [] then Inl ''Source name must not be empty''
      else if \<not> list_all (\<lambda>c. is_alnum c \<or> c = CHR ''-'' \<or> c = CHR ''_'') source
      then Inl ''Source name must contain only alphanumeric characters, hyphens, or underscores''
      else Inr source)"

definition bls_key :: "string \<Rightarrow> string" where
  "bls_key source = OPTIONS_SOURCE_KEY_PREFIX @ source"

definition is_ascii_ws :: "char \<Rightarrow> bool" where
  "is_ascii_ws c = (c \<in> {CHR 0x20, CHR 0x09, CHR 0x0A, CHR 0x0C, CHR 0x0D})"

text \<open>\<^verbatim>\<open>split_once\<close> at the first ASCII whitespace character.\<close>

fun split_once_ws :: "string \<Rightarrow> (string \<times> string) option" where
  "split_once_ws [] = None"
| "split_once_ws (c # cs) =
     (if is_ascii_ws c then Some ([], cs) else map_option (\<lambda>(a, b). (c # a, b)) (split_once_ws cs))"

definition source_line :: "string \<Rightarrow> (string \<times> string) option" where
  "source_line line =
     (case strip_prefix OPTIONS_SOURCE_KEY_PREFIX (trim line) of
        None \<Rightarrow> None
      | Some rest \<Rightarrow>
          (case split_once_ws rest of
             None \<Rightarrow> None
           | Some (source_name, value) \<Rightarrow>
               let value = trim value in
               if source_name = [] \<or> value = [] then None else Some (source_name, value)))"

text \<open>The sources of an entry, with the text of their arguments.\<close>

definition extract_source_options_from_bls :: "string \<Rightarrow> (string, string) btree" where
  "extract_source_options_from_bls content =
     foldl (\<lambda>sources line. case source_line line of
              None \<Rightarrow> sources
            | Some (source_name, value) \<Rightarrow> bt_insert source_name value sources) [] (str_lines content)"

definition compute_merged_options ::
    "('c, 'p) cmdline_ops \<Rightarrow> string \<Rightarrow> (string, string) btree \<Rightarrow> string \<Rightarrow> string option \<Rightarrow> 'c" where
  "compute_merged_options C current_options source_options target_source new_options =
     (let merged = c_from C current_options;
          merged = (case bt_get source_options target_source of
                      Some old \<Rightarrow> fold (c_remove_exact C) (c_iter C (c_from C old)) merged
                    | None \<Rightarrow> merged)
      in case new_options of
           Some new_opts \<Rightarrow>
             if new_opts \<noteq> [] then fold (c_add C) (c_iter C (c_from C new_opts)) merged else merged
         | None \<Rightarrow> merged)"

section \<open>The sysroot\<close>

type_synonym bootconfig = "string \<Rightarrow> string option"

record 'o le_deployment =
  ld_stateroot :: string
  ld_bootcsum :: string
  ld_bootserial :: int
  ld_csum :: string
  ld_origin :: "'o option"
  ld_bootconfig :: "bootconfig option"

text \<open>
  The staged data is the bootconfig-extra dictionary of the staged deployment file: absent, not a
  string dictionary, or its entries in order.
\<close>

record 'o le_sysroot =
  ls_booted :: "'o le_deployment option"
  ls_staged :: "'o le_deployment option"
  ls_merge :: "'o le_deployment option"
  ls_entries :: "(string \<times> string) list option"
  ls_staged_extra :: "(string \<times> string) list option"
  ls_show_int :: "int \<Rightarrow> string"

record 'o stage_request =
  sr_stateroot :: string
  sr_commit :: string
  sr_origin :: 'o
  sr_bootconfig :: bootconfig
  sr_kargs :: "string list"

definition read_staged_bootconfig_extra_sources :: "'o le_sysroot \<Rightarrow> (string, string) btree" where
  "read_staged_bootconfig_extra_sources sysroot =
     (case ls_staged_extra sysroot of
        None \<Rightarrow> []
      | Some inner \<Rightarrow>
          foldl (\<lambda>sources (key, value).
             case strip_prefix OPTIONS_SOURCE_KEY_PREFIX key of
               Some name \<Rightarrow> if value \<noteq> [] then bt_insert name value sources else sources
             | None \<Rightarrow> sources) [] inner)"

text \<open>\<^verbatim>\<open>split_ascii_whitespace\<close>.\<close>

fun words_ws :: "string \<Rightarrow> string \<Rightarrow> string list" where
  "words_ws acc [] = (if acc = [] then [] else [acc])"
| "words_ws acc (c # cs) =
     (if is_ascii_ws c then (if acc = [] then words_ws [] cs else acc # words_ws [] cs)
      else words_ws (acc @ [c]) cs)"

definition entry_matches :: "string \<Rightarrow> string \<Rightarrow> bool" where
  "entry_matches ostree_match content =
     list_ex (\<lambda>line. starts_with ''options '' line
        \<and> list_ex (\<lambda>arg. case strip_prefix ''ostree='' arg of
              Some path \<Rightarrow> ends_with ostree_match path | None \<Rightarrow> False) (words_ws [] line))
       (str_lines content)"

fun find_entry :: "string \<Rightarrow> (string \<times> string) list \<Rightarrow> string option" where
  "find_entry ostree_match [] = None"
| "find_entry ostree_match ((file_name, content) # rest) =
     (if \<not> starts_with ''ostree-'' file_name \<or> \<not> ends_with ''.conf'' file_name then find_entry ostree_match rest
      else if entry_matches ostree_match content then Some content
      else find_entry ostree_match rest)"

definition read_bls_entry_for_deployment :: "'o le_sysroot \<Rightarrow> 'o le_deployment \<Rightarrow> string option res" where
  "read_bls_entry_for_deployment sysroot d =
     rbind (ok_or ''Opening boot/loader/entries'' (ls_entries sysroot)) (\<lambda>entries.
     Inr (find_entry (''/'' @ ld_stateroot d @ ''/'' @ ld_bootcsum d @ ''/'' @ ls_show_int sysroot (ld_bootserial d))
            entries))"

section \<open>Setting the arguments of a source\<close>

text \<open>The sources the base deployment has.\<close>

definition booted_sources :: "bootconfig \<Rightarrow> string \<Rightarrow> (string, string) btree" where
  "booted_sources cfg bls_content =
     foldl (\<lambda>sources (name, _). case cfg (OPTIONS_SOURCE_KEY_PREFIX @ name) of
              Some val \<Rightarrow> bt_insert name val sources
            | None \<Rightarrow> sources) [] (extract_source_options_from_bls bls_content)"

definition current_sources ::
    "'o le_sysroot \<Rightarrow> 'o le_deployment \<Rightarrow> bootconfig \<Rightarrow> (string, string) btree res" where
  "current_sources sysroot booted cfg =
     (if ls_staged sysroot \<noteq> None then
        rbind (read_bls_entry_for_deployment sysroot booted) (\<lambda>bls.
        let sources = (case bls of Some bls_content \<Rightarrow> booted_sources cfg bls_content | None \<Rightarrow> [])
        in Inr (foldl (\<lambda>sources (name, value).
             case bt_get sources name of Some _ \<Rightarrow> sources | None \<Rightarrow> bt_insert name value sources)
             sources (read_staged_bootconfig_extra_sources sysroot)))
      else
        rbind (read_bls_entry_for_deployment sysroot booted) (\<lambda>bls.
        rbind (ok_or ''No BLS entry found for booted deployment'' bls) (\<lambda>bls_content.
        Inr (extract_source_options_from_bls bls_content))))"

definition is_source_unchanged :: "string option \<Rightarrow> string option \<Rightarrow> bool" where
  "is_source_unchanged old new =
     (case (old, new) of
        (Some old, Some new) \<Rightarrow> old = new
      | (None, None) \<Rightarrow> True
      | (None, Some new) \<Rightarrow> new = []
      | _ \<Rightarrow> False)"

text \<open>Setting a key to the empty string stands for removing it.\<close>

definition update_source_keys ::
    "(string, string) btree \<Rightarrow> string \<Rightarrow> string option \<Rightarrow> bootconfig \<Rightarrow> bootconfig" where
  "update_source_keys source_options source new_options cfg =
     (let cfg = foldl (\<lambda>cfg (name, _). cfg(OPTIONS_SOURCE_KEY_PREFIX @ name \<mapsto> [])) cfg source_options;
          cfg = foldl (\<lambda>cfg (name, value). if name \<noteq> source then cfg(OPTIONS_SOURCE_KEY_PREFIX @ name \<mapsto> value) else cfg)
                  cfg source_options
      in case new_options of Some opts_str \<Rightarrow> cfg(bls_key source \<mapsto> opts_str) | None \<Rightarrow> cfg)"

definition set_options_for_source_staged ::
    "('c, 'p) cmdline_ops \<Rightarrow> bool \<Rightarrow> 'o le_sysroot \<Rightarrow> string \<Rightarrow> string option \<Rightarrow> 'o stage_request option res" where
  "set_options_for_source_staged C supported sysroot source new_options =
     rbind (source_name_parse source) (\<lambda>source.
     if \<not> supported then Inl ''This feature requires a newer ostree for bootconfig-extra support''
     else rbind (ok_or ''Not booted into an ostree deployment'' (ls_booted sysroot)) (\<lambda>booted.
     let base = (case ls_staged sysroot of Some d \<Rightarrow> d | None \<Rightarrow> booted) in
     rbind (ok_or ''Base deployment has no bootconfig'' (ld_bootconfig base)) (\<lambda>cfg.
     let current_options = (case cfg ''options'' of Some s \<Rightarrow> s | None \<Rightarrow> []) in
     rbind (current_sources sysroot booted cfg) (\<lambda>source_options.
     let merged = compute_merged_options C current_options source_options source new_options in
     if c_text C merged = current_options \<and> is_source_unchanged (bt_get source_options source) new_options
     then Inr None
     else
       let merge = (case ls_merge sysroot of Some d \<Rightarrow> d | None \<Rightarrow> booted) in
       rbind (ok_or ''Base deployment has no origin'' (ld_origin base)) (\<lambda>origin.
       rbind (ok_or ''Merge deployment has no bootconfig'' (ld_bootconfig merge)) (\<lambda>merge_cfg.
       Inr (Some \<lparr>sr_stateroot = ld_stateroot booted, sr_commit = ld_csum base, sr_origin = origin,
                  sr_bootconfig = update_source_keys source_options source new_options merge_cfg,
                  sr_kargs = map (c_str C) (c_iter C merged)\<rparr>)))))))"

section \<open>What is recorded\<close>

lemma bt_wf_insert: "bt_wf m \<Longrightarrow> bt_wf (bt_insert k v m)"
  by (simp add: bt_insert_def bt_wf_update)

lemma bt_wf_foldl: "(\<And>m x. bt_wf m \<Longrightarrow> bt_wf (f m x)) \<Longrightarrow> bt_wf m \<Longrightarrow> bt_wf (foldl f m xs)"
  by (induction xs arbitrary: m) auto

lemma bt_wf_extract: "bt_wf (extract_source_options_from_bls content)"
  unfolding extract_source_options_from_bls_def
  by (rule bt_wf_foldl) (auto intro: bt_wf_insert split: option.split prod.split)

lemma bt_wf_booted: "bt_wf (booted_sources cfg content)"
  unfolding booted_sources_def
  by (rule bt_wf_foldl) (auto intro: bt_wf_insert split: option.split prod.split)

lemma bt_wf_current: "current_sources sysroot booted cfg = Inr so \<Longrightarrow> bt_wf so"
  by (auto simp: current_sources_def rbind_Inr_iff Let_def bt_wf_extract bt_wf_booted
      intro!: bt_wf_foldl bt_wf_insert split: if_splits option.splits prod.splits)

text \<open>The value of a key after the updates.\<close>

lemma foldl_clear:
  "foldl (\<lambda>cfg (name, _). cfg(P @ name \<mapsto> [])) cfg so (P @ n)
     = (if n \<in> fst ` set so then Some [] else cfg (P @ n))"
  by (induction so arbitrary: cfg) auto

lemma foldl_set:
  "distinct (map fst so) \<Longrightarrow>
   foldl (\<lambda>cfg (name, value). if name \<noteq> source then cfg(P @ name \<mapsto> value) else cfg) cfg so (P @ n)
     = (if n \<noteq> source \<and> n \<in> fst ` set so then map_of so n else cfg (P @ n))"
proof (induction so arbitrary: cfg)
  case (Cons e so)
  then show ?case by (cases e) (auto simp: image_iff)
qed simp

lemma update_source_keys_at:
  assumes "bt_wf so"
  shows "update_source_keys so source new cfg (OPTIONS_SOURCE_KEY_PREFIX @ n) =
    (if n = source then (case new of Some v \<Rightarrow> Some v
                         | None \<Rightarrow> if n \<in> fst ` set so then Some [] else cfg (OPTIONS_SOURCE_KEY_PREFIX @ n))
     else (case bt_get so n of Some v \<Rightarrow> Some v | None \<Rightarrow> cfg (OPTIONS_SOURCE_KEY_PREFIX @ n)))"
proof -
  have "map_of so n = None \<longleftrightarrow> n \<notin> fst ` set so" by (simp add: map_of_eq_None_iff)
  then show ?thesis using bt_wf_distinct [OF assms]
    by (auto simp: update_source_keys_def Let_def foldl_set foldl_clear bls_key_def split: option.splits)
qed

text \<open>The sources a boot configuration records: an empty value counts as none.\<close>

definition nonempty :: "string option \<Rightarrow> string option" where
  "nonempty x = (case x of Some v \<Rightarrow> if v = [] then None else Some v | None \<Rightarrow> None)"

definition recorded :: "bootconfig \<Rightarrow> string \<Rightarrow> string option" where
  "recorded cfg n = nonempty (cfg (OPTIONS_SOURCE_KEY_PREFIX @ n))"

context kernel_cmdline
begin

lemma merged_set:
  "set (c_iter C (compute_merged_options C opts so source new)) =
     (set (c_iter C (c_from C opts))
        - (case bt_get so source of Some old \<Rightarrow> set (c_iter C (c_from C old)) | None \<Rightarrow> {}))
     \<union> (case nonempty new of Some n \<Rightarrow> set (c_iter C (c_from C n)) | None \<Rightarrow> {})"
  by (auto simp: compute_merged_options_def Let_def nonempty_def set_fold_add iter_fold_remove split: option.splits)

lemma merged_prefix:
  "\<exists>rest. c_iter C (compute_merged_options C opts so source new) =
     filter (\<lambda>p. \<forall>old. bt_get so source = Some old \<longrightarrow> p \<notin> set (c_iter C (c_from C old))) (c_iter C (c_from C opts))
     @ rest"
proof -
  let ?m = "case bt_get so source of
      Some old \<Rightarrow> fold (c_remove_exact C) (c_iter C (c_from C old)) (c_from C opts) | None \<Rightarrow> c_from C opts"
  have m: "c_iter C ?m = filter (\<lambda>p. \<forall>old. bt_get so source = Some old \<longrightarrow> p \<notin> set (c_iter C (c_from C old))) (c_iter C (c_from C opts))"
    by (cases "bt_get so source") (simp_all add: iter_fold_remove)
  have p: "\<exists>rest. c_iter C (fold (c_add C) ps x) = c_iter C x @ rest" for ps x
    using iter_fold_add_prefix [of ps x] by blast
  define m0 where "m0 = ?m"
  have "\<exists>rest. c_iter C (compute_merged_options C opts so source new) = c_iter C m0 @ rest"
    unfolding compute_merged_options_def Let_def m0_def [symmetric] by (cases new) (simp_all add: p)
  then show ?thesis unfolding m0_def m .
qed

end

lemma set_options_steps:
  assumes "set_options_for_source_staged C supported sysroot source new = Inr (Some req)"
  obtains booted base cfg so merge origin merge_cfg where
    "ls_booted sysroot = Some booted" "base = (case ls_staged sysroot of Some d \<Rightarrow> d | None \<Rightarrow> booted)"
    "ld_bootconfig base = Some cfg" "current_sources sysroot booted cfg = Inr so"
    "merge = (case ls_merge sysroot of Some d \<Rightarrow> d | None \<Rightarrow> booted)"
    "ld_origin base = Some origin" "ld_bootconfig merge = Some merge_cfg"
    "req = \<lparr>sr_stateroot = ld_stateroot booted, sr_commit = ld_csum base, sr_origin = origin,
       sr_bootconfig = update_source_keys so source new merge_cfg,
       sr_kargs = map (c_str C) (c_iter C (compute_merged_options C
          (case cfg ''options'' of Some s \<Rightarrow> s | None \<Rightarrow> []) so source new))\<rparr>"
  using assms
  by (auto simp: set_options_for_source_staged_def source_name_parse_def rbind_Inr_iff ok_or_Inr_iff Let_def
      split: if_splits)


section \<open>Reading recorded sources back\<close>

text \<open>A line of an entry for a source.\<close>

definition print_source :: "string \<times> string \<Rightarrow> string" where
  "print_source e = bls_key (fst e) @ SPC # snd e"

definition good_source :: "string \<times> string \<Rightarrow> bool" where
  "good_source e \<longleftrightarrow> is_ok (source_name_parse (fst e)) \<and> snd e \<noteq> [] \<and> no_lead_ws (snd e) \<and> no_trail_ws (snd e)
     \<and> NL \<notin> set (snd e) \<and> CR \<notin> set (snd e)"

lemma ws_no_name:
  "is_ascii_ws c \<Longrightarrow> \<not> (is_alnum c \<or> c = CHR ''-'' \<or> c = CHR ''_'')"
  "\<not> (is_alnum NL \<or> NL = CHR ''-'' \<or> NL = CHR ''_'')" "\<not> (is_alnum CR \<or> CR = CHR ''-'' \<or> CR = CHR ''_'')"
  by (auto simp: is_ascii_ws_def is_alnum_def less_eq_char_def)

lemma source_name_chars:
  assumes "is_ok (source_name_parse n)"
  shows "n \<noteq> []" "\<forall>c \<in> set n. \<not> is_ascii_ws c \<and> c \<noteq> NL \<and> c \<noteq> CR"
  using assms ws_no_name by (auto simp: source_name_parse_def list_all_iff split: if_splits)

lemma split_once_ws_append: "\<forall>c \<in> set a. \<not> is_ascii_ws c \<Longrightarrow> split_once_ws (a @ SPC # b) = Some (a, b)"
  by (induction a) (auto simp: is_ascii_ws_def)

lemma source_line_print: "good_source (n, v) \<Longrightarrow> source_line (print_source (n, v)) = Some (n, v)"
proof -
  assume g: "good_source (n, v)"
  then have v: "v \<noteq> []" "no_lead_ws v" "no_trail_ws v" and n: "is_ok (source_name_parse n)"
    by (simp_all add: good_source_def)
  have p: "print_source (n, v) = (OPTIONS_SOURCE_KEY_PREFIX @ n) @ SPC # v" by (simp add: print_source_def bls_key_def)
  have "no_lead_ws ((OPTIONS_SOURCE_KEY_PREFIX @ n) @ SPC # v)"
    by (rule no_lead_append) (simp_all add: OPTIONS_SOURCE_KEY_PREFIX_def)
  moreover have "no_trail_ws ((OPTIONS_SOURCE_KEY_PREFIX @ n) @ SPC # v)" by (rule no_trail_key_value [OF v(3,1)])
  ultimately have "trim (print_source (n, v)) = print_source (n, v)" unfolding p by (rule trim_id)
  then show ?thesis using source_name_chars [OF n] v
    by (simp add: source_line_def p split_once_ws_append trim_id)
qed

lemma print_source_line:
  assumes "good_source e"
  shows "NL \<notin> set (print_source e)" "strip_cr (print_source e) = print_source e"
proof -
  obtain n v where e: "e = (n, v)" by (cases e)
  with assms have n: "is_ok (source_name_parse n)" and v: "NL \<notin> set v" "CR \<notin> set v" by (simp_all add: good_source_def)
  have "NL \<notin> set (print_source e)" "CR \<notin> set (print_source e)"
    using source_name_chars [OF n] v by (auto simp: e print_source_def bls_key_def OPTIONS_SOURCE_KEY_PREFIX_def)
  then show "NL \<notin> set (print_source e)" "strip_cr (print_source e) = print_source e"
    by (auto intro!: strip_cr_id simp: suffix_def)
qed

lemma str_lines_sources:
  "list_all good_source m \<Longrightarrow> str_lines (concat (map (\<lambda>e. print_source e @ [NL]) m)) = map print_source m"
  by (induction m) (simp_all add: print_source_line)

lemma bt_insert_last: "bt_wf (m @ [(k, v)]) \<Longrightarrow> bt_insert k v m = m @ [(k, v)]"
proof (induction m)
  case (Cons e m)
  then have "fst e < k" "bt_wf (m @ [(k, v)])" by (auto simp: bt_wf_def sorted_wrt_append)
  with Cons show ?case by (cases e) (auto simp: bt_insert_def)
qed (simp add: bt_insert_def)

lemma bt_rebuild: "bt_wf m \<Longrightarrow> foldl (\<lambda>m (k, v). bt_insert k v m) [] m = m"
proof (induction m rule: rev_induct)
  case (snoc e m)
  then have "bt_wf m" by (auto simp: bt_wf_def sorted_wrt_append)
  with snoc bt_insert_last [of m "fst e" "snd e"] show ?case by (cases e) simp
qed simp

text \<open>
  What is recorded is read back: a boot entry with a line for each source, for valid source
  names and nonempty trimmed arguments on one line, yields exactly these sources.
\<close>

theorem source_lines_roundtrip:
  assumes "bt_wf m" and "list_all good_source m"
  shows "extract_source_options_from_bls (concat (map (\<lambda>e. print_source e @ [NL]) m)) = m"
proof -
  have "foldl (\<lambda>sources line. case source_line line of None \<Rightarrow> sources
         | Some (n, v) \<Rightarrow> bt_insert n v sources) acc (map print_source es)
      = foldl (\<lambda>m (k, v). bt_insert k v m) acc es" if "list_all good_source es" for acc es
    using that by (induction es arbitrary: acc) (auto simp: source_line_print)
  then show ?thesis
    using assms by (simp add: extract_source_options_from_bls_def str_lines_sources bt_rebuild)
qed

section \<open>Witnesses\<close>

theorem source_lines_roundtrip_witness:
  "extract_source_options_from_bls (''x-options-source-admin quiet'' @ [NL] @ ''x-options-source-tuned a=1 b'' @ [NL])
     = [(''admin'', ''quiet''), (''tuned'', ''a=1 b'')]"
proof -
  let ?m = "[(''admin'', ''quiet''), (''tuned'', ''a=1 b'')]"
  have p: "concat (map (\<lambda>e. print_source e @ [NL]) ?m)
      = ''x-options-source-admin quiet'' @ [NL] @ ''x-options-source-tuned a=1 b'' @ [NL]"
    by (simp add: print_source_def bls_key_def OPTIONS_SOURCE_KEY_PREFIX_def)
  have w: "bt_wf ?m" by code_simp
  have g: "list_all good_source ?m"
    by (simp add: good_source_def no_lead_solid no_trail_solid) (simp add: source_name_parse_def is_alnum_def less_eq_char_def)
  show ?thesis using source_lines_roundtrip [OF w g] unfolding p .
qed

definition demo_booted :: "unit le_deployment" where
  "demo_booted = \<lparr>ld_stateroot = ''default'', ld_bootcsum = ''abc'', ld_bootserial = 0, ld_csum = ''c1'',
     ld_origin = Some (), ld_bootconfig = Some [''options'' \<mapsto> ''root=a nohz'', ''x-options-source-tuned'' \<mapsto> ''nohz'']\<rparr>"

definition demo_entries :: "(string \<times> string) list" where
  "demo_entries = [(''ostree-1.conf'', ''title x'' @ [NL] @ ''options root=a nohz ostree=/ostree/boot.1/default/abc/0'' @ [NL]
     @ ''x-options-source-tuned nohz'')]"

definition demo_sysroot :: "unit le_sysroot" where
  "demo_sysroot = \<lparr>ls_booted = Some demo_booted, ls_staged = None, ls_merge = None, ls_entries = Some demo_entries,
     ls_staged_extra = None, ls_show_int = (\<lambda>i. if i = 0 then ''0'' else ''1'')\<rparr>"

definition demo_request :: "unit stage_request option res" where
  "demo_request = set_options_for_source_staged cmdline_ref True demo_sysroot ''tuned'' (Some ''isolcpus=1'')"

lemma demo_request_kargs:
  "map_sum id (map_option (\<lambda>r. (sr_commit r, sr_kargs r, recorded (sr_bootconfig r) ''tuned''))) demo_request
     = Inr (Some (''c1'', [''root=a'', ''isolcpus=1''], Some ''isolcpus=1''))"
  by code_simp

lemma map_sum_Some:
  assumes "map_sum id (map_option f) x = Inr (Some y)"
  obtains r where "x = Inr (Some r)" "f r = y"
  using assms by (cases x) auto


text \<open>
  Two sources are not independent when they share an argument: it occurs once in the options, and
  clearing one source removes it while the other still records it.
\<close>

theorem shared_argument_lost:
  "compute_merged_options cmdline_ref ''root=a'' [] ''admin'' (Some ''nohz'') = [''root=a'', ''nohz'']
   \<and> compute_merged_options cmdline_ref ''root=a nohz'' [(''admin'', ''nohz'')] ''tuned'' (Some ''nohz'') = [''root=a'', ''nohz'']
   \<and> compute_merged_options cmdline_ref ''root=a nohz'' [(''admin'', ''nohz''), (''tuned'', ''nohz'')] ''tuned'' None = [''root=a'']"
  by (intro conjI) code_simp+

text \<open>
  Removing a source a second time in the same boot stages again: the booted entry still lists the
  source, the staged configuration has the empty value that marks the removal, and an empty old
  value does not count as unchanged.
\<close>

theorem removal_not_idempotent:
  "map_sum id (\<lambda>r. r \<noteq> None) (set_options_for_source_staged cmdline_ref True
     (demo_sysroot\<lparr>ls_staged := Some (demo_booted\<lparr>ld_bootconfig :=
        Some [''options'' \<mapsto> ''root=a'', ''x-options-source-tuned'' \<mapsto> '''']\<rparr>)\<rparr>) ''tuned'' None) = Inr True"
  by code_simp

end
