(* ===== verification/Tar_Stream.thy ===== *)
theory Tar_Stream
  imports Rust_State Rust_Path Rust_Word
begin

text \<open>
  Tar streams as the crates \<^verbatim>\<open>tar/export.rs\<close>, \<^verbatim>\<open>tar/import.rs\<close> and \<^verbatim>\<open>tar/write.rs\<close> of \<^verbatim>\<open>ostree-ext\<close> see
  them, and the names of repository objects in a stream.

  A stream is the list of its entries. \<^verbatim>\<open>Utf8Path\<close> compares, strips prefixes and takes parents by
  components, so a path is its list of components here. The contents of an entry are its bytes, and
  the size in its header is their number. A pax extension belongs to the entry after it.
\<close>

section \<open>Paths as components\<close>

type_synonym cpath = "component list"

definition cp_file_name :: "cpath \<Rightarrow> string option" where
  "cp_file_name p = (if p = [] then None else case last p of Normal s \<Rightarrow> Some s | _ \<Rightarrow> None)"

definition cp_parent :: "cpath \<Rightarrow> cpath option" where
  "cp_parent p = (if p = [] \<or> last p = RootDir then None else Some (butlast p))"

text \<open>\<^verbatim>\<open>Path::file_stem\<close> of a file name.\<close>

definition path_file_stem :: "string \<Rightarrow> string" where
  "path_file_stem name =
     (if name = ''..'' then name
      else (case rsplit_once (CHR ''.'') name of
              Some (stem, ext) \<Rightarrow> if stem = [] then name else stem
            | None \<Rightarrow> name))"

text \<open>\<^verbatim>\<open>str::trim_end_matches\<close>.\<close>

definition trim_end_matches :: "string \<Rightarrow> string \<Rightarrow> string" where
  "trim_end_matches pat s = rev (strip_all [rev pat] (rev s))"

text \<open>A relative path given by its names.\<close>

abbreviation rel :: "string list \<Rightarrow> cpath" where
  "rel \<equiv> map Normal"

section \<open>Entries\<close>

datatype entry_type = Regular | Link | Symlink | Directory | OtherType

record tar_entry =
  te_path :: cpath
  te_type :: entry_type
  te_uid :: u64
  te_gid :: u64
  te_mode :: u32
  te_mtime :: u64
  te_link :: "string option"
  te_data :: string
  te_pax :: "(string \<times> string) list"

definition REPO_PREFIX :: cpath where
  "REPO_PREFIX = rel [''sysroot'', ''ostree'', ''repo'']"

section \<open>Objects\<close>

datatype objtype = T_Commit | T_CommitMeta | T_DirTree | T_DirMeta | T_File

fun obj_suffix :: "objtype \<Rightarrow> string" where
  "obj_suffix T_Commit = ''commit''"
| "obj_suffix T_CommitMeta = ''commitmeta''"
| "obj_suffix T_DirTree = ''dirtree''"
| "obj_suffix T_DirMeta = ''dirmeta''"
| "obj_suffix T_File = ''file''"

definition OBJDIR :: cpath where
  "OBJDIR = rel [''sysroot'', ''ostree'', ''repo'', ''objects'']"

text \<open>A checksum is 64 hexadecimal digits; its first two name a directory.\<close>

definition object_path :: "objtype \<Rightarrow> string \<Rightarrow> cpath" where
  "object_path t checksum = OBJDIR @ rel [take 2 checksum, drop 2 checksum @ ''.'' @ obj_suffix t]"

definition v1_xattrs_object_path :: "string \<Rightarrow> cpath" where
  "v1_xattrs_object_path checksum = OBJDIR @ rel [take 2 checksum, drop 2 checksum @ ''.file-xattrs-link'']"

section \<open>Reading object names\<close>

definition is_lower_hex :: "char \<Rightarrow> bool" where
  "is_lower_hex c = (CHR ''0'' \<le> c \<and> c \<le> CHR ''9'' \<or> CHR ''a'' \<le> c \<and> c \<le> CHR ''f'')"

definition validate_sha256 :: "string \<Rightarrow> string res" where
  "validate_sha256 input =
     (if length input \<noteq> 64 then Inl ''Invalid sha256 checksum (len)''
      else if \<not> list_all is_lower_hex input then Inl ''Invalid sha256 checksum''
      else Inr input)"

definition is_ascii :: "string \<Rightarrow> bool" where
  "is_ascii s = list_all (\<lambda>c. c < CHR 0x80) s"

definition objtype_from_string :: "string \<Rightarrow> objtype option" where
  "objtype_from_string t =
     (if t = ''commit'' then Some T_Commit
      else if t = ''commitmeta'' then Some T_CommitMeta
      else if t = ''dirtree'' then Some T_DirTree
      else if t = ''dirmeta'' then Some T_DirMeta
      else if t = ''file'' then Some T_File
      else None)"

definition parse_object_entry_path :: "cpath \<Rightarrow> (string \<times> string \<times> string) res" where
  "parse_object_entry_path path =
     rbind (ok_or ''Invalid path (no parent)'' (Option.bind (cp_parent path) cp_file_name)) (\<lambda>parentname.
     if \<not> (is_ascii parentname \<and> length parentname = 2) then Inl ''Invalid checksum parent''
     else rbind (ok_or ''Invalid path (dir)'' (cp_file_name path)) (\<lambda>name.
     rbind (ok_or ''Invalid objpath'' (path_extension name)) (\<lambda>objtype.
     Inr (parentname, name, objtype))))"

text \<open>The name is a single component, so that it has a stem.\<close>

definition parse_checksum :: "string \<Rightarrow> string \<Rightarrow> string res" where
  "parse_checksum parent name =
     (let checksum_rest = trim_end_matches ''.file'' (path_file_stem name) in
      if \<not> (is_ascii checksum_rest \<and> length checksum_rest = 62) then Inl ''Invalid checksum part''
      else validate_sha256 (parent @ checksum_rest))"

definition parse_xattrs_link_target :: "cpath \<Rightarrow> string res" where
  "parse_xattrs_link_target path =
     rbind (parse_object_entry_path path) (\<lambda>(parent, rest, _). parse_checksum parent rest)"

definition parse_metadata_entry :: "cpath \<Rightarrow> (string \<times> objtype) res" where
  "parse_metadata_entry path =
     rbind (parse_object_entry_path path) (\<lambda>(parentname, name, objtype).
     rbind (parse_checksum parentname name) (\<lambda>checksum.
     rbind (ok_or ''Invalid object type'' (objtype_from_string objtype)) (\<lambda>objtype.
     Inr (checksum, objtype))))"

section \<open>The names of objects read back\<close>

definition is_checksum :: "string \<Rightarrow> bool" where
  "is_checksum c = (length c = 64 \<and> list_all is_lower_hex c)"

lemma hex_chars: "is_lower_hex c \<Longrightarrow> c < CHR 0x80 \<and> c \<noteq> CHR ''.'' \<and> c \<noteq> CHR ''/''"
  unfolding is_lower_hex_def
  by (auto simp: less_char_def less_eq_char_def)

lemma no_dot_ext: "CHR ''.'' \<notin> set b \<Longrightarrow> rsplit_once (CHR ''.'') (a @ CHR ''.'' # b) = Some (a, b)"
  by (simp add: rsplit_once_Some_iff)

lemma trim_end_matches_id: "\<not> suffix pat s \<Longrightarrow> trim_end_matches pat s = s"
  by (simp add: trim_end_matches_def strip_all_id suffix_conv_prefix_rev)

lemma is_checksum_parts:
  assumes "is_checksum c"
  shows "length (take 2 c) = 2" "is_ascii (take 2 c)" "is_ascii (drop 2 c)" "length (drop 2 c) = 62"
    "CHR ''.'' \<notin> set (drop 2 c)" "drop 2 c \<noteq> []" "validate_sha256 c = Inr c"
proof -
  have h: "\<forall>x \<in> set c. is_lower_hex x" and l: "length c = 64"
    using assms by (auto simp: is_checksum_def list_all_iff)
  show "is_ascii (take 2 c)" "is_ascii (drop 2 c)" "CHR ''.'' \<notin> set (drop 2 c)"
    using h hex_chars by (auto simp: is_ascii_def list_all_iff dest!: in_set_takeD in_set_dropD)
  show "length (take 2 c) = 2" "length (drop 2 c) = 62" "drop 2 c \<noteq> []" "validate_sha256 c = Inr c"
    using assms l by (auto simp: validate_sha256_def is_checksum_def)
qed

lemma parse_object_path_gen:
  assumes "is_checksum c" and "CHR ''.'' \<notin> set ext"
  shows "parse_object_entry_path (p @ rel [take 2 c, drop 2 c @ ''.'' @ ext]) =
           Inr (take 2 c, drop 2 c @ ''.'' @ ext, ext)"
    and "parse_checksum (take 2 c) (drop 2 c @ ''.'' @ ext) = Inr c"
proof -
  note parts = is_checksum_parts [OF assms(1)]
  have ne: "drop 2 c @ ''.'' @ ext \<noteq> ''..''" using parts(4) by (auto dest: arg_cong [where f = length])
  have split: "rsplit_once (CHR ''.'') (drop 2 c @ ''.'' @ ext) = Some (drop 2 c, ext)"
    using no_dot_ext [OF assms(2)] by simp
  have "\<not> suffix ''.file'' (drop 2 c)"
    using parts(5) by (auto simp: suffix_def)
  then have trim: "trim_end_matches ''.file'' (drop 2 c) = drop 2 c" by (rule trim_end_matches_id)
  show "parse_object_entry_path (p @ rel [take 2 c, drop 2 c @ ''.'' @ ext]) =
           Inr (take 2 c, drop 2 c @ ''.'' @ ext, ext)"
    using parts ne split by (simp add: parse_object_entry_path_def cp_parent_def cp_file_name_def
        path_extension_def butlast_append)
  show "parse_checksum (take 2 c) (drop 2 c @ ''.'' @ ext) = Inr c"
    using parts ne split trim by (simp add: parse_checksum_def path_file_stem_def Let_def)
qed

section \<open>The repository\<close>

text \<open>
  An ostree repository as the tar code uses it: metadata objects as their serialized bytes, content
  objects, detached metadata, and the commits that are marked as partial. The formats and checksums
  of ostree are the fields of \<^verbatim>\<open>ostree_ops\<close>; \<^verbatim>\<open>oe_tar_link\<close> is what \<^verbatim>\<open>append_link\<close> of the tar library
  stores for a link target.
\<close>

datatype file_body = RegularFile string | SymbolicLink string

record file_obj =
  fo_uid :: u32
  fo_gid :: u32
  fo_mode :: u32
  fo_xattrs :: string
  fo_body :: file_body

record repo =
  rp_meta :: "objtype \<Rightarrow> string \<Rightarrow> string option"
  rp_files :: "string \<Rightarrow> file_obj option"
  rp_detached :: "string \<Rightarrow> string option"
  rp_partial :: "string set"

record dirtree_obj =
  do_files :: "(string \<times> string) list"
  do_dirs :: "(string \<times> string \<times> string) list"

record dirmeta_obj =
  dm_uid :: u32
  dm_gid :: u32
  dm_mode :: u32

record ostree_ops =
  oe_meta_csum :: "objtype \<Rightarrow> string \<Rightarrow> string"
  oe_file_csum :: "file_obj \<Rightarrow> string"
  oe_sha256 :: "string \<Rightarrow> string"
  oe_normal_form :: "objtype \<Rightarrow> string \<Rightarrow> string"
  oe_verify :: "string \<Rightarrow> string \<Rightarrow> string \<Rightarrow> string res"
  oe_commit_root :: "string \<Rightarrow> string \<times> string"
  oe_dirtree :: "string \<Rightarrow> dirtree_obj"
  oe_dirmeta :: "string \<Rightarrow> dirmeta_obj"
  oe_xattr_list :: "string \<Rightarrow> (string \<times> string) list"
  oe_symlink_mode :: u32
  oe_tar_link :: "string \<Rightarrow> string"

definition load_variant :: "repo \<Rightarrow> objtype \<Rightarrow> string \<Rightarrow> string outcome" where
  "load_variant r t c = ok_or (Err ''No such metadata object'') (rp_meta r t c)"

definition load_file :: "repo \<Rightarrow> string \<Rightarrow> file_obj outcome" where
  "load_file r c = ok_or (Err ''Couldn't find file object'') (rp_files r c)"

end
