(* ===== verification/Tar_Export.thy ===== *)
theory Tar_Export
  imports Tar_Stream
begin

text \<open>
  Exporting an ostree commit to a tar stream (\<^verbatim>\<open>crates/ostree-ext/src/tar/export.rs\<close>): the repository
  objects under \<^verbatim>\<open>sysroot/ostree/repo\<close> and a checkout as hard links to them. The writer is a record of
  the entries written so far and the sets of objects already written.
\<close>

section \<open>Paths\<close>

definition map_path_inner :: "cpath \<Rightarrow> cpath \<Rightarrow> cpath \<Rightarrow> cpath" where
  "map_path_inner p from to =
     (case strip_prefix from p of Some r \<Rightarrow> if length r > 0 then to @ r else to | None \<Rightarrow> p)"

definition map_path :: "cpath \<Rightarrow> cpath" where
  "map_path p = map_path_inner p (CurDir # rel [''usr'', ''etc'']) (CurDir # rel [''etc''])"

definition unmap_path :: "cpath \<Rightarrow> cpath" where
  "unmap_path p = map_path_inner p (rel [''etc'']) (rel [''usr'', ''etc''])"

definition map_path_v1 :: "cpath \<Rightarrow> cpath" where
  "map_path_v1 p =
     (if starts_with (rel [''usr'', ''etc'']) p
      then (case strip_prefix (rel [''usr'']) p of Some r \<Rightarrow> r | None \<Rightarrow> p)
      else p)"

text \<open>\<^verbatim>\<open>strip_prefix("./")\<close> strips the component for the current directory.\<close>

definition tar_strip :: "cpath \<Rightarrow> cpath" where
  "tar_strip p =
     (case strip_prefix [RootDir] p of
        Some r \<Rightarrow> r
      | None \<Rightarrow> (case strip_prefix [CurDir] p of Some r \<Rightarrow> r | None \<Rightarrow> p))"

definition path_equivalent_for_tar :: "cpath \<Rightarrow> cpath \<Rightarrow> bool" where
  "path_equivalent_for_tar a b = (tar_strip a = tar_strip b)"

definition path_for_tar_v1 :: "cpath \<Rightarrow> cpath" where
  "path_for_tar_v1 p = map_path_v1 (case strip_prefix [RootDir] p of Some r \<Rightarrow> r | None \<Rightarrow> p)"

fun has_double_slash :: "string \<Rightarrow> bool" where
  "has_double_slash (a # b # s) = (a = CHR ''/'' \<and> b = CHR ''/'' \<or> has_double_slash (b # s))"
| "has_double_slash _ = False"

definition symlink_is_denormal :: "string \<Rightarrow> bool" where
  "symlink_is_denormal target = has_double_slash target"

section \<open>The writer\<close>

record writer =
  w_out :: "tar_entry list"
  w_pax :: "(string \<times> string) list"
  w_raw :: bool
  wrote_initdirs :: bool
  structure_only :: bool
  wrote_vartmp :: bool
  wrote_dirtree :: "string set"
  wrote_dirmeta :: "string set"
  wrote_content :: "string set"

definition writer_new :: writer where
  "writer_new = \<lparr>w_out = [], w_pax = [], w_raw = False, wrote_initdirs = False, structure_only = False,
     wrote_vartmp = False, wrote_dirtree = {}, wrote_dirmeta = {}, wrote_content = {}\<rparr>"

text \<open>\<^verbatim>\<open>tar::Header::new_gnu\<close>, and appending an entry with the pending extensions.\<close>

definition new_gnu :: tar_entry where
  "new_gnu = \<lparr>te_path = [], te_type = Regular, te_uid = 0, te_gid = 0, te_mode = 0, te_mtime = 0,
     te_link = None, te_data = [], te_pax = []\<rparr>"

definition tar_append :: "tar_entry \<Rightarrow> writer \<Rightarrow> writer" where
  "tar_append e w = w\<lparr>w_out := w_out w @ [e\<lparr>te_pax := w_pax w\<rparr>], w_pax := []\<rparr>"

definition filter_mode :: "u32 \<Rightarrow> u32" where
  "filter_mode mode = mode AND NOT S_IFMT"

definition append_default_dir :: "cpath \<Rightarrow> writer \<Rightarrow> writer" where
  "append_default_dir path =
     tar_append (new_gnu\<lparr>te_path := path, te_type := Directory, te_uid := 0, te_gid := 0, te_mode := 493\<rparr>)"

definition tar_append_default_data :: "cpath \<Rightarrow> string \<Rightarrow> writer \<Rightarrow> writer" where
  "tar_append_default_data path buf =
     tar_append (new_gnu\<lparr>te_path := path, te_type := Regular, te_uid := 0, te_gid := 0, te_mode := 420,
       te_data := buf\<rparr>)"

definition hex_digit :: "nat \<Rightarrow> char" where
  "hex_digit n = ''0123456789abcdef'' ! n"

text \<open>\<^verbatim>\<open>{d:02x}\<close>.\<close>

definition hex2 :: "nat \<Rightarrow> string" where
  "hex2 d = [hex_digit (d div 16), hex_digit (d mod 16)]"

definition REPO_CONFIG :: string where
  "REPO_CONFIG = ''[core]'' @ [NL] @ ''repo_version=1'' @ [NL] @ ''mode=bare-split-xattrs'' @ [NL]"

definition repo_subdirs :: "string list list" where
  "repo_subdirs = [[''extensions''], [''refs''], [''refs'', ''heads''], [''refs'', ''mirrors''],
     [''refs'', ''remotes''], [''state''], [''tmp''], [''tmp'', ''cache'']]"

definition write_repo_structure :: "writer \<Rightarrow> writer" where
  "write_repo_structure w =
     (if wrote_initdirs w then w
      else
        let w = fold append_default_dir [take 1 OBJDIR, take 2 OBJDIR, take 3 OBJDIR, OBJDIR] w;
            w = fold (\<lambda>d. append_default_dir (OBJDIR @ rel [hex2 d])) [0..<256] w;
            w = fold (\<lambda>d. append_default_dir (REPO_PREFIX @ rel d)) repo_subdirs w;
            w = tar_append_default_data (REPO_PREFIX @ rel [''config'']) REPO_CONFIG w
        in w\<lparr>wrote_initdirs := True\<rparr>)"

section \<open>Objects\<close>

text \<open>\<^verbatim>\<open>append\<close>: a metadata object, unless it is there already.\<close>

definition append_meta :: "objtype \<Rightarrow> string \<Rightarrow> string \<Rightarrow> writer \<Rightarrow> writer outcome" where
  "append_meta t checksum v w =
     (case t of
        T_Commit \<Rightarrow> Inr (tar_append_default_data (object_path t checksum) v w)
      | T_CommitMeta \<Rightarrow> Inr (tar_append_default_data (object_path t checksum) v w)
      | T_DirTree \<Rightarrow> Inr (if checksum \<in> wrote_dirtree w then w
          else tar_append_default_data (object_path t checksum) v
                 (w\<lparr>wrote_dirtree := insert checksum (wrote_dirtree w)\<rparr>))
      | T_DirMeta \<Rightarrow> Inr (if checksum \<in> wrote_dirmeta w then w
          else tar_append_default_data (object_path t checksum) v
                 (w\<lparr>wrote_dirmeta := insert checksum (wrote_dirmeta w)\<rparr>))
      | T_File \<Rightarrow> Inl (Panic ''Unexpected object type''))"

definition append_ostree_xattrs :: "string \<Rightarrow> string \<Rightarrow> writer \<Rightarrow> writer" where
  "append_ostree_xattrs checksum xattrs = tar_append_default_data (v1_xattrs_object_path checksum) xattrs"

text \<open>\<^verbatim>\<open>CStr::from_bytes_with_nul(k).unwrap()\<close>.\<close>

definition c_str_from :: "string \<Rightarrow> string outcome" where
  "c_str_from k =
     (if k \<noteq> [] \<and> last k = CHR 0x00 \<and> CHR 0x00 \<notin> set (butlast k) then Inr (butlast k)
      else Inl (Panic ''called `Result::unwrap()` on an `Err` value''))"

fun pax_xattrs :: "(string \<times> string) list \<Rightarrow> (string \<times> string) list outcome" where
  "pax_xattrs [] = Inr []"
| "pax_xattrs ((k, v) # xs) =
     rbind (c_str_from k) (\<lambda>k. rbind (pax_xattrs xs) (\<lambda>rest.
       Inr (if k = ''security.selinux'' then rest else (''SCHILY.xattr.'' @ k, v) # rest)))"

definition append_tarstream_xattrs :: "ostree_ops \<Rightarrow> string \<Rightarrow> writer \<Rightarrow> writer outcome" where
  "append_tarstream_xattrs E xattrs w =
     rbind (pax_xattrs (oe_xattr_list E xattrs)) (\<lambda>pax. Inr (w\<lparr>w_pax := w_pax w @ pax\<rparr>))"

text \<open>The header of a content object; for a regular file its size is the second component.\<close>

definition content_header :: "file_obj \<Rightarrow> string \<Rightarrow> tar_entry \<times> nat" where
  "content_header f checksum =
     (let h = new_gnu\<lparr>te_path := object_path T_File checksum, te_uid := ucast (fo_uid f),
                te_gid := ucast (fo_gid f), te_mode := filter_mode (fo_mode f)\<rparr>
      in case fo_body f of
           RegularFile data \<Rightarrow> (h\<lparr>te_type := Regular\<rparr>, length data)
         | SymbolicLink _ \<Rightarrow> (h\<lparr>te_type := Symlink\<rparr>, 0))"

text \<open>\<^verbatim>\<open>set_link_name_literal\<close> fails for a name that does not fit into its field of the header.\<close>

definition LINK_FIELD_SIZE :: nat where "LINK_FIELD_SIZE = 100"

definition append_body :: "ostree_ops \<Rightarrow> file_obj \<Rightarrow> tar_entry \<Rightarrow> writer \<Rightarrow> writer outcome" where
  "append_body E f h w =
     (case fo_body f of
        RegularFile data \<Rightarrow> Inr (tar_append (h\<lparr>te_data := data\<rparr>) w)
      | SymbolicLink target \<Rightarrow>
          if symlink_is_denormal target
          then (if LINK_FIELD_SIZE < length target then Inl (Err ''Writing content symlink'')
                else Inr (tar_append (h\<lparr>te_link := Some target\<rparr>) w))
          else Inr (tar_append (h\<lparr>te_link := Some (oe_tar_link E target)\<rparr>) w))"

definition append_content ::
    "ostree_ops \<Rightarrow> repo \<Rightarrow> string \<Rightarrow> writer \<Rightarrow> ((tar_entry \<times> nat) \<times> writer) outcome" where
  "append_content E r checksum w =
     rbind (load_file r checksum) (\<lambda>f.
     let (h, sz) = content_header f checksum in
     if checksum \<in> wrote_content w then Inr ((h, sz), w)
     else
       let w = w\<lparr>wrote_content := insert checksum (wrote_content w)\<rparr>;
           w = append_ostree_xattrs checksum (fo_xattrs f) w
       in rbind (append_tarstream_xattrs E (fo_xattrs f) w) (\<lambda>w.
          rbind (append_body E f h w) (\<lambda>w. Inr ((h, sz), w))))"

text \<open>The text of a path.\<close>

definition cp_text :: "cpath \<Rightarrow> string" where
  "cp_text p = join_with [path_sep] (map component_str p)"

definition append_content_hardlink :: "cpath \<Rightarrow> tar_entry \<times> nat \<Rightarrow> cpath \<Rightarrow> writer \<Rightarrow> writer" where
  "append_content_hardlink srcpath h dest =
     (let is_regular_zerosized = (te_type (fst h) = Regular \<and> snd h = 0)
      in if is_regular_zerosized then tar_append ((fst h)\<lparr>te_path := dest\<rparr>)
         else tar_append ((fst h)\<lparr>te_path := dest, te_type := Link, te_link := Some (cp_text srcpath)\<rparr>))"

section \<open>The checkout\<close>

definition append_dir :: "cpath \<Rightarrow> dirmeta_obj \<Rightarrow> writer \<Rightarrow> writer" where
  "append_dir dirpath m =
     tar_append (new_gnu\<lparr>te_path := dirpath, te_type := Directory, te_uid := ucast (dm_uid m),
       te_gid := ucast (dm_gid m), te_mode := filter_mode (dm_mode m)\<rparr>)"

fun append_files ::
    "ostree_ops \<Rightarrow> repo \<Rightarrow> cpath \<Rightarrow> (string \<times> string) list \<Rightarrow> writer \<Rightarrow> writer outcome" where
  "append_files E r dirpath [] w = Inr w"
| "append_files E r dirpath ((name, checksum) # files) w =
     rbind (append_content E r checksum w) (\<lambda>(h, w).
     append_files E r dirpath files
       (append_content_hardlink (object_path T_File checksum) h (map_path (dirpath @ [Normal name])) w))"

text \<open>A directory tree object and its files; the result has the subdirectories.\<close>

definition append_dirtree_files ::
    "ostree_ops \<Rightarrow> repo \<Rightarrow> cpath \<Rightarrow> string \<Rightarrow> writer \<Rightarrow> ((string \<times> string \<times> string) list \<times> writer) outcome" where
  "append_dirtree_files E r dirpath checksum w =
     rbind (load_variant r T_DirTree checksum) (\<lambda>v.
     rbind (append_meta T_DirTree checksum v w) (\<lambda>w.
     rbind (if structure_only w then Inr w else append_files E r dirpath (do_files (oe_dirtree E v)) w) (\<lambda>w.
     Inr (do_dirs (oe_dirtree E v),
          if path_equivalent_for_tar dirpath (rel [''var'', ''tmp'']) then w\<lparr>wrote_vartmp := True\<rparr> else w))))"

text \<open>
  The recursion follows the directory trees of the repository; the first argument bounds its depth,
  and running out of it is the result None.
\<close>

fun append_dirtree ::
    "nat \<Rightarrow> ostree_ops \<Rightarrow> repo \<Rightarrow> cpath \<Rightarrow> string \<Rightarrow> bool \<Rightarrow> writer \<Rightarrow> writer outcome option"
  and append_dirs ::
    "nat \<Rightarrow> ostree_ops \<Rightarrow> repo \<Rightarrow> cpath \<Rightarrow> (string \<times> string \<times> string) list \<Rightarrow> bool \<Rightarrow> writer
       \<Rightarrow> writer outcome option" where
  "append_dirtree depth E r dirpath checksum is_root w =
     (case append_dirtree_files E r dirpath checksum w of
        Inl e \<Rightarrow> Some (Inl e)
      | Inr (dirs, w) \<Rightarrow>
          (case depth of
             0 \<Rightarrow> if dirs = [] then Some (Inr w) else None
           | Suc d \<Rightarrow> append_dirs d E r dirpath dirs is_root w))"
| "append_dirs d E r dirpath [] is_root w = Some (Inr w)"
| "append_dirs d E r dirpath ((name, contents_csum, meta_csum) # dirs) is_root w =
     (case rbind (load_variant r T_DirMeta meta_csum) (\<lambda>meta_v.
           rbind (append_meta T_DirMeta meta_csum meta_v w) (\<lambda>w. Inr (oe_dirmeta E meta_v, w))) of
        Inl e \<Rightarrow> Some (Inl e)
      | Inr (metadata, w) \<Rightarrow>
          if is_root \<and> name = ''sysroot'' then append_dirs d E r dirpath dirs is_root w
          else
            let subpath = map_path (dirpath @ [Normal name]) in
            case append_dirtree d E r subpath contents_csum False (append_dir subpath metadata w) of
              None \<Rightarrow> None
            | Some (Inl e) \<Rightarrow> Some (Inl e)
            | Some (Inr w) \<Rightarrow> append_dirs d E r dirpath dirs is_root w)"

definition append_standard_var :: "writer \<Rightarrow> writer" where
  "append_standard_var w =
     (if wrote_vartmp w then w
      else tar_append (new_gnu\<lparr>te_path := rel [''var'', ''tmp''], te_type := Directory,
             te_mode := filter_mode (16384 OR 1023)\<rparr>) w)"

definition append_commit_object :: "repo \<Rightarrow> string \<Rightarrow> string \<Rightarrow> writer \<Rightarrow> writer outcome" where
  "append_commit_object r commit_checksum commit_object w =
     rbind (append_meta T_Commit commit_checksum commit_object w) (\<lambda>w.
     case rp_detached r commit_checksum of
       Some commitmeta \<Rightarrow> append_meta T_CommitMeta commit_checksum commitmeta w
     | None \<Rightarrow> Inr w)"

definition write_commit ::
    "nat \<Rightarrow> ostree_ops \<Rightarrow> repo \<Rightarrow> string \<Rightarrow> string \<Rightarrow> writer \<Rightarrow> writer outcome option" where
  "write_commit depth E r commit_checksum commit_object w =
     (let (contents, metadata_checksum) = oe_commit_root E commit_object in
      case rbind (load_variant r T_DirMeta metadata_checksum) (\<lambda>metadata_v.
           let w = append_dir [CurDir] (oe_dirmeta E metadata_v) w in
           if \<not> w_raw w then
             let w = write_repo_structure w in
             rbind (append_commit_object r commit_checksum commit_object w)
               (append_meta T_DirMeta metadata_checksum metadata_v)
           else Inr w) of
        Inl e \<Rightarrow> Some (Inl e)
      | Inr w \<Rightarrow>
          map_option (\<lambda>res. rbind res (\<lambda>w. Inr (append_standard_var w)))
            (append_dirtree depth E r [CurDir] contents True w))"

section \<open>Exports\<close>

definition impl_export :: "nat \<Rightarrow> ostree_ops \<Rightarrow> repo \<Rightarrow> string \<Rightarrow> tar_entry list outcome option" where
  "impl_export depth E r commit_checksum =
     (case load_variant r T_Commit commit_checksum of
        Inl e \<Rightarrow> Some (Inl e)
      | Inr commit_object \<Rightarrow>
          map_option (\<lambda>res. rbind res (\<lambda>w. Inr (w_out w)))
            (write_commit depth E r commit_checksum commit_object writer_new))"

subsection \<open>Chunks\<close>

text \<open>
  The directories above a path, each once. \<^verbatim>\<open>stat\<close> is the metadata of a path in the commit.
\<close>

function write_parents_of ::
    "(cpath \<Rightarrow> dirmeta_obj outcome) \<Rightarrow> cpath \<Rightarrow> writer \<times> cpath set \<Rightarrow> (writer \<times> cpath set) outcome" where
  "write_parents_of stat path (w, cache) =
     (case cp_parent path of
        None \<Rightarrow> Inr (w, cache)
      | Some parent \<Rightarrow>
          if length parent = 0 then Inr (w, cache)
          else if parent \<in> cache then Inr (w, cache)
          else rbind (write_parents_of stat parent (w, cache)) (\<lambda>(w, cache).
               rbind (stat (unmap_path parent)) (\<lambda>m.
               Inr (append_dir parent m w, insert parent cache))))"
  by pat_completeness auto

termination
  by (relation "measure (\<lambda>(_, path, _). length path)") (auto simp: cp_parent_def split: if_splits)

fun write_paths ::
    "(cpath \<Rightarrow> dirmeta_obj outcome) \<Rightarrow> bool \<Rightarrow> cpath \<Rightarrow> tar_entry \<times> nat \<Rightarrow> cpath list
       \<Rightarrow> writer \<times> cpath set \<Rightarrow> (writer \<times> cpath set) outcome" where
  "write_paths stat create_parent_dirs objpath h [] (w, cache) = Inr (w, cache)"
| "write_paths stat create_parent_dirs objpath h (path # paths) (w, cache) =
     (let path = path_for_tar_v1 path in
      rbind (if create_parent_dirs then write_parents_of stat path (w, cache) else Inr (w, cache)) (\<lambda>(w, cache).
      write_paths stat create_parent_dirs objpath h paths (append_content_hardlink objpath h path w, cache)))"

fun write_objects ::
    "ostree_ops \<Rightarrow> repo \<Rightarrow> (cpath \<Rightarrow> dirmeta_obj outcome) \<Rightarrow> bool \<Rightarrow> (string \<times> cpath list) list
       \<Rightarrow> writer \<times> cpath set \<Rightarrow> (writer \<times> cpath set) outcome" where
  "write_objects E r stat create_parent_dirs [] wc = Inr wc"
| "write_objects E r stat create_parent_dirs ((checksum, paths) # chunk) (w, cache) =
     rbind (append_content E r checksum w) (\<lambda>(h, w).
     rbind (write_paths stat create_parent_dirs (object_path T_File checksum) h paths (w, cache))
       (write_objects E r stat create_parent_dirs chunk))"

definition write_chunk ::
    "ostree_ops \<Rightarrow> repo \<Rightarrow> (cpath \<Rightarrow> dirmeta_obj outcome) \<Rightarrow> bool \<Rightarrow> (string \<times> cpath list) list \<Rightarrow> writer
       \<Rightarrow> writer outcome" where
  "write_chunk E r stat create_parent_dirs chunk w =
     rbind (write_objects E r stat create_parent_dirs chunk (w, {})) (\<lambda>(w, _). Inr w)"

definition export_chunk ::
    "ostree_ops \<Rightarrow> repo \<Rightarrow> (cpath \<Rightarrow> dirmeta_obj outcome) \<Rightarrow> string \<Rightarrow> (string \<times> cpath list) list \<Rightarrow> bool
       \<Rightarrow> tar_entry list outcome" where
  "export_chunk E r stat commit chunk create_parent_dirs =
     rbind (load_variant r T_Commit commit) (\<lambda>_.
     rbind (write_chunk E r stat create_parent_dirs chunk (write_repo_structure writer_new)) (\<lambda>w. Inr (w_out w)))"

text \<open>The last chunk: the commit and all metadata objects with the directories, then its contents.\<close>

definition export_final_chunk ::
    "nat \<Rightarrow> ostree_ops \<Rightarrow> repo \<Rightarrow> (cpath \<Rightarrow> dirmeta_obj outcome) \<Rightarrow> string \<Rightarrow> (string \<times> cpath list) list \<Rightarrow> bool
       \<Rightarrow> tar_entry list outcome option" where
  "export_final_chunk depth E r stat commit_checksum remainder create_parent_dirs =
     (case load_variant r T_Commit commit_checksum of
        Inl e \<Rightarrow> Some (Inl e)
      | Inr commit_object \<Rightarrow>
          map_option (\<lambda>res. rbind res (\<lambda>w.
              rbind (write_chunk E r stat create_parent_dirs remainder (w\<lparr>structure_only := False\<rparr>)) (\<lambda>w.
              Inr (w_out w))))
            (write_commit depth E r commit_checksum commit_object (writer_new\<lparr>structure_only := True\<rparr>)))"

end
