(* ===== verification/Tar_Import.thy ===== *)
theory Tar_Import
  imports Tar_Stream
begin

text \<open>
  Importing a tar stream into an ostree repository (\<^verbatim>\<open>crates/ostree-ext/src/tar/import.rs\<close>). The importer
  is a state machine over the entries: extended attributes are cached by checksum, a reference to
  them waits for the content object that follows, and the mode says whether a commit or a set of
  content objects is imported. Writing with an expected checksum fails on a mismatch, as ostree does.
\<close>

section \<open>State\<close>

record import_stats =
  st_dirtree :: u32
  st_dirmeta :: u32
  st_regfile_small :: u32
  st_regfile_large :: u32
  st_symlinks :: u32

datatype importer_mode = Commit "string option" | ObjectSet "string list"

record importer =
  im_repo :: repo
  im_remote :: "string option"
  im_verify_text :: "string option"
  im_xattrs :: "string \<Rightarrow> string option"
  im_next_xattrs :: "(string \<times> string) option"
  im_stats :: import_stats
  im_data :: importer_mode

definition MAX_XATTR_SIZE :: nat where "MAX_XATTR_SIZE = 1024 * 1024"

definition MAX_METADATA_SIZE :: nat where "MAX_METADATA_SIZE = 10 * 1024 * 1024"

definition SMALL_REGFILE_SIZE :: nat where "SMALL_REGFILE_SIZE = 127 * 1024"

definition new_stats :: import_stats where
  "new_stats = \<lparr>st_dirtree = 0, st_dirmeta = 0, st_regfile_small = 0, st_regfile_large = 0, st_symlinks = 0\<rparr>"

definition new_for_commit :: "repo \<Rightarrow> string option \<Rightarrow> importer" where
  "new_for_commit r remote = \<lparr>im_repo = r, im_remote = remote, im_verify_text = None, im_xattrs = Map.empty,
     im_next_xattrs = None, im_stats = new_stats, im_data = Commit None\<rparr>"

definition new_for_object_set :: "repo \<Rightarrow> importer" where
  "new_for_object_set r = \<lparr>im_repo = r, im_remote = None, im_verify_text = None, im_xattrs = Map.empty,
     im_next_xattrs = None, im_stats = new_stats, im_data = ObjectSet []\<rparr>"

section \<open>Reading entries\<close>

definition validate_metadata_header :: "tar_entry \<Rightarrow> nat outcome" where
  "validate_metadata_header e =
     (if te_type e \<noteq> Regular then Inl (Err ''Invalid non-regular metadata object'')
      else if MAX_METADATA_SIZE < length (te_data e) then Inl (Err ''object exceeds size'')
      else Inr (length (te_data e)))"

definition try_u32 :: "u64 \<Rightarrow> u32 outcome" where
  "try_u32 x = (if uint x < 4294967296 then Inr (ucast x)
     else Inl (Err ''out of range integral type conversion attempted''))"

definition header_attrs :: "tar_entry \<Rightarrow> (u32 \<times> u32 \<times> u32) outcome" where
  "header_attrs e =
     rbind (try_u32 (te_uid e)) (\<lambda>uid. rbind (try_u32 (te_gid e)) (\<lambda>gid. Inr (uid, gid, te_mode e)))"

definition entry_to_variant :: "ostree_ops \<Rightarrow> objtype \<Rightarrow> tar_entry \<Rightarrow> string outcome" where
  "entry_to_variant E t e =
     rbind (validate_metadata_header e) (\<lambda>sz.
     if length (te_data e) \<noteq> sz then Inl (Panic ''assertion `left == right` failed'')
     else Inr (oe_normal_form E t (te_data e)))"

definition filter_entry :: "tar_entry \<Rightarrow> (tar_entry \<times> cpath) option" where
  "filter_entry e =
     (if te_type e = Directory then None
      else case strip_prefix REPO_PREFIX (te_path e) of
        Some path \<Rightarrow>
          if cp_file_name path = Some ''config'' \<or> starts_with (rel [''refs'']) path then None
          else Some (e, path)
      | None \<Rightarrow> None)"

section \<open>Writing objects\<close>

definition write_metadata ::
    "ostree_ops \<Rightarrow> objtype \<Rightarrow> string option \<Rightarrow> string \<Rightarrow> repo \<Rightarrow> (string \<times> repo) outcome" where
  "write_metadata E t expected v r =
     (let actual = oe_meta_csum E t v in
      if (case expected of Some c \<Rightarrow> c \<noteq> actual | None \<Rightarrow> False) then Inl (Err ''Corrupted metadata object'')
      else Inr (actual, r\<lparr>rp_meta := (rp_meta r)(t := (rp_meta r t)(actual \<mapsto> v))\<rparr>))"

definition write_file_obj :: "ostree_ops \<Rightarrow> string \<Rightarrow> file_obj \<Rightarrow> repo \<Rightarrow> (string \<times> repo) outcome" where
  "write_file_obj E expected f r =
     (let actual = oe_file_csum E f in
      if expected \<noteq> actual then Inl (Err ''Corrupted file object'')
      else Inr (actual, r\<lparr>rp_files := (rp_files r)(actual \<mapsto> f)\<rparr>))"

definition write_detached :: "string \<Rightarrow> string \<Rightarrow> repo \<Rightarrow> repo" where
  "write_detached checksum v r = r\<lparr>rp_detached := (rp_detached r)(checksum \<mapsto> v)\<rparr>"

definition mark_commit_partial :: "string \<Rightarrow> bool \<Rightarrow> repo \<Rightarrow> repo" where
  "mark_commit_partial checksum b r =
     r\<lparr>rp_partial := (if b then insert checksum (rp_partial r) else rp_partial r - {checksum})\<rparr>"

definition import_metadata ::
    "ostree_ops \<Rightarrow> tar_entry \<Rightarrow> string \<Rightarrow> objtype \<Rightarrow> importer \<Rightarrow> importer outcome" where
  "import_metadata E e checksum t im =
     rbind (case t of
         T_DirTree \<Rightarrow> rbind (entry_to_variant E T_DirTree e)
           (\<lambda>v. Inr (v, im\<lparr>im_stats := (im_stats im)\<lparr>st_dirtree := st_dirtree (im_stats im) + 1\<rparr>\<rparr>))
       | T_DirMeta \<Rightarrow> rbind (entry_to_variant E T_DirMeta e)
           (\<lambda>v. Inr (v, im\<lparr>im_stats := (im_stats im)\<lparr>st_dirmeta := st_dirmeta (im_stats im) + 1\<rparr>\<rparr>))
       | _ \<Rightarrow> Inl (Err ''Invalid metadata object type'')) (\<lambda>(v, im).
     rbind (write_metadata E t (Some checksum) v (im_repo im)) (\<lambda>(actual, r).
     if actual \<noteq> checksum then Inl (Panic ''assertion `left == right` failed'')
     else Inr (im\<lparr>im_repo := r\<rparr>)))"

text \<open>The loop that copies a large file through the buffer.\<close>

function copy_loop :: "string \<Rightarrow> string \<Rightarrow> string" where
  "copy_loop input w = (if input = [] then w else copy_loop (drop 16384 input) (w @ take 16384 input))"
  by pat_completeness auto

termination
  by (relation "measure (\<lambda>(input, _). length input)") auto

definition import_large_regfile_object ::
    "ostree_ops \<Rightarrow> tar_entry \<Rightarrow> nat \<Rightarrow> string \<Rightarrow> string \<Rightarrow> importer \<Rightarrow> importer outcome" where
  "import_large_regfile_object E e sz checksum xattrs im =
     rbind (header_attrs e) (\<lambda>(uid, gid, mode).
     rbind (write_file_obj E checksum \<lparr>fo_uid = uid, fo_gid = gid, fo_mode = S_IFREG OR mode,
            fo_xattrs = xattrs, fo_body = RegularFile (copy_loop (te_data e) [])\<rparr> (im_repo im)) (\<lambda>(c, r).
     Inr (im\<lparr>im_repo := r, im_stats := (im_stats im)\<lparr>st_regfile_large := st_regfile_large (im_stats im) + 1\<rparr>\<rparr>)))"

definition import_small_regfile_object ::
    "ostree_ops \<Rightarrow> tar_entry \<Rightarrow> nat \<Rightarrow> string \<Rightarrow> string \<Rightarrow> importer \<Rightarrow> importer outcome" where
  "import_small_regfile_object E e sz checksum xattrs im =
     rbind (header_attrs e) (\<lambda>(uid, gid, mode).
     if SMALL_REGFILE_SIZE < sz then Inl (Panic ''assertion failed: size <= SMALL_REGFILE_SIZE'')
     else rbind (write_file_obj E checksum \<lparr>fo_uid = uid, fo_gid = gid, fo_mode = S_IFREG OR mode,
            fo_xattrs = xattrs, fo_body = RegularFile (take sz (te_data e))\<rparr> (im_repo im)) (\<lambda>(c, r).
     Inr (im\<lparr>im_repo := r, im_stats := (im_stats im)\<lparr>st_regfile_small := st_regfile_small (im_stats im) + 1\<rparr>\<rparr>)))"

definition import_symlink_object ::
    "ostree_ops \<Rightarrow> tar_entry \<Rightarrow> string \<Rightarrow> string \<Rightarrow> importer \<Rightarrow> importer outcome" where
  "import_symlink_object E e checksum xattrs im =
     rbind (header_attrs e) (\<lambda>(uid, gid, _).
     rbind (ok_or (Err ''Invalid symlink'') (te_link e)) (\<lambda>target.
     rbind (write_file_obj E checksum \<lparr>fo_uid = uid, fo_gid = gid, fo_mode = oe_symlink_mode E,
            fo_xattrs = xattrs, fo_body = SymbolicLink target\<rparr> (im_repo im)) (\<lambda>(c, r).
     Inr (im\<lparr>im_repo := r, im_stats := (im_stats im)\<lparr>st_symlinks := st_symlinks (im_stats im) + 1\<rparr>\<rparr>))))"

definition import_content_object ::
    "ostree_ops \<Rightarrow> tar_entry \<Rightarrow> string \<Rightarrow> importer \<Rightarrow> importer outcome" where
  "import_content_object E e checksum im =
     (let sz = length (te_data e) in
      rbind (ok_or (Err ''Missing xattrs reference'') (im_next_xattrs im)) (\<lambda>(file_csum, xattrs_csum).
      let im = im\<lparr>im_next_xattrs := None\<rparr> in
      if checksum \<noteq> file_csum then Inl (Err ''Object mismatch, found xattrs'')
      else if rp_files (im_repo im) checksum \<noteq> None then Inr im
      else rbind (ok_or (Err ''Failed to find xattrs content'') (im_xattrs im xattrs_csum)) (\<lambda>xattrs.
      case te_type e of
        Regular \<Rightarrow>
          if SMALL_REGFILE_SIZE < sz then import_large_regfile_object E e sz checksum xattrs im
          else import_small_regfile_object E e sz checksum xattrs im
      | Symlink \<Rightarrow> import_symlink_object E e checksum xattrs im
      | _ \<Rightarrow> Inl (Err ''Invalid tar entry''))))"

section \<open>Extended attributes\<close>

definition cache_xattrs_content ::
    "ostree_ops \<Rightarrow> tar_entry \<Rightarrow> string option \<Rightarrow> importer \<Rightarrow> (string \<times> importer) outcome" where
  "cache_xattrs_content E e expected im =
     (if te_type e \<noteq> Regular then Inl (Err ''Invalid xattr entry'')
      else if MAX_XATTR_SIZE < length (te_data e) then Inl (Err ''Invalid xattr size'')
      else
        let contents = te_data e; xattrs_checksum = oe_sha256 E contents in
        if (case expected of Some input \<Rightarrow> input \<noteq> xattrs_checksum | None \<Rightarrow> False)
        then Inl (Err ''Checksum mismatch'')
        else Inr (xattrs_checksum, im\<lparr>im_xattrs := (im_xattrs im)(xattrs_checksum \<mapsto> contents)\<rparr>))"

definition process_file_xattrs :: "ostree_ops \<Rightarrow> tar_entry \<Rightarrow> string \<Rightarrow> importer \<Rightarrow> importer outcome" where
  "process_file_xattrs E e checksum im =
     rbind (cache_xattrs_content E e (Some checksum) im) (\<lambda>(_, im). Inr im)"

definition process_file_xattrs_link ::
    "ostree_ops \<Rightarrow> tar_entry \<Rightarrow> string \<Rightarrow> importer \<Rightarrow> importer outcome" where
  "process_file_xattrs_link E e checksum im =
     (if im_next_xattrs im \<noteq> None then Inl (Err ''Found previous dangling xattrs for file object'')
      else rbind (case te_type e of
          Link \<Rightarrow> rbind (ok_or (Err ''No xattrs link content'') (te_link e)) (\<lambda>target.
                  rbind (lift_res (parse_xattrs_link_target (path_components target))) (\<lambda>c. Inr (c, im)))
        | Regular \<Rightarrow> cache_xattrs_content E e None im
        | _ \<Rightarrow> Inl (Err ''Unexpected xattrs type'')) (\<lambda>(xattrs_checksum, im).
      Inr (im\<lparr>im_next_xattrs := Some (checksum, xattrs_checksum)\<rparr>)))"

definition process_xattr_ref :: "tar_entry \<Rightarrow> string \<Rightarrow> importer \<Rightarrow> importer outcome" where
  "process_xattr_ref e target im =
     (if im_next_xattrs im \<noteq> None then Inl (Err ''Found previous dangling xattrs for file object'')
      else if te_type e \<noteq> Link then Inl (Err ''Non-hardlink xattrs reference found'')
      else rbind (ok_or (Err ''No xattrs link content'') (te_link e)) (\<lambda>xattr_target.
           rbind (ok_or (Err ''Invalid xattrs link'') (cp_file_name (path_components xattr_target))) (\<lambda>name.
           rbind (lift_res (validate_sha256 name)) (\<lambda>xattrs_checksum.
           Inr (im\<lparr>im_next_xattrs := Some (target, xattrs_checksum)\<rparr>)))))"

definition process_split_xattrs_content :: "ostree_ops \<Rightarrow> tar_entry \<Rightarrow> importer \<Rightarrow> importer outcome" where
  "process_split_xattrs_content E e im =
     rbind (ok_or (Err ''Invalid xattrs dir'') (cp_file_name (te_path e))) (\<lambda>name.
     rbind (lift_res (validate_sha256 name)) (\<lambda>checksum.
     rbind (cache_xattrs_content E e (Some checksum) im) (\<lambda>(_, im). Inr im)))"

section \<open>Importing\<close>

definition track_object :: "string \<Rightarrow> importer \<Rightarrow> importer outcome" where
  "track_object checksum im =
     (case im_data im of
        ObjectSet imported \<Rightarrow>
          if checksum \<in> set imported then Inl (Err ''Duplicate object'')
          else Inr (im\<lparr>im_data := ObjectSet (btset (checksum # imported))\<rparr>)
      | Commit _ \<Rightarrow> Inr im)"

definition import_object :: "ostree_ops \<Rightarrow> tar_entry \<Rightarrow> cpath \<Rightarrow> importer \<Rightarrow> importer outcome" where
  "import_object E e path im =
     rbind (lift_res (parse_object_entry_path path)) (\<lambda>(parentname, name, suffix).
     rbind (lift_res (parse_checksum parentname name)) (\<lambda>checksum.
     if suffix = ''commit'' then Inl (Err ''Found multiple commit objects'')
     else if suffix = ''file'' then
       rbind (import_content_object E e checksum im) (track_object checksum)
     else if suffix = ''file-xattrs'' then process_file_xattrs E e checksum im
     else if suffix = ''file-xattrs-link'' then process_file_xattrs_link E e checksum im
     else if suffix = ''xattrs'' then process_xattr_ref e checksum im
     else
       rbind (ok_or (Err ''Invalid object type'') (objtype_from_string suffix)) (\<lambda>objtype.
       case im_data im of
         ObjectSet _ \<Rightarrow> Inl (Err ''Found metadata object in object set mode'')
       | Commit _ \<Rightarrow> import_metadata E e checksum objtype im)))"

definition import_step :: "ostree_ops \<Rightarrow> tar_entry \<times> cpath \<Rightarrow> importer \<Rightarrow> importer outcome" where
  "import_step E ep im =
     (let (e, path) = ep in
      case strip_prefix (rel [''objects'']) path of
        Some p \<Rightarrow> import_object E e p im
      | None \<Rightarrow>
          if strip_prefix (rel [''xattrs'']) path \<noteq> None then process_split_xattrs_content E e im
          else Inr im)"

fun import_objects_impl :: "ostree_ops \<Rightarrow> (tar_entry \<times> cpath) list \<Rightarrow> importer \<Rightarrow> importer outcome" where
  "import_objects_impl E [] im = Inr im"
| "import_objects_impl E (ep # ents) im = rbind (import_step E ep im) (import_objects_impl E ents)"

definition import_objects :: "ostree_ops \<Rightarrow> tar_entry list \<Rightarrow> importer \<Rightarrow> importer outcome" where
  "import_objects E archive im = import_objects_impl E (List.map_filter filter_entry archive) im"

text \<open>Writing the commit: the repository marks it as partial first.\<close>

definition write_commit_obj :: "ostree_ops \<Rightarrow> string \<Rightarrow> string \<Rightarrow> importer \<Rightarrow> importer outcome" where
  "write_commit_obj E checksum commit im =
     rbind (write_metadata E T_Commit (Some checksum) commit (mark_commit_partial checksum True (im_repo im)))
       (\<lambda>(actual, r).
     if actual \<noteq> checksum then Inl (Panic ''assertion `left == right` failed'')
     else Inr (im\<lparr>im_repo := r\<rparr>))"

text \<open>With a remote the detached metadata must follow and its signatures must verify.\<close>

definition import_verified ::
    "ostree_ops \<Rightarrow> string \<Rightarrow> string \<Rightarrow> string \<Rightarrow> tar_entry \<Rightarrow> string \<times> objtype \<Rightarrow> importer \<Rightarrow> importer outcome" where
  "import_verified E remote checksum commit next_ent next im =
     (if snd next \<noteq> T_CommitMeta then Inl (Err ''Expected commitmeta object'')
      else if fst next \<noteq> checksum then Inl (Err ''Expected commitmeta checksum'')
      else rbind (entry_to_variant E T_CommitMeta next_ent) (\<lambda>commitmeta.
           rbind (lift_res (oe_verify E remote commit commitmeta)) (\<lambda>txt.
           rbind (write_commit_obj E checksum commit (im\<lparr>im_verify_text := Some txt\<rparr>)) (\<lambda>im.
           Inr (im\<lparr>im_repo := write_detached checksum commitmeta (im_repo im)\<rparr>)))))"

definition import_unverified ::
    "ostree_ops \<Rightarrow> string \<Rightarrow> string \<Rightarrow> tar_entry \<Rightarrow> cpath \<Rightarrow> importer \<Rightarrow> importer outcome" where
  "import_unverified E checksum commit next_ent nextent_path im =
     rbind (write_commit_obj E checksum commit im) (\<lambda>im.
     rbind (lift_res (parse_metadata_entry nextent_path)) (\<lambda>(meta_checksum, meta_objtype).
     if meta_objtype = T_CommitMeta then
       rbind (entry_to_variant E T_CommitMeta next_ent) (\<lambda>commitmeta.
       Inr (im\<lparr>im_repo := write_detached checksum commitmeta (im_repo im)\<rparr>))
     else import_object E next_ent nextent_path im))"

definition import_commit :: "ostree_ops \<Rightarrow> tar_entry list \<Rightarrow> importer \<Rightarrow> importer outcome" where
  "import_commit E archive im =
     (if im_data im \<noteq> Commit None then Inl (Panic ''assertion failed'')
      else case List.map_filter filter_entry archive of
        [] \<Rightarrow> Inl (Err ''Commit object not found'')
      | (commit_ent, commit_path) # ents \<Rightarrow>
          if te_type commit_ent \<noteq> Regular then Inl (Err ''Expected regular file for commit object'')
          else rbind (lift_res (parse_metadata_entry commit_path)) (\<lambda>(checksum, objtype).
          if objtype \<noteq> T_Commit then Inl (Err ''Expected commit object'')
          else rbind (entry_to_variant E T_Commit commit_ent) (\<lambda>commit.
          case ents of
            [] \<Rightarrow> Inl (Err ''End of stream after commit object'')
          | (next_ent, nextent_path) # ents \<Rightarrow>
              rbind (lift_res (parse_metadata_entry nextent_path)) (\<lambda>next.
              rbind (case im_remote im of
                       Some remote \<Rightarrow> import_verified E remote checksum commit next_ent next im
                     | None \<Rightarrow> import_unverified E checksum commit next_ent nextent_path im) (\<lambda>im.
              import_objects_impl E ents (im\<lparr>im_data := Commit (Some checksum)\<rparr>))))))"

definition finish_import_commit :: "importer \<Rightarrow> (string \<times> string option) outcome" where
  "finish_import_commit im =
     (case im_data im of
        Commit (Some c) \<Rightarrow> Inr (c, im_verify_text im)
      | Commit None \<Rightarrow> Inl (Panic ''called `Option::unwrap()` on a `None` value'')
      | ObjectSet _ \<Rightarrow> Inl (Panic ''internal error: entered unreachable code''))"

definition import_tar :: "ostree_ops \<Rightarrow> tar_entry list \<Rightarrow> string option \<Rightarrow> repo \<Rightarrow> (string \<times> repo) outcome" where
  "import_tar E archive remote r =
     rbind (import_commit E archive (new_for_commit r remote)) (\<lambda>im.
     rbind (finish_import_commit im) (\<lambda>(checksum, _).
     Inr (checksum, mark_commit_partial checksum False (im_repo im))))"

text \<open>
  An object set becomes a commit over a flat tree that names each object by its checksum;
  \<^verbatim>\<open>synth\<close> writes that commit with the serializers of ostree.
\<close>

definition import_tar_objects ::
    "ostree_ops \<Rightarrow> (string list \<Rightarrow> repo \<Rightarrow> (string \<times> repo) outcome) \<Rightarrow> tar_entry list \<Rightarrow> repo
       \<Rightarrow> (string \<times> repo) outcome" where
  "import_tar_objects E synth archive r =
     rbind (import_objects E archive (new_for_object_set r)) (\<lambda>im.
     case im_data im of
       ObjectSet objset \<Rightarrow> synth objset (im_repo im)
     | Commit _ \<Rightarrow> Inl (Panic ''internal error: entered unreachable code''))"

end
