(* ===== verification/Tar_Roundtrip.thy ===== *)
theory Tar_Roundtrip
  imports Tar_Export Tar_Import
begin

text \<open>
  Exporting a commit and importing the stream gives the commit back. The stream is described by
  blocks: a metadata object is one entry, a content object is its attributes followed by its body.
  Importing the entries of a block adds its object to the repository; exporting writes entries that
  are the blocks of the objects of the commit, among others that an import skips.

  Reading a stream gives the entries written, where the tar library may drop components for the
  current directory from their paths (\<^verbatim>\<open>tar_reader\<close>).
\<close>

section \<open>Blocks\<close>

datatype block = B_Meta objtype string | B_File string

definition objp :: "objtype \<Rightarrow> string \<Rightarrow> cpath" where
  "objp t c = rel [''objects'', take 2 c, drop 2 c @ ''.'' @ obj_suffix t]"

definition xattrp :: "string \<Rightarrow> cpath" where
  "xattrp c = rel [''objects'', take 2 c, drop 2 c @ ''.file-xattrs-link'']"

text \<open>The entry that carries the body of a content object.\<close>

definition body_entry :: "file_obj \<Rightarrow> tar_entry \<Rightarrow> bool" where
  "body_entry f e =
     (te_uid e = ucast (fo_uid f) \<and> te_gid e = ucast (fo_gid f) \<and> te_mode e = filter_mode (fo_mode f)
      \<and> (case fo_body f of
           RegularFile data \<Rightarrow> te_type e = Regular \<and> te_data e = data
         | SymbolicLink target \<Rightarrow> te_type e = Symlink \<and> te_link e = Some target))"

fun block_entries :: "repo \<Rightarrow> block \<Rightarrow> (tar_entry \<times> cpath) list \<Rightarrow> bool" where
  "block_entries S (B_Meta t c) eps =
     (\<exists>e v. rp_meta S t c = Some v \<and> eps = [(e, objp t c)] \<and> te_type e = Regular \<and> te_data e = v)"
| "block_entries S (B_File c) eps =
     (\<exists>e1 e2 f. rp_files S c = Some f \<and> eps = [(e1, xattrp c), (e2, objp T_File c)]
        \<and> te_type e1 = Regular \<and> te_data e1 = fo_xattrs f \<and> body_entry f e2)"

text \<open>
  Objects that the format can carry: they are stored under their checksum, within the size limits
  of an import, serialized in normal form, and a link target that the tar library keeps.
\<close>

definition meta_ok :: "ostree_ops \<Rightarrow> repo \<Rightarrow> objtype \<Rightarrow> string \<Rightarrow> bool" where
  "meta_ok E S t c =
     (is_checksum c \<and> (case rp_meta S t c of None \<Rightarrow> False
        | Some v \<Rightarrow> oe_meta_csum E t v = c \<and> oe_normal_form E t v = v \<and> length v \<le> MAX_METADATA_SIZE))"

definition file_ok :: "ostree_ops \<Rightarrow> repo \<Rightarrow> string \<Rightarrow> bool" where
  "file_ok E S c =
     (is_checksum c \<and> (case rp_files S c of None \<Rightarrow> False
        | Some f \<Rightarrow> oe_file_csum E f = c \<and> length (fo_xattrs f) \<le> MAX_XATTR_SIZE
            \<and> is_ok (pax_xattrs (oe_xattr_list E (fo_xattrs f)))
            \<and> (case fo_body f of
                 RegularFile _ \<Rightarrow> fo_mode f AND S_IFMT = S_IFREG
               | SymbolicLink t \<Rightarrow> fo_mode f = oe_symlink_mode E
                   \<and> (if symlink_is_denormal t then length t \<le> LINK_FIELD_SIZE else oe_tar_link E t = t))))"

fun block_ok :: "ostree_ops \<Rightarrow> repo \<Rightarrow> block \<Rightarrow> bool" where
  "block_ok E S (B_Meta t c) = ((t = T_DirTree \<or> t = T_DirMeta) \<and> meta_ok E S t c)"
| "block_ok E S (B_File c) = file_ok E S c"

fun put :: "repo \<Rightarrow> block \<Rightarrow> repo \<Rightarrow> repo" where
  "put S (B_Meta t c) r = r\<lparr>rp_meta := (rp_meta r)(t := (rp_meta r t)(c := rp_meta S t c))\<rparr>"
| "put S (B_File c) r = r\<lparr>rp_files := (rp_files r)(c := rp_files S c)\<rparr>"

text \<open>An object that both repositories have is the same in both.\<close>

definition agree :: "repo \<Rightarrow> repo \<Rightarrow> bool" where
  "agree S r = (\<forall>c f g. rp_files S c = Some f \<longrightarrow> rp_files r c = Some g \<longrightarrow> f = g)"

lemma agree_put: "agree S r \<Longrightarrow> agree S (put S b r)"
  by (cases b) (auto simp: agree_def)

section \<open>Importing a block\<close>

lemma mode_restored: "m AND S_IFMT = S_IFREG \<Longrightarrow> S_IFREG OR filter_mode m = m"
proof -
  assume a: "m AND S_IFMT = S_IFREG"
  have "m = (m AND S_IFMT) OR (m AND NOT S_IFMT)" by (simp add: bit.conj_disj_distrib [symmetric])
  then show ?thesis using a by (simp add: filter_mode_def)
qed

lemma copy_loop_all: "copy_loop input w = w @ input"
  by (induction input w rule: copy_loop.induct) (subst copy_loop.simps, auto simp del: copy_loop.simps)

lemma uid_fits: "try_u32 (ucast (x :: u32)) = Inr x"
proof -
  have "uint (ucast x :: u64) = uint x" by (simp add: uint_up_ucast is_up)
  moreover have "uint x < 4294967296" using uint_lt2p [of x] by simp
  moreover have "ucast (ucast x :: u64) = x" by (simp add: ucast_up_ucast_id is_up)
  ultimately show ?thesis by (simp add: try_u32_def)
qed

lemma step_object:
  assumes "is_checksum c" and "CHR ''.'' \<notin> set ext"
  shows "import_step E (e, rel [''objects'', take 2 c, drop 2 c @ ''.'' @ ext]) im =
    (if ext = ''commit'' then Inl (Err ''Found multiple commit objects'')
     else if ext = ''file'' then rbind (import_content_object E e c im) (track_object c)
     else if ext = ''file-xattrs'' then process_file_xattrs E e c im
     else if ext = ''file-xattrs-link'' then process_file_xattrs_link E e c im
     else if ext = ''xattrs'' then process_xattr_ref e c im
     else rbind (ok_or (Err ''Invalid object type'') (objtype_from_string ext)) (\<lambda>objtype.
       case im_data im of
         ObjectSet _ \<Rightarrow> Inl (Err ''Found metadata object in object set mode'')
       | Commit _ \<Rightarrow> import_metadata E e c objtype im))"
  using parse_object_path_gen(1) [OF assms, of "[]"] parse_object_path_gen(2) [OF assms]
  by (simp add: import_step_def import_object_def lift_res_def)

lemma import_meta_block:
  assumes "block_ok E S (B_Meta t c)" and "block_entries S (B_Meta t c) eps" and "im_data im = Commit x"
  shows "\<exists>st. import_objects_impl E eps im = Inr (im\<lparr>im_stats := st, im_repo := put S (B_Meta t c) (im_repo im)\<rparr>)"
proof -
  from assms(1,2) obtain e v where v: "rp_meta S t c = Some v" "eps = [(e, objp t c)]"
      "te_type e = Regular" "te_data e = v"
    and c: "is_checksum c" "oe_meta_csum E t v = c" "oe_normal_form E t v = v" "length v \<le> MAX_METADATA_SIZE"
    and t: "t = T_DirTree \<or> t = T_DirMeta"
    by (auto simp: meta_ok_def split: option.splits)
  have d: "CHR ''.'' \<notin> set (obj_suffix t)" using t by auto
  from t show ?thesis
    using step_object [OF c(1) d, of E e im] v c assms(3)
    by (elim disjE)
      (simp_all add: objp_def objtype_from_string_def import_metadata_def entry_to_variant_def
        validate_metadata_header_def write_metadata_def Let_def, metis+)
qed

text \<open>Reading the attributes leaves a reference for the body that follows.\<close>

lemma import_attrs:
  assumes "is_checksum c" and "im_next_xattrs im = None" and "te_type e = Regular"
    and "length (te_data e) \<le> MAX_XATTR_SIZE"
  shows "import_step E (e, xattrp c) im = Inr (im\<lparr>im_next_xattrs := Some (c, oe_sha256 E (te_data e)),
           im_xattrs := (im_xattrs im)(oe_sha256 E (te_data e) \<mapsto> te_data e)\<rparr>)"
proof -
  have "xattrp c = rel [''objects'', take 2 c, drop 2 c @ ''.'' @ ''file-xattrs-link'']" by (simp add: xattrp_def)
  moreover have "CHR ''.'' \<notin> set ''file-xattrs-link''" by simp
  ultimately show ?thesis
    using step_object [OF assms(1), of "''file-xattrs-link''" E e im] assms(2-4)
    by (simp add: process_file_xattrs_link_def cache_xattrs_content_def Let_def)
qed

lemma write_own: "oe_file_csum E f = c \<Longrightarrow> rp_files S c = Some f \<Longrightarrow> write_file_obj E c f r = Inr (c, put S (B_File c) r)"
  by (simp add: write_file_obj_def Let_def)

text \<open>The body, once the attributes are known and the object is new.\<close>

lemma import_new_body:
  assumes "file_ok E S c" and "rp_files S c = Some f" and "body_entry f e"
  shows "\<exists>st. (case te_type e of
        Regular \<Rightarrow>
          if SMALL_REGFILE_SIZE < length (te_data e) then import_large_regfile_object E e (length (te_data e)) c (fo_xattrs f) im
          else import_small_regfile_object E e (length (te_data e)) c (fo_xattrs f) im
      | Symlink \<Rightarrow> import_symlink_object E e c (fo_xattrs f) im
      | _ \<Rightarrow> Inl (Err ''Invalid tar entry'')) = Inr (im\<lparr>im_repo := put S (B_File c) (im_repo im), im_stats := st\<rparr>)"
proof (cases "fo_body f")
  case (RegularFile data)
  then have m: "S_IFREG OR filter_mode (fo_mode f) = fo_mode f"
    using assms(1,2) mode_restored by (simp add: file_ok_def)
  have f: "\<lparr>fo_uid = fo_uid f, fo_gid = fo_gid f, fo_mode = S_IFREG OR te_mode e, fo_xattrs = fo_xattrs f,
      fo_body = RegularFile data\<rparr> = f"
    using RegularFile m assms(3) by (simp add: body_entry_def)
  have attrs: "header_attrs e = Inr (fo_uid f, fo_gid f, te_mode e)" "te_type e = Regular" "te_data e = data"
    using assms(3) RegularFile by (auto simp: header_attrs_def body_entry_def uid_fits)
  have w: "write_file_obj E c f (im_repo im) = Inr (c, put S (B_File c) (im_repo im))"
    using assms(1,2) by (intro write_own) (simp_all add: file_ok_def)
  show ?thesis
    using attrs by (auto simp add: import_large_regfile_object_def import_small_regfile_object_def copy_loop_all f w
        simp del: copy_loop.simps put.simps)
next
  case (SymbolicLink target)
  have f: "\<lparr>fo_uid = fo_uid f, fo_gid = fo_gid f, fo_mode = oe_symlink_mode E, fo_xattrs = fo_xattrs f,
      fo_body = SymbolicLink target\<rparr> = f"
    using SymbolicLink assms(1,2) by (simp add: file_ok_def)
  have attrs: "header_attrs e = Inr (fo_uid f, fo_gid f, te_mode e)" "te_type e = Symlink" "te_link e = Some target"
    using assms(3) SymbolicLink by (auto simp: header_attrs_def body_entry_def uid_fits)
  have w: "write_file_obj E c f (im_repo im) = Inr (c, put S (B_File c) (im_repo im))"
    using assms(1,2) by (intro write_own) (simp_all add: file_ok_def)
  show ?thesis
    using attrs by (auto simp add: import_symlink_object_def f w simp del: put.simps)
qed

lemma import_body:
  assumes "file_ok E S c" and "rp_files S c = Some f" and "body_entry f e" and "agree S (im_repo im)"
    and "im_next_xattrs im = Some (c, x)" and "im_xattrs im x = Some (fo_xattrs f)"
  shows "\<exists>st. import_content_object E e c im =
     Inr (im\<lparr>im_next_xattrs := None, im_repo := put S (B_File c) (im_repo im), im_stats := st\<rparr>)"
proof (cases "rp_files (im_repo im) c")
  case (Some g)
  then have "g = f" using assms(2,4) by (auto simp: agree_def)
  then have "put S (B_File c) (im_repo im) = im_repo im" using Some assms(2) by (simp add: fun_upd_idem)
  then have "import_content_object E e c im =
     Inr (im\<lparr>im_next_xattrs := None, im_repo := put S (B_File c) (im_repo im), im_stats := im_stats im\<rparr>)"
    using Some assms(5) by (simp add: import_content_object_def)
  then show ?thesis by blast
next
  case None
  then show ?thesis
    using import_new_body [OF assms(1-3), of "im\<lparr>im_next_xattrs := None\<rparr>"] assms(5,6)
    by (simp add: import_content_object_def Let_def del: put.simps)
qed

section \<open>Importing a sequence of blocks\<close>

fun track :: "block \<Rightarrow> importer_mode \<Rightarrow> importer_mode" where
  "track (B_File c) (ObjectSet s) = ObjectSet (btset (c # s))"
| "track _ m = m"

fun admissible :: "importer_mode \<Rightarrow> block list \<Rightarrow> bool" where
  "admissible (Commit _) bs = True"
| "admissible (ObjectSet s) bs = (distinct bs \<and> (\<forall>b \<in> set bs. \<exists>c. b = B_File c \<and> c \<notin> set s))"

lemma admissible_Cons: "admissible m (b # bs) \<longleftrightarrow> admissible m [b] \<and> admissible (track b m) bs"
  by (cases m; cases b) auto

lemma import_append:
  "import_objects_impl E (xs @ ys) im = rbind (import_objects_impl E xs im) (import_objects_impl E ys)"
proof (induction xs arbitrary: im)
  case (Cons x xs)
  then show ?case by (cases "import_step E x im") auto
qed simp

text \<open>What importing a sequence of blocks does to the importer.\<close>

definition advanced :: "repo \<Rightarrow> block list \<Rightarrow> importer \<Rightarrow> importer \<Rightarrow> bool" where
  "advanced S bs im im' =
     (im_next_xattrs im' = None \<and> im_repo im' = fold (put S) bs (im_repo im)
      \<and> im_data im' = fold track bs (im_data im) \<and> im_remote im' = im_remote im \<and> im_verify_text im' = im_verify_text im)"

lemma import_file_block:
  assumes "file_ok E S c" and "block_entries S (B_File c) eps" and "im_next_xattrs im = None"
    and "agree S (im_repo im)" and "admissible (im_data im) [B_File c]"
  shows "\<exists>im'. import_objects_impl E eps im = Inr im' \<and> advanced S [B_File c] im im'"
proof -
  from assms(2) obtain e1 e2 f where f: "rp_files S c = Some f" and eps: "eps = [(e1, xattrp c), (e2, objp T_File c)]"
    and e: "te_type e1 = Regular" "te_data e1 = fo_xattrs f" "body_entry f e2"
    by auto
  have c: "is_checksum c" "length (te_data e1) \<le> MAX_XATTR_SIZE"
    using assms(1) f e by (auto simp: file_ok_def)
  define im1 where "im1 = im\<lparr>im_next_xattrs := Some (c, oe_sha256 E (te_data e1)),
           im_xattrs := (im_xattrs im)(oe_sha256 E (te_data e1) \<mapsto> te_data e1)\<rparr>"
  have im1: "im_data im1 = im_data im" "im_repo im1 = im_repo im" "im_remote im1 = im_remote im"
    "im_verify_text im1 = im_verify_text im" by (simp_all add: im1_def)
  have s1: "import_step E (e1, xattrp c) im = Inr im1"
    unfolding im1_def by (rule import_attrs [OF c(1) assms(3) e(1) c(2)])
  obtain st where s2: "import_content_object E e2 c im1 =
      Inr (im1\<lparr>im_next_xattrs := None, im_repo := put S (B_File c) (im_repo im1), im_stats := st\<rparr>)"
    using import_body [OF assms(1) f e(3), of im1] assms(4) e(2) by (auto simp: im1_def)
  have "import_step E (e2, objp T_File c) im1 = rbind (import_content_object E e2 c im1) (track_object c)"
    using step_object [OF c(1), of "''file''" E e2 im1] by (simp add: objp_def)
  then show ?thesis
    using assms(5) im1 unfolding eps by (cases "im_data im") (auto simp: s1 s2 track_object_def advanced_def simp del: put.simps)
qed

lemma import_blocks:
  assumes "list_all2 (block_entries S) bs epss" and "\<forall>b \<in> set bs. block_ok E S b"
    and "im_next_xattrs im = None" and "agree S (im_repo im)" and "admissible (im_data im) bs"
  shows "\<exists>im'. import_objects_impl E (concat epss) im = Inr im' \<and> advanced S bs im im'"
  using assms
proof (induction bs epss arbitrary: im rule: list_all2_induct)
  case Nil
  then show ?case by (simp add: advanced_def)
next
  case (Cons b bs eps epss)
  have adm: "admissible (im_data im) [b]" "admissible (track b (im_data im)) bs"
    using Cons.prems(4) admissible_Cons by blast+
  have "\<exists>im1. import_objects_impl E eps im = Inr im1 \<and> advanced S [b] im im1"
  proof (cases b)
    case (B_Meta t c)
    obtain x where "im_data im = Commit x" using adm(1) B_Meta by (cases "im_data im") auto
    then show ?thesis
      using import_meta_block [of E S t c eps im x] Cons.hyps(1) Cons.prems(1,2) B_Meta
      by (auto simp: advanced_def simp del: put.simps block_entries.simps block_ok.simps)
  next
    case (B_File c)
    then show ?thesis using import_file_block [of E S c eps im] Cons.hyps(1) Cons.prems adm(1) by simp
  qed
  then obtain im1 where i1: "import_objects_impl E eps im = Inr im1" "advanced S [b] im im1" by blast
  have "agree S (im_repo im1)" "im_next_xattrs im1 = None" "admissible (im_data im1) bs"
    using i1(2) Cons.prems(3) adm(2) agree_put by (auto simp: advanced_def)
  then obtain im2 where "import_objects_impl E (concat epss) im1 = Inr im2" "advanced S bs im1 im2"
    using Cons.IH [of im1] Cons.prems(1) by auto
  with i1 show ?case by (auto simp: import_append advanced_def)
qed

section \<open>The objects of an exported stream\<close>

definition tar_reader :: "(tar_entry \<Rightarrow> tar_entry) \<Rightarrow> bool" where
  "tar_reader read =
     (\<forall>e. \<exists>p. read e = e\<lparr>te_path := p\<rparr> \<and> (p = te_path e \<or> p = filter (\<lambda>c. c \<noteq> CurDir) (te_path e)))"

definition stream :: "(tar_entry \<Rightarrow> tar_entry) \<Rightarrow> tar_entry list \<Rightarrow> (tar_entry \<times> cpath) list" where
  "stream read out = List.map_filter filter_entry (map read out)"

definition off_repo :: "cpath \<Rightarrow> bool" where
  "off_repo p = (\<not> prefix REPO_PREFIX p \<and> \<not> prefix REPO_PREFIX (filter (\<lambda>c. c \<noteq> CurDir) p))"

lemma stream_append [simp]: "stream read (xs @ ys) = stream read xs @ stream read ys"
  by (simp add: stream_def List.map_filter_def)

lemma stream_single: "stream read [e] = (case filter_entry (read e) of None \<Rightarrow> [] | Some x \<Rightarrow> [x])"
  by (simp add: stream_def List.map_filter_def split: option.splits)

lemma stream_skip:
  assumes "tar_reader read" and "te_type e = Directory \<or> off_repo (te_path e)"
  shows "stream read [e] = []"
proof -
  obtain p where p: "read e = e\<lparr>te_path := p\<rparr>" "p = te_path e \<or> p = filter (\<lambda>c. c \<noteq> CurDir) (te_path e)"
    using assms(1) unfolding tar_reader_def by blast
  then have "filter_entry (read e) = None"
    using assms(2) by (auto simp: filter_entry_def off_repo_def strip_prefix_None_iff split: option.splits)
      (simp_all add: strip_prefix_iff prefix_def)
  then show ?thesis by (simp add: stream_single)
qed

lemma stream_object:
  assumes "tar_reader read" and "te_type e \<noteq> Directory" and "te_path e = REPO_PREFIX @ rel [''objects'', a, b]"
    and "b \<noteq> ''config''"
  shows "stream read [e] = [(e, rel [''objects'', a, b])]"
proof -
  obtain p where p: "read e = e\<lparr>te_path := p\<rparr>" "p = te_path e \<or> p = filter (\<lambda>c. c \<noteq> CurDir) (te_path e)"
    using assms(1) unfolding tar_reader_def by blast
  have "filter (\<lambda>c. c \<noteq> CurDir) (te_path e) = te_path e" by (simp add: assms(3) REPO_PREFIX_def)
  with p have "read e = e" by simp
  then show ?thesis
    using assms(2-4) by (simp add: stream_single filter_entry_def cp_file_name_def starts_with_def)
qed

text \<open>
  A writer whose entries are, after those of \<^term>\<open>pre\<close>, the blocks \<^term>\<open>bs\<close>, as far as an import looks at
  them, and which knows what it has written.
\<close>

definition exported ::
    "repo \<Rightarrow> (tar_entry \<Rightarrow> tar_entry) \<Rightarrow> (tar_entry \<times> cpath) list \<Rightarrow> writer \<Rightarrow> block list \<Rightarrow> bool" where
  "exported S read pre w bs =
     (w_pax w = [] \<and> (\<exists>epss. list_all2 (block_entries S) bs epss \<and> stream read (w_out w) = pre @ concat epss)
      \<and> wrote_dirtree w = {c. B_Meta T_DirTree c \<in> set bs} \<and> wrote_dirmeta w = {c. B_Meta T_DirMeta c \<in> set bs}
      \<and> wrote_content w = {c. B_File c \<in> set bs} \<and> distinct bs)"

lemma exportedI:
  assumes "w_pax w = []" and "list_all2 (block_entries S) bs epss" and "stream read (w_out w) = pre @ concat epss"
    and "wrote_dirtree w = {c. B_Meta T_DirTree c \<in> set bs}" and "wrote_dirmeta w = {c. B_Meta T_DirMeta c \<in> set bs}"
    and "wrote_content w = {c. B_File c \<in> set bs}" and "distinct bs"
  shows "exported S read pre w bs"
  unfolding exported_def using assms by blast

definition add_block :: "block \<Rightarrow> block list \<Rightarrow> block list" where
  "add_block b bs = (if b \<in> set bs then bs else bs @ [b])"

lemma set_add_block [simp]: "set (add_block b bs) = insert b (set bs)"
  by (auto simp: add_block_def)

text \<open>Blocks are only ever added at the end.\<close>

definition grows :: "block set \<Rightarrow> block list \<Rightarrow> block list \<Rightarrow> bool" where
  "grows X bs bs' = (set bs' = set bs \<union> X \<and> prefix bs bs')"

lemma grows_refl [simp]: "grows {} bs bs"
  by (simp add: grows_def)

lemma grows_add [simp]: "grows {b} bs (add_block b bs)"
  by (auto simp: grows_def add_block_def)

lemma grows_trans: "grows X bs bs1 \<Longrightarrow> grows Y bs1 bs2 \<Longrightarrow> grows (X \<union> Y) bs bs2"
  by (auto simp: grows_def intro: prefix_order.trans)

lemma exported_skip:
  assumes "tar_reader read" and "te_type e = Directory \<or> off_repo (te_path e)" and "exported S read pre w bs"
  shows "exported S read pre (tar_append e w) bs"
proof -
  have "stream read [e\<lparr>te_pax := w_pax w\<rparr>] = []"
    by (rule stream_skip [OF assms(1)]) (use assms(2) in simp)
  with assms(3) show ?thesis by (simp add: exported_def tar_append_def)
qed

lemma no_config: "drop 2 c @ CHR ''.'' # s \<noteq> ''config''"
proof
  assume "drop 2 c @ CHR ''.'' # s = ''config''"
  then have "CHR ''.'' \<in> set ''config''" by (metis in_set_conv_decomp)
  then show False by simp
qed

lemma block_snoc:
  "list_all2 (block_entries S) bs epss \<Longrightarrow> block_entries S b eps \<Longrightarrow> list_all2 (block_entries S) (bs @ [b]) (epss @ [eps])"
  by (simp add: list_all2_appendI)

lemma stream_default_data:
  assumes "tar_reader read" and "w_pax w = []"
  shows "\<exists>e. stream read (w_out (tar_append_default_data (REPO_PREFIX @ rel [''objects'', a, drop 2 c @ CHR ''.'' # s]) v w))
      = stream read (w_out w) @ [(e, rel [''objects'', a, drop 2 c @ CHR ''.'' # s])]
    \<and> te_type e = Regular \<and> te_data e = v"
proof -
  let ?p = "REPO_PREFIX @ rel [''objects'', a, drop 2 c @ CHR ''.'' # s]"
  define e where "e = new_gnu\<lparr>te_path := ?p, te_type := Regular, te_uid := 0, te_gid := 0, te_mode := 420, te_data := v, te_pax := []\<rparr>"
  have "stream read [e] = [(e, rel [''objects'', a, drop 2 c @ CHR ''.'' # s])]"
    by (rule stream_object [OF assms(1)]) (simp_all add: e_def no_config)
  then show ?thesis
    using assms(2) by (intro exI [of _ e]) (simp add: tar_append_default_data_def tar_append_def e_def)
qed

lemma object_path_objp: "object_path t c = REPO_PREFIX @ objp t c"
  by (simp add: object_path_def objp_def REPO_PREFIX_def OBJDIR_def)

lemma xattrs_path_xattrp: "v1_xattrs_object_path c = REPO_PREFIX @ xattrp c"
  by (simp add: v1_xattrs_object_path_def xattrp_def REPO_PREFIX_def OBJDIR_def)

lemma writer_default_data [simp]:
  "wrote_dirtree (tar_append_default_data p v w) = wrote_dirtree w"
  "wrote_dirmeta (tar_append_default_data p v w) = wrote_dirmeta w"
  "wrote_content (tar_append_default_data p v w) = wrote_content w"
  "structure_only (tar_append_default_data p v w) = structure_only w"
  "w_pax (tar_append_default_data p v w) = []"
  by (simp_all add: tar_append_default_data_def tar_append_def)

lemma exported_meta:
  assumes "tar_reader read" and "t = T_DirTree \<or> t = T_DirMeta" and "rp_meta S t c = Some v" and "exported S read pre w bs"
  shows "\<exists>w'. append_meta t c v w = Inr w' \<and> exported S read pre w' (add_block (B_Meta t c) bs)
     \<and> structure_only w' = structure_only w"
proof (cases "B_Meta t c \<in> set bs")
  case True
  then show ?thesis using assms by (auto simp: append_meta_def add_block_def exported_def)
next
  case False
  obtain epss where e: "list_all2 (block_entries S) bs epss" "stream read (w_out w) = pre @ concat epss" "w_pax w = []"
    using assms(4) by (auto simp: exported_def)
  define w1 where "w1 = (if t = T_DirTree then w\<lparr>wrote_dirtree := insert c (wrote_dirtree w)\<rparr>
     else w\<lparr>wrote_dirmeta := insert c (wrote_dirmeta w)\<rparr>)"
  have w1: "w_pax w1 = []" "w_out w1 = w_out w" "structure_only w1 = structure_only w" using e(3) by (auto simp: w1_def)
  have op: "append_meta t c v w = Inr (tar_append_default_data (object_path t c) v w1)"
    using False assms(2,4) by (auto simp: append_meta_def exported_def w1_def)
  obtain ent where ent: "stream read (w_out (tar_append_default_data (object_path t c) v w1)) = pre @ concat (epss @ [[(ent, objp t c)]])"
      "te_type ent = Regular" "te_data ent = v"
    using stream_default_data [OF assms(1) w1(1), of "take 2 c" c "obj_suffix t" v] e(2) w1(2)
    by (auto simp: object_path_objp objp_def)
  have "block_entries S (B_Meta t c) [(ent, objp t c)]" using assms(3) ent by simp
  note blk = block_snoc [OF e(1) this]
  have "exported S read pre (tar_append_default_data (object_path t c) v w1) (bs @ [B_Meta t c])"
    using assms(2,4) False by (intro exportedI [OF _ blk ent(1)]) (auto simp: w1_def exported_def)
  then show ?thesis using op False w1 by (simp add: add_block_def)
qed

text \<open>A content object is its attributes and its body, written once.\<close>

lemma append_body_entry:
  assumes "file_ok E S c" and "rp_files S c = Some f"
  shows "\<exists>e. (\<forall>w. append_body E f (fst (content_header f c)) w = Inr (tar_append e w)) \<and> te_path e = object_path T_File c
     \<and> te_type e \<noteq> Directory \<and> (\<forall>p. body_entry f (e\<lparr>te_pax := p\<rparr>))"
proof (cases "fo_body f")
  case (RegularFile data)
  then show ?thesis
    by (intro exI [of _ "(fst (content_header f c))\<lparr>te_data := data\<rparr>"])
      (simp add: append_body_def content_header_def body_entry_def new_gnu_def Let_def)
next
  case (SymbolicLink target)
  then have "if symlink_is_denormal target then length target \<le> LINK_FIELD_SIZE else oe_tar_link E target = target"
    using assms by (simp add: file_ok_def)
  with SymbolicLink show ?thesis
    by (intro exI [of _ "(fst (content_header f c))\<lparr>te_link := Some target\<rparr>"])
      (auto simp: append_body_def content_header_def body_entry_def new_gnu_def Let_def)
qed

lemma exported_content:
  assumes "tar_reader read" and "file_ok E S c" and "exported S read pre w bs"
  shows "\<exists>h w'. append_content E S c w = Inr (h, w') \<and> exported S read pre w' (add_block (B_File c) bs)
     \<and> structure_only w' = structure_only w"
proof -
  obtain f where f: "rp_files S c = Some f" using assms(2) by (auto simp: file_ok_def split: option.splits)
  obtain h sz where h: "content_header f c = (h, sz)" by fastforce
  show ?thesis
  proof (cases "B_File c \<in> set bs")
    case True
    then have "append_content E S c w = Inr ((h, sz), w)"
      using assms(3) by (simp add: append_content_def load_file_def f h exported_def)
    then show ?thesis using True assms(3) by (simp add: add_block_def)
  next
    case False
    obtain epss where e: "list_all2 (block_entries S) bs epss" "stream read (w_out w) = pre @ concat epss" "w_pax w = []"
      using assms(3) by (auto simp: exported_def)
    obtain pax where pax: "pax_xattrs (oe_xattr_list E (fo_xattrs f)) = Inr pax"
      using assms(2) f by (auto simp: file_ok_def is_ok_iff)
    define w1 where "w1 = w\<lparr>wrote_content := insert c (wrote_content w)\<rparr>"
    define w2 where "w2 = append_ostree_xattrs c (fo_xattrs f) w1"
    define w3 where "w3 = w2\<lparr>w_pax := pax\<rparr>"
    obtain b where b: "\<forall>w. append_body E f h w = Inr (tar_append b w)" "te_path b = object_path T_File c" "te_type b \<noteq> Directory"
        "\<forall>p. body_entry f (b\<lparr>te_pax := p\<rparr>)"
      using append_body_entry [OF assms(2) f] h by auto
    have w1: "w_pax w1 = []" "w_out w1 = w_out w" using e(3) by (simp_all add: w1_def)
    have w2: "w_pax w2 = []" by (simp add: w2_def append_ostree_xattrs_def)
    have op: "append_content E S c w = Inr ((h, sz), tar_append b w3)"
      using False assms(3) pax w2 b(1)
      by (simp add: append_content_def load_file_def f h exported_def append_tarstream_xattrs_def w3_def w2_def w1_def Let_def)
    obtain e1 where e1: "stream read (w_out w2) = pre @ concat epss @ [(e1, xattrp c)]"
        "te_type e1 = Regular" "te_data e1 = fo_xattrs f"
      using stream_default_data [OF assms(1) w1(1), of "take 2 c" c "''file-xattrs-link''" "fo_xattrs f"] e(2) w1(2)
      by (auto simp: w2_def append_ostree_xattrs_def xattrs_path_xattrp xattrp_def)
    have "stream read [b\<lparr>te_pax := pax\<rparr>] = [(b\<lparr>te_pax := pax\<rparr>, objp T_File c)]"
      unfolding objp_def by (rule stream_object [OF assms(1)]) (use b no_config in \<open>simp_all add: object_path_objp objp_def\<close>)
    then have st: "stream read (w_out (tar_append b w3)) =
        pre @ concat (epss @ [[(e1, xattrp c), (b\<lparr>te_pax := pax\<rparr>, objp T_File c)]])"
      using e1(1) by (simp add: tar_append_def w3_def)
    have "block_entries S (B_File c) [(e1, xattrp c), (b\<lparr>te_pax := pax\<rparr>, objp T_File c)]"
      using f e1 b by simp
    note blk = block_snoc [OF e(1) this]
    have "exported S read pre (tar_append b w3) (bs @ [B_File c])"
      using assms(3) False by (intro exportedI [OF _ blk st])
        (auto simp: w3_def w2_def w1_def tar_append_def append_ostree_xattrs_def exported_def)
    then show ?thesis
      using op False by (simp add: add_block_def w3_def w2_def w1_def tar_append_def append_ostree_xattrs_def)
  qed
qed

section \<open>The walk over a commit\<close>

text \<open>Paths of the checkout never lie in the repository of the stream.\<close>

definition safe_dir :: "cpath \<Rightarrow> bool" where
  "safe_dir p = (\<exists>ns. p = CurDir # rel ns \<and> (ns = [] \<or> hd ns \<noteq> ''sysroot''))"

lemma map_path_names:
  "\<exists>ms. map_path (CurDir # rel ns) = CurDir # rel ms \<and> (ms = ns \<or> hd ms = ''etc'') \<and> (ns \<noteq> [] \<longrightarrow> ms \<noteq> [])"
proof (cases "\<exists>r. ns = ''usr'' # ''etc'' # r")
  case True
  then obtain r where "ns = ''usr'' # ''etc'' # r" by blast
  then show ?thesis by (intro exI [of _ "''etc'' # r"]) (simp add: map_path_def map_path_inner_def)
next
  case False
  then have "strip_prefix (CurDir # rel [''usr'', ''etc'']) (CurDir # rel ns) = None"
    by (auto simp: strip_prefix_None_iff prefix_def map_eq_Cons_conv)
  then show ?thesis by (intro exI [of _ ns]) (simp add: map_path_def map_path_inner_def)
qed

lemma filter_rel [simp]: "filter (\<lambda>c. c \<noteq> CurDir) (rel ns) = rel ns"
  by (induction ns) auto

lemma prefix_REPO_rel: "prefix REPO_PREFIX (rel ms) \<longleftrightarrow> prefix [''sysroot'', ''ostree'', ''repo''] ms"
  by (auto simp: REPO_PREFIX_def prefix_def map_eq_Cons_conv)

lemma safe_child:
  assumes "safe_dir p"
  shows "off_repo (map_path (p @ [Normal n]))"
    and "\<not> (p = [CurDir] \<and> n = ''sysroot'') \<Longrightarrow> safe_dir (map_path (p @ [Normal n]))"
    and "map_path (p @ [Normal n]) \<noteq> [CurDir]"
proof -
  obtain ns where ns: "p = CurDir # rel ns" "ns = [] \<or> hd ns \<noteq> ''sysroot''"
    using assms unfolding safe_dir_def by blast
  obtain ms where ms: "map_path (p @ [Normal n]) = CurDir # rel ms" "ms = ns @ [n] \<or> hd ms = ''etc''" "ms \<noteq> []"
    using map_path_names [of "ns @ [n]"] ns(1) by auto
  have "\<not> prefix [''sysroot'', ''ostree'', ''repo''] ms"
    using ms(2,3) ns(2) by (cases ns) (auto simp: prefix_def)
  then show "off_repo (map_path (p @ [Normal n]))"
    by (simp add: ms(1) off_repo_def prefix_REPO_rel) (simp add: REPO_PREFIX_def)
  show "map_path (p @ [Normal n]) \<noteq> [CurDir]" using ms by simp
  assume "\<not> (p = [CurDir] \<and> n = ''sysroot'')"
  then show "safe_dir (map_path (p @ [Normal n]))"
    using ms ns by (cases ns) (auto simp: safe_dir_def)
qed

text \<open>
  A commit that can be exported: all objects of its tree are there, and the tree is not deeper than
  the bound. The contents of the directory \<^verbatim>\<open>sysroot\<close> of the root are never visited.
\<close>

definition dirtree_at :: "ostree_ops \<Rightarrow> repo \<Rightarrow> string \<Rightarrow> dirtree_obj" where
  "dirtree_at E S c = (case rp_meta S T_DirTree c of Some v \<Rightarrow> oe_dirtree E v | None \<Rightarrow> \<lparr>do_files = [], do_dirs = []\<rparr>)"

definition dir_ok :: "ostree_ops \<Rightarrow> repo \<Rightarrow> string \<Rightarrow> bool" where
  "dir_ok E S c =
     (meta_ok E S T_DirTree c \<and> list_all (\<lambda>(n, f). file_ok E S f) (do_files (dirtree_at E S c))
      \<and> list_all (\<lambda>(n, cc, mc). meta_ok E S T_DirMeta mc) (do_dirs (dirtree_at E S c)))"

primrec tree_ok :: "ostree_ops \<Rightarrow> repo \<Rightarrow> nat \<Rightarrow> bool \<Rightarrow> string \<Rightarrow> bool" where
  "tree_ok E S 0 root c = (dir_ok E S c \<and> do_dirs (dirtree_at E S c) = [])"
| "tree_ok E S (Suc d) root c =
     (dir_ok E S c \<and> list_all (\<lambda>(n, cc, mc). root \<and> n = ''sysroot'' \<or> tree_ok E S d False cc)
        (do_dirs (dirtree_at E S c)))"

definition own_blocks :: "ostree_ops \<Rightarrow> repo \<Rightarrow> bool \<Rightarrow> string \<Rightarrow> block set" where
  "own_blocks E S so c =
     insert (B_Meta T_DirTree c) (if so then {} else B_File ` snd ` set (do_files (dirtree_at E S c)))"

primrec tree_blocks :: "ostree_ops \<Rightarrow> repo \<Rightarrow> bool \<Rightarrow> nat \<Rightarrow> bool \<Rightarrow> string \<Rightarrow> block set" where
  "tree_blocks E S so 0 root c = own_blocks E S so c"
| "tree_blocks E S so (Suc d) root c =
     own_blocks E S so c \<union> (\<Union>(n, cc, mc) \<in> set (do_dirs (dirtree_at E S c)).
        insert (B_Meta T_DirMeta mc) (if root \<and> n = ''sysroot'' then {} else tree_blocks E S so d False cc))"

lemma exported_hardlink:
  "tar_reader read \<Longrightarrow> off_repo dest \<Longrightarrow> exported S read pre w bs \<Longrightarrow>
     exported S read pre (append_content_hardlink src h dest w) bs"
  unfolding append_content_hardlink_def Let_def by (auto intro!: exported_skip)

lemma structure_only_append [simp]:
  "structure_only (tar_append e w) = structure_only w"
  "structure_only (append_content_hardlink src h dest w) = structure_only w"
  "structure_only (append_dir p m w) = structure_only w"
  by (simp_all add: tar_append_def append_content_hardlink_def append_dir_def Let_def)

lemma exported_files:
  assumes "tar_reader read" and "safe_dir p"
  shows "list_all (\<lambda>(n, f). file_ok E S f) files \<Longrightarrow> exported S read pre w bs \<Longrightarrow>
    \<exists>w' bs'. append_files E S p files w = Inr w' \<and> exported S read pre w' bs'
        \<and> grows (B_File ` snd ` set files) bs bs' \<and> structure_only w' = structure_only w"
proof (induction files arbitrary: w bs)
  case (Cons nf files)
  obtain n c where nf: "nf = (n, c)" by (cases nf)
  have c: "file_ok E S c" using Cons.prems(1) nf by simp
  obtain h w1 where w1: "append_content E S c w = Inr (h, w1)" "exported S read pre w1 (add_block (B_File c) bs)"
      "structure_only w1 = structure_only w"
    using exported_content [OF assms(1) c Cons.prems(2)] by blast
  have "exported S read pre (append_content_hardlink (object_path T_File c) h (map_path (p @ [Normal n])) w1)
      (add_block (B_File c) bs)"
    by (rule exported_hardlink [OF assms(1) safe_child(1) [OF assms(2)] w1(2)])
  from Cons.IH [OF _ this] Cons.prems(1) w1(1,3) nf grows_trans [OF grows_add]
  show ?case by fastforce
qed auto

lemma exported_own:
  assumes "tar_reader read" and "dir_ok E S c" and "safe_dir p" and "exported S read pre w bs"
  shows "\<exists>w' bs'. append_dirtree_files E S p c w = Inr (do_dirs (dirtree_at E S c), w') \<and> exported S read pre w' bs'
        \<and> grows (own_blocks E S (structure_only w) c) bs bs' \<and> structure_only w' = structure_only w"
proof -
  obtain v where v: "rp_meta S T_DirTree c = Some v"
    using assms(2) by (auto simp: dir_ok_def meta_ok_def split: option.splits)
  obtain w1 where w1: "append_meta T_DirTree c v w = Inr w1" "exported S read pre w1 (add_block (B_Meta T_DirTree c) bs)"
      "structure_only w1 = structure_only w"
    using exported_meta [OF assms(1) _ v assms(4)] by blast
  have files: "list_all (\<lambda>(n, f). file_ok E S f) (do_files (oe_dirtree E v))"
    using assms(2) v by (simp add: dir_ok_def dirtree_at_def)
  obtain w2 bs2 where w2: "(if structure_only w1 then Inr w1 else append_files E S p (do_files (oe_dirtree E v)) w1) = Inr w2"
      "exported S read pre w2 bs2" "grows (own_blocks E S (structure_only w) c) bs bs2" "structure_only w2 = structure_only w"
    using exported_files [OF assms(1,3) files w1(2)] w1 v grows_trans [OF grows_add]
    by (cases "structure_only w1") (fastforce simp: own_blocks_def dirtree_at_def)+
  have "exported S read pre (w2\<lparr>wrote_vartmp := True\<rparr>) bs2" using w2(2) by (simp add: exported_def)
  then show ?thesis using v w1(1) w2 by (auto simp: append_dirtree_files_def load_variant_def dirtree_at_def)
qed

definition dir_blocks :: "ostree_ops \<Rightarrow> repo \<Rightarrow> bool \<Rightarrow> nat \<Rightarrow> bool \<Rightarrow> string \<times> string \<times> string \<Rightarrow> block set" where
  "dir_blocks E S so d root x = (case x of (n, cc, mc) \<Rightarrow>
     insert (B_Meta T_DirMeta mc) (if root \<and> n = ''sysroot'' then {} else tree_blocks E S so d False cc))"

text \<open>The subdirectories, given the claim for each of them.\<close>

lemma exported_dirs:
  assumes "tar_reader read" and "safe_dir p" and "p = [CurDir] \<longrightarrow> root"
    and IH: "\<forall>cc q w bs. tree_ok E S d False cc \<longrightarrow> safe_dir q \<longrightarrow> q \<noteq> [CurDir] \<longrightarrow> exported S read pre w bs \<longrightarrow> structure_only w = so \<longrightarrow>
      (\<exists>w' bs'. append_dirtree d E S q cc False w = Some (Inr w') \<and> exported S read pre w' bs'
         \<and> grows (tree_blocks E S so d False cc) bs bs' \<and> structure_only w' = so)"
  shows "list_all (\<lambda>(n, cc, mc). meta_ok E S T_DirMeta mc \<and> (root \<and> n = ''sysroot'' \<or> tree_ok E S d False cc)) ds \<Longrightarrow>
      exported S read pre w bs \<Longrightarrow> structure_only w = so \<Longrightarrow>
      \<exists>w' bs'. append_dirs d E S p ds root w = Some (Inr w') \<and> exported S read pre w' bs'
        \<and> grows (\<Union> (dir_blocks E S so d root ` set ds)) bs bs' \<and> structure_only w' = so"
proof (induction ds arbitrary: w bs)
  case Nil
  then show ?case by auto
next
  case (Cons nd ds)
  obtain n cc mc where nd: "nd = (n, cc, mc)" by (cases nd)
  obtain v where v: "rp_meta S T_DirMeta mc = Some v"
    using Cons.prems(1) nd by (auto simp: meta_ok_def split: option.splits)
  have ds: "list_all (\<lambda>(n, cc, mc). meta_ok E S T_DirMeta mc \<and> (root \<and> n = ''sysroot'' \<or> tree_ok E S d False cc)) ds"
    using Cons.prems(1) by simp
  obtain w1 where w1: "append_meta T_DirMeta mc v w = Inr w1" "exported S read pre w1 (add_block (B_Meta T_DirMeta mc) bs)"
      "structure_only w1 = so"
    using exported_meta [OF assms(1) _ v Cons.prems(2)] Cons.prems(3) by blast
  let ?q = "map_path (p @ [Normal n])"
  let ?w = "append_dir ?q (oe_dirmeta E v) w1"
  obtain w2 bs2 where w2: "append_dirs d E S p (nd # ds) root w = append_dirs d E S p ds root w2" "exported S read pre w2 bs2"
      "grows (dir_blocks E S so d root nd) bs bs2" "structure_only w2 = so"
  proof (cases "root \<and> n = ''sysroot''")
    case True
    then show ?thesis
      using that [of w1 "add_block (B_Meta T_DirMeta mc) bs"] v w1
      by (simp add: nd load_variant_def dir_blocks_def del: append_dirtree.simps)
  next
    case False
    have sub: "safe_dir ?q" "?q \<noteq> [CurDir]"
      using safe_child [OF assms(2)] False assms(3) by blast+
    have tr: "tree_ok E S d False cc" using Cons.prems(1) False nd by simp
    have ex: "exported S read pre ?w (add_block (B_Meta T_DirMeta mc) bs)"
      unfolding append_dir_def by (rule exported_skip [OF assms(1) _ w1(2)]) simp
    have so: "structure_only ?w = so" using w1(3) by simp
    from IH [rule_format, OF tr sub ex so] obtain w2 bs2 where
      w2: "append_dirtree d E S ?q cc False ?w = Some (Inr w2)" "exported S read pre w2 bs2"
        "grows (tree_blocks E S so d False cc) (add_block (B_Meta T_DirMeta mc) bs) bs2" "structure_only w2 = so"
      by auto
    have "append_dirs d E S p (nd # ds) root w = append_dirs d E S p ds root w2"
      using False v w1(1) w2(1) by (auto simp: nd load_variant_def Let_def simp del: append_dirtree.simps)
    then show ?thesis using that [of w2 bs2] w2 False grows_trans [OF grows_add w2(3)] by (auto simp: nd dir_blocks_def)
  qed
  from Cons.IH [OF ds w2(2,4)] w2(1) grows_trans [OF w2(3)] show ?case by (fastforce simp del: append_dirs.simps)
qed

lemma exported_dirtree:
  assumes "tar_reader read"
  shows "tree_ok E S d root c \<Longrightarrow> safe_dir p \<Longrightarrow> (p = [CurDir] \<longrightarrow> root) \<Longrightarrow> exported S read pre w bs \<Longrightarrow>
    structure_only w = so \<Longrightarrow>
    \<exists>w' bs'. append_dirtree d E S p c root w = Some (Inr w') \<and> exported S read pre w' bs'
      \<and> grows (tree_blocks E S so d root c) bs bs' \<and> structure_only w' = so"
proof (induction d arbitrary: root c p w bs)
  case 0
  have d: "dir_ok E S c" and nd: "do_dirs (dirtree_at E S c) = []" using 0 by simp_all
  from exported_own [OF assms d 0(2) 0(4)] 0(5) obtain w' bs' where
    "append_dirtree_files E S p c w = Inr (do_dirs (dirtree_at E S c), w')" and
    "exported S read pre w' bs'" "grows (own_blocks E S so c) bs bs'" "structure_only w' = so"
    by blast
  then show ?case using nd by (subst append_dirtree.simps) auto
next
  case (Suc d)
  have d: "dir_ok E S c" using Suc.prems(1) by simp
  from exported_own [OF assms d Suc.prems(2,4)] Suc.prems(5) obtain w1 bs1 where
    own: "append_dirtree_files E S p c w = Inr (do_dirs (dirtree_at E S c), w1)" and
    w1: "exported S read pre w1 bs1" "grows (own_blocks E S so c) bs bs1" "structure_only w1 = so"
    by blast
  have ds: "list_all (\<lambda>(n, cc, mc). meta_ok E S T_DirMeta mc \<and> (root \<and> n = ''sysroot'' \<or> tree_ok E S d False cc))
      (do_dirs (dirtree_at E S c))"
    using Suc.prems(1) d by (auto simp: dir_ok_def list_all_iff)
  have "append_dirtree (Suc d) E S p c root w = append_dirs d E S p (do_dirs (dirtree_at E S c)) root w1"
    by (subst append_dirtree.simps) (simp add: own)
  moreover have "tree_blocks E S so (Suc d) root c = own_blocks E S so c \<union> \<Union> (dir_blocks E S so d root ` set (do_dirs (dirtree_at E S c)))"
    by (auto simp: dir_blocks_def)
  moreover have "\<exists>w' bs'. append_dirs d E S p (do_dirs (dirtree_at E S c)) root w1 = Some (Inr w') \<and> exported S read pre w' bs'
        \<and> grows (\<Union> (dir_blocks E S so d root ` set (do_dirs (dirtree_at E S c)))) bs1 bs' \<and> structure_only w' = so"
    using Suc.IH by (intro exported_dirs [OF assms Suc.prems(2,3) _ ds w1(1,3)]) blast
  ultimately show ?case using grows_trans [OF w1(2)] by metis
qed

section \<open>A whole commit\<close>

definition commit_root :: "ostree_ops \<Rightarrow> repo \<Rightarrow> string \<Rightarrow> string \<times> string" where
  "commit_root E S c = (case rp_meta S T_Commit c of Some v \<Rightarrow> oe_commit_root E v | None \<Rightarrow> ([], []))"

definition commit_ok :: "ostree_ops \<Rightarrow> repo \<Rightarrow> nat \<Rightarrow> string \<Rightarrow> bool" where
  "commit_ok E S d c =
     (meta_ok E S T_Commit c \<and> meta_ok E S T_DirMeta (snd (commit_root E S c)) \<and> tree_ok E S d True (fst (commit_root E S c))
      \<and> (case rp_detached S c of None \<Rightarrow> True
         | Some m \<Rightarrow> length m \<le> MAX_METADATA_SIZE \<and> oe_normal_form E T_CommitMeta m = m))"

definition commit_blocks :: "ostree_ops \<Rightarrow> repo \<Rightarrow> bool \<Rightarrow> nat \<Rightarrow> string \<Rightarrow> block set" where
  "commit_blocks E S so d c =
     insert (B_Meta T_DirMeta (snd (commit_root E S c))) (tree_blocks E S so d True (fst (commit_root E S c)))"

lemma exported_default_dir:
  "tar_reader read \<Longrightarrow> exported S read pre w bs \<Longrightarrow> exported S read pre (append_default_dir p w) bs"
  unfolding append_default_dir_def by (rule exported_skip) simp_all

lemma exported_fold_dirs:
  assumes "tar_reader read"
  shows "exported S read pre w bs \<Longrightarrow> exported S read pre (fold (\<lambda>d. append_default_dir (f d)) ds w) bs"
  by (induction ds arbitrary: w) (auto intro: exported_default_dir [OF assms])

lemma exported_config:
  assumes "tar_reader read" and "exported S read pre w bs"
  shows "exported S read pre (tar_append_default_data (REPO_PREFIX @ [Normal ''config'']) v w) bs"
proof -
  define e where "e = new_gnu\<lparr>te_path := REPO_PREFIX @ rel [''config''], te_type := Regular, te_uid := 0, te_gid := 0,
      te_mode := 420, te_data := v, te_pax := w_pax w\<rparr>"
  obtain p where p: "read e = e\<lparr>te_path := p\<rparr>" "p = te_path e \<or> p = filter (\<lambda>c. c \<noteq> CurDir) (te_path e)"
    using assms(1) unfolding tar_reader_def by blast
  then have "p = REPO_PREFIX @ rel [''config'']" by (auto simp: e_def REPO_PREFIX_def)
  with p have "stream read [e] = []"
    by (simp add: stream_single filter_entry_def cp_file_name_def)
  then show ?thesis
    using assms(2) by (simp add: exported_def tar_append_default_data_def tar_append_def e_def)
qed

lemma exported_structure:
  assumes "tar_reader read" and "exported S read pre w bs"
  shows "exported S read pre (write_repo_structure w) bs"
proof -
  have f: "exported S read pre w bs \<Longrightarrow> exported S read pre (w\<lparr>wrote_initdirs := True\<rparr>) bs" for w
    by (simp add: exported_def)
  show ?thesis
    unfolding write_repo_structure_def Let_def
    using assms(2) by (auto intro!: f exported_config [OF assms(1)] exported_fold_dirs [OF assms(1)] exported_default_dir [OF assms(1)])
qed

lemma flags_default_dir [simp]:
  "structure_only (append_default_dir p w) = structure_only w" "w_raw (append_default_dir p w) = w_raw w"
  "w_raw (tar_append_default_data p v w) = w_raw w"
  by (simp_all add: append_default_dir_def tar_append_default_data_def tar_append_def)

lemma fold_default_dir [simp]:
  "structure_only (fold (\<lambda>d. append_default_dir (f d)) ds w) = structure_only w"
  "w_raw (fold (\<lambda>d. append_default_dir (f d)) ds w) = w_raw w"
  by (induction ds arbitrary: w) simp_all

lemma structure_only_repo [simp]:
  "structure_only (write_repo_structure w) = structure_only w" "w_raw (write_repo_structure w) = w_raw w"
  by (simp_all add: write_repo_structure_def Let_def)

lemma exported_prelude:
  assumes "tar_reader read" and "exported S read pre w []"
  shows "\<exists>e. exported S read (pre @ [(e, objp t c)]) (tar_append_default_data (object_path t c) v w) []
    \<and> te_type e = Regular \<and> te_data e = v"
  using stream_default_data [OF assms(1), of w "take 2 c" c "obj_suffix t" v] assms(2)
  by (auto simp: exported_def object_path_objp objp_def)

lemma exported_standard_var:
  assumes "tar_reader read" and "exported S read pre w bs"
  shows "exported S read pre (append_standard_var w) bs"
  unfolding append_standard_var_def using assms by (auto intro!: exported_skip)

text \<open>The stream starts with the commit, its detached metadata, and the metadata of the root.\<close>

definition detached_entries :: "repo \<Rightarrow> string \<Rightarrow> (tar_entry \<times> cpath) list \<Rightarrow> bool" where
  "detached_entries S c det =
     (case rp_detached S c of None \<Rightarrow> det = []
      | Some m \<Rightarrow> \<exists>me. det = [(me, objp T_CommitMeta c)] \<and> te_type me = Regular \<and> te_data me = m)"

lemma exported_commit_object:
  assumes "tar_reader read" and "exported S read [] w []"
  shows "\<exists>w' ce det. append_commit_object S c v w = Inr w' \<and> exported S read ((ce, objp T_Commit c) # det) w' []
    \<and> structure_only w' = structure_only w \<and> te_type ce = Regular \<and> te_data ce = v \<and> detached_entries S c det"
proof -
  let ?w = "tar_append_default_data (object_path T_Commit c) v w"
  obtain ce where ce: "exported S read ([] @ [(ce, objp T_Commit c)]) ?w []" "te_type ce = Regular" "te_data ce = v"
    using exported_prelude [OF assms, of T_Commit c v] by blast
  show ?thesis
  proof (cases "rp_detached S c")
    case None
    then show ?thesis using ce by (auto simp: append_commit_object_def append_meta_def detached_entries_def)
  next
    case (Some m)
    from exported_prelude [OF assms(1) ce(1), of T_CommitMeta c m] obtain me where
      "exported S read (([] @ [(ce, objp T_Commit c)]) @ [(me, objp T_CommitMeta c)]) (tar_append_default_data (object_path T_CommitMeta c) m ?w) []"
      "te_type me = Regular" "te_data me = m" by blast
    with Some ce show ?thesis by (auto simp: append_commit_object_def append_meta_def detached_entries_def)
  qed
qed

lemma exported_commit:
  assumes "tar_reader read" and "commit_ok E S d c" and "rp_meta S T_Commit c = Some v"
  shows "\<exists>w' bs ce det. write_commit d E S c v (writer_new\<lparr>structure_only := so\<rparr>) = Some (Inr w')
    \<and> exported S read ((ce, objp T_Commit c) # det) w' (B_Meta T_DirMeta (snd (commit_root E S c)) # bs)
    \<and> set (B_Meta T_DirMeta (snd (commit_root E S c)) # bs) = commit_blocks E S so d c
    \<and> te_type ce = Regular \<and> te_data ce = v \<and> structure_only w' = so \<and> detached_entries S c det"
proof -
  obtain contents mc where root: "oe_commit_root E v = (contents, mc)" by fastforce
  then have cr: "commit_root E S c = (contents, mc)" using assms(3) by (simp add: commit_root_def)
  obtain mv where mv: "rp_meta S T_DirMeta mc = Some mv"
    using assms(2) cr by (auto simp: commit_ok_def meta_ok_def split: option.splits)
  let ?w0 = "append_dir [CurDir] (oe_dirmeta E mv) (writer_new\<lparr>structure_only := so\<rparr>)"
  have "exported S read [] (writer_new\<lparr>structure_only := so\<rparr>) []"
    by (simp add: exported_def writer_new_def stream_def List.map_filter_def)
  then have "exported S read [] ?w0 []"
    unfolding append_dir_def by (intro exported_skip [OF assms(1)]) simp_all
  from exported_commit_object [OF assms(1) exported_structure [OF assms(1) this], of c v]
  obtain w3 ce det where w3: "append_commit_object S c v (write_repo_structure ?w0) = Inr w3"
      "exported S read ((ce, objp T_Commit c) # det) w3 []" "structure_only w3 = so"
      "te_type ce = Regular" "te_data ce = v" "detached_entries S c det" by auto
  obtain w4 where w4: "append_meta T_DirMeta mc mv w3 = Inr w4"
      "exported S read ((ce, objp T_Commit c) # det) w4 [B_Meta T_DirMeta mc]" "structure_only w4 = so"
    using exported_meta [OF assms(1) _ mv w3(2)] w3(3) by (auto simp: add_block_def)
  have tr: "tree_ok E S d True contents" using assms(2) cr by (simp add: commit_ok_def)
  have sd: "safe_dir [CurDir]" by (simp add: safe_dir_def)
  obtain w5 bs' where w5: "append_dirtree d E S [CurDir] contents True w4 = Some (Inr w5)"
      "exported S read ((ce, objp T_Commit c) # det) w5 bs'" "grows (tree_blocks E S so d True contents) [B_Meta T_DirMeta mc] bs'"
      "structure_only w5 = so"
    using exported_dirtree [OF assms(1) tr sd _ w4(2,3)] by auto
  then obtain bs where bs: "bs' = B_Meta T_DirMeta mc # bs" by (auto simp: grows_def prefix_def)
  have "write_commit d E S c v (writer_new\<lparr>structure_only := so\<rparr>) = Some (Inr (append_standard_var w5))"
    using w3(1) w4(1) w5(1) mv
    by (simp add: write_commit_def root load_variant_def append_dir_def tar_append_def writer_new_def Let_def del: append_dirtree.simps)
  moreover have "structure_only (append_standard_var w5) = so" using w5(4) by (simp add: append_standard_var_def)
  moreover have "set bs' = commit_blocks E S so d c" using w5(3) by (auto simp: grows_def commit_blocks_def cr)
  ultimately show ?thesis
    using exported_standard_var [OF assms(1) w5(2)] w3(4-6) unfolding bs cr snd_conv by blast
qed

section \<open>Importing an exported commit\<close>

lemma suffix_no_dot: "CHR ''.'' \<notin> set (obj_suffix t)"
  by (cases t) simp_all

lemma objtype_suffix: "objtype_from_string (obj_suffix t) = Some t"
  by (cases t) (simp_all add: objtype_from_string_def)

lemma parse_objp: "is_checksum c \<Longrightarrow> parse_metadata_entry (objp t c) = Inr (c, t)"
  using parse_object_path_gen(1) [OF _ suffix_no_dot, of c "[Normal ''objects'']" t]
    parse_object_path_gen(2) [OF _ suffix_no_dot, of c t]
  by (simp add: parse_metadata_entry_def objp_def objtype_suffix)

lemma import_object_objp:
  assumes "is_checksum c"
  shows "import_object E e (objp t c) im = import_step E (e, objp t c) im"
  using parse_object_path_gen(1) [OF assms suffix_no_dot, of "[Normal ''objects'']" t]
    parse_object_path_gen(1) [OF assms suffix_no_dot, of "[]" t]
  by (simp add: import_step_def import_object_def objp_def)

text \<open>The repository with the commit object, marked as partial, and its detached metadata.\<close>

definition with_commit :: "repo \<Rightarrow> string \<Rightarrow> repo \<Rightarrow> repo" where
  "with_commit S c r =
     (let r = mark_commit_partial c True r;
          r = r\<lparr>rp_meta := (rp_meta r)(T_Commit := (rp_meta r T_Commit)(c := rp_meta S T_Commit c))\<rparr>
      in case rp_detached S c of Some m \<Rightarrow> write_detached c m r | None \<Rightarrow> r)"

definition verified :: "ostree_ops \<Rightarrow> repo \<Rightarrow> string \<Rightarrow> string option \<Rightarrow> bool" where
  "verified E S c remote =
     (case remote of None \<Rightarrow> True
      | Some rm \<Rightarrow> (case (rp_meta S T_Commit c, rp_detached S c) of
                      (Some v, Some m) \<Rightarrow> is_ok (oe_verify E rm v m) | _ \<Rightarrow> False))"

lemma variant_read:
  "te_type e = Regular \<Longrightarrow> length (te_data e) \<le> MAX_METADATA_SIZE \<Longrightarrow> entry_to_variant E t e = Inr (oe_normal_form E t (te_data e))"
  by (simp add: entry_to_variant_def validate_metadata_header_def)

lemma fold_track_Commit [simp]: "fold track bs (Commit x) = Commit x"
  by (induction bs) simp_all

lemma agree_with_commit: "agree S r \<Longrightarrow> agree S (with_commit S c r)"
  by (auto simp: agree_def with_commit_def mark_commit_partial_def write_detached_def Let_def split: option.splits)

lemma commit_written:
  assumes "meta_ok E S T_Commit c" and "rp_meta S T_Commit c = Some v"
  shows "write_commit_obj E c v im = Inr (im\<lparr>im_repo := (mark_commit_partial c True (im_repo im))
     \<lparr>rp_meta := (rp_meta (im_repo im))(T_Commit := (rp_meta (im_repo im) T_Commit)(c := Some v))\<rparr>\<rparr>)"
  using assms by (simp add: write_commit_obj_def write_metadata_def meta_ok_def mark_commit_partial_def Let_def)

text \<open>The first entries of a stream with detached metadata.\<close>

lemma import_detached:
  assumes "commit_ok E S d c" and "rp_meta S T_Commit c = Some v" and "rp_detached S c = Some m"
    and "te_type me = Regular" and "te_data me = m" and "verified E S c remote"
    and "im = new_for_commit r remote"
  shows "\<exists>vt. (case remote of
       Some rm \<Rightarrow> import_verified E rm c v me (c, T_CommitMeta) im
     | None \<Rightarrow> import_unverified E c v me (objp T_CommitMeta c) im) =
     Inr (im\<lparr>im_repo := with_commit S c r, im_verify_text := vt\<rparr>)"
proof -
  have c: "meta_ok E S T_Commit c" "is_checksum c" using assms(1) by (auto simp: commit_ok_def meta_ok_def)
  have m: "entry_to_variant E T_CommitMeta me = Inr m"
    using assms(1,3-5) by (simp add: variant_read commit_ok_def)
  have w: "with_commit S c r = write_detached c m ((mark_commit_partial c True r)
     \<lparr>rp_meta := (rp_meta r)(T_Commit := (rp_meta r T_Commit)(c := Some v))\<rparr>)"
    using assms(2,3) by (simp add: with_commit_def Let_def mark_commit_partial_def)
  show ?thesis
  proof (cases remote)
    case None
    then show ?thesis
      using assms(7) by (simp add: import_unverified_def commit_written [OF c(1) assms(2)] parse_objp [OF c(2)] m w lift_res_def new_for_commit_def)
  next
    case (Some rm)
    then obtain vt where "oe_verify E rm v m = Inr vt" using assms(2,3,6) by (auto simp: verified_def is_ok_iff)
    then show ?thesis
      using Some assms(7) by (simp add: import_verified_def commit_written [OF c(1) assms(2)] m w lift_res_def new_for_commit_def)
  qed
qed

text \<open>The repository after the blocks of the stream.\<close>

lemma fold_put:
  "rp_meta (fold (put S) bs r) t c = (if B_Meta t c \<in> set bs then rp_meta S t c else rp_meta r t c)"
  "rp_files (fold (put S) bs r) c = (if B_File c \<in> set bs then rp_files S c else rp_files r c)"
  "rp_detached (fold (put S) bs r) = rp_detached r" "rp_partial (fold (put S) bs r) = rp_partial r"
proof -
  have "rp_detached (put S b r) = rp_detached r \<and> rp_partial (put S b r) = rp_partial r" for b r by (cases b) simp_all
  then show "rp_detached (fold (put S) bs r) = rp_detached r" "rp_partial (fold (put S) bs r) = rp_partial r"
    by (induction bs arbitrary: r) simp_all
  have m: "rp_meta (put S b r) t c = (if b = B_Meta t c then rp_meta S t c else rp_meta r t c)"
    and f: "rp_files (put S b r) c = (if b = B_File c then rp_files S c else rp_files r c)" for b r
    by (cases b; auto)+
  show "rp_meta (fold (put S) bs r) t c = (if B_Meta t c \<in> set bs then rp_meta S t c else rp_meta r t c)"
    by (induction bs arbitrary: r) (auto simp: m simp del: put.simps)
  show "rp_files (fold (put S) bs r) c = (if B_File c \<in> set bs then rp_files S c else rp_files r c)"
    by (induction bs arbitrary: r) (auto simp: f simp del: put.simps)
qed

lemma commit_blocks_ok:
  assumes "commit_ok E S d c"
  shows "\<forall>b \<in> commit_blocks E S so d c. block_ok E S b"
proof -
  have own: "dir_ok E S c \<Longrightarrow> b \<in> own_blocks E S so c \<Longrightarrow> block_ok E S b" for c b
    by (auto simp: own_blocks_def dir_ok_def list_all_iff split: if_splits)
  have "tree_ok E S d root c \<Longrightarrow> b \<in> tree_blocks E S so d root c \<Longrightarrow> block_ok E S b" for root c b
  proof (induction d arbitrary: root c)
    case (Suc d)
    then show ?case by (auto simp: dir_ok_def list_all_iff intro: own split: if_splits)
  qed (auto intro: own)
  then show ?thesis using assms by (auto simp: commit_blocks_def commit_ok_def)
qed

text \<open>Without detached metadata, the entry after the commit is the metadata of the root.\<close>

lemma import_plain:
  assumes "meta_ok E S T_Commit c" and "rp_meta S T_Commit c = Some v" and "rp_detached S c = None"
    and "block_ok E S (B_Meta T_DirMeta mc)" and "block_entries S (B_Meta T_DirMeta mc) [(e, objp T_DirMeta mc)]"
    and "im = new_for_commit r remote"
  shows "\<exists>st. import_unverified E c v e (objp T_DirMeta mc) im =
      Inr (im\<lparr>im_stats := st, im_repo := put S (B_Meta T_DirMeta mc) (with_commit S c r)\<rparr>)"
proof -
  have mc: "is_checksum mc" using assms(4) by (simp add: meta_ok_def)
  have w: "with_commit S c r = (mark_commit_partial c True r)
     \<lparr>rp_meta := (rp_meta r)(T_Commit := (rp_meta r T_Commit)(c := Some v))\<rparr>"
    using assms(2,3) by (simp add: with_commit_def Let_def mark_commit_partial_def)
  have im: "im_data im = Commit None" "im_repo im = r" using assms(6) by (simp_all add: new_for_commit_def)
  obtain st where "import_step E (e, objp T_DirMeta mc) (im\<lparr>im_repo := with_commit S c r\<rparr>) =
      Inr (im\<lparr>im_stats := st, im_repo := put S (B_Meta T_DirMeta mc) (with_commit S c r)\<rparr>)"
    using import_meta_block [OF assms(4,5), of "im\<lparr>im_repo := with_commit S c r\<rparr>" None] im(1) by (auto simp: rbind_Inr_iff)
  then show ?thesis
    by (intro exI [of _ st]) (simp add: import_unverified_def commit_written [OF assms(1,2)] parse_objp [OF mc] im lift_res_def w
        import_object_objp [OF mc] del: put.simps)
qed

text \<open>The machine over the stream of a commit.\<close>

lemma import_exported:
  assumes "commit_ok E S d c" and "rp_meta S T_Commit c = Some v" and "verified E S c remote" and "agree S r"
    and ce: "te_type ce = Regular" "te_data ce = v" and det: "detached_entries S c det"
    and blk: "list_all2 (block_entries S) (B_Meta T_DirMeta mc # bs) epss"
    and ok: "\<forall>b \<in> set (B_Meta T_DirMeta mc # bs). block_ok E S b"
    and out: "List.map_filter filter_entry archive = (ce, objp T_Commit c) # det @ concat epss"
  shows "\<exists>im. import_commit E archive (new_for_commit r remote) = Inr im \<and> im_data im = Commit (Some c)
    \<and> im_repo im = fold (put S) (B_Meta T_DirMeta mc # bs) (with_commit S c r)"
proof -
  let ?im = "new_for_commit r remote"
  have c: "meta_ok E S T_Commit c" "is_checksum c" using assms(1) by (auto simp: commit_ok_def meta_ok_def)
  have cv: "entry_to_variant E T_Commit ce = Inr v"
    using c(1) assms(2) ce by (simp add: variant_read meta_ok_def)
  note start = import_commit_def out ce cv parse_objp [OF c(2)] lift_res_def
  have im: "im_data ?im = Commit None" "im_remote ?im = remote" "im_next_xattrs ?im = None" "im_repo ?im = r"
    by (simp_all add: new_for_commit_def)
  show ?thesis
  proof (cases "rp_detached S c")
    case (Some m)
    then obtain me where me: "det = [(me, objp T_CommitMeta c)]" "te_type me = Regular" "te_data me = m"
      using det by (auto simp: detached_entries_def)
    obtain vt where first: "(case remote of
         Some rm \<Rightarrow> import_verified E rm c v me (c, T_CommitMeta) ?im
       | None \<Rightarrow> import_unverified E c v me (objp T_CommitMeta c) ?im) =
       Inr (?im\<lparr>im_repo := with_commit S c r, im_verify_text := vt\<rparr>)"
      using import_detached [OF assms(1,2) Some me(2,3) assms(3) refl] by blast
    let ?im1 = "?im\<lparr>im_repo := with_commit S c r, im_verify_text := vt, im_data := Commit (Some c)\<rparr>"
    obtain im2 where "import_objects_impl E (concat epss) ?im1 = Inr im2" "advanced S (B_Meta T_DirMeta mc # bs) ?im1 im2"
      using import_blocks [OF blk ok, of ?im1] agree_with_commit [OF assms(4)] im by auto
    then show ?thesis using first im me(1) by (auto simp: start advanced_def)
  next
    case None
    obtain e epss1 where e: "epss = [(e, objp T_DirMeta mc)] # epss1" "block_entries S (B_Meta T_DirMeta mc) [(e, objp T_DirMeta mc)]"
        "list_all2 (block_entries S) bs epss1"
      using blk by (auto simp: list_all2_Cons1)
    have mc: "is_checksum mc" and b: "block_ok E S (B_Meta T_DirMeta mc)" using ok by (simp_all add: meta_ok_def)
    have rm: "remote = None" using assms(3) None by (auto simp: verified_def split: option.splits)
    obtain st where first: "import_unverified E c v e (objp T_DirMeta mc) ?im =
        Inr (?im\<lparr>im_stats := st, im_repo := put S (B_Meta T_DirMeta mc) (with_commit S c r)\<rparr>)"
      using import_plain [OF c(1) assms(2) None b e(2) refl] by blast
    let ?im2 = "?im\<lparr>im_stats := st, im_repo := put S (B_Meta T_DirMeta mc) (with_commit S c r), im_data := Commit (Some c)\<rparr>"
    have "agree S (im_repo ?im2)" using agree_put [OF agree_with_commit [OF assms(4)]] by (simp del: put.simps)
    then obtain im3 where "import_objects_impl E (concat epss1) ?im2 = Inr im3" "advanced S bs ?im2 im3"
      using import_blocks [OF e(3), of E ?im2] ok im by auto
    then show ?thesis
      using first im rm det None e(1) by (auto simp: start parse_objp [OF mc] detached_entries_def advanced_def simp del: put.simps)
  qed
qed

text \<open>A repository holds the object of a block as another one does.\<close>

fun holds :: "repo \<Rightarrow> repo \<Rightarrow> block \<Rightarrow> bool" where
  "holds S r (B_Meta t c) = (rp_meta S t c \<noteq> None \<and> rp_meta r t c = rp_meta S t c)"
| "holds S r (B_File c) = (rp_files S c \<noteq> None \<and> rp_files r c = rp_files S c)"

lemma holds_put: "b \<in> set bs \<Longrightarrow> block_ok E S b \<Longrightarrow> holds S (mark_commit_partial c x (fold (put S) bs r)) b"
  by (cases b) (auto simp: fold_put mark_commit_partial_def meta_ok_def file_ok_def split: option.splits)

lemma exported_out:
  assumes "exported S read pre w bs"
  shows "\<exists>epss. list_all2 (block_entries S) bs epss \<and> List.map_filter filter_entry (map read (w_out w)) = pre @ concat epss"
  using assms by (auto simp: exported_def stream_def)

text \<open>Objects of other blocks are as before.\<close>

definition untouched :: "block set \<Rightarrow> repo \<Rightarrow> repo \<Rightarrow> bool" where
  "untouched B r r' = ((\<forall>t x. t \<noteq> T_Commit \<longrightarrow> B_Meta t x \<notin> B \<longrightarrow> rp_meta r' t x = rp_meta r t x)
     \<and> (\<forall>x. B_File x \<notin> B \<longrightarrow> rp_files r' x = rp_files r x))"

text \<open>Importing a stream with the given blocks.\<close>

lemma import_tar_exported:
  assumes "commit_ok E S d c" and "rp_meta S T_Commit c = Some v" and "verified E S c remote" and "agree S r"
    and "te_type ce = Regular" "te_data ce = v" and "detached_entries S c det"
    and "exported S read ((ce, objp T_Commit c) # det) w (B_Meta T_DirMeta mc # bs)"
    and ok: "\<forall>b \<in> set (B_Meta T_DirMeta mc # bs). block_ok E S b"
  shows "\<exists>r'. import_tar E (map read (w_out w)) remote r = Inr (c, r') \<and> c \<notin> rp_partial r'
    \<and> rp_meta r' T_Commit c = rp_meta S T_Commit c \<and> (rp_detached S c \<noteq> None \<longrightarrow> rp_detached r' c = rp_detached S c)
    \<and> (\<forall>b \<in> set (B_Meta T_DirMeta mc # bs). holds S r' b)
    \<and> (\<forall>x. rp_files r' x = rp_files S x \<or> rp_files r' x = rp_files r x)
    \<and> untouched (set (B_Meta T_DirMeta mc # bs)) r r'"
proof -
  let ?bs = "B_Meta T_DirMeta mc # bs"
  obtain epss where epss: "list_all2 (block_entries S) ?bs epss"
      "List.map_filter filter_entry (map read (w_out w)) = (ce, objp T_Commit c) # det @ concat epss"
    using exported_out [OF assms(8)] by auto
  obtain im where im: "import_commit E (map read (w_out w)) (new_for_commit r remote) = Inr im" "im_data im = Commit (Some c)"
      "im_repo im = fold (put S) ?bs (with_commit S c r)"
    using import_exported [OF assms(1-7) epss(1) ok epss(2)] by blast
  let ?r = "mark_commit_partial c False (im_repo im)"
  have "import_tar E (map read (w_out w)) remote r = Inr (c, ?r)"
    using im(1,2) by (simp add: import_tar_def finish_import_commit_def)
  moreover have "\<forall>b \<in> set ?bs. holds S ?r b" using ok unfolding im(3) by (blast intro: holds_put)
  moreover have "B_Meta T_Commit c \<notin> set ?bs" using ok by force
  then have "rp_meta ?r T_Commit c = rp_meta S T_Commit c \<and> c \<notin> rp_partial ?r
      \<and> (rp_detached S c \<noteq> None \<longrightarrow> rp_detached ?r c = rp_detached S c)"
    unfolding im(3)
    by (auto simp: fold_put mark_commit_partial_def with_commit_def write_detached_def Let_def simp del: fold_simps split: option.splits)
  moreover have "(\<forall>x. rp_files ?r x = rp_files S x \<or> rp_files ?r x = rp_files r x) \<and> untouched (set ?bs) r ?r"
    unfolding im(3) untouched_def
    by (auto simp: fold_put mark_commit_partial_def with_commit_def write_detached_def Let_def
        simp del: fold_simps split: option.splits)
  ultimately show ?thesis by blast
qed

lemma commit_roundtrip:
  assumes "tar_reader read" and "commit_ok E S d c" and "verified E S c remote" and "agree S r"
  shows "\<exists>out r'. impl_export d E S c = Some (Inr out) \<and> import_tar E (map read out) remote r = Inr (c, r')
    \<and> c \<notin> rp_partial r' \<and> rp_meta r' T_Commit c = rp_meta S T_Commit c
    \<and> (rp_detached S c \<noteq> None \<longrightarrow> rp_detached r' c = rp_detached S c)
    \<and> (\<forall>b \<in> commit_blocks E S False d c. holds S r' b) \<and> untouched (commit_blocks E S False d c) r r'"
proof -
  obtain v where v: "rp_meta S T_Commit c = Some v"
    using assms(2) by (auto simp: commit_ok_def meta_ok_def split: option.splits)
  obtain w bs ce det where w: "write_commit d E S c v (writer_new\<lparr>structure_only := False\<rparr>) = Some (Inr w)"
      "exported S read ((ce, objp T_Commit c) # det) w (B_Meta T_DirMeta (snd (commit_root E S c)) # bs)"
      "set (B_Meta T_DirMeta (snd (commit_root E S c)) # bs) = commit_blocks E S False d c"
      "te_type ce = Regular" "te_data ce = v" "detached_entries S c det"
    using exported_commit [OF assms(1,2) v] by blast
  have "writer_new\<lparr>structure_only := False\<rparr> = writer_new" by (simp add: writer_new_def)
  then have "impl_export d E S c = Some (Inr (w_out w))" using w(1) v by (simp add: impl_export_def load_variant_def)
  moreover have ok: "\<forall>b \<in> set (B_Meta T_DirMeta (snd (commit_root E S c)) # bs). block_ok E S b"
    using commit_blocks_ok [OF assms(2)] unfolding w(3) by blast
  note import_tar_exported [OF assms(2) v assms(3,4) w(4-6) w(2) ok, unfolded w(3)]
  ultimately show ?thesis by blast
qed

text \<open>
  C2. Exporting a commit and importing the stream is lossless: the export succeeds, and importing
  what it wrote, into any repository that does not contradict the source, with or without verifying
  signatures, succeeds with the same commit. The commit, its detached metadata and every object of
  its tree that the walk visits are then in the repository, equal to the source, the commit is no
  longer marked as partial, and no other content object is touched. File modes lose their type bits
  in the stream and regain them, ids pass through 64 bits, and attributes travel in an object of
  their own.
\<close>

theorem tar_commit_roundtrip:
  assumes "tar_reader read" and "commit_ok E S d c" and "verified E S c remote" and "agree S r"
  shows "\<exists>out r'. impl_export d E S c = Some (Inr out) \<and> import_tar E (map read out) remote r = Inr (c, r')
    \<and> c \<notin> rp_partial r' \<and> rp_meta r' T_Commit c = rp_meta S T_Commit c
    \<and> (rp_detached S c \<noteq> None \<longrightarrow> rp_detached r' c = rp_detached S c)
    \<and> (\<forall>b \<in> commit_blocks E S False d c. holds S r' b)
    \<and> (\<forall>x. B_File x \<notin> commit_blocks E S False d c \<longrightarrow> rp_files r' x = rp_files r x)"
  using commit_roundtrip [OF assms] unfolding untouched_def by blast

text \<open>
  The tree object of the directory \<^verbatim>\<open>sysroot\<close> is not exported unless it occurs elsewhere: the imported
  commit then refers to an object that the repository does not have, and is not marked as partial.
\<close>

theorem sysroot_tree_lost:
  assumes "tar_reader read" and "commit_ok E S d c" and "agree S r"
    and "(''sysroot'', s, m) \<in> set (do_dirs (dirtree_at E S (fst (commit_root E S c))))"
    and "B_Meta T_DirTree s \<notin> commit_blocks E S False d c" and "rp_meta r T_DirTree s = None"
  shows "\<exists>out r'. impl_export d E S c = Some (Inr out) \<and> import_tar E (map read out) None r = Inr (c, r')
    \<and> c \<notin> rp_partial r' \<and> rp_meta r' T_DirTree s = None"
  using commit_roundtrip [OF assms(1,2) _ assms(3), of None] assms(5,6) unfolding untouched_def verified_def
  by fastforce

section \<open>An example\<close>

text \<open>
  A commit with a file, a link, a directory and an empty \<^verbatim>\<open>sysroot\<close>. Objects are single letters, and
  the checksum of an object repeats one digit.
\<close>

definition demo_csum :: "char \<Rightarrow> string" where
  "demo_csum x = replicate 64 x"

definition demo_file :: file_obj where
  "demo_file = \<lparr>fo_uid = 0, fo_gid = 7, fo_mode = 33188, fo_xattrs = [], fo_body = RegularFile ''hi''\<rparr>"

definition demo_link :: file_obj where
  "demo_link = \<lparr>fo_uid = 0, fo_gid = 0, fo_mode = 41471, fo_xattrs = ''x'', fo_body = SymbolicLink ''a//b''\<rparr>"

definition demo_ops :: ostree_ops where
  "demo_ops = \<lparr>oe_meta_csum = (\<lambda>t v. demo_csum (if v = ''c'' then CHR ''c'' else if v = ''t'' then CHR ''1'' else if v = ''u'' then CHR ''2''
        else if v = ''s'' then CHR ''4'' else CHR ''3'')),
     oe_file_csum = (\<lambda>f. demo_csum (case fo_body f of RegularFile _ \<Rightarrow> CHR ''f'' | SymbolicLink _ \<Rightarrow> CHR ''e'')),
     oe_sha256 = (\<lambda>x. x), oe_normal_form = (\<lambda>t v. v), oe_verify = (\<lambda>_ _ _. Inr ''good''),
     oe_commit_root = (\<lambda>_. (demo_csum CHR ''1'', demo_csum CHR ''3'')),
     oe_dirtree = (\<lambda>v. if v = ''t'' then \<lparr>do_files = [(''f'', demo_csum CHR ''f''), (''l'', demo_csum CHR ''e'')],
          do_dirs = [(''d'', demo_csum CHR ''2'', demo_csum CHR ''3''), (''sysroot'', demo_csum CHR ''4'', demo_csum CHR ''3'')]\<rparr>
        else \<lparr>do_files = [], do_dirs = []\<rparr>),
     oe_dirmeta = (\<lambda>_. \<lparr>dm_uid = 0, dm_gid = 0, dm_mode = 16877\<rparr>),
     oe_xattr_list = (\<lambda>v. if v = ''x'' then [(''user.a'' @ [CHR 0x00], ''1'')] else []), oe_symlink_mode = 41471, oe_tar_link = (\<lambda>t. t)\<rparr>"

definition demo_repo :: repo where
  "demo_repo = \<lparr>rp_meta = (\<lambda>t c. if t = T_Commit \<and> c = demo_csum CHR ''c'' then Some ''c''
       else if t = T_DirTree \<and> c = demo_csum CHR ''1'' then Some ''t''
       else if t = T_DirTree \<and> c = demo_csum CHR ''2'' then Some ''u''
       else if t = T_DirTree \<and> c = demo_csum CHR ''4'' then Some ''s''
       else if t = T_DirMeta \<and> c = demo_csum CHR ''3'' then Some ''m'' else None),
     rp_files = (\<lambda>c. if c = demo_csum CHR ''f'' then Some demo_file else if c = demo_csum CHR ''e'' then Some demo_link else None),
     rp_detached = (\<lambda>_. None), rp_partial = {}\<rparr>"

definition empty_repo :: repo where
  "empty_repo = \<lparr>rp_meta = (\<lambda>_ _. None), rp_files = (\<lambda>_. None), rp_detached = (\<lambda>_. None), rp_partial = {}\<rparr>"

lemma demo_csum_eq [simp]: "demo_csum x = demo_csum y \<longleftrightarrow> x = y"
  by (simp add: demo_csum_def)

lemma demo_csum_ok: "is_lower_hex x \<Longrightarrow> is_checksum (demo_csum x)"
  by (simp add: demo_csum_def is_checksum_def list_all_iff)

lemma demo_hex: "is_lower_hex CHR ''c''" "is_lower_hex CHR ''1''" "is_lower_hex CHR ''2''" "is_lower_hex CHR ''3''"
  "is_lower_hex CHR ''4''" "is_lower_hex CHR ''e''" "is_lower_hex CHR ''f''"
  by (simp_all add: is_lower_hex_def less_eq_char_def)

lemma demo_meta_ok:
  "meta_ok demo_ops demo_repo T_Commit (demo_csum CHR ''c'')" "meta_ok demo_ops demo_repo T_DirTree (demo_csum CHR ''1'')"
  "meta_ok demo_ops demo_repo T_DirTree (demo_csum CHR ''2'')" "meta_ok demo_ops demo_repo T_DirMeta (demo_csum CHR ''3'')"
  by (simp_all add: meta_ok_def demo_csum_ok demo_hex demo_ops_def demo_repo_def MAX_METADATA_SIZE_def)

lemma demo_file_ok: "file_ok demo_ops demo_repo (demo_csum CHR ''f'')" "file_ok demo_ops demo_repo (demo_csum CHR ''e'')"
  by (simp_all add: file_ok_def demo_csum_ok demo_hex demo_ops_def demo_repo_def demo_file_def demo_link_def MAX_XATTR_SIZE_def
      S_IFMT_def S_IFREG_def symlink_is_denormal_def c_str_from_def LINK_FIELD_SIZE_def)

lemma demo_trees:
  "dirtree_at demo_ops demo_repo (demo_csum CHR ''1'') = \<lparr>do_files = [(''f'', demo_csum CHR ''f''), (''l'', demo_csum CHR ''e'')],
      do_dirs = [(''d'', demo_csum CHR ''2'', demo_csum CHR ''3''), (''sysroot'', demo_csum CHR ''4'', demo_csum CHR ''3'')]\<rparr>"
  "dirtree_at demo_ops demo_repo (demo_csum CHR ''2'') = \<lparr>do_files = [], do_dirs = []\<rparr>"
  "commit_root demo_ops demo_repo (demo_csum CHR ''c'') = (demo_csum CHR ''1'', demo_csum CHR ''3'')"
  by (simp_all add: dirtree_at_def commit_root_def demo_repo_def demo_ops_def)

lemma demo_commit_ok: "commit_ok demo_ops demo_repo (Suc 0) (demo_csum CHR ''c'')"
proof -
  have "rp_detached demo_repo (demo_csum CHR ''c'') = None" by (simp add: demo_repo_def)
  then show ?thesis by (simp add: commit_ok_def demo_trees dir_ok_def demo_meta_ok demo_file_ok)
qed

lemma demo_blocks:
  "B_File (demo_csum CHR ''e'') \<in> commit_blocks demo_ops demo_repo False (Suc 0) (demo_csum CHR ''c'')"
  "B_Meta T_DirTree (demo_csum CHR ''2'') \<in> commit_blocks demo_ops demo_repo False (Suc 0) (demo_csum CHR ''c'')"
  by (simp_all add: commit_blocks_def demo_trees own_blocks_def)

theorem tar_commit_roundtrip_witness:
  "\<exists>out r'. impl_export (Suc 0) demo_ops demo_repo (demo_csum CHR ''c'') = Some (Inr out)
    \<and> import_tar demo_ops (map (\<lambda>e. e) out) None empty_repo = Inr (demo_csum CHR ''c'', r')
    \<and> rp_files r' (demo_csum CHR ''e'') = Some demo_link \<and> rp_meta r' T_DirTree (demo_csum CHR ''2'') = Some ''u''"
proof -
  have "tar_reader (\<lambda>e. e)" by (simp add: tar_reader_def) (metis tar_entry.surjective tar_entry.update_convs(1))
  moreover have "verified demo_ops demo_repo (demo_csum CHR ''c'') None" by (simp add: verified_def)
  moreover have "agree demo_repo empty_repo" by (simp add: agree_def empty_repo_def)
  ultimately obtain out r' where r: "impl_export (Suc 0) demo_ops demo_repo (demo_csum CHR ''c'') = Some (Inr out)"
      "import_tar demo_ops (map (\<lambda>e. e) out) None empty_repo = Inr (demo_csum CHR ''c'', r')"
      "\<forall>b \<in> commit_blocks demo_ops demo_repo False (Suc 0) (demo_csum CHR ''c''). holds demo_repo r' b"
    using tar_commit_roundtrip [OF _ demo_commit_ok] by blast
  have "holds demo_repo r' (B_File (demo_csum CHR ''e''))" "holds demo_repo r' (B_Meta T_DirTree (demo_csum CHR ''2''))"
    using r(3) demo_blocks by blast+
  moreover have "rp_files demo_repo (demo_csum CHR ''e'') = Some demo_link" "rp_meta demo_repo T_DirTree (demo_csum CHR ''2'') = Some ''u''"
    by (simp_all add: demo_repo_def)
  ultimately show ?thesis using r(1,2) by auto
qed

end
