(* ===== verification/Tar_Layers.thy ===== *)
theory Tar_Layers
  imports Tar_Roundtrip
begin

text \<open>
  The layers of an image: each chunk of a commit is exported as a stream of content objects and
  imported as an object set, the last one carries the commit and all metadata. Together the layers
  give the whole commit back. Also: every hard link of a stream points to an earlier entry of it.
\<close>

section \<open>Exporting a chunk\<close>

text \<open>
  The paths of a chunk lie outside the repository of the stream and their parents are directories
  of the commit.
\<close>

definition paths_ok :: "(cpath \<Rightarrow> dirmeta_obj outcome) \<Rightarrow> cpath list \<Rightarrow> bool" where
  "paths_ok stat paths =
     (\<forall>p \<in> set paths. off_repo (path_for_tar_v1 p) \<and> (\<forall>q. prefix q (path_for_tar_v1 p) \<longrightarrow> is_ok (stat (unmap_path q))))"

definition chunk_ok :: "ostree_ops \<Rightarrow> repo \<Rightarrow> (cpath \<Rightarrow> dirmeta_obj outcome) \<Rightarrow> (string \<times> cpath list) list \<Rightarrow> bool" where
  "chunk_ok E S stat chunk = (\<forall>(c, paths) \<in> set chunk. file_ok E S c \<and> paths_ok stat paths)"

lemma exported_parents:
  assumes "tar_reader read"
  shows "(\<forall>q. prefix q path \<longrightarrow> is_ok (stat (unmap_path q))) \<Longrightarrow> exported S read pre w bs \<Longrightarrow>
    \<exists>w' cache'. write_parents_of stat path (w, cache) = Inr (w', cache') \<and> exported S read pre w' bs"
proof (induction "length path" arbitrary: path rule: less_induct)
  case less
  note step = write_parents_of.simps [of stat path w cache]
  show ?case
  proof (cases "cp_parent path")
    case None
    then show ?thesis using less.prems step by simp
  next
    case (Some q)
    have q: "length q < length path" "prefix q path"
      using Some by (auto simp: cp_parent_def prefixeq_butlast split: if_splits)
    show ?thesis
    proof (cases "length q = 0 \<or> q \<in> cache")
      case True
      then have "write_parents_of stat path (w, cache) = Inr (w, cache)" unfolding step Some by auto
      then show ?thesis using less.prems by simp
    next
      case False
      have qs: "\<forall>q'. prefix q' q \<longrightarrow> is_ok (stat (unmap_path q'))" using less.prems(1) q(2) by (blast intro: prefix_order.trans)
      obtain w1 cache1 where w1: "write_parents_of stat q (w, cache) = Inr (w1, cache1)" "exported S read pre w1 bs"
        using less.hyps [OF q(1) qs less.prems(2)] by blast
      obtain m where m: "stat (unmap_path q) = Inr m" using qs by (auto simp: is_ok_iff)
      have "write_parents_of stat path (w, cache) = Inr (append_dir q m w1, insert q cache1)"
        using False unfolding step Some by (simp add: w1(1) m del: write_parents_of.simps)
      moreover have "exported S read pre (append_dir q m w1) bs"
        unfolding append_dir_def by (rule exported_skip [OF assms _ w1(2)]) simp
      ultimately show ?thesis by blast
    qed
  qed
qed

lemma exported_paths:
  assumes "tar_reader read"
  shows "paths_ok stat ps \<Longrightarrow> exported S read pre w bs \<Longrightarrow>
    \<exists>w' cache'. write_paths stat b src h ps (w, cache) = Inr (w', cache') \<and> exported S read pre w' bs"
proof (induction ps arbitrary: w cache)
  case (Cons p ps)
  have p: "off_repo (path_for_tar_v1 p)" "\<forall>q. prefix q (path_for_tar_v1 p) \<longrightarrow> is_ok (stat (unmap_path q))" "paths_ok stat ps"
    using Cons.prems(1) by (auto simp: paths_ok_def)
  obtain w1 cache1 where w1: "(if b then write_parents_of stat (path_for_tar_v1 p) (w, cache) else Inr (w, cache)) = Inr (w1, cache1)"
      "exported S read pre w1 bs"
    using exported_parents [OF assms p(2) Cons.prems(2)] Cons.prems(2) by (cases b) (simp_all del: write_parents_of.simps, blast)
  from Cons.IH [OF p(3) exported_hardlink [OF assms p(1) w1(2)]] show ?case
    by (simp only: write_paths.simps Let_def w1(1) rbind_simps prod.case)
qed simp

lemma exported_objects:
  assumes "tar_reader read"
  shows "chunk_ok E S stat chunk \<Longrightarrow> exported S read pre w bs \<Longrightarrow>
    \<exists>w' cache' bs'. write_objects E S stat b chunk (w, cache) = Inr (w', cache') \<and> exported S read pre w' bs'
      \<and> grows (B_File ` fst ` set chunk) bs bs'"
proof (induction chunk arbitrary: w cache bs)
  case (Cons x chunk)
  obtain c ps where x: "x = (c, ps)" by (cases x)
  have c: "file_ok E S c" "paths_ok stat ps" "chunk_ok E S stat chunk" using Cons.prems(1) by (auto simp: chunk_ok_def x)
  obtain h w1 where w1: "append_content E S c w = Inr (h, w1)" "exported S read pre w1 (add_block (B_File c) bs)"
    using exported_content [OF assms c(1) Cons.prems(2)] by blast
  obtain w2 cache2 where w2: "write_paths stat b (object_path T_File c) h ps (w1, cache) = Inr (w2, cache2)"
      "exported S read pre w2 (add_block (B_File c) bs)"
    using exported_paths [OF assms c(2) w1(2)] by blast
  obtain w3 cache3 bs3 where w3: "write_objects E S stat b chunk (w2, cache2) = Inr (w3, cache3)"
      "exported S read pre w3 bs3" "grows (B_File ` fst ` set chunk) (add_block (B_File c) bs) bs3"
    using Cons.IH [OF c(3) w2(2)] by blast
  have "grows (B_File ` fst ` set (x # chunk)) bs bs3" using grows_trans [OF grows_add w3(3)] by (simp add: x)
  then show ?case using w1(1) w2(1) w3(1,2) by (auto simp: x)
qed auto

lemma exported_chunk:
  assumes "tar_reader read" and "chunk_ok E S stat chunk" and "exported S read pre w bs"
  shows "\<exists>w' bs'. write_chunk E S stat b chunk w = Inr w' \<and> exported S read pre w' bs' \<and> grows (B_File ` fst ` set chunk) bs bs'"
  using exported_objects [OF assms, of b "{}"] by (auto simp: write_chunk_def)

text \<open>The stream of a chunk: each of its content objects once, with its attributes.\<close>

lemma chunk_stream:
  assumes "tar_reader read" and "chunk_ok E S stat chunk" and "rp_meta S T_Commit c \<noteq> None"
  shows "\<exists>out cs epss. export_chunk E S stat c chunk b = Inr out \<and> distinct cs \<and> set cs = fst ` set chunk
    \<and> list_all2 (block_entries S) (map B_File cs) epss \<and> List.map_filter filter_entry (map read out) = concat epss"
proof -
  have "exported S read [] writer_new []" by (simp add: exported_def writer_new_def stream_def List.map_filter_def)
  from exported_chunk [OF assms(1,2) exported_structure [OF assms(1) this], of b] obtain w bs where
    w: "write_chunk E S stat b chunk (write_repo_structure writer_new) = Inr w" "exported S read [] w bs"
      "grows (B_File ` fst ` set chunk) [] bs" by blast
  define cs where "cs = map (\<lambda>bl. case bl of B_File c \<Rightarrow> c | B_Meta _ c \<Rightarrow> c) bs"
  have bs: "bs = map B_File cs" using w(3) by (auto simp: cs_def grows_def intro!: map_idI [symmetric])
  obtain epss where epss: "list_all2 (block_entries S) bs epss" "List.map_filter filter_entry (map read (w_out w)) = [] @ concat epss"
    using exported_out [OF w(2)] by blast
  have "distinct (map B_File cs)" using w(2) bs by (simp add: exported_def)
  moreover have "B_File ` set cs = B_File ` fst ` set chunk" using w(3) by (auto simp: bs grows_def)
  then have "set cs = fst ` set chunk" by (simp add: inj_image_eq_iff inj_def)
  moreover have "export_chunk E S stat c chunk b = Inr (w_out w)" using assms(3) w(1) by (auto simp: export_chunk_def load_variant_def)
  ultimately show ?thesis using epss bs by (auto simp: distinct_map)
qed

section \<open>Importing a chunk\<close>

definition with_files :: "repo \<Rightarrow> string set \<Rightarrow> repo \<Rightarrow> repo" where
  "with_files S C r = r\<lparr>rp_files := (\<lambda>x. if x \<in> C then rp_files S x else rp_files r x)\<rparr>"

lemma fold_put_files: "fold (put S) (map B_File cs) r = with_files S (set cs) r"
  by (induction cs arbitrary: r) (auto simp: with_files_def fun_eq_iff)

lemma fold_track_set: "\<exists>s'. fold track (map B_File cs) (ObjectSet s) = ObjectSet s' \<and> set s' = set cs \<union> set s
    \<and> (sorted s \<and> distinct s \<longrightarrow> sorted s' \<and> distinct s')"
proof (induction cs arbitrary: s)
  case (Cons c cs)
  from Cons [of "btset (c # s)"] show ?case by auto
qed simp

lemma chunk_roundtrip:
  assumes "tar_reader read" and "chunk_ok E S stat chunk" and "agree S r" and "rp_meta S T_Commit c \<noteq> None"
  shows "\<exists>out. export_chunk E S stat c chunk b = Inr out
    \<and> import_tar_objects E synth (map read out) r = synth (btset (map fst chunk)) (with_files S (fst ` set chunk) r)"
proof -
  obtain out cs epss where o: "export_chunk E S stat c chunk b = Inr out" "distinct cs" "set cs = fst ` set chunk"
    "list_all2 (block_entries S) (map B_File cs) epss" "List.map_filter filter_entry (map read out) = concat epss"
    using chunk_stream [OF assms(1,2,4)] by blast
  have ok: "\<forall>bl \<in> set (map B_File cs). block_ok E S bl" using o(3) assms(2) by (auto simp: chunk_ok_def)
  have adm: "admissible (im_data (new_for_object_set r)) (map B_File cs)" using o(2) by (auto simp: new_for_object_set_def distinct_map inj_on_def)
  obtain im where im: "import_objects_impl E (concat epss) (new_for_object_set r) = Inr im"
      "advanced S (map B_File cs) (new_for_object_set r) im"
    using import_blocks [OF o(4) ok _ _ adm] assms(3) by (auto simp: new_for_object_set_def)
  obtain s where s: "im_data im = ObjectSet s" "set s = fst ` set chunk" "sorted s" "distinct s"
    using fold_track_set [of cs "[]"] im(2) o(3) by (auto simp: advanced_def new_for_object_set_def)
  have "s = btset (map fst chunk)" by (rule sorted_distinct_set_unique) (use s in simp_all)
  moreover have "im_repo im = with_files S (fst ` set chunk) r"
    using im(2) o(3) by (simp add: advanced_def new_for_object_set_def fold_put_files)
  ultimately show ?thesis using o(1,5) im(1) s(1) by (simp add: import_tar_objects_def import_objects_def)
qed

text \<open>The last layer: the commit with all metadata, and the contents that are in no other chunk.\<close>

lemma final_roundtrip:
  assumes "tar_reader read" and "commit_ok E S d c" and "chunk_ok E S stat chunk" and "verified E S c remote" and "agree S r"
  shows "\<exists>out r'. export_final_chunk d E S stat c chunk b = Some (Inr out) \<and> import_tar E (map read out) remote r = Inr (c, r')
    \<and> c \<notin> rp_partial r' \<and> rp_meta r' T_Commit c = rp_meta S T_Commit c
    \<and> (\<forall>bl \<in> commit_blocks E S True d c \<union> B_File ` fst ` set chunk. holds S r' bl)
    \<and> (\<forall>x. rp_files r' x = rp_files S x \<or> rp_files r' x = rp_files r x)"
proof -
  obtain v where v: "rp_meta S T_Commit c = Some v"
    using assms(2) by (auto simp: commit_ok_def meta_ok_def split: option.splits)
  let ?mc = "snd (commit_root E S c)"
  obtain w bs ce det where w: "write_commit d E S c v (writer_new\<lparr>structure_only := True\<rparr>) = Some (Inr w)"
      "exported S read ((ce, objp T_Commit c) # det) w (B_Meta T_DirMeta ?mc # bs)"
      "set (B_Meta T_DirMeta ?mc # bs) = commit_blocks E S True d c"
      "te_type ce = Regular" "te_data ce = v" "detached_entries S c det"
    using exported_commit [OF assms(1,2) v, of True] by blast
  have "exported S read ((ce, objp T_Commit c) # det) (w\<lparr>structure_only := False\<rparr>) (B_Meta T_DirMeta ?mc # bs)"
    using w(2) by (simp add: exported_def)
  from exported_chunk [OF assms(1,3) this, of b] obtain w1 bs1 where
    w1: "write_chunk E S stat b chunk (w\<lparr>structure_only := False\<rparr>) = Inr w1" "exported S read ((ce, objp T_Commit c) # det) w1 bs1"
      "grows (B_File ` fst ` set chunk) (B_Meta T_DirMeta ?mc # bs) bs1" by blast
  obtain bs2 where bs1: "bs1 = B_Meta T_DirMeta ?mc # bs2" using w1(3) by (auto simp: grows_def prefix_def)
  have set1: "set bs1 = commit_blocks E S True d c \<union> B_File ` fst ` set chunk"
    using w1(3) unfolding grows_def w(3) by blast
  have ok: "\<forall>bl \<in> set (B_Meta T_DirMeta ?mc # bs2). block_ok E S bl"
    using commit_blocks_ok [OF assms(2), of True] assms(3) unfolding bs1 [symmetric] set1 by (auto simp: chunk_ok_def)
  have "export_final_chunk d E S stat c chunk b = Some (Inr (w_out w1))"
    using w(1) w1(1) v by (simp add: export_final_chunk_def load_variant_def)
  moreover note import_tar_exported [OF assms(2) v assms(4,5) w(4-6) w1(2) [unfolded bs1] ok, folded bs1, unfolded set1]
  ultimately show ?thesis by blast
qed

section \<open>Hard links\<close>

definition is_content :: "tar_entry \<Rightarrow> bool" where
  "is_content e = (te_type e = Regular \<or> te_type e = Symlink)"

text \<open>Every hard link names the path of a file that comes before it in the stream.\<close>

fun links_after :: "tar_entry list \<Rightarrow> tar_entry list \<Rightarrow> bool" where
  "links_after before [] = True"
| "links_after before (e # es) =
     ((te_type e = Link \<longrightarrow> list_ex (\<lambda>t. is_content t \<and> te_link e = Some (cp_text (te_path t))) before)
      \<and> links_after (before @ [e]) es)"

definition link_inv :: "writer \<Rightarrow> bool" where
  "link_inv w = (links_after [] (w_out w) \<and> (\<forall>c \<in> wrote_content w. \<exists>t \<in> set (w_out w). is_content t \<and> te_path t = object_path T_File c))"

lemma links_after_append: "links_after before (es @ fs) \<longleftrightarrow> links_after before es \<and> links_after (before @ es) fs"
  by (induction es arbitrary: before) auto

lemma link_inv_append:
  "link_inv w \<Longrightarrow> te_type e \<noteq> Link \<Longrightarrow> link_inv (tar_append e w)"
  unfolding link_inv_def tar_append_def by (auto simp: links_after_append)

lemma link_inv_data: "link_inv w \<Longrightarrow> link_inv (tar_append_default_data p v w)"
  unfolding tar_append_default_data_def by (rule link_inv_append) simp_all

lemma link_inv_dir: "link_inv w \<Longrightarrow> link_inv (append_dir p m w)" "link_inv w \<Longrightarrow> link_inv (append_default_dir p w)"
  unfolding append_dir_def append_default_dir_def by (simp_all add: link_inv_append)

lemma link_inv_flags:
  "link_inv (w\<lparr>wrote_dirtree := x\<rparr>) = link_inv w" "link_inv (w\<lparr>wrote_dirmeta := x\<rparr>) = link_inv w" "link_inv (w\<lparr>wrote_vartmp := b\<rparr>) = link_inv w"
  "link_inv (w\<lparr>wrote_initdirs := b\<rparr>) = link_inv w" "link_inv (w\<lparr>structure_only := b\<rparr>) = link_inv w" "link_inv (w\<lparr>w_pax := y\<rparr>) = link_inv w"
  by (simp_all add: link_inv_def)

lemma link_inv_fold: "link_inv w \<Longrightarrow> link_inv (fold (\<lambda>d. append_default_dir (f d)) ds w)"
  by (induction ds arbitrary: w) (auto intro: link_inv_dir)

lemma link_inv_structure: "link_inv w \<Longrightarrow> link_inv (write_repo_structure w)"
  unfolding write_repo_structure_def Let_def
  by (auto simp: link_inv_flags intro!: link_inv_data link_inv_fold link_inv_dir)

lemma link_inv_meta: "append_meta t c v w = Inr w' \<Longrightarrow> link_inv w \<Longrightarrow> link_inv w'"
  unfolding append_meta_def by (auto simp: link_inv_flags intro: link_inv_data split: objtype.splits if_splits)

text \<open>After writing a content object, its path can be the target of a link.\<close>

definition can_link :: "writer \<Rightarrow> string \<Rightarrow> bool" where
  "can_link w c = (\<exists>t \<in> set (w_out w). is_content t \<and> te_path t = object_path T_File c)"

lemma body_content:
  assumes "append_body E f (fst (content_header f c)) w = Inr w'"
  shows "\<exists>e. w' = tar_append e w \<and> is_content e \<and> te_path e = object_path T_File c"
proof (cases "fo_body f")
  case (RegularFile data)
  with assms show ?thesis
    by (intro exI [of _ "(fst (content_header f c))\<lparr>te_data := data\<rparr>"])
      (simp add: append_body_def content_header_def is_content_def new_gnu_def Let_def)
next
  case (SymbolicLink target)
  with assms show ?thesis
    by (intro exI [of _ "(fst (content_header f c))\<lparr>te_link := Some (if symlink_is_denormal target then target else oe_tar_link E target)\<rparr>"])
      (auto simp: append_body_def content_header_def is_content_def new_gnu_def Let_def split: if_splits)
qed

lemma link_inv_content:
  assumes "append_content E S c w = Inr (h, w')" and "link_inv w"
  shows "link_inv w' \<and> can_link w' c"
proof -
  obtain f where f: "rp_files S c = Some f" using assms(1) by (auto simp: append_content_def load_file_def rbind_Inr_iff ok_or_Inr_iff)
  show ?thesis
  proof (cases "c \<in> wrote_content w")
    case True
    then show ?thesis using assms by (auto simp: append_content_def load_file_def f link_inv_def can_link_def split: prod.splits)
  next
    case False
    let ?x = "append_ostree_xattrs c (fo_xattrs f) (w\<lparr>wrote_content := insert c (wrote_content w)\<rparr>)"
    obtain pax where "append_body E f (fst (content_header f c)) (?x\<lparr>w_pax := pax\<rparr>) = Inr w'"
      using assms(1) False
      by (auto simp: append_content_def load_file_def f rbind_Inr_iff append_tarstream_xattrs_def Let_def split: prod.splits)
    then obtain b where b: "is_content b" "te_path b = object_path T_File c" and w': "w' = tar_append b (?x\<lparr>w_pax := pax\<rparr>)"
      using body_content by blast
    have "link_inv (tar_append_default_data (v1_xattrs_object_path c) (fo_xattrs f) w)" by (rule link_inv_data [OF assms(2)])
    then show ?thesis
      using b unfolding w' link_inv_def can_link_def
      by (auto simp: tar_append_def append_ostree_xattrs_def tar_append_default_data_def links_after_append is_content_def)
  qed
qed

lemma link_inv_hardlink:
  assumes "link_inv w" and "can_link w c" and "te_type (fst h) \<noteq> Link"
  shows "link_inv (append_content_hardlink (object_path T_File c) h dest w) \<and> can_link (append_content_hardlink (object_path T_File c) h dest w) c"
  using assms unfolding append_content_hardlink_def Let_def link_inv_def can_link_def tar_append_def
  by (auto simp: links_after_append list_ex_iff)

lemma header_not_link:
  assumes "append_content E S c w = Inr (h, w')"
  shows "te_type (fst h) \<noteq> Link"
proof -
  obtain f where f: "rp_files S c = Some f" using assms by (auto simp: append_content_def load_file_def rbind_Inr_iff ok_or_Inr_iff)
  have "h = content_header f c"
    using assms by (auto simp: append_content_def load_file_def f rbind_Inr_iff Let_def split: prod.splits if_splits)
  then show ?thesis by (cases "fo_body f") (simp_all add: content_header_def Let_def)
qed

lemma link_inv_files: "append_files E S p files w = Inr w' \<Longrightarrow> link_inv w \<Longrightarrow> link_inv w'"
proof (induction files arbitrary: w)
  case (Cons nf files)
  obtain n c where nf: "nf = (n, c)" by (cases nf)
  obtain h w1 where h: "append_content E S c w = Inr (h, w1)"
    "append_files E S p files (append_content_hardlink (object_path T_File c) h (map_path (p @ [Normal n])) w1) = Inr w'"
    using Cons.prems(1) by (auto simp: nf rbind_Inr_iff)
  note w1 = link_inv_content [OF h(1) Cons.prems(2)]
  show ?case by (rule Cons.IH [OF h(2)]) (use link_inv_hardlink [OF _ _ header_not_link [OF h(1)]] w1 in simp)
qed auto

lemma link_inv_own:
  assumes "append_dirtree_files E S p c w = Inr (ds, w')" and "link_inv w"
  shows "link_inv w'"
proof -
  obtain v w1 w2 where
    w1: "append_meta T_DirTree c v w = Inr w1" and
    w2: "(if structure_only w1 then Inr w1 else append_files E S p (do_files (oe_dirtree E v)) w1) = Inr w2" and
    w': "w' = (if path_equivalent_for_tar p (rel [''var'', ''tmp'']) then w2\<lparr>wrote_vartmp := True\<rparr> else w2)"
    using assms(1) by (auto simp: append_dirtree_files_def rbind_Inr_iff)
  have "link_inv w1" by (rule link_inv_meta [OF w1 assms(2)])
  then have "link_inv w2" using w2 link_inv_files by (auto split: if_splits)
  then show ?thesis by (simp add: w' link_inv_flags)
qed

lemma link_inv_dirs:
  assumes "\<And>p c w w'. append_dirtree d E S p c False w = Some (Inr w') \<Longrightarrow> link_inv w \<Longrightarrow> link_inv w'"
  shows "append_dirs d E S p ds root w = Some (Inr w') \<Longrightarrow> link_inv w \<Longrightarrow> link_inv w'"
proof (induction ds arbitrary: w)
  case (Cons x ds)
  obtain n cc mc where x: "x = (n, cc, mc)" by (cases x)
  obtain v w1 where v: "load_variant S T_DirMeta mc = Inr v" "append_meta T_DirMeta mc v w = Inr w1"
    using Cons.prems(1) by (auto simp: x rbind_def simp del: append_dirtree.simps split: sum.splits)
  have w1: "link_inv w1" by (rule link_inv_meta [OF v(2) Cons.prems(2)])
  show ?case
  proof (cases "root \<and> n = ''sysroot''")
    case True
    then show ?thesis using Cons.IH [OF _ w1] Cons.prems(1) by (simp add: x v rbind_def del: append_dirtree.simps)
  next
    case False
    let ?p = "map_path (p @ [Normal n])"
    obtain w2 where w2: "append_dirtree d E S ?p cc False (append_dir ?p (oe_dirmeta E v) w1) = Some (Inr w2)"
        "append_dirs d E S p ds root w2 = Some (Inr w')"
      using Cons.prems(1) False
      by (auto simp: x v rbind_def Let_def simp del: append_dirtree.simps split: option.splits sum.splits)
    show ?thesis by (rule Cons.IH [OF w2(2) assms [OF w2(1) link_inv_dir(1) [OF w1]]])
  qed
qed auto

lemma link_inv_dirtree: "append_dirtree d E S p c root w = Some (Inr w') \<Longrightarrow> link_inv w \<Longrightarrow> link_inv w'"
proof (induction d arbitrary: p c root w w')
  case 0
  then show ?case by (subst (asm) append_dirtree.simps) (auto dest: link_inv_own split: sum.splits if_splits)
next
  case (Suc d)
  obtain ds w1 where own: "append_dirtree_files E S p c w = Inr (ds, w1)" and w1: "append_dirs d E S p ds root w1 = Some (Inr w')"
    using Suc.prems(1) by (subst (asm) append_dirtree.simps) (auto split: sum.splits)
  show ?case by (rule link_inv_dirs [OF Suc.IH w1 link_inv_own [OF own Suc.prems(2)]])
qed

lemma link_inv_standard_var: "link_inv w \<Longrightarrow> link_inv (append_standard_var w)"
  by (simp add: append_standard_var_def link_inv_append)

lemma link_inv_commit_object: "append_commit_object S c v w = Inr w' \<Longrightarrow> link_inv w \<Longrightarrow> link_inv w'"
  by (auto simp: append_commit_object_def rbind_Inr_iff intro: link_inv_meta split: option.splits)

lemma link_inv_commit:
  assumes "write_commit d E S c v w = Some (Inr w')" and "link_inv w"
  shows "link_inv w'"
proof -
  obtain contents mc where root: "oe_commit_root E v = (contents, mc)" by (cases "oe_commit_root E v")
  obtain m w1 w2 where
    w1: "(let w = append_dir [CurDir] (oe_dirmeta E m) w in
          if \<not> w_raw w then rbind (append_commit_object S c v (write_repo_structure w)) (append_meta T_DirMeta mc m) else Inr w) = Inr w1" and
    w2: "append_dirtree d E S [CurDir] contents True w1 = Some (Inr w2)" and w': "w' = append_standard_var w2"
    using assms(1) unfolding write_commit_def Let_def root
    by (auto simp: rbind_Inr_iff simp del: append_dirtree.simps split: sum.splits)
  have "link_inv w1"
    using w1 link_inv_dir(1) [OF assms(2)]
    by (auto simp: Let_def rbind_Inr_iff dest!: link_inv_commit_object intro: link_inv_structure link_inv_meta split: if_splits)
  then show ?thesis unfolding w' by (intro link_inv_standard_var link_inv_dirtree [OF w2])
qed

lemma link_inv_parents:
  "write_parents_of stat path (w, cache) = Inr (w', cache') \<Longrightarrow> link_inv w \<Longrightarrow> set (w_out w) \<subseteq> set (w_out w') \<and> link_inv w'"
proof (induction "length path" arbitrary: path w' cache' rule: less_induct)
  case less
  note step = write_parents_of.simps [of stat path w cache]
  show ?case
  proof (cases "cp_parent path")
    case None
    then show ?thesis using less.prems step by simp
  next
    case (Some q)
    have q: "length q < length path" using Some by (auto simp: cp_parent_def split: if_splits)
    show ?thesis
    proof (cases "length q = 0 \<or> q \<in> cache")
      case True
      then have "write_parents_of stat path (w, cache) = Inr (w, cache)" unfolding step Some by auto
      then show ?thesis using less.prems by simp
    next
      case False
      then have "rbind (write_parents_of stat q (w, cache)) (\<lambda>(w, cache). rbind (stat (unmap_path q)) (\<lambda>m.
          Inr (append_dir q m w, insert q cache))) = Inr (w', cache')"
        using less.prems(1) unfolding step Some by simp
      then obtain w1 cache1 m where w1: "write_parents_of stat q (w, cache) = Inr (w1, cache1)" and w': "w' = append_dir q m w1"
        by (auto simp only: rbind_Inr_iff prod.case sum.inject prod.inject split_paired_Ex)
      have "set (w_out w1) \<subseteq> set (w_out w')" unfolding w' by (auto simp: append_dir_def tar_append_def)
      then show ?thesis using less.hyps [OF q w1 less.prems(2)] link_inv_dir(1) unfolding w' by blast
    qed
  qed
qed

lemma link_inv_paths:
  "write_paths stat b (object_path T_File c) h ps (w, cache) = Inr (w', cache') \<Longrightarrow> te_type (fst h) \<noteq> Link \<Longrightarrow>
    link_inv w \<Longrightarrow> can_link w c \<Longrightarrow> link_inv w'"
proof (induction ps arbitrary: w cache)
  case (Cons p ps)
  let ?p = "path_for_tar_v1 p"
  obtain w1 cache1 where
    w1: "(if b then write_parents_of stat ?p (w, cache) else Inr (w, cache)) = Inr (w1, cache1)" and
    w2: "write_paths stat b (object_path T_File c) h ps (append_content_hardlink (object_path T_File c) h ?p w1, cache1) = Inr (w', cache')"
    using Cons.prems(1) by (auto simp: Let_def rbind_Inr_iff)
  have "link_inv w1 \<and> can_link w1 c"
  proof (cases b)
    case True
    then show ?thesis using link_inv_parents [of stat ?p w cache w1 cache1] w1 Cons.prems(3,4) by (auto simp: can_link_def)
  qed (use w1 Cons.prems(3,4) in simp)
  then show ?case using Cons.IH [OF w2 Cons.prems(2)] link_inv_hardlink [OF _ _ Cons.prems(2)] by blast
qed simp

lemma link_inv_objects:
  "write_objects E S stat b chunk (w, cache) = Inr (w', cache') \<Longrightarrow> link_inv w \<Longrightarrow> link_inv w'"
proof (induction chunk arbitrary: w cache)
  case (Cons x chunk)
  obtain c ps where x: "x = (c, ps)" by (cases x)
  obtain h w1 w2 cache2 where
    w1: "append_content E S c w = Inr (h, w1)" and
    w2: "write_paths stat b (object_path T_File c) h ps (w1, cache) = Inr (w2, cache2)" and
    w': "write_objects E S stat b chunk (w2, cache2) = Inr (w', cache')"
    using Cons.prems(1) by (auto simp: x rbind_Inr_iff)
  show ?case
    by (rule Cons.IH [OF w' link_inv_paths [OF w2 header_not_link [OF w1]]]) (use link_inv_content [OF w1 Cons.prems(2)] in simp_all)
qed simp

lemma link_inv_chunk: "write_chunk E S stat b chunk w = Inr w' \<Longrightarrow> link_inv w \<Longrightarrow> link_inv w'"
  by (auto simp: write_chunk_def rbind_Inr_iff dest: link_inv_objects)

lemma link_inv_new: "link_inv writer_new"
  by (simp add: link_inv_def writer_new_def)

text \<open>
  C10. No layer or archive that the exporter writes has a dangling hard link: whatever the repository
  holds, in a whole commit, in a chunk and in the final chunk every hard link entry names the path of a
  file or symbolic link that comes before it in the same stream. A reader that unpacks the entries in
  order always finds the target.
\<close>

theorem tar_links_resolve:
  "(case impl_export d E S c of Some (Inr out) \<Rightarrow> links_after [] out | _ \<Rightarrow> True)
   \<and> (case export_chunk E S stat c chunk b of Inr out \<Rightarrow> links_after [] out | _ \<Rightarrow> True)
   \<and> (case export_final_chunk d E S stat c chunk b of Some (Inr out) \<Rightarrow> links_after [] out | _ \<Rightarrow> True)"
proof (intro conjI)
  show "case impl_export d E S c of Some (Inr out) \<Rightarrow> links_after [] out | _ \<Rightarrow> True"
    using link_inv_commit [OF _ link_inv_new]
    by (fastforce simp: impl_export_def rbind_Inr_iff link_inv_def split: option.splits sum.splits)
  show "case export_chunk E S stat c chunk b of Inr out \<Rightarrow> links_after [] out | _ \<Rightarrow> True"
    using link_inv_chunk [OF _ link_inv_structure [OF link_inv_new]]
    by (fastforce simp: export_chunk_def rbind_Inr_iff link_inv_def split: sum.splits)
  have "link_inv (writer_new\<lparr>structure_only := True\<rparr>)" by (simp add: link_inv_flags link_inv_new)
  from link_inv_commit [OF _ this] show "case export_final_chunk d E S stat c chunk b of Some (Inr out) \<Rightarrow> links_after [] out | _ \<Rightarrow> True"
    by (fastforce simp: export_final_chunk_def rbind_Inr_iff link_inv_def link_inv_flags dest!: link_inv_chunk split: option.splits sum.splits)
qed

end
