(* ===== verification/Encapsulate.thy ===== *)
theory Encapsulate
  imports Tar_Layers Chunk_Objects Ref_Escape Image_Ref
begin

text \<open>
  Encapsulating a commit in a container image and taking it out again
  (\<^verbatim>\<open>crates/ostree-ext/src/container/encapsulate.rs\<close> and \<^verbatim>\<open>store.rs\<close>): the chunks become layers, a label
  names the last of them, and an import finds the ostree layers by that label.

  An OCI directory is a record of the manifest's layers, the configuration and the blobs. The digest
  and the diff id of a layer are a function \<^verbatim>\<open>H\<close> of its contents, \<^verbatim>\<open>fetch\<close> is what the image proxy
  delivers for a layer, decompressed.
\<close>

section \<open>Writing an image\<close>

record layer_descriptor =
  ly_digest :: string
  ly_annotations :: "(string \<times> string) list"

record oci_dir =
  ow_layers :: "layer_descriptor list"
  ow_diff_ids :: "string list"
  ow_history :: "string list"
  ow_labels :: "string \<Rightarrow> string option"
  ow_blobs :: "string \<Rightarrow> tar_entry list option"

record oci_layer =
  ol_digest :: string
  ol_diffid :: string

definition DIFFID_LABEL :: string where
  "DIFFID_LABEL = ''ostree.final-diffid''"

text \<open>\<^verbatim>\<open>create_layer\<close>, writing the stream, and \<^verbatim>\<open>complete\<close>.\<close>

definition complete_layer :: "(tar_entry list \<Rightarrow> string \<times> string) \<Rightarrow> tar_entry list \<Rightarrow> oci_dir \<Rightarrow> oci_layer \<times> oci_dir" where
  "complete_layer H out w =
     (\<lparr>ol_digest = fst (H out), ol_diffid = snd (H out)\<rparr>, w\<lparr>ow_blobs := (ow_blobs w)(fst (H out) \<mapsto> out)\<rparr>)"

definition push_layer_full :: "oci_layer \<Rightarrow> (string \<times> string) list \<Rightarrow> string \<Rightarrow> oci_dir \<Rightarrow> oci_dir" where
  "push_layer_full layer annotations description w =
     w\<lparr>ow_layers := ow_layers w @ [\<lparr>ly_digest = ol_digest layer, ly_annotations = annotations\<rparr>],
       ow_diff_ids := ow_diff_ids w @ [''sha256:'' @ ol_diffid layer],
       ow_history := ow_history w @ [description]\<rparr>"

text \<open>The content of a chunk with its paths parsed.\<close>

definition chunk_entries :: "chunk \<Rightarrow> (string \<times> cpath list) list" where
  "chunk_entries c = map (\<lambda>(checksum, sz, paths). (checksum, map path_components paths)) (ck_content c)"

fun export_chunks ::
    "ostree_ops \<Rightarrow> (tar_entry list \<Rightarrow> string \<times> string) \<Rightarrow> repo \<Rightarrow> (cpath \<Rightarrow> dirmeta_obj outcome) \<Rightarrow> string \<Rightarrow> bool
       \<Rightarrow> chunk list \<Rightarrow> oci_dir \<Rightarrow> ((oci_layer \<times> string \<times> string list) list \<times> oci_dir) outcome" where
  "export_chunks E H S stat commit cpd [] w = Inr ([], w)"
| "export_chunks E H S stat commit cpd (ck # cks) w =
     rbind (export_chunk E S stat commit (chunk_entries ck) cpd) (\<lambda>out.
     let (layer, w) = complete_layer H out w in
     rbind (export_chunks E H S stat commit cpd cks w) (\<lambda>(layers, w).
     Inr ((layer, ck_name ck, ck_packages ck) # layers, w)))"

definition push_component :: "oci_layer \<times> string \<times> string list \<Rightarrow> oci_dir \<Rightarrow> oci_dir" where
  "push_component l w =
     (case l of (layer, name, packages) \<Rightarrow>
        push_layer_full layer [(CONTENT_ANNOTATION, join_with '','' (sort packages))] name w)"

definition export_chunked ::
    "nat \<Rightarrow> ostree_ops \<Rightarrow> (tar_entry list \<Rightarrow> string \<times> string) \<Rightarrow> repo \<Rightarrow> (cpath \<Rightarrow> dirmeta_obj outcome) \<Rightarrow> string
       \<Rightarrow> chunking \<Rightarrow> bool \<Rightarrow> string \<Rightarrow> oci_dir \<Rightarrow> oci_dir outcome option" where
  "export_chunked depth E H S stat commit ch cpd description w =
     (case export_chunks E H S stat commit cpd (chunks ch) w of
        Inl e \<Rightarrow> Some (Inl e)
      | Inr (layers, w) \<Rightarrow>
          map_option (\<lambda>res. rbind res (\<lambda>out.
            let (ostree_layer, w) = complete_layer H out w;
                last_digest = ol_diffid (case layers of [] \<Rightarrow> ostree_layer | _ \<Rightarrow> fst (last layers));
                w = push_layer_full ostree_layer [] description w;
                w = fold push_component layers w
            in Inr (w\<lparr>ow_labels := (ow_labels w)(DIFFID_LABEL \<mapsto> ''sha256:'' @ last_digest)\<rparr>)))
          (export_final_chunk depth E S stat commit (chunk_entries (remainder ch)) cpd))"

section \<open>The layout of a manifest\<close>

fun position :: "('a \<Rightarrow> bool) \<Rightarrow> 'a list \<Rightarrow> nat option" where
  "position P [] = None"
| "position P (x # xs) = (if P x then Some 0 else map_option Suc (position P xs))"

definition layer_from_diffid :: "layer_descriptor list \<Rightarrow> string list \<Rightarrow> string \<Rightarrow> layer_descriptor res" where
  "layer_from_diffid layers diff_ids diffid =
     rbind (ok_or ''Missing diffid'' (position (\<lambda>x. x = diffid) diff_ids)) (\<lambda>idx.
     if idx < length layers then Inr (layers ! idx) else Inl ''diffid position exceeds layer count'')"

fun split_layers ::
    "layer_descriptor \<Rightarrow> layer_descriptor \<Rightarrow> bool \<Rightarrow> layer_descriptor list
       \<Rightarrow> (layer_descriptor list \<times> layer_descriptor list) res" where
  "split_layers ostree_layer target_layer after_target [] = Inr ([], [])"
| "split_layers ostree_layer target_layer after_target (layer # layers) =
     (if layer = target_layer then
        if after_target then Inl ''Multiple entries''
        else rbind (split_layers ostree_layer target_layer True layers) (\<lambda>(chunk_layers, derived_layers).
             Inr (if layer \<noteq> ostree_layer then layer # chunk_layers else chunk_layers, derived_layers))
      else if \<not> after_target then
        rbind (split_layers ostree_layer target_layer after_target layers) (\<lambda>(chunk_layers, derived_layers).
        Inr (if layer \<noteq> ostree_layer then layer # chunk_layers else chunk_layers, derived_layers))
      else
        rbind (split_layers ostree_layer target_layer after_target layers) (\<lambda>(chunk_layers, derived_layers).
        Inr (chunk_layers, layer # derived_layers)))"

definition parse_manifest_layout ::
    "layer_descriptor list \<Rightarrow> string list \<Rightarrow> (string \<Rightarrow> string option)
       \<Rightarrow> (layer_descriptor option \<times> layer_descriptor list \<times> layer_descriptor list) res" where
  "parse_manifest_layout layers diff_ids labels =
     (case layers of
        [] \<Rightarrow> Inl ''No layers in manifest''
      | first_layer # _ \<Rightarrow>
          (case labels DIFFID_LABEL of
             None \<Rightarrow> Inr (None, [], layers)
           | Some target_diffid \<Rightarrow>
               rbind (layer_from_diffid layers diff_ids target_diffid) (\<lambda>target_layer.
               rbind (split_layers first_layer target_layer False layers) (\<lambda>(chunk_layers, derived_layers).
               Inr (Some first_layer, chunk_layers, derived_layers)))))"

definition parse_ostree_manifest_layout ::
    "layer_descriptor list \<Rightarrow> string list \<Rightarrow> (string \<Rightarrow> string option)
       \<Rightarrow> (layer_descriptor \<times> layer_descriptor list \<times> layer_descriptor list) res" where
  "parse_ostree_manifest_layout layers diff_ids labels =
     rbind (parse_manifest_layout layers diff_ids labels) (\<lambda>(ostree_layer, component_layers, derived_layers).
     rbind (ok_or ''No label found, not an ostree encapsulated container'' ostree_layer) (\<lambda>ostree_layer.
     Inr (ostree_layer, component_layers, derived_layers)))"

section \<open>The store\<close>

record layer_store =
  ss_repo :: repo
  ss_refs :: "rstr \<Rightarrow> string option"

record layer_state =
  ms_layer :: layer_descriptor
  ms_ref :: rstr
  ms_commit :: "string option"

definition code_points :: "string \<Rightarrow> rstr" where
  "code_points s = map of_char s"

definition LAYER_PREFIX :: rstr where
  "LAYER_PREFIX = code_points ''ostree/container/blob''"

definition ref_for_blob_digest :: "string \<Rightarrow> rstr res" where
  "ref_for_blob_digest d = prefix_escape_for_ref LAYER_PREFIX (code_points d)"

definition find_digest_by_diffid ::
    "(string \<Rightarrow> string option) \<Rightarrow> layer_descriptor list \<Rightarrow> string list \<Rightarrow> layer_descriptor \<Rightarrow> string option" where
  "find_digest_by_diffid diffid_to_digest layers diff_ids layer =
     Option.bind (position (\<lambda>l. ly_digest l = ly_digest layer) layers) (\<lambda>idx.
     if idx < length diff_ids then diffid_to_digest (diff_ids ! idx) else None)"

definition resolve_commit_by_diffid ::
    "(string \<Rightarrow> string option) \<Rightarrow> layer_descriptor list \<Rightarrow> string list \<Rightarrow> layer_descriptor \<Rightarrow> layer_store \<Rightarrow> string option res" where
  "resolve_commit_by_diffid diffid_to_digest layers diff_ids layer st =
     (case find_digest_by_diffid diffid_to_digest layers diff_ids layer of
        None \<Rightarrow> Inr None
      | Some existing_digest \<Rightarrow> rbind (ref_for_blob_digest existing_digest) (\<lambda>r. Inr (ss_refs st r)))"

definition query_layer ::
    "(string \<Rightarrow> string option) \<Rightarrow> layer_descriptor list \<Rightarrow> string list \<Rightarrow> layer_store \<Rightarrow> layer_descriptor \<Rightarrow> layer_state res" where
  "query_layer diffid_to_digest layers diff_ids st layer =
     rbind (ref_for_blob_digest (ly_digest layer)) (\<lambda>ostree_ref.
     rbind (case ss_refs st ostree_ref of
              Some c \<Rightarrow> Inr (Some c)
            | None \<Rightarrow> resolve_commit_by_diffid diffid_to_digest layers diff_ids layer st) (\<lambda>commit.
     Inr \<lparr>ms_layer = layer, ms_ref = ostree_ref, ms_commit = commit\<rparr>))"

definition ensure_ref_for_layer :: "rstr \<Rightarrow> string \<Rightarrow> layer_store \<Rightarrow> layer_store" where
  "ensure_ref_for_layer ostree_ref commit st =
     (if ss_refs st ostree_ref \<noteq> None then st else st\<lparr>ss_refs := (ss_refs st)(ostree_ref \<mapsto> commit)\<rparr>)"

record prepared_import =
  pi_commit_layer :: "layer_state option"
  pi_ostree_layers :: "layer_state list"
  pi_layers :: "layer_state list"
  pi_verify_text :: "string option"

text \<open>The part of \<^verbatim>\<open>create_prepared_import\<close> after the check of the labels for a bootable image.\<close>

definition create_prepared_import ::
    "(string \<Rightarrow> string option) \<Rightarrow> layer_descriptor list \<Rightarrow> string list \<Rightarrow> (string \<Rightarrow> string option) \<Rightarrow> layer_store \<Rightarrow> prepared_import res" where
  "create_prepared_import diffid_to_digest layers diff_ids labels st =
     (let query = query_layer diffid_to_digest layers diff_ids st in
      rbind (parse_manifest_layout layers diff_ids labels) (\<lambda>(commit_layer, component_layers, remaining_layers).
      rbind (case commit_layer of None \<Rightarrow> Inr None | Some l \<Rightarrow> rbind (query l) (\<lambda>s. Inr (Some s))) (\<lambda>commit_layer.
      rbind (collect_res (map query component_layers)) (\<lambda>component_layers.
      rbind (collect_res (map query remaining_layers)) (\<lambda>remaining_layers.
      Inr \<lparr>pi_commit_layer = commit_layer, pi_ostree_layers = component_layers, pi_layers = remaining_layers,
           pi_verify_text = None\<rparr>)))))"

section \<open>Taking the commit out\<close>

text \<open>One object layer. Without \<^verbatim>\<open>write_refs\<close> no commit is made for it.\<close>

definition import_object_layer ::
    "ostree_ops \<Rightarrow> (string list \<Rightarrow> repo \<Rightarrow> (string \<times> repo) outcome) \<Rightarrow> (layer_descriptor \<Rightarrow> tar_entry list outcome)
       \<Rightarrow> bool \<Rightarrow> layer_state \<Rightarrow> layer_store \<Rightarrow> (layer_state \<times> layer_store) outcome" where
  "import_object_layer E synth fetch write_refs layer st =
     (case ms_commit layer of
        Some commit \<Rightarrow>
          Inr (layer, if write_refs then ensure_ref_for_layer (ms_ref layer) commit st else st)
      | None \<Rightarrow>
          rbind (fetch (ms_layer layer)) (\<lambda>archive.
          if write_refs then
            rbind (import_tar_objects E synth archive (ss_repo st)) (\<lambda>(commit, r).
            Inr (layer\<lparr>ms_commit := Some commit\<rparr>,
                 st\<lparr>ss_repo := r, ss_refs := (ss_refs st)(ms_ref layer \<mapsto> commit)\<rparr>))
          else
            rbind (import_objects E archive (new_for_object_set (ss_repo st))) (\<lambda>im.
            Inr (layer\<lparr>ms_commit := None\<rparr>, st\<lparr>ss_repo := im_repo im\<rparr>))))"

fun import_object_layers ::
    "ostree_ops \<Rightarrow> (string list \<Rightarrow> repo \<Rightarrow> (string \<times> repo) outcome) \<Rightarrow> (layer_descriptor \<Rightarrow> tar_entry list outcome)
       \<Rightarrow> bool \<Rightarrow> layer_state list \<Rightarrow> layer_store \<Rightarrow> (layer_state list \<times> layer_store) outcome" where
  "import_object_layers E synth fetch write_refs [] st = Inr ([], st)"
| "import_object_layers E synth fetch write_refs (layer # layers) st =
     rbind (import_object_layer E synth fetch write_refs layer st) (\<lambda>(layer, st).
     rbind (import_object_layers E synth fetch write_refs layers st) (\<lambda>(layers, st).
     Inr (layer # layers, st)))"

definition import_commit_layer ::
    "ostree_ops \<Rightarrow> (layer_descriptor \<Rightarrow> tar_entry list outcome) \<Rightarrow> string option \<Rightarrow> bool \<Rightarrow> string option
       \<Rightarrow> layer_state \<Rightarrow> layer_store \<Rightarrow> (layer_state \<times> string option \<times> layer_store) outcome" where
  "import_commit_layer E fetch remote write_refs old_text layer st =
     (case ms_commit layer of
        Some commit \<Rightarrow>
          Inr (layer, old_text, if write_refs then ensure_ref_for_layer (ms_ref layer) commit st else st)
      | None \<Rightarrow>
          rbind (fetch (ms_layer layer)) (\<lambda>archive.
          rbind (import_commit E archive (new_for_commit (ss_repo st) remote)) (\<lambda>im.
          rbind (finish_import_commit im) (\<lambda>(commit, verify_text).
          Inr (layer\<lparr>ms_commit := Some commit\<rparr>, verify_text,
               st\<lparr>ss_repo := mark_commit_partial commit False (im_repo im),
                  ss_refs := (if write_refs then (ss_refs st)(ms_ref layer \<mapsto> commit) else ss_refs st)\<rparr>)))))"

text \<open>\<^verbatim>\<open>default_insecure\<close> is whether containers-policy.json accepts anything by default.\<close>

definition unencapsulate_base ::
    "ostree_ops \<Rightarrow> (string list \<Rightarrow> repo \<Rightarrow> (string \<times> repo) outcome) \<Rightarrow> (layer_descriptor \<Rightarrow> tar_entry list outcome)
       \<Rightarrow> signature_source \<Rightarrow> bool \<Rightarrow> bool \<Rightarrow> bool \<Rightarrow> prepared_import \<Rightarrow> layer_store \<Rightarrow> (prepared_import \<times> layer_store) outcome" where
  "unencapsulate_base E synth fetch sigv default_insecure require_ostree write_refs imp st =
     (if sigv = ContainerPolicy \<and> default_insecure
      then Inl (Err ''containers-policy.json specifies a default of `insecureAcceptAnything`; refusing usage'')
      else
        let remote = (case sigv of OstreeRemote remote \<Rightarrow> Some remote | _ \<Rightarrow> None) in
        case pi_commit_layer imp of
          None \<Rightarrow> if require_ostree then Inl (Err ''No label found, not an ostree encapsulated container'')
                  else Inr (imp, st)
        | Some commit_layer \<Rightarrow>
            rbind (import_object_layers E synth fetch write_refs (pi_ostree_layers imp) st) (\<lambda>(layers, st).
            rbind (import_commit_layer E fetch remote write_refs (pi_verify_text imp) commit_layer st) (\<lambda>(commit_layer, verify_text, st).
            Inr (imp\<lparr>pi_ostree_layers := layers, pi_commit_layer := Some commit_layer, pi_verify_text := verify_text\<rparr>, st))))"

text \<open>\<^verbatim>\<open>unencapsulate\<close>, after the manifest has been fetched.\<close>

definition unencapsulate ::
    "ostree_ops \<Rightarrow> (string list \<Rightarrow> repo \<Rightarrow> (string \<times> repo) outcome) \<Rightarrow> (layer_descriptor \<Rightarrow> tar_entry list outcome)
       \<Rightarrow> signature_source \<Rightarrow> bool \<Rightarrow> prepared_import \<Rightarrow> layer_store \<Rightarrow> (string \<times> layer_store) outcome" where
  "unencapsulate E synth fetch sigv default_insecure prep st =
     (if pi_layers prep \<noteq> [] then Inl (Err ''Image has non-ostree layers'')
      else rbind (unencapsulate_base E synth fetch sigv default_insecure True False prep st) (\<lambda>(prep, st).
           case Option.bind (pi_commit_layer prep) ms_commit of
             Some ostree_commit \<Rightarrow> Inr (ostree_commit, st)
           | None \<Rightarrow> Inl (Panic ''called `Option::unwrap()` on a `None` value'')))"

section \<open>The layers of an exported image\<close>

definition oci_new :: oci_dir where
  "oci_new = \<lparr>ow_layers = [], ow_diff_ids = [], ow_history = [], ow_labels = Map.empty, ow_blobs = Map.empty\<rparr>"

text \<open>A digest can be part of a ref.\<close>

definition digests_ok :: "(tar_entry list \<Rightarrow> string \<times> string) \<Rightarrow> bool" where
  "digests_ok H = (\<forall>out. escapable (code_points (fst (H out))))"

definition component_descriptor :: "(tar_entry list \<Rightarrow> string \<times> string) \<Rightarrow> chunk \<times> tar_entry list \<Rightarrow> layer_descriptor" where
  "component_descriptor H co = \<lparr>ly_digest = fst (H (snd co)),
     ly_annotations = [(CONTENT_ANNOTATION, join_with '','' (sort (ck_packages (fst co))))]\<rparr>"

definition ostree_descriptor :: "(tar_entry list \<Rightarrow> string \<times> string) \<Rightarrow> tar_entry list \<Rightarrow> layer_descriptor" where
  "ostree_descriptor H out = \<lparr>ly_digest = fst (H out), ly_annotations = []\<rparr>"

definition the_layer :: "(tar_entry list \<Rightarrow> string \<times> string) \<Rightarrow> chunk \<times> tar_entry list \<Rightarrow> oci_layer \<times> string \<times> string list" where
  "the_layer H co = (\<lparr>ol_digest = fst (H (snd co)), ol_diffid = snd (H (snd co))\<rparr>, ck_name (fst co), ck_packages (fst co))"

definition diff_id :: "(tar_entry list \<Rightarrow> string \<times> string) \<Rightarrow> tar_entry list \<Rightarrow> string" where
  "diff_id H out = ''sha256:'' @ snd (H out)"

definition store_blobs ::
    "(tar_entry list \<Rightarrow> string \<times> string) \<Rightarrow> tar_entry list list \<Rightarrow> (string \<Rightarrow> tar_entry list option) \<Rightarrow> string \<Rightarrow> tar_entry list option" where
  "store_blobs H outs = fold (\<lambda>out m. m(fst (H out) \<mapsto> out)) outs"

lemma store_blobs_Cons: "store_blobs H (out # outs) m = store_blobs H outs (m(fst (H out) \<mapsto> out))"
  by (simp add: store_blobs_def)

lemma export_chunks_layers:
  assumes "\<forall>ck \<in> set cks. \<exists>out. export_chunk E S stat c (chunk_entries ck) cpd = Inr out"
  shows "\<exists>outs w'. length outs = length cks \<and> list_all2 (\<lambda>ck out. export_chunk E S stat c (chunk_entries ck) cpd = Inr out) cks outs
    \<and> export_chunks E H S stat c cpd cks w = Inr (map (the_layer H) (zip cks outs), w')
    \<and> ow_blobs w' = store_blobs H outs (ow_blobs w)
    \<and> ow_layers w' = ow_layers w \<and> ow_diff_ids w' = ow_diff_ids w \<and> ow_labels w' = ow_labels w"
  using assms
proof (induction cks arbitrary: w)
  case (Cons ck cks)
  obtain out where out: "export_chunk E S stat c (chunk_entries ck) cpd = Inr out" using Cons.prems by auto
  let ?w = "w\<lparr>ow_blobs := (ow_blobs w)(fst (H out) \<mapsto> out)\<rparr>"
  have "\<forall>ck \<in> set cks. \<exists>out. export_chunk E S stat c (chunk_entries ck) cpd = Inr out" using Cons.prems by simp
  from Cons.IH [OF this, of ?w] obtain outs w' where "length outs = length cks" "list_all2 (\<lambda>ck out. export_chunk E S stat c (chunk_entries ck) cpd = Inr out) cks outs"
    "export_chunks E H S stat c cpd cks ?w = Inr (map (the_layer H) (zip cks outs), w')"
    "ow_blobs w' = store_blobs H outs (ow_blobs ?w)"
    "ow_layers w' = ow_layers ?w" "ow_diff_ids w' = ow_diff_ids ?w" "ow_labels w' = ow_labels ?w"
    by blast
  then show ?case using out
    by (intro exI [of _ "out # outs"] exI [of _ w']) (simp add: complete_layer_def the_layer_def store_blobs_Cons)
qed (simp add: store_blobs_def)

lemma push_components:
  "ow_layers (fold push_component (map (the_layer H) cls) w) = ow_layers w @ map (component_descriptor H) cls
   \<and> ow_diff_ids (fold push_component (map (the_layer H) cls) w) = ow_diff_ids w @ map (diff_id H) (map snd cls)
   \<and> ow_blobs (fold push_component (map (the_layer H) cls) w) = ow_blobs w
   \<and> ow_labels (fold push_component (map (the_layer H) cls) w) = ow_labels w"
  by (induction cls arbitrary: w) (simp_all add: push_component_def the_layer_def push_layer_full_def component_descriptor_def diff_id_def)

lemma blobs_stored:
  "distinct (map (\<lambda>out. fst (H out)) outs) \<Longrightarrow> out \<in> set outs \<Longrightarrow> store_blobs H outs m (fst (H out)) = Some out"
proof (induction outs rule: rev_induct)
  case (snoc o' outs)
  then show ?case by (cases "out = o'") (auto simp: store_blobs_def image_iff)
qed simp

text \<open>The image: the ostree layer first, the label on the last layer, all contents stored.\<close>

definition image_of :: "(tar_entry list \<Rightarrow> string \<times> string) \<Rightarrow> tar_entry list \<Rightarrow> (chunk \<times> tar_entry list) list \<Rightarrow> oci_dir \<Rightarrow> bool" where
  "image_of H final cls w =
     (ow_layers w = ostree_descriptor H final # map (component_descriptor H) cls
      \<and> ow_diff_ids w = map (diff_id H) (final # map snd cls)
      \<and> ow_labels w DIFFID_LABEL = Some (last (ow_diff_ids w))
      \<and> ow_blobs w = store_blobs H (map snd cls @ [final]) Map.empty)"

lemma case_nonempty: "(case xs of [] \<Rightarrow> a | _ \<Rightarrow> b) = (if xs = [] then a else b)"
  by (cases xs) simp_all

lemma export_chunked_image:
  assumes "\<forall>ck \<in> set (chunks ch). \<exists>out. export_chunk E S stat c (chunk_entries ck) cpd = Inr out"
    and "export_final_chunk d E S stat c (chunk_entries (remainder ch)) cpd = Some (Inr final)"
  shows "\<exists>w outs. export_chunked d E H S stat c ch cpd desc oci_new = Some (Inr w) \<and> length outs = length (chunks ch)
    \<and> list_all2 (\<lambda>ck out. export_chunk E S stat c (chunk_entries ck) cpd = Inr out) (chunks ch) outs
    \<and> image_of H final (zip (chunks ch) outs) w"
proof -
  have new: "ow_layers oci_new = []" "ow_diff_ids oci_new = []" by (simp_all add: oci_new_def)
  obtain outs w1 where o: "length outs = length (chunks ch)"
      "list_all2 (\<lambda>ck out. export_chunk E S stat c (chunk_entries ck) cpd = Inr out) (chunks ch) outs"
      "export_chunks E H S stat c cpd (chunks ch) oci_new = Inr (map (the_layer H) (zip (chunks ch) outs), w1)"
      "ow_blobs w1 = store_blobs H outs (ow_blobs oci_new)"
      "ow_layers w1 = []" "ow_diff_ids w1 = []"
    using export_chunks_layers [OF assms(1), of H oci_new] new by auto
  let ?cls = "zip (chunks ch) outs"
  have snd: "map snd ?cls = outs" using o(1) by simp
  define last_digest where "last_digest = ol_diffid (case map (the_layer H) ?cls of
      [] \<Rightarrow> \<lparr>ol_digest = fst (H final), ol_diffid = snd (H final)\<rparr> | _ \<Rightarrow> fst (last (map (the_layer H) ?cls)))"
  define w2 where "w2 = push_layer_full \<lparr>ol_digest = fst (H final), ol_diffid = snd (H final)\<rparr> [] desc
      (w1\<lparr>ow_blobs := (ow_blobs w1)(fst (H final) \<mapsto> final)\<rparr>)"
  define w where "w = (fold push_component (map (the_layer H) ?cls) w2)
      \<lparr>ow_labels := (ow_labels (fold push_component (map (the_layer H) ?cls) w2))(DIFFID_LABEL \<mapsto> ''sha256:'' @ last_digest)\<rparr>"
  have exp: "export_chunked d E H S stat c ch cpd desc oci_new = Some (Inr w)"
    using o(3) assms(2) by (simp add: export_chunked_def complete_layer_def w_def w2_def last_digest_def Let_def)
  note push = push_components [of H ?cls w2]
  have last: "''sha256:'' @ last_digest = last (map (diff_id H) (final # map snd ?cls))"
    by (cases ?cls rule: rev_cases) (simp_all add: last_digest_def the_layer_def case_nonempty diff_id_def)
  have "ow_blobs w2 = store_blobs H (outs @ [final]) Map.empty"
    using o(4) by (simp add: w2_def push_layer_full_def store_blobs_def oci_new_def)
  moreover have "ow_layers w = ostree_descriptor H final # map (component_descriptor H) ?cls"
    "ow_diff_ids w = map (diff_id H) (final # map snd ?cls)" "ow_blobs w = ow_blobs w2"
    using push o(5,6) by (simp_all add: w_def w2_def push_layer_full_def ostree_descriptor_def diff_id_def)
  moreover have "ow_labels w DIFFID_LABEL = Some (last (map (diff_id H) (final # map snd ?cls)))"
    using last by (simp add: w_def)
  ultimately have "image_of H final ?cls w" unfolding image_of_def snd by simp
  with exp o(1,2) show ?thesis by blast
qed

section \<open>Finding the layers\<close>

lemma position_last: "distinct xs \<Longrightarrow> xs \<noteq> [] \<Longrightarrow> position (\<lambda>x. x = last xs) xs = Some (length xs - 1)"
  by (induction xs) auto

lemma split_layers_after: "t \<notin> set xs \<Longrightarrow> split_layers first t True xs = Inr ([], xs)"
  by (induction xs) auto

lemma split_layers_all:
  "xs \<noteq> [] \<Longrightarrow> distinct xs \<Longrightarrow> first \<notin> set xs \<Longrightarrow> split_layers first (last xs) False xs = Inr (xs, [])"
proof (induction xs)
  case (Cons x xs)
  then show ?case by (cases xs) (auto simp: split_layers_after)
qed simp

text \<open>All layers of an exported image are recognized as ostree layers.\<close>

lemma layout_exported:
  assumes "distinct ids" and "distinct layers" and "length ids = length layers" and "layers = first # rest"
    and "labels DIFFID_LABEL = Some (last ids)"
  shows "parse_manifest_layout layers ids labels = Inr (Some first, rest, [])"
proof -
  have "position (\<lambda>x. x = last ids) ids = Some (length ids - 1)"
    using assms(1,3,4) by (intro position_last) auto
  then have t: "layer_from_diffid layers ids (last ids) = Inr (last layers)"
    using assms(3,4) by (simp add: layer_from_diffid_def last_conv_nth)
  show ?thesis
  proof (cases "rest = []")
    case True
    then show ?thesis using assms t by (simp add: parse_manifest_layout_def)
  next
    case False
    have "split_layers first (last rest) False rest = Inr (rest, [])"
      using assms(2,4) False by (intro split_layers_all) auto
    moreover have "first \<noteq> last rest" using assms(2,4) False by auto
    ultimately show ?thesis using assms(4,5) t False by (simp add: parse_manifest_layout_def)
  qed
qed

section \<open>Importing the layers\<close>

definition files_held :: "repo \<Rightarrow> repo \<Rightarrow> string set \<Rightarrow> bool" where
  "files_held S r F = (\<forall>x \<in> F. rp_files S x \<noteq> None \<and> rp_files r x = rp_files S x)"

text \<open>The commit made for an object layer adds metadata objects only.\<close>

definition synth_ok :: "(string list \<Rightarrow> repo \<Rightarrow> (string \<times> repo) outcome) \<Rightarrow> bool" where
  "synth_ok synth = (\<forall>s r. \<exists>x r'. synth s r = Inr (x, r') \<and> rp_files r' = rp_files r)"

definition keys_of :: "chunk \<Rightarrow> string set" where
  "keys_of ck = fst ` set (chunk_entries ck)"

text \<open>Content objects that are equal to those of the source stay.\<close>

definition advances :: "repo \<Rightarrow> repo \<Rightarrow> repo \<Rightarrow> bool" where
  "advances S r r' = (\<forall>x. rp_files r' x = rp_files S x \<or> rp_files r' x = rp_files r x)"

lemma advances_held: "advances S r r' \<Longrightarrow> files_held S r F \<Longrightarrow> files_held S r' F"
  unfolding advances_def files_held_def by metis

lemma advances_trans: "advances S r r1 \<Longrightarrow> advances S r1 r2 \<Longrightarrow> advances S r r2"
  unfolding advances_def by metis

lemma advances_agree: "advances S r r' \<Longrightarrow> agree S r \<Longrightarrow> agree S r'"
  unfolding advances_def agree_def by (metis option.inject)

lemma with_files_advances: "advances S r (with_files S C r)"
  by (auto simp: advances_def with_files_def)

lemma object_layer:
  assumes "tar_reader read" and "chunk_ok E S stat (chunk_entries ck)" and "agree S (ss_repo st)" and "rp_meta S T_Commit c \<noteq> None"
    and "synth_ok synth" and "export_chunk E S stat c (chunk_entries ck) cpd = Inr out"
    and "fetch (ms_layer l) = Inr (map read out)"
    and "ms_commit l \<noteq> None \<longrightarrow> files_held S (ss_repo st) (keys_of ck)"
  shows "\<exists>l' st'. import_object_layer E synth fetch wr l st = Inr (l', st') \<and> advances S (ss_repo st) (ss_repo st')
    \<and> files_held S (ss_repo st') (keys_of ck)"
proof (cases "ms_commit l")
  case (Some x)
  then show ?thesis
    using assms(8) by (simp add: import_object_layer_def ensure_ref_for_layer_def advances_def)
next
  case None
  let ?r = "with_files S (fst ` set (chunk_entries ck)) (ss_repo st)"
  have held: "files_held S ?r (keys_of ck)"
    using assms(2) by (auto simp: files_held_def with_files_def keys_of_def chunk_ok_def file_ok_def split: option.splits)
  note rt = chunk_roundtrip [OF assms(1-4), of cpd]
  show ?thesis
  proof (cases wr)
    case True
    obtain x r' where s: "synth (btset (map fst (chunk_entries ck))) ?r = Inr (x, r')" "rp_files r' = rp_files ?r"
      using assms(5) unfolding synth_ok_def by blast
    have "import_tar_objects E synth (map read out) (ss_repo st) = Inr (x, r')"
      using rt [of synth] assms(6) s(1) by auto
    then show ?thesis
      using True None assms(7) s(2) held with_files_advances [of S "ss_repo st" "fst ` set (chunk_entries ck)"]
      by (simp add: import_object_layer_def advances_def files_held_def)
  next
    case False
    have "import_tar_objects E (\<lambda>s r. Inr ([], r)) (map read out) (ss_repo st) = Inr ([], ?r)"
      using rt [of "\<lambda>s r. Inr ([], r)"] assms(6) by auto
    note res = this
    then obtain im where im: "import_objects E (map read out) (new_for_object_set (ss_repo st)) = Inr im"
      by (cases "import_objects E (map read out) (new_for_object_set (ss_repo st))") (simp_all add: import_tar_objects_def)
    have "im_repo im = ?r" using res by (cases "im_data im") (simp_all add: import_tar_objects_def im)
    with im show ?thesis
      using False None assms(7) held with_files_advances [of S "ss_repo st" "fst ` set (chunk_entries ck)"]
      by (simp add: import_object_layer_def)
  qed
qed

lemma object_layers:
  assumes "tar_reader read" and "rp_meta S T_Commit c \<noteq> None" and "synth_ok synth"
  shows "length outs = length cks \<Longrightarrow> length ls = length cks \<Longrightarrow> \<forall>ck \<in> set cks. chunk_ok E S stat (chunk_entries ck) \<Longrightarrow>
    (\<forall>i < length cks. export_chunk E S stat c (chunk_entries (cks ! i)) cpd = Inr (outs ! i)
       \<and> fetch (ms_layer (ls ! i)) = Inr (map read (outs ! i))
       \<and> (ms_commit (ls ! i) \<noteq> None \<longrightarrow> files_held S (ss_repo st) (keys_of (cks ! i)))) \<Longrightarrow>
    agree S (ss_repo st) \<Longrightarrow>
    \<exists>ls' st'. import_object_layers E synth fetch wr ls st = Inr (ls', st') \<and> advances S (ss_repo st) (ss_repo st')
      \<and> files_held S (ss_repo st') (\<Union> (keys_of ` set cks))"
proof (induction cks arbitrary: outs ls st)
  case Nil
  then show ?case by (simp add: advances_def files_held_def)
next
  case (Cons ck cks)
  obtain out outs1 where outs: "outs = out # outs1" using Cons.prems(1) by (cases outs) auto
  obtain l ls1 where ls: "ls = l # ls1" using Cons.prems(2) by (cases ls) auto
  have all: "\<forall>i < Suc (length cks). export_chunk E S stat c (chunk_entries ((ck # cks) ! i)) cpd = Inr ((out # outs1) ! i)
       \<and> fetch (ms_layer ((l # ls1) ! i)) = Inr (map read ((out # outs1) ! i))
       \<and> (ms_commit ((l # ls1) ! i) \<noteq> None \<longrightarrow> files_held S (ss_repo st) (keys_of ((ck # cks) ! i)))"
    using Cons.prems(4) outs ls by simp
  from all have h: "export_chunk E S stat c (chunk_entries ck) cpd = Inr out" "fetch (ms_layer l) = Inr (map read out)"
    "ms_commit l \<noteq> None \<longrightarrow> files_held S (ss_repo st) (keys_of ck)" by force+
  have ck: "chunk_ok E S stat (chunk_entries ck)" using Cons.prems(3) by simp
  obtain l' st1 where s1: "import_object_layer E synth fetch wr l st = Inr (l', st1)" "advances S (ss_repo st) (ss_repo st1)"
      "files_held S (ss_repo st1) (keys_of ck)"
    using object_layer [where fetch = fetch, OF assms(1) ck Cons.prems(5) assms(2,3) h] by blast
  have t: "\<forall>i < length cks. export_chunk E S stat c (chunk_entries (cks ! i)) cpd = Inr (outs1 ! i)
       \<and> fetch (ms_layer (ls1 ! i)) = Inr (map read (outs1 ! i))
       \<and> (ms_commit (ls1 ! i) \<noteq> None \<longrightarrow> files_held S (ss_repo st1) (keys_of (cks ! i)))"
  proof (intro allI impI)
    fix i assume "i < length cks"
    with all have "export_chunk E S stat c (chunk_entries (cks ! i)) cpd = Inr (outs1 ! i)
       \<and> fetch (ms_layer (ls1 ! i)) = Inr (map read (outs1 ! i))
       \<and> (ms_commit (ls1 ! i) \<noteq> None \<longrightarrow> files_held S (ss_repo st) (keys_of (cks ! i)))"
      by (metis Suc_less_eq nth_Cons_Suc)
    then show "export_chunk E S stat c (chunk_entries (cks ! i)) cpd = Inr (outs1 ! i)
       \<and> fetch (ms_layer (ls1 ! i)) = Inr (map read (outs1 ! i))
       \<and> (ms_commit (ls1 ! i) \<noteq> None \<longrightarrow> files_held S (ss_repo st1) (keys_of (cks ! i)))"
      using advances_held [OF s1(2)] by blast
  qed
  from Cons.IH [OF _ _ _ t advances_agree [OF s1(2) Cons.prems(5)]] Cons.prems(1-3) outs ls obtain ls2 st2 where
    s2: "import_object_layers E synth fetch wr ls1 st1 = Inr (ls2, st2)" "advances S (ss_repo st1) (ss_repo st2)"
      "files_held S (ss_repo st2) (\<Union> (keys_of ` set cks))" by auto
  then show ?case
    using s1 ls advances_trans [OF s1(2) s2(2)] advances_held [OF s2(2) s1(3)] by (auto simp: files_held_def)
qed

section \<open>The whole way\<close>

lemma ref_ok: "escapable (code_points g) \<Longrightarrow> \<exists>r. ref_for_blob_digest g = Inr r"
  by (metis escapable_escape prefix_escape_for_ref_def rbind_simps(2) ref_for_blob_digest_def)

lemma query_ok:
  assumes "escapable (code_points (ly_digest l))" and "\<forall>x g. dd x = Some g \<longrightarrow> escapable (code_points g)"
  shows "\<exists>s. query_layer dd layers ids st l = Inr s \<and> ms_layer s = l"
proof -
  obtain r where r: "ref_for_blob_digest (ly_digest l) = Inr r" using ref_ok [OF assms(1)] by blast
  have "\<exists>c. resolve_commit_by_diffid dd layers ids l st = Inr c"
  proof (cases "find_digest_by_diffid dd layers ids l")
    case (Some g)
    then have "\<exists>x. dd x = Some g" by (auto simp: find_digest_by_diffid_def bind_eq_Some_conv split: if_splits)
    then obtain r' where "ref_for_blob_digest g = Inr r'" using assms(2) ref_ok by blast
    then show ?thesis using Some by (simp add: resolve_commit_by_diffid_def)
  qed (simp add: resolve_commit_by_diffid_def)
  then show ?thesis using r by (auto simp: query_layer_def split: option.splits)
qed

lemma queries_ok:
  assumes "\<forall>l \<in> set ls. escapable (code_points (ly_digest l))" and "\<forall>x g. dd x = Some g \<longrightarrow> escapable (code_points g)"
  shows "\<exists>ss. collect_res (map (query_layer dd layers ids st) ls) = Inr ss \<and> length ss = length ls
    \<and> (\<forall>i < length ls. query_layer dd layers ids st (ls ! i) = Inr (ss ! i) \<and> ms_layer (ss ! i) = ls ! i)"
proof -
  have "\<forall>l \<in> set ls. \<exists>s. query_layer dd layers ids st l = Inr s \<and> ms_layer s = l"
    using assms(1) query_ok [OF _ assms(2)] by blast
  then obtain f where f: "\<forall>l \<in> set ls. query_layer dd layers ids st l = Inr (f l) \<and> ms_layer (f l) = l" by metis
  then have "collect_res (map (query_layer dd layers ids st) ls) = Inr (map f ls)"
    by (simp add: collect_res_Inr_iff)
  with f show ?thesis by (intro exI [of _ "map f ls"]) simp
qed

lemma commit_layer:
  assumes "tar_reader read" and "commit_ok E S d c" and "chunk_ok E S stat (chunk_entries rem)" and "verified E S c remote"
    and "agree S (ss_repo st)" and "export_final_chunk d E S stat c (chunk_entries rem) cpd = Some (Inr out)"
    and "fetch (ms_layer l) = Inr (map read out)" and "ms_commit l = None"
  shows "\<exists>l' vt st'. import_commit_layer E fetch remote wr old l st = Inr (l', vt, st') \<and> ms_commit l' = Some c
    \<and> advances S (ss_repo st) (ss_repo st') \<and> c \<notin> rp_partial (ss_repo st')
    \<and> rp_meta (ss_repo st') T_Commit c = rp_meta S T_Commit c
    \<and> (\<forall>b \<in> commit_blocks E S True d c \<union> B_File ` keys_of rem. holds S (ss_repo st') b)"
proof -
  obtain r' where r': "import_tar E (map read out) remote (ss_repo st) = Inr (c, r')" "c \<notin> rp_partial r'"
      "rp_meta r' T_Commit c = rp_meta S T_Commit c" "\<forall>b \<in> commit_blocks E S True d c \<union> B_File ` keys_of rem. holds S r' b"
      "advances S (ss_repo st) r'"
    using final_roundtrip [OF assms(1-5), of cpd] assms(6) by (auto simp: keys_of_def advances_def)
  then obtain im vt where im: "import_commit E (map read out) (new_for_commit (ss_repo st) remote) = Inr im"
      "finish_import_commit im = Inr (c, vt)" "r' = mark_commit_partial c False (im_repo im)"
    by (auto simp: import_tar_def rbind_Inr_iff)
  then show ?thesis
    using assms(7,8) r' by (simp add: import_commit_layer_def)
qed

lemma blocks_split:
  "b \<in> commit_blocks E S False d c \<Longrightarrow> b \<in> commit_blocks E S True d c \<or> (\<exists>x. b = B_File x)"
proof -
  have "b \<in> tree_blocks E S False d root t \<Longrightarrow> b \<in> tree_blocks E S True d root t \<or> (\<exists>x. b = B_File x)" for root t
    by (induction d arbitrary: root t) (fastforce simp: own_blocks_def split: if_splits)+
  then show "b \<in> commit_blocks E S False d c \<Longrightarrow> ?thesis" by (auto simp: commit_blocks_def)
qed

lemma held_blocks:
  assumes "\<forall>b \<in> commit_blocks E S True d c \<union> B_File ` keys_of rem. holds S r b" and "files_held S r F"
    and "\<forall>x. B_File x \<in> commit_blocks E S False d c \<longrightarrow> x \<in> F \<union> keys_of rem"
  shows "\<forall>b \<in> commit_blocks E S False d c. holds S r b"
proof
  fix b assume b: "b \<in> commit_blocks E S False d c"
  show "holds S r b"
  proof (cases "b \<in> commit_blocks E S True d c")
    case True
    then show ?thesis using assms(1) by blast
  next
    case False
    then obtain x where x: "b = B_File x" using blocks_split [OF b] by blast
    then have "x \<in> F \<or> x \<in> keys_of rem" using assms(3) b by blast
    then have "holds S r (B_File x)"
    proof
      assume "x \<in> F"
      then show ?thesis using assms(2) by (simp add: files_held_def)
    qed (use assms(1) in blast)
    then show ?thesis by (simp add: x)
  qed
qed

text \<open>What the proxy delivers for a layer of a directory.\<close>

definition fetch_from :: "(tar_entry \<Rightarrow> tar_entry) \<Rightarrow> oci_dir \<Rightarrow> layer_descriptor \<Rightarrow> tar_entry list outcome" where
  "fetch_from read w l = (case ow_blobs w (ly_digest l) of Some out \<Rightarrow> Inr (map read out) | None \<Rightarrow> Inl (Err ''not found''))"

text \<open>
  The store knows object layers only when it has their objects, and does not have the commit layer.
\<close>

definition cache_ok :: "repo \<Rightarrow> (string \<Rightarrow> string option) \<Rightarrow> oci_dir \<Rightarrow> chunk list \<Rightarrow> layer_store \<Rightarrow> bool" where
  "cache_ok S dd w cks st =
     ((\<forall>s. query_layer dd (ow_layers w) (ow_diff_ids w) st (hd (ow_layers w)) = Inr s \<longrightarrow> ms_commit s = None)
      \<and> (\<forall>i < length cks. \<forall>s. query_layer dd (ow_layers w) (ow_diff_ids w) st (tl (ow_layers w) ! i) = Inr s
           \<longrightarrow> ms_commit s \<noteq> None \<longrightarrow> files_held S (ss_repo st) (keys_of (cks ! i))))"

definition image_ok :: "ostree_ops \<Rightarrow> repo \<Rightarrow> (cpath \<Rightarrow> dirmeta_obj outcome) \<Rightarrow> nat \<Rightarrow> string \<Rightarrow> chunking \<Rightarrow> bool" where
  "image_ok E S stat d c ch =
     (commit_ok E S d c \<and> (\<forall>ck \<in> set (remainder ch # chunks ch). chunk_ok E S stat (chunk_entries ck))
      \<and> (\<forall>x. B_File x \<in> commit_blocks E S False d c \<longrightarrow> x \<in> \<Union> (keys_of ` set (chunks ch)) \<union> keys_of (remainder ch)))"

text \<open>No two layers are equal.\<close>

definition layers_distinct :: "oci_dir \<Rightarrow> bool" where
  "layers_distinct w = (distinct (ow_diff_ids w) \<and> distinct (map ly_digest (ow_layers w)))"

lemma layer_digests:
  "image_of H final cls w \<Longrightarrow> map ly_digest (ow_layers w) = map (\<lambda>out. fst (H out)) (final # map snd cls)"
  by (simp add: image_of_def ostree_descriptor_def component_descriptor_def comp_def)

lemma fetch_layer:
  assumes "image_of H final cls w" and "layers_distinct w" and "out \<in> set (final # map snd cls)" and "ly_digest l = fst (H out)"
  shows "fetch_from read w l = Inr (map read out)"
proof -
  have "distinct (map (\<lambda>out. fst (H out)) (map snd cls @ [final]))"
    using assms(2) layer_digests [OF assms(1)] by (auto simp: layers_distinct_def)
  then have "store_blobs H (map snd cls @ [final]) Map.empty (fst (H out)) = Some out"
    by (rule blobs_stored) (use assms(3) in auto)
  then show ?thesis using assms(1,4) by (simp add: fetch_from_def image_of_def)
qed

lemma distinct_mapD: "distinct (map f xs) \<Longrightarrow> distinct xs"
  by (simp add: distinct_map)

lemma prepared:
  assumes "digests_ok H" and "image_of H final cls w" and "layers_distinct w"
    and "\<forall>x g. dd x = Some g \<longrightarrow> escapable (code_points g)"
  shows "\<exists>l ls. create_prepared_import dd (ow_layers w) (ow_diff_ids w) (ow_labels w) st =
      Inr \<lparr>pi_commit_layer = Some l, pi_ostree_layers = ls, pi_layers = [], pi_verify_text = None\<rparr>
    \<and> query_layer dd (ow_layers w) (ow_diff_ids w) st (hd (ow_layers w)) = Inr l \<and> ms_layer l = ostree_descriptor H final
    \<and> length ls = length cls \<and> (\<forall>i < length cls. query_layer dd (ow_layers w) (ow_diff_ids w) st (tl (ow_layers w) ! i) = Inr (ls ! i)
         \<and> ms_layer (ls ! i) = component_descriptor H (cls ! i))"
proof -
  let ?rest = "map (component_descriptor H) cls"
  have l: "ow_layers w = ostree_descriptor H final # ?rest" "length (ow_diff_ids w) = length (ow_layers w)"
    "ow_labels w DIFFID_LABEL = Some (last (ow_diff_ids w))"
    using assms(2) by (simp_all add: image_of_def)
  have lay: "parse_manifest_layout (ow_layers w) (ow_diff_ids w) (ow_labels w) = Inr (Some (ostree_descriptor H final), ?rest, [])"
    using assms(3) by (intro layout_exported [where labels = "ow_labels w", OF _ _ l(2,1,3)]) (auto simp: layers_distinct_def intro: distinct_mapD)
  have esc: "\<forall>l \<in> set ?rest. escapable (code_points (ly_digest l))" "escapable (code_points (ly_digest (ostree_descriptor H final)))"
    using assms(1) by (auto simp: digests_ok_def component_descriptor_def ostree_descriptor_def)
  obtain s where s: "query_layer dd (ow_layers w) (ow_diff_ids w) st (ostree_descriptor H final) = Inr s" "ms_layer s = ostree_descriptor H final"
    using query_ok [OF esc(2) assms(4)] by blast
  obtain ss where ss: "collect_res (map (query_layer dd (ow_layers w) (ow_diff_ids w) st) ?rest) = Inr ss" "length ss = length ?rest"
      "\<forall>i < length ?rest. query_layer dd (ow_layers w) (ow_diff_ids w) st (?rest ! i) = Inr (ss ! i) \<and> ms_layer (ss ! i) = ?rest ! i"
    using queries_ok [OF esc(1) assms(4)] by blast
  have "create_prepared_import dd (ow_layers w) (ow_diff_ids w) (ow_labels w) st =
      Inr \<lparr>pi_commit_layer = Some s, pi_ostree_layers = ss, pi_layers = [], pi_verify_text = None\<rparr>"
    unfolding create_prepared_import_def Let_def lay using s(1) ss(1) by (simp del: map_map)
  then show ?thesis using s ss l(1) by (intro exI [of _ s] exI [of _ ss]) simp
qed

lemma unencapsulate_image:
  assumes rd: "tar_reader read" and ok: "image_ok E S stat d c ch" and H: "digests_ok H" and sy: "synth_ok synth"
    and rm: "remote = (case sigv of OstreeRemote rm \<Rightarrow> Some rm | _ \<Rightarrow> None)" "verified E S c remote" "\<not> (sigv = ContainerPolicy \<and> insecure)"
    and ag: "agree S (ss_repo st)" and dd: "\<forall>x g. dd x = Some g \<longrightarrow> escapable (code_points g)"
    and final: "export_final_chunk d E S stat c (chunk_entries (remainder ch)) cpd = Some (Inr final)"
    and outs: "length outs = length (chunks ch)" "list_all2 (\<lambda>ck out. export_chunk E S stat c (chunk_entries ck) cpd = Inr out) (chunks ch) outs"
    and img: "image_of H final (zip (chunks ch) outs) w" and ld: "layers_distinct w" and ca: "cache_ok S dd w (chunks ch) st"
  shows "\<exists>prep prep' st' l. create_prepared_import dd (ow_layers w) (ow_diff_ids w) (ow_labels w) st = Inr prep
          \<and> pi_layers prep = [] \<and> unencapsulate_base E synth (fetch_from read w) sigv insecure ro wr prep st = Inr (prep', st')
          \<and> pi_commit_layer prep' = Some l \<and> ms_commit l = Some c \<and> c \<notin> rp_partial (ss_repo st')
          \<and> rp_meta (ss_repo st') T_Commit c = rp_meta S T_Commit c
          \<and> (\<forall>b \<in> commit_blocks E S False d c. holds S (ss_repo st') b)"
proof -
  have c: "commit_ok E S d c" "chunk_ok E S stat (chunk_entries (remainder ch))" "\<forall>ck \<in> set (chunks ch). chunk_ok E S stat (chunk_entries ck)"
    "rp_meta S T_Commit c \<noteq> None"
    using ok by (auto simp: image_ok_def commit_ok_def meta_ok_def split: option.splits)
  from prepared [OF H img ld dd, of st] outs(1) obtain l ls where
    prep: "create_prepared_import dd (ow_layers w) (ow_diff_ids w) (ow_labels w) st =
      Inr \<lparr>pi_commit_layer = Some l, pi_ostree_layers = ls, pi_layers = [], pi_verify_text = None\<rparr>"
    and l: "query_layer dd (ow_layers w) (ow_diff_ids w) st (hd (ow_layers w)) = Inr l" "ms_layer l = ostree_descriptor H final"
    and ls: "length ls = length (chunks ch)" "\<forall>i < length (chunks ch).
        query_layer dd (ow_layers w) (ow_diff_ids w) st (tl (ow_layers w) ! i) = Inr (ls ! i)
        \<and> ms_layer (ls ! i) = component_descriptor H (chunks ch ! i, outs ! i)"
    by auto
  have fetch: "fetch_from read w (component_descriptor H (ck, out)) = Inr (map read out)" if "out \<in> set outs" for ck out
    using that outs(1) by (intro fetch_layer [OF img ld]) (auto simp: component_descriptor_def)
  have each: "\<forall>i < length (chunks ch). export_chunk E S stat c (chunk_entries (chunks ch ! i)) cpd = Inr (outs ! i)
     \<and> fetch_from read w (ms_layer (ls ! i)) = Inr (map read (outs ! i))
     \<and> (ms_commit (ls ! i) \<noteq> None \<longrightarrow> files_held S (ss_repo st) (keys_of (chunks ch ! i)))"
    using outs ls(2) ca fetch by (auto simp: list_all2_conv_all_nth cache_ok_def)
  from object_layers [where fetch = "fetch_from read w", OF rd c(4) sy outs(1) ls(1) c(3) each ag]
  obtain ls' st1 where s1: "import_object_layers E synth (fetch_from read w) wr ls st = Inr (ls', st1)"
      "advances S (ss_repo st) (ss_repo st1)" "files_held S (ss_repo st1) (\<Union> (keys_of ` set (chunks ch)))" by blast
  have l0: "ms_commit l = None" "fetch_from read w (ms_layer l) = Inr (map read final)"
    using ca l fetch_layer [OF img ld, of final] by (auto simp: cache_ok_def ostree_descriptor_def)
  from commit_layer [where fetch = "fetch_from read w", OF rd c(1,2) rm(2) advances_agree [OF s1(2) ag] final l0(2,1)]
  obtain l' vt st2 where s2: "import_commit_layer E (fetch_from read w) remote wr None l st1 = Inr (l', vt, st2)" "ms_commit l' = Some c"
      "advances S (ss_repo st1) (ss_repo st2)" "c \<notin> rp_partial (ss_repo st2)" "rp_meta (ss_repo st2) T_Commit c = rp_meta S T_Commit c"
      "\<forall>b \<in> commit_blocks E S True d c \<union> B_File ` keys_of (remainder ch). holds S (ss_repo st2) b" by blast
  have "\<forall>b \<in> commit_blocks E S False d c. holds S (ss_repo st2) b"
    using ok by (intro held_blocks [OF s2(6) advances_held [OF s2(3) s1(3)]]) (simp add: image_ok_def)
  moreover have "unencapsulate_base E synth (fetch_from read w) sigv insecure ro wr
      \<lparr>pi_commit_layer = Some l, pi_ostree_layers = ls, pi_layers = [], pi_verify_text = None\<rparr> st =
      Inr (\<lparr>pi_commit_layer = Some l', pi_ostree_layers = ls', pi_layers = [], pi_verify_text = vt\<rparr>, st2)"
    using rm s1(1) s2(1) by (simp add: unencapsulate_base_def)
  ultimately show ?thesis using prep s2(2,4,5) by fastforce
qed


section \<open>An example image\<close>

definition demo_stat :: "cpath \<Rightarrow> dirmeta_obj outcome" where
  "demo_stat p = Inr \<lparr>dm_uid = 0, dm_gid = 0, dm_mode = 16877\<rparr>"

definition has_commit :: "tar_entry list \<Rightarrow> bool" where
  "has_commit out = (case List.map_filter filter_entry out of
     (e, p) # _ \<Rightarrow> (case parse_metadata_entry p of Inr (_, t) \<Rightarrow> t = T_Commit | Inl _ \<Rightarrow> False) | [] \<Rightarrow> False)"

definition demo_digest :: "tar_entry list \<Rightarrow> string \<times> string" where
  "demo_digest out = (if has_commit out then (''a'', ''1'') else (''b'', ''2''))"

definition demo_chunk :: "char \<Rightarrow> string \<Rightarrow> chunk" where
  "demo_chunk x path = (chunk_new ''c'')\<lparr>ck_content := [(demo_csum x, 2, [path])]\<rparr>"

definition demo_chunking :: chunking where
  "demo_chunking = \<lparr>metadata_size = 0, remainder = demo_chunk CHR ''e'' ''/l'', chunks = [demo_chunk CHR ''f'' ''/f''],
     max_layers = 4, processed_mapping = True, n_provided_components = 1, n_sized_components = 1\<rparr>"

definition demo_store :: layer_store where
  "demo_store = \<lparr>ss_repo = empty_repo, ss_refs = Map.empty\<rparr>"

lemma import_has_commit: "import_tar E archive remote r = Inr x \<Longrightarrow> has_commit archive"
  by (auto simp: import_tar_def import_commit_def has_commit_def rbind_Inr_iff lift_res_def
      split: list.splits prod.splits if_splits sum.splits)

text \<open>The stream of a chunk starts with the attributes of an object.\<close>

lemma chunk_no_commit:
  assumes "tar_reader (\<lambda>e. e)" and "chunk_ok E S stat chunk" and "rp_meta S T_Commit c \<noteq> None"
    and "export_chunk E S stat c chunk cpd = Inr out"
  shows "\<not> has_commit out"
proof -
  obtain cs epss where o: "set cs = fst ` set chunk" "list_all2 (block_entries S) (map B_File cs) epss"
      "List.map_filter filter_entry out = concat epss"
    using chunk_stream [OF assms(1-3), of cpd] assms(4) by auto
  show ?thesis
  proof (cases cs)
    case Nil
    then show ?thesis using o(2,3) by (simp add: has_commit_def)
  next
    case (Cons x xs)
    then have "x \<in> fst ` set chunk" using o(1) by auto
    then have "file_ok E S x" using assms(2) by (auto simp: chunk_ok_def)
    then have x: "is_checksum x" by (simp add: file_ok_def)
    obtain e rest where f: "List.map_filter filter_entry out = (e, xattrp x) # rest"
      using o(2,3) Cons by (auto simp: list_all2_Cons1)
    have "CHR ''.'' \<notin> set ''file-xattrs-link''" by simp
    from parse_object_path_gen [OF x this]
    have "parse_object_entry_path (xattrp x) = Inr (take 2 x, drop 2 x @ ''.file-xattrs-link'', ''file-xattrs-link'')"
      "parse_checksum (take 2 x) (drop 2 x @ ''.file-xattrs-link'') = Inr x"
      using parse_object_path_gen(1) [OF x, of "''file-xattrs-link''" "[Normal ''objects'']"] by (simp_all add: xattrp_def)
    then have "parse_metadata_entry (xattrp x) = Inl ''Invalid object type''"
      by (simp add: parse_metadata_entry_def objtype_from_string_def)
    then show ?thesis by (simp add: has_commit_def f)
  qed
qed

lemma demo_entries: "path_components [CHR ''/'', x] = [RootDir, Normal [x]] \<Longrightarrow>
   chunk_entries (demo_chunk c [CHR ''/'', x]) = [(demo_csum c, [[RootDir, Normal [x]]])]"
  by (simp add: chunk_entries_def demo_chunk_def chunk_new_def)

lemma demo_paths: "path_components ''/f'' = [RootDir, Normal ''f'']" "path_components ''/l'' = [RootDir, Normal ''l'']"
  by code_simp+

lemma demo_image_ok: "image_ok demo_ops demo_repo demo_stat (Suc 0) (demo_csum CHR ''c'') demo_chunking"
proof -
  have p: "paths_ok demo_stat [[RootDir, Normal x]]" for x
    by (simp add: paths_ok_def path_for_tar_v1_def map_path_v1_def starts_with_def off_repo_def REPO_PREFIX_def demo_stat_def)
  have "\<forall>x. B_File x \<in> commit_blocks demo_ops demo_repo False (Suc 0) (demo_csum CHR ''c'') \<longrightarrow> x \<in> {demo_csum CHR ''f'', demo_csum CHR ''e''}"
    by (simp add: commit_blocks_def demo_trees own_blocks_def)
  then show ?thesis
    using demo_commit_ok demo_file_ok p
    by (auto simp: image_ok_def demo_chunking_def keys_of_def demo_entries [OF demo_paths(1)] demo_entries [OF demo_paths(2)] chunk_ok_def)
qed


end
