(* ===== verification/Image_Store.thy ===== *)
theory Image_Store
  imports Encapsulate
begin

text \<open>
  Stored images (\<^verbatim>\<open>crates/ostree-ext/src/container/store.rs\<close>): an image is a ref to a merge commit whose
  metadata has the manifest and the configuration; layers are refs too. Here are the queries, the
  cached pending update, the decision of an import whether there is anything to fetch, the removal of
  images and the garbage collection of layers.

  The variants of commit metadata, JSON and digests are read and written by libraries, the record
  \<^verbatim>\<open>meta_ops\<close>. Refs and digests are ASCII. \<^verbatim>\<open>listing p\<close> is what ostree lists below a prefix, in the order of
  a hash map.
\<close>

section \<open>Metadata\<close>

datatype variant = V_String string | V_Other string

type_synonym vdict = "(string, variant) btree"

record oci_manifest =
  om_config :: string
  om_layers :: "layer_descriptor list"

record oci_config =
  oc_diff_ids :: "string list"
  oc_labels :: "(string \<times> string) list"

record meta_ops =
  mo_commit_meta :: "string \<Rightarrow> vdict"
  mo_dict :: "string \<Rightarrow> vdict"
  mo_dict_fmt :: "vdict \<Rightarrow> string"
  mo_digest :: "string \<Rightarrow> string res"
  mo_manifest :: "string \<Rightarrow> oci_manifest res"
  mo_manifest_fmt :: "oci_manifest \<Rightarrow> string"
  mo_config :: "string \<Rightarrow> oci_config res"
  mo_config_fmt :: "oci_config \<Rightarrow> string"
  mo_default_config :: oci_config

definition META_MANIFEST_DIGEST :: string where "META_MANIFEST_DIGEST = ''ostree.manifest-digest''"

definition META_MANIFEST :: string where "META_MANIFEST = ''ostree.manifest''"

definition META_CONFIG :: string where "META_CONFIG = ''ostree.container.image-config''"

definition CACHED_KEY_MANIFEST_DIGEST :: string where "CACHED_KEY_MANIFEST_DIGEST = ''ostree-ext.cached.manifest-digest''"

definition CACHED_KEY_MANIFEST :: string where "CACHED_KEY_MANIFEST = ''ostree-ext.cached.manifest''"

definition CACHED_KEY_CONFIG :: string where "CACHED_KEY_CONFIG = ''ostree-ext.cached.config''"

text \<open>\<^verbatim>\<open>lookup::<String>\<close>, and \<^verbatim>\<open>lookup_value\<close> followed by \<^verbatim>\<open>str\<close>.\<close>

definition lookup_string :: "vdict \<Rightarrow> string \<Rightarrow> string option res" where
  "lookup_string d k =
     (case bt_get d k of
        None \<Rightarrow> Inr None
      | Some (V_String s) \<Rightarrow> Inr (Some s)
      | Some (V_Other _) \<Rightarrow> Inl ''Mismatched variant type'')"

definition lookup_str :: "vdict \<Rightarrow> string \<Rightarrow> string option" where
  "lookup_str d k = (case bt_get d k of Some (V_String s) \<Rightarrow> Some s | _ \<Rightarrow> None)"

definition manifest_data_from_commitmeta :: "meta_ops \<Rightarrow> vdict \<Rightarrow> (oci_manifest \<times> string) res" where
  "manifest_data_from_commitmeta J commit_meta =
     rbind (lookup_string commit_meta META_MANIFEST_DIGEST) (\<lambda>digest.
     rbind (ok_or ''Missing metadata on merge commit'' digest) (\<lambda>digest.
     rbind (mo_digest J digest) (\<lambda>digest.
     rbind (lookup_string commit_meta META_MANIFEST) (\<lambda>manifest_bytes.
     rbind (ok_or ''Failed to find metadata key'' manifest_bytes) (\<lambda>manifest_bytes.
     rbind (mo_manifest J manifest_bytes) (\<lambda>r.
     Inr (r, digest)))))))"

definition image_config_from_commitmeta :: "meta_ops \<Rightarrow> vdict \<Rightarrow> oci_config res" where
  "image_config_from_commitmeta J commit_meta =
     rbind (lookup_string commit_meta META_CONFIG) (\<lambda>config.
     case (case config of Some v \<Rightarrow> if v \<noteq> ''null'' then Some v else None | None \<Rightarrow> None) of
       Some v \<Rightarrow> mo_config J v
     | None \<Rightarrow> Inr (mo_default_config J))"

definition load_commit_meta :: "meta_ops \<Rightarrow> layer_store \<Rightarrow> string \<Rightarrow> vdict res" where
  "load_commit_meta J st commit =
     rbind (ok_or ''No such metadata object'' (rp_meta (ss_repo st) T_Commit commit)) (\<lambda>v. Inr (mo_commit_meta J v))"

section \<open>Queries\<close>

definition IMAGE_PREFIX :: rstr where
  "IMAGE_PREFIX = code_points ''ostree/container/image''"

definition BASE_IMAGE_PREFIX :: rstr where
  "BASE_IMAGE_PREFIX = code_points ''ostree/container/baseimage''"

definition OSTREE_BASE_DEPLOYMENT_REFS :: "rstr list" where
  "OSTREE_BASE_DEPLOYMENT_REFS = [code_points ''ostree/0'', code_points ''ostree/1'']"

definition RPMOSTREE_BASE_REFS :: "rstr list" where
  "RPMOSTREE_BASE_REFS = [code_points ''rpmostree/base'']"

definition text_of :: "rstr \<Rightarrow> string" where
  "text_of s = map char_of s"

definition ref_for_layer :: "layer_descriptor \<Rightarrow> rstr res" where
  "ref_for_layer l = ref_for_blob_digest (ly_digest l)"

definition ref_for_image :: "'t proxy \<Rightarrow> 't image_ref \<Rightarrow> rstr res" where
  "ref_for_image P l = prefix_escape_for_ref IMAGE_PREFIX (code_points (px_fmt P l))"

record cached_image_update =
  cu_manifest :: oci_manifest
  cu_config :: oci_config
  cu_manifest_digest :: string

record layered_image_state =
  li_base_commit :: string
  li_merge_commit :: string
  li_manifest_digest :: string
  li_manifest :: oci_manifest
  li_configuration :: oci_config
  li_cached_update :: "cached_image_update option"

definition parse_cached_update :: "meta_ops \<Rightarrow> vdict \<Rightarrow> cached_image_update option res" where
  "parse_cached_update J dict =
     rbind (lookup_string dict CACHED_KEY_MANIFEST_DIGEST) (\<lambda>manifest_digest.
     case manifest_digest of
       None \<Rightarrow> Inr None
     | Some manifest_digest \<Rightarrow>
         rbind (mo_digest J manifest_digest) (\<lambda>manifest_digest.
         rbind (case lookup_str dict CACHED_KEY_MANIFEST of
                  Some s \<Rightarrow> mo_manifest J s | None \<Rightarrow> Inl ''Expected cached manifest'') (\<lambda>manifest.
         rbind (case lookup_str dict CACHED_KEY_CONFIG of
                  Some s \<Rightarrow> mo_config J s | None \<Rightarrow> Inl ''Expected cached manifest'') (\<lambda>config.
         Inr (Some \<lparr>cu_manifest = manifest, cu_config = config, cu_manifest_digest = manifest_digest\<rparr>)))))"

definition query_image_commit :: "meta_ops \<Rightarrow> layer_store \<Rightarrow> string \<Rightarrow> layered_image_state res" where
  "query_image_commit J st commit =
     rbind (load_commit_meta J st commit) (\<lambda>commit_meta.
     rbind (manifest_data_from_commitmeta J commit_meta) (\<lambda>(manifest, manifest_digest).
     rbind (image_config_from_commitmeta J commit_meta) (\<lambda>configuration.
     case om_layers manifest of
       [] \<Rightarrow> Inl ''No layers found''
     | base_layer # _ \<Rightarrow>
         rbind (ref_for_layer base_layer) (\<lambda>ostree_ref.
         rbind (ok_or ''Missing base image ref'' (ss_refs st ostree_ref)) (\<lambda>base_commit.
         rbind (case rp_detached (ss_repo st) commit of
                  None \<Rightarrow> Inr None
                | Some v \<Rightarrow> parse_cached_update J (mo_dict J v)) (\<lambda>cached_update.
         Inr \<lparr>li_base_commit = base_commit, li_merge_commit = commit, li_manifest_digest = manifest_digest,
              li_manifest = manifest, li_configuration = configuration, li_cached_update = cached_update\<rparr>))))))"

definition query_image :: "'t proxy \<Rightarrow> meta_ops \<Rightarrow> layer_store \<Rightarrow> 't image_ref \<Rightarrow> layered_image_state option res" where
  "query_image P J st img =
     rbind (ref_for_image P img) (\<lambda>ostree_ref.
     case ss_refs st ostree_ref of
       None \<Rightarrow> Inr None
     | Some r \<Rightarrow> rbind (query_image_commit J st r) (\<lambda>s. Inr (Some s)))"

definition try_query_image :: "'t proxy \<Rightarrow> meta_ops \<Rightarrow> layer_store \<Rightarrow> 't image_ref \<Rightarrow> layered_image_state option res" where
  "try_query_image P J st img =
     rbind (ref_for_image P img) (\<lambda>ostree_ref.
     case ss_refs st ostree_ref of
       None \<Rightarrow> Inr None
     | Some merge_rev \<Rightarrow> (case query_image_commit J st merge_rev of Inr r \<Rightarrow> Inr (Some r) | Inl e \<Rightarrow> Inr None))"

definition list_images :: "(rstr \<Rightarrow> (rstr \<times> string) list) \<Rightarrow> string list res" where
  "list_images listing =
     collect_res (map (\<lambda>(imgname, _). rbind (unprefix_unescape_ref IMAGE_PREFIX imgname) (\<lambda>s. Inr (text_of s))) (listing IMAGE_PREFIX))"

definition manifest_for_image :: "'t proxy \<Rightarrow> meta_ops \<Rightarrow> layer_store \<Rightarrow> 't image_ref \<Rightarrow> oci_manifest res" where
  "manifest_for_image P J st img =
     rbind (ref_for_image P img) (\<lambda>ostree_ref.
     rbind (ok_or ''Refspec not found'' (ss_refs st ostree_ref)) (\<lambda>rev.
     rbind (load_commit_meta J st rev) (\<lambda>commit_meta.
     rbind (manifest_data_from_commitmeta J commit_meta) (\<lambda>(manifest, _). Inr manifest))))"

section \<open>The pending update\<close>

definition write_commit_detached :: "string \<Rightarrow> string \<Rightarrow> layer_store \<Rightarrow> layer_store" where
  "write_commit_detached commit v st = st\<lparr>ss_repo := write_detached commit v (ss_repo st)\<rparr>"

definition cache_pending :: "meta_ops \<Rightarrow> string \<Rightarrow> string \<Rightarrow> oci_manifest \<Rightarrow> oci_config \<Rightarrow> layer_store \<Rightarrow> layer_store" where
  "cache_pending J commit manifest_digest manifest config st =
     (let commitmeta = bt_insert CACHED_KEY_MANIFEST_DIGEST (V_String manifest_digest) [];
          commitmeta = bt_insert CACHED_KEY_MANIFEST (V_String (mo_manifest_fmt J manifest)) commitmeta;
          commitmeta = bt_insert CACHED_KEY_CONFIG (V_String (mo_config_fmt J config)) commitmeta
      in write_commit_detached commit (mo_dict_fmt J commitmeta) st)"

definition clear_cached_update :: "'t proxy \<Rightarrow> meta_ops \<Rightarrow> 't image_ref \<Rightarrow> layer_store \<Rightarrow> layer_store res" where
  "clear_cached_update P J img st =
     rbind (ref_for_image P img) (\<lambda>ostree_ref.
     rbind (ok_or ''Refspec not found'' (ss_refs st ostree_ref)) (\<lambda>rev.
     case rp_detached (ss_repo st) rev of
       None \<Rightarrow> Inr st
     | Some v \<Rightarrow>
         let (commitmeta, changed) =
               fold (\<lambda>key (m, changed). if bt_get m key \<noteq> None then (bt_remove key m, True) else (m, changed))
                 [CACHED_KEY_CONFIG, CACHED_KEY_MANIFEST, CACHED_KEY_MANIFEST_DIGEST] (mo_dict J v, False)
         in Inr (if changed then write_commit_detached rev (mo_dict_fmt J commitmeta) st else st)))"

text \<open>
  The decision of an import. \<^verbatim>\<open>target_digest\<close> is the digest in the name of a reference, \<^verbatim>\<open>fetched\<close> what the
  proxy delivers: the manifest, and the configuration when it is asked for after that.
\<close>

datatype prepare_result =
    AlreadyPresent layered_image_state
  | Ready "layered_image_state option" "string option" prepared_import

definition prepare_fetch ::
    "meta_ops \<Rightarrow> (string \<Rightarrow> string option) \<Rightarrow> bool \<Rightarrow> (string \<times> oci_manifest \<times> oci_config res) res
       \<Rightarrow> layered_image_state option \<Rightarrow> layer_store \<Rightarrow> (prepare_result \<times> layer_store) res" where
  "prepare_fetch J diffid_to_digest offline fetched previous_state st =
     (if offline then Inl ''Manifest fetch required in offline mode''
      else
        rbind fetched (\<lambda>(manifest_digest, manifest, config).
        rbind (mo_digest J manifest_digest) (\<lambda>manifest_digest.
        let ready = (\<lambda>previous_imageid cache.
              rbind config (\<lambda>config.
              let st = cache config in
              rbind (create_prepared_import diffid_to_digest (om_layers manifest) (oc_diff_ids config) (map_of (oc_labels config)) st)
                (\<lambda>imp. Inr (Ready previous_state previous_imageid imp, st))))
        in case previous_state of
             Some s \<Rightarrow>
               if li_manifest_digest s = manifest_digest then Inr (AlreadyPresent s, st)
               else if om_config (li_manifest s) = om_config manifest then Inr (AlreadyPresent s, st)
               else ready (Some (om_config (li_manifest s)))
                      (\<lambda>config. cache_pending J (li_merge_commit s) manifest_digest manifest config st)
           | None \<Rightarrow> ready None (\<lambda>_. st))))"

definition prepare_internal ::
    "'t proxy \<Rightarrow> meta_ops \<Rightarrow> (string \<Rightarrow> string option) \<Rightarrow> 't ostree_image_ref \<Rightarrow> bool \<Rightarrow> bool \<Rightarrow> bool
       \<Rightarrow> (string \<Rightarrow> string option) \<Rightarrow> (string \<times> oci_manifest \<times> oci_config res) res \<Rightarrow> layer_store
       \<Rightarrow> (prepare_result \<times> layer_store) res" where
  "prepare_internal P J diffid_to_digest ref default_insecure verify_layers offline target_digest fetched st =
     (if sigverify ref = ContainerPolicy \<and> default_insecure
      then Inl ''containers-policy.json specifies a default of `insecureAcceptAnything`; refusing usage''
      else if (case sigverify ref of OstreeRemote _ \<Rightarrow> verify_layers | _ \<Rightarrow> False)
      then Inl ''Cannot currently verify layered containers via ostree remote''
      else
        rbind (try_query_image P J st (imgref ref)) (\<lambda>previous_state.
        rbind (case target_digest (ref_name (imgref ref)) of
                 None \<Rightarrow> Inr None | Some d \<Rightarrow> rbind (mo_digest J d) (\<lambda>d. Inr (Some d))) (\<lambda>digest.
        case (digest, previous_state) of
          (Some d, Some s) \<Rightarrow>
            if li_manifest_digest s = d then Inr (AlreadyPresent s, st)
            else prepare_fetch J diffid_to_digest offline fetched (Some s) st
        | _ \<Rightarrow> prepare_fetch J diffid_to_digest offline fetched previous_state st)))"

text \<open>The layers of all stored images by their diff id; the first one found stays.\<close>

fun add_diffids :: "(layer_descriptor \<times> string) list \<Rightarrow> (string \<Rightarrow> string option) \<Rightarrow> string \<Rightarrow> string option" where
  "add_diffids [] m = m"
| "add_diffids ((layer_desc, diffid) # ls) m =
     add_diffids ls (if m diffid = None then m(diffid \<mapsto> ly_digest layer_desc) else m)"

fun diffids_of_images ::
    "'t proxy \<Rightarrow> meta_ops \<Rightarrow> layer_store \<Rightarrow> string list \<Rightarrow> (string \<Rightarrow> string option) \<Rightarrow> (string \<Rightarrow> string option) res" where
  "diffids_of_images P J st [] m = Inr m"
| "diffids_of_images P J st (imgref_str # imgs) m =
     (case px_parse P imgref_str of
        Inl e \<Rightarrow> diffids_of_images P J st imgs m
      | Inr img \<Rightarrow>
          rbind (query_image P J st img) (\<lambda>s.
          case s of
            None \<Rightarrow> diffids_of_images P J st imgs m
          | Some s \<Rightarrow> diffids_of_images P J st imgs
              (add_diffids (zip (om_layers (li_manifest s)) (oc_diff_ids (li_configuration s))) m)))"

definition build_diffid_to_digest_map ::
    "'t proxy \<Rightarrow> meta_ops \<Rightarrow> (rstr \<Rightarrow> (rstr \<times> string) list) \<Rightarrow> layer_store \<Rightarrow> (string \<Rightarrow> string option) res" where
  "build_diffid_to_digest_map P J listing st =
     rbind (list_images listing) (\<lambda>all_images. diffids_of_images P J st all_images Map.empty)"

section \<open>Removal and garbage collection\<close>

definition set_ref_none :: "rstr \<Rightarrow> layer_store \<Rightarrow> layer_store" where
  "set_ref_none r st = st\<lparr>ss_refs := (ss_refs st)(r := None)\<rparr>"

text \<open>
  \<^verbatim>\<open>set_ref_immediate\<close> may fail, before or after the ref is gone; \<^verbatim>\<open>fails\<close> says for which refs, with the
  error and whether the ref was gone by then.
\<close>

type_synonym ref_failures = "rstr \<Rightarrow> (string \<times> bool) option"

definition unset_ref :: "ref_failures \<Rightarrow> rstr \<Rightarrow> layer_store \<Rightarrow> unit res \<times> layer_store" where
  "unset_ref fails r st =
     (case fails r of
        None \<Rightarrow> (Inr (), set_ref_none r st)
      | Some (e, gone) \<Rightarrow> (Inl e, if gone then set_ref_none r st else st))"

definition remove_image :: "'t proxy \<Rightarrow> ref_failures \<Rightarrow> 't image_ref \<Rightarrow> layer_store \<Rightarrow> bool res \<times> layer_store" where
  "remove_image P fails img st =
     (case ref_for_image P img of
        Inl e \<Rightarrow> (Inl e, st)
      | Inr ostree_ref \<Rightarrow>
          if ss_refs st ostree_ref \<noteq> None
          then (case unset_ref fails ostree_ref st of (x, st) \<Rightarrow> (rbind x (\<lambda>_. Inr True), st))
          else (Inr False, st))"

text \<open>The loop of \<^verbatim>\<open>remove_images\<close>; the result of an error is the store it leaves.\<close>

fun remove_images_loop ::
    "'t proxy \<Rightarrow> ref_failures \<Rightarrow> 't image_ref list \<Rightarrow> 't image_ref list \<Rightarrow> layer_store \<Rightarrow> 't image_ref list res \<times> layer_store" where
  "remove_images_loop P fails [] missing st = (Inr missing, st)"
| "remove_images_loop P fails (img # imgs) missing st =
     (case remove_image P fails img st of
        (Inl e, st) \<Rightarrow> (Inl e, st)
      | (Inr found, st) \<Rightarrow> remove_images_loop P fails imgs (if found then missing else missing @ [img]) st)"

definition remove_images :: "'t proxy \<Rightarrow> ref_failures \<Rightarrow> 't image_ref list \<Rightarrow> layer_store \<Rightarrow> unit res \<times> layer_store" where
  "remove_images P fails imgs st =
     (case remove_images_loop P fails imgs [] st of
        (Inl e, st) \<Rightarrow> (Inl e, st)
      | (Inr missing, st) \<Rightarrow> (if missing \<noteq> [] then Inl (''Missing images: '' @ concat (map (px_fmt P) missing)) else Inr (), st))"

definition deployment_commits :: "(rstr \<Rightarrow> (rstr \<times> string) list) \<Rightarrow> string list" where
  "deployment_commits listing =
     remdups (concat (map (\<lambda>p. map snd (listing p)) (OSTREE_BASE_DEPLOYMENT_REFS @ RPMOSTREE_BASE_REFS @ [BASE_IMAGE_PREFIX])))"

fun container_manifests :: "meta_ops \<Rightarrow> layer_store \<Rightarrow> string list \<Rightarrow> oci_manifest list res" where
  "container_manifests J st [] = Inr []"
| "container_manifests J st (commit # commits) =
     rbind (load_commit_meta J st commit) (\<lambda>commit_meta.
     rbind (lookup_string commit_meta META_MANIFEST_DIGEST) (\<lambda>digest.
     rbind (if digest \<noteq> None
            then rbind (manifest_data_from_commitmeta J commit_meta) (\<lambda>(manifest, _). Inr [manifest])
            else Inr []) (\<lambda>ms.
     rbind (container_manifests J st commits) (\<lambda>r. Inr (ms @ r)))))"

definition list_container_deployment_manifests ::
    "meta_ops \<Rightarrow> (rstr \<Rightarrow> (rstr \<times> string) list) \<Rightarrow> layer_store \<Rightarrow> oci_manifest list res" where
  "list_container_deployment_manifests J listing st = container_manifests J st (deployment_commits listing)"

fun prune_layers :: "ref_failures \<Rightarrow> rstr list \<Rightarrow> string list \<Rightarrow> u32 \<Rightarrow> layer_store \<Rightarrow> u32 res \<times> layer_store" where
  "prune_layers fails [] referenced_layers pruned st = (Inr pruned, st)"
| "prune_layers fails (layer_ref # layer_refs) referenced_layers pruned st =
     (case unprefix_unescape_ref LAYER_PREFIX layer_ref of
        Inl e \<Rightarrow> (Inl e, st)
      | Inr layer_digest \<Rightarrow>
          if text_of layer_digest \<in> set referenced_layers
          then prune_layers fails layer_refs (removeAll (text_of layer_digest) referenced_layers) pruned st
          else
            (case unset_ref fails layer_ref st of
               (Inl e, st) \<Rightarrow> (Inl e, st)
             | (Inr _, st) \<Rightarrow> prune_layers fails layer_refs referenced_layers (pruned + 1) st))"

definition all_manifests ::
    "'t proxy \<Rightarrow> meta_ops \<Rightarrow> (rstr \<Rightarrow> (rstr \<times> string) list) \<Rightarrow> layer_store \<Rightarrow> oci_manifest list res" where
  "all_manifests P J listing st =
     rbind (list_images listing) (\<lambda>all_images.
     rbind (list_container_deployment_manifests J listing st) (\<lambda>deployment_manifests.
     rbind (collect_res (map (\<lambda>img. rbind (px_parse P img) (manifest_for_image P J st)) all_images)) (\<lambda>image_manifests.
     Inr (image_manifests @ deployment_manifests))))"

definition gc_image_layers ::
    "'t proxy \<Rightarrow> meta_ops \<Rightarrow> ref_failures \<Rightarrow> (rstr \<Rightarrow> (rstr \<times> string) list) \<Rightarrow> layer_store \<Rightarrow> u32 res \<times> layer_store" where
  "gc_image_layers P J fails listing st =
     (case all_manifests P J listing st of
        Inl e \<Rightarrow> (Inl e, st)
      | Inr ms \<Rightarrow>
          prune_layers fails (map fst (listing LAYER_PREFIX)) (btset (concat (map (\<lambda>m. map ly_digest (om_layers m)) ms))) 0 st)"

section \<open>What the collection keeps\<close>

definition under :: "rstr \<Rightarrow> rstr \<Rightarrow> bool" where
  "under p r = prefix (p @ [SLASH]) r"

text \<open>What is relied on of the listing: each ref below the prefix once.\<close>

definition lists_refs :: "(rstr \<Rightarrow> (rstr \<times> string) list) \<Rightarrow> layer_store \<Rightarrow> bool" where
  "lists_refs listing st =
     (\<forall>p. distinct (map fst (listing p)) \<and> set (listing p) = {(r, c). ss_refs st r = Some c \<and> under p r})"

text \<open>The refs of layers are those that an import writes.\<close>

definition canonical_layers :: "layer_store \<Rightarrow> bool" where
  "canonical_layers st =
     (\<forall>r. ss_refs st r \<noteq> None \<and> under LAYER_PREFIX r \<longrightarrow> (\<exists>d. ref_for_blob_digest d = Inr r))"

definition digest_of_ref :: "rstr \<Rightarrow> string" where
  "digest_of_ref r = (case unprefix_unescape_ref LAYER_PREFIX r of Inr d \<Rightarrow> text_of d | Inl _ \<Rightarrow> [])"

definition referenced :: "oci_manifest list \<Rightarrow> string set" where
  "referenced ms = (\<Union>m \<in> set ms. ly_digest ` set (om_layers m))"

definition without_refs :: "(rstr \<Rightarrow> bool) \<Rightarrow> layer_store \<Rightarrow> layer_store" where
  "without_refs gone st = st\<lparr>ss_refs := (\<lambda>r. if gone r then None else ss_refs st r)\<rparr>"

lemma text_of_code_points [simp]: "text_of (code_points s) = s"
  by (simp add: text_of_def code_points_def comp_def map_idI)

lemma code_point_valid: "c \<in> set (code_points s) \<Longrightarrow> valid_char c"
proof -
  assume "c \<in> set (code_points s)"
  then obtain x where "c = of_char x" by (auto simp: code_points_def)
  then have "c < 256" using nat_of_char_less_256 [of x] by simp
  then show ?thesis by (simp add: valid_char_def)
qed

lemma escape_no_nul: "escape_loop b s = Inr e \<Longrightarrow> 0 \<notin> set s"
  by (induction s arbitrary: b e) (auto simp: rbind_Inr_iff split: if_splits)

lemma prefix_escape_codec:
  assumes "prefix_escape_for_ref pre (code_points s) = Inr r"
  shows "unprefix_unescape_ref pre r = Inr (code_points s) \<and> under pre r"
proof -
  have esc: "\<exists>e. escape_for_ref (code_points s) = Inr e \<and> r = pre @ SLASH # e"
    using assms by (auto simp: prefix_escape_for_ref_def rbind_Inr_iff)
  have "code_points s \<noteq> [] \<and> 0 \<notin> set (code_points s)"
    using esc escape_no_nul by (auto simp: escape_for_ref_def split: if_splits)
  then have "escapable (code_points s)" using code_point_valid by (auto simp: escapable_def)
  then show ?thesis
    using ref_codec.dec_enc [of "code_points s" pre] assms esc by (auto simp: escaped_def under_def prefix_def)
qed

lemma layer_ref_digest: "ref_for_blob_digest d = Inr r \<Longrightarrow> digest_of_ref r = d \<and> under LAYER_PREFIX r"
  using prefix_escape_codec [of LAYER_PREFIX d r] by (simp add: ref_for_blob_digest_def digest_of_ref_def)

text \<open>The loop removes exactly the refs whose digest is not referenced, or some of them when it fails.\<close>

definition pruned_ok :: "ref_failures \<Rightarrow> rstr set \<Rightarrow> nat \<Rightarrow> u32 \<Rightarrow> layer_store \<Rightarrow> u32 res \<times> layer_store \<Rightarrow> bool" where
  "pruned_ok fails gone k n st out =
     (case out of
        (Inl e, st') \<Rightarrow> (\<exists>r \<in> gone. \<exists>g. fails r = Some (e, g)) \<and> (\<exists>some \<subseteq> gone. st' = without_refs (\<lambda>r. r \<in> some) st)
      | (Inr n', st') \<Rightarrow> (\<forall>r \<in> gone. fails r = None) \<and> n' = n + of_nat k \<and> st' = without_refs (\<lambda>r. r \<in> gone) st)"

lemma pruned_ok_step:
  assumes "pruned_ok fails gone k (n + 1) (set_ref_none r st) out" "fails r = None"
  shows "pruned_ok fails (insert r gone) (Suc k) n st out"
proof -
  have w: "without_refs (\<lambda>x. x \<in> some) (set_ref_none r st) = without_refs (\<lambda>x. x \<in> insert r some) st" for some
    by (auto simp: without_refs_def set_ref_none_def fun_eq_iff)
  obtain res st' where out: "out = (res, st')" by (cases out)
  show ?thesis
  proof (cases res)
    case (Inl e)
    then obtain some where "some \<subseteq> gone" "st' = without_refs (\<lambda>x. x \<in> insert r some) st"
      using assms(1) unfolding pruned_ok_def out w by auto
    moreover have "\<exists>q \<in> insert r gone. \<exists>g. fails q = Some (e, g)" using assms(1) Inl by (auto simp: pruned_ok_def out)
    moreover have "insert r some \<subseteq> insert r gone" using \<open>some \<subseteq> gone\<close> by auto
    ultimately show ?thesis unfolding pruned_ok_def out Inl by (simp only: prod.case sum.case) blast
  next
    case (Inr m)
    then show ?thesis using assms unfolding pruned_ok_def out w by (simp add: add.assoc)
  qed
qed

lemma prune_layers_exact:
  "distinct rs \<Longrightarrow> \<forall>r \<in> set rs. \<exists>d. ref_for_blob_digest d = Inr r \<Longrightarrow>
     pruned_ok fails {r \<in> set rs. digest_of_ref r \<notin> set refd} (length (filter (\<lambda>r. digest_of_ref r \<notin> set refd) rs)) n st
       (prune_layers fails rs refd n st)"
proof (induction rs arbitrary: refd n st)
  case Nil
  then show ?case by (simp add: without_refs_def pruned_ok_def)
next
  case (Cons r rs)
  obtain d where d: "ref_for_blob_digest d = Inr r" using Cons.prems(2) by auto
  have u: "unprefix_unescape_ref LAYER_PREFIX r = Inr (code_points d)" "digest_of_ref r = d"
    using prefix_escape_codec [of LAYER_PREFIX d r] layer_ref_digest [OF d] d by (simp_all add: ref_for_blob_digest_def)
  have other: "digest_of_ref r' \<noteq> d" if r': "r' \<in> set rs" for r'
  proof
    obtain d' where "ref_for_blob_digest d' = Inr r'" using Cons.prems(2) r' by auto
    moreover assume "digest_of_ref r' = d"
    ultimately have "r' = r" using layer_ref_digest d by (metis sum.inject(2))
    then show False using r' Cons.prems(1) by simp
  qed
  have IH: "pruned_ok fails {r \<in> set rs. digest_of_ref r \<notin> set refd'} (length (filter (\<lambda>r. digest_of_ref r \<notin> set refd') rs)) n' st'
      (prune_layers fails rs refd' n' st')" for refd' n' st'
    using Cons.IH Cons.prems by simp
  show ?case
  proof (cases "d \<in> set refd")
    case True
    have "filter (\<lambda>r. digest_of_ref r \<notin> set (removeAll d refd)) rs = filter (\<lambda>r. digest_of_ref r \<notin> set refd) rs"
      by (rule filter_cong) (use other in auto)
    moreover have "{r \<in> set rs. digest_of_ref r \<notin> set (removeAll d refd)} = {x \<in> set (r # rs). digest_of_ref x \<notin> set refd}"
      using other True u(2) by auto
    ultimately show ?thesis using True IH [of "removeAll d refd" n st] by (simp add: u)
  next
    case False
    then have gone: "{x \<in> set (r # rs). digest_of_ref x \<notin> set refd} = insert r {x \<in> set rs. digest_of_ref x \<notin> set refd}"
      using u(2) by auto
    show ?thesis
    proof (cases "fails r")
      case None
      then have "prune_layers fails (r # rs) refd n st = prune_layers fails rs refd (n + 1) (set_ref_none r st)"
        using False by (simp add: u unset_ref_def)
      then show ?thesis using pruned_ok_step [OF IH None] False unfolding gone by (simp add: u(2))
    next
      case (Some f)
      obtain e g where f: "f = (e, g)" by (cases f)
      have "prune_layers fails (r # rs) refd n st = (Inl e, without_refs (\<lambda>x. x \<in> (if g then {r} else {})) st)"
        using False Some f by (auto simp: u unset_ref_def without_refs_def set_ref_none_def fun_eq_iff)
      moreover have "(if g then {r} else {}) \<subseteq> insert r {x \<in> set rs. digest_of_ref x \<notin> set refd}" by auto
      ultimately show ?thesis using Some f unfolding gone pruned_ok_def by (simp only: prod.case sum.case) blast
    qed
  qed
qed

lemma gone_iff:
  assumes "lists_refs listing st"
  shows "{r \<in> set (map fst (listing LAYER_PREFIX)). digest_of_ref r \<notin> D} =
    {r. ss_refs st r \<noteq> None \<and> under LAYER_PREFIX r \<and> digest_of_ref r \<notin> D}"
  using assms by (auto simp: lists_refs_def image_iff)

lemma image_not_layer: "under IMAGE_PREFIX r \<Longrightarrow> \<not> under LAYER_PREFIX r"
  by (auto simp: under_def prefix_def IMAGE_PREFIX_def LAYER_PREFIX_def code_points_def)

lemma image_listed:
  assumes "lists_refs listing st" and "ref_for_image P img = Inr r" and "ss_refs st r = Some c"
    and "px_parse P (px_fmt P img) = Inr img" and "all_manifests P J listing st = Inr ms"
  shows "\<exists>m. manifest_for_image P J st img = Inr m \<and> m \<in> set ms"
proof -
  note r = prefix_escape_codec [of IMAGE_PREFIX "px_fmt P img" r, folded ref_for_image_def, OF assms(2)]
  obtain imgs dms ims where
    imgs: "list_images listing = Inr imgs" and
    ims: "collect_res (map (\<lambda>img. rbind (px_parse P img) (manifest_for_image P J st)) imgs) = Inr ims" and ms: "ms = ims @ dms"
    using assms(5) by (auto simp: all_manifests_def rbind_Inr_iff)
  have "(r, c) \<in> set (listing IMAGE_PREFIX)" using assms(1,3) r by (auto simp: lists_refs_def)
  then have "Inr (px_fmt P img) \<in> set (map (\<lambda>(imgname, _). rbind (unprefix_unescape_ref IMAGE_PREFIX imgname) (\<lambda>s. Inr (text_of s))) (listing IMAGE_PREFIX))"
    using r by force
  then have "Inr (px_fmt P img) \<in> set (map Inr imgs :: string res list)"
    using imgs unfolding list_images_def collect_res_Inr_iff by (simp only:)
  then have "px_fmt P img \<in> set imgs" by auto
  then have "manifest_for_image P J st img \<in> set (map (\<lambda>img. rbind (px_parse P img) (manifest_for_image P J st)) imgs)"
    using assms(4) by force
  then have "manifest_for_image P J st img \<in> set (map Inr ims)" using ims unfolding collect_res_Inr_iff by (simp only:)
  then show ?thesis using ms by auto
qed

lemma kept_query:
  assumes "m \<in> set ms" and "manifest_for_image P J st img = Inr m" and "ref_for_image P img = Inr r"
    and "st' = without_refs (\<lambda>r. r \<in> gone) st" and "gone \<subseteq> {r. under LAYER_PREFIX r \<and> digest_of_ref r \<notin> referenced ms}"
  shows "query_image P J st' img = query_image P J st img
    \<and> (\<forall>l \<in> set (om_layers m). \<forall>q. ref_for_layer l = Inr q \<longrightarrow> ss_refs st' q = ss_refs st q)"
proof -
  have "\<not> under LAYER_PREFIX r"
    using prefix_escape_codec [of IMAGE_PREFIX "px_fmt P img" r] assms(3) image_not_layer by (simp add: ref_for_image_def)
  then have r: "ss_refs st' r = ss_refs st r" using assms(5) by (auto simp: assms(4) without_refs_def)
  have lay: "ss_refs st' q = ss_refs st q" if "l \<in> set (om_layers m)" "ref_for_layer l = Inr q" for l q
    using layer_ref_digest [of "ly_digest l" q] that assms(1,5) by (auto simp: ref_for_layer_def assms(4) without_refs_def referenced_def)
  obtain c d meta where c: "ss_refs st r = Some c" and md: "load_commit_meta J st c = Inr meta" "manifest_data_from_commitmeta J meta = Inr (m, d)"
    using assms(2,3) by (auto simp: manifest_for_image_def rbind_Inr_iff ok_or_Inr_iff)
  have repo: "ss_repo st' = ss_repo st" "load_commit_meta J st' = load_commit_meta J st"
    by (simp_all add: assms(4) without_refs_def load_commit_meta_def fun_eq_iff)
  have "query_image_commit J st' c = query_image_commit J st c"
  proof (cases "om_layers m")
    case (Cons l ls)
    then show ?thesis
      by (cases "ref_for_layer l") (use lay [of l] in \<open>simp_all add: query_image_commit_def repo md\<close>)
  qed (simp add: query_image_commit_def repo md)
  then show ?thesis using assms(3) r c lay by (simp add: query_image_def)
qed


section \<open>Removing images\<close>

definition image_ref_of :: "'t proxy \<Rightarrow> 't image_ref \<Rightarrow> rstr" where
  "image_ref_of P img = (case ref_for_image P img of Inr r \<Rightarrow> r | Inl _ \<Rightarrow> [])"

lemma without_none: "without_refs (\<lambda>r. r \<in> {}) st = st"
  by (simp add: without_refs_def)

text \<open>The images that are not there when their turn comes: never stored, or given before.\<close>

definition absent_images :: "'t proxy \<Rightarrow> 't image_ref list \<Rightarrow> layer_store \<Rightarrow> 't image_ref list" where
  "absent_images P imgs st =
     nths imgs {i. ss_refs st (image_ref_of P (imgs ! i)) = None \<or> image_ref_of P (imgs ! i) \<in> image_ref_of P ` set (take i imgs)}"

lemma absent_Cons:
  "absent_images P (img # imgs) st =
    (if ss_refs st (image_ref_of P img) = None then img # absent_images P imgs st
     else absent_images P imgs (set_ref_none (image_ref_of P img) st))"
proof (cases "ss_refs st (image_ref_of P img)")
  case None
  have "{j. Suc j \<in> {i. ss_refs st (image_ref_of P ((img # imgs) ! i)) = None
        \<or> image_ref_of P ((img # imgs) ! i) \<in> image_ref_of P ` set (take i (img # imgs))}} =
      {i. ss_refs st (image_ref_of P (imgs ! i)) = None \<or> image_ref_of P (imgs ! i) \<in> image_ref_of P ` set (take i imgs)}"
    using None by auto
  then show ?thesis using None by (simp add: absent_images_def nths_Cons)
next
  case (Some c)
  have "{j. Suc j \<in> {i. ss_refs st (image_ref_of P ((img # imgs) ! i)) = None
        \<or> image_ref_of P ((img # imgs) ! i) \<in> image_ref_of P ` set (take i (img # imgs))}} =
      {i. ss_refs (set_ref_none (image_ref_of P img) st) (image_ref_of P (imgs ! i)) = None
        \<or> image_ref_of P (imgs ! i) \<in> image_ref_of P ` set (take i imgs)}"
    by (auto simp: set_ref_none_def)
  then show ?thesis using Some by (simp add: absent_images_def nths_Cons)
qed

lemma without_refs_step:
  "without_refs (\<lambda>r. r \<in> R) (if ss_refs st q \<noteq> None then set_ref_none q st else st) = without_refs (\<lambda>r. r \<in> insert q R) st"
  by (auto simp: without_refs_def set_ref_none_def fun_eq_iff)

lemma remove_loop:
  "\<forall>img \<in> set imgs. is_ok (ref_for_image P img) \<and> fails (image_ref_of P img) = None \<Longrightarrow>
     remove_images_loop P fails imgs missing st =
       (Inr (missing @ absent_images P imgs st), without_refs (\<lambda>r. r \<in> image_ref_of P ` set imgs) st)"
proof (induction imgs arbitrary: missing st)
  case Nil
  then show ?case by (simp add: without_refs_def absent_images_def)
next
  case (Cons img imgs)
  obtain r where r: "ref_for_image P img = Inr r" using Cons.prems by (auto simp: is_ok_iff)
  then have ir: "image_ref_of P img = r" by (simp add: image_ref_of_def)
  let ?st = "if ss_refs st r \<noteq> None then set_ref_none r st else st"
  let ?m = "if ss_refs st r \<noteq> None then missing else missing @ [img]"
  have "remove_images_loop P fails (img # imgs) missing st = remove_images_loop P fails imgs ?m ?st"
    using Cons.prems ir by (simp add: remove_image_def r unset_ref_def)
  also have "\<dots> = (Inr (?m @ absent_images P imgs ?st), without_refs (\<lambda>r. r \<in> image_ref_of P ` set imgs) ?st)"
    using Cons by simp
  also have "?m @ absent_images P imgs ?st = missing @ absent_images P (img # imgs) st" by (simp add: absent_Cons ir)
  finally show ?case unfolding without_refs_step by (simp add: ir)
qed

lemma remove_image_any:
  "\<exists>gone \<subseteq> {image_ref_of P img}. snd (remove_image P fails img st) = without_refs (\<lambda>r. r \<in> gone) st"
proof -
  have same: "st = without_refs (\<lambda>r. r \<in> {}) st" and gone: "set_ref_none r st = without_refs (\<lambda>x. x \<in> {r}) st" for r
    by (simp_all add: without_refs_def set_ref_none_def fun_eq_iff)
  have "snd (remove_image P fails img st) \<in> {st, set_ref_none (image_ref_of P img) st}"
    by (cases "ref_for_image P img") (auto simp: remove_image_def unset_ref_def image_ref_of_def split: option.split)
  then show ?thesis using same gone by (metis empty_subsetI insertE order_refl singletonD)
qed

lemma remove_loop_any:
  "\<exists>gone \<subseteq> image_ref_of P ` set imgs. snd (remove_images_loop P fails imgs missing st) = without_refs (\<lambda>r. r \<in> gone) st"
proof (induction imgs arbitrary: missing st)
  case Nil
  then show ?case by (simp add: without_refs_def)
next
  case (Cons img imgs)
  obtain x st1 where run: "remove_image P fails img st = (x, st1)" by (cases "remove_image P fails img st")
  obtain g where g: "g \<subseteq> {image_ref_of P img}" "st1 = without_refs (\<lambda>r. r \<in> g) st"
    using remove_image_any [of P img fails st] run by auto
  show ?case
  proof (cases x)
    case (Inl e)
    then show ?thesis using run g by (intro exI [of _ g]) auto
  next
    case (Inr found)
    obtain h where h: "h \<subseteq> image_ref_of P ` set imgs"
        "snd (remove_images_loop P fails imgs (if found then missing else missing @ [img]) st1) = without_refs (\<lambda>r. r \<in> h) st1"
      using Cons.IH by blast
    then have "snd (remove_images_loop P fails (img # imgs) missing st) = without_refs (\<lambda>r. r \<in> g \<union> h) st"
      using run Inr g(2) by (simp add: without_refs_def) (auto simp: fun_eq_iff)
    then show ?thesis using g h by (intro exI [of _ "g \<union> h"]) auto
  qed
qed

text \<open>
  C33. Removing images removes no ref other than those of the given images, whatever fails on the way.
  Whenever the names can be written as refs and ostree removes them without an error, exactly the refs of the given
  images are gone afterwards, whether or not some of them were missing, and the call succeeds when none was
  missing and otherwise fails with the names of exactly the missing ones in order: those that were
  not stored, and those given a second time.
\<close>

theorem remove_images_effect:
  "(\<exists>gone \<subseteq> image_ref_of P ` set imgs. snd (remove_images P fails imgs st) = without_refs (\<lambda>r. r \<in> gone) st)
   \<and> ((\<forall>img \<in> set imgs. is_ok (ref_for_image P img) \<and> fails (image_ref_of P img) = None) \<longrightarrow>
      remove_images P fails imgs st =
        ((if absent_images P imgs st = [] then Inr ()
          else Inl (''Missing images: '' @ concat (map (px_fmt P) (absent_images P imgs st)))),
         without_refs (\<lambda>r. r \<in> image_ref_of P ` set imgs) st))"
proof -
  have "snd (remove_images P fails imgs st) = snd (remove_images_loop P fails imgs [] st)"
    by (simp add: remove_images_def split: prod.splits sum.splits)
  then show ?thesis using remove_loop_any [of P imgs fails "[]" st] remove_loop [of imgs P fails "[]" st]
    by (simp add: remove_images_def)
qed

section \<open>A pending update\<close>

text \<open>What is relied on of the libraries: what is printed is read back.\<close>

definition meta_codec :: "meta_ops \<Rightarrow> bool" where
  "meta_codec J =
     ((\<forall>d. mo_dict J (mo_dict_fmt J d) = d) \<and> (\<forall>m. mo_manifest J (mo_manifest_fmt J m) = Inr m)
      \<and> (\<forall>c. mo_config J (mo_config_fmt J c) = Inr c) \<and> (\<forall>d d'. mo_digest J d = Inr d' \<longrightarrow> mo_digest J d' = Inr d'))"

lemma cached_keys_distinct:
  "CACHED_KEY_MANIFEST_DIGEST \<noteq> CACHED_KEY_MANIFEST" "CACHED_KEY_MANIFEST_DIGEST \<noteq> CACHED_KEY_CONFIG"
  "CACHED_KEY_MANIFEST \<noteq> CACHED_KEY_CONFIG"
  by (simp_all add: CACHED_KEY_MANIFEST_DIGEST_def CACHED_KEY_MANIFEST_def CACHED_KEY_CONFIG_def)

definition pending_dict :: "meta_ops \<Rightarrow> string \<Rightarrow> oci_manifest \<Rightarrow> oci_config \<Rightarrow> vdict" where
  "pending_dict J d m c =
     bt_insert CACHED_KEY_CONFIG (V_String (mo_config_fmt J c))
       (bt_insert CACHED_KEY_MANIFEST (V_String (mo_manifest_fmt J m)) (bt_insert CACHED_KEY_MANIFEST_DIGEST (V_String d) []))"

lemma pending_dict_get:
  "bt_get (pending_dict J d m c) CACHED_KEY_MANIFEST_DIGEST = Some (V_String d)"
  "bt_get (pending_dict J d m c) CACHED_KEY_MANIFEST = Some (V_String (mo_manifest_fmt J m))"
  "bt_get (pending_dict J d m c) CACHED_KEY_CONFIG = Some (V_String (mo_config_fmt J c))"
  "bt_wf (pending_dict J d m c)"
  using cached_keys_distinct by (simp_all add: pending_dict_def bt_insert_def map_of_bt_update bt_wf_update del: bt_update.simps)

lemma parse_pending:
  assumes "meta_codec J" and "mo_digest J d = Inr d"
  shows "parse_cached_update J (pending_dict J d m c) = Inr (Some \<lparr>cu_manifest = m, cu_config = c, cu_manifest_digest = d\<rparr>)"
  using assms by (simp add: parse_cached_update_def lookup_string_def lookup_str_def pending_dict_get meta_codec_def)

lemma query_parts:
  assumes "query_image_commit J st commit = Inr s"
  obtains meta m d conf l ls q base where "load_commit_meta J st commit = Inr meta" "manifest_data_from_commitmeta J meta = Inr (m, d)"
    "image_config_from_commitmeta J meta = Inr conf" "om_layers m = l # ls" "ref_for_layer l = Inr q" "ss_refs st q = Some base"
    "s = \<lparr>li_base_commit = base, li_merge_commit = commit, li_manifest_digest = d, li_manifest = m,
      li_configuration = conf, li_cached_update = li_cached_update s\<rparr>"
proof -
  obtain meta m d conf where md: "load_commit_meta J st commit = Inr meta" "manifest_data_from_commitmeta J meta = Inr (m, d)"
      "image_config_from_commitmeta J meta = Inr conf"
    using assms by (auto simp: query_image_commit_def rbind_Inr_iff)
  obtain l ls where l: "om_layers m = l # ls" using assms md by (cases "om_layers m") (auto simp: query_image_commit_def)
  obtain q base where q: "ref_for_layer l = Inr q" "ss_refs st q = Some base"
    using assms md l by (auto simp: query_image_commit_def rbind_Inr_iff ok_or_Inr_iff)
  have "s = \<lparr>li_base_commit = base, li_merge_commit = commit, li_manifest_digest = d, li_manifest = m,
      li_configuration = conf, li_cached_update = li_cached_update s\<rparr>"
    using assms md l q by (auto simp: query_image_commit_def rbind_Inr_iff)
  with md l q show ?thesis by (rule that)
qed

lemma query_detached:
  assumes "query_image_commit J st commit = Inr s"
  shows "query_image_commit J (write_commit_detached commit v st) commit =
    rbind (parse_cached_update J (mo_dict J v)) (\<lambda>u. Inr (s\<lparr>li_cached_update := u\<rparr>))"
proof -
  from assms obtain meta m d conf l ls q base where parts: "load_commit_meta J st commit = Inr meta"
      "manifest_data_from_commitmeta J meta = Inr (m, d)" "image_config_from_commitmeta J meta = Inr conf" "om_layers m = l # ls"
      "ref_for_layer l = Inr q" "ss_refs st q = Some base"
    and s: "s = \<lparr>li_base_commit = base, li_merge_commit = commit, li_manifest_digest = d, li_manifest = m,
      li_configuration = conf, li_cached_update = li_cached_update s\<rparr>" by (rule query_parts)
  let ?st = "write_commit_detached commit v st"
  have "load_commit_meta J ?st commit = Inr meta" "ss_refs ?st = ss_refs st" "rp_detached (ss_repo ?st) commit = Some v"
    using parts(1) by (simp_all add: write_commit_detached_def write_detached_def load_commit_meta_def)
  then show ?thesis using parts by (subst s) (simp add: query_image_commit_def)
qed

lemma query_merge: "query_image_commit J st c = Inr s \<Longrightarrow> li_merge_commit s = c"
  by (erule query_parts) (metis layered_image_state.select_convs(2))

lemma try_query_some:
  assumes "try_query_image P J st img = Inr (Some s)"
  shows "\<exists>r. ref_for_image P img = Inr r \<and> ss_refs st r = Some (li_merge_commit s)
    \<and> query_image_commit J st (li_merge_commit s) = Inr s \<and> query_image P J st img = Inr (Some s)"
proof -
  obtain r where r: "ref_for_image P img = Inr r" using assms by (auto simp: try_query_image_def rbind_Inr_iff)
  obtain c where c: "ss_refs st r = Some c" using assms r by (cases "ss_refs st r") (auto simp: try_query_image_def)
  have s: "query_image_commit J st c = Inr s" using assms r c by (cases "query_image_commit J st c") (auto simp: try_query_image_def)
  then show ?thesis using r c query_merge [OF s] by (simp add: query_image_def)
qed

lemma detached_refs [simp]: "ss_refs (write_commit_detached commit v st) = ss_refs st"
  by (simp add: write_commit_detached_def)

lemma detached_get [simp]: "rp_detached (ss_repo (write_commit_detached commit v st)) commit = Some v"
  by (simp add: write_commit_detached_def write_detached_def)

lemma query_after:
  assumes "ref_for_image P img = Inr r" and "ss_refs st r = Some commit" and "query_image_commit J st commit = Inr s"
    and "parse_cached_update J (mo_dict J v) = Inr u"
  shows "query_image P J (write_commit_detached commit v st) img = Inr (Some (s\<lparr>li_cached_update := u\<rparr>))"
  using assms by (simp add: query_image_def query_detached)

lemma detached_twice [simp]: "write_commit_detached c v (write_commit_detached c w st) = write_commit_detached c v st"
  by (simp add: write_commit_detached_def write_detached_def)

lemma pending_roundtrip:
  assumes "meta_codec J" and "mo_digest J d = Inr d" and "ref_for_image P img = Inr r" and "ss_refs st r = Some commit"
    and "query_image_commit J st commit = Inr s"
  shows "query_image P J (cache_pending J commit d m c st) img =
      Inr (Some (s\<lparr>li_cached_update := Some \<lparr>cu_manifest = m, cu_config = c, cu_manifest_digest = d\<rparr>\<rparr>))
    \<and> (\<exists>st2. clear_cached_update P J img (cache_pending J commit d m c st) = Inr st2
         \<and> query_image P J st2 img = Inr (Some (s\<lparr>li_cached_update := None\<rparr>)))"
proof -
  have codec: "mo_dict J (mo_dict_fmt J x) = x" for x using assms(1) by (simp add: meta_codec_def)
  have cp: "cache_pending J commit d m c st = write_commit_detached commit (mo_dict_fmt J (pending_dict J d m c)) st"
    by (simp add: cache_pending_def pending_dict_def)
  define rest where "rest = bt_remove CACHED_KEY_MANIFEST_DIGEST (bt_remove CACHED_KEY_MANIFEST (bt_remove CACHED_KEY_CONFIG (pending_dict J d m c)))"
  have "clear_cached_update P J img (cache_pending J commit d m c st) = Inr (write_commit_detached commit (mo_dict_fmt J rest) st)"
    using assms(3,4) cached_keys_distinct
    by (simp add: clear_cached_update_def cp codec pending_dict_get map_of_bt_remove rest_def)
  moreover have "parse_cached_update J (mo_dict J (mo_dict_fmt J rest)) = Inr None"
    by (simp add: codec parse_cached_update_def lookup_string_def rest_def map_of_bt_remove)
  ultimately show ?thesis
    using query_after [OF assms(3-5)] parse_pending [OF assms(1,2), of m c] unfolding cp by (simp add: codec)
qed

lemma prepare_fetch_ready:
  assumes "prepare_fetch J dd offline fetched prev st = Inr (res, st')"
  shows "(case res of
      AlreadyPresent s \<Rightarrow> st' = st \<and> prev = Some s
    | Ready None _ _ \<Rightarrow> st' = st \<and> prev = None
    | Ready (Some s) _ _ \<Rightarrow> prev = Some s \<and> (\<exists>d d' m c. fetched = Inr (d, m, Inr c) \<and> mo_digest J d = Inr d' \<and> li_manifest_digest s \<noteq> d'
        \<and> st' = cache_pending J (li_merge_commit s) d' m c st))"
proof -
  obtain d m config d' where f: "\<not> offline" "fetched = Inr (d, m, config)" "mo_digest J d = Inr d'"
    using assms by (auto simp: prepare_fetch_def rbind_Inr_iff split: if_splits)
  show ?thesis
  proof (cases prev)
    case None
    then obtain imp where "res = Ready None None imp" "st' = st" using assms f by (auto simp: prepare_fetch_def rbind_Inr_iff Let_def)
    with None show ?thesis by simp
  next
    case (Some s)
    show ?thesis
    proof (cases "li_manifest_digest s = d' \<or> om_config (li_manifest s) = om_config m")
      case True
      then have "res = AlreadyPresent s" "st' = st" using assms f Some by (auto simp: prepare_fetch_def Let_def split: if_splits)
      with Some show ?thesis by simp
    next
      case False
      then obtain imp c where "config = Inr c" "res = Ready (Some s) (Some (om_config (li_manifest s))) imp"
          "st' = cache_pending J (li_merge_commit s) d' m c st"
        using assms f Some by (auto simp: prepare_fetch_def rbind_Inr_iff Let_def)
      with Some False f show ?thesis by simp
    qed
  qed
qed

text \<open>
  C34. Looking for an update records what it finds: when the image is already there, nothing changes;
  when an older version is there, the fetched manifest and configuration are cached with it, a later
  query of the image reports exactly them as the pending update and is otherwise unchanged, and
  clearing the cache makes the image report none.
\<close>

theorem pending_update_roundtrip:
  assumes "meta_codec J"
    and "prepare_internal P J dd ref insecure verify offline target fetched st = Inr (res, st')"
  shows "case res of
      AlreadyPresent s \<Rightarrow> st' = st \<and> query_image P J st (imgref ref) = Inr (Some s)
    | Ready None _ _ \<Rightarrow> st' = st
    | Ready (Some s) _ _ \<Rightarrow> \<exists>d d' m c. fetched = Inr (d, m, Inr c) \<and> mo_digest J d = Inr d' \<and> li_manifest_digest s \<noteq> d'
        \<and> query_image P J st (imgref ref) = Inr (Some s)
        \<and> query_image P J st' (imgref ref) =
            Inr (Some (s\<lparr>li_cached_update := Some \<lparr>cu_manifest = m, cu_config = c, cu_manifest_digest = d'\<rparr>\<rparr>))
        \<and> (\<exists>st2. clear_cached_update P J (imgref ref) st' = Inr st2
             \<and> query_image P J st2 (imgref ref) = Inr (Some (s\<lparr>li_cached_update := None\<rparr>)))"
proof -
  obtain prev where prev: "try_query_image P J st (imgref ref) = Inr prev"
    and rest: "(\<exists>s. prev = Some s \<and> res = AlreadyPresent s \<and> st' = st) \<or> prepare_fetch J dd offline fetched prev st = Inr (res, st')"
    using assms(2) by (auto simp: prepare_internal_def rbind_Inr_iff split: if_splits option.splits)
  note q = try_query_some [of P J st "imgref ref"]
  from rest show ?thesis
  proof
    assume "\<exists>s. prev = Some s \<and> res = AlreadyPresent s \<and> st' = st"
    then show ?thesis using q prev by auto
  next
    assume f: "prepare_fetch J dd offline fetched prev st = Inr (res, st')"
    show ?thesis
    proof (cases res)
      case (AlreadyPresent s)
      then show ?thesis using prepare_fetch_ready [OF f] q prev by auto
    next
      case (Ready p pid imp)
      show ?thesis
      proof (cases p)
        case (Some s)
        then obtain d d' m c where d: "prev = Some s" "fetched = Inr (d, m, Inr c)" "mo_digest J d = Inr d'" "li_manifest_digest s \<noteq> d'"
            "st' = cache_pending J (li_merge_commit s) d' m c st"
          using prepare_fetch_ready [OF f] Ready by auto
        have "mo_digest J d' = Inr d'" using d(3) assms(1) by (simp add: meta_codec_def)
        moreover obtain r where "ref_for_image P (imgref ref) = Inr r" "ss_refs st r = Some (li_merge_commit s)"
            "query_image_commit J st (li_merge_commit s) = Inr s" "query_image P J st (imgref ref) = Inr (Some s)"
          using q prev d(1) by blast
        ultimately show ?thesis using pending_roundtrip [OF assms(1), of d' P "imgref ref" r st "li_merge_commit s" s m c] d Ready Some by simp
      qed (use prepare_fetch_ready [OF f] Ready in auto)
    qed
  qed
qed

section \<open>An example store\<close>

text \<open>A serializer for lists of strings, and on it those for dictionaries, manifests and configurations.\<close>

definition enc_strs :: "string list \<Rightarrow> string" where
  "enc_strs xs = concat (map (\<lambda>s. concat (map (\<lambda>c. [CHR ''1'', c]) s) @ ''0'') xs)"

fun dec_strs :: "string \<Rightarrow> string \<Rightarrow> string list" where
  "dec_strs cur [] = []"
| "dec_strs cur (t # r) =
     (if t = CHR ''0'' then rev cur # dec_strs [] r else case r of [] \<Rightarrow> [] | c # r \<Rightarrow> dec_strs (c # cur) r)"

fun pairs :: "string list \<Rightarrow> (string \<times> string) list" where
  "pairs (a # b # r) = (a, b) # pairs r"
| "pairs _ = []"

definition unpairs :: "(string \<times> string) list \<Rightarrow> string list" where
  "unpairs ps = concat (map (\<lambda>(a, b). [a, b]) ps)"

lemma dec_str_append: "dec_strs cur (concat (map (\<lambda>c. [CHR ''1'', c]) s) @ CHR ''0'' # r) = (rev cur @ s) # dec_strs [] r"
  by (induction s arbitrary: cur) simp_all

lemma dec_enc_strs [simp]: "dec_strs [] (enc_strs xs) = xs"
  by (induction xs) (simp_all add: enc_strs_def dec_str_append)

lemma pairs_unpairs [simp]: "pairs (unpairs ps) = ps"
  by (induction ps) (auto simp: unpairs_def)

fun variant_enc :: "variant \<Rightarrow> string" where
  "variant_enc (V_String s) = CHR ''s'' # s"
| "variant_enc (V_Other s) = CHR ''o'' # s"

definition variant_dec :: "string \<Rightarrow> variant" where
  "variant_dec s = (if take 1 s = ''s'' then V_String (tl s) else V_Other (tl s))"

lemma variant_roundtrip [simp]: "variant_dec (variant_enc v) = v"
  by (cases v) (simp_all add: variant_dec_def)

definition manifest_enc :: "oci_manifest \<Rightarrow> string" where
  "manifest_enc m = enc_strs (om_config m # unpairs (map (\<lambda>l. (ly_digest l, enc_strs (unpairs (ly_annotations l)))) (om_layers m)))"

definition manifest_dec :: "string \<Rightarrow> oci_manifest" where
  "manifest_dec s = (let xs = dec_strs [] s in
     \<lparr>om_config = hd xs, om_layers = map (\<lambda>(g, a). \<lparr>ly_digest = g, ly_annotations = pairs (dec_strs [] a)\<rparr>) (pairs (tl xs))\<rparr>)"

definition config_enc :: "oci_config \<Rightarrow> string" where
  "config_enc c = enc_strs [enc_strs (oc_diff_ids c), enc_strs (unpairs (oc_labels c))]"

definition config_dec :: "string \<Rightarrow> oci_config" where
  "config_dec s = (let xs = dec_strs [] s in \<lparr>oc_diff_ids = dec_strs [] (hd xs), oc_labels = pairs (dec_strs [] (hd (tl xs)))\<rparr>)"

definition demo_manifest :: "string \<Rightarrow> oci_manifest" where
  "demo_manifest cfg = \<lparr>om_config = cfg, om_layers = [\<lparr>ly_digest = ''a'', ly_annotations = []\<rparr>]\<rparr>"

definition demo_config :: oci_config where
  "demo_config = \<lparr>oc_diff_ids = [''1''], oc_labels = []\<rparr>"

definition demo_meta :: meta_ops where
  "demo_meta = \<lparr>mo_commit_meta = (\<lambda>_. [(META_MANIFEST, V_String (manifest_enc (demo_manifest ''i''))), (META_MANIFEST_DIGEST, V_String ''m'')]),
     mo_dict = (\<lambda>s. map (\<lambda>(k, v). (k, variant_dec v)) (pairs (dec_strs [] s))),
     mo_dict_fmt = (\<lambda>d. enc_strs (unpairs (map (\<lambda>(k, v). (k, variant_enc v)) d))),
     mo_digest = Inr, mo_manifest = (\<lambda>s. Inr (manifest_dec s)), mo_manifest_fmt = manifest_enc,
     mo_config = (\<lambda>s. Inr (config_dec s)), mo_config_fmt = config_enc, mo_default_config = demo_config\<rparr>"

lemma manifest_roundtrip [simp]: "manifest_dec (manifest_enc m) = m"
  by (cases m) (simp add: manifest_dec_def manifest_enc_def comp_def map_idI)

lemma config_roundtrip [simp]: "config_dec (config_enc c) = c"
  by (cases c) (simp add: config_dec_def config_enc_def)

lemma demo_meta_codec: "meta_codec demo_meta"
  by (simp add: meta_codec_def demo_meta_def comp_def case_prod_beta map_idI)

definition plain_proxy :: "unit proxy" where
  "plain_proxy = \<lparr>px_registry = (), px_parse = (\<lambda>s. Inr \<lparr>ref_transport = (), ref_name = s\<rparr>), px_fmt = ref_name,
     px_transport_of = (\<lambda>_. Inr ()), px_transport_fmt = (\<lambda>_. '''')\<rparr>"

definition demo_image :: "unit image_ref" where
  "demo_image = \<lparr>ref_transport = (), ref_name = ''x''\<rparr>"

definition layer_ref :: "string \<Rightarrow> rstr" where
  "layer_ref d = LAYER_PREFIX @ SLASH # code_points d"

definition demo_refs :: "(rstr \<times> string) list" where
  "demo_refs = [(layer_ref ''a'', ''u''), (layer_ref ''b'', ''v''), (IMAGE_PREFIX @ SLASH # code_points ''x'', demo_csum CHR ''c'')]"

definition image_store :: layer_store where
  "image_store = \<lparr>ss_repo = demo_repo, ss_refs = map_of demo_refs\<rparr>"

definition demo_listing :: "rstr \<Rightarrow> (rstr \<times> string) list" where
  "demo_listing p = filter (\<lambda>(r, _). starts_with (p @ [SLASH]) r) demo_refs"

lemma demo_image_ref: "ref_for_image plain_proxy demo_image = Inr (IMAGE_PREFIX @ SLASH # code_points ''x'')"
  by (simp add: ref_for_image_def plain_proxy_def demo_image_def prefix_escape_for_ref_def escape_for_ref_def code_points_def
      escape_push_def is_ascii_alphanumeric_def)

lemma demo_layer_ref: "ref_for_blob_digest ''a'' = Inr (layer_ref ''a'')" "ref_for_blob_digest ''b'' = Inr (layer_ref ''b'')"
  by (simp_all add: ref_for_blob_digest_def layer_ref_def prefix_escape_for_ref_def escape_for_ref_def code_points_def escape_push_def
      is_ascii_alphanumeric_def)

lemma demo_refs_distinct: "distinct (map fst demo_refs)"
  by (simp add: demo_refs_def layer_ref_def code_points_def LAYER_PREFIX_def IMAGE_PREFIX_def)

lemma demo_lists: "lists_refs demo_listing image_store"
proof -
  have "set (demo_listing p) = {(r, c). ss_refs image_store r = Some c \<and> under p r}" for p
    using map_of_is_SomeI [OF demo_refs_distinct] map_of_SomeD
    by (fastforce simp: demo_listing_def image_store_def under_def starts_with_iff)
  moreover have "distinct (map fst (demo_listing p))" for p
    using demo_refs_distinct by (simp add: demo_listing_def distinct_map_filter)
  ultimately show ?thesis by (simp add: lists_refs_def)
qed

lemma demo_canonical: "canonical_layers image_store"
proof -
  have "\<exists>d. ref_for_blob_digest d = Inr r" if "(r, c) \<in> set demo_refs" "under LAYER_PREFIX r" for r c
    using that demo_layer_ref image_not_layer [of "IMAGE_PREFIX @ SLASH # code_points ''x''"]
    by (auto simp: demo_refs_def under_def)
  then show ?thesis by (auto simp: canonical_layers_def image_store_def dest: map_of_SomeD)
qed

lemma demo_gc: "fst (gc_image_layers plain_proxy demo_meta Map.empty demo_listing image_store) = Inr 1"
  by code_simp

lemma demo_manifests: "all_manifests plain_proxy demo_meta demo_listing image_store = Inr [demo_manifest ''i'']"
  by code_simp


theorem remove_images_effect_witness:
  "fst (remove_images plain_proxy Map.empty [demo_image, demo_image] image_store) = Inl (''Missing images: '' @ px_fmt plain_proxy demo_image)
   \<and> ss_refs (snd (remove_images plain_proxy Map.empty [demo_image, demo_image] image_store)) (image_ref_of plain_proxy demo_image) = None"
proof -
  have "\<forall>img \<in> set [demo_image, demo_image]. is_ok (ref_for_image plain_proxy img) \<and> Map.empty (image_ref_of plain_proxy img) = None"
    by (simp add: demo_image_ref)
  moreover have "absent_images plain_proxy [demo_image, demo_image] image_store = [demo_image]"
    using demo_image_ref by (simp add: absent_Cons image_ref_of_def set_ref_none_def image_store_def demo_refs_def) (simp add: absent_images_def)
  ultimately show ?thesis
    using remove_images_effect [of plain_proxy "[demo_image, demo_image]" Map.empty image_store] by (simp add: without_refs_def)
qed

definition demo_fetched :: "(string \<times> oci_manifest \<times> oci_config res) res" where
  "demo_fetched = Inr (''n'', demo_manifest ''j'', Inr demo_config)"

definition demo_ref :: "unit ostree_image_ref" where
  "demo_ref = \<lparr>sigverify = ContainerPolicyAllowInsecure, imgref = demo_image\<rparr>"

lemma demo_prepare:
  "case prepare_internal plain_proxy demo_meta Map.empty demo_ref True False False Map.empty demo_fetched image_store of
     Inr (Ready (Some _) _ _, _) \<Rightarrow> True | _ \<Rightarrow> False"
  by code_simp

theorem pending_update_roundtrip_witness:
  "\<exists>s st' st2. query_image plain_proxy demo_meta image_store demo_image = Inr (Some s)
     \<and> query_image plain_proxy demo_meta st' demo_image = Inr (Some (s\<lparr>li_cached_update :=
          Some \<lparr>cu_manifest = demo_manifest ''j'', cu_config = demo_config, cu_manifest_digest = ''n''\<rparr>\<rparr>))
     \<and> clear_cached_update plain_proxy demo_meta demo_image st' = Inr st2
     \<and> query_image plain_proxy demo_meta st2 demo_image = Inr (Some (s\<lparr>li_cached_update := None\<rparr>))"
proof -
  obtain s p i st' where run:
    "prepare_internal plain_proxy demo_meta Map.empty demo_ref True False False Map.empty demo_fetched image_store = Inr (Ready (Some s) p i, st')"
    using demo_prepare by (auto split: sum.splits prepare_result.splits option.splits)
  have "imgref demo_ref = demo_image" "\<And>d. mo_digest demo_meta d = Inr d" by (simp_all add: demo_ref_def demo_meta_def)
  then show ?thesis
    using pending_update_roundtrip [OF demo_meta_codec run] by (auto simp: demo_fetched_def)
qed

text \<open>Recording a pending update replaces all other detached metadata of the commit, signatures included.\<close>

lemma cache_pending_overwrites:
  assumes "meta_codec J" and "k \<notin> {CACHED_KEY_MANIFEST_DIGEST, CACHED_KEY_MANIFEST, CACHED_KEY_CONFIG}"
  shows "\<exists>v. rp_detached (ss_repo (cache_pending J commit d m c st)) commit = Some v \<and> bt_get (mo_dict J v) k = None"
proof -
  have "cache_pending J commit d m c st = write_commit_detached commit (mo_dict_fmt J (pending_dict J d m c)) st"
    by (simp add: cache_pending_def pending_dict_def)
  moreover have "bt_get (pending_dict J d m c) k = None"
    using assms(2) by (simp add: pending_dict_def bt_insert_def map_of_bt_update bt_wf_update del: bt_update.simps)
  ultimately show ?thesis using assms(1) by (simp add: meta_codec_def)
qed

end
