(* ===== verification/Tar_Filter.thy ===== *)
theory Tar_Filter
  imports Tar_Stream
begin

text \<open>
  Filtering a container layer before it is committed (\<^verbatim>\<open>crates/ostree-ext/src/tar/write.rs\<close>): paths are
  validated and moved, content outside of the operating system is dropped and counted, and hard
  links into the embedded repository are replaced by the file.

  An element of the source stream is a failure to read it, or an entry with the link name of its bare
  header, which unlike that of the entry is limited to the header field.
\<close>

section \<open>Definitions\<close>

record tar_import_config =
  allow_nonusr :: bool
  remap_factory_var :: bool

datatype normalized_path_result = Filtered string | NormalPath cpath

definition EXCLUDED_TOPLEVEL_PATHS :: "string list" where
  "EXCLUDED_TOPLEVEL_PATHS = [''run'', ''tmp'', ''proc'', ''sys'', ''dev'']"

text \<open>Collecting components into a path.\<close>

definition collect_path :: "cpath \<Rightarrow> string" where
  "collect_path p = foldl (\<lambda>a c. path_join a (component_str c)) [] p"

definition remap_etc_path :: "string \<Rightarrow> string" where
  "remap_etc_path path =
     (case path_components path of
        [] \<Rightarrow> path
      | c # components \<Rightarrow>
          if c = CurDir \<or> c = RootDir then
            (case components of
               [] \<Rightarrow> path
             | first # components \<Rightarrow>
                 if component_str first = ''etc'' then collect_path ([c, Normal ''usr'', first] @ components)
                 else path)
          else if component_str c = ''etc'' then collect_path ([Normal ''usr'', c] @ components)
          else path)"

text \<open>The loop of \<^verbatim>\<open>normalize_validate_path\<close>, with the variables \<^verbatim>\<open>found_first\<close>, \<^verbatim>\<open>excluded\<close> and \<^verbatim>\<open>ret\<close>.\<close>

fun normalize_loop ::
    "tar_import_config \<Rightarrow> bool \<Rightarrow> bool \<Rightarrow> cpath \<Rightarrow> cpath \<Rightarrow> normalized_path_result res" where
  "normalize_loop config found_first excluded ret [] = Inr (NormalPath ret)"
| "normalize_loop config found_first excluded ret (part # parts) =
     (if part = ParentDir then Inl ''Invalid path''
      else
        let part = (if part = RootDir then CurDir else part) in
        if excluded then Inr (Filtered (component_str part))
        else if \<not> found_first then
          (case part of
             Normal n \<Rightarrow>
               if n = ''usr'' then normalize_loop config True False (ret @ [part]) parts
               else if n = ''etc'' then normalize_loop config True False (ret @ rel [''usr'', ''etc'']) parts
               else if n = ''var'' then
                 if remap_factory_var config
                 then normalize_loop config True False (ret @ rel [''usr'', ''share'', ''factory'', ''var'']) parts
                 else normalize_loop config True False (ret @ [part]) parts
               else if n \<in> set EXCLUDED_TOPLEVEL_PATHS then normalize_loop config True True (ret @ [part]) parts
               else if allow_nonusr config then normalize_loop config True False (ret @ [part]) parts
               else Inr (Filtered n)
           | _ \<Rightarrow> normalize_loop config False False (ret @ [part]) parts)
        else normalize_loop config True False (ret @ [part]) parts)"

definition normalize_validate_path :: "tar_import_config \<Rightarrow> cpath \<Rightarrow> normalized_path_result res" where
  "normalize_validate_path config path =
     normalize_loop config False False
       (case path of Normal _ # _ \<Rightarrow> [CurDir] | _ \<Rightarrow> []) path"

text \<open>
  The tar builder: the path and the link name that it writes, or its refusal.
\<close>

record tar_builder =
  tb_path :: "cpath \<Rightarrow> cpath outcome"
  tb_link :: "string \<Rightarrow> string outcome"

definition builder_append_data :: "tar_builder \<Rightarrow> tar_entry \<Rightarrow> cpath \<Rightarrow> tar_entry outcome" where
  "builder_append_data B e path = rbind (tb_path B path) (\<lambda>p. Inr (e\<lparr>te_path := p\<rparr>))"

definition builder_append_link :: "tar_builder \<Rightarrow> tar_entry \<Rightarrow> cpath \<Rightarrow> string \<Rightarrow> tar_entry outcome" where
  "builder_append_link B e path target =
     rbind (tb_path B path) (\<lambda>p. rbind (tb_link B target) (\<lambda>t. Inr (e\<lparr>te_path := p, te_link := Some t\<rparr>)))"

definition copy_entry :: "tar_builder \<Rightarrow> tar_entry \<Rightarrow> cpath \<Rightarrow> tar_entry outcome" where
  "copy_entry B e path =
     (let header = e\<lparr>te_pax := filter (\<lambda>(key, _). key \<noteq> ''path'' \<and> key \<noteq> ''linkpath'') (te_pax e)\<rparr> in
      case te_type e of
        Symlink \<Rightarrow> rbind (ok_or (Err ''Invalid link'') (te_link e)) (\<lambda>target. builder_append_link B header path target)
      | Link \<Rightarrow> rbind (ok_or (Err ''Invalid link'') (te_link e)) (\<lambda>target.
                builder_append_link B header path (remap_etc_path target))
      | _ \<Rightarrow> builder_append_data B header path)"

record filter_state =
  fs_out :: "tar_entry list"
  fs_filtered :: "(string, u32) btree"
  fs_changed_sysroot_objects :: "cpath \<Rightarrow> tar_entry option"
  fs_new_sysroot_link_targets :: "cpath \<Rightarrow> cpath option"

type_synonym src_entry = "tar_entry \<times> string option"

text \<open>Validating, counting or copying an entry.\<close>

definition filter_normal :: "tar_builder \<Rightarrow> tar_import_config \<Rightarrow> tar_entry \<Rightarrow> cpath \<Rightarrow> filter_state \<Rightarrow> filter_state outcome" where
  "filter_normal B config e path s =
     rbind (lift_res (normalize_validate_path config path)) (\<lambda>normalized.
     case normalized of
       Filtered p \<Rightarrow> Inr (s\<lparr>fs_filtered := bt_update p (\<lambda>v. case v of Some n \<Rightarrow> n + 1 | None \<Rightarrow> 1) (fs_filtered s)\<rparr>)
     | NormalPath p \<Rightarrow> rbind (copy_entry B e p) (\<lambda>e'. Inr (s\<lparr>fs_out := fs_out s @ [e']\<rparr>)))"

definition strip_root :: "cpath \<Rightarrow> cpath \<Rightarrow> cpath" where
  "strip_root path fallback = (case strip_prefix [RootDir] path of Some r \<Rightarrow> r | None \<Rightarrow> fallback)"

text \<open>
  A modified hard link into the repository: the first one becomes the file, later ones link to it.
  The pax extensions of the cached file are not written.
\<close>

definition filter_relink :: "tar_builder \<Rightarrow> tar_entry \<Rightarrow> cpath \<Rightarrow> cpath \<Rightarrow> filter_state \<Rightarrow> filter_state outcome" where
  "filter_relink B e path target s =
     (case fs_changed_sysroot_objects s target of
        Some data \<Rightarrow>
          rbind (builder_append_data B (data\<lparr>te_pax := []\<rparr>) path) (\<lambda>e'.
          Inr (s\<lparr>fs_out := fs_out s @ [e'],
                 fs_changed_sysroot_objects := (fs_changed_sysroot_objects s)(target := None),
                 fs_new_sysroot_link_targets := (fs_new_sysroot_link_targets s)(target \<mapsto> path)\<rparr>))
      | None \<Rightarrow>
          (case fs_new_sysroot_link_targets s target of
             Some real_target \<Rightarrow>
               rbind (builder_append_link B (e\<lparr>te_pax := []\<rparr>) path (collect_path real_target)) (\<lambda>e'.
               Inr (s\<lparr>fs_out := fs_out s @ [e']\<rparr>))
           | None \<Rightarrow> Inr s))"

definition filter_step :: "tar_builder \<Rightarrow> tar_import_config \<Rightarrow> src_entry \<Rightarrow> filter_state \<Rightarrow> filter_state outcome" where
  "filter_step B config ent s =
     (let (e, header_link) = ent;
          path = strip_root (te_path e) (te_path e);
          is_modified = (te_mtime e > 0);
          is_regular = (te_type e = Regular)
      in if starts_with REPO_PREFIX path then
           if is_modified \<and> is_regular then
             Inr (s\<lparr>fs_changed_sysroot_objects := (fs_changed_sysroot_objects s)(path \<mapsto> e)\<rparr>)
           else filter_normal B config e path s
         else if te_type e = Link \<and> is_modified then
           rbind (ok_or (Err ''Invalid empty hardlink'') header_link) (\<lambda>target.
           let target = strip_root path (path_components target) in
           if starts_with REPO_PREFIX target then filter_relink B e path target s
           else filter_normal B config e path s)
         else filter_normal B config e path s)"

fun filter_loop :: "tar_builder \<Rightarrow> tar_import_config \<Rightarrow> src_entry outcome list \<Rightarrow> filter_state \<Rightarrow> filter_state outcome" where
  "filter_loop B config [] s = Inr s"
| "filter_loop B config (ent # ents) s =
     rbind ent (\<lambda>ent. rbind (filter_step B config ent s) (filter_loop B config ents))"

definition filter_init :: filter_state where
  "filter_init = \<lparr>fs_out = [], fs_filtered = [], fs_changed_sysroot_objects = Map.empty, fs_new_sysroot_link_targets = Map.empty\<rparr>"

definition filter_tar :: "tar_builder \<Rightarrow> tar_import_config \<Rightarrow> src_entry outcome list
    \<Rightarrow> ((string, u32) btree \<times> tar_entry list) outcome" where
  "filter_tar B config src =
     rbind (filter_loop B config src filter_init) (\<lambda>s. Inr (fs_filtered s, fs_out s))"

section \<open>Normalised paths\<close>

text \<open>Components of a path: the root and the current directory are only at its front.\<close>

definition wf_cpath :: "cpath \<Rightarrow> bool" where
  "wf_cpath p = (RootDir \<notin> set (tl p) \<and> CurDir \<notin> set (tl p))"

lemma wf_path_components: "wf_cpath (path_components p)"
proof -
  have "RootDir \<notin> set (body_components segs) \<and> CurDir \<notin> set (body_components segs)" for segs
    by (auto simp: body_components_def seg_component_def)
  from this [of "split_on path_sep p"] this [of "split_on path_sep (tl p)"] show ?thesis
    by (cases "body_components (split_on path_sep p)") (auto simp: wf_cpath_def path_components_def Let_def)
qed

text \<open>What is left of a path without the root and the current directory.\<close>

definition path_body :: "cpath \<Rightarrow> cpath" where
  "path_body p = filter (\<lambda>c. c \<noteq> RootDir \<and> c \<noteq> CurDir) p"

text \<open>Where a toplevel directory goes.\<close>

definition placed :: "tar_import_config \<Rightarrow> string \<Rightarrow> string list option" where
  "placed config n =
     (if n = ''usr'' then Some [''usr'']
      else if n = ''etc'' then Some [''usr'', ''etc'']
      else if n = ''var'' then Some (if remap_factory_var config then [''usr'', ''share'', ''factory'', ''var''] else [''var''])
      else if allow_nonusr config then Some [n] else None)"

definition normalize_spec :: "tar_import_config \<Rightarrow> cpath \<Rightarrow> normalized_path_result res" where
  "normalize_spec config p =
     (case path_body p of
        [] \<Rightarrow> Inr (NormalPath (if p = [] then [] else [CurDir]))
      | ParentDir # _ \<Rightarrow> Inl ''Invalid path''
      | c # rest \<Rightarrow>
          let n = component_str c in
          if n \<in> set EXCLUDED_TOPLEVEL_PATHS then
            (case rest of
               [] \<Rightarrow> Inr (NormalPath [CurDir, c])
             | d # _ \<Rightarrow> if d = ParentDir then Inl ''Invalid path'' else Inr (Filtered (component_str d)))
          else (case placed config n of
                  None \<Rightarrow> Inr (Filtered n)
                | Some ns \<Rightarrow> if ParentDir \<in> set rest then Inl ''Invalid path''
                             else Inr (NormalPath (CurDir # rel ns @ rest))))"

lemma normalize_rest:
  "RootDir \<notin> set rest \<Longrightarrow>
     normalize_loop config True False ret rest = (if ParentDir \<in> set rest then Inl ''Invalid path'' else Inr (NormalPath (ret @ rest)))"
  by (induction rest arbitrary: ret) (auto simp: Let_def)

lemma normalize_excluded:
  "RootDir \<notin> set rest \<Longrightarrow> normalize_loop config True True ret rest =
     (case rest of [] \<Rightarrow> Inr (NormalPath ret)
      | d # _ \<Rightarrow> if d = ParentDir then Inl ''Invalid path'' else Inr (Filtered (component_str d)))"
  by (cases rest) (auto simp: Let_def)

lemma normalize_first:
  assumes "RootDir \<notin> set rest" and "CurDir \<notin> set rest"
  shows "normalize_loop config False False [CurDir] rest =
    (if rest = [] then Inr (NormalPath [CurDir]) else normalize_spec config rest)"
proof (cases rest)
  case (Cons c cs)
  have body: "path_body rest = c # cs" using assms unfolding path_body_def Cons by (auto simp: filter_id_conv)
  have cs: "RootDir \<notin> set cs" using assms(1) Cons by simp
  show ?thesis
  proof (cases c)
    case (Normal n)
    have notin: "''usr'' \<notin> set EXCLUDED_TOPLEVEL_PATHS" "''etc'' \<notin> set EXCLUDED_TOPLEVEL_PATHS" "''var'' \<notin> set EXCLUDED_TOPLEVEL_PATHS"
      by (simp_all add: EXCLUDED_TOPLEVEL_PATHS_def)
    show ?thesis
      unfolding normalize_spec_def body unfolding Cons Normal
      using notin by (auto simp: placed_def normalize_rest [OF cs] normalize_excluded [OF cs] Let_def split: list.splits)
  qed (use assms Cons body in \<open>auto simp: normalize_spec_def\<close>)
qed simp

lemma normalize_equiv:
  assumes "wf_cpath p"
  shows "normalize_validate_path config p = normalize_spec config p"
proof (cases p)
  case (Cons c cs)
  have cs: "RootDir \<notin> set cs" "CurDir \<notin> set cs" using assms Cons by (simp_all add: wf_cpath_def)
  then have body: "path_body cs = cs" by (auto simp: path_body_def filter_id_conv)
  show ?thesis
  proof (cases "c = RootDir \<or> c = CurDir")
    case True
    then have "path_body p = cs" "normalize_validate_path config p = normalize_loop config False False [CurDir] cs"
      using body Cons by (auto simp: normalize_validate_path_def path_body_def Let_def)
    then show ?thesis
      using normalize_first [OF cs] Cons body by (auto simp: normalize_spec_def)
  next
    case False
    then have "RootDir \<notin> set p" "CurDir \<notin> set p" using cs Cons by auto
    moreover have "normalize_validate_path config p = normalize_loop config False False [CurDir] p"
      using False Cons by (cases c) (auto simp: normalize_validate_path_def)
    ultimately show ?thesis using normalize_first [of p config] Cons by simp
  qed
qed (simp add: normalize_validate_path_def normalize_spec_def path_body_def)

section \<open>A layer without links into the repository\<close>

definition entry_path :: "tar_entry \<Rightarrow> cpath" where
  "entry_path e = strip_root (te_path e) (te_path e)"

definition plain :: "src_entry \<Rightarrow> bool" where
  "plain ent =
     (wf_cpath (te_path (fst ent)) \<and> \<not> starts_with REPO_PREFIX (entry_path (fst ent))
      \<and> (te_type (fst ent) = Link \<and> te_mtime (fst ent) > 0 \<longrightarrow>
           (case snd ent of None \<Rightarrow> False | Some t \<Rightarrow> \<not> starts_with REPO_PREFIX (path_components t))))"

text \<open>The entries that are copied with their new paths, and those that are dropped, by the counted name.\<close>

definition kept :: "tar_import_config \<Rightarrow> tar_entry list \<Rightarrow> (tar_entry \<times> cpath) list" where
  "kept config = List.map_filter (\<lambda>e. case normalize_spec config (entry_path e) of
     Inr (NormalPath p) \<Rightarrow> Some (e, p) | _ \<Rightarrow> None)"

definition dropped :: "tar_import_config \<Rightarrow> tar_entry list \<Rightarrow> string list" where
  "dropped config = List.map_filter (\<lambda>e. case normalize_spec config (entry_path e) of
     Inr (Filtered n) \<Rightarrow> Some n | _ \<Rightarrow> None)"

definition count_of :: "(string, u32) btree \<Rightarrow> string \<Rightarrow> nat" where
  "count_of m n = (case bt_get m n of Some v \<Rightarrow> unat v | None \<Rightarrow> 0)"

definition acceptable :: "tar_builder \<Rightarrow> tar_import_config \<Rightarrow> tar_entry \<Rightarrow> bool" where
  "acceptable B config e =
     (case normalize_spec config (entry_path e) of
        Inl _ \<Rightarrow> False | Inr (Filtered _) \<Rightarrow> True | Inr (NormalPath p) \<Rightarrow> is_ok (copy_entry B e p))"

lemma entry_path_root:
  assumes "wf_cpath (te_path e)"
  shows "RootDir \<notin> set (entry_path e)" and "wf_cpath (entry_path e)"
  using assms by (cases "te_path e"; cases "tl (te_path e)"; auto simp: entry_path_def strip_root_def wf_cpath_def)+

lemma strip_root_id: "RootDir \<notin> set p \<Longrightarrow> strip_root p q = q"
  by (cases p) (auto simp: strip_root_def)

lemma plain_step:
  assumes "plain ent"
  shows "filter_step B config ent s = filter_normal B config (fst ent) (entry_path (fst ent)) s"
proof -
  obtain e l where ent: "ent = (e, l)" by (cases ent)
  have "strip_root (entry_path e) q = q" for q
    using assms entry_path_root(1) [of e] by (intro strip_root_id) (simp add: plain_def ent)
  then show ?thesis
    using assms by (auto simp: filter_step_def ent plain_def entry_path_def [symmetric] Let_def split: option.splits)
qed

lemma kept_Cons: "kept config (e # es) =
    (case normalize_spec config (entry_path e) of Inr (NormalPath p) \<Rightarrow> (e, p) # kept config es | _ \<Rightarrow> kept config es)"
  by (auto simp: kept_def List.map_filter_simps split: sum.splits normalized_path_result.splits)

lemma dropped_Cons: "dropped config (e # es) =
    (case normalize_spec config (entry_path e) of Inr (Filtered n) \<Rightarrow> n # dropped config es | _ \<Rightarrow> dropped config es)"
  by (auto simp: dropped_def List.map_filter_simps split: sum.splits normalized_path_result.splits)

abbreviation bump :: "string \<Rightarrow> (string, u32) btree \<Rightarrow> (string, u32) btree" where
  "bump n \<equiv> bt_update n (\<lambda>v. case v of Some n \<Rightarrow> n + 1 | None \<Rightarrow> 1)"

lemma filter_normal_cases:
  assumes "wf_cpath (te_path e)"
  shows "filter_normal B config e (entry_path e) s =
    (case normalize_spec config (entry_path e) of
       Inl m \<Rightarrow> Inl (Err m)
     | Inr (Filtered n) \<Rightarrow> Inr (s\<lparr>fs_filtered := bump n (fs_filtered s)\<rparr>)
     | Inr (NormalPath p) \<Rightarrow> rbind (copy_entry B e p) (\<lambda>e'. Inr (s\<lparr>fs_out := fs_out s @ [e']\<rparr>)))"
  unfolding filter_normal_def normalize_equiv [OF entry_path_root(2) [OF assms]]
  by (cases "normalize_spec config (entry_path e)") (simp_all add: lift_res_def)

lemma loop_plain:
  assumes "\<forall>ent \<in> set es. plain ent"
  shows "filter_loop B config (map Inr es) s = Inr s' \<Longrightarrow>
    map Inr (fs_out s') = map Inr (fs_out s) @ map (\<lambda>(e, p). copy_entry B e p) (kept config (map fst es))
    \<and> fs_filtered s' = fold bump (dropped config (map fst es)) (fs_filtered s)"
  using assms
proof (induction es arbitrary: s)
  case Nil
  then show ?case by (simp add: kept_def dropped_def List.map_filter_simps)
next
  case (Cons ent es)
  obtain s1 where s1: "filter_normal B config (fst ent) (entry_path (fst ent)) s = Inr s1" "filter_loop B config (map Inr es) s1 = Inr s'"
    using Cons.prems by (auto simp: rbind_Inr_iff plain_step)
  have wf: "wf_cpath (te_path (fst ent))" using Cons.prems by (simp add: plain_def)
  have IH: "map Inr (fs_out s') = map Inr (fs_out s1) @ map (\<lambda>(e, p). copy_entry B e p) (kept config (map fst es))
    \<and> fs_filtered s' = fold bump (dropped config (map fst es)) (fs_filtered s1)"
    using Cons.IH [OF s1(2)] Cons.prems(2) by simp
  show ?case
    using s1(1) IH unfolding filter_normal_cases [OF wf]
    by (auto simp: kept_Cons dropped_Cons rbind_Inr_iff split: sum.splits normalized_path_result.splits)
qed

lemma loop_plain_ok:
  assumes "\<forall>ent \<in> set es. plain ent"
  shows "is_ok (filter_loop B config (map Inr es) s) \<longleftrightarrow> (\<forall>ent \<in> set es. acceptable B config (fst ent))"
  using assms
proof (induction es arbitrary: s)
  case (Cons ent es)
  have wf: "wf_cpath (te_path (fst ent))" using Cons.prems by (simp add: plain_def)
  have "is_ok (filter_normal B config (fst ent) (entry_path (fst ent)) s) \<longleftrightarrow> acceptable B config (fst ent)"
    unfolding filter_normal_cases [OF wf] acceptable_def
    by (auto simp: is_ok_iff rbind_Inr_iff split: sum.splits normalized_path_result.splits)
  then show ?case
    using Cons plain_step [of ent]
    by (cases "filter_normal B config (fst ent) (entry_path (fst ent)) s") auto
qed simp

lemma fold_bump:
  "bt_wf m \<Longrightarrow> bt_wf (fold bump ns m) \<and> bt_get (fold bump ns m) n =
     (if n \<in> set ns then Some ((case bt_get m n of Some v \<Rightarrow> v | None \<Rightarrow> 0) + of_nat (count_list ns n)) else bt_get m n)"
proof (induction ns arbitrary: m)
  case (Cons k ns)
  have "bt_wf (bump k m)" using Cons.prems by (rule bt_wf_update)
  with Cons.IH [OF this] Cons.prems show ?case
    by (auto simp: map_of_bt_update count_list_0_iff split: option.splits)
qed simp

text \<open>Where a copied entry may land.\<close>

definition allowed_path :: "tar_import_config \<Rightarrow> cpath \<Rightarrow> bool" where
  "allowed_path config p =
     (p = [] \<or> p = [CurDir] \<or>
      (\<exists>n ns. p = CurDir # rel (n # ns) \<and>
         (n = ''usr'' \<or> n = ''var'' \<and> \<not> remap_factory_var config \<or> n \<in> set EXCLUDED_TOPLEVEL_PATHS \<and> ns = []
          \<or> allow_nonusr config \<and> n \<notin> set EXCLUDED_TOPLEVEL_PATHS \<and> n \<noteq> ''etc'' \<and> n \<noteq> ''var'')))"

lemma names_only:
  assumes "RootDir \<notin> set p" and "CurDir \<notin> set p" and "ParentDir \<notin> set p"
  shows "\<exists>ns. p = rel ns"
proof -
  have "Normal (component_str c) = c" if "c \<in> set p" for c using assms that by (cases c) auto
  then have "rel (map component_str p) = p" by (simp add: map_idI)
  then show ?thesis by metis
qed

lemma path_body_root: "RootDir \<notin> set (path_body p)" "CurDir \<notin> set (path_body p)"
  by (auto simp: path_body_def)

lemma normalize_allowed:
  assumes "normalize_spec config q = Inr (NormalPath p)"
  shows "allowed_path config p"
proof (cases "path_body q")
  case Nil
  then show ?thesis using assms by (auto simp: normalize_spec_def allowed_path_def split: if_splits)
next
  case (Cons c rest)
  have r: "RootDir \<notin> set rest" "CurDir \<notin> set rest" "c \<noteq> RootDir" "c \<noteq> CurDir" using path_body_root [of q] Cons by auto
  obtain n where c: "c = Normal n" using assms r Cons by (cases c) (auto simp: normalize_spec_def)
  show ?thesis
  proof (cases "n \<in> set EXCLUDED_TOPLEVEL_PATHS")
    case True
    then have "p = CurDir # rel [n]" using assms by (auto simp: normalize_spec_def Cons c split: list.splits if_splits)
    then show ?thesis using True by (auto simp: allowed_path_def)
  next
    case False
    then obtain ns where ns: "placed config n = Some ns" "ParentDir \<notin> set rest" "p = CurDir # rel ns @ rest"
      using assms by (auto simp: normalize_spec_def Cons c split: option.splits if_splits)
    obtain rs where rs: "rest = rel rs" using names_only [OF r(1,2) ns(2)] by blast
    have p: "p = CurDir # rel (ns @ rs)" using ns(3) rs by simp
    obtain k ks where k: "ns = k # ks"
        "k = ''usr'' \<or> k = ''var'' \<and> \<not> remap_factory_var config \<or> allow_nonusr config \<and> k = n \<and> n \<noteq> ''etc'' \<and> n \<noteq> ''var''"
      using ns(1) by (auto simp: placed_def split: if_splits)
    have "p = CurDir # rel (k # (ks @ rs))" using p k(1) by simp
    with k(2) False show ?thesis unfolding allowed_path_def by (intro disjI2 exI [of _ k] exI [of _ "ks @ rs"]) metis
  qed
qed

lemma total_entries:
  "\<forall>ent \<in> set es. acceptable B config (fst ent) \<Longrightarrow>
     length (kept config (map fst es)) + length (dropped config (map fst es)) = length es"
proof (induction es)
  case (Cons ent es)
  then show ?case
    by (auto simp: kept_Cons dropped_Cons acceptable_def split: sum.splits normalized_path_result.splits)
qed (simp add: kept_def dropped_def List.map_filter_simps)


section \<open>Paths and their text\<close>

definition seg_ok :: "component \<Rightarrow> bool" where
  "seg_ok c = (case c of Normal n \<Rightarrow> is_name n | ParentDir \<Rightarrow> True | _ \<Rightarrow> False)"

definition valid_cpath :: "cpath \<Rightarrow> bool" where
  "valid_cpath p = (case p of [] \<Rightarrow> True | c # cs \<Rightarrow> (c = RootDir \<or> c = CurDir \<or> seg_ok c) \<and> list_all seg_ok cs)"

lemma seg_ok_no_root: "seg_ok c \<Longrightarrow> c \<noteq> RootDir \<and> c \<noteq> CurDir"
  by (auto simp: seg_ok_def)

lemma valid_wf: "valid_cpath p \<Longrightarrow> wf_cpath p"
  by (cases p) (auto simp: valid_cpath_def wf_cpath_def list_all_iff dest: seg_ok_no_root)

lemma body_valid: "list_all seg_ok (body_components (split_on path_sep p))"
  by (auto simp: list_all_iff body_components_def seg_component_def seg_ok_def is_name_def seg_trivial_def dest: split_on_parts)

lemma valid_path_components: "valid_cpath (path_components p)"
  using body_valid [of p] body_valid [of "tl p"]
  by (cases "body_components (split_on path_sep p)") (auto simp: valid_cpath_def path_components_def Let_def)

lemma seg_text:
  assumes "seg_ok c"
  shows "path_sep \<notin> set (component_str c)" and "\<not> seg_trivial (component_str c)" and "seg_component (component_str c) = c"
    and "component_str c \<noteq> []"
  using assms by (cases c; auto simp: seg_ok_def is_name_def seg_trivial_def seg_component_def path_sep_def)+

lemma components_snoc:
  assumes "seg_ok c" and "a \<noteq> []"
  shows "path_components (a @ path_sep # component_str c) = path_components a @ [c]"
proof (cases "path_absolute a")
  case True
  then obtain r where r: "a = path_sep # r" using assms(2) by (cases a) auto
  show ?thesis
    using seg_text [OF assms(1)] by (simp add: r path_components_def body_components_def split_on_snoc)
next
  case False
  have "hd (split_on path_sep a @ [component_str c]) = hd (split_on path_sep a)" by simp
  then show ?thesis
    using False assms(2) seg_text [OF assms(1)]
    by (simp add: path_absolute_append path_components_def body_components_def split_on_snoc Let_def)
qed

lemma components_single:
  assumes "seg_ok c"
  shows "path_components (component_str c) = [c]" and "path_components (path_sep # component_str c) = [RootDir, c]"
proof -
  note t = seg_text [OF assms]
  have s: "split_on path_sep (component_str c) = [component_str c]" using t(1) by (rule split_on_no_sep)
  have na: "\<not> path_absolute (component_str c)" using t(1,4) by (cases "component_str c") auto
  have "component_str c \<noteq> ''.''" using t(2) by (auto simp: seg_trivial_def)
  then show "path_components (component_str c) = [c]" using s na t by (simp add: path_components_def body_components_def Let_def)
  show "path_components (path_sep # component_str c) = [RootDir, c]" using s t by (simp add: path_components_def body_components_def)
qed

lemma collect_snoc: "collect_path (p @ [c]) = path_join (collect_path p) (component_str c)"
  by (simp add: collect_path_def)

lemma collect_components:
  assumes "valid_cpath p"
  shows "path_components (collect_path p) = p \<and> (p \<noteq> [] \<longrightarrow> collect_path p \<noteq> [])
    \<and> (last (collect_path p) = path_sep \<and> p \<noteq> [] \<longrightarrow> p = [RootDir])"
  using assms
proof (induction p rule: rev_induct)
  case Nil
  then show ?case by (simp add: collect_path_def path_components_def body_components_def seg_trivial_def Let_def)
next
  case (snoc c p)
  show ?case
  proof (cases "p = []")
    case True
    then consider "c = RootDir" | "c = CurDir" | "seg_ok c" using snoc.prems by (auto simp: valid_cpath_def)
    then show ?thesis
    proof cases
      case 3
      then have "\<not> path_absolute (component_str c)" using seg_text [OF 3] by (cases "component_str c") auto
      then have "collect_path (p @ [c]) = component_str c" by (simp add: True collect_path_def path_join_def)
      then show ?thesis using True components_single(1) [OF 3] seg_text [OF 3] by (auto dest: last_in_set)
    qed (auto simp: True collect_path_def path_join_def path_components_def path_absolute_def starts_with_def body_components_def
        seg_trivial_def path_sep_def Let_def)
  next
    case False
    have v: "valid_cpath p" "seg_ok c" using snoc.prems False by (cases p; auto simp: valid_cpath_def)+
    note IH = snoc.IH [OF v(1)]
    have na: "\<not> path_absolute (component_str c)" using seg_text [OF v(2)] by (cases "component_str c") auto
    have l: "last (collect_path (p @ [c])) \<noteq> path_sep" "collect_path (p @ [c]) \<noteq> []"
      using na seg_text [OF v(2)] unfolding collect_snoc path_join_def by (auto dest: last_in_set)
    show ?thesis
    proof (cases "p = [RootDir]")
      case True
      have "collect_path (p @ [c]) = path_sep # component_str c"
        using na unfolding collect_snoc True by (simp add: collect_path_def path_join_def path_absolute_def starts_with_def path_sep_def)
      then show ?thesis using components_single(2) [OF v(2)] True l by simp
    next
      case r: False
      have "collect_path (p @ [c]) = collect_path p @ path_sep # component_str c"
        using na IH False r unfolding collect_snoc path_join_def by auto
      then show ?thesis using components_snoc [OF v(2)] IH False l by simp
    qed
  qed
qed

section \<open>Hard links\<close>

text \<open>Where a kept path lands, without the current directory in front.\<close>

definition etc_moved :: "cpath \<Rightarrow> cpath" where
  "etc_moved b = (if starts_with (rel [''etc'']) b then Normal ''usr'' # b else b)"

definition relocate :: "tar_import_config \<Rightarrow> cpath \<Rightarrow> cpath" where
  "relocate config b =
     (if remap_factory_var config \<and> starts_with (rel [''var'']) b then rel [''usr'', ''share'', ''factory''] @ b else etc_moved b)"

lemma path_body_id: "RootDir \<notin> set p \<Longrightarrow> CurDir \<notin> set p \<Longrightarrow> path_body p = p"
  by (auto simp: path_body_def filter_id_conv)

lemma path_body_append [simp]: "path_body (p @ q) = path_body p @ path_body q"
  by (simp add: path_body_def)

lemma path_body_Cons [simp]: "path_body (c # p) = (if c = RootDir \<or> c = CurDir then path_body p else c # path_body p)"
  by (auto simp: path_body_def)

lemma path_body_Nil [simp]: "path_body [] = []"
  by (simp add: path_body_def)

lemma path_body_rel [simp]: "path_body (rel ns) = rel ns"
  by (induction ns) (auto simp: path_body_def)

lemma normalize_relocates:
  assumes "normalize_spec config q = Inr (NormalPath p)"
  shows "path_body p = relocate config (path_body q)"
proof (cases "path_body q")
  case Nil
  then show ?thesis
    using assms by (auto simp: normalize_spec_def relocate_def etc_moved_def starts_with_def path_body_def split: if_splits)
next
  case (Cons c rest)
  have r: "path_body rest = rest" "c \<noteq> RootDir" "c \<noteq> CurDir"
    using path_body_root [of q] Cons by (auto intro: path_body_id)
  obtain n where c: "c = Normal n" using assms r Cons by (cases c) (auto simp: normalize_spec_def)
  show ?thesis
    using assms r(1) unfolding normalize_spec_def Cons c relocate_def etc_moved_def
    by (auto simp: starts_with_def placed_def EXCLUDED_TOPLEVEL_PATHS_def split: list.splits if_splits)
qed

lemma remap_etc_body: "path_body (path_components (remap_etc_path t)) = etc_moved (path_body (path_components t))"
proof (cases "path_components t")
  case Nil
  then show ?thesis by (simp add: remap_etc_path_def etc_moved_def starts_with_def)
next
  case (Cons c cs)
  have v: "c = RootDir \<or> c = CurDir \<or> seg_ok c" "list_all seg_ok cs"
    using valid_path_components [of t] Cons by (auto simp: valid_cpath_def)
  have b: "path_body cs = cs" using v(2) by (intro path_body_id) (auto simp: list_all_iff seg_ok_def)
  have usr: "seg_ok (Normal ''usr'')" by (simp add: seg_ok_def is_name_def path_sep_def)
  have etc: "component_str d = ''etc'' \<longleftrightarrow> d = Normal ''etc''" for d by (cases d) auto
  show ?thesis
  proof (cases "c = RootDir \<or> c = CurDir")
    case True
    show ?thesis
    proof (cases cs)
      case Nil
      then show ?thesis using Cons True by (auto simp: remap_etc_path_def etc_moved_def starts_with_def path_body_def)
    next
      case (Cons d ds)
      have "valid_cpath (c # Normal ''usr'' # d # ds)" using True v(2) usr Cons by (auto simp: valid_cpath_def)
      from collect_components [OF this] True \<open>path_components t = c # cs\<close> Cons b show ?thesis
        by (auto simp: remap_etc_path_def etc_moved_def starts_with_def etc)
    qed
  next
    case False
    then have "valid_cpath (Normal ''usr'' # c # cs)" using v usr by (auto simp: valid_cpath_def)
    from collect_components [OF this] False Cons b show ?thesis
      by (auto simp: remap_etc_path_def etc_moved_def starts_with_def etc)
  qed
qed

text \<open>
  What is relied on of the tar builder: it writes the path and the link name it gets, up to a leading
  root or current directory.
\<close>

definition faithful_builder :: "tar_builder \<Rightarrow> bool" where
  "faithful_builder B =
     ((\<forall>p q. tb_path B p = Inr q \<longrightarrow> path_body q = path_body p)
      \<and> (\<forall>t u. tb_link B t = Inr u \<longrightarrow> path_body (path_components u) = path_body (path_components t)))"

definition link_target :: "tar_entry \<Rightarrow> cpath option" where
  "link_target e = map_option (\<lambda>t. path_body (path_components t)) (te_link e)"

text \<open>Every hard link of a stream names the path of an earlier entry.\<close>

fun links_found :: "cpath set \<Rightarrow> tar_entry list \<Rightarrow> bool" where
  "links_found seen [] = True"
| "links_found seen (e # es) =
     ((te_type e = Link \<longrightarrow> (case link_target e of Some t \<Rightarrow> t \<in> seen | None \<Rightarrow> False))
      \<and> links_found (insert (path_body (te_path e)) seen) es)"

text \<open>The entries of a source that are copied, and closedness of their hard links.\<close>

definition into_repo :: "src_entry \<Rightarrow> bool" where
  "into_repo ent =
     (te_type (fst ent) = Link \<and> te_mtime (fst ent) > 0 \<and> \<not> starts_with REPO_PREFIX (entry_path (fst ent))
      \<and> (case snd ent of Some t \<Rightarrow> starts_with REPO_PREFIX (path_components t) | None \<Rightarrow> False))"

definition repo_object :: "src_entry \<Rightarrow> bool" where
  "repo_object ent =
     (starts_with REPO_PREFIX (entry_path (fst ent)) \<and> te_mtime (fst ent) > 0 \<and> te_type (fst ent) = Regular)"

definition copied :: "tar_import_config \<Rightarrow> src_entry \<Rightarrow> bool" where
  "copied config ent =
     (\<not> into_repo ent \<and> \<not> repo_object ent
      \<and> (case normalize_spec config (entry_path (fst ent)) of Inr (NormalPath _) \<Rightarrow> True | _ \<Rightarrow> False))"

fun links_closed :: "tar_import_config \<Rightarrow> cpath set \<Rightarrow> src_entry list \<Rightarrow> bool" where
  "links_closed config seen [] = True"
| "links_closed config seen (ent # es) =
     (if copied config ent
      then (te_type (fst ent) = Link \<longrightarrow>
              (case link_target (fst ent) of
                 Some t \<Rightarrow> t \<in> seen \<and> \<not> (remap_factory_var config \<and> starts_with (rel [''var'']) t)
               | None \<Rightarrow> False))
           \<and> links_closed config (insert (path_body (te_path (fst ent))) seen) es
      else links_closed config seen es)"

definition bodies :: "tar_entry list \<Rightarrow> cpath set" where
  "bodies out = (\<lambda>e. path_body (te_path e)) ` set out"

lemma links_found_snoc:
  "links_found seen (es @ [e]) \<longleftrightarrow>
     links_found seen es \<and> (te_type e = Link \<longrightarrow> (case link_target e of Some t \<Rightarrow> t \<in> seen \<union> bodies es | None \<Rightarrow> False))"
  by (induction es arbitrary: seen) (auto simp: bodies_def split: option.splits)

definition link_state :: "tar_import_config \<Rightarrow> cpath set \<Rightarrow> filter_state \<Rightarrow> bool" where
  "link_state config seen s =
     (links_found {} (fs_out s) \<and> relocate config ` seen \<subseteq> bodies (fs_out s)
      \<and> (\<forall>t e. fs_changed_sysroot_objects s t = Some e \<longrightarrow> te_type e = Regular)
      \<and> (\<forall>t p. fs_new_sysroot_link_targets s t = Some p \<longrightarrow> valid_cpath p \<and> path_body p \<in> bodies (fs_out s)))"

lemma link_state_write:
  assumes "link_state config seen s"
    and "te_type e = Link \<longrightarrow> (case link_target e of Some t \<Rightarrow> t \<in> bodies (fs_out s) | None \<Rightarrow> False)"
  shows "link_state config seen (s\<lparr>fs_out := fs_out s @ [e]\<rparr>)"
    and "relocate config b = path_body (te_path e) \<Longrightarrow> link_state config (insert b seen) (s\<lparr>fs_out := fs_out s @ [e]\<rparr>)"
  using assms by (auto simp: link_state_def links_found_snoc bodies_def split: option.splits)

lemma link_state_filtered [simp]: "link_state config seen (s\<lparr>fs_filtered := x\<rparr>) = link_state config seen s"
  by (simp add: link_state_def)

lemma entry_path_valid: "valid_cpath (te_path e) \<Longrightarrow> valid_cpath (entry_path e) \<and> path_body (entry_path e) = path_body (te_path e)"
  by (cases "te_path e"; cases "tl (te_path e)")
    (auto simp: entry_path_def strip_root_def valid_cpath_def split: option.splits)

lemma copy_entry_link:
  assumes "faithful_builder B" and "copy_entry B e p = Inr e'"
  shows "path_body (te_path e') = path_body p \<and> te_type e' = te_type e
    \<and> (te_type e = Link \<longrightarrow> link_target e' = map_option etc_moved (link_target e))"
  using assms
  by (cases "te_type e")
    (auto simp: copy_entry_def Let_def builder_append_data_def builder_append_link_def rbind_Inr_iff ok_or_Inr_iff
      faithful_builder_def link_target_def remap_etc_body)

lemma filter_normal_links:
  assumes "faithful_builder B" and "valid_cpath (te_path (fst ent))" and "\<not> into_repo ent" and "\<not> repo_object ent"
    and "filter_normal B config (fst ent) (entry_path (fst ent)) s = Inr s'"
    and "links_closed config seen (ent # es)" and "link_state config seen s"
  shows "\<exists>seen'. link_state config seen' s' \<and> links_closed config seen' es"
proof -
  let ?e = "fst ent"
  have run: "(case normalize_spec config (entry_path ?e) of
       Inl m \<Rightarrow> Inl (Err m)
     | Inr (Filtered n) \<Rightarrow> Inr (s\<lparr>fs_filtered := bump n (fs_filtered s)\<rparr>)
     | Inr (NormalPath p) \<Rightarrow> rbind (copy_entry B ?e p) (\<lambda>e'. Inr (s\<lparr>fs_out := fs_out s @ [e']\<rparr>))) = Inr s'"
    using assms(5) unfolding filter_normal_cases [OF valid_wf [OF assms(2)]] .
  show ?thesis
  proof (cases "copied config ent")
    case False
    then have "\<exists>n. normalize_spec config (entry_path ?e) = Inr (Filtered n)"
      using run assms(3,4) by (auto simp: copied_def split: sum.splits normalized_path_result.splits)
    then have "link_state config seen s'" using run assms(7) by auto
    then show ?thesis using assms(6) False by auto
  next
    case True
    then obtain p where p: "normalize_spec config (entry_path ?e) = Inr (NormalPath p)"
      by (auto simp: copied_def split: sum.splits normalized_path_result.splits)
    obtain e' where e': "copy_entry B ?e p = Inr e'" "s' = s\<lparr>fs_out := fs_out s @ [e']\<rparr>" using run p by (auto simp: rbind_Inr_iff)
    note c = copy_entry_link [OF assms(1) e'(1)]
    have b: "relocate config (path_body (te_path ?e)) = path_body (te_path e')"
      using normalize_relocates [OF p] entry_path_valid [OF assms(2)] c by simp
    have "te_type e' = Link \<longrightarrow> (case link_target e' of Some t \<Rightarrow> t \<in> bodies (fs_out s) | None \<Rightarrow> False)"
      using c assms(6,7) True by (auto simp: link_state_def relocate_def split: option.splits)
    from link_state_write(2) [OF assms(7) this b] show ?thesis using assms(6) True e'(2) by auto
  qed
qed

lemma filter_relink_links:
  assumes "faithful_builder B" and "te_type e = Link" and "valid_cpath path"
    and "filter_relink B e path target s = Inr s'" and "link_state config seen s"
  shows "link_state config seen s'"
proof (cases "fs_changed_sysroot_objects s target")
  case (Some data)
  obtain e' where e': "builder_append_data B (data\<lparr>te_pax := []\<rparr>) path = Inr e'"
    "s' = s\<lparr>fs_out := fs_out s @ [e'], fs_changed_sysroot_objects := (fs_changed_sysroot_objects s)(target := None),
            fs_new_sysroot_link_targets := (fs_new_sysroot_link_targets s)(target \<mapsto> path)\<rparr>"
    using assms(4) Some by (auto simp: filter_relink_def rbind_Inr_iff)
  have "te_type e' = Regular" "path_body (te_path e') = path_body path"
    using e'(1) assms(1,5) Some by (auto simp: builder_append_data_def rbind_Inr_iff faithful_builder_def link_state_def)
  then show ?thesis
    using assms(3,5) unfolding e'(2) by (auto simp: link_state_def links_found_snoc bodies_def split: if_splits)
next
  case None
  show ?thesis
  proof (cases "fs_new_sysroot_link_targets s target")
    case (Some real)
    then have real: "valid_cpath real" "path_body real \<in> bodies (fs_out s)" using assms(5) by (auto simp: link_state_def)
    obtain e' where e': "builder_append_link B (e\<lparr>te_pax := []\<rparr>) path (collect_path real) = Inr e'" "s' = s\<lparr>fs_out := fs_out s @ [e']\<rparr>"
      using assms(4) None Some by (auto simp: filter_relink_def rbind_Inr_iff)
    have "link_target e' = Some (path_body real)"
      using e'(1) assms(1) collect_components [OF real(1)]
      by (auto simp: builder_append_link_def rbind_Inr_iff faithful_builder_def link_target_def)
    then show ?thesis using link_state_write(1) [OF assms(5), of e'] real(2) e'(2) by simp
  qed (use assms None in \<open>simp add: filter_relink_def\<close>)
qed

lemma filter_step_links:
  assumes "faithful_builder B" and "valid_cpath (te_path (fst ent))" and "filter_step B config ent s = Inr s'"
    and "links_closed config seen (ent # es)" and "link_state config seen s"
  shows "\<exists>seen'. link_state config seen' s' \<and> links_closed config seen' es"
proof -
  obtain e l where ent: "ent = (e, l)" by (cases ent)
  have v: "valid_cpath (entry_path e)" using entry_path_valid [OF assms(2)] ent by simp
  have root: "strip_root (entry_path e) q = q" for q
    using entry_path_root(1) [OF valid_wf [OF assms(2)]] ent by (intro strip_root_id) simp
  consider (object) "repo_object ent" | (relink) t where "into_repo ent" "l = Some t"
    | (other) "\<not> repo_object ent" "\<not> into_repo ent" by (cases l) (auto simp: into_repo_def ent)
  then show ?thesis
  proof cases
    case object
    then have "s' = s\<lparr>fs_changed_sysroot_objects := (fs_changed_sysroot_objects s)(entry_path e \<mapsto> e)\<rparr>" "te_type e = Regular"
      using assms(3) by (auto simp: filter_step_def repo_object_def ent Let_def entry_path_def [symmetric])
    then have "link_state config seen s'" using assms(5) by (auto simp: link_state_def)
    then show ?thesis using assms(4) object by (auto simp: copied_def)
  next
    case relink
    then have "te_type e = Link" "filter_relink B e (entry_path e) (path_components t) s = Inr s'"
      using assms(3) by (auto simp: filter_step_def into_repo_def ent Let_def entry_path_def [symmetric] root)
    from filter_relink_links [OF assms(1) this(1) v this(2) assms(5)] show ?thesis
      using assms(4) relink(1) by (auto simp: copied_def)
  next
    case other
    then have "filter_normal B config (fst ent) (entry_path (fst ent)) s = Inr s'"
      using assms(3)
      by (auto simp: filter_step_def into_repo_def repo_object_def ent Let_def entry_path_def [symmetric] root rbind_Inr_iff ok_or_Inr_iff
          split: if_splits)
    from filter_normal_links [OF assms(1,2) other(2,1) this assms(4,5)] show ?thesis .
  qed
qed

lemma filter_loop_links:
  assumes "faithful_builder B"
  shows "filter_loop B config (map Inr es) s = Inr s' \<Longrightarrow> \<forall>ent \<in> set es. valid_cpath (te_path (fst ent)) \<Longrightarrow>
    links_closed config seen es \<Longrightarrow> link_state config seen s \<Longrightarrow> links_found {} (fs_out s')"
proof (induction es arbitrary: seen s)
  case Nil
  then show ?case by (simp add: link_state_def)
next
  case (Cons ent es)
  obtain s1 where s1: "filter_step B config ent s = Inr s1" "filter_loop B config (map Inr es) s1 = Inr s'"
    using Cons.prems(1) by (auto simp: rbind_Inr_iff)
  from filter_step_links [OF assms _ s1(1) Cons.prems(3,4)] Cons.prems(2) obtain seen1 where
    "link_state config seen1 s1" "links_closed config seen1 es" by auto
  then show ?case using Cons.IH [OF s1(2)] Cons.prems(2) by simp
qed

text \<open>
  C13. Filtering keeps hard links intact: if in the source every hard link that is copied (one whose target, as written,
  is not in the embedded repository) names the
  path of an earlier copied entry, and none of them names a path in \<^verbatim>\<open>var\<close> when that moves to the factory directory, then in the
  result every hard link names the path of an earlier entry, the links written for those with a relative target in the
  embedded repository included. Links into a moved \<^verbatim>\<open>var\<close> and links with an absolute
  target in the repository are excluded by the hypothesis: they dangle or are lost.
\<close>

theorem filter_tar_links:
  assumes "faithful_builder B" and "\<forall>ent \<in> set es. valid_cpath (te_path (fst ent))" and "links_closed config {} es"
    and "filter_tar B config (map Inr es) = Inr (f, out)"
  shows "links_found {} out"
proof -
  have "link_state config {} filter_init" by (simp add: link_state_def filter_init_def)
  then show ?thesis
    using filter_loop_links [OF assms(1) _ assms(2,3)] assms(4) by (auto simp: filter_tar_def rbind_Inr_iff)
qed

section \<open>Examples\<close>

definition id_builder :: tar_builder where
  "id_builder = \<lparr>tb_path = Inr, tb_link = Inr\<rparr>"

definition usr_config :: tar_import_config where
  "usr_config = \<lparr>allow_nonusr = False, remap_factory_var = True\<rparr>"

definition demo_src :: "string list \<Rightarrow> entry_type \<Rightarrow> u64 \<Rightarrow> string option \<Rightarrow> src_entry" where
  "demo_src p t mtime l =
     (\<lparr>te_path = rel p, te_type = t, te_uid = 0, te_gid = 0, te_mode = 420, te_mtime = mtime, te_link = l, te_data = ''data'',
       te_pax = []\<rparr>, l)"

definition demo_layer :: "src_entry list" where
  "demo_layer =
     [demo_src [''usr'', ''bin'', ''a''] Regular 1 None, demo_src [''etc'', ''b''] Link 1 (Some ''usr/bin/a''),
      demo_src [''opt'', ''c''] Regular 1 None, demo_src [''run'', ''x''] Regular 1 None]"

definition repo_file :: src_entry where
  "repo_file = demo_src [''sysroot'', ''ostree'', ''repo'', ''objects'', ''f''] Regular 1 None"

definition repo_links :: "src_entry list" where
  "repo_links =
     [repo_file, demo_src [''usr'', ''k''] Link 1 (Some ''sysroot/ostree/repo/objects/f''),
      demo_src [''usr'', ''m''] Link 1 (Some ''sysroot/ostree/repo/objects/f'')]"

lemmas demo_defs = id_builder_def usr_config_def demo_src_def demo_layer_def repo_file_def repo_links_def

lemmas eval_filter = filter_step_def filter_normal_def filter_relink_def normalize_validate_path_def copy_entry_def builder_append_data_def
  builder_append_link_def strip_root_def REPO_PREFIX_def EXCLUDED_TOPLEVEL_PATHS_def starts_with_def filter_init_def lift_res_def filter_tar_def
  Let_def

lemma demo_targets:
  "path_components ''usr/bin/a'' = rel [''usr'', ''bin'', ''a'']"
  "path_components ''sysroot/ostree/repo/objects/f'' = rel [''sysroot'', ''ostree'', ''repo'', ''objects'', ''f'']"
  "path_components ''/sysroot/ostree/repo/objects/f'' = RootDir # rel [''sysroot'', ''ostree'', ''repo'', ''objects'', ''f'']"
  "path_components ''var/a'' = rel [''var'', ''a'']"
  by code_simp+

lemma demo_norm:
  "normalize_spec usr_config (rel [''usr'', ''bin'', ''a'']) = Inr (NormalPath (CurDir # rel [''usr'', ''bin'', ''a'']))"
  "normalize_spec usr_config (rel [''etc'', ''b'']) = Inr (NormalPath (CurDir # rel [''usr'', ''etc'', ''b'']))"
  "normalize_spec usr_config (rel [''opt'', ''c'']) = Inr (Filtered ''opt'')"
  "normalize_spec usr_config (rel [''run'', ''x'']) = Inr (Filtered ''x'')"
  by (simp_all add: normalize_spec_def path_body_def usr_config_def placed_def EXCLUDED_TOPLEVEL_PATHS_def)


theorem filter_tar_links_witness:
  "\<exists>f k m. filter_tar id_builder usr_config (map Inr repo_links) = Inr (f, [k, m]) \<and> links_found {} [k, m]
     \<and> te_type k = Regular \<and> te_type m = Link"
proof -
  have run: "filter_tar id_builder usr_config (map Inr repo_links) =
      Inr ([], [(fst repo_file)\<lparr>te_path := rel [''usr'', ''k'']\<rparr>, (fst (repo_links ! 2))\<lparr>te_link := Some ''usr/k''\<rparr>])"
    by (simp add: eval_filter demo_defs demo_targets collect_path_def path_join_def path_absolute_def path_sep_def)
  have f: "faithful_builder id_builder" by (simp add: faithful_builder_def id_builder_def)
  have v: "\<forall>ent \<in> set repo_links. valid_cpath (te_path (fst ent))"
    by (simp add: demo_defs valid_cpath_def seg_ok_def is_name_def path_sep_def)
  have c: "links_closed usr_config {} repo_links"
    by (simp add: demo_defs copied_def into_repo_def repo_object_def entry_path_def strip_root_def starts_with_def REPO_PREFIX_def demo_targets)
  note l = filter_tar_links [OF f v c run]
  show ?thesis by (intro exI conjI) (rule run, rule l, simp_all add: demo_defs)
qed

text \<open>
  A hard link below \<^verbatim>\<open>etc\<close> into the repository is written where it is, not below \<^verbatim>\<open>usr/etc\<close>, and the extended
  attributes of the file are lost.
\<close>

lemma relink_raw_path:
  "filter_tar id_builder usr_config
     (map Inr [((fst repo_file)\<lparr>te_pax := [(''SCHILY.xattr.security.capability'', ''c'')]\<rparr>, None),
               demo_src [''etc'', ''k''] Link 1 (Some ''sysroot/ostree/repo/objects/f'')]) =
   Inr ([], [(fst repo_file)\<lparr>te_path := rel [''etc'', ''k'']\<rparr>])"
  by (simp add: eval_filter demo_defs demo_targets)

text \<open>A link to the same object by its absolute name is not recognised: the file is lost and the link dangles.\<close>

lemma absolute_link_lost:
  "filter_tar id_builder usr_config (map Inr [repo_file, demo_src [''usr'', ''k''] Link 1 (Some ''/sysroot/ostree/repo/objects/f'')]) =
   Inr ([], [(fst (demo_src [''usr'', ''k''] Link 1 (Some ''/sysroot/ostree/repo/objects/f'')))\<lparr>te_path := CurDir # rel [''usr'', ''k'']\<rparr>])"
  by (simp add: eval_filter demo_defs demo_targets remap_etc_path_def)

text \<open>A hard link within \<^verbatim>\<open>var\<close> dangles when \<^verbatim>\<open>var\<close> moves: its path is moved and its target is not.\<close>

lemma var_link_dangles:
  "\<exists>f a b. filter_tar id_builder usr_config (map Inr [demo_src [''var'', ''a''] Regular 1 None, demo_src [''var'', ''b''] Link 1 (Some ''var/a'')])
     = Inr (f, [a, b]) \<and> \<not> links_found {} [a, b]"
  by (simp add: eval_filter demo_defs demo_targets remap_etc_path_def link_target_def path_body_def)

end
