(* ===== verification/Install_Config.thy ===== *)
theory Install_Config
  imports BLS_Config
begin

text \<open>
  Configuration of \<^verbatim>\<open>bootc install\<close> (\<^verbatim>\<open>crates/lib/src/install/config.rs\<close>): the drop-in files are read in
  the order of their names, merged field by field and brought into canonical form.

  The file system search (\<^verbatim>\<open>liboverdrop\<close>), reading a file and the TOML deserializer are outside the
  sources: a fragment is what they give, an error or the deserialized structure. The feature
  \<^verbatim>\<open>install-to-disk\<close>, on by default, is on. Each structure has one \<^verbatim>\<open>merge\<close>; the locale \<^verbatim>\<open>merge_hom\<close>
  states how a merge acts on one field and carries that over to a sequence of merges.
\<close>

section \<open>Data\<close>

datatype filesystem = Xfs | Ext4 | Btrfs

fun filesystem_display :: "filesystem \<Rightarrow> string" where
  "filesystem_display Xfs = ''xfs''"
| "filesystem_display Ext4 = ''ext4''"
| "filesystem_display Btrfs = ''btrfs''"

definition filesystem_try_from :: "string \<Rightarrow> filesystem res" where
  "filesystem_try_from value =
     (if value = ''xfs'' then Inr Xfs
      else if value = ''ext4'' then Inr Ext4
      else if value = ''btrfs'' then Inr Btrfs
      else Inl ''Unknown filesystem'')"

definition supports_fsverity :: "filesystem \<Rightarrow> bool" where
  "supports_fsverity fs = (fs \<in> {Ext4, Btrfs})"

datatype block_setup = Direct | Tpm2Luks

fun requires_bootpart :: "block_setup \<Rightarrow> bool" where
  "requires_bootpart Direct = False"
| "requires_bootpart Tpm2Luks = True"

record env_properties =
  sys_arch :: string

record root_fs =
  fstype :: "filesystem option"

record basic_filesystems =
  root :: "root_fs option"

record ostree_repo_opts =
  bls_append_except_default :: "string option"

record bootupd_opts =
  skip_boot_uuid :: "bool option"

record install_configuration =
  root_fs_type :: "filesystem option"
  block :: "block_setup list option"
  filesystem :: "basic_filesystems option"
  kargs :: "string list option"
  karg_deletes :: "string list option"
  match_architectures :: "string list option"
  ostree :: "ostree_repo_opts option"
  stateroot :: "string option"
  root_mount_spec :: "string option"
  boot_mount_spec :: "string option"
  bootupd :: "bootupd_opts option"
  ic_bootloader :: "bootloader option"
  discoverable_partitions :: "bool option"
  enforce_container_sigpolicy :: "bool option"

record install_configuration_toplevel =
  install :: "install_configuration option"

section \<open>Merging\<close>

definition merge_basic :: "'a option \<Rightarrow> 'a option \<Rightarrow> 'a option" where
  "merge_basic s x = (case x of Some v \<Rightarrow> Some v | None \<Rightarrow> s)"

definition merge_option :: "('a \<Rightarrow> 'a \<Rightarrow> 'a) \<Rightarrow> 'a option \<Rightarrow> 'a option \<Rightarrow> 'a option" where
  "merge_option merge s x =
     (case x of
        None \<Rightarrow> s
      | Some other \<Rightarrow> (case s of Some v \<Rightarrow> Some (merge v other) | None \<Rightarrow> Some other))"

definition merge_root_fs :: "root_fs \<Rightarrow> root_fs \<Rightarrow> root_fs" where
  "merge_root_fs s other = s\<lparr>fstype := merge_basic (fstype s) (fstype other)\<rparr>"

definition merge_basic_filesystems :: "basic_filesystems \<Rightarrow> basic_filesystems \<Rightarrow> basic_filesystems" where
  "merge_basic_filesystems s other = s\<lparr>root := merge_option merge_root_fs (root s) (root other)\<rparr>"

definition merge_ostree_repo_opts :: "ostree_repo_opts \<Rightarrow> ostree_repo_opts \<Rightarrow> ostree_repo_opts" where
  "merge_ostree_repo_opts s other =
     s\<lparr>bls_append_except_default := merge_basic (bls_append_except_default s) (bls_append_except_default other)\<rparr>"

definition merge_bootupd :: "bootupd_opts \<Rightarrow> bootupd_opts \<Rightarrow> bootupd_opts" where
  "merge_bootupd s other = s\<lparr>skip_boot_uuid := merge_basic (skip_boot_uuid s) (skip_boot_uuid other)\<rparr>"

text \<open>\<^verbatim>\<open>get_or_insert_with(Default::default).extend(other)\<close>, when the other list is given.\<close>

definition extend_opt :: "'a list option \<Rightarrow> 'a list option \<Rightarrow> 'a list option" where
  "extend_opt s x = (case x of None \<Rightarrow> s | Some ys \<Rightarrow> Some (case_option [] id s @ ys))"

definition arch_matches :: "env_properties \<Rightarrow> install_configuration \<Rightarrow> bool" where
  "arch_matches env c = (case match_architectures c of None \<Rightarrow> True | Some a \<Rightarrow> sys_arch env \<in> set a)"

definition merge_install :: "env_properties \<Rightarrow> install_configuration \<Rightarrow> install_configuration \<Rightarrow> install_configuration" where
  "merge_install env s other =
     (if arch_matches env other then
        s\<lparr>root_fs_type := merge_basic (root_fs_type s) (root_fs_type other),
          block := merge_basic (block s) (block other),
          filesystem := merge_option merge_basic_filesystems (filesystem s) (filesystem other),
          ostree := merge_option merge_ostree_repo_opts (ostree s) (ostree other),
          stateroot := merge_basic (stateroot s) (stateroot other),
          root_mount_spec := merge_basic (root_mount_spec s) (root_mount_spec other),
          boot_mount_spec := merge_basic (boot_mount_spec s) (boot_mount_spec other),
          bootupd := merge_option merge_bootupd (bootupd s) (bootupd other),
          ic_bootloader := merge_basic (ic_bootloader s) (ic_bootloader other),
          discoverable_partitions := merge_basic (discoverable_partitions s) (discoverable_partitions other),
          enforce_container_sigpolicy :=
            merge_basic (enforce_container_sigpolicy s) (enforce_container_sigpolicy other),
          kargs := extend_opt (kargs s) (kargs other),
          karg_deletes := extend_opt (karg_deletes s) (karg_deletes other)\<rparr>
      else s)"

section \<open>The installed configuration\<close>

definition filesystem_root :: "install_configuration \<Rightarrow> root_fs option" where
  "filesystem_root c = Option.bind (filesystem c) root"

definition canonicalize_config :: "install_configuration \<Rightarrow> install_configuration" where
  "canonicalize_config c =
     (let c = (case Option.bind (filesystem_root c) fstype of
                 Some rootfs_type \<Rightarrow> c\<lparr>root_fs_type := Some rootfs_type\<rparr>
               | None \<Rightarrow>
                   (case root_fs_type c of
                      None \<Rightarrow> c
                    | Some rootfs \<Rightarrow>
                        (let fs = case_option \<lparr>root = None\<rparr> id (filesystem c);
                             r = case_option \<lparr>fstype = None\<rparr> id (root fs)
                         in c\<lparr>filesystem := Some (fs\<lparr>root := Some (r\<lparr>fstype := Some rootfs\<rparr>)\<rparr>)\<rparr>)))
      in if block c = None then c\<lparr>block := Some [Direct]\<rparr> else c)"

definition filter_to_external :: "install_configuration \<Rightarrow> install_configuration" where
  "filter_to_external c = c\<lparr>kargs := None, karg_deletes := None\<rparr>"

definition get_block_setup :: "install_configuration \<Rightarrow> block_setup option \<Rightarrow> block_setup res" where
  "get_block_setup c dflt =
     (let valid_block_setups = case_option [] id (block c) in
      case valid_block_setups of
        [] \<Rightarrow> Inl ''Empty block storage configuration in install configuration''
      | default_block # _ \<Rightarrow>
          (let setup = case_option default_block id dflt in
           if setup \<notin> set valid_block_setups
           then Inl ''Block setup is not enabled in installation config''
           else Inr setup))"

fun load_fragments ::
  "env_properties \<Rightarrow> install_configuration option \<Rightarrow> install_configuration_toplevel res list
    \<Rightarrow> install_configuration option res" where
  "load_fragments env config [] = Inr config"
| "load_fragments env config (fragment # rest) =
     rbind fragment (\<lambda>c.
       load_fragments env
         (case config of
            Some s \<Rightarrow> (case install c of Some i \<Rightarrow> Some (merge_install env s i) | None \<Rightarrow> Some s)
          | None \<Rightarrow>
              (case install c of
                 Some i \<Rightarrow> if arch_matches env i then Some i else None
               | None \<Rightarrow> None))
         rest)"

definition load_config :: "env_properties \<Rightarrow> install_configuration_toplevel res list \<Rightarrow> install_configuration option res" where
  "load_config env fragments =
     rbind (load_fragments env None fragments) (\<lambda>config. Inr (map_option canonicalize_config config))"

section \<open>What a sequence of merges does to a field\<close>

text \<open>
  A merge that acts on one field, seen through an accessor, as a binary operation of its own, for the
  configurations that apply.
\<close>

locale merge_hom =
  fixes applies :: "'c \<Rightarrow> bool"
    and merge :: "'c \<Rightarrow> 'c \<Rightarrow> 'c"
    and get :: "'c \<Rightarrow> 'v option"
    and comb :: "'v option \<Rightarrow> 'v option \<Rightarrow> 'v option"
  assumes get_merge: "applies x \<Longrightarrow> get (merge s x) = comb (get s) (get x)"
    and comb_None: "comb v None = v" "comb None v = v"
begin

lemma get_foldl: "list_all applies xs \<Longrightarrow> get (foldl merge s xs) = foldl comb (get s) (map get xs)"
  by (induction xs arbitrary: s) (simp_all add: get_merge)

lemma get_bind:
  "pred_option applies x \<Longrightarrow>
    Option.bind (merge_option merge s x) get = comb (Option.bind s get) (Option.bind x get)"
  by (cases s; cases x) (simp_all add: merge_option_def get_merge comb_None)

end

text \<open>A field of which the last value given counts, and one whose values are concatenated.\<close>

locale overriding = merge_hom applies merge get merge_basic
  for applies :: "'c \<Rightarrow> bool" and merge :: "'c \<Rightarrow> 'c \<Rightarrow> 'c" and get :: "'c \<Rightarrow> 'v option"

locale extending = merge_hom applies merge get extend_opt
  for applies :: "'c \<Rightarrow> bool" and merge :: "'c \<Rightarrow> 'c \<Rightarrow> 'c" and get :: "'c \<Rightarrow> 'v list option"

definition last_given :: "('c \<Rightarrow> 'v option) \<Rightarrow> 'c list \<Rightarrow> 'v option" where
  "last_given get cs = (let vs = List.map_filter get cs in if vs = [] then None else Some (last vs))"

definition all_given :: "('c \<Rightarrow> 'v list option) \<Rightarrow> 'c list \<Rightarrow> 'v list option" where
  "all_given get cs = (if \<forall>c \<in> set cs. get c = None then None else Some (concat (map (case_option [] id \<circ> get) cs)))"

lemma merge_basic_None [simp]: "merge_basic s None = s" "merge_basic None x = x"
  by (auto simp: merge_basic_def split: option.split)

lemma extend_opt_None [simp]: "extend_opt s None = s" "extend_opt None x = x"
  by (auto simp: extend_opt_def split: option.split)

lemma merge_basic_Some [simp]: "merge_basic s (Some v) = Some v"
  by (simp add: merge_basic_def)

lemma foldl_extend_opt: "foldl extend_opt s (map get cs) = extend_opt s (all_given get cs)"
proof (induction cs arbitrary: s)
  case (Cons c cs)
  then show ?case
    by (cases "get c"; cases s) (auto simp: all_given_def extend_opt_def)
qed (simp add: all_given_def)

lemma foldl_merge_basic: "foldl merge_basic s (map get cs) = merge_basic s (last_given get cs)"
  by (induction cs arbitrary: s)
     (auto simp: last_given_def map_filter_simps Let_def merge_basic_def split: option.splits)

context overriding
begin

lemma get_fold: "list_all applies xs \<Longrightarrow> get (foldl merge s xs) = last_given get (s # xs)"
  using foldl_merge_basic [of None get "s # xs"] by (simp add: get_foldl)

end

context extending
begin

lemma get_fold: "list_all applies xs \<Longrightarrow> get (foldl merge s xs) = all_given get (s # xs)"
  using foldl_extend_opt [of None get "s # xs"] by (simp add: get_foldl)

end

section \<open>The fields of the model\<close>

text \<open>The parts of the configuration merge value by value.\<close>

interpretation rootfs: overriding "\<lambda>_. True" merge_root_fs fstype
  by unfold_locales (simp_all add: merge_root_fs_def)

interpretation basicfs: overriding "\<lambda>_. True" merge_basic_filesystems "\<lambda>fs. Option.bind (root fs) fstype"
  by unfold_locales (simp_all add: merge_basic_filesystems_def rootfs.get_bind option.pred_True)

interpretation repoopts: overriding "\<lambda>_. True" merge_ostree_repo_opts bls_append_except_default
  by unfold_locales (simp_all add: merge_ostree_repo_opts_def)

interpretation bootupd: overriding "\<lambda>_. True" merge_bootupd skip_boot_uuid
  by unfold_locales (simp_all add: merge_bootupd_def)

text \<open>The values of the parts, as fields of the whole configuration.\<close>

definition fs_root_type :: "install_configuration \<Rightarrow> filesystem option" where
  "fs_root_type c = Option.bind (filesystem_root c) fstype"

definition ostree_append :: "install_configuration \<Rightarrow> string option" where
  "ostree_append c = Option.bind (ostree c) bls_append_except_default"

definition bootupd_skip :: "install_configuration \<Rightarrow> bool option" where
  "bootupd_skip c = Option.bind (bootupd c) skip_boot_uuid"

lemma fs_root_type_bind: "fs_root_type c = Option.bind (filesystem c) (\<lambda>fs. Option.bind (root fs) fstype)"
  by (simp add: fs_root_type_def filesystem_root_def bind_assoc)

interpretation fs_root: overriding "arch_matches env" "merge_install env" fs_root_type for env
  by unfold_locales (simp_all add: merge_install_def fs_root_type_bind basicfs.get_bind option.pred_True)

interpretation append_ex: overriding "arch_matches env" "merge_install env" ostree_append for env
  by unfold_locales (simp_all add: merge_install_def ostree_append_def repoopts.get_bind option.pred_True)

interpretation skip_uuid: overriding "arch_matches env" "merge_install env" bootupd_skip for env
  by unfold_locales (simp_all add: merge_install_def bootupd_skip_def bootupd.get_bind option.pred_True)

interpretation fs_type: overriding "arch_matches env" "merge_install env" root_fs_type for env
  by unfold_locales (simp_all add: merge_install_def)

interpretation blocks: overriding "arch_matches env" "merge_install env" block for env
  by unfold_locales (simp_all add: merge_install_def)

interpretation state_root: overriding "arch_matches env" "merge_install env" stateroot for env
  by unfold_locales (simp_all add: merge_install_def)

interpretation root_spec: overriding "arch_matches env" "merge_install env" root_mount_spec for env
  by unfold_locales (simp_all add: merge_install_def)

interpretation boot_spec: overriding "arch_matches env" "merge_install env" boot_mount_spec for env
  by unfold_locales (simp_all add: merge_install_def)

interpretation boot_loader: overriding "arch_matches env" "merge_install env" ic_bootloader for env
  by unfold_locales (simp_all add: merge_install_def)

interpretation discoverable: overriding "arch_matches env" "merge_install env" discoverable_partitions for env
  by unfold_locales (simp_all add: merge_install_def)

interpretation sigpolicy: overriding "arch_matches env" "merge_install env" enforce_container_sigpolicy for env
  by unfold_locales (simp_all add: merge_install_def)

interpretation added_kargs: extending "arch_matches env" "merge_install env" kargs for env
  by unfold_locales (simp_all add: merge_install_def)

interpretation deleted_kargs: extending "arch_matches env" "merge_install env" karg_deletes for env
  by unfold_locales (simp_all add: merge_install_def)

lemmas fields_fold =
  fs_root.get_fold append_ex.get_fold skip_uuid.get_fold fs_type.get_fold blocks.get_fold
  state_root.get_fold root_spec.get_fold boot_spec.get_fold boot_loader.get_fold
  discoverable.get_fold sigpolicy.get_fold added_kargs.get_fold deleted_kargs.get_fold

section \<open>Loading\<close>

definition applicable :: "env_properties \<Rightarrow> install_configuration_toplevel list \<Rightarrow> install_configuration list" where
  "applicable env tops = filter (arch_matches env) (List.map_filter install tops)"

lemma merge_install_skip: "\<not> arch_matches env x \<Longrightarrow> merge_install env s x = s"
  by (simp add: merge_install_def)

lemma load_fragments_Some:
  "load_fragments env (Some s) frags =
    rbind (collect_res frags) (\<lambda>tops. Inr (Some (foldl (merge_install env) s (applicable env tops))))"
proof (induction frags arbitrary: s)
  case (Cons f frags)
  show ?case
  proof (cases f)
    case (Inr c)
    then show ?thesis
      by (cases "collect_res frags"; cases "install c")
         (simp_all add: Cons applicable_def map_filter_simps merge_install_skip)
  qed simp
qed (simp add: applicable_def map_filter_simps)

definition merge_all :: "env_properties \<Rightarrow> install_configuration list \<Rightarrow> install_configuration option" where
  "merge_all env cs = (case cs of [] \<Rightarrow> None | c # rest \<Rightarrow> Some (foldl (merge_install env) c rest))"

lemma load_fragments_None:
  "load_fragments env None frags = rbind (collect_res frags) (\<lambda>tops. Inr (merge_all env (applicable env tops)))"
proof (induction frags)
  case (Cons f frags)
  show ?case
  proof (cases f)
    case (Inr c)
    then show ?thesis
      by (cases "collect_res frags"; cases "install c")
         (simp_all add: Cons load_fragments_Some applicable_def map_filter_simps merge_all_def)
  qed simp
qed (simp add: applicable_def map_filter_simps merge_all_def)

lemma canonicalize_config_fields [simp]:
  "fs_root_type (canonicalize_config c) = merge_basic (root_fs_type c) (fs_root_type c)"
  "root_fs_type (canonicalize_config c) = merge_basic (root_fs_type c) (fs_root_type c)"
  "block (canonicalize_config c) = Some (case_option [Direct] id (block c))"
  "kargs (canonicalize_config c) = kargs c" "karg_deletes (canonicalize_config c) = karg_deletes c"
  "ostree_append (canonicalize_config c) = ostree_append c" "bootupd_skip (canonicalize_config c) = bootupd_skip c"
  "stateroot (canonicalize_config c) = stateroot c" "root_mount_spec (canonicalize_config c) = root_mount_spec c"
  "boot_mount_spec (canonicalize_config c) = boot_mount_spec c" "ic_bootloader (canonicalize_config c) = ic_bootloader c"
  "discoverable_partitions (canonicalize_config c) = discoverable_partitions c"
  "enforce_container_sigpolicy (canonicalize_config c) = enforce_container_sigpolicy c"
  by (auto simp: canonicalize_config_def fs_root_type_def filesystem_root_def ostree_append_def bootupd_skip_def
      Let_def merge_basic_def split: option.splits)

text \<open>
  What the configuration is to be: of every value the one the last applicable file gives; the
  arguments of all of them; of the two names of the root file system type the newer one first, and
  both set alike; a storage setup in any case.
\<close>

definition config_of :: "install_configuration list \<Rightarrow> install_configuration \<Rightarrow> bool" where
  "config_of cs cfg =
     ((let fs = (case last_given fs_root_type cs of Some t \<Rightarrow> Some t | None \<Rightarrow> last_given root_fs_type cs)
       in root_fs_type cfg = fs \<and> fs_root_type cfg = fs)
      \<and> block cfg = Some (case last_given block cs of Some bs \<Rightarrow> bs | None \<Rightarrow> [Direct])
      \<and> kargs cfg = all_given kargs cs \<and> karg_deletes cfg = all_given karg_deletes cs
      \<and> ostree_append cfg = last_given ostree_append cs \<and> bootupd_skip cfg = last_given bootupd_skip cs
      \<and> stateroot cfg = last_given stateroot cs
      \<and> root_mount_spec cfg = last_given root_mount_spec cs
      \<and> boot_mount_spec cfg = last_given boot_mount_spec cs
      \<and> ic_bootloader cfg = last_given ic_bootloader cs
      \<and> discoverable_partitions cfg = last_given discoverable_partitions cs
      \<and> enforce_container_sigpolicy cfg = last_given enforce_container_sigpolicy cs)"

lemma merge_all_config_of:
  assumes "list_all (arch_matches env) (c # cs)"
  shows "config_of (c # cs) (canonicalize_config (foldl (merge_install env) c cs))"
proof -
  have "list_all (arch_matches env) cs" using assms by simp
  note fold = fields_fold [OF this]
  show ?thesis
    by (simp add: config_of_def fold merge_basic_def split: option.split)
qed

lemma list_all_applicable: "list_all (arch_matches env) (applicable env tops)"
  by (simp add: applicable_def list_all_iff)


text \<open>
  A later file that sets the root file system type under its older name does not override an earlier
  one that uses the newer name.
\<close>

definition no_config :: install_configuration where
  "no_config = \<lparr>root_fs_type = None, block = None, filesystem = None, kargs = None, karg_deletes = None,
     match_architectures = None, ostree = None, stateroot = None, root_mount_spec = None,
     boot_mount_spec = None, bootupd = None, ic_bootloader = None, discoverable_partitions = None,
     enforce_container_sigpolicy = None\<rparr>"

lemma older_name_does_not_override:
  "map_sum id (map_option root_fs_type)
     (load_config \<lparr>sys_arch = ''x86_64''\<rparr>
        [Inr \<lparr>install = Some (no_config\<lparr>filesystem := Some \<lparr>root = Some \<lparr>fstype = Some Xfs\<rparr>\<rparr>\<rparr>)\<rparr>,
         Inr \<lparr>install = Some (no_config\<lparr>root_fs_type := Some Ext4\<rparr>)\<rparr>]) = Inr (Some (Some Xfs))"
  by code_simp

section \<open>The storage setup\<close>

lemma get_block_setup_Inr_iff:
  "get_block_setup c dflt = Inr b \<longleftrightarrow>
    (\<exists>bs. block c = Some bs \<and> bs \<noteq> [] \<and> b \<in> set bs \<and> b = (case dflt of Some d \<Rightarrow> d | None \<Rightarrow> hd bs))"
  by (auto simp: get_block_setup_def Let_def split: option.splits list.splits if_splits)

lemma filesystem_try_from_Inr: "filesystem_try_from s = Inr fs \<longleftrightarrow> s = filesystem_display fs"
  by (cases fs) (auto simp: filesystem_try_from_def)

interpretation fs_name: codec "\<lambda>_. True" filesystem_display filesystem_try_from
  by unfold_locales (simp add: filesystem_try_from_Inr)

end
