(* ===== verification/Block_Dev.thy ===== *)
theory Block_Dev
  imports Rust_Path Rust_Word
begin

text \<open>
  Block devices (\<^verbatim>\<open>crates/blockdev/src/blockdev.rs\<close>): the tree of devices that \<^verbatim>\<open>lsblk\<close> prints, the
  search for the EFI system partition, for the disks that back a device and for partitions by number,
  and the size syntax of the command line.

  The programs \<^verbatim>\<open>lsblk\<close>, \<^verbatim>\<open>blkid\<close>, \<^verbatim>\<open>zpool\<close> and \<^verbatim>\<open>findmnt\<close> and the files below \<^verbatim>\<open>/sys\<close> are a record of
  what the code reads from them. The arithmetic wraps around, as in a release build.
\<close>

section \<open>Data\<close>

record dev_info =
  dev_name :: string
  dev_serial :: "string option"
  dev_model :: "string option"
  dev_partlabel :: "string option"
  dev_parttype :: "string option"
  dev_partuuid :: "string option"
  dev_partn :: "u32 option"
  dev_size :: u64
  dev_maj_min :: "string option"
  dev_start :: "u64 option"
  dev_label :: "string option"
  dev_fstype :: "string option"
  dev_uuid :: "string option"
  dev_path :: "string option"
  dev_pttype :: "string option"
  dev_ro :: "bool option"

datatype device = Device (info: dev_info) (children: "device list option")

record fs_info =
  fsi_source :: string
  fsi_fstype :: string

text \<open>
  \<^verbatim>\<open>bd_sysfs majmin property\<close> is the content of \<^verbatim>\<open>/sys/dev/block/majmin/property\<close>, nothing when there
  is no such file. \<^verbatim>\<open>bd_partition name\<close> and \<^verbatim>\<open>bd_dm_uuid name\<close> are those of \<^verbatim>\<open>/sys/class/block/name/partition\<close> and
  \<^verbatim>\<open>/sys/class/block/name/dm/uuid\<close>. \<^verbatim>\<open>bd_blkid\<close> gives the exit code and the output.
\<close>

record bd_env =
  bd_lsblk :: "string \<Rightarrow> device list res"
  bd_lsblk_inverse :: "string \<Rightarrow> device list res"
  bd_sysfs :: "string \<Rightarrow> string \<Rightarrow> string option res"
  bd_have_udev :: bool
  bd_blkid :: "string \<Rightarrow> (nat option \<times> string) res"
  bd_zpool :: "string \<Rightarrow> string res"
  bd_canonicalize :: "string \<Rightarrow> string res"
  bd_partition :: "string \<Rightarrow> string res option"
  bd_dm_uuid :: "string \<Rightarrow> string res option"

definition ESP :: string where "ESP = ''c12a7328-f81f-11d2-ba4b-00a0c93ec93b''"

definition BIOS_BOOT :: string where "BIOS_BOOT = ''21686148-6449-6e6f-744e-656564454649''"

definition ESP_ID_MBR :: "nat list" where "ESP_ID_MBR = [6, 239]"

section \<open>Text\<close>

definition ascii_lower :: "char \<Rightarrow> char" where
  "ascii_lower c = (if CHR ''A'' \<le> c \<and> c \<le> CHR ''Z'' then char_of ((of_char c :: nat) + 32) else c)"

definition eq_ignore_ascii_case :: "string \<Rightarrow> string \<Rightarrow> bool" where
  "eq_ignore_ascii_case a b = (map ascii_lower a = map ascii_lower b)"

text \<open>\<^verbatim>\<open>u8::from_str_radix(s, 16)\<close>: an optional plus sign and hexadecimal digits of a value below 256.\<close>

definition hex_digit_val :: "char \<Rightarrow> nat option" where
  "hex_digit_val c =
     (let n = (of_char c :: nat) in
      if 48 \<le> n \<and> n \<le> 57 then Some (n - 48)
      else if 97 \<le> n \<and> n \<le> 102 then Some (n - 87)
      else if 65 \<le> n \<and> n \<le> 70 then Some (n - 55)
      else None)"

fun hex_digits :: "nat \<Rightarrow> string \<Rightarrow> nat option" where
  "hex_digits acc [] = Some acc"
| "hex_digits acc (c # cs) =
     (case hex_digit_val c of
        None \<Rightarrow> None
      | Some v \<Rightarrow> if 256 \<le> acc * 16 + v then None else hex_digits (acc * 16 + v) cs)"

definition u8_from_hex :: "string \<Rightarrow> nat option" where
  "u8_from_hex s =
     (let ds = (case s of [] \<Rightarrow> [] | c # cs \<Rightarrow> if c = CHR ''+'' then cs else s)
      in if ds = [] then None else hex_digits 0 ds)"

text \<open>\<^verbatim>\<open>u64::from_str\<close>.\<close>

definition parse_u64 :: "string \<Rightarrow> u64 option" where
  "parse_u64 s =
     (let ds = (case s of [] \<Rightarrow> [] | c # cs \<Rightarrow> if c = CHR ''+'' then cs else s)
      in if ds = [] \<or> \<not> list_all is_ascii_digit ds \<or> 2 ^ 64 \<le> dec_value ds then None
         else Some (of_nat (dec_value ds)))"

text \<open>\<^verbatim>\<open>str::rsplit_once\<close> with a string as the separator: the last place where it occurs.\<close>

fun rsplit_once_str :: "string \<Rightarrow> string \<Rightarrow> (string \<times> string) option" where
  "rsplit_once_str p [] = (if p = [] then Some ([], []) else None)"
| "rsplit_once_str p (c # s) =
     (case rsplit_once_str p s of
        Some (a, b) \<Rightarrow> Some (c # a, b)
      | None \<Rightarrow> map_option (\<lambda>r. ([], r)) (strip_prefix p (c # s)))"

section \<open>One device\<close>

definition device_path :: "device \<Rightarrow> string" where
  "device_path d = (case dev_path (info d) of Some p \<Rightarrow> p | None \<Rightarrow> ''/dev/'' @ dev_name (info d))"

definition has_children :: "device \<Rightarrow> bool" where
  "has_children d = (case children d of Some v \<Rightarrow> v \<noteq> [] | None \<Rightarrow> False)"

definition find_partition_of_type :: "device \<Rightarrow> string \<Rightarrow> device option" where
  "find_partition_of_type d parttype =
     Option.bind (children d)
       (find (\<lambda>child. case dev_parttype (info child) of Some pt \<Rightarrow> eq_ignore_ascii_case pt parttype | None \<Rightarrow> False))"

definition find_partition_of_bios_boot :: "device \<Rightarrow> device option" where
  "find_partition_of_bios_boot d = find_partition_of_type d BIOS_BOOT"

definition mbr_esp :: "device \<Rightarrow> bool" where
  "mbr_esp child =
     (case Option.bind (dev_parttype (info child))
             (\<lambda>pt. u8_from_hex (case strip_prefix ''0x'' pt of Some r \<Rightarrow> r | None \<Rightarrow> pt)) of
        Some v \<Rightarrow> v \<in> set ESP_ID_MBR
      | None \<Rightarrow> False)"

text \<open>The match on the partition table type, for a device with children.\<close>

definition direct_esp :: "device \<Rightarrow> device option res" where
  "direct_esp d =
     (case dev_pttype (info d) of
        None \<Rightarrow> Inr (find_partition_of_type d ESP)
      | Some t \<Rightarrow>
          if t = ''dos'' then Inr (Option.bind (children d) (find mbr_esp))
          else if t = ''gpt'' then Inr (find_partition_of_type d ESP)
          else Inl ''Unsupported partition table type'')"

fun find_partition_of_esp_optional :: "device \<Rightarrow> device option res"
  and find_esp_among :: "device list \<Rightarrow> device option res" where
  "find_partition_of_esp_optional (Device i cs) =
     (case cs of
        None \<Rightarrow> Inr None
      | Some ds \<Rightarrow>
          rbind (direct_esp (Device i cs)) (\<lambda>direct.
            if direct \<noteq> None then Inr direct else find_esp_among ds))"
| "find_esp_among [] = Inr None"
| "find_esp_among (child # rest) =
     (if dev_pttype (info child) \<noteq> None then
        rbind (find_partition_of_esp_optional child) (\<lambda>r.
          case r of Some esp \<Rightarrow> Inr (Some esp) | None \<Rightarrow> find_esp_among rest)
      else find_esp_among rest)"

definition find_partition_of_esp :: "device \<Rightarrow> device res" where
  "find_partition_of_esp d =
     rbind (find_partition_of_esp_optional d) (ok_or ''ESP partition not found'')"

definition find_device_by_partno :: "device \<Rightarrow> u32 \<Rightarrow> device res" where
  "find_device_by_partno d partno =
     rbind (ok_or ''Device has no children'' (children d)) (\<lambda>cs.
       ok_or ''Missing partition for index'' (find (\<lambda>child. dev_partn (info child) = Some partno) cs))"

definition is_mpath :: "bd_env \<Rightarrow> device \<Rightarrow> bool res" where
  "is_mpath E d =
     rbind (bd_canonicalize E (device_path d)) (\<lambda>dm_path.
       let dm_name = (case path_file_name dm_path of Some n \<Rightarrow> n | None \<Rightarrow> []) in
       case bd_dm_uuid E dm_name of
         None \<Rightarrow> Inr False
       | Some r \<Rightarrow> rbind r (\<lambda>uuid. Inr (starts_with ''mpath-'' (trim_start uuid))))"

definition parse_partition_number_from_suffix :: "string \<Rightarrow> string \<Rightarrow> string option" where
  "parse_partition_number_from_suffix parent_path esp_path =
     Option.bind (strip_prefix parent_path esp_path) (\<lambda>suffix.
       let digits = dropWhile (\<lambda>c. \<not> is_ascii_digit c) suffix in
       if digits = [] then None else Some digits)"

definition get_esp_partition_number :: "bd_env \<Rightarrow> device \<Rightarrow> string res" where
  "get_esp_partition_number E d =
     rbind (find_partition_of_esp d) (\<lambda>esp_device.
       case bd_partition E (dev_name (info esp_device)) of
         Some r \<Rightarrow> r
       | None \<Rightarrow>
           rbind (is_mpath E d) (\<lambda>mpath.
             if \<not> mpath then Inl ''Not supported''
             else (case dev_partn (info esp_device) of
                     Some partn \<Rightarrow> Inr (show_u32 partn)
                   | None \<Rightarrow>
                       ok_or ''Not supported''
                         (parse_partition_number_from_suffix (device_path d) (device_path esp_device)))))"

section \<open>Filling in what \<^verbatim>\<open>lsblk\<close> leaves out\<close>

definition read_sysfs_property :: "bd_env \<Rightarrow> dev_info \<Rightarrow> string \<Rightarrow> (string \<Rightarrow> 'a option) \<Rightarrow> 'a option res" where
  "read_sysfs_property E i property parse =
     (case dev_maj_min i of
        None \<Rightarrow> Inr None
      | Some majmin \<Rightarrow>
          rbind (bd_sysfs E majmin property) (\<lambda>content.
            case content of
              None \<Rightarrow> Inr None
            | Some v \<Rightarrow> rbind (ok_or ''Parsing sysfs property'' (parse (trim v))) (\<lambda>x. Inr (Some x))))"

definition blkid_probe :: "bd_env \<Rightarrow> string \<Rightarrow> (string \<rightharpoonup> string) res" where
  "blkid_probe E dev =
     rbind (bd_blkid E dev) (\<lambda>(code, stdout).
       if code \<noteq> Some 0 then
         (if code = Some 2 then Inr Map.empty else Inl ''blkid -p failed'')
       else
         Inr (fold (\<lambda>line props. case split_once (CHR ''='') line of
                      Some (key, value) \<Rightarrow> props(key \<mapsto> value)
                    | None \<Rightarrow> props) (str_lines stdout) Map.empty))"

definition backfill_info :: "bd_env \<Rightarrow> dev_info \<Rightarrow> dev_info res" where
  "backfill_info E i =
     rbind (if dev_start i = None
            then rbind (read_sysfs_property E i ''start'' parse_u64) (\<lambda>v. Inr (i\<lparr>dev_start := v\<rparr>))
            else Inr i) (\<lambda>i.
     rbind (if dev_partn i = None
            then rbind (read_sysfs_property E i ''partition'' parse_u32) (\<lambda>v. Inr (i\<lparr>dev_partn := v\<rparr>))
            else Inr i) (\<lambda>i.
       if \<not> bd_have_udev E \<and> (dev_parttype i = None \<or> dev_pttype i = None) then
         rbind (blkid_probe E (device_path (Device i None))) (\<lambda>props.
           let i = (if dev_parttype i = None then i\<lparr>dev_parttype := props ''PART_ENTRY_TYPE''\<rparr> else i) in
           Inr (if dev_pttype i = None then i\<lparr>dev_pttype := props ''PTTYPE''\<rparr> else i))
       else Inr i))"

fun backfill_missing :: "bd_env \<Rightarrow> device \<Rightarrow> device res"
  and backfill_all :: "bd_env \<Rightarrow> device list \<Rightarrow> device list res" where
  "backfill_missing E (Device i cs) =
     rbind (backfill_info E i) (\<lambda>i.
       case cs of
         None \<Rightarrow> Inr (Device i None)
       | Some ds \<Rightarrow> rbind (backfill_all E ds) (\<lambda>ds. Inr (Device i (Some ds))))"
| "backfill_all E [] = Inr []"
| "backfill_all E (d # ds) =
     rbind (backfill_missing E d) (\<lambda>d. rbind (backfill_all E ds) (\<lambda>ds. Inr (d # ds)))"

section \<open>The disks behind a device\<close>

definition first_of :: "'a list \<Rightarrow> 'a option" where
  "first_of xs = (case xs of [] \<Rightarrow> None | x # _ \<Rightarrow> Some x)"

definition list_dev :: "bd_env \<Rightarrow> string \<Rightarrow> device res" where
  "list_dev E dev =
     rbind (bd_lsblk E dev) (\<lambda>devs.
     rbind (backfill_all E devs) (\<lambda>devs.
       ok_or ''no device output from lsblk'' (first_of devs)))"

text \<open>\<^verbatim>\<open>Device::refresh\<close>.\<close>

definition refresh :: "bd_env \<Rightarrow> device \<Rightarrow> device res" where
  "refresh E d = list_dev E (device_path d)"

definition list_parents :: "bd_env \<Rightarrow> device \<Rightarrow> device list option res" where
  "list_parents E d =
     rbind (bd_lsblk_inverse E (device_path d)) (\<lambda>out.
     rbind (ok_or ''no device output from lsblk --inverse'' (first_of out)) (\<lambda>dev.
       case children dev of
         Some (c # cs) \<Rightarrow> rbind (backfill_all E (c # cs)) (\<lambda>cs. Inr (Some cs))
       | _ \<Rightarrow> Inr None))"

lemma size_queue:
  assumes "queue \<noteq> []" "children (last queue) = Some gs"
  shows "size_list size (butlast queue @ gs) < size_list size queue"
proof -
  have "size_list size queue = size_list size (butlast queue @ [last queue])"
    using assms(1) by simp
  also have "\<dots> = size_list size (butlast queue) + size (last queue) + 1"
    by (simp add: size_list_conv_sum_list)
  finally show ?thesis
    using assms(2) by (cases "last queue") (simp add: size_list_conv_sum_list)
qed

lemma size_butlast: "queue \<noteq> [] \<Longrightarrow> size_list size (butlast queue) < size_list size (queue :: device list)"
  by (cases queue rule: rev_cases) (simp_all add: size_list_conv_sum_list)

text \<open>The work list: the last device is taken; its own parents go to the end of the list.\<close>

function find_roots :: "bd_env \<Rightarrow> string set \<Rightarrow> device list \<Rightarrow> device list \<Rightarrow> device list res" where
  "find_roots E seen roots queue =
     (if queue = [] then Inr roots
      else let dev = last queue; queue = butlast queue in
        case children dev of
          Some (g # grandparents) \<Rightarrow> find_roots E seen roots (queue @ g # grandparents)
        | _ \<Rightarrow>
            (if dev_name (info dev) \<in> seen then find_roots E seen roots queue
             else rbind (list_dev E (device_path dev)) (\<lambda>d.
               find_roots E (insert (dev_name (info dev)) seen) (roots @ [d]) queue)))"
  by pat_completeness auto

termination
  by (relation "measure (\<lambda>(_, _, _, queue). size_list size queue)")
     (auto simp: size_butlast dest: size_queue)

declare find_roots.simps [simp del]

definition find_all_roots :: "bd_env \<Rightarrow> device \<Rightarrow> device list res" where
  "find_all_roots E d =
     rbind (list_parents E d) (\<lambda>r.
       case r of
         None \<Rightarrow> rbind (list_dev E (device_path d)) (\<lambda>d. Inr [d])
       | Some parents \<Rightarrow> find_roots E {} [] parents)"

definition require_single_root :: "bd_env \<Rightarrow> device \<Rightarrow> device res" where
  "require_single_root E d =
     rbind (find_all_roots E d) (\<lambda>roots.
       case roots of [r] \<Rightarrow> Inr r | _ \<Rightarrow> Inl ''Expected a single root device'')"

fun esps_of :: "device list \<Rightarrow> device list res" where
  "esps_of [] = Inr []"
| "esps_of (r # roots) =
     rbind (find_partition_of_esp_optional r) (\<lambda>e.
     rbind (esps_of roots) (\<lambda>es. Inr (case e of Some esp \<Rightarrow> esp # es | None \<Rightarrow> es)))"

definition then_some :: "'a list \<Rightarrow> 'a list option" where
  "then_some xs = (if xs \<noteq> [] then Some xs else None)"

definition find_colocated_esps :: "bd_env \<Rightarrow> device \<Rightarrow> device list option res" where
  "find_colocated_esps E d =
     rbind (find_all_roots E d) (\<lambda>roots. rbind (esps_of roots) (\<lambda>esps. Inr (then_some esps)))"

definition find_first_colocated_esp :: "bd_env \<Rightarrow> device \<Rightarrow> device res" where
  "find_first_colocated_esp E d =
     rbind (find_colocated_esps E d) (\<lambda>r.
       ok_or ''No ESP partition found among backing devices'' (Option.bind r first_of))"

definition find_colocated_bios_boot :: "bd_env \<Rightarrow> device \<Rightarrow> device list option res" where
  "find_colocated_bios_boot E d =
     rbind (find_all_roots E d) (\<lambda>roots.
       Inr (then_some (List.map_filter find_partition_of_bios_boot roots)))"

section \<open>The device of a file system\<close>

text \<open>The first indented line of the pool listing whose first column is an absolute path.\<close>

definition tab :: char where "tab = char_of (9 :: nat)"

fun zfs_device :: "string list \<Rightarrow> string option" where
  "zfs_device [] = None"
| "zfs_device (line # rest) =
     (if starts_with [tab] line \<or> starts_with '' '' line then
        (let dev_path = trim (hd (split_on tab (trim_start line))) in
         if starts_with ''/'' dev_path then Some dev_path else zfs_device rest)
      else zfs_device rest)"

definition list_dev_for_zfs_dataset :: "bd_env \<Rightarrow> string \<Rightarrow> device res" where
  "list_dev_for_zfs_dataset E dataset =
     (let dataset = (case strip_prefix ''ZFS='' dataset of Some r \<Rightarrow> r | None \<Rightarrow> dataset);
          pool = hd (split_on (CHR ''/'') dataset)
      in rbind (bd_zpool E pool) (\<lambda>output.
           case zfs_device (str_lines output) of
             Some p \<Rightarrow> list_dev E p
           | None \<Rightarrow> Inl ''Could not find a block device backing ZFS pool''))"

definition list_dev_by_dir :: "bd_env \<Rightarrow> fs_info res \<Rightarrow> device res" where
  "list_dev_by_dir E inspect =
     rbind inspect (\<lambda>fsinfo.
       if fsi_fstype fsinfo = ''zfs'' \<or> starts_with ''ZFS='' (fsi_source fsinfo)
       then list_dev_for_zfs_dataset E (fsi_source fsinfo)
       else list_dev E (fsi_source fsinfo))"

definition ZFS_SUPER_MAGIC :: u32 where "ZFS_SUPER_MAGIC = 0x2fc12fc1"

definition BTRFS_SUPER_MAGIC :: u32 where "BTRFS_SUPER_MAGIC = 0x9123683e"

text \<open>\<^verbatim>\<open>rustix::fs::major\<close>: bits 8 to 19 and 32 to 63 of the device number.\<close>

definition major :: "u64 \<Rightarrow> u32" where
  "major dev = ucast ((drop_bit 32 dev AND 0xfffff000) OR (drop_bit 8 dev AND 0x00000fff))"

definition is_block_backed :: "u64 \<Rightarrow> u32 \<Rightarrow> bool" where
  "is_block_backed st_dev fs_magic =
     (major st_dev \<noteq> 0 \<or> fs_magic = BTRFS_SUPER_MAGIC \<or> fs_magic = ZFS_SUPER_MAGIC)"

definition list_dev_by_dir_optional :: "bd_env \<Rightarrow> u64 res \<Rightarrow> u64 res \<Rightarrow> fs_info res \<Rightarrow> device option res" where
  "list_dev_by_dir_optional E st_dev f_type inspect =
     rbind st_dev (\<lambda>st_dev. rbind f_type (\<lambda>f_type.
       if \<not> is_block_backed st_dev (ucast f_type) then Inr None
       else rbind (list_dev_by_dir E inspect) (\<lambda>d. Inr (Some d))))"

definition is_dir_backing_device_ro :: "bd_env \<Rightarrow> fs_info res \<Rightarrow> bool option res" where
  "is_dir_backing_device_ro E inspect =
     rbind inspect (\<lambda>fsinfo.
       if \<not> starts_with ''/dev/'' (fsi_source fsinfo) then Inr None
       else rbind (list_dev E (fsi_source fsinfo)) (\<lambda>d. Inr (dev_ro (info d))))"

section \<open>Sizes\<close>

definition size_suffixes :: "(string \<times> u64) list" where
  "size_suffixes = [(''MiB'', 1), (''M'', 1), (''GiB'', 1024), (''G'', 1024), (''TiB'', 1024 * 1024), (''T'', 1024 * 1024)]"

fun strip_size_suffixes :: "(string \<times> u64) list \<Rightarrow> string \<Rightarrow> u64 \<Rightarrow> (string \<times> u64) res" where
  "strip_size_suffixes [] s mul = Inr (s, mul)"
| "strip_size_suffixes ((suf, imul) # rest) s mul =
     (case rsplit_once_str suf s of
        Some (sv, trailing) \<Rightarrow>
          if trailing \<noteq> [] then Inl ''Trailing text after size'' else strip_size_suffixes rest sv imul
      | None \<Rightarrow> strip_size_suffixes rest s mul)"

definition parse_size_mib :: "string \<Rightarrow> u64 res" where
  "parse_size_mib s =
     rbind (strip_size_suffixes size_suffixes s 1) (\<lambda>(s, mul).
     rbind (ok_or ''invalid number'' (parse_u64 s)) (\<lambda>v. Inr (v * mul)))"

section \<open>The search for the EFI system partition\<close>

text \<open>The devices with a partition table that are reached from a device, and the partitions of one.\<close>

inductive table_of :: "device \<Rightarrow> device \<Rightarrow> bool" where
  self: "table_of d d"
| down: "children d = Some cs \<Longrightarrow> c \<in> set cs \<Longrightarrow> dev_pttype (info c) \<noteq> None \<Longrightarrow> table_of c p \<Longrightarrow> table_of d p"

inductive_cases table_ofE: "table_of d p"

definition is_gpt_esp :: "device \<Rightarrow> bool" where
  "is_gpt_esp c = (case dev_parttype (info c) of Some pt \<Rightarrow> eq_ignore_ascii_case pt ESP | None \<Rightarrow> False)"

definition supported_table :: "device \<Rightarrow> bool" where
  "supported_table p = (children p = None \<or> dev_pttype (info p) \<in> {None, Some ''gpt'', Some ''dos''})"

definition esp_in :: "device \<Rightarrow> device \<Rightarrow> bool" where
  "esp_in p e =
     (e \<in> set (case_option [] id (children p)) \<and>
      (if dev_pttype (info p) = Some ''dos'' then mbr_esp e
       else dev_pttype (info p) \<in> {None, Some ''gpt''} \<and> is_gpt_esp e))"

lemma find_Some_set: "find P xs = Some x \<Longrightarrow> x \<in> set xs \<and> P x"
  by (auto simp: find_Some_iff)

lemma direct_esp_Some: "direct_esp d = Inr (Some e) \<Longrightarrow> esp_in d e"
  by (auto simp: direct_esp_def esp_in_def find_partition_of_type_def is_gpt_esp_def
      split: option.splits if_splits dest!: find_Some_set bind_eq_Some_conv [THEN iffD1])

lemma direct_esp_None: "direct_esp d = Inr None \<Longrightarrow> \<not> esp_in d e \<and> supported_table d"
  by (cases "children d")
     (auto simp: direct_esp_def esp_in_def supported_table_def find_partition_of_type_def is_gpt_esp_def
      bind_eq_None_conv find_None_iff split: option.splits if_splits)

lemma direct_esp_Inl: "direct_esp d = Inl m \<Longrightarrow> children d = Some cs \<Longrightarrow> \<not> supported_table d"
  by (auto simp: direct_esp_def supported_table_def split: option.splits if_splits)

text \<open>What a search that starts at one of some devices has found.\<close>

definition search_result :: "(device \<Rightarrow> bool) \<Rightarrow> device option res \<Rightarrow> bool" where
  "search_result reached r =
     (case r of
        Inr (Some e) \<Rightarrow> \<exists>p. reached p \<and> esp_in p e
      | Inr None \<Rightarrow> \<not> (\<exists>p e. reached p \<and> (esp_in p e \<or> \<not> supported_table p))
      | Inl _ \<Rightarrow> \<exists>p. reached p \<and> \<not> supported_table p)"

lemma table_of_unfold:
  "table_of d p \<longleftrightarrow>
    p = d \<or> (\<exists>c \<in> set (case_option [] id (children d)). dev_pttype (info c) \<noteq> None \<and> table_of c p)"
  by (subst table_of.simps; cases "children d") auto

lemma search_result_insert:
  "search_result R r \<Longrightarrow> (\<And>e. \<not> esp_in d e) \<Longrightarrow> supported_table d \<Longrightarrow> search_result (\<lambda>p. p = d \<or> R p) r"
  by (auto simp: search_result_def split: sum.splits option.splits)

lemma search_exact:
  "search_result (table_of d) (find_partition_of_esp_optional d)"
  "search_result (\<lambda>p. \<exists>c \<in> set ds. dev_pttype (info c) \<noteq> None \<and> table_of c p) (find_esp_among ds)"
proof (induction d and ds rule: find_partition_of_esp_optional_find_esp_among.induct)
  case (1 i cs)
  show ?case
  proof (cases cs)
    case None
    then show ?thesis
      by (auto simp: search_result_def table_of_unfold [of "Device i None"] esp_in_def supported_table_def)
  next
    case (Some ds)
    show ?thesis
    proof (cases "direct_esp (Device i cs)")
      case (Inl m)
      with Some show ?thesis
        using direct_esp_Inl [OF Inl] by (auto simp: search_result_def intro: table_of.self)
    next
      case (Inr r)
      show ?thesis
      proof (cases r)
        case None
        with Inr have "\<not> esp_in (Device i cs) e \<and> supported_table (Device i cs)" for e
          using direct_esp_None by blast
        moreover have "search_result (\<lambda>p. \<exists>c \<in> set ds. dev_pttype (info c) \<noteq> None \<and> table_of c p) (find_esp_among ds)"
          using 1 [OF Some, of None] by simp
        moreover have "table_of (Device i cs) = (\<lambda>p. p = Device i cs \<or>
            (\<exists>c \<in> set ds. dev_pttype (info c) \<noteq> None \<and> table_of c p))"
          using Some by (intro ext) (subst table_of_unfold, simp)
        ultimately show ?thesis
          using Some None Inr by (simp add: search_result_insert)
      next
        case (Some e)
        with Inr \<open>cs = Some ds\<close> show ?thesis
          using direct_esp_Some [of "Device i cs" e] by (auto simp: search_result_def intro: table_of.self)
      qed
    qed
  qed
next
  case 2
  show ?case by (simp add: search_result_def)
next
  case (3 child rest)
  show ?case
  proof (cases "dev_pttype (info child)")
    case None
    with 3 show ?thesis by (simp add: search_result_def split: sum.splits option.splits) 
  next
    case (Some t)
    with 3 show ?thesis
      by (cases "find_partition_of_esp_optional child")
         (fastforce simp: search_result_def split: sum.splits option.splits)+
  qed
qed

text \<open>
  C17. The search for the EFI system partition of a device, through partition tables nested in each other:
  a partition it returns carries the type of an EFI system partition in one of the tables reached from the
  device, and it is a direct child of the device when there is such a child; it returns nothing only when
  no table reached from the device has such a partition; it fails only when one of them is of an
  unsupported kind.
\<close>

theorem esp_search_exact:
  "(case find_partition_of_esp_optional d of
      Inr (Some e) \<Rightarrow> (\<exists>p. table_of d p \<and> esp_in p e) \<and> (esp_in d e \<or> \<not> (\<exists>e'. esp_in d e'))
    | Inr None \<Rightarrow> \<not> (\<exists>p e. table_of d p \<and> (esp_in p e \<or> \<not> supported_table p))
    | Inl _ \<Rightarrow> \<exists>p. table_of d p \<and> \<not> supported_table p)"
proof -
  have "esp_in d e \<or> \<not> (\<exists>e'. esp_in d e')" if "find_partition_of_esp_optional d = Inr (Some e)" for e
  proof (cases d)
    case (Device i cs)
    with that obtain ds r where ds: "cs = Some ds" and r: "direct_esp d = Inr r" "r = Some e \<or> r = None"
      by (auto simp: rbind_Inr_iff split: option.splits if_splits)
    then show ?thesis using direct_esp_Some direct_esp_None by blast
  qed
  then show ?thesis
    using search_exact(1) [of d] by (auto simp: search_result_def split: sum.splits option.splits)
qed

text \<open>A firmware RAID: the disk holds an array, the array the partition table with the EFI partition.\<close>

definition demo_part :: "string \<Rightarrow> string option \<Rightarrow> string option \<Rightarrow> device list option \<Rightarrow> device" where
  "demo_part name ptype pttype cs =
     Device \<lparr>dev_name = name, dev_serial = None, dev_model = None, dev_partlabel = None, dev_parttype = ptype,
       dev_partuuid = None, dev_partn = None, dev_size = 0, dev_maj_min = None, dev_start = None,
       dev_label = None, dev_fstype = None, dev_uuid = None, dev_path = None, dev_pttype = pttype, dev_ro = None\<rparr> cs"

definition demo_esp :: device where
  "demo_esp = demo_part ''md126p1'' (Some ''C12A7328-F81F-11D2-BA4B-00A0C93EC93B'') None None"

definition demo_raid :: device where
  "demo_raid = demo_part ''sda'' None None
     (Some [demo_part ''sda1'' None None None, demo_part ''md126'' None (Some ''gpt'') (Some [demo_esp])])"

theorem esp_search_exact_witness:
  "find_partition_of_esp_optional demo_raid = Inr (Some demo_esp) \<and> (\<exists>p. table_of demo_raid p \<and> esp_in p demo_esp)"
proof -
  have f: "find_partition_of_esp_optional demo_raid = Inr (Some demo_esp)" by code_simp
  with esp_search_exact [of demo_raid] show ?thesis by simp
qed

section \<open>The disks that are found\<close>

text \<open>The devices at the ends of the chains of parents, and of those the first with each name.\<close>

fun leaves :: "device \<Rightarrow> device list" and leaves_of :: "device list \<Rightarrow> device list" where
  "leaves (Device i cs) = (case cs of None \<Rightarrow> [Device i cs] | Some ds \<Rightarrow> if ds = [] then [Device i cs] else leaves_of ds)"
| "leaves_of [] = []"
| "leaves_of (d # ds) = leaves d @ leaves_of ds"

fun fresh_names :: "string set \<Rightarrow> device list \<Rightarrow> device list" where
  "fresh_names seen [] = []"
| "fresh_names seen (d # ds) =
     (if dev_name (info d) \<in> seen then fresh_names seen ds
      else d # fresh_names (insert (dev_name (info d)) seen) ds)"

lemma leaves_of_append [simp]: "leaves_of (xs @ ys) = leaves_of xs @ leaves_of ys"
  by (induction xs) simp_all

lemma fresh_names_names:
  "distinct (map (dev_name \<circ> info) (fresh_names seen ds))"
  "(dev_name \<circ> info) ` set (fresh_names seen ds) = (dev_name \<circ> info) ` set ds - seen"
  by (induction seen ds rule: fresh_names.induct) (auto simp: image_iff)

lemma leaves_inner: "children d = Some (g # gs) \<Longrightarrow> leaves d = leaves_of (g # gs)"
  by (cases d) simp

lemma leaves_end: "\<forall>g gs. children d \<noteq> Some (g # gs) \<Longrightarrow> leaves d = [d]"
  by (cases d) (auto split: option.splits simp: neq_Nil_conv)

definition query :: "bd_env \<Rightarrow> device \<Rightarrow> device res" where
  "query E d = list_dev E (device_path d)"

lemma find_roots_eq:
  "find_roots E seen roots queue =
    rbind (collect_res (map (query E) (fresh_names seen (rev (leaves_of queue))))) (\<lambda>ds. Inr (roots @ ds))"
proof (induction E seen roots queue rule: find_roots.induct)
  case (1 E seen roots queue)
  show ?case
  proof (cases queue rule: rev_cases)
    case Nil
    then show ?thesis by (simp add: find_roots.simps)
  next
    case (snoc q d)
    show ?thesis
    proof (cases "\<exists>g gs. children d = Some (g # gs)")
      case True
      then obtain g gs where gs: "children d = Some (g # gs)" by blast
      have "find_roots E seen roots (q @ g # gs) =
          rbind (collect_res (map (query E) (fresh_names seen (rev (leaves_of (q @ g # gs)))))) (\<lambda>ds. Inr (roots @ ds))"
        by (rule 1(5) [OF _ _ _ gs refl]) (simp_all add: snoc)
      then show ?thesis
        using snoc gs by (simp add: find_roots.simps [of _ _ _ "q @ [d]"] leaves_inner)
    next
      case False
      then have l: "leaves d = [d]" by (intro leaves_end) blast
      from False have c: "children d = None \<or> children d = Some []"
        by (cases "children d"; cases "the (children d)") auto
      have step: "find_roots E seen roots (q @ [d]) =
          (if dev_name (info d) \<in> seen then find_roots E seen roots q
           else rbind (query E d) (\<lambda>r. find_roots E (insert (dev_name (info d)) seen) (roots @ [r]) q))"
        using False by (subst find_roots.simps) (auto simp: Let_def query_def split: option.split list.split)
      show ?thesis
      proof (cases "dev_name (info d) \<in> seen")
        case True
        have "find_roots E seen roots q =
          rbind (collect_res (map (query E) (fresh_names seen (rev (leaves_of q))))) (\<lambda>ds. Inr (roots @ ds))"
          using c
          by (elim disjE)
             ((rule 1(1) [of d q]; simp add: snoc True), (rule 1(3) [of d q "[]"]; simp add: snoc True))
        then show ?thesis using True snoc step l by simp
      next
        case new: False
        have "find_roots E (insert (dev_name (info d)) seen) (roots @ [r]) q =
          rbind (collect_res (map (query E) (fresh_names (insert (dev_name (info d)) seen) (rev (leaves_of q)))))
            (\<lambda>ds. Inr ((roots @ [r]) @ ds))" for r
          using c
          by (elim disjE)
             ((rule 1(2) [of d q]; simp add: snoc new), (rule 1(4) [of d q "[]"]; simp add: snoc new))
        then show ?thesis
          using new snoc step l
          by (cases "query E d"; cases "collect_res (map (query E) (fresh_names (insert (dev_name (info d)) seen) (rev (leaves_of q))))")
             simp_all
      qed
    qed
  qed
qed

lemma fresh_names_first:
  "x \<in> set (fresh_names seen ds) \<Longrightarrow>
    dev_name (info x) \<notin> seen \<and> find (\<lambda>y. dev_name (info y) = dev_name (info x)) ds = Some x"
proof (induction seen ds rule: fresh_names.induct)
  case (2 seen d ds)
  then show ?case by (cases "dev_name (info d) \<in> seen") auto
qed simp

lemma fresh_names_subseq: "subseq (fresh_names seen ds) ds"
  by (induction seen ds rule: fresh_names.induct) auto

text \<open>
  C35. The disks behind a device: a device without parents is its own disk, and is queried by its own path; otherwise
  the devices at the ends of the chains of parents are queried, each by its own path, the last one first, and
  each name once, however many chains lead to it. The result is the answers of these queries in that order, or the error of the first
  that fails.
\<close>

theorem all_roots_exact:
  "case list_parents E d of
     Inl e \<Rightarrow> find_all_roots E d = Inl e
   | Inr None \<Rightarrow> find_all_roots E d = collect_res [list_dev E (device_path d)]
   | Inr (Some parents) \<Rightarrow>
       (\<exists>disks. find_all_roots E d = collect_res (map (\<lambda>x. list_dev E (device_path x)) disks)
          \<and> subseq disks (rev (leaves_of parents))
          \<and> list_all (\<lambda>x. find (\<lambda>y. dev_name (info y) = dev_name (info x)) (rev (leaves_of parents)) = Some x) disks
          \<and> distinct (map (dev_name \<circ> info) disks)
          \<and> (dev_name \<circ> info) ` set disks = (dev_name \<circ> info) ` set (leaves_of parents))"
proof (cases "list_parents E d")
  case (Inr r)
  have id: "rbind x Inr = x" for x :: "device list res" by (cases x) simp_all
  have q: "query E = (\<lambda>x. list_dev E (device_path x))" by (simp add: query_def fun_eq_iff)
  show ?thesis
  proof (cases r)
    case None
    with Inr show ?thesis by (simp add: find_all_roots_def)
  next
    case (Some parents)
    let ?disks = "fresh_names {} (rev (leaves_of parents))"
    have "find_all_roots E d = collect_res (map (query E) ?disks)"
      using Inr Some by (simp add: find_all_roots_def find_roots_eq id)
    moreover have "list_all (\<lambda>x. find (\<lambda>y. dev_name (info y) = dev_name (info x)) (rev (leaves_of parents)) = Some x) ?disks"
      using fresh_names_first by (auto simp: list_all_iff)
    moreover note fresh_names_subseq [of "{}" "rev (leaves_of parents)"] fresh_names_names [of "{}" "rev (leaves_of parents)"]
    ultimately show ?thesis
      using Inr Some unfolding q by (auto intro!: exI [of _ ?disks])
  qed
qed (simp add: find_all_roots_def)

section \<open>Sizes on the command line\<close>

lemma rsplit_once_str_Some: "rsplit_once_str p s = Some (a, b) \<Longrightarrow> s = a @ p @ b"
  by (induction p s arbitrary: a rule: rsplit_once_str.induct)
     (auto simp: strip_prefix_iff split: option.splits if_splits)

lemma rsplit_once_str_None: "c \<in> set p \<Longrightarrow> c \<notin> set s \<Longrightarrow> rsplit_once_str p s = None"
  using rsplit_once_str_Some [of p s] by (cases "rsplit_once_str p s") auto

lemma rsplit_once_str_short: "length s < length p \<Longrightarrow> rsplit_once_str p s = None"
  using rsplit_once_str_Some [of p s] by (cases "rsplit_once_str p s") auto

lemma rsplit_once_str_end: "p \<noteq> [] \<Longrightarrow> rsplit_once_str p (s @ p) = Some (s, [])"
proof (induction s)
  case Nil
  then obtain c q where p: "p = c # q" by (cases p) auto
  have "rsplit_once_str (c # q) q = None" by (rule rsplit_once_str_short) simp
  then show ?case using p strip_prefix_append [of p "[]"] by simp
qed simp

lemma digits_no_letter:
  "list_all is_ascii_digit ds \<Longrightarrow> CHR ''M'' \<notin> set ds \<and> CHR ''G'' \<notin> set ds \<and> CHR ''T'' \<notin> set ds \<and> CHR ''i'' \<notin> set ds"
  by (auto simp: list_all_iff is_ascii_digit_iff)

lemma strip_suffixes_skip:
  "\<forall>(suf, _) \<in> set ss. \<exists>c \<in> set suf. c \<notin> set s \<Longrightarrow> strip_size_suffixes (ss @ rest) s mul = strip_size_suffixes rest s mul"
  by (induction ss) (auto simp: rsplit_once_str_None)

lemma strip_suffixes_one:
  assumes "(suf, imul) \<in> set size_suffixes" and "list_all is_ascii_digit ds"
  shows "strip_size_suffixes size_suffixes (ds @ suf) 1 = Inr (ds, imul)"
proof -
  note no = digits_no_letter [OF assms(2)]
  obtain before after where ss: "size_suffixes = before @ (suf, imul) # after"
    and b: "\<forall>(x, _) \<in> set before. \<exists>c \<in> set x. c \<notin> set (ds @ suf)" and ne: "suf \<noteq> []"
  proof -
    from assms(1) consider "suf = ''MiB''" "imul = 1" | "suf = ''M''" "imul = 1" | "suf = ''GiB''" "imul = 1024"
      | "suf = ''G''" "imul = 1024" | "suf = ''TiB''" "imul = 1024 * 1024" | "suf = ''T''" "imul = 1024 * 1024"
      by (auto simp: size_suffixes_def)
    then show thesis
    proof cases
      case 1 show thesis by (rule that [of "[]" "tl size_suffixes"]) (simp_all add: size_suffixes_def 1)
    next
      case 2 show thesis
        by (rule that [of "take 1 size_suffixes" "drop 2 size_suffixes"]) (use no in \<open>simp_all add: size_suffixes_def 2\<close>)
    next
      case 3 show thesis
        by (rule that [of "take 2 size_suffixes" "drop 3 size_suffixes"]) (use no in \<open>simp_all add: size_suffixes_def 3\<close>)
    next
      case 4 show thesis
        by (rule that [of "take 3 size_suffixes" "drop 4 size_suffixes"]) (use no in \<open>simp_all add: size_suffixes_def 4\<close>)
    next
      case 5 show thesis
        by (rule that [of "take 4 size_suffixes" "drop 5 size_suffixes"]) (use no in \<open>simp_all add: size_suffixes_def 5\<close>)
    next
      case 6 show thesis
        by (rule that [of "take 5 size_suffixes" "[]"]) (use no in \<open>simp_all add: size_suffixes_def 6\<close>)
    qed
  qed
  have "\<forall>(x, _) \<in> set size_suffixes. \<exists>c \<in> set x. c \<notin> set ds"
    using no by (simp add: size_suffixes_def)
  then have "\<forall>(x, _) \<in> set after. \<exists>c \<in> set x. c \<notin> set ds"
    by (simp add: ss)
  then have "strip_size_suffixes after ds imul = Inr (ds, imul)"
    using strip_suffixes_skip [of after ds "[]" imul] by simp
  then show ?thesis
    using strip_suffixes_skip [OF b, of "(suf, imul) # after" 1] ss ne by (simp add: rsplit_once_str_end)
qed

lemma parse_u64_digits:
  "ds \<noteq> [] \<Longrightarrow> list_all is_ascii_digit ds \<Longrightarrow> dec_value ds < 2 ^ 64 \<Longrightarrow> parse_u64 ds = Some (of_nat (dec_value ds))"
  by (cases ds) (auto simp: parse_u64_def Let_def is_ascii_digit_iff)

lemma parse_size_suffix:
  assumes "ds \<noteq> []" "list_all is_ascii_digit ds" "(suf, mul) \<in> set size_suffixes" "dec_value ds < 2 ^ 64"
  shows "parse_size_mib (ds @ suf) = Inr (of_nat (dec_value ds) * mul)"
  using assms by (simp add: parse_size_mib_def strip_suffixes_one parse_u64_digits)

text \<open>
  A size written as decimal digits and one of the six suffixes is read as that many mebibytes,
  whenever the result fits into 64 bits.
\<close>

theorem size_suffix_exact:
  assumes "ds \<noteq> []" "list_all is_ascii_digit ds" "(suf, mul) \<in> set size_suffixes"
    and "dec_value ds * unat mul < 2 ^ 64"
  shows "\<exists>w. parse_size_mib (ds @ suf) = Inr w \<and> unat w = dec_value ds * unat mul"
proof -
  have "1 \<le> unat mul" using assms(3) by (auto simp: size_suffixes_def)
  then have "dec_value ds * 1 \<le> dec_value ds * unat mul" by (rule mult_le_mono2)
  with assms(4) have "dec_value ds < 2 ^ 64" by linarith
  then have "parse_size_mib (ds @ suf) = Inr (of_nat (dec_value ds) * mul)"
    by (rule parse_size_suffix [OF assms(1-3)])
  moreover have "of_nat (dec_value ds) * mul = of_nat (dec_value ds * unat mul)" by simp
  then have "unat (of_nat (dec_value ds) * mul) = dec_value ds * unat mul"
    using assms(4) by (simp only: unsigned_of_nat) (simp add: take_bit_nat_eq_self)
  ultimately show ?thesis by blast
qed

theorem size_suffix_exact_witness:
  "\<exists>w. parse_size_mib (''9'' @ ''G'') = Inr w \<and> unat w = dec_value ''9'' * unat (1024 :: u64)"
  by (rule size_suffix_exact) (simp_all add: size_suffixes_def is_ascii_digit_def less_eq_char_def dec_value_def digit_val_def)

text \<open>A size that does not fit wraps around, and one suffix after another is accepted.\<close>

lemma size_wraps: "parse_size_mib (''18014398509481985'' @ ''G'') = Inr 1024"
  using parse_size_suffix [of "''18014398509481985''" "''G''" 1024]
  by (simp add: size_suffixes_def is_ascii_digit_iff dec_value_def digit_val_def)

lemma size_suffixes_stack: "parse_size_mib ''1TGM'' = Inr 1048576"
  by (simp add: parse_size_mib_def size_suffixes_def parse_u64_def dec_value_def digit_val_def is_ascii_digit_iff)

end
