(* ===== verification/Install_Disk.thy ===== *)
theory Install_Disk
  imports Install_Config Block_Dev Kargs
begin

text \<open>
  Installing to a disk (\<^verbatim>\<open>crates/lib/src/install/baseline.rs\<close>): the checks on the target, the partition
  table by \<^verbatim>\<open>sfdisk\<close> or \<^verbatim>\<open>systemd-repart\<close>, the file systems and the root setup handed to the rest of the
  installation; with the mount table queries of \<^verbatim>\<open>crates/mount/src/mount.rs\<close> and the mount
  specifications of \<^verbatim>\<open>install.rs\<close>.

  The state is the list of commands and file operations performed so far, in order. Whether one
  succeeds, and what the disk looks like to \<^verbatim>\<open>lsblk\<close> and the programs after it, are functions of that list
  in the record \<^verbatim>\<open>install_env\<close>. A fresh UUID is given by its purpose.
\<close>

section \<open>Mounted file systems\<close>

datatype mnt_fs = MntFs (mf_source: string) (mf_target: string) (mf_children: "mnt_fs list option")

fun is_source_mounted :: "string \<Rightarrow> mnt_fs \<Rightarrow> bool"
  and any_source_mounted :: "string \<Rightarrow> mnt_fs list \<Rightarrow> bool" where
  "is_source_mounted path (MntFs source target cs) =
     (if sublist path source then True
      else case cs of Some ms \<Rightarrow> any_source_mounted path ms | None \<Rightarrow> False)"
| "any_source_mounted path [] = False"
| "any_source_mounted path (fs # rest) = (if is_source_mounted path fs then True else any_source_mounted path rest)"

definition is_mounted_in_pid1_mountns :: "mnt_fs list res \<Rightarrow> string \<Rightarrow> bool res" where
  "is_mounted_in_pid1_mountns pid1_mounts path = rbind pid1_mounts (\<lambda>filesystems. Inr (any_source_mounted path filesystems))"

fun find_source_mount_target :: "string \<Rightarrow> mnt_fs list \<Rightarrow> string option" where
  "find_source_mount_target dev [] = None"
| "find_source_mount_target dev (MntFs source target cs # rest) =
     (if source = dev then Some target
      else case (case cs of Some ms \<Rightarrow> find_source_mount_target dev ms | None \<Rightarrow> None) of
             Some t \<Rightarrow> Some t
           | None \<Rightarrow> find_source_mount_target dev rest)"

definition find_mount_target_by_source :: "mnt_fs list res \<Rightarrow> string \<Rightarrow> string option res" where
  "find_mount_target_by_source mounts dev =
     rbind mounts (\<lambda>filesystems. Inr (find_source_mount_target dev filesystems))"

section \<open>Mount specifications\<close>

record mount_spec =
  ms_source :: string
  ms_target :: string
  ms_fstype :: string
  ms_options :: "string option"

definition mount_spec_new :: "string \<Rightarrow> string \<Rightarrow> mount_spec" where
  "mount_spec_new src target = \<lparr>ms_source = src, ms_target = target, ms_fstype = ''auto'', ms_options = None\<rparr>"

definition new_uuid_src :: "string \<Rightarrow> string \<Rightarrow> mount_spec" where
  "new_uuid_src uuid target = mount_spec_new (''UUID='' @ uuid) target"

definition get_source_uuid :: "mount_spec \<Rightarrow> string option" where
  "get_source_uuid m =
     (case split_once (CHR ''='') (ms_source m) of
        Some (t, rest) \<Rightarrow> if eq_ignore_ascii_case t ''uuid'' then Some rest else None
      | None \<Rightarrow> None)"

definition to_fstab :: "mount_spec \<Rightarrow> string" where
  "to_fstab m =
     ms_source m @ '' '' @ ms_target m @ '' '' @ ms_fstype m @ '' '' @ case_option ''defaults'' id (ms_options m) @ '' 0 0''"

definition push_option :: "mount_spec \<Rightarrow> string \<Rightarrow> mount_spec" where
  "push_option m opt =
     (let options = case_option [] id (ms_options m);
          options = (if options \<noteq> [] then options @ '','' else options)
      in m\<lparr>ms_options := Some (options @ opt)\<rparr>)"

section \<open>Operations and environment\<close>

datatype disk_op =
    Run string "string list"
  | RunStdin string "string list" string
  | RemoveDirAll string
  | CreateDirAll string
  | CreateDir string
  | CopyFile string string
  | WriteFile string string
  | EnsureDirLabeled string

record repart_partition =
  partition_type :: string
  partno :: "u32 option"
  raw_size :: u64
  raw_padding :: u64
  part_file :: string

record install_env =
  ie_exec :: "disk_op list \<Rightarrow> disk_op \<Rightarrow> unit res"
  ie_bd :: "disk_op list \<Rightarrow> bd_env"
  ie_pid1_mounts :: "mnt_fs list res"
  ie_exists :: "disk_op list \<Rightarrow> string \<Rightarrow> bool"
  ie_dir_nonempty :: "string \<Rightarrow> bool"
  ie_repart_found :: bool
  ie_repart :: "disk_op list \<Rightarrow> string list \<Rightarrow> repart_partition list res"
  ie_systemd_version :: "u32 res"
  ie_arch :: string
  ie_big_endian :: bool
  ie_uuid :: "string \<Rightarrow> string"
  ie_uuid_parse :: "string \<Rightarrow> string res"
  ie_keyfile :: "string res"
  ie_load_policy :: "unit res"

record 'c install_state =
  is_install_config :: "install_configuration option"
  is_bootloader :: "bootloader option"
  is_karg :: "'c list option"
  is_generic_image :: bool
  is_composefs_backend :: bool

record install_block_device_opts =
  bo_device :: string
  bo_wipe :: bool
  bo_block_setup :: "block_setup option"
  bo_filesystem :: "filesystem option"
  bo_root_size :: "string option"

record partition_layout =
  esp_partno :: "u32 option"
  boot_partno :: "u32 option"
  rootpn :: u32
  used_repart :: bool

record 'c root_setup =
  luks_device :: "string option"
  device_info :: device
  physical_root_path :: string
  rootfs_uuid :: "string option"
  rs_boot :: "mount_spec option"
  rs_kargs :: 'c
  skip_finalize :: bool

type_synonym 'a step = "(disk_op list, 'a) oper"

definition exec :: "install_env \<Rightarrow> disk_op \<Rightarrow> unit step" where
  "exec E op log = (lift_res (ie_exec E log op), log @ [op])"

definition sres :: "'a res \<Rightarrow> 'a step" where
  "sres r = slift (lift_res r)"

section \<open>Partition tables\<close>

definition use_discoverable_partitions :: "'c install_state \<Rightarrow> bool" where
  "use_discoverable_partitions st =
     (case Option.bind (is_install_config st) discoverable_partitions of
        Some v \<Rightarrow> v
      | None \<Rightarrow> is_bootloader st \<in> {Some Systemd, Some GrubCC})"

definition BOOTPN_SIZE_MB :: u32 where "BOOTPN_SIZE_MB = 510"

definition EFIPN_SIZE_MB :: u32 where "EFIPN_SIZE_MB = 512"

definition CFS_EFIPN_SIZE_MB :: u32 where "CFS_EFIPN_SIZE_MB = 2048"

definition PREPBOOT_GUID :: string where "PREPBOOT_GUID = ''9E1A2D38-C612-4316-AA26-8B49521E5A8B''"

definition PREPBOOT_LABEL :: string where "PREPBOOT_LABEL = ''PowerPC-PReP-boot''"

definition arch_uses_efi :: "string \<Rightarrow> bool" where
  "arch_uses_efi arch = (arch \<in> {''x86_64'', ''aarch64''})"

text \<open>\<^verbatim>\<open>this_arch_root\<close>; an architecture without an entry does not compile.\<close>

definition this_arch_root :: "string \<Rightarrow> bool \<Rightarrow> string" where
  "this_arch_root arch big_endian =
     (if arch = ''x86_64'' then ''4f68bce3-e8cd-4db1-96e7-fbcaf984b709''
      else if arch = ''arm'' then ''69dad710-2ce4-4e3c-b16c-21a1d49abed3''
      else if arch = ''aarch64'' then ''b921b045-1df0-41c3-af44-4c6f280d3fae''
      else if arch = ''s390x'' then ''5eead9a9-fe09-4a1e-a1d7-520d00531306''
      else if arch = ''powerpc64'' then
        (if big_endian then ''912ade1d-a839-4913-8964-a10eee08fbd2''
         else ''c31c45e6-3f39-412e-80fb-4809c4980599'')
      else ''72ec70a6-cf74-40e6-bd49-4bda08e8f224'')"

definition quoted :: "string \<Rightarrow> string" where
  "quoted s = CHR 0x22 # s @ [CHR 0x22]"

text \<open>The lines of the partitions in the input of \<^verbatim>\<open>sfdisk\<close>.\<close>

definition bios_boot_line :: string where
  "bios_boot_line = ''size=1MiB, bootable, type=21686148-6449-6E6F-744E-656564454649, name='' @ quoted ''BIOS-BOOT''"

definition prep_boot_line :: string where
  "prep_boot_line = ''size=4MiB, bootable, type='' @ PREPBOOT_GUID @ '', name='' @ quoted PREPBOOT_LABEL"

definition esp_line :: "bool \<Rightarrow> string" where
  "esp_line composefs_backend =
     ''size='' @ show_u32 (if composefs_backend then CFS_EFIPN_SIZE_MB else EFIPN_SIZE_MB)
       @ ''MiB, type='' @ ESP @ '', name='' @ quoted ''EFI-SYSTEM''"

definition boot_line :: string where
  "boot_line = ''size='' @ show_u32 BOOTPN_SIZE_MB @ ''MiB, name='' @ quoted ''boot''"

definition root_line :: "string \<Rightarrow> bool \<Rightarrow> u64 option \<Rightarrow> string" where
  "root_line arch big_endian root_size =
     (case root_size of Some v \<Rightarrow> ''size='' @ show_nat (unat v) @ ''MiB, '' | None \<Rightarrow> [])
       @ ''type='' @ this_arch_root arch big_endian @ '', name='' @ quoted ''root''"

text \<open>
  The input of \<^verbatim>\<open>sfdisk\<close>, as its lines, and the layout: the number of a partition is counted along with
  its line.
\<close>

definition sfdisk_script ::
  "string \<Rightarrow> bool \<Rightarrow> string \<Rightarrow> u64 option \<Rightarrow> bool \<Rightarrow> bool \<Rightarrow> (string list \<times> partition_layout) res" where
  "sfdisk_script arch big_endian random_label root_size composefs_backend bootpart =
     (let buf = [''label: gpt'', ''label-id: '' @ random_label] in
      rbind (if arch = ''x86_64'' then Inr (1, buf @ [bios_boot_line])
             else if arch = ''powerpc64'' then Inr (1, buf @ [prep_boot_line])
             else if arch = ''aarch64'' \<or> arch = ''s390x'' then Inr (0 :: u32, buf)
             else Inl ''Unsupported architecture'') (\<lambda>(n, buf).
        let (esp, n, buf) =
              (if arch_uses_efi arch then (Some (n + 1), n + 1, buf @ [esp_line composefs_backend])
               else (None, n, buf));
            (boot, n, buf) =
              (if bootpart then (Some (n + 1), n + 1, buf @ [boot_line]) else (None, n, buf))
        in Inr (buf @ [root_line arch big_endian root_size],
                \<lparr>esp_partno = esp, boot_partno = boot, rootpn = n + 1, used_repart = False\<rparr>)))"

definition sfdisk ::
  "install_env \<Rightarrow> device \<Rightarrow> u64 option \<Rightarrow> bool \<Rightarrow> bool \<Rightarrow> partition_layout step" where
  "sfdisk E dev root_size composefs_backend bootpart =
     sbind (sres (sfdisk_script (ie_arch E) (ie_big_endian E) (ie_uuid E ''label'') root_size composefs_backend bootpart))
       (\<lambda>(script, layout).
     sbind (exec E (RunStdin ''sfdisk'' [''--wipe=always'', device_path dev] (concat (map (\<lambda>l. l @ [NL]) script))))
       (\<lambda>_. sret layout))"

section \<open>\<^verbatim>\<open>systemd-repart\<close>\<close>

definition REPART_INCLUDE_PARTITIONS_MIN_VERSION :: u32 where "REPART_INCLUDE_PARTITIONS_MIN_VERSION = 253"

definition REPART_MKFS_OPTIONS_MIN_VERSION :: u32 where "REPART_MKFS_OPTIONS_MIN_VERSION = 254"

definition REPART_FILTERED_DEFINITIONS_DIR :: string where "REPART_FILTERED_DEFINITIONS_DIR = ''/tmp/repart.d''"

definition REPART_CONFIG_DIRS :: "string list" where
  "REPART_CONFIG_DIRS = [''/etc/repart.d'', ''/run/repart.d'', ''/usr/local/lib/repart.d'', ''/usr/lib/repart.d'']"

definition can_use_systemd_repart :: "install_env \<Rightarrow> bool" where
  "can_use_systemd_repart E = (ie_repart_found E \<and> list_ex (ie_dir_nonempty E) REPART_CONFIG_DIRS)"

definition need_filtered_definitions :: "install_env \<Rightarrow> bool \<Rightarrow> bool res" where
  "need_filtered_definitions E generic_image =
     (if generic_image
      then rbind (ie_systemd_version E) (\<lambda>v. Inr (v < REPART_INCLUDE_PARTITIONS_MIN_VERSION))
      else Inr False)"

definition repart_partition_is_required :: "repart_partition \<Rightarrow> bool" where
  "repart_partition_is_required part =
     (let ptype = partition_type part in
      starts_with ''root'' ptype \<or> starts_with ''esp'' ptype \<or> ptype = ''bios''
      \<or> eq_ignore_ascii_case ptype BIOS_BOOT)"

definition copy_definition :: "install_env \<Rightarrow> repart_partition \<Rightarrow> unit step" where
  "copy_definition E part =
     (if \<not> repart_partition_is_required part then sret ()
      else sbind (sget (\<lambda>log. find (ie_exists E log) (map (\<lambda>d. path_join d (part_file part)) REPART_CONFIG_DIRS))) (\<lambda>src.
        case src of
          None \<Rightarrow> sfail (Err ''Could not find repart.d definition'')
        | Some src \<Rightarrow> exec E (CopyFile src (path_join REPART_FILTERED_DEFINITIONS_DIR (part_file part)))))"

definition collect_repart_definitions :: "install_env \<Rightarrow> repart_partition list \<Rightarrow> unit step" where
  "collect_repart_definitions E dry_partitions =
     sbind (sget (\<lambda>log. ie_exists E log REPART_FILTERED_DEFINITIONS_DIR)) (\<lambda>exists.
     sbind (if exists then exec E (RemoveDirAll REPART_FILTERED_DEFINITIONS_DIR) else sret ()) (\<lambda>_.
     sbind (exec E (CreateDirAll REPART_FILTERED_DEFINITIONS_DIR)) (\<lambda>_.
       for_each (copy_definition E) dry_partitions)))"

definition repart_args :: "install_env \<Rightarrow> device \<Rightarrow> bool \<Rightarrow> bool \<Rightarrow> string list res" where
  "repart_args E dev generic_image dry_run =
     rbind (if generic_image then
              rbind (need_filtered_definitions E generic_image) (\<lambda>filtered.
                Inr (if filtered then [''--definitions='' @ REPART_FILTERED_DEFINITIONS_DIR]
                     else [''--include-partitions=root,esp,'' @ BIOS_BOOT]))
            else Inr []) (\<lambda>extra.
       Inr ([if dry_run then ''--dry-run=yes'' else ''--dry-run=no'', ''--no-pager'', ''--json=pretty'',
             ''--empty=force'', ''--root=/''] @ extra @ [device_path dev]))"

definition systemd_repart_run :: "install_env \<Rightarrow> device \<Rightarrow> bool \<Rightarrow> bool \<Rightarrow> repart_partition list step" where
  "systemd_repart_run E dev generic_image dry_run =
     sbind (sres (repart_args E dev generic_image dry_run)) (\<lambda>args.
     sbind (sget (\<lambda>log. ie_repart E log args)) (\<lambda>out.
     sbind (smodify (\<lambda>log. log @ [Run ''systemd-repart'' args])) (\<lambda>_. sres out)))"

fun repart_numbers ::
  "nat \<Rightarrow> repart_partition list \<Rightarrow> u32 option \<times> u32 option \<times> u32 option \<Rightarrow> u32 option \<times> u32 option \<times> u32 option" where
  "repart_numbers idx [] acc = acc"
| "repart_numbers idx (part # rest) (esp, boot, rt) =
     (let n = case_option (of_nat idx) id (partno part) + 1;
          t = partition_type part
      in repart_numbers (Suc idx) rest
           (if t = ''esp'' then (Some n, boot, rt)
            else if t = ''xbootldr'' then (esp, Some n, rt)
            else if starts_with ''root-'' t then (esp, boot, Some n)
            else (esp, boot, rt)))"

definition parse_repart_layout :: "repart_partition list \<Rightarrow> partition_layout res" where
  "parse_repart_layout partitions =
     (let (esp, boot, rt) = repart_numbers 0 partitions (None, None, None) in
      rbind (ok_or ''systemd-repart output missing root partition'' rt) (\<lambda>n.
        Inr \<lparr>esp_partno = esp, boot_partno = boot, rootpn = n, used_repart = True\<rparr>))"

definition space_taken :: "repart_partition list \<Rightarrow> u64" where
  "space_taken parts = foldl (\<lambda>acc x. acc + raw_size x + raw_padding x) 0 parts"

definition root_size_mib :: "device \<Rightarrow> repart_partition list \<Rightarrow> u64" where
  "root_size_mib dev dry_partitions =
     (let mb = 1024 * 1024; partition_headroom = 64 * mb
      in (dev_size (info dev) - space_taken dry_partitions - partition_headroom) div mb)"

definition root_conf :: "device \<Rightarrow> u64 option \<Rightarrow> filesystem option \<Rightarrow> repart_partition list \<Rightarrow> string res" where
  "root_conf dev root_size rootfs dry_partitions =
     (let size = show_nat (unat (case root_size of Some size_mib \<Rightarrow> size_mib | None \<Rightarrow> root_size_mib dev dry_partitions));
          conf = ''[Partition]'' @ [NL] @ ''Type=root'' @ [NL] @ ''SizeMinBytes='' @ size @ ''M'' @ [NL]
                 @ ''SizeMaxBytes='' @ size @ ''M'' @ [NL]
      in case rootfs of
           Some fs \<Rightarrow> Inr (conf @ ''Format='' @ filesystem_display fs @ [NL])
         | None \<Rightarrow> Inl ''Rootfs not specified'')"

definition systemd_repart ::
  "install_env \<Rightarrow> device \<Rightarrow> u64 option \<Rightarrow> filesystem option \<Rightarrow> bool \<Rightarrow> partition_layout step" where
  "systemd_repart E dev root_size rootfs generic_image =
     sbind (systemd_repart_run E dev False True) (\<lambda>dry_partitions.
       if dry_partitions = [] then sfail (Err ''systemd-repart returned empty partitions'')
       else if list_ex (\<lambda>p. starts_with ''root-'' (partition_type p)) dry_partitions then
         sbind (sres (need_filtered_definitions E generic_image)) (\<lambda>filtered.
         sbind (if filtered then collect_repart_definitions E dry_partitions else sret ()) (\<lambda>_.
         sbind (systemd_repart_run E dev generic_image False) (\<lambda>partitions.
           sres (parse_repart_layout partitions))))
       else
         sbind (sres (root_conf dev root_size rootfs dry_partitions)) (\<lambda>conf.
         sbind (sres (need_filtered_definitions E generic_image)) (\<lambda>filtered.
         sbind (if filtered then
                  sbind (collect_repart_definitions E dry_partitions) (\<lambda>_.
                    exec E (WriteFile (path_join REPART_FILTERED_DEFINITIONS_DIR ''50-root.conf'') conf))
                else
                  sbind (exec E (CreateDirAll ''/run/repart.d'')) (\<lambda>_.
                    exec E (WriteFile ''/run/repart.d/50-root.conf'' conf))) (\<lambda>_.
         sbind (systemd_repart_run E dev generic_image False) (\<lambda>partitions.
           sres (parse_repart_layout partitions))))))"

section \<open>The root setup\<close>

definition wipefs :: "install_env \<Rightarrow> string \<Rightarrow> unit step" where
  "wipefs E dev = exec E (Run ''wipefs'' [''-a'', dev])"

definition udev_settle :: "install_env \<Rightarrow> unit step" where
  "udev_settle E = exec E (Run ''udevadm'' [''settle''])"

definition list_dev_now :: "install_env \<Rightarrow> string \<Rightarrow> device step" where
  "list_dev_now E dev log = sres (list_dev (ie_bd E log) dev) log"

definition mkfs_args :: "string \<Rightarrow> filesystem \<Rightarrow> string \<Rightarrow> bool \<Rightarrow> string list \<Rightarrow> string \<Rightarrow> string list" where
  "mkfs_args dev fs label wipe opts u =
     (case fs of
        Xfs \<Rightarrow> (if wipe then [''-f''] else []) @ [''-m'', ''uuid='' @ u]
      | _ \<Rightarrow> [''-U'', u])
     @ [''-L'', label] @ opts @ [dev]"

definition mkfs :: "install_env \<Rightarrow> string \<Rightarrow> filesystem \<Rightarrow> string \<Rightarrow> bool \<Rightarrow> string list \<Rightarrow> string step" where
  "mkfs E dev fs label wipe opts =
     sbind (list_dev_now E dev) (\<lambda>_.
     sbind (exec E (Run (''mkfs.'' @ filesystem_display fs) (mkfs_args dev fs label wipe opts (ie_uuid E label)))) (\<lambda>_.
       sret (ie_uuid E label)))"

text \<open>The refusals and the wiping, up to the empty mount point directory.\<close>

definition check_target :: "install_env \<Rightarrow> install_block_device_opts \<Rightarrow> device step" where
  "check_target E opts =
     sbind (list_dev_now E (bo_device opts)) (\<lambda>dev.
     sbind (sres (is_mounted_in_pid1_mountns (ie_pid1_mounts E) (device_path dev))) (\<lambda>mounted.
       if mounted then sfail (Err ''Device is mounted'')
       else
         sbind (if bo_wipe opts then
                  sbind (for_each (\<lambda>child. wipefs E (device_path child)) (case_option [] id (children dev))) (\<lambda>_.
                    wipefs E (bo_device opts))
                else if has_children dev then
                  sfail (Err ''Detected existing partitions; use e.g. wipefs or --wipe if you intend to overwrite'')
                else sret ()) (\<lambda>_.
         sbind (sget (\<lambda>log. ie_exists E log ''/run/bootc/mounts'')) (\<lambda>exists.
         sbind (if exists then exec E (RemoveDirAll ''/run/bootc/mounts'') else sret ()) (\<lambda>_.
           sret dev)))))"

definition choose_block_setup :: "'c install_state \<Rightarrow> install_block_device_opts \<Rightarrow> bool \<Rightarrow> block_setup res" where
  "choose_block_setup st opts use_systemd_repart =
     (case is_install_config st of
        Some config \<Rightarrow> get_block_setup config (bo_block_setup opts)
      | None \<Rightarrow>
          if bo_filesystem opts \<noteq> None \<or> use_systemd_repart then Inr (case_option Direct id (bo_block_setup opts))
          else Inl ''No install configuration found, and no filesystem specified'')"

definition root_filesystem_of ::
  "'c install_state \<Rightarrow> install_block_device_opts \<Rightarrow> device \<Rightarrow> partition_layout \<Rightarrow> string res" where
  "root_filesystem_of st opts dev layout =
     (if used_repart layout then
        rbind (find_device_by_partno dev (rootpn layout)) (\<lambda>r.
          ok_or ''repart: Root filesystem type not defined'' (dev_fstype (info r)))
      else
        rbind (ok_or ''No root filesystem specified''
                (case bo_filesystem opts of
                   Some fs \<Rightarrow> Some fs
                 | None \<Rightarrow> Option.bind (is_install_config st) (\<lambda>c. Option.bind (filesystem_root c) fstype)))
              (\<lambda>fs. Inr (filesystem_display fs)))"

text \<open>The match on the block setup: the root device and the kernel arguments it needs.\<close>

definition open_root_device :: "install_env \<Rightarrow> block_setup \<Rightarrow> device \<Rightarrow> (string \<times> string list option) step" where
  "open_root_device E setup root_device =
     (case setup of
        Direct \<Rightarrow> sret (device_path root_device, None)
      | Tpm2Luks \<Rightarrow>
          (let uuid = ie_uuid E ''luks''; dummy_passphrase = ie_uuid E ''passphrase'';
               root_devpath = device_path root_device in
           sbind (sres (ie_keyfile E)) (\<lambda>tmp_keyfile.
           sbind (exec E (Run ''cryptsetup'' [''luksFormat'', ''--uuid'', uuid, ''--key-file'', tmp_keyfile, root_devpath])) (\<lambda>_.
           sbind (exec E (RunStdin ''systemd-cryptenroll''
                   [''--wipe-slot=all'', ''--tpm2-device=auto'', ''--unlock-key-file'', tmp_keyfile, root_devpath]
                   dummy_passphrase)) (\<lambda>_.
           sbind (exec E (Run ''cryptsetup'' [''luksOpen'', root_devpath, ''root''])) (\<lambda>_.
             sret (''/dev/mapper/root'',
                   Some [''luks.uuid='' @ uuid, ''luks.options=tpm2-device=auto,headless=true''])))))))"

definition make_boot_fs ::
  "install_env \<Rightarrow> install_block_device_opts \<Rightarrow> partition_layout \<Rightarrow> string \<Rightarrow> device option \<Rightarrow> string option step" where
  "make_boot_fs E opts layout root_filesystem bootdev =
     (case bootdev of
        None \<Rightarrow> sret None
      | Some bootdev \<Rightarrow>
          sbind (if used_repart layout then
                   sres (rbind (ok_or ''bootdev UUID not found'' (dev_uuid (info bootdev))) (ie_uuid_parse E))
                 else
                   sbind (sres (filesystem_try_from root_filesystem)) (\<lambda>fs.
                     mkfs E (device_path bootdev) fs ''boot'' (bo_wipe opts) [])) (\<lambda>u.
            sret (Some u)))"

definition make_root_fs ::
  "install_env \<Rightarrow> install_block_device_opts \<Rightarrow> partition_layout \<Rightarrow> string \<Rightarrow> device \<Rightarrow> string \<Rightarrow> string step" where
  "make_root_fs E opts layout root_filesystem root_device rootdev_path =
     (if used_repart layout then
        sbind (sres (ok_or ''Root device created by repart has no filesystem UUID'' (dev_uuid (info root_device)))) (\<lambda>u.
        sbind (sres (ie_systemd_version E)) (\<lambda>v.
        sbind (if v < REPART_MKFS_OPTIONS_MIN_VERSION \<and> root_filesystem = ''ext4''
               then exec E (Run ''tune2fs'' [''-O'', ''verity'', device_path root_device])
               else sret ()) (\<lambda>_.
          sres (ie_uuid_parse E u))))
      else
        sbind (sres (filesystem_try_from root_filesystem)) (\<lambda>rootfs.
          mkfs E rootdev_path rootfs ''root'' (bo_wipe opts) (if rootfs = Ext4 then [''-O'', ''verity''] else [])))"

definition RW_KARG :: string where "RW_KARG = ''rw''"

text \<open>The kernel arguments: of the root device, of the root and boot file systems, of the command line.\<close>

definition root_kargs ::
  "('c, 'p) cmdline_ops \<Rightarrow> 'c install_state \<Rightarrow> string list option \<Rightarrow> string \<Rightarrow> string option \<Rightarrow> 'c" where
  "root_kargs C st root_blockdev_kargs root_uuid bootarg =
     (let kargs = fold (\<lambda>karg ks. c_extend C ks (c_from C karg)) (case_option [] id root_blockdev_kargs) (c_empty C);
          kargs = c_extend C kargs
                    (c_from C (if use_discoverable_partitions st then RW_KARG
                               else ''root=UUID='' @ root_uuid @ '' '' @ RW_KARG));
          kargs = (case bootarg of Some b \<Rightarrow> c_extend C kargs (c_from C b) | None \<Rightarrow> kargs)
      in fold (\<lambda>karg ks. c_extend C ks karg) (case_option [] id (is_karg st)) kargs)"

definition physical_root :: string where "physical_root = ''/run/bootc/mounts/rootfs''"

definition mount_typed :: "install_env \<Rightarrow> string \<Rightarrow> string \<Rightarrow> string \<Rightarrow> unit step" where
  "mount_typed E dev fstyp target = exec E (Run ''mount'' [''-t'', fstyp, dev, target])"

definition mount_filesystems ::
  "install_env \<Rightarrow> device \<Rightarrow> partition_layout \<Rightarrow> string \<Rightarrow> string \<Rightarrow> device option \<Rightarrow> unit step" where
  "mount_filesystems E dev layout fstyp rootdev_path bootdev =
     (let bootfs = path_join physical_root ''boot'' in
      sbind (mount_typed E rootdev_path fstyp physical_root) (\<lambda>_.
      sbind (exec E (EnsureDirLabeled '''')) (\<lambda>_.
      sbind (exec E (EnsureDirLabeled ''boot'')) (\<lambda>_.
      sbind (case bootdev of Some b \<Rightarrow> mount_typed E (device_path b) fstyp bootfs | None \<Rightarrow> sret ()) (\<lambda>_.
      sbind (exec E (EnsureDirLabeled ''boot'')) (\<lambda>_.
        case esp_partno layout of
          None \<Rightarrow> sret ()
        | Some n \<Rightarrow>
            sbind (sres (find_device_by_partno dev n)) (\<lambda>espdev.
            sbind (if \<not> used_repart layout
                   then exec E (Run ''mkfs.fat'' [device_path espdev, ''-n'', ''EFI-SYSTEM''])
                   else sret ()) (\<lambda>_.
              exec E (CreateDir (path_join bootfs ''efi''))))))))))"

definition install_create_rootfs ::
  "('c, 'p) cmdline_ops \<Rightarrow> install_env \<Rightarrow> 'c install_state \<Rightarrow> install_block_device_opts \<Rightarrow> bool \<Rightarrow> 'c root_setup step" where
  "install_create_rootfs C E st opts run_repart =
     sbind (check_target E opts) (\<lambda>dev.
     let use_systemd_repart = run_repart \<and> can_use_systemd_repart E in
     sbind (sres (choose_block_setup st opts use_systemd_repart)) (\<lambda>setup.
     sbind (sres (case bo_root_size opts of
                    None \<Rightarrow> Inr None
                  | Some s \<Rightarrow> rbind (parse_size_mib s) (\<lambda>v. Inr (Some v)))) (\<lambda>root_size.
     sbind (sres (ie_load_policy E)) (\<lambda>_.
     sbind (exec E (CreateDirAll physical_root)) (\<lambda>_.
     sbind (exec E (CreateDirAll ''/run/bootc/mounts/boot'')) (\<lambda>_.
     sbind (if use_systemd_repart
            then systemd_repart E dev root_size (bo_filesystem opts) (is_generic_image st)
            else sfdisk E dev root_size (is_composefs_backend st) (requires_bootpart setup)) (\<lambda>layout.
     sbind (udev_settle E) (\<lambda>_.
     sbind (list_dev_now E (device_path dev)) (\<lambda>dev.
     sbind (sres (root_filesystem_of st opts dev layout)) (\<lambda>root_filesystem.
     sbind (sres (find_device_by_partno dev (rootpn layout))) (\<lambda>root_device.
     let expected_parttype = this_arch_root (ie_arch E) (ie_big_endian E) in
     if \<not> (case dev_parttype (info root_device) of Some pt \<Rightarrow> eq_ignore_ascii_case pt expected_parttype | None \<Rightarrow> False)
     then sfail (Err ''root partition has an unexpected type'')
     else
     sbind (open_root_device E setup root_device) (\<lambda>(rootdev_path, root_blockdev_kargs).
     sbind (sres (case boot_partno layout of
                    Some n \<Rightarrow> rbind (find_device_by_partno dev n) (\<lambda>b. Inr (Some b))
                  | None \<Rightarrow> Inr None)) (\<lambda>bootdev.
     sbind (make_boot_fs E opts layout root_filesystem bootdev) (\<lambda>boot_uuid.
     sbind (make_root_fs E opts layout root_filesystem root_device rootdev_path) (\<lambda>root_uuid.
     let bootsrc = map_option (\<lambda>u. ''UUID='' @ u) boot_uuid;
         bootarg = map_option (\<lambda>s. ''boot='' @ s) bootsrc;
         boot = map_option (\<lambda>s. \<lparr>ms_source = s, ms_target = ''/boot'', ms_fstype = ''auto'', ms_options = Some ''ro''\<rparr>) bootsrc
     in
     sbind (mount_filesystems E dev layout root_filesystem rootdev_path bootdev) (\<lambda>_.
       sret \<lparr>luks_device = (case setup of Direct \<Rightarrow> None | Tpm2Luks \<Rightarrow> Some ''root''),
             device_info = dev, physical_root_path = physical_root, rootfs_uuid = Some root_uuid,
             rs_boot = boot, rs_kargs = root_kargs C st root_blockdev_kargs root_uuid bootarg,
             skip_finalize = False\<rparr>))))))))))))))))"

section \<open>Partition numbers\<close>

text \<open>The partition lines follow the two lines of the header.\<close>

definition partition_line :: "string list \<Rightarrow> u32 \<Rightarrow> string" where
  "partition_line script n = drop 2 script ! (unat n - 1)"

lemma sfdisk_arch:
  "sfdisk_script arch be lbl root_size cfs bootpart = Inr r \<Longrightarrow> arch \<in> {''x86_64'', ''powerpc64'', ''aarch64'', ''s390x''}"
  by (rule ccontr) (simp add: sfdisk_script_def Let_def)

text \<open>
  C36. The layout returned for a partition table written by sfdisk counts the lines of its input: the
  lines with the numbers of the root, the EFI and the boot partition are the ones written for
  them, and the root partition is the last one; the EFI partition is there exactly on the architectures that
  boot with EFI, the boot partition exactly when the block setup requires it.
\<close>

theorem sfdisk_layout:
  assumes "sfdisk_script arch be lbl root_size cfs bootpart = Inr (script, L)"
  shows "unat (rootpn L) = length (drop 2 script)
    \<and> partition_line script (rootpn L) = root_line arch be root_size
    \<and> (case esp_partno L of
         None \<Rightarrow> \<not> arch_uses_efi arch
       | Some n \<Rightarrow> arch_uses_efi arch \<and> 0 < n \<and> n < rootpn L \<and> partition_line script n = esp_line cfs)
    \<and> (case boot_partno L of
         None \<Rightarrow> \<not> bootpart
       | Some n \<Rightarrow> bootpart \<and> 0 < n \<and> n < rootpn L \<and> partition_line script n = boot_line)"
  using assms sfdisk_arch [OF assms]
  by (cases bootpart) (auto simp: sfdisk_script_def arch_uses_efi_def partition_line_def Let_def)

theorem sfdisk_layout_witness:
  "\<exists>script L. sfdisk_script ''x86_64'' False ''id'' None False True = Inr (script, L)
    \<and> unat (rootpn L) = length (drop 2 script) \<and> partition_line script (rootpn L) = root_line ''x86_64'' False None"
proof -
  obtain script L where s: "sfdisk_script ''x86_64'' False ''id'' None False True = Inr (script, L)"
    by (simp add: sfdisk_script_def arch_uses_efi_def Let_def)
  from sfdisk_layout [OF s] s show ?thesis by blast
qed

section \<open>Refusals\<close>

text \<open>When nothing but looking at the target has been done.\<close>

definition target_free :: "install_env \<Rightarrow> disk_op list \<Rightarrow> install_block_device_opts \<Rightarrow> device \<Rightarrow> bool" where
  "target_free E log opts dev =
     (list_dev (ie_bd E log) (bo_device opts) = Inr dev
      \<and> is_mounted_in_pid1_mountns (ie_pid1_mounts E) (device_path dev) = Inr False
      \<and> (has_children dev \<longrightarrow> bo_wipe opts))"

lemma sres_snd [simp]: "snd (sres r log) = log"
  by (simp add: sres_def slift_def)

lemma list_dev_now_snd [simp]: "snd (list_dev_now E d log) = log"
  by (simp add: list_dev_now_def)

lemma sres_eq: "sres r log = (case r of Inl e \<Rightarrow> (Inl (Err e), log) | Inr v \<Rightarrow> (Inr v, log))"
  by (simp add: sres_def slift_def lift_res_def split: sum.split)

lemma check_target_free:
  "(\<exists>e. check_target E opts log = (Inl e, log)) \<or> (\<exists>dev. target_free E log opts dev)"
proof (cases "list_dev (ie_bd E log) (bo_device opts)")
  case (Inl e)
  then show ?thesis by (simp add: check_target_def sbind_def list_dev_now_def sres_eq)
next
  case (Inr dev)
  show ?thesis
  proof (cases "is_mounted_in_pid1_mountns (ie_pid1_mounts E) (device_path dev) = Inr False \<and> (has_children dev \<longrightarrow> bo_wipe opts)")
    case True
    with Inr have "target_free E log opts dev" by (simp add: target_free_def)
    then show ?thesis by blast
  next
    case False
    with Inr show ?thesis
      by (cases "is_mounted_in_pid1_mountns (ie_pid1_mounts E) (device_path dev)")
         (auto simp: check_target_def sbind_def list_dev_now_def sres_eq sfail_def)
  qed
qed

text \<open>
  C15. Whatever the options and the configuration, the installation to a disk fails without running any
  command or touching any file unless the target is listed, is not a source of any mount of the host, and
  has no partitions or is to be wiped.
\<close>

theorem refused_disk_untouched:
  "(\<exists>e. install_create_rootfs C E st opts run_repart log = (Inl e, log))
    \<or> (\<exists>dev. list_dev (ie_bd E log) (bo_device opts) = Inr dev
          \<and> \<not> list_ex (is_source_mounted (device_path dev)) (case_sum (\<lambda>_. []) id (ie_pid1_mounts E))
          \<and> is_ok (ie_pid1_mounts E)
          \<and> (if has_children dev then bo_wipe opts else True))"
proof -
  have any: "any_source_mounted p fs = list_ex (is_source_mounted p) fs" for p fs by (induction fs) auto
  have "target_free E log opts dev \<Longrightarrow> ?thesis" for dev
    by (intro disjI2 exI [of _ dev])
       (auto simp: target_free_def is_mounted_in_pid1_mountns_def rbind_Inr_iff any)
  moreover have "check_target E opts log = (Inl e, log) \<Longrightarrow> ?thesis" for e
    by (simp add: install_create_rootfs_def sbind_def)
  ultimately show ?thesis using check_target_free [of E opts log] by blast
qed

section \<open>What a finished root setup stands for\<close>

text \<open>Operations are only ever added to the log.\<close>

interpretation log_order: state_order "prefix :: disk_op list \<Rightarrow> disk_op list \<Rightarrow> bool"
  by unfold_locales auto

lemma keeps_exec [intro, simp]: "keeps prefix (exec E a)"
  by (simp add: keeps_def exec_def)

lemma keeps_sres [intro, simp]: "keeps prefix (sres r)" "keeps prefix (list_dev_now E d)"
  by (simp_all add: keeps_def)

lemma keeps_check_target: "keeps prefix (check_target E opts)"
  unfolding check_target_def wipefs_def
  by (auto intro!: log_order.keeps_bind log_order.keeps_for_each)

lemma exec_Inr: "exec E a log = (Inr v, log') \<Longrightarrow> log' = log @ [a]"
  by (simp add: exec_def)

lemma sres_Inr_iff [simp]: "sres r log = (Inr v, log') \<longleftrightarrow> r = Inr v \<and> log' = log"
  by (auto simp: sres_eq split: sum.split)

lemma sret_Inr_iff: "sret v log = (Inr w, log') \<longleftrightarrow> w = v \<and> log' = log"
  by (auto simp: sret_def)

lemma if_sfail: "(if c then sfail e else m) l = (Inr v, l') \<longleftrightarrow> \<not> c \<and> m l = (Inr v, l')"
  by (simp add: sfail_def)

lemma filesystem_display_inj [simp]: "filesystem_display a = filesystem_display b \<longleftrightarrow> a = b"
  using fs_name.enc_inj [of a b] by auto

text \<open>The commands that are run: to format, to encrypt and open the root partition, and to mount.\<close>

definition format_ops :: "string \<Rightarrow> filesystem \<Rightarrow> string \<Rightarrow> bool \<Rightarrow> string \<Rightarrow> disk_op list" where
  "format_ops dev fs label wipe u =
     [Run (''mkfs.'' @ filesystem_display fs)
        (mkfs_args dev fs label wipe (if label = ''root'' \<and> fs = Ext4 then [''-O'', ''verity''] else []) u)]"

definition encrypt_ops :: "string \<Rightarrow> string \<Rightarrow> string \<Rightarrow> string \<Rightarrow> disk_op list" where
  "encrypt_ops dev u keyfile passphrase =
     [Run ''cryptsetup'' [''luksFormat'', ''--uuid'', u, ''--key-file'', keyfile, dev],
      RunStdin ''systemd-cryptenroll'' [''--wipe-slot=all'', ''--tpm2-device=auto'', ''--unlock-key-file'', keyfile, dev] passphrase,
      Run ''cryptsetup'' [''luksOpen'', dev, ''root'']]"

definition mount_ops :: "filesystem \<Rightarrow> string \<Rightarrow> string option \<Rightarrow> string option \<Rightarrow> disk_op list" where
  "mount_ops fs rootdev bootdev espdev =
     [Run ''mount'' [''-t'', filesystem_display fs, rootdev, ''/run/bootc/mounts/rootfs''], EnsureDirLabeled '''', EnsureDirLabeled ''boot'']
     @ (case bootdev of Some b \<Rightarrow> [Run ''mount'' [''-t'', filesystem_display fs, b, ''/run/bootc/mounts/rootfs/boot'']] | None \<Rightarrow> [])
     @ [EnsureDirLabeled ''boot'']
     @ (case espdev of
          Some e \<Rightarrow> [Run ''mkfs.fat'' [e, ''-n'', ''EFI-SYSTEM''], CreateDir ''/run/bootc/mounts/rootfs/boot/efi'']
        | None \<Rightarrow> [])"

lemma boot_paths:
  "path_join physical_root ''boot'' = ''/run/bootc/mounts/rootfs/boot''"
  "path_join ''/run/bootc/mounts/rootfs/boot'' ''efi'' = ''/run/bootc/mounts/rootfs/boot/efi''"
  by code_simp+

lemma mkfs_logged:
  "mkfs E dev fs label w opts log = (Inr u, log') \<Longrightarrow>
     u = ie_uuid E label \<and> log' = log @ [Run (''mkfs.'' @ filesystem_display fs) (mkfs_args dev fs label w opts u)]"
  by (auto simp: mkfs_def sbind_Inr_iff exec_def sret_def list_dev_now_def)

lemma make_root_logged:
  assumes "make_root_fs E opts layout (filesystem_display fs) rd rp l = (Inr u, l')" and "\<not> used_repart layout"
  shows "u = ie_uuid E ''root'' \<and> l' = l @ format_ops rp fs ''root'' (bo_wipe opts) u"
  using assms by (auto simp: make_root_fs_def sbind_Inr_iff filesystem_try_from_Inr format_ops_def dest!: mkfs_logged)

lemma make_boot_logged:
  assumes "make_boot_fs E opts layout (filesystem_display fs) bd l = (Inr bu, l')" and "\<not> used_repart layout"
  shows "bu = map_option (\<lambda>_. ie_uuid E ''boot'') bd
    \<and> l' = l @ (case bd of None \<Rightarrow> [] | Some b \<Rightarrow> format_ops (device_path b) fs ''boot'' (bo_wipe opts) (ie_uuid E ''boot''))"
  using assms
  by (cases bd) (auto simp: make_boot_fs_def sbind_Inr_iff sret_Inr_iff filesystem_try_from_Inr format_ops_def dest!: mkfs_logged)

lemma open_root_logged:
  assumes "open_root_device E bs rd l = (Inr (rp, bk), l')"
  shows "if bs = Tpm2Luks
    then \<exists>keyfile. ie_keyfile E = Inr keyfile \<and> rp = ''/dev/mapper/root''
      \<and> bk = Some [''luks.uuid='' @ ie_uuid E ''luks'', ''luks.options=tpm2-device=auto,headless=true'']
      \<and> l' = l @ encrypt_ops (device_path rd) (ie_uuid E ''luks'') keyfile (ie_uuid E ''passphrase'')
    else rp = device_path rd \<and> bk = None \<and> l' = l"
  using assms
  by (cases bs) (auto simp: open_root_device_def Let_def sbind_Inr_iff sret_Inr_iff encrypt_ops_def dest!: exec_Inr)

lemma mount_logged:
  assumes "mount_filesystems E dev layout (filesystem_display fs) rp bd l = (Inr (), l')" and "\<not> used_repart layout"
  shows "\<exists>esp. (case esp_partno layout of
        None \<Rightarrow> esp = None | Some n \<Rightarrow> \<exists>e. find_device_by_partno dev n = Inr e \<and> esp = Some (device_path e))
    \<and> l' = l @ mount_ops fs rp (map_option device_path bd) esp"
proof (cases "esp_partno layout")
  case None
  with assms show ?thesis
    by (cases bd) (auto simp: mount_filesystems_def mount_typed_def Let_def sbind_Inr_iff sret_Inr_iff mount_ops_def
        boot_paths physical_root_def [symmetric] dest!: exec_Inr)
next
  case (Some n)
  with assms show ?thesis
    by (cases bd) (auto simp: mount_filesystems_def mount_typed_def Let_def sbind_Inr_iff sret_Inr_iff mount_ops_def
        boot_paths physical_root_def [symmetric] dest!: exec_Inr)
qed

lemma sfdisk_logged:
  assumes "sfdisk E d sz cfs bootpart l = (Inr L, l')"
  shows "\<not> used_repart L \<and> (boot_partno L \<noteq> None \<longleftrightarrow> bootpart)
    \<and> (\<exists>script. sfdisk_script (ie_arch E) (ie_big_endian E) (ie_uuid E ''label'') sz cfs bootpart = Inr (script, L)
         \<and> l' = l @ [RunStdin ''sfdisk'' [''--wipe=always'', device_path d] (concat (map (\<lambda>l. l @ [NL]) script))])"
proof -
  obtain script where s: "sfdisk_script (ie_arch E) (ie_big_endian E) (ie_uuid E ''label'') sz cfs bootpart = Inr (script, L)"
      "l' = l @ [RunStdin ''sfdisk'' [''--wipe=always'', device_path d] (concat (map (\<lambda>l. l @ [NL]) script))]"
    using assms by (auto simp: sfdisk_def sbind_Inr_iff sret_Inr_iff dest!: exec_Inr)
  moreover have "\<not> used_repart L \<and> (boot_partno L \<noteq> None \<longleftrightarrow> bootpart)"
    using s(1) sfdisk_arch [OF s(1)]
    by (cases bootpart; cases "arch_uses_efi (ie_arch E)") (auto simp: sfdisk_script_def Let_def)
  ultimately show ?thesis by blast
qed

lemma root_kargs_list:
  "root_kargs C st bk u ba =
    fold (\<lambda>karg ks. c_extend C ks karg)
      (map (c_from C) (case_option [] id bk @ [(if use_discoverable_partitions st then [] else ''root=UUID='' @ u @ '' '') @ ''rw'']
         @ (case ba of Some b \<Rightarrow> [b] | None \<Rightarrow> [])) @ case_option [] id (is_karg st))
      (c_empty C)"
  by (cases ba) (simp_all add: root_kargs_def Let_def fold_map comp_def RW_KARG_def)

text \<open>The steps of a successful run with sfdisk.\<close>

lemma create_rootfs_steps:
  assumes "install_create_rootfs C E st opts run_repart log = (Inr rs, log')"
    and "\<not> (run_repart \<and> can_use_systemd_repart E)"
  obtains bs layout d0 sz dev rf rd rp bk bd bu u tb l0 l2 l3 l4 where
    "choose_block_setup st opts False = Inr bs"
    "(case bo_root_size opts of None \<Rightarrow> Inr None | Some s \<Rightarrow> rbind (parse_size_mib s) (\<lambda>v. Inr (Some v))) = Inr sz"
    "sfdisk E d0 sz (is_composefs_backend st) (requires_bootpart bs) tb = (Inr layout, l0)"
    "root_filesystem_of st opts dev layout = Inr rf"
    "find_device_by_partno dev (rootpn layout) = Inr rd"
    "(case dev_parttype (info rd) of Some pt \<Rightarrow> eq_ignore_ascii_case pt (this_arch_root (ie_arch E) (ie_big_endian E)) | None \<Rightarrow> False)"
    "open_root_device E bs rd (l0 @ [Run ''udevadm'' [''settle'']]) = (Inr (rp, bk), l2)"
    "(case boot_partno layout of Some n \<Rightarrow> rbind (find_device_by_partno dev n) (\<lambda>b. Inr (Some b)) | None \<Rightarrow> Inr None) = Inr bd"
    "make_boot_fs E opts layout rf bd l2 = (Inr bu, l3)"
    "make_root_fs E opts layout rf rd rp l3 = (Inr u, l4)"
    "mount_filesystems E dev layout rf rp bd l4 = (Inr (), log')"
    "rs = \<lparr>luks_device = (case bs of Direct \<Rightarrow> None | Tpm2Luks \<Rightarrow> Some ''root''), device_info = dev,
       physical_root_path = physical_root, rootfs_uuid = Some u,
       rs_boot = map_option (\<lambda>u. \<lparr>ms_source = ''UUID='' @ u, ms_target = ''/boot'', ms_fstype = ''auto'', ms_options = Some ''ro''\<rparr>) bu,
       rs_kargs = root_kargs C st bk u (map_option (\<lambda>u. ''boot=UUID='' @ u) bu), skip_finalize = False\<rparr>"
    "list_dev (ie_bd E log) (bo_device opts) = Inr d0"
    "prefix log tb"
proof -
  have R: "(run_repart \<and> can_use_systemd_repart E) = False" using assms(2) by simp
  from assms(1) obtain bs layout d0 sz dev rf rd rp bk bd bu u tb l0 l1 l2 l3 l4 lc ld lt where
    s: "choose_block_setup st opts False = Inr bs"
    "(case bo_root_size opts of None \<Rightarrow> Inr None | Some s \<Rightarrow> rbind (parse_size_mib s) (\<lambda>v. Inr (Some v))) = Inr sz"
    "sfdisk E d0 sz (is_composefs_backend st) (requires_bootpart bs) tb = (Inr layout, l0)"
    "root_filesystem_of st opts dev layout = Inr rf"
    "find_device_by_partno dev (rootpn layout) = Inr rd"
    "(case dev_parttype (info rd) of Some pt \<Rightarrow> eq_ignore_ascii_case pt (this_arch_root (ie_arch E) (ie_big_endian E)) | None \<Rightarrow> False)"
    "open_root_device E bs rd l1 = (Inr (rp, bk), l2)"
    "(case boot_partno layout of Some n \<Rightarrow> rbind (find_device_by_partno dev n) (\<lambda>b. Inr (Some b)) | None \<Rightarrow> Inr None) = Inr bd"
    "make_boot_fs E opts layout rf bd l2 = (Inr bu, l3)"
    "make_root_fs E opts layout rf rd rp l3 = (Inr u, l4)"
    "mount_filesystems E dev layout rf rp bd l4 = (Inr (), log')"
    and rs: "rs = \<lparr>luks_device = (case bs of Direct \<Rightarrow> None | Tpm2Luks \<Rightarrow> Some ''root''), device_info = dev,
       physical_root_path = physical_root, rootfs_uuid = Some u,
       rs_boot = map_option (\<lambda>s. \<lparr>ms_source = s, ms_target = ''/boot'', ms_fstype = ''auto'', ms_options = Some ''ro''\<rparr>)
         (map_option (\<lambda>u. ''UUID='' @ u) bu),
       rs_kargs = root_kargs C st bk u (map_option (\<lambda>s. ''boot='' @ s) (map_option (\<lambda>u. ''UUID='' @ u) bu)),
       skip_finalize = False\<rparr>"
    and settle: "udev_settle E l0 = (Inr (), lt)" "list_dev_now E (device_path d0) lt = (Inr dev, l1)"
    and check: "check_target E opts log = (Inr d0, lc)" "exec E (CreateDirAll physical_root) lc = (Inr (), ld)"
      "exec E (CreateDirAll ''/run/bootc/mounts/boot'') ld = (Inr (), tb)"
    unfolding install_create_rootfs_def Let_def R
    by (clarsimp simp: sbind_Inr_iff Let_def if_sfail sret_Inr_iff split_def
        simp del: option.map_comp) (rule that, assumption+)
  have lt: "lt = l0 @ [Run ''udevadm'' [''settle'']]" using settle(1) by (auto simp: udev_settle_def dest: exec_Inr)
  have l1: "l1 = lt" using settle(2) by (simp add: list_dev_now_def)
  have "prefix log lc" using keeps_check_target [of E opts, unfolded keeps_def, rule_format, of log] check(1) by simp
  then have "prefix log tb" using check(2,3) by (auto dest!: exec_Inr)
  moreover
  have "list_dev (ie_bd E log) (bo_device opts) = Inr d0"
    using check(1) by (auto simp: check_target_def sbind_Inr_iff sret_Inr_iff list_dev_now_def if_sfail)
  ultimately show thesis using that [OF s(1-6) s(7) [unfolded l1 lt] s(8-11)] rs
    by (simp add: option.map_comp comp_def)
qed


section \<open>An installation\<close>

definition demo_dev :: "string \<Rightarrow> u32 option \<Rightarrow> string option \<Rightarrow> device list option \<Rightarrow> device" where
  "demo_dev name n ptype cs =
     Device \<lparr>dev_name = name, dev_serial = None, dev_model = None, dev_partlabel = None, dev_parttype = ptype,
       dev_partuuid = None, dev_partn = n, dev_size = 10737418240, dev_maj_min = None, dev_start = None,
       dev_label = None, dev_fstype = None, dev_uuid = None, dev_path = None, dev_pttype = None, dev_ro = None\<rparr> cs"

definition demo_disk :: "disk_op list \<Rightarrow> device" where
  "demo_disk log =
     demo_dev ''vda'' None None
       (if log = [] then None
        else Some [demo_dev ''vda1'' (Some 1) (Some BIOS_BOOT) None, demo_dev ''vda2'' (Some 2) (Some ESP) None,
                   demo_dev ''vda3'' (Some 3) (Some (this_arch_root ''x86_64'' False)) None])"

definition demo_bd_env :: "disk_op list \<Rightarrow> bd_env" where
  "demo_bd_env log =
     \<lparr>bd_lsblk = (\<lambda>_. Inr [demo_disk log]), bd_lsblk_inverse = (\<lambda>_. Inl []), bd_sysfs = (\<lambda>_ _. Inr None),
      bd_have_udev = True, bd_blkid = (\<lambda>_. Inl []), bd_zpool = (\<lambda>_. Inl []), bd_canonicalize = Inr,
      bd_partition = (\<lambda>_. None), bd_dm_uuid = (\<lambda>_. None)\<rparr>"

definition demo_install_env :: install_env where
  "demo_install_env =
     \<lparr>ie_exec = (\<lambda>_ _. Inr ()), ie_bd = demo_bd_env, ie_pid1_mounts = Inr [MntFs ''/dev/sda2'' ''/'' None],
      ie_exists = (\<lambda>_ _. False), ie_dir_nonempty = (\<lambda>_. False), ie_repart_found = False,
      ie_repart = (\<lambda>_ _. Inr []), ie_systemd_version = Inr 255, ie_arch = ''x86_64'', ie_big_endian = False,
      ie_uuid = (\<lambda>purpose. ''uuid-'' @ purpose), ie_uuid_parse = Inr, ie_keyfile = Inr ''/tmp/key'',
      ie_load_policy = Inr ()\<rparr>"

definition demo_install_state :: "string list install_state" where
  "demo_install_state =
     \<lparr>is_install_config = Some (canonicalize_config (no_config\<lparr>root_fs_type := Some Xfs\<rparr>)), is_bootloader = Some Grub,
      is_karg = None, is_generic_image = False, is_composefs_backend = False\<rparr>"

definition demo_install_opts :: install_block_device_opts where
  "demo_install_opts =
     \<lparr>bo_device = ''/dev/vda'', bo_wipe = False, bo_block_setup = None, bo_filesystem = None, bo_root_size = None\<rparr>"

lemma demo_install_ok:
  "is_ok (fst (install_create_rootfs cmdline_ref demo_install_env demo_install_state demo_install_opts False []))"
  by code_simp


text \<open>
  With \<^verbatim>\<open>--wipe\<close> the disk is wiped before the block setup is checked: a setup that the configuration does not
  enable is refused only then.
\<close>

lemma wiped_before_refusal:
  "install_create_rootfs cmdline_ref demo_install_env demo_install_state
     (demo_install_opts\<lparr>bo_wipe := True, bo_block_setup := Some Tpm2Luks\<rparr>) False []
   = (Inl (Err ''Block setup is not enabled in installation config''), [Run ''wipefs'' [''-a'', ''/dev/vda'']])"
  by code_simp

text \<open>Without any root file system type the disk is partitioned before the error.\<close>

lemma partitioned_before_refusal:
  "case install_create_rootfs cmdline_ref demo_install_env
     (demo_install_state\<lparr>is_install_config := Some (canonicalize_config no_config)\<rparr>) demo_install_opts False [] of
     (r, log) \<Rightarrow> r = Inl (Err ''No root filesystem specified'')
       \<and> list_ex (\<lambda>a. case a of RunStdin p _ _ \<Rightarrow> p = ''sfdisk'' | _ \<Rightarrow> False) log"
  by code_simp

section \<open>The size of the root partition\<close>

lemma space_taken_sum: "space_taken parts = (\<Sum>x\<leftarrow>parts. raw_size x + raw_padding x)"
proof -
  have "foldl (\<lambda>acc x. acc + raw_size x + raw_padding x) a parts = a + (\<Sum>x\<leftarrow>parts. raw_size x + raw_padding x)" for a
    by (induction parts arbitrary: a) (simp_all add: add.assoc)
  from this [of 0] show ?thesis by (simp add: space_taken_def)
qed

lemma unat_space_taken:
  "(\<Sum>x\<leftarrow>parts. unat (raw_size x) + unat (raw_padding x)) < 2 ^ 64 \<Longrightarrow>
    unat (space_taken parts) = (\<Sum>x\<leftarrow>parts. unat (raw_size x) + unat (raw_padding x))"
proof -
  assume small: "(\<Sum>x\<leftarrow>parts. unat (raw_size x) + unat (raw_padding x)) < 2 ^ 64"
  have "space_taken parts = of_nat (\<Sum>x\<leftarrow>parts. unat (raw_size x) + unat (raw_padding x))"
    unfolding space_taken_sum by (induction parts) simp_all
  with small show ?thesis
    by (simp only: unsigned_of_nat) (simp add: take_bit_nat_eq_self)
qed

text \<open>
  C37. The root partition for systemd-repart: as long as the other partitions and the headroom of 64 MiB
  fit on the device, the root partition takes the rest, in whole mebibytes.
\<close>

theorem root_size_fits:
  assumes "(\<Sum>x\<leftarrow>parts. unat (raw_size x) + unat (raw_padding x)) + 64 * 1048576 \<le> unat (dev_size (info dev))"
  shows "unat (root_size_mib dev parts) =
    (unat (dev_size (info dev)) - (\<Sum>x\<leftarrow>parts. unat (raw_size x) + unat (raw_padding x)) - 64 * 1048576) div 1048576"
proof -
  let ?s = "\<Sum>x\<leftarrow>parts. unat (raw_size x) + unat (raw_padding x)" and ?d = "dev_size (info dev)"
  have "unat ?d < 2 ^ 64" using unsigned_less [where 'a = nat, of ?d] by simp
  then have s: "unat (space_taken parts) = ?s" using assms by (intro unat_space_taken) linarith
  have d1: "unat (?d - space_taken parts) = unat ?d - ?s"
    using assms s by (subst unat_sub) (simp_all add: word_le_nat_alt)
  have h: "unat (64 * (1024 * 1024) :: u64) = 64 * 1048576" by simp
  have d2: "unat (?d - space_taken parts - 64 * (1024 * 1024)) = unat ?d - ?s - 64 * 1048576"
    using assms d1 h by (subst unat_sub) (simp_all add: word_le_nat_alt del: unat_sub)
  show ?thesis
    unfolding root_size_mib_def Let_def unat_div d2 by simp
qed

theorem root_size_fits_witness:
  "unat (root_size_mib (demo_disk []) [\<lparr>partition_type = ''esp'', partno = None, raw_size = 536870912,
     raw_padding = 0, part_file = ''10-esp.conf''\<rparr>]) = 9664"
  using root_size_fits [of "[\<lparr>partition_type = ''esp'', partno = None, raw_size = 536870912,
     raw_padding = 0, part_file = ''10-esp.conf''\<rparr>]" "demo_disk []"]
  by (simp add: demo_disk_def demo_dev_def)

text \<open>On a smaller device the subtraction wraps around and a size of almost $2^{44}$ MiB is asked for.\<close>

lemma root_size_wraps:
  "root_size_mib (demo_disk []) [\<lparr>partition_type = ''swap'', partno = None, raw_size = 10737418240,
     raw_padding = 0, part_file = ''20-swap.conf''\<rparr>] = 17592186044352"
  by code_simp

end
