(* ===== verification/Lints.thy ===== *)
theory Lints
  imports Kargs Sysusers Tmpfiles_Walk
begin

text \<open>
  Lints of a container image (\<^verbatim>\<open>crates/lib/src/lints.rs\<close>): the runner that selects the lints, runs those over
  the root and those over every directory entry, and counts what they report; and the lints.

  A directory is a handle of an arbitrary type, and what the code reads through it (\<^verbatim>\<open>cap-std\<close>) a record of
  operations; a walk is over a tree of directory entries. The key file parser of GLib and the
  quoting of paths for a shell are fields of the environment. A result has two levels, as in the code:
  the outer error is a failure to run the lint, the inner one what the lint found.
\<close>

section \<open>Sets of paths\<close>

text \<open>
  The derived order of \<^verbatim>\<open>Component\<close>: the kind first, then the name. Paths compare by components, so a
  \<^verbatim>\<open>BTreeSet\<close> of paths keeps one path for each list of components, in that order.
\<close>

instantiation component :: linorder
begin

primrec component_key :: "component \<Rightarrow> nat \<times> string" where
  "component_key RootDir = (0, [])"
| "component_key CurDir = (1, [])"
| "component_key ParentDir = (2, [])"
| "component_key (Normal s) = (3, s)"

definition less_eq_component :: "component \<Rightarrow> component \<Rightarrow> bool" where
  "c \<le> d = (fst (component_key c) < fst (component_key d)
     \<or> fst (component_key c) = fst (component_key d) \<and> snd (component_key c) \<le> snd (component_key d))"

definition less_component :: "component \<Rightarrow> component \<Rightarrow> bool" where
  "c < d = (c \<le> d \<and> \<not> d \<le> (c :: component))"

instance
proof
  fix c d e :: component
  show "c \<le> c" by (simp add: less_eq_component_def)
  show "c < d \<longleftrightarrow> c \<le> d \<and> \<not> d \<le> c" by (simp add: less_component_def)
  show "c \<le> d \<Longrightarrow> d \<le> e \<Longrightarrow> c \<le> e" by (auto simp: less_eq_component_def)
  show "c \<le> d \<Longrightarrow> d \<le> c \<Longrightarrow> c = d" by (cases c; cases d) (auto simp: less_eq_component_def)
  show "c \<le> d \<or> d \<le> c" by (auto simp: less_eq_component_def)
qed

end

definition path_insert :: "string \<Rightarrow> string list \<Rightarrow> string list" where
  "path_insert p ps =
     (if list_ex (\<lambda>q. path_components q = path_components p) ps then ps else insort_key path_components p ps)"

lemma path_insert_components:
  "path_components ` set (path_insert p ps) = insert (path_components p) (path_components ` set ps)"
proof (cases "list_ex (\<lambda>q. path_components q = path_components p) ps")
  case True
  then have "path_components p \<in> path_components ` set ps" by (auto simp: list_ex_iff intro: rev_image_eqI)
  with True show ?thesis by (simp add: path_insert_def insert_absorb)
next
  case False
  then show ?thesis by (auto simp: path_insert_def set_insort_key)
qed

section \<open>Lints and their results\<close>

type_synonym lint_result = "(string + unit) res"

definition lint_ok :: lint_result where
  "lint_ok = Inr (Inr ())"

definition lint_err :: "string \<Rightarrow> lint_result" where
  "lint_err msg = Inr (Inl msg)"

record lint_config =
  no_truncate :: bool

datatype lint_type = Fatal | Warning

datatype warning_disposition = AllowWarnings | FatalWarnings

datatype root_kind = Running | Alternative

datatype ('d, 'w) lint_fn =
    Regular "'d \<Rightarrow> lint_config \<Rightarrow> lint_result"
  | Recursive "'w \<Rightarrow> lint_config \<Rightarrow> lint_result"

record ('d, 'w) lint_item =
  l_name :: string
  l_ty :: lint_type
  l_f :: "('d, 'w) lint_fn"
  l_root_type :: "root_kind option"

definition new_fatal :: "string \<Rightarrow> ('d \<Rightarrow> lint_config \<Rightarrow> lint_result) \<Rightarrow> ('d, 'w) lint_item" where
  "new_fatal name f = \<lparr>l_name = name, l_ty = Fatal, l_f = Regular f, l_root_type = None\<rparr>"

definition new_warning :: "string \<Rightarrow> ('d \<Rightarrow> lint_config \<Rightarrow> lint_result) \<Rightarrow> ('d, 'w) lint_item" where
  "new_warning name f = \<lparr>l_name = name, l_ty = Warning, l_f = Regular f, l_root_type = None\<rparr>"

definition set_root_type :: "root_kind \<Rightarrow> ('d, 'w) lint_item \<Rightarrow> ('d, 'w) lint_item" where
  "set_root_type v l = l\<lparr>l_root_type := Some v\<rparr>"

record lint_execution_result =
  warnings :: nat
  passed :: nat
  skipped :: nat
  fatal :: nat

section \<open>Messages\<close>

definition DEFAULT_TRUNCATED_OUTPUT :: nat where "DEFAULT_TRUNCATED_OUTPUT = 5"

text \<open>\<^verbatim>\<open>bootc_utils::collect_until\<close>.\<close>

definition collect_until :: "nat \<Rightarrow> 'a list \<Rightarrow> ('a list \<times> nat) option" where
  "collect_until n xs = (if xs = [] then None else Some (take n xs, length (drop n xs)))"

definition format_items :: "lint_config \<Rightarrow> string \<Rightarrow> string list \<Rightarrow> string" where
  "format_items config header items =
     (let line = (\<lambda>item. ''  '' @ item @ [NL]) in
      if no_truncate config then
        (case items of
           [] \<Rightarrow> []
         | first # rest \<Rightarrow> header @ '':'' @ [NL] @ line first @ concat (map line rest))
      else
        (case collect_until DEFAULT_TRUNCATED_OUTPUT items of
           None \<Rightarrow> []
         | Some (samples, rest) \<Rightarrow>
             header @ '':'' @ [NL] @ concat (map line samples)
               @ (if rest > 0 then ''  ...and '' @ show_nat rest @ '' more'' @ [NL] else [])))"

definition format_lint_err_from_items :: "lint_config \<Rightarrow> string \<Rightarrow> string list \<Rightarrow> lint_result" where
  "format_lint_err_from_items config header items = lint_err (format_items config header items)"

section \<open>The runner\<close>

definition lint_selected :: "string list \<Rightarrow> root_kind \<Rightarrow> ('d, 'w) lint_item \<Rightarrow> bool" where
  "lint_selected skip kind l =
     (if l_name l \<in> set skip then False
      else case l_root_type l of Some k \<Rightarrow> k = kind | None \<Rightarrow> True)"

definition is_regular :: "('d, 'w) lint_item \<Rightarrow> bool" where
  "is_regular l = (case l_f l of Regular _ \<Rightarrow> True | Recursive _ \<Rightarrow> False)"

definition run_regular :: "'d \<Rightarrow> lint_config \<Rightarrow> ('d, 'w) lint_item \<Rightarrow> lint_result" where
  "run_regular root config l = (case l_f l of Regular f \<Rightarrow> f root config | Recursive _ \<Rightarrow> lint_ok)"

definition run_recursive :: "lint_config \<Rightarrow> 'w \<Rightarrow> ('d, 'w) lint_item \<Rightarrow> lint_result" where
  "run_recursive config e l = (case l_f l of Recursive f \<Rightarrow> f e config | Regular _ \<Rightarrow> lint_ok)"

text \<open>
  A walk of \<^verbatim>\<open>cap-std-ext\<close>: the callback is called for each entry of a directory, and the walk then descends into
  directories; a directory may fail to be read after some of its entries. When the callback returns
  \<^verbatim>\<open>Break\<close>, a directory is skipped and the walk goes on with its siblings; on another entry, the
  remaining siblings are skipped (as the comment in \<^verbatim>\<open>ensure_dir_labeled_recurse\<close> says).
\<close>

datatype 'w walk_node = is_WFile: WFile 'w | WDir 'w "'w walk_node list" "string option"

type_synonym 'w walk = "'w walk_node list \<times> string option"

fun walk_nodes :: "('w \<Rightarrow> 'a \<Rightarrow> bool \<times> 'a) \<Rightarrow> 'w walk_node list \<Rightarrow> string option \<Rightarrow> 'a \<Rightarrow> 'a res" where
  "walk_nodes f [] stop a = (case stop of Some e \<Rightarrow> Inl e | None \<Rightarrow> Inr a)"
| "walk_nodes f (WFile e # ns) stop a =
     (case f e a of (brk, a) \<Rightarrow> if brk then Inr a else walk_nodes f ns stop a)"
| "walk_nodes f (WDir e cs st # ns) stop a =
     (case f e a of (brk, a) \<Rightarrow>
        if brk then walk_nodes f ns stop a
        else rbind (walk_nodes f cs st a) (\<lambda>a. walk_nodes f ns stop a))"

text \<open>
  The callback of the lints: those that report something leave the set of those still running, and with
  none left it returns \<^verbatim>\<open>Break\<close>. Sets and maps of lints are ordered by the name.
\<close>

type_synonym ('d, 'w) lint_walk =
  "(string, ('d, 'w) lint_item) btree \<times> (string, ('d, 'w) lint_item \<times> lint_result) btree"

definition visit :: "lint_config \<Rightarrow> 'w \<Rightarrow> ('d, 'w) lint_walk \<Rightarrow> bool \<times> ('d, 'w) lint_walk" where
  "visit config e a =
     (case a of (running, errors) \<Rightarrow>
        if running = [] then (True, (running, errors))
        else
          let this_iteration = filter (\<lambda>(l, r). r \<noteq> lint_ok) (map (\<lambda>(_, l). (l, run_recursive config e l)) running)
          in (False,
              (foldl (\<lambda>m (l, _). bt_remove (l_name l) m) running this_iteration,
               foldl (\<lambda>m (l, r). bt_insert (l_name l) (l, r) m) errors this_iteration)))"

fun tally ::
  "(('d, 'w) lint_item \<times> lint_result) list \<Rightarrow> lint_execution_result \<Rightarrow> string list
    \<Rightarrow> lint_execution_result res \<times> string list" where
  "tally [] r out = (Inr r, out)"
| "tally ((l, x) # rest) r out =
     (case x of
        Inl e \<Rightarrow> (Inl e, out)
      | Inr (Inl e) \<Rightarrow>
           (case l_ty l of
              Fatal \<Rightarrow> tally rest (r\<lparr>fatal := fatal r + 1\<rparr>) (out @ [''Failed lint: '' @ l_name l @ '': '' @ e])
            | Warning \<Rightarrow> tally rest (r\<lparr>warnings := warnings r + 1\<rparr>) (out @ [''Lint warning: '' @ l_name l @ '': '' @ e]))
      | Inr (Inr _) \<Rightarrow> tally rest (r\<lparr>passed := passed r + 1\<rparr>) out)"

definition lint_inner ::
  "('d, 'w) lint_item list \<Rightarrow> 'd \<Rightarrow> 'w walk \<Rightarrow> root_kind \<Rightarrow> lint_config \<Rightarrow> string list
    \<Rightarrow> lint_execution_result res \<times> string list" where
  "lint_inner LINTS root walk kind config skip =
     (let applicable = sort_by (\<lambda>a b. ord_cmp (l_name a) (l_name b)) (filter (lint_selected skip kind) LINTS);
          n_skipped = length (filter (\<lambda>l. \<not> lint_selected skip kind l) LINTS);
          results = map (\<lambda>l. (l, run_regular root config l)) (filter is_regular applicable);
          recursive = foldl (\<lambda>m l. bt_insert (l_name l) l m) [] (filter (\<lambda>l. \<not> is_regular l) applicable)
      in case walk_nodes (visit config) (fst walk) (snd walk) (recursive, []) of
           Inl e \<Rightarrow> (Inl e, [])
         | Inr (running, errors) \<Rightarrow>
             tally (results @ map snd errors @ map (\<lambda>(_, l). (l, lint_ok)) running)
               \<lparr>warnings = 0, passed = 0, skipped = n_skipped, fatal = 0\<rparr> [])"

definition lint ::
  "('d, 'w) lint_item list \<Rightarrow> 'd \<Rightarrow> 'w walk \<Rightarrow> warning_disposition \<Rightarrow> root_kind \<Rightarrow> string list \<Rightarrow> bool
    \<Rightarrow> unit res \<times> string list" where
  "lint LINTS root walk disposition kind skip notrunc =
     (case lint_inner LINTS root walk kind \<lparr>no_truncate = notrunc\<rparr> skip of
        (Inl e, out) \<Rightarrow> (Inl e, out)
      | (Inr r, out) \<Rightarrow>
          (let n = (if disposition = FatalWarnings then fatal r + warnings r else fatal r);
               out = out @ [''Checks passed: '' @ show_nat (passed r)]
                 @ (if skipped r > 0 then [''Checks skipped: '' @ show_nat (skipped r)] else [])
                 @ (if warnings r > 0 then [''Warnings: '' @ show_nat (warnings r)] else [])
           in (if n > 0 then Inl ''Checks failed'' else Inr (), out)))"

section \<open>What the lints read\<close>

record node_meta =
  nm_is_dir :: bool
  nm_is_file :: bool
  nm_is_symlink :: bool
  nm_size :: u64

record walk_component =
  wc_path :: string
  wc_filename_utf8 :: bool
  wc_is_symlink :: bool
  wc_target_utf8 :: "bool res"
  wc_mountpoint :: "bool option res"

datatype file_tree = FtFile u64 | FtDir "(string \<times> file_tree) list" | FtOther

record ('c, 'p, 'd, 'k) lint_env =
  lx_metadata :: "'d \<Rightarrow> string \<Rightarrow> node_meta option res"
  lx_open_dir :: "'d \<Rightarrow> string \<Rightarrow> 'd option res"
  lx_open_noxdev :: "'d \<Rightarrow> string \<Rightarrow> 'd option res"
  lx_read_link :: "'d \<Rightarrow> string \<Rightarrow> string res"
  lx_read_file :: "'d \<Rightarrow> string \<Rightarrow> string option res"
  lx_try_exists :: "'d \<Rightarrow> string \<Rightarrow> bool res"
  lx_entries :: "'d \<Rightarrow> string list res"
  lx_read_dir :: "'d \<Rightarrow> string \<Rightarrow> (string option \<times> bool) list option res"
  lx_tree :: "'d \<Rightarrow> (string \<times> file_tree) list res"
  lx_walk :: "'d \<Rightarrow> string \<Rightarrow> walk_component list res"
  lx_cmdline :: "('c, 'p) cmdline_ops"
  lx_toml :: "string \<Rightarrow> kargs_config res"
  lx_kargs_dir :: "'d \<Rightarrow> (string \<times> string) list option"
  lx_arch :: string
  lx_su_root :: "'d \<Rightarrow> su_root"
  lx_tf_env :: tf_env
  lx_tf_root :: tf_root
  lx_keyfile :: "string \<Rightarrow> 'k res"
  lx_kf_string :: "'k \<Rightarrow> string \<Rightarrow> string \<Rightarrow> string option res"
  lx_kf_bool :: "'k \<Rightarrow> string \<Rightarrow> string \<Rightarrow> bool option res"
  lx_quote :: "string \<Rightarrow> string"
  lx_PATH :: "string list option"
  lx_podman :: string
  lx_skopeo :: string

section \<open>Lints of the root\<close>

definition check_var_run :: "('c, 'p, 'd, 'k) lint_env \<Rightarrow> 'd \<Rightarrow> lint_config \<Rightarrow> lint_result" where
  "check_var_run E root _ =
     rbind (lx_metadata E root ''var/run'') (\<lambda>meta.
       case meta of
         Some m \<Rightarrow> if \<not> nm_is_symlink m then lint_err ''Not a symlink: var/run'' else lint_ok
       | None \<Rightarrow> lint_ok)"

fun check_injected :: "('c, 'p, 'd, 'k) lint_env \<Rightarrow> 'd \<Rightarrow> string list \<Rightarrow> lint_result" where
  "check_injected E root [] = lint_ok"
| "check_injected E root (ent # rest) =
     rbind (lx_metadata E root ent) (\<lambda>meta.
       case meta of
         Some m \<Rightarrow>
           if nm_is_file m \<and> nm_size m = 0
           then lint_err (''/'' @ ent @ '' is an empty file; this may have been synthesized by a container runtime.'')
           else check_injected E root rest
       | None \<Rightarrow> check_injected E root rest)"

definition check_buildah_injected :: "('c, 'p, 'd, 'k) lint_env \<Rightarrow> 'd \<Rightarrow> lint_config \<Rightarrow> lint_result" where
  "check_buildah_injected E root _ = check_injected E root [''etc/hostname'', ''etc/resolv.conf'']"

definition check_usretc :: "('c, 'p, 'd, 'k) lint_env \<Rightarrow> 'd \<Rightarrow> lint_config \<Rightarrow> lint_result" where
  "check_usretc E root _ =
     rbind (lx_metadata E root ''etc'') (\<lambda>etc.
       if etc = None then lint_ok
       else rbind (lx_metadata E root ''usr/etc'') (\<lambda>usretc.
         if usretc \<noteq> None
         then lint_err ''Found /usr/etc - this is a bootc implementation detail and not supported to use in containers''
         else lint_ok))"

definition check_parse_kargs :: "('c, 'p, 'd, 'k) lint_env \<Rightarrow> 'd \<Rightarrow> lint_config \<Rightarrow> lint_result" where
  "check_parse_kargs E root _ =
     rbind (get_kargs_in_root (lx_cmdline E) (lx_toml E) (lx_kargs_dir E root) (lx_arch E)) (\<lambda>_. lint_ok)"

text \<open>\<^verbatim>\<open>find_kernel_dir_fs\<close> of \<^verbatim>\<open>ostree-ext\<close>.\<close>

fun find_kernel_among ::
  "('c, 'p, 'd, 'k) lint_env \<Rightarrow> 'd \<Rightarrow> string option \<Rightarrow> (string option \<times> bool) list \<Rightarrow> string option res" where
  "find_kernel_among E root r [] = Inr r"
| "find_kernel_among E root r ((name, is_dir) # rest) =
     (if \<not> is_dir then find_kernel_among E root r rest
      else case name of
             None \<Rightarrow> find_kernel_among E root r rest
           | Some n \<Rightarrow>
               (let dir = path_join ''usr/lib/modules'' n in
                rbind (lx_try_exists E root (path_join dir ''vmlinuz'')) (\<lambda>there.
                  if \<not> there then find_kernel_among E root r rest
                  else if r \<noteq> None then Inl ''Found multiple subdirectories in usr/lib/modules''
                  else find_kernel_among E root (Some dir) rest)))"

definition find_kernel_dir_fs :: "('c, 'p, 'd, 'k) lint_env \<Rightarrow> 'd \<Rightarrow> string option res" where
  "find_kernel_dir_fs E root =
     rbind (lx_read_dir E root ''usr/lib/modules'') (\<lambda>entries.
       case entries of None \<Rightarrow> Inr None | Some es \<Rightarrow> find_kernel_among E root None es)"

definition check_kernel :: "('c, 'p, 'd, 'k) lint_env \<Rightarrow> 'd \<Rightarrow> lint_config \<Rightarrow> lint_result" where
  "check_kernel E root _ = rbind (find_kernel_dir_fs E root) (\<lambda>_. lint_ok)"

definition check_utf8 :: "walk_component \<Rightarrow> lint_config \<Rightarrow> lint_result" where
  "check_utf8 e _ =
     (if \<not> wc_filename_utf8 e then lint_err ''Found non-utf8 filename''
      else if wc_is_symlink e then
        rbind (wc_target_utf8 e) (\<lambda>ok. if \<not> ok then lint_err ''Found non-utf8 symlink target'' else lint_ok)
      else lint_ok)"

definition API_DIRS :: "string list" where
  "API_DIRS = [''dev'', ''proc'', ''sys'', ''run'', ''tmp'', ''var'']"

fun check_dirs :: "('c, 'p, 'd, 'k) lint_env \<Rightarrow> 'd \<Rightarrow> string list \<Rightarrow> lint_result" where
  "check_dirs E root [] = lint_ok"
| "check_dirs E root (d # rest) =
     rbind (lx_metadata E root d) (\<lambda>meta.
       case meta of
         None \<Rightarrow> lint_err (''Missing API filesystem base directory: /'' @ d)
       | Some m \<Rightarrow>
           if \<not> nm_is_dir m then lint_err (''Expected directory for API filesystem base directory: /'' @ d)
           else check_dirs E root rest)"

definition check_api_dirs :: "('c, 'p, 'd, 'k) lint_env \<Rightarrow> 'd \<Rightarrow> lint_config \<Rightarrow> lint_result" where
  "check_api_dirs E root _ = check_dirs E root API_DIRS"

section \<open>The configuration of \<^verbatim>\<open>ostree-prepare-root\<close>\<close>

definition CONF_PATH :: string where "CONF_PATH = ''ostree/prepare-root.conf''"

fun load_config_among ::
  "('c, 'p, 'd, 'k) lint_env \<Rightarrow> 'd \<Rightarrow> string list \<Rightarrow> 'k option res" where
  "load_config_among E root [] = Inr None"
| "load_config_among E root (d # rest) =
     rbind (lx_read_file E root (path_join d CONF_PATH)) (\<lambda>content.
       case content of
         None \<Rightarrow> load_config_among E root rest
       | Some c \<Rightarrow> rbind (lx_keyfile E c) (\<lambda>kf. Inr (Some kf)))"

definition load_config_from_root :: "('c, 'p, 'd, 'k) lint_env \<Rightarrow> 'd \<Rightarrow> 'k option res" where
  "load_config_from_root E root = load_config_among E root [''etc'', ''usr/lib'']"

datatype tristate = Enabled | Disabled | Maybe

definition tristate_from_str :: "string \<Rightarrow> tristate res" where
  "tristate_from_str s =
     (if s \<in> {''yes'', ''true'', ''1''} then Inr Enabled
      else if s \<in> {''no'', ''false'', ''0''} then Inr Disabled
      else if s = ''maybe'' then Inr Maybe
      else Inl ''Invalid tristate value'')"

datatype composefs_state = Signed | Verity | Tristate tristate

definition composefs_state_from_str :: "string \<Rightarrow> composefs_state res" where
  "composefs_state_from_str s =
     (if s = ''signed'' then Inr Signed
      else if s = ''verity'' then Inr Verity
      else rbind (tristate_from_str s) (\<lambda>t. Inr (Tristate t)))"

fun maybe_enabled :: "composefs_state \<Rightarrow> bool" where
  "maybe_enabled Signed = True"
| "maybe_enabled Verity = True"
| "maybe_enabled (Tristate t) = (t \<noteq> Disabled)"

definition requires_fsverity :: "composefs_state \<Rightarrow> bool" where
  "requires_fsverity s = (s \<in> {Signed, Verity})"

definition composefs_state_in_config :: "('c, 'p, 'd, 'k) lint_env \<Rightarrow> 'k \<Rightarrow> composefs_state option res" where
  "composefs_state_in_config E kf =
     rbind (lx_kf_string E kf ''composefs'' ''enabled'') (\<lambda>s.
       case s of None \<Rightarrow> Inr None | Some s \<Rightarrow> rbind (composefs_state_from_str s) (\<lambda>c. Inr (Some c)))"

text \<open>A value that does not parse is logged and counts as the default, disabled.\<close>

definition overlayfs_enabled_in_config :: "('c, 'p, 'd, 'k) lint_env \<Rightarrow> 'k \<Rightarrow> bool res" where
  "overlayfs_enabled_in_config E kf =
     rbind (lx_kf_bool E kf ''root'' ''transient'') (\<lambda>transient.
       let composefs = (case composefs_state_in_config E kf of
                          Inr (Some c) \<Rightarrow> c
                        | _ \<Rightarrow> Tristate Disabled)
       in Inr (case_option False id transient \<or> maybe_enabled composefs))"

definition check_prepareroot_composefs_norecurse :: "('c, 'p, 'd, 'k) lint_env \<Rightarrow> 'd \<Rightarrow> lint_result" where
  "check_prepareroot_composefs_norecurse E dir =
     rbind (load_config_from_root E dir) (\<lambda>config.
       case config of
         None \<Rightarrow> lint_err (CONF_PATH @ '' is not present to enable composefs'')
       | Some kf \<Rightarrow>
           rbind (overlayfs_enabled_in_config E kf) (\<lambda>on.
             if \<not> on then lint_err (CONF_PATH @ '' does not have composefs enabled'') else lint_ok))"

section \<open>Base image and contents\<close>

definition SETUP_ROOT_CONF :: string where "SETUP_ROOT_CONF = ''usr/lib/composefs/setup-root-conf.toml''"

definition is_composefs_native :: "('c, 'p, 'd, 'k) lint_env \<Rightarrow> 'd \<Rightarrow> bool res" where
  "is_composefs_native E root = rbind (lx_metadata E root SETUP_ROOT_CONF) (\<lambda>m. Inr (m \<noteq> None))"

definition defaults_to_composefs_backend :: "('c, 'p, 'd, 'k) lint_env \<Rightarrow> 'd \<Rightarrow> bool \<Rightarrow> bool res" where
  "defaults_to_composefs_backend E root has_ostree_prepareroot =
     (if has_ostree_prepareroot then Inr False else is_composefs_native E root)"

definition BASEIMAGE_REF :: string where "BASEIMAGE_REF = ''usr/share/doc/bootc/baseimage/base''"

text \<open>\<^verbatim>\<open>if let Err(e) = x? { return Ok(Err(e)) }\<close>.\<close>

definition lint_then :: "lint_result \<Rightarrow> lint_result \<Rightarrow> lint_result" where
  "lint_then x y = rbind x (\<lambda>r. case r of Inl e \<Rightarrow> Inr (Inl e) | Inr _ \<Rightarrow> y)"

definition check_composefs :: "('c, 'p, 'd, 'k) lint_env \<Rightarrow> 'd \<Rightarrow> lint_config \<Rightarrow> lint_result" where
  "check_composefs E dir _ =
     rbind (is_composefs_native E dir) (\<lambda>native.
       if native then lint_ok
       else lint_then (check_prepareroot_composefs_norecurse E dir)
         (rbind (lx_open_dir E dir BASEIMAGE_REF) (\<lambda>d.
            case d of
              None \<Rightarrow> lint_ok
            | Some d \<Rightarrow> lint_then (check_prepareroot_composefs_norecurse E d) lint_ok)))"

definition check_baseimage_root_norecurse :: "('c, 'p, 'd, 'k) lint_env \<Rightarrow> 'd \<Rightarrow> lint_result" where
  "check_baseimage_root_norecurse E dir =
     rbind (lx_metadata E dir ''sysroot'') (\<lambda>sysroot.
       case sysroot of
         None \<Rightarrow> lint_err ''Missing /sysroot''
       | Some m \<Rightarrow>
           if \<not> nm_is_dir m then lint_err ''Expected a directory for /sysroot''
           else
             rbind (lx_metadata E dir ''ostree'') (\<lambda>ostree.
               case ostree of
                 None \<Rightarrow>
                   rbind (is_composefs_native E dir) (\<lambda>native.
                     if native then lint_ok else lint_err ''Missing ostree -> sysroot/ostree link'')
               | Some m \<Rightarrow>
                   if \<not> nm_is_symlink m then lint_err ''/ostree should be a symlink''
                   else rbind (lx_read_link E dir ''ostree'') (\<lambda>link.
                     if link \<noteq> ''sysroot/ostree'' then lint_err ''Expected /ostree -> sysroot/ostree''
                     else lint_ok)))"

definition check_baseimage_root :: "('c, 'p, 'd, 'k) lint_env \<Rightarrow> 'd \<Rightarrow> lint_config \<Rightarrow> lint_result" where
  "check_baseimage_root E dir _ =
     lint_then (check_baseimage_root_norecurse E dir)
       (rbind (lx_open_dir E dir BASEIMAGE_REF) (\<lambda>d.
          case d of
            None \<Rightarrow> lint_ok
          | Some d \<Rightarrow> lint_then (check_baseimage_root_norecurse E d) lint_ok))"

fun collect_nonempty_regfiles :: "string \<Rightarrow> (string \<times> file_tree) list \<Rightarrow> string list \<Rightarrow> string list" where
  "collect_nonempty_regfiles path [] out = out"
| "collect_nonempty_regfiles path ((name, t) # rest) out =
     collect_nonempty_regfiles path rest
       (case t of
          FtFile n \<Rightarrow> if n > 0 then path_insert (path_join path name) out else out
        | FtDir es \<Rightarrow> collect_nonempty_regfiles (path_join path name) es out
        | FtOther \<Rightarrow> out)"

definition check_varlog :: "('c, 'p, 'd, 'k) lint_env \<Rightarrow> 'd \<Rightarrow> lint_config \<Rightarrow> lint_result" where
  "check_varlog E root config =
     rbind (lx_open_dir E root ''var/log'') (\<lambda>d.
       case d of
         None \<Rightarrow> lint_ok
       | Some d \<Rightarrow>
           rbind (lx_tree E d) (\<lambda>tree.
             let nonempty_regfiles = collect_nonempty_regfiles ''/var/log'' tree [] in
             if nonempty_regfiles = [] then lint_ok
             else format_lint_err_from_items config ''Found non-empty logfiles'' (map (lx_quote E) nonempty_regfiles)))"

text \<open>A panic of the tmpfiles.d reader is taken as a failure to run the lint.\<close>

definition check_var_tmpfiles :: "('c, 'p, 'd, 'k) lint_env \<Rightarrow> 'd \<Rightarrow> lint_config \<Rightarrow> lint_result" where
  "check_var_tmpfiles E _ config =
     (case find_missing_tmpfiles (lx_tf_env E) (lx_tf_root E) of
        Inl _ \<Rightarrow> Inl ''tmpfiles''
      | Inr r \<Rightarrow>
          if out_entries r = [] \<and> out_unsupported r = [] then lint_ok
          else lint_err
            (format_items config ''Found content in /var missing systemd tmpfiles.d entries'' (out_entries r)
             @ format_items config ''Found non-directory/non-symlink files in /var'' (map (lx_quote E) (out_unsupported r))))"

definition check_sysusers :: "('c, 'p, 'd, 'k) lint_env \<Rightarrow> 'd \<Rightarrow> lint_config \<Rightarrow> lint_result" where
  "check_sysusers E rootfs config =
     rbind (analyze (lx_su_root E rootfs)) (\<lambda>r.
       if missing_users r = [] \<and> missing_groups r = [] then lint_ok
       else lint_err
         (format_items config ''Found /etc/passwd entry without corresponding systemd sysusers.d'' (missing_users r)
          @ format_items config ''Found /etc/group entry without corresponding systemd sysusers.d'' (missing_groups r)))"

definition check_boot :: "('c, 'p, 'd, 'k) lint_env \<Rightarrow> 'd \<Rightarrow> lint_config \<Rightarrow> lint_result" where
  "check_boot E root config =
     rbind (lx_open_dir E root ''boot'') (\<lambda>d.
       case d of
         None \<Rightarrow> lint_err ''Missing /boot directory''
       | Some d \<Rightarrow>
           rbind (lx_entries E d) (\<lambda>names.
             let entries = filter (\<lambda>n. n \<noteq> ''EFI'') (btset names) in
             if entries = [] then lint_ok
             else format_lint_err_from_items config ''Found non-empty /boot'' (map (lx_quote E) entries)))"

section \<open>Directories that are empty in an image\<close>

definition RUNTIME_ONLY_DIRS :: "string list" where "RUNTIME_ONLY_DIRS = [''run'', ''tmp'']"

definition CONTAINER_RUNTIME_FILES :: "string list" where
  "CONTAINER_RUNTIME_FILES = [''/run/systemd/resolve/stub-resolv.conf'']"

text \<open>The callback of the walk: mount points are skipped.\<close>

fun found_entries :: "walk_component list \<Rightarrow> string list \<Rightarrow> string list res" where
  "found_entries [] out = Inr out"
| "found_entries (e # es) out =
     rbind (wc_mountpoint e) (\<lambda>m.
       if m = Some True then found_entries es out
       else found_entries es (path_insert (path_join ''/'' (wc_path e)) out))"

fun found_in_dirs :: "('c, 'p, 'd, 'k) lint_env \<Rightarrow> 'd \<Rightarrow> string list \<Rightarrow> string list \<Rightarrow> string list res" where
  "found_in_dirs E root [] out = Inr out"
| "found_in_dirs E root (dirname # rest) out =
     rbind (lx_open_noxdev E root dirname) (\<lambda>d.
       case d of
         None \<Rightarrow> found_in_dirs E root rest out
       | Some d \<Rightarrow>
           rbind (lx_walk E d dirname) (\<lambda>es.
           rbind (found_entries es out) (\<lambda>out. found_in_dirs E root rest out)))"

text \<open>
  The loop over the parent directories of a known file, by the reversed components of the directory:
  \<^verbatim>\<open>Utf8Path::starts_with\<close> and the equality of paths compare components.
\<close>

fun prune_parents :: "component list \<Rightarrow> string list \<Rightarrow> string list" where
  "prune_parents [] paths = paths"
| "prune_parents (c # up) paths =
     (let d = rev (c # up); run_prefix = path_components ''/run'' in
      if \<not> prefix run_prefix d \<or> d = run_prefix then paths
      else if list_ex (\<lambda>p. path_components p \<noteq> d \<and> prefix d (path_components p)) paths then paths
      else prune_parents up (filter (\<lambda>p. path_components p \<noteq> d) paths))"

definition prune_known_run_paths :: "string list \<Rightarrow> string list" where
  "prune_known_run_paths paths =
     foldl (\<lambda>paths known.
        prune_parents (tl (rev (path_components known))) (filter (\<lambda>p. path_components p \<noteq> path_components known) paths))
       paths CONTAINER_RUNTIME_FILES"

definition check_runtime_only_dirs :: "('c, 'p, 'd, 'k) lint_env \<Rightarrow> 'd \<Rightarrow> lint_config \<Rightarrow> lint_result" where
  "check_runtime_only_dirs E root config =
     rbind (found_in_dirs E root RUNTIME_ONLY_DIRS []) (\<lambda>found.
       let found_content = prune_known_run_paths found in
       if found_content = [] then lint_ok
       else format_lint_err_from_items config ''Found content in runtime-only directories (/run, /tmp)''
              (map (lx_quote E) found_content))"

section \<open>Programs\<close>

definition BINARY_DEPS :: string where
  "BINARY_DEPS = ''skopeo,podman,ostree,zstd,setpriv,systemctl,chcon''"

definition resolve_runtime_bins :: "string \<Rightarrow> string \<Rightarrow> string list" where
  "resolve_runtime_bins podman skopeo =
     btset (map (\<lambda>b. if b = ''podman'' then podman else if b = ''skopeo'' then skopeo else b)
       (split_on (CHR '','') BINARY_DEPS))"

definition executable_candidates :: "string list option \<Rightarrow> string \<Rightarrow> string list" where
  "executable_candidates paths name = (case paths of None \<Rightarrow> [] | Some ps \<Rightarrow> map (\<lambda>p. path_join p name) ps)"

fun any_exists :: "('c, 'p, 'd, 'k) lint_env \<Rightarrow> 'd \<Rightarrow> string list \<Rightarrow> bool res" where
  "any_exists E root [] = Inr False"
| "any_exists E root (candidate # rest) =
     rbind (lx_try_exists E root (dropWhile (\<lambda>c. c = path_sep) candidate)) (\<lambda>there.
       if there then Inr True else any_exists E root rest)"

definition have_executable_in_root :: "('c, 'p, 'd, 'k) lint_env \<Rightarrow> 'd \<Rightarrow> string \<Rightarrow> bool res" where
  "have_executable_in_root E root name = any_exists E root (executable_candidates (lx_PATH E) name)"

fun missing_bins :: "('c, 'p, 'd, 'k) lint_env \<Rightarrow> 'd \<Rightarrow> string list \<Rightarrow> string list res" where
  "missing_bins E root [] = Inr []"
| "missing_bins E root (bin # rest) =
     rbind (have_executable_in_root E root bin) (\<lambda>have_it.
     rbind (missing_bins E root rest) (\<lambda>ms. Inr (if have_it then ms else bin # ms)))"

definition check_runtime_deps :: "('c, 'p, 'd, 'k) lint_env \<Rightarrow> 'd \<Rightarrow> lint_config \<Rightarrow> lint_result" where
  "check_runtime_deps E root _ =
     rbind (missing_bins E root (resolve_runtime_bins (lx_podman E) (lx_skopeo E))) (\<lambda>missing.
       if missing = [] then lint_ok
       else lint_err (''Missing required runtime dependencies: '' @ join_with '', '' missing))"

text \<open>The registered lints.\<close>

definition LINTS :: "('c, 'p, 'd, 'k) lint_env \<Rightarrow> ('d, walk_component) lint_item list" where
  "LINTS E =
     [new_fatal ''var-run'' (check_var_run E),
      set_root_type Alternative (new_warning ''buildah-injected'' (check_buildah_injected E)),
      new_fatal ''etc-usretc'' (check_usretc E),
      new_fatal ''bootc-kargs'' (check_parse_kargs E),
      new_fatal ''kernel'' (check_kernel E),
      \<lparr>l_name = ''utf8'', l_ty = Fatal, l_f = Recursive check_utf8, l_root_type = None\<rparr>,
      new_fatal ''api-base-directories'' (check_api_dirs E),
      new_warning ''baseimage-composefs'' (check_composefs E),
      new_fatal ''baseimage-root'' (check_baseimage_root E),
      new_warning ''var-log'' (check_varlog E),
      set_root_type Running (new_warning ''var-tmpfiles'' (check_var_tmpfiles E)),
      new_warning ''sysusers'' (check_sysusers E),
      new_warning ''nonempty-boot'' (check_boot E),
      new_warning ''nonempty-run-tmp'' (check_runtime_only_dirs E),
      new_warning ''runtime-deps'' (check_runtime_deps E)]"

section \<open>The runner is exact\<close>

text \<open>What a lint says of an image: a recursive one says what it says of the first entry it objects to.\<close>

definition first_result :: "lint_config \<Rightarrow> 'w list \<Rightarrow> ('d, 'w) lint_item \<Rightarrow> lint_result" where
  "first_result config entries l =
     (case find (\<lambda>e. run_recursive config e l \<noteq> lint_ok) entries of
        Some e \<Rightarrow> run_recursive config e l
      | None \<Rightarrow> lint_ok)"

definition verdict :: "'d \<Rightarrow> 'w list \<Rightarrow> lint_config \<Rightarrow> ('d, 'w) lint_item \<Rightarrow> lint_result" where
  "verdict root entries config l =
     (if is_regular l then run_regular root config l else first_result config entries l)"

lemma first_result_Cons:
  "first_result config (e # es) l =
    (if run_recursive config e l \<noteq> lint_ok then run_recursive config e l else first_result config es l)"
  by (simp add: first_result_def)

lemma foldl_bt_remove: "foldl (\<lambda>m (l, _). bt_remove (l_name l) m) m T = filter (\<lambda>x. fst x \<notin> (l_name \<circ> fst) ` set T) m"
proof (induction T arbitrary: m)
  case (Cons t T)
  then show ?case by (cases t) (auto simp: bt_remove_def intro: filter_cong)
qed simp

lemma foldl_bt_insert:
  assumes "bt_wf m" "distinct (map (l_name \<circ> fst) T)" "(l_name \<circ> fst) ` set T \<inter> fst ` set m = {}"
  shows "mset (map snd (foldl (\<lambda>m (l, r). bt_insert (l_name l) (l, r) m) m T)) = mset (map snd m) + mset T
    \<and> bt_wf (foldl (\<lambda>m (l, r). bt_insert (l_name l) (l, r) m) m T)
    \<and> fst ` set (foldl (\<lambda>m (l, r). bt_insert (l_name l) (l, r) m) m T) = fst ` set m \<union> (l_name \<circ> fst) ` set T"
  using assms
proof (induction T arbitrary: m)
  case (Cons t T)
  obtain l r where t: "t = (l, r)" by (cases t)
  let ?m = "bt_insert (l_name l) (l, r) m"
  have new: "l_name l \<notin> fst ` set m" using Cons.prems(3) t by auto
  have wf: "bt_wf ?m" using Cons.prems(1) by (simp add: bt_insert_def bt_wf_update)
  have dom: "fst ` set ?m = insert (l_name l) (fst ` set m)" by (simp add: bt_insert_def fst_bt_update)
  have "mset (map snd ?m) = add_mset (l, r) (mset (map snd m))"
    using mset_bt_update_new [of m "l_name l" "\<lambda>_. (l, r)"] new by (simp add: bt_insert_def map_of_eq_None_iff)
  moreover have "(l_name \<circ> fst) ` set T \<inter> fst ` set ?m = {}" using Cons.prems(2,3) t dom by auto
  ultimately show ?case
    using Cons.IH [OF wf] Cons.prems(2) t dom by auto
qed simp

lemma bt_wf_filter: "bt_wf m \<Longrightarrow> bt_wf (filter P m)"
  by (simp add: bt_wf_def sorted_wrt_map sorted_wrt_filter)

lemma still_running:
  assumes "distinct (map fst running)" "\<forall>(n, l) \<in> set running. n = l_name l"
  shows "foldl (\<lambda>m (l, _). bt_remove (l_name l) m) running
      (filter (\<lambda>(l, r). r \<noteq> lint_ok) (map (\<lambda>(_, l). (l, run_recursive config e l)) running)) =
    filter (\<lambda>x. run_recursive config e (snd x) = lint_ok) running"
proof -
  have inj: "inj_on fst (set running)" using assms(1) by (simp add: distinct_map)
  have "(l_name \<circ> fst) ` set (filter (\<lambda>(l, r). r \<noteq> lint_ok) (map (\<lambda>(_, l). (l, run_recursive config e l)) running)) =
      fst ` {x \<in> set running. run_recursive config e (snd x) \<noteq> lint_ok}"
    using assms(2) by force
  then show ?thesis
    unfolding foldl_bt_remove
    by (intro filter_cong [OF refl]) (simp add: inj_on_image_mem_iff [OF inj])
qed

text \<open>What the callback leaves after a list of entries.\<close>

fun walk_list :: "lint_config \<Rightarrow> ('d, 'w) lint_walk \<Rightarrow> 'w list \<Rightarrow> ('d, 'w) lint_walk" where
  "walk_list config a [] = a"
| "walk_list config a (e # es) = (if fst a = [] then a else walk_list config (snd (visit config e a)) es)"

lemma walk_lints_mset:
  fixes running :: "(string, ('d, 'w) lint_item) btree"
  assumes "bt_wf running" "\<forall>(n, l) \<in> set running. n = l_name l"
    and "bt_wf errors" "fst ` set running \<inter> fst ` set errors = {}"
    and "walk_list config (running, errors) es = (R, Er)"
  shows "mset (map snd Er) + mset (map (\<lambda>(_, l). (l, lint_ok)) R) =
    mset (map snd errors) + mset (map (\<lambda>(_, l). (l, first_result config es l)) running)"
  using assms
proof (induction es arbitrary: running errors)
  case Nil
  then show ?case by (simp add: first_result_def)
next
  case (Cons e es)
  show ?case
  proof (cases "running = []")
    case True
    with Cons.prems(5) show ?thesis by simp
  next
    case False
    define T where "T = filter (\<lambda>(l, r). r \<noteq> lint_ok) (map (\<lambda>(_, l). (l, run_recursive config e l)) running)"
    define bad where "bad = (\<lambda>x :: string \<times> ('d, 'w) lint_item. run_recursive config e (snd x) \<noteq> lint_ok)"
    have T: "T = map (\<lambda>x. (snd x, run_recursive config e (snd x))) (filter bad running)"
      by (simp add: T_def bad_def filter_map comp_def split_def)
    have names: "map (l_name \<circ> fst) T = map fst (filter bad running)"
      using Cons.prems(2) by (auto simp: T)
    have dist: "distinct (map fst running)" by (rule bt_wf_distinct [OF Cons.prems(1)])
    have inj: "inj_on fst (set running)" using dist by (simp add: distinct_map)
    define R1 where "R1 = foldl (\<lambda>m (l, _). bt_remove (l_name l) m) running T"
    define E1 where "E1 = foldl (\<lambda>m (l, r). bt_insert (l_name l) (l, r) m) errors T"
    have nT: "(l_name \<circ> fst) ` set T = fst ` set (filter bad running)"
      using names by (metis list.set_map)
    have R1: "R1 = filter (\<lambda>x. \<not> bad x) running"
      unfolding R1_def T_def bad_def using still_running [OF dist Cons.prems(2)] by simp
    have dT: "distinct (map (l_name \<circ> fst) T)" unfolding names by (rule distinct_map_filter [OF dist])
    have "(l_name \<circ> fst) ` set T \<inter> fst ` set errors = {}" using nT Cons.prems(4) by auto
    note f = foldl_bt_insert [OF Cons.prems(3) dT this, folded E1_def]
    have E1: "mset (map snd E1) = mset (map snd errors) + mset T" "bt_wf E1"
      "fst ` set E1 = fst ` set errors \<union> fst ` set (filter bad running)"
      using f [THEN conjunct1] f [THEN conjunct2, THEN conjunct1] f [THEN conjunct2, THEN conjunct2, unfolded nT] .
    have w: "walk_list config (R1, E1) es = (R, Er)"
      using Cons.prems(5) False unfolding R1_def E1_def T_def by (simp add: visit_def Let_def)
    have "bt_wf R1" using Cons.prems(1) unfolding R1 by (rule bt_wf_filter)
    moreover have "\<forall>(n, l) \<in> set R1. n = l_name l" using Cons.prems(2) unfolding R1 by auto
    moreover have "fst ` set R1 \<inter> fst ` set E1 = {}"
      using Cons.prems(4) inj_on_image_Int [OF inj, of "{x \<in> set running. \<not> bad x}" "{x \<in> set running. bad x}"]
      unfolding E1(3) R1 by auto
    ultimately have "mset (map snd Er) + mset (map (\<lambda>(_, l). (l, lint_ok)) R) =
        mset (map snd E1) + mset (map (\<lambda>(_, l). (l, first_result config es l)) R1)"
      by (rule Cons.IH [OF _ _ E1(2) _ w])
    moreover have "mset (map (\<lambda>(_, l). (l, first_result config (e # es) l)) running) =
        mset T + mset (map (\<lambda>(_, l). (l, first_result config es l)) R1)"
    proof -
      have "mset running = mset (filter bad running) + mset R1" by (simp add: R1)
      then have "mset (map (\<lambda>(_, l). (l, first_result config (e # es) l)) running) =
          mset (map (\<lambda>(_, l). (l, first_result config (e # es) l)) (filter bad running))
        + mset (map (\<lambda>(_, l). (l, first_result config (e # es) l)) R1)"
        by (metis (no_types, lifting) image_mset_union mset_map)
      moreover have "map (\<lambda>(_, l). (l, first_result config (e # es) l)) (filter bad running) = T"
        unfolding T by (rule map_cong) (auto simp: bad_def first_result_Cons)
      moreover have "map (\<lambda>(_, l). (l, first_result config (e # es) l)) R1 = map (\<lambda>(_, l). (l, first_result config es l)) R1"
        unfolding R1 by (rule map_cong) (auto simp: bad_def first_result_Cons)
      ultimately show ?thesis by simp
    qed
    ultimately show ?thesis using E1(1) by simp
  qed
qed

text \<open>The entries of a tree in the order of the walk, and whether all of it can be read.\<close>

fun walk_entries :: "'w walk_node list \<Rightarrow> 'w list" where
  "walk_entries [] = []"
| "walk_entries (WFile e # ns) = e # walk_entries ns"
| "walk_entries (WDir e cs st # ns) = e # walk_entries cs @ walk_entries ns"

fun readable :: "'w walk_node list \<Rightarrow> bool" where
  "readable [] = True"
| "readable (WFile e # ns) = readable ns"
| "readable (WDir e cs st # ns) = (st = None \<and> readable cs \<and> readable ns)"

lemma walk_list_done: "walk_list config ([], errors) es = ([], errors)"
  by (cases es) simp_all

lemma walk_list_append: "walk_list config a (es @ fs) = walk_list config (walk_list config a es) fs"
proof (induction es arbitrary: a)
  case (Cons e es)
  then show ?case by (cases a) (simp add: walk_list_done)
qed simp

text \<open>However a walk is cut short, what it leaves is what a walk over all entries would leave.\<close>

lemma walk_nodes_list:
  "walk_nodes (visit config) ns stop a = Inr b \<Longrightarrow> b = walk_list config a (walk_entries ns)"
proof (induction ns arbitrary: stop a b rule: walk_entries.induct)
  case 1
  then show ?case by (simp split: option.splits)
next
  case (2 e ns)
  show ?case
  proof (cases "fst a = []")
    case True
    then obtain x where a: "a = ([], x)" by (cases a) simp
    then have "visit config e a = (True, a)" by (simp add: visit_def)
    with 2(2) have "b = ([], x)" using a by simp
    then show ?thesis by (simp add: a)
  next
    case False
    then obtain c where c: "visit config e a = (False, c)" by (cases a) (simp add: visit_def Let_def)
    with 2 False show ?thesis by simp
  qed
next
  case (3 e cs st ns)
  show ?case
  proof (cases "fst a = []")
    case True
    then obtain x where a: "a = ([], x)" by (cases a) simp
    then have v: "visit config e a = (True, a)" by (simp add: visit_def)
    with 3(2) [of stop a b] 3(3) a show ?thesis by (simp add: walk_list_done)
  next
    case False
    then obtain c where c: "visit config e a = (False, c)" by (cases a) (simp add: visit_def Let_def)
    with 3(3) obtain d where d: "walk_nodes (visit config) cs st c = Inr d" "walk_nodes (visit config) ns stop d = Inr b"
      by (auto simp: rbind_Inr_iff)
    show ?thesis using False c 3(1) [OF d(1)] 3(2) [OF d(2)] by (simp add: walk_list_append)
  qed
qed

text \<open>With no lint running, only the entries of the root matter: a file among them ends the walk.\<close>

lemma walk_nodes_none:
  "is_ok (walk_nodes (visit config) ns stop ([], errors)) \<longleftrightarrow>
    stop = None \<or> list_ex is_WFile ns"
proof (induction ns)
  case (Cons n ns)
  then show ?case by (cases n) (simp_all add: visit_def is_ok_def)
qed (simp add: is_ok_def split: option.splits)

text \<open>While no running lint objects to anything, all of the tree is read.\<close>

lemma walk_nodes_clean:
  assumes "\<forall>e \<in> set (walk_entries ns). \<forall>(_, l) \<in> set (fst a). run_recursive config e l = lint_ok" "fst a \<noteq> []"
  shows "(stop = None \<and> readable ns \<longrightarrow> walk_nodes (visit config) ns stop a = Inr a)
    \<and> (\<not> (stop = None \<and> readable ns) \<longrightarrow> \<not> is_ok (walk_nodes (visit config) ns stop a))"
proof -
  have v: "visit config e a = (False, a)" if "\<forall>(_, l) \<in> set (fst a). run_recursive config e l = lint_ok" for e
  proof -
    have "filter (\<lambda>(l, r). r \<noteq> lint_ok) (map (\<lambda>(_, l). (l, run_recursive config e l)) (fst a)) = []"
      using that by (auto simp: filter_empty_conv)
    then show ?thesis using assms(2) by (cases a) (simp add: visit_def)
  qed
  show ?thesis
    using assms(1)
  proof (induction ns arbitrary: stop rule: walk_entries.induct)
    case 1
    then show ?case by (auto split: option.split)
  next
    case (2 e ns)
    then show ?case by (simp add: v)
  next
    case (3 e cs st ns)
    have "walk_nodes (visit config) (WDir e cs st # ns) stop a =
        rbind (walk_nodes (visit config) cs st a) (\<lambda>a. walk_nodes (visit config) ns stop a)"
      using 3(3) by (simp add: v)
    moreover have "\<forall>e \<in> set (walk_entries cs). \<forall>(_, l) \<in> set (fst a). run_recursive config e l = lint_ok"
      "\<forall>e \<in> set (walk_entries ns). \<forall>(_, l) \<in> set (fst a). run_recursive config e l = lint_ok"
      using 3(3) by simp_all
    note IH = 3(1) [OF this(1), of st] 3(2) [OF this(2), of stop]
    ultimately show ?case using IH
      by (cases "st = None \<and> readable cs") (auto simp: is_ok_iff rbind_Inr_iff)
  qed
qed

text \<open>The counts over the results, in any order.\<close>

definition n_failed :: "lint_type \<Rightarrow> (('d, 'w) lint_item \<times> lint_result) multiset \<Rightarrow> nat" where
  "n_failed t M = size {#x \<in># M. l_ty (fst x) = t \<and> (\<exists>e. snd x = Inr (Inl e))#}"

definition n_passed :: "(('d, 'w) lint_item \<times> lint_result) multiset \<Rightarrow> nat" where
  "n_passed M = size {#x \<in># M. snd x = lint_ok#}"

lemma tally_counts:
  "case fst (tally xs r out) of
     Inl e \<Rightarrow> \<exists>l. (l, Inl e) \<in> set xs
   | Inr r' \<Rightarrow> (\<forall>x \<in> set xs. is_ok (snd x))
       \<and> fatal r' = fatal r + n_failed Fatal (mset xs) \<and> warnings r' = warnings r + n_failed Warning (mset xs)
       \<and> passed r' = passed r + n_passed (mset xs) \<and> skipped r' = skipped r"
proof (induction xs r out rule: tally.induct)
  case (1 r out)
  then show ?case by (simp add: n_failed_def n_passed_def)
next
  case (2 l x rest r out)
  consider e where "x = Inl e" | e where "x = Inr (Inl e)" | "x = Inr (Inr ())"
    by (metis old.unit.exhaust sum.exhaust)
  then show ?case
  proof cases
    case 1
    then show ?thesis by auto
  next
    case x: (2 e)
    with 2(1,2) [OF x refl] show ?thesis
      by (cases "l_ty l") (auto simp: n_failed_def n_passed_def lint_ok_def split: sum.splits)
  next
    case 3
    with 2(3) [OF 3 refl] show ?thesis
      by (auto simp: n_failed_def n_passed_def lint_ok_def split: sum.splits)
  qed
qed

text \<open>All results are reported, each lint once.\<close>

lemma recursive_set:
  assumes "distinct (map l_name ls)"
  shows "mset (map snd (foldl (\<lambda>m l. bt_insert (l_name l) l m) [] ls)) = mset ls
    \<and> bt_wf (foldl (\<lambda>m l. bt_insert (l_name l) l m) [] ls)
    \<and> (\<forall>(n, l) \<in> set (foldl (\<lambda>m l. bt_insert (l_name l) l m) [] ls). n = l_name l)"
proof -
  have "mset (map snd (foldl (\<lambda>m l. bt_insert (l_name l) l m) m ls)) = mset (map snd m) + mset ls
    \<and> bt_wf (foldl (\<lambda>m l. bt_insert (l_name l) l m) m ls)
    \<and> (\<forall>(n, l) \<in> set (foldl (\<lambda>m l. bt_insert (l_name l) l m) m ls). n = l_name l)"
    if "bt_wf m" "\<forall>(n, l) \<in> set m. n = l_name l" "fst ` set m \<inter> l_name ` set ls = {}" for m
    using assms that
  proof (induction ls arbitrary: m)
    case (Cons l ls)
    let ?m = "bt_insert (l_name l) l m"
    have new: "map_of m (l_name l) = None" using Cons.prems(4) by (auto simp: map_of_eq_None_iff)
    have ms: "mset ?m = add_mset (l_name l, l) (mset m)"
      using mset_bt_update_new [OF new, of "\<lambda>_. l"] by (simp add: bt_insert_def)
    have wf: "bt_wf ?m" using Cons.prems(2) by (simp add: bt_insert_def bt_wf_update)
    have set: "set ?m = insert (l_name l, l) (set m)" using ms by (metis set_mset_add_mset_insert set_mset_mset)
    have "mset (map snd ?m) = add_mset l (mset (map snd m))" using ms by simp
    moreover have "\<forall>(n, l) \<in> set ?m. n = l_name l" using Cons.prems(3) set by auto
    moreover have "fst ` set ?m \<inter> l_name ` set ls = {}" using Cons.prems(1,4) set by auto
    ultimately show ?case using Cons.IH [OF _ wf] Cons.prems(1) by simp
  qed simp
  from this [of "[]"] show ?thesis by simp
qed

definition results_of ::
  "('d, 'w) lint_item list \<Rightarrow> 'd \<Rightarrow> 'w list \<Rightarrow> root_kind \<Rightarrow> lint_config \<Rightarrow> string list \<Rightarrow> (('d, 'w) lint_item \<times> lint_result) multiset" where
  "results_of lints root entries kind config skip =
     image_mset (\<lambda>l. (l, verdict root entries config l)) (mset (filter (lint_selected skip kind) lints))"

definition recursive_lints :: "('d, 'w) lint_item list \<Rightarrow> root_kind \<Rightarrow> string list \<Rightarrow> (string, ('d, 'w) lint_item) btree" where
  "recursive_lints lints kind skip =
     foldl (\<lambda>m l. bt_insert (l_name l) l m) []
       (filter (\<lambda>l. \<not> is_regular l) (sort_by (\<lambda>a b. ord_cmp (l_name a) (l_name b)) (filter (lint_selected skip kind) lints)))"

lemma lint_inner_results:
  fixes lints :: "('d, 'w) lint_item list"
  assumes "distinct (map l_name lints)"
    and walk: "walk_nodes (visit config) nodes stop (recursive_lints lints kind skip, []) = Inr (R, Er)"
    and entries: "entries = walk_entries nodes"
  shows "\<exists>xs. mset xs = results_of lints root entries kind config skip
    \<and> lint_inner lints root (nodes, stop) kind config skip =
      tally xs \<lparr>warnings = 0, passed = 0, skipped = length (filter (\<lambda>l. \<not> lint_selected skip kind l) lints), fatal = 0\<rparr> []"
proof -
  let ?app = "sort_by (\<lambda>a b. ord_cmp (l_name a) (l_name b)) (filter (lint_selected skip kind) lints)"
  let ?rec = "filter (\<lambda>l. \<not> is_regular l) ?app" and ?reg = "filter is_regular ?app"
  let ?m = "foldl (\<lambda>m l. bt_insert (l_name l) l m) [] ?rec"
  have app: "mset ?app = mset (filter (lint_selected skip kind) lints)" by (rule mset_sort_by)
  have "distinct (map l_name (filter (lint_selected skip kind) lints))" by (rule distinct_map_filter [OF assms(1)])
  then have "distinct (map l_name ?app)" using app by (metis distinct_count_atmost_1 mset_map mset_eq_imp_distinct_iff)
  then have d: "distinct (map l_name ?rec)" by (rule distinct_map_filter)
  note m = recursive_set [OF d]
  note w = walk [unfolded recursive_lints_def]
  have l: "walk_list config (?m, []) entries = (R, Er)" using walk_nodes_list [OF w] entries by simp
  let ?xs = "map (\<lambda>l. (l, run_regular root config l)) ?reg @ map snd Er @ map (\<lambda>(_, l). (l, lint_ok)) R"
  have "mset (map snd Er) + mset (map (\<lambda>(_, l). (l, lint_ok)) R) =
      mset (map (\<lambda>(_, l). (l, first_result config entries l)) ?m)"
    using walk_lints_mset [OF m [THEN conjunct2, THEN conjunct1] m [THEN conjunct2, THEN conjunct2] _ _ l] by simp
  also have "\<dots> = image_mset (\<lambda>l. (l, first_result config entries l)) (mset (map snd ?m))"
    by (simp add: image_mset.compositionality comp_def split_def)
  also have "\<dots> = image_mset (\<lambda>l. (l, first_result config entries l)) (mset ?rec)"
    using m [THEN conjunct1] by (rule arg_cong)
  also have "\<dots> = image_mset (\<lambda>l. (l, verdict root entries config l)) (mset ?rec)"
    by (rule image_mset_cong) (auto simp: verdict_def)
  finally have "mset ?xs = image_mset (\<lambda>l. (l, run_regular root config l)) (mset ?reg)
      + image_mset (\<lambda>l. (l, verdict root entries config l)) (mset ?rec)"
    by simp
  also have "image_mset (\<lambda>l. (l, run_regular root config l)) (mset ?reg) =
      image_mset (\<lambda>l. (l, verdict root entries config l)) (mset ?reg)"
    by (rule image_mset_cong) (auto simp: verdict_def)
  also have "\<dots> + image_mset (\<lambda>l. (l, verdict root entries config l)) (mset ?rec) =
      image_mset (\<lambda>l. (l, verdict root entries config l)) (mset ?app)"
    by (simp flip: image_mset_union)
  finally have "mset ?xs = results_of lints root entries kind config skip"
    unfolding results_of_def app .
  moreover have "lint_inner lints root (nodes, stop) kind config skip =
      tally ?xs \<lparr>warnings = 0, passed = 0, skipped = length (filter (\<lambda>l. \<not> lint_selected skip kind l) lints), fatal = 0\<rparr> []"
    by (simp add: lint_inner_def Let_def w)
  ultimately show ?thesis by blast
qed

lemma n_failed_0: "n_failed t M = 0 \<longleftrightarrow> (\<forall>x \<in># M. l_ty (fst x) = t \<longrightarrow> (\<nexists>e. snd x = Inr (Inl e)))"
  by (induction M) (auto simp: n_failed_def)

definition lint_acceptable :: "warning_disposition \<Rightarrow> ('d, 'w) lint_item \<Rightarrow> lint_result \<Rightarrow> bool" where
  "lint_acceptable disposition l v =
     (is_ok v \<and> (if l_ty l = Fatal \<or> disposition = FatalWarnings then v = lint_ok else True))"

lemma lint_passes_iff:
  fixes lints :: "('a, 'b) lint_item list"
  assumes "distinct (map l_name lints)"
    and walk: "walk_nodes (visit \<lparr>no_truncate = nt\<rparr>) nodes stop (recursive_lints lints kind skip, []) = Inr (R, Er)"
    and entries: "entries = walk_entries nodes"
  shows "fst (lint lints root (nodes, stop) disposition kind skip nt) = Inr () \<longleftrightarrow>
    (\<forall>l \<in> set lints. lint_selected skip kind l \<longrightarrow> lint_acceptable disposition l (verdict root entries \<lparr>no_truncate = nt\<rparr> l))"
proof -
  let ?cfg = "\<lparr>no_truncate = nt\<rparr>"
  obtain xs where xs: "mset xs = results_of lints root entries kind ?cfg skip"
    and inner: "lint_inner lints root (nodes, stop) kind ?cfg skip =
      tally xs \<lparr>warnings = 0, passed = 0, skipped = length (filter (\<lambda>l. \<not> lint_selected skip kind l) lints), fatal = 0\<rparr> []"
    using lint_inner_results [OF assms] by blast
  let ?t = "fst (lint_inner lints root (nodes, stop) kind ?cfg skip)"
  have set: "set xs = (\<lambda>l. (l, verdict root entries ?cfg l)) ` {l \<in> set lints. lint_selected skip kind l}"
  proof -
    have "set xs = set_mset (mset xs)" by simp
    also have "\<dots> = (\<lambda>l. (l, verdict root entries ?cfg l)) ` {l \<in> set lints. lint_selected skip kind l}"
      unfolding xs results_of_def by simp
    finally show ?thesis .
  qed
  note counts = tally_counts [of xs "\<lparr>warnings = 0, passed = 0, skipped = length (filter (\<lambda>l. \<not> lint_selected skip kind l) lints), fatal = 0\<rparr>" "[]", folded inner]
  show ?thesis
  proof (cases ?t)
    case (Inl e)
    with counts set obtain l where l: "l \<in> set lints" "lint_selected skip kind l" "verdict root entries ?cfg l = Inl e"
      by auto
    have "\<not> lint_acceptable disposition l (verdict root entries ?cfg l)" unfolding l(3) by (simp add: lint_acceptable_def is_ok_def)
    moreover have "fst (lint lints root (nodes, stop) disposition kind skip nt) = Inl e"
      using Inl by (auto simp: lint_def split: prod.split)
    ultimately show ?thesis using l(1,2) by (metis sum.distinct(1))
  next
    case (Inr r)
    from counts Inr have c: "\<forall>x \<in> set xs. is_ok (snd x)" "fatal r = n_failed Fatal (mset xs)" "warnings r = n_failed Warning (mset xs)"
      by simp_all
    have "fst (lint lints root (nodes, stop) disposition kind skip nt) = Inr () \<longleftrightarrow>
        fatal r = 0 \<and> (disposition = FatalWarnings \<longrightarrow> warnings r = 0)"
      using Inr by (auto simp: lint_def split: prod.split if_splits)
    also have "\<dots> \<longleftrightarrow> (\<forall>x \<in> set xs. l_ty (fst x) = Fatal \<or> disposition = FatalWarnings \<longrightarrow> (\<nexists>e. snd x = Inr (Inl e)))"
    proof -
      have "l_ty (fst x) = Fatal \<or> l_ty (fst x) = Warning" for x :: "('a, 'b) lint_item \<times> lint_result"
        by (cases "l_ty (fst x)") simp_all
      then show ?thesis unfolding c(2,3) n_failed_0 set_mset_mset by (cases "disposition = FatalWarnings") (simp_all, blast)
    qed
    also have "\<dots> \<longleftrightarrow> (\<forall>x \<in> set xs. lint_acceptable disposition (fst x) (snd x))"
    proof (rule ball_cong [OF refl])
      fix x assume "x \<in> set xs"
      with c(1) obtain v where v: "snd x = Inr v" by (auto simp: is_ok_iff)
      show "(l_ty (fst x) = Fatal \<or> disposition = FatalWarnings \<longrightarrow> (\<nexists>e. snd x = Inr (Inl e))) =
          lint_acceptable disposition (fst x) (snd x)"
        by (cases v) (auto simp: lint_acceptable_def v lint_ok_def)
    qed
    finally show ?thesis unfolding set by auto
  qed
qed

lemma LINTS_distinct: "distinct (map l_name (LINTS E))"
  by (simp add: LINTS_def new_fatal_def new_warning_def set_root_type_def)

lemma LINTS_recursive:
  "filter (\<lambda>l. \<not> is_regular l) (filter (lint_selected skip kind) (LINTS E)) =
    (if ''utf8'' \<in> set skip then [] else [\<lparr>l_name = ''utf8'', l_ty = Fatal, l_f = Recursive check_utf8, l_root_type = None\<rparr>])"
proof -
  have "filter (\<lambda>l. \<not> is_regular l) (LINTS E) = [\<lparr>l_name = ''utf8'', l_ty = Fatal, l_f = Recursive check_utf8, l_root_type = None\<rparr>]"
    by (simp add: LINTS_def new_fatal_def new_warning_def set_root_type_def is_regular_def)
  moreover have "filter (\<lambda>l. \<not> is_regular l) (filter (lint_selected skip kind) (LINTS E)) =
      filter (lint_selected skip kind) (filter (\<lambda>l. \<not> is_regular l) (LINTS E))"
    by (simp only: filter_filter conj_commute)
  ultimately show ?thesis by (simp add: lint_selected_def)
qed

lemma LINTS_recursive_set:
  "recursive_lints (LINTS E) kind skip =
    (if ''utf8'' \<in> set skip then [] else [(''utf8'', \<lparr>l_name = ''utf8'', l_ty = Fatal, l_f = Recursive check_utf8, l_root_type = None\<rparr>)])"
proof -
  have "filter (\<lambda>l. \<not> is_regular l) (sort_by (\<lambda>a b. ord_cmp (l_name a) (l_name b)) (filter (lint_selected skip kind) (LINTS E))) =
      filter (\<lambda>l. \<not> is_regular l) (filter (lint_selected skip kind) (LINTS E))"
    (is "filter ?P ?xs = ?ys")
  proof -
    have "mset (filter ?P ?xs) = mset ?ys" by (simp only: mset_filter mset_sort_by)
    then show ?thesis unfolding LINTS_recursive
      by (cases "''utf8'' \<in> set skip") (simp_all only: if_True if_False mset_single_iff mset_zero_iff mset.simps)
  qed
  then show ?thesis unfolding recursive_lints_def LINTS_recursive by (simp add: bt_insert_def)
qed

text \<open>
  C40. Linting an image succeeds exactly when every lint that is not skipped and that applies to the kind of
  root runs without an error and does not object, warnings aside unless they are fatal, and the
  tree can be walked. The lint over directory entries objects when it objects to any entry of the tree, and then all of the
  tree has to be readable. When that lint is skipped the walk only looks at the entries of the root
  directory, up to the first that is not a directory.
\<close>

theorem lint_exact:
  fixes E :: "('c, 'p, 'd, 'k) lint_env"
  shows "fst (lint (LINTS E) root (nodes, stop) disposition kind skip nt) = Inr () \<longleftrightarrow>
    (if ''utf8'' \<in> set skip
     then stop = None \<or> list_ex is_WFile nodes
     else stop = None \<and> readable nodes)
    \<and> list_all (\<lambda>l. lint_acceptable disposition l (verdict root (walk_entries nodes) \<lparr>no_truncate = nt\<rparr> l))
        (filter (lint_selected skip kind) (LINTS E))"
proof -
  let ?cfg = "\<lparr>no_truncate = nt\<rparr>" and ?m = "recursive_lints (LINTS E) kind skip"
  let ?w = "walk_nodes (visit ?cfg) nodes stop (?m, [])"
  let ?ok = "if ''utf8'' \<in> set skip
     then stop = None \<or> list_ex is_WFile nodes
     else stop = None \<and> readable nodes"
  let ?all = "list_all (\<lambda>l. lint_acceptable disposition l (verdict root (walk_entries nodes) ?cfg l))
        (filter (lint_selected skip kind) (LINTS E))"
  have pass: "fst (lint (LINTS E) root (nodes, stop) disposition kind skip nt) = Inr () \<longleftrightarrow> is_ok ?w \<and> ?all"
  proof (cases ?w)
    case (Inl e)
    then show ?thesis by (simp add: lint_def lint_inner_def Let_def recursive_lints_def)
  next
    case (Inr p)
    obtain R Er where p: "p = (R, Er)" by (cases p)
    show ?thesis
      using lint_passes_iff [OF LINTS_distinct Inr [unfolded p] refl, of root disposition] Inr
      by (auto simp: list_all_iff)
  qed
  show ?thesis
  proof (cases "''utf8'' \<in> set skip")
    case True
    then have m: "?m = []" by (simp add: LINTS_recursive_set)
    show ?thesis using pass [unfolded m walk_nodes_none] True by simp
  next
    case False
    let ?utf8 = "\<lparr>l_name = ''utf8'', l_ty = Fatal, l_f = Recursive check_utf8, l_root_type = None\<rparr> :: ('d, walk_component) lint_item"
    have m: "?m = [(''utf8'', ?utf8)]" using False by (simp add: LINTS_recursive_set)
    have "?utf8 \<in> set (filter (lint_selected skip kind) (LINTS E))"
      using False by (simp add: LINTS_def lint_selected_def)
    then have "first_result ?cfg (walk_entries nodes) ?utf8 = lint_ok" if ?all
      using that by (auto simp: list_all_iff lint_acceptable_def verdict_def is_regular_def)
    then have clean: "run_recursive ?cfg e ?utf8 = lint_ok" if ?all "e \<in> set (walk_entries nodes)" for e
      using that by (auto simp: first_result_def find_None_iff split: option.splits simp: find_Some_iff)
    have "is_ok ?w \<longleftrightarrow> stop = None \<and> readable nodes" if ?all
    proof -
      have "\<forall>e \<in> set (walk_entries nodes). \<forall>(_, l) \<in> set (fst (?m, [] :: (string, ('d, walk_component) lint_item \<times> lint_result) btree)). run_recursive ?cfg e l = lint_ok"
        using clean [OF that] m by simp
      from walk_nodes_clean [OF this, of stop] m show ?thesis by (auto simp: is_ok_iff)
    qed
    with pass False show ?thesis by auto
  qed
qed

section \<open>The lint of runtime directories\<close>

lemma found_entries_set:
  "found_entries es out = Inr found \<Longrightarrow>
    path_components ` set found = path_components ` set out
      \<union> {path_components (path_join ''/'' (wc_path e)) | e. e \<in> set es \<and> wc_mountpoint e \<noteq> Inr (Some True)}"
proof (induction es out rule: found_entries.induct)
  case (2 e es out)
  then show ?case by (cases "wc_mountpoint e") (auto simp: path_insert_components split: if_splits)
qed simp

lemma known_components:
  "path_components ''/run/systemd/resolve/stub-resolv.conf'' =
     [RootDir, Normal ''run'', Normal ''systemd'', Normal ''resolve'', Normal ''stub-resolv.conf'']"
  "path_components ''/run'' = [RootDir, Normal ''run'']"
  by code_simp+

text \<open>Only the known file and the directories above it are pruned, and those only when they hold nothing else.\<close>

lemma prune_empty_iff:
  "prune_known_run_paths paths = [] \<longleftrightarrow>
    (\<forall>p \<in> set paths. path_components p \<in>
       {[RootDir, Normal ''run'', Normal ''systemd'', Normal ''resolve'', Normal ''stub-resolv.conf''],
        [RootDir, Normal ''run'', Normal ''systemd'', Normal ''resolve''],
        [RootDir, Normal ''run'', Normal ''systemd'']})"
  by (auto simp: prune_known_run_paths_def CONTAINER_RUNTIME_FILES_def known_components Let_def list_ex_iff
      filter_empty_conv split: if_splits)

lemma runtime_dirs_exact:
  assumes "found_in_dirs E root RUNTIME_ONLY_DIRS [] = Inr found"
  shows "check_runtime_only_dirs E root config = lint_ok \<longleftrightarrow>
    (\<forall>p \<in> set found. path_components p \<in>
       {[RootDir, Normal ''run'', Normal ''systemd'', Normal ''resolve'', Normal ''stub-resolv.conf''],
        [RootDir, Normal ''run'', Normal ''systemd'', Normal ''resolve''],
        [RootDir, Normal ''run'', Normal ''systemd'']})"
  unfolding prune_empty_iff [symmetric]
  using assms by (auto simp: check_runtime_only_dirs_def Let_def format_lint_err_from_items_def lint_err_def lint_ok_def)

end
