(* ===== verification/Bound_Images.thy ===== *)
theory Bound_Images
  imports Image_Ref Rust_State Rust_Path
begin

text \<open>
  Logically bound images (\<^verbatim>\<open>crates/lib/src/boundimage.rs\<close>) and the image store that bootc owns
  (\<^verbatim>\<open>crates/lib/src/podstorage.rs\<close>): which images a root asks for, how they are pulled, and how the store is pruned.

  What \<^verbatim>\<open>podman\<close> does is a record of operations on a state of any type. A file in the directory of
  bound images is its name, whether it is a symbolic link, and its contents through the link; the parser of
  INI files is a parameter.
\<close>

section \<open>The images a root asks for\<close>

definition BOUND_IMAGE_DIR :: string where "BOUND_IMAGE_DIR = ''usr/lib/bootc/bound-images.d''"

record bound_image =
  bi_image :: string
  bi_auth_file :: "string option"

record bound_entry =
  bx_name :: "string option"
  bx_symlink :: bool
  bx_contents :: "string res"

record 'i ini_ops =
  ini_from_string :: "string \<Rightarrow> 'i res"
  ini_get :: "'i \<Rightarrow> string \<Rightarrow> string \<Rightarrow> string option"

abbreviation percent :: char where "percent \<equiv> CHR ''%''"

fun parse_spec_value :: "string \<Rightarrow> string res" where
  "parse_spec_value [] = Inr []"
| "parse_spec_value (c # cs) =
     (if c \<noteq> percent then rbind (parse_spec_value cs) (\<lambda>r. Inr (c # r))
      else case cs of
             [] \<Rightarrow> Inl ''Unterminated %''
           | d # ds \<Rightarrow>
               if d = percent then rbind (parse_spec_value ds) (\<lambda>r. Inr (percent # r))
               else Inl ''Systemd specifiers are not supported by bound bootc images'')"

definition bound_image_new :: "string \<Rightarrow> string option \<Rightarrow> bound_image res" where
  "bound_image_new img auth_file =
     rbind (parse_spec_value img) (\<lambda>img.
     rbind (case auth_file of None \<Rightarrow> Inr None | Some a \<Rightarrow> rbind (parse_spec_value a) (\<lambda>a. Inr (Some a))) (\<lambda>auth_file.
     Inr \<lparr>bi_image = img, bi_auth_file = auth_file\<rparr>))"

definition parse_image_file :: "'i ini_ops \<Rightarrow> 'i \<Rightarrow> bound_image res" where
  "parse_image_file I f =
     rbind (ok_or ''Missing Image field'' (ini_get I f ''Image'' ''Image'')) (\<lambda>img.
     if ini_get I f ''Image'' ''AuthFile'' \<noteq> None
     then Inl ''AuthFile is not supported by bound bootc images''
     else bound_image_new img None)"

definition parse_container_file :: "'i ini_ops \<Rightarrow> 'i \<Rightarrow> bound_image res" where
  "parse_container_file I f =
     rbind (ok_or ''Missing Image field'' (ini_get I f ''Container'' ''Image'')) (\<lambda>img. bound_image_new img None)"

definition parse_bound_entry :: "'i ini_ops \<Rightarrow> bound_entry \<Rightarrow> bound_image res" where
  "parse_bound_entry I e =
     rbind (ok_or ''Invalid non-UTF8 filename'' (bx_name e)) (\<lambda>file_name.
     if \<not> bx_symlink e then Inl (''Not a symlink: '' @ file_name)
     else
       rbind (bx_contents e) (\<lambda>contents.
       rbind (ini_from_string I contents) (\<lambda>ini.
       if path_extension file_name = Some ''image'' then parse_image_file I ini
       else if path_extension file_name = Some ''container'' then parse_container_file I ini
       else Inl (''Invalid file extension: '' @ file_name))))"

text \<open>The directory, if there is one.\<close>

definition query_bound_images :: "'i ini_ops \<Rightarrow> bound_entry list option \<Rightarrow> bound_image list res" where
  "query_bound_images I dir =
     (case dir of
        None \<Rightarrow> Inr []
      | Some entries \<Rightarrow> collect_res (map (parse_bound_entry I) entries))"

section \<open>The image store\<close>

definition SUBCMD_ARGV_CHUNKING :: nat where "SUBCMD_ARGV_CHUNKING = 100"

record store_image =
  si_id :: string
  si_names :: "string list option"

record ('s, 't) podman_ops =
  pm_proxy :: "'t proxy"
  pm_container_storage :: 't
  pm_exists :: "string \<Rightarrow> ('s, bool) oper"
  pm_pull :: "string \<Rightarrow> ('s, unit) oper"
  pm_list :: "('s, store_image list) oper"
  pm_rm :: "string list \<Rightarrow> ('s, unit) oper"

datatype pull_mode = PullIfNotExists | PullAlways

definition resolvable_in_storage :: "('s, 't) podman_ops \<Rightarrow> string \<Rightarrow> bool" where
  "resolvable_in_storage M img =
     (case px_parse (pm_proxy M) img of
        Inr r \<Rightarrow> ref_transport r = pm_container_storage M
      | Inl _ \<Rightarrow> True)"

definition cstorage_exists :: "('s, 't) podman_ops \<Rightarrow> string \<Rightarrow> ('s, bool) oper" where
  "cstorage_exists M img = (if \<not> resolvable_in_storage M img then sret False else pm_exists M img)"

definition cstorage_pull :: "('s, 't) podman_ops \<Rightarrow> string \<Rightarrow> pull_mode \<Rightarrow> ('s, bool) oper" where
  "cstorage_pull M img mode =
     sbind (case mode of PullIfNotExists \<Rightarrow> cstorage_exists M img | PullAlways \<Rightarrow> sret False) (\<lambda>present.
     if present then sret False
     else sbind (pm_pull M img) (\<lambda>_. sret True))"

text \<open>\<^verbatim>\<open>slice::chunks\<close>.\<close>

fun chunks_of :: "nat \<Rightarrow> 'a list \<Rightarrow> 'a list list" where
  "chunks_of n [] = []"
| "chunks_of n (x # xs) = take (Suc (n - 1)) (x # xs) # chunks_of n (drop (n - 1) xs)"

definition is_garbage :: "string list \<Rightarrow> store_image \<Rightarrow> bool" where
  "is_garbage roots img = list_all (\<lambda>name. name \<notin> set roots) (case si_names img of None \<Rightarrow> [] | Some ns \<Rightarrow> ns)"

definition cstorage_prune_except_roots :: "('s, 't) podman_ops \<Rightarrow> string list \<Rightarrow> ('s, string list) oper" where
  "cstorage_prune_except_roots M roots =
     sbind (pm_list M) (\<lambda>all_images.
     let garbage = map si_id (filter (is_garbage roots) all_images) in
     sbind (for_each (pm_rm M) (chunks_of SUBCMD_ARGV_CHUNKING garbage)) (\<lambda>_. sret garbage))"

definition pull_images_impl :: "('s, 't) podman_ops \<Rightarrow> bound_image list \<Rightarrow> ('s, unit) oper" where
  "pull_images_impl M =
     for_each (\<lambda>b.
       sbind (cstorage_exists M (bi_image b)) (\<lambda>present.
       if present then sret ()
       else sbind (cstorage_pull M (bi_image b) PullIfNotExists) (\<lambda>_. sret ())))"

text \<open>The store is initialized first, so that its labels are set.\<close>

definition pull_images :: "('s, 't) podman_ops \<Rightarrow> ('s, unit) oper \<Rightarrow> bound_image list \<Rightarrow> ('s, unit) oper" where
  "pull_images M ensure_imgstore bound_images =
     sbind ensure_imgstore (\<lambda>_.
     if bound_images = [] then sret () else pull_images_impl M bound_images)"

section \<open>Values and files\<close>

definition spec_escape :: "string \<Rightarrow> string" where
  "spec_escape s = concat (map (\<lambda>c. if c = percent then [percent, percent] else [c]) s)"

lemma spec_escape_simps [simp]:
  "spec_escape [] = []"
  "spec_escape (c # s) = (if c = percent then percent # percent # spec_escape s else c # spec_escape s)"
  by (simp_all add: spec_escape_def)

text \<open>A value is accepted exactly when each percent sign in it is doubled.\<close>

lemma parse_spec_value_iff: "parse_spec_value v = Inr s \<longleftrightarrow> v = spec_escape s"
proof
  show "parse_spec_value v = Inr s \<Longrightarrow> v = spec_escape s"
  proof (induction v arbitrary: s rule: parse_spec_value.induct)
    case (2 c cs)
    show ?case
    proof (cases "c = percent")
      case True
      with 2(3) obtain ds r where "cs = percent # ds" "parse_spec_value ds = Inr r" "s = percent # r"
        by (cases cs) (auto simp: rbind_Inr_iff split: if_splits)
      with True 2(2) [of percent ds r] show ?thesis by simp
    next
      case False
      with 2(3) obtain r where r: "parse_spec_value cs = Inr r" "s = c # r"
        by (auto simp: rbind_Inr_iff)
      have "cs = spec_escape r" by (rule 2(1) [OF False r(1)])
      with r(2) False show ?thesis by simp
    qed
  qed simp
  have "parse_spec_value (spec_escape s) = Inr s" for s
    by (induction s) simp_all
  then show "v = spec_escape s \<Longrightarrow> parse_spec_value v = Inr s" by simp
qed

lemma bound_image_new_iff:
  "bound_image_new img None = Inr b \<longleftrightarrow> img = spec_escape (bi_image b) \<and> bi_auth_file b = None"
  by (cases b) (auto simp: bound_image_new_def rbind_Inr_iff parse_spec_value_iff)

text \<open>What a file says: the field for its kind of unit, and no credentials of its own.\<close>

definition declares :: "'i ini_ops \<Rightarrow> bound_entry \<Rightarrow> string \<Rightarrow> bool" where
  "declares I e img =
     (case (bx_name e, bx_contents e) of
        (Some name, Inr contents) \<Rightarrow>
          bx_symlink e \<and>
          (case ini_from_string I contents of
             Inl _ \<Rightarrow> False
           | Inr f \<Rightarrow>
               path_extension name = Some ''image'' \<and> ini_get I f ''Image'' ''Image'' = Some (spec_escape img)
                 \<and> ini_get I f ''Image'' ''AuthFile'' = None
               \<or> path_extension name = Some ''container''
                 \<and> ini_get I f ''Container'' ''Image'' = Some (spec_escape img))
      | _ \<Rightarrow> False)"

lemma parse_bound_entry_iff:
  "parse_bound_entry I e = Inr b \<longleftrightarrow> declares I e (bi_image b) \<and> bi_auth_file b = None"
proof (cases "bx_name e")
  case (Some name)
  show ?thesis
  proof (cases "bx_contents e")
    case (Inr c)
    show ?thesis
    proof (cases "ini_from_string I c")
      case f: (Inr f)
      show ?thesis
        by (auto simp: parse_bound_entry_def declares_def Some Inr f parse_image_file_def parse_container_file_def
            rbind_Inr_iff ok_or_Inr_iff bound_image_new_iff split: if_splits)
    qed (simp add: parse_bound_entry_def declares_def Some Inr rbind_Inr_iff)
  qed (simp add: parse_bound_entry_def declares_def Some rbind_Inr_iff)
qed (simp add: parse_bound_entry_def declares_def)

lemma query_bound_images_iff:
  "query_bound_images I dir = Inr bs \<longleftrightarrow>
    list_all2 (\<lambda>e b. declares I e (bi_image b) \<and> bi_auth_file b = None) (case dir of None \<Rightarrow> [] | Some es \<Rightarrow> es) bs"
proof (cases dir)
  case (Some es)
  have "map (parse_bound_entry I) es = map Inr bs \<longleftrightarrow>
      list_all2 (\<lambda>e b. declares I e (bi_image b) \<and> bi_auth_file b = None) es bs"
    unfolding parse_bound_entry_iff [symmetric]
    by (induction es arbitrary: bs) (auto simp: list_all2_Cons1 Cons_eq_map_conv)
  then show ?thesis by (simp add: query_bound_images_def Some collect_res_Inr_iff)
qed (auto simp: query_bound_images_def)

lemma spec_escape_inj: "spec_escape s = spec_escape t \<Longrightarrow> s = t"
  using parse_spec_value_iff by (metis sum.inject(2))

lemma declares_unique: "declares I e a \<Longrightarrow> declares I e b \<Longrightarrow> a = b"
  by (auto simp: declares_def split: option.splits sum.splits dest: spec_escape_inj)

lemma declared_queried:
  assumes "query_bound_images I dir = Inr bs" "e \<in> set (case dir of None \<Rightarrow> [] | Some es \<Rightarrow> es)" "declares I e img"
  shows "img \<in> bi_image ` set bs"
proof -
  obtain b where b: "b \<in> set bs" "declares I e (bi_image b)"
    using assms(1,2) unfolding query_bound_images_iff by (metis (no_types, lifting) list_all2_conv_all_nth in_set_conv_nth)
  have "bi_image b = img" by (rule declares_unique [OF b(2) assms(3)])
  with b(1) show ?thesis by auto
qed

section \<open>Pulling and pruning\<close>

lemma set_chunks: "c \<in> set (chunks_of n xs) \<Longrightarrow> set c \<subseteq> set xs"
proof (induction n xs rule: chunks_of.induct)
  case (2 n x xs)
  then show ?case using set_take_subset [of "Suc (n - 1)" "x # xs"] set_drop_subset [of "n - 1" xs] by auto
qed simp

text \<open>What the queries and pulls of \<^verbatim>\<open>podman\<close> keep, pulling bound images keeps.\<close>

lemma keeps_pull_images:
  assumes R: "state_order R" and ex: "\<And>i. keeps R (pm_exists M i)" and pl: "\<And>i. keeps R (pm_pull M i)"
  shows "keeps R (pull_images_impl M bs)"
  unfolding pull_images_impl_def
proof (rule state_order.keeps_for_each [OF R])
  fix b
  have e: "keeps R (cstorage_exists M i)" for i
    by (simp add: cstorage_exists_def ex state_order.keeps_pure [OF R])
  have "keeps R (cstorage_pull M i PullIfNotExists)" for i
    unfolding cstorage_pull_def
    by (rule state_order.keeps_bind [OF R])
      (simp_all add: e pl state_order.keeps_pure [OF R] state_order.keeps_bind [OF R])
  then show "keeps R (sbind (cstorage_exists M (bi_image b)) (\<lambda>present.
      if present then sret () else sbind (cstorage_pull M (bi_image b) PullIfNotExists) (\<lambda>_. sret ())))"
    by (intro state_order.keeps_bind [OF R e])
      (simp add: state_order.keeps_pure [OF R] state_order.keeps_bind [OF R])
qed

definition names_of :: "store_image \<Rightarrow> string list" where
  "names_of img = (case si_names img of None \<Rightarrow> [] | Some ns \<Rightarrow> ns)"

definition stored_as :: "store_image list \<Rightarrow> string \<Rightarrow> bool" where
  "stored_as images name = list_ex (\<lambda>i. name \<in> set (names_of i)) images"

text \<open>
  What is relied on of \<^verbatim>\<open>podman\<close>. Asking and listing change nothing, a listing is complete, a pull removes
  no name (it may add a name to an image that is there, or move one to a newer image), and a removal removes at most the images
  with the given identifiers, which are unique, and images without a name. For the names in a set, those written the way \<^verbatim>\<open>podman\<close> writes them, an image exists when it is
  listed under the name, and a pull makes it so.
\<close>

locale podman_store =
  fixes M :: "('s, 't) podman_ops" and images :: "'s \<Rightarrow> store_image list" and names :: "string set"
  assumes exists_same: "snd (pm_exists M i s) = s"
    and list_same: "snd (pm_list M s) = s"
    and list_all: "fst (pm_list M s) = Inr l \<Longrightarrow> l = images s"
    and pull_keeps: "stored_as (images s) n \<Longrightarrow> stored_as (images (snd (pm_pull M i s))) n"
    and rm_keeps: "x \<in> set (images s) \<Longrightarrow> names_of x \<noteq> [] \<Longrightarrow> si_id x \<notin> set ids \<Longrightarrow> x \<in> set (images (snd (pm_rm M ids s)))"
    and ids_unique: "x \<in> set (images s) \<Longrightarrow> y \<in> set (images s) \<Longrightarrow> si_id x = si_id y \<Longrightarrow> x = y"
    and exists_listed: "i \<in> names \<Longrightarrow> fst (pm_exists M i s) = Inr True \<Longrightarrow> stored_as (images s) i"
    and pull_listed: "i \<in> names \<Longrightarrow> fst (pm_pull M i s) = Inr () \<Longrightarrow> stored_as (images (snd (pm_pull M i s))) i"
begin

text \<open>Pulling keeps the names that the store has, on every outcome.\<close>

definition store_grows :: "'s \<Rightarrow> 's \<Rightarrow> bool" where
  "store_grows s t \<longleftrightarrow> (\<forall>n. stored_as (images s) n \<longrightarrow> stored_as (images t) n)"

lemma order: "state_order store_grows"
  by unfold_locales (auto simp: store_grows_def)

lemma exists_state: "snd (cstorage_exists M i s) = s"
  by (simp add: cstorage_exists_def sret_def exists_same)

lemma grows_pull_images: "keeps store_grows (pull_images_impl M bs)"
  by (rule keeps_pull_images [OF order]) (simp_all add: keeps_def store_grows_def exists_same pull_keeps)

lemma exists_true:
  assumes "i \<in> names" "cstorage_exists M i s = (Inr True, t)"
  shows "stored_as (images t) i"
proof -
  have "t = s" using exists_state [of i s] assms(2) by simp
  moreover have "fst (pm_exists M i s) = Inr True"
    using assms(2) by (auto simp: cstorage_exists_def sret_def split: if_splits)
  ultimately show ?thesis using exists_listed [OF assms(1)] by simp
qed

lemma pulled:
  assumes "i \<in> names" "cstorage_pull M i PullIfNotExists s = (Inr v, t)"
  shows "stored_as (images t) i"
proof -
  obtain present u where e: "cstorage_exists M i s = (Inr present, u)"
    and r: "(if present then sret False else sbind (pm_pull M i) (\<lambda>_. sret True)) u = (Inr v, t)"
    using assms(2) by (auto simp: cstorage_pull_def sbind_Inr_iff)
  show ?thesis
  proof (cases present)
    case True
    with e r exists_true [OF assms(1)] show ?thesis by (simp add: sret_def)
  next
    case False
    with r have "pm_pull M i u = (Inr (), t)" by (auto simp: sbind_Inr_iff sret_def)
    with pull_listed [OF assms(1), of u] show ?thesis by simp
  qed
qed

text \<open>After a pull every image asked for is there.\<close>

lemma all_pulled:
  assumes "bi_image ` set bs \<subseteq> names" "pull_images_impl M bs s = (Inr (), t)" "b \<in> set bs"
  shows "stored_as (images t) (bi_image b)"
  using assms
proof (induction bs arbitrary: s)
  case (Cons a bs)
  have loop: "pull_images_impl M (a # bs) =
      sbind (sbind (cstorage_exists M (bi_image a)) (\<lambda>present.
        if present then sret () else sbind (cstorage_pull M (bi_image a) PullIfNotExists) (\<lambda>_. sret ())))
        (\<lambda>_. pull_images_impl M bs)"
    by (simp add: pull_images_impl_def)
  from Cons.prems(2) obtain present u v where e: "cstorage_exists M (bi_image a) s = (Inr present, u)"
    and p: "(if present then sret () else sbind (cstorage_pull M (bi_image a) PullIfNotExists) (\<lambda>_. sret ())) u = (Inr (), v)"
    and rest: "pull_images_impl M bs v = (Inr (), t)"
    unfolding loop sbind_Inr_iff by auto
  have a: "bi_image a \<in> names" using Cons.prems(1) by simp
  show ?case
  proof (cases "b = a")
    case True
    have "stored_as (images v) (bi_image a)"
    proof (cases present)
      case True
      with e p exists_true [OF a] show ?thesis by (simp add: sret_def)
    next
      case False
      with p obtain w where "cstorage_pull M (bi_image a) PullIfNotExists u = (Inr w, v)"
        by (auto simp: sbind_Inr_iff sret_def)
      then show ?thesis by (rule pulled [OF a])
    qed
    moreover have "store_grows v t"
      using grows_pull_images [of bs] rest by (simp add: keeps_def) (metis snd_conv)
    ultimately show ?thesis using True by (simp add: store_grows_def)
  next
    case False
    with Cons.prems(1,3) show ?thesis using Cons.IH [OF _ rest] by simp
  qed
qed simp

lemma pulled_declared:
  assumes "query_bound_images I dir = Inr bs" "bi_image ` set bs \<subseteq> names"
    and "pull_images M ensure_imgstore bs s = (Inr (), t)"
    and "e \<in> set (case dir of None \<Rightarrow> [] | Some es \<Rightarrow> es)" "declares I e img"
  shows "stored_as (images t) img"
proof -
  obtain b where b: "b \<in> set bs" "img = bi_image b" using declared_queried [OF assms(1,4,5)] by auto
  obtain u where "(if bs = [] then sret () else pull_images_impl M bs) u = (Inr (), t)"
    using assms(3) by (auto simp: pull_images_def sbind_Inr_iff)
  then have "pull_images_impl M bs u = (Inr (), t)" using b(1) by (auto split: if_splits)
  from all_pulled [OF assms(2) this b(1)] show ?thesis unfolding b(2) .
qed

text \<open>Pruning, on every outcome, keeps each image that has a root among its names.\<close>

definition keeps_image :: "store_image \<Rightarrow> 's \<Rightarrow> 's \<Rightarrow> bool" where
  "keeps_image x s t \<longleftrightarrow> (x \<in> set (images s) \<longrightarrow> x \<in> set (images t))"

lemma image_order: "state_order (keeps_image x)"
  by unfold_locales (auto simp: keeps_image_def)

lemma prune_keeps:
  assumes x: "x \<in> set (images s)" "\<not> is_garbage roots x" and named: "names_of x \<noteq> []"
  shows "x \<in> set (images (snd (cstorage_prune_except_roots M roots s)))"
proof (cases "fst (pm_list M s)")
  case (Inl e)
  then show ?thesis using x(1) list_same by (simp add: cstorage_prune_except_roots_def sbind_snd)
next
  case (Inr l)
  let ?g = "map si_id (filter (is_garbage roots) (images s))"
  have "pm_list M s = (Inr (images s), s)"
    using Inr list_all [OF Inr] list_same [of s] by (cases "pm_list M s") simp
  then have run: "snd (cstorage_prune_except_roots M roots s) = snd (for_each (pm_rm M) (chunks_of SUBCMD_ARGV_CHUNKING ?g) s)"
    by (simp add: cstorage_prune_except_roots_def sbind_def sret_def Let_def split: prod.split sum.split)
  have "si_id x \<notin> set ?g"
  proof
    assume "si_id x \<in> set ?g"
    then obtain y where y: "y \<in> set (images s)" "is_garbage roots y" "si_id x = si_id y" by auto
    from ids_unique [OF x(1) y(1,3)] x(2) y(2) show False by simp
  qed
  then have "si_id x \<notin> set ids" if "ids \<in> set (chunks_of SUBCMD_ARGV_CHUNKING ?g)" for ids
    using set_chunks [OF that] by blast
  then have "keeps (keeps_image x) (pm_rm M ids)" if "ids \<in> set (chunks_of SUBCMD_ARGV_CHUNKING ?g)" for ids
    using that rm_keeps [OF _ named] by (simp add: keeps_def keeps_image_def)
  then have "keeps (keeps_image x) (for_each (pm_rm M) (chunks_of SUBCMD_ARGV_CHUNKING ?g))"
    by (rule state_order.keeps_for_each [OF image_order])
  then show ?thesis using x(1) unfolding run by (simp add: keeps_def keeps_image_def)
qed

lemma prune_keeps_listed:
  assumes "stored_as (images s) n" "n \<in> set roots"
  shows "stored_as (images (snd (cstorage_prune_except_roots M roots s))) n"
proof -
  obtain x where x: "x \<in> set (images s)" "n \<in> set (names_of x)"
    using assms(1) by (auto simp: stored_as_def list_ex_iff)
  then have "\<not> is_garbage roots x" using assms(2) by (auto simp: is_garbage_def names_of_def list_all_iff)
  from prune_keeps [OF x(1) this] x(2) have "x \<in> set (images (snd (cstorage_prune_except_roots M roots s)))" by (metis empty_iff empty_set)
  with x(2) show ?thesis by (auto simp: stored_as_def list_ex_iff)
qed

end

section \<open>Bound images are there\<close>

text \<open>
  When the bound images of a root have been pulled, every image that a file of its directory
  declares is in the image store, and every name that was there before still is. Pruning the store with roots
  that include the bound images keeps them, also when the pruning fails half way. The hypotheses are
  the laws of \<^verbatim>\<open>podman\<close>, that initializing the store removes no image, and that the files name
  images the way \<^verbatim>\<open>podman\<close> lists them.
\<close>

theorem bound_images_present:
  assumes "podman_store M images names"
    and "query_bound_images I dir = Inr bs" and "bi_image ` set bs \<subseteq> names"
    and "\<forall>s n. stored_as (images s) n \<longrightarrow> stored_as (images (snd (ensure_imgstore s))) n"
    and "pull_images M ensure_imgstore bs s = (Inr (), t)"
    and "bi_image ` set bs \<subseteq> set roots"
  shows "(\<forall>e img. e \<in> set (case dir of None \<Rightarrow> [] | Some es \<Rightarrow> es) \<longrightarrow> declares I e img \<longrightarrow>
      stored_as (images t) img \<and> stored_as (images (snd (cstorage_prune_except_roots M roots t))) img)
    \<and> (\<forall>n. stored_as (images s) n \<longrightarrow> stored_as (images t) n)"
proof -
  obtain u where u: "ensure_imgstore s = (Inr (), u)"
    and pull: "(if bs = [] then sret () else pull_images_impl M bs) u = (Inr (), t)"
    using assms(5) by (auto simp: pull_images_def sbind_Inr_iff)
  have su: "stored_as (images s) n \<Longrightarrow> stored_as (images u) n" for n using assms(4) u by (metis snd_conv)
  have ut: "stored_as (images u) n \<Longrightarrow> stored_as (images t) n" for n
  proof (cases "bs = []")
    case False
    have "stored_as (images u) n \<Longrightarrow> stored_as (images (snd (pull_images_impl M bs u))) n"
      using podman_store.grows_pull_images [OF assms(1), of bs]
      by (simp add: keeps_def podman_store.store_grows_def [OF assms(1)])
    moreover assume "stored_as (images u) n"
    ultimately show ?thesis using pull False by simp
  qed (use pull in \<open>simp add: sret_def\<close>)
  have "stored_as (images t) img \<and> stored_as (images (snd (cstorage_prune_except_roots M roots t))) img"
    if e: "e \<in> set (case dir of None \<Rightarrow> [] | Some es \<Rightarrow> es)" "declares I e img" for e img
    using podman_store.pulled_declared [OF assms(1,2,3,5) e] declared_queried [OF assms(2) e]
      podman_store.prune_keeps_listed [OF assms(1)] assms(6) by blast
  with su ut show ?thesis by blast
qed

text \<open>A store of images that each have one name, which is the identifier, too.\<close>

definition name_images :: "string list \<Rightarrow> store_image list" where
  "name_images = map (\<lambda>n. \<lparr>si_id = n, si_names = Some [n]\<rparr>)"

definition name_podman :: "(string list, transport_ref) podman_ops" where
  "name_podman = \<lparr>pm_proxy = proxy_ref, pm_container_storage = px_registry proxy_ref,
     pm_exists = (\<lambda>i s. (Inr (i \<in> set s), s)),
     pm_pull = (\<lambda>i s. (Inr (), if i \<in> set s then s else s @ [i])),
     pm_list = (\<lambda>s. (Inr (name_images s), s)),
     pm_rm = (\<lambda>ids s. (Inr (), filter (\<lambda>n. n \<notin> set ids) s))\<rparr>"

interpretation name_store: podman_store name_podman name_images UNIV
  by unfold_locales (auto simp: name_podman_def name_images_def stored_as_def names_of_def list_ex_iff)

text \<open>Files that hold the name of an image.\<close>

definition line_ini :: "string ini_ops" where
  "line_ini = \<lparr>ini_from_string = Inr, ini_get = (\<lambda>f sec key. if key = ''Image'' then Some f else None)\<rparr>"

definition bound_demo_dir :: "bound_entry list" where
  "bound_demo_dir = [\<lparr>bx_name = Some ''a.image'', bx_symlink = True, bx_contents = Inr ''q/a:1''\<rparr>,
     \<lparr>bx_name = Some ''b.container'', bx_symlink = True, bx_contents = Inr ''q/b:%%1''\<rparr>]"

theorem bound_images_present_witness:
  "pull_images name_podman (sret ()) [\<lparr>bi_image = ''q/a:1'', bi_auth_file = None\<rparr>, \<lparr>bi_image = ''q/b:%1'', bi_auth_file = None\<rparr>]
      [''q/a:1'', ''q/c:1''] = (Inr (), [''q/a:1'', ''q/c:1'', ''q/b:%1''])
    \<and> stored_as (name_images (snd (cstorage_prune_except_roots name_podman [''q/b:%1'', ''q/a:1''] [''q/a:1'', ''q/c:1'', ''q/b:%1''])))
        ''q/b:%1''"
proof -
  let ?bs = "[\<lparr>bi_image = ''q/a:1'', bi_auth_file = None\<rparr>, \<lparr>bi_image = ''q/b:%1'', bi_auth_file = None\<rparr>]"
  have q: "query_bound_images line_ini (Some bound_demo_dir) = Inr ?bs" by code_simp
  have p: "pull_images name_podman (sret ()) ?bs [''q/a:1'', ''q/c:1''] = (Inr (), [''q/a:1'', ''q/c:1'', ''q/b:%1''])"
    by code_simp
  have d: "declares line_ini (bound_demo_dir ! 1) ''q/b:%1''" "bound_demo_dir ! 1 \<in> set bound_demo_dir" by code_simp+
  have "\<forall>s n. stored_as (name_images s) n \<longrightarrow> stored_as (name_images (snd (sret () s))) n" by (simp add: sret_def)
  from bound_images_present [OF name_store.podman_store_axioms q _ this p, of "[''q/b:%1'', ''q/a:1'']"] p d
  show ?thesis by auto
qed

end
