(* ===== verification/Deploy.thy ===== *)
theory Deploy
  imports Bound_Images Host_Spec Loader_Entries Image_Store
begin

text \<open>
  Updates of a host with ostree deployments (\<^verbatim>\<open>crates/lib/src/deploy.rs\<close>): retrying a pull, the check of free
  space, staging an image, rolling back, pruning, and the edit of \<^verbatim>\<open>/etc/fstab\<close>.

  What libostree does is a record of operations on a state of any type. The locales \<^verbatim>\<open>sysroot_writes\<close> and \<^verbatim>\<open>staging\<close> have what is
  relied on of it, and the second builds on the laws of \<^verbatim>\<open>podman\<close>. Progress reports and log messages are not
  modelled.
\<close>

section \<open>Retrying a pull\<close>

definition PULL_MAX_RETRIES :: nat where "PULL_MAX_RETRIES = 3"

definition PULL_RETRY_INITIAL_DELAY :: nat where "PULL_RETRY_INITIAL_DELAY = 2"

text \<open>\<^verbatim>\<open>u32\<close> saturates; the product does not, in the range of \<^verbatim>\<open>Duration\<close>.\<close>

definition pull_retry_delay :: "nat \<Rightarrow> nat" where
  "pull_retry_delay retry = PULL_RETRY_INITIAL_DELAY * min (2 ^ retry) (2 ^ 32 - 1)"

text \<open>Which errors can be retried is decided by the types of the image proxy; a pause is the report and the sleep.\<close>

function retry_from ::
  "(fault \<Rightarrow> bool) \<Rightarrow> (nat \<Rightarrow> 's \<Rightarrow> 's) \<Rightarrow> ('s, 'a) oper \<Rightarrow> nat \<Rightarrow> ('s, 'a) oper" where
  "retry_from retryable pause operation retries s =
     (case operation s of
        (Inr v, t) \<Rightarrow> (Inr v, t)
      | (Inl e, t) \<Rightarrow>
          if retries < PULL_MAX_RETRIES \<and> retryable e
          then retry_from retryable pause operation (retries + 1) (pause (pull_retry_delay retries) t)
          else (Inl e, t))"
  by pat_completeness auto
termination
  by (relation "measure (\<lambda>(_, _, _, retries, _). PULL_MAX_RETRIES - retries)") auto

declare retry_from.simps [simp del]

definition retry_pull_operation ::
  "(fault \<Rightarrow> bool) \<Rightarrow> (nat \<Rightarrow> 's \<Rightarrow> 's) \<Rightarrow> ('s, 'a) oper \<Rightarrow> ('s, 'a) oper" where
  "retry_pull_operation retryable pause operation = retry_from retryable pause operation 0"

section \<open>Free space\<close>

definition check_disk_space_inner :: "u64 \<Rightarrow> u64 \<Rightarrow> u64 \<Rightarrow> u64 \<Rightarrow> unit res" where
  "check_disk_space_inner f_bsize f_bavail bytes_to_fetch min_free =
     (let bytes_avail = (if unat f_bsize * unat f_bavail < 2 ^ 64 then f_bsize * f_bavail else - 1);
          usable = (if min_free \<le> bytes_avail then bytes_avail - min_free else 0)
      in if bytes_to_fetch > usable then Inl ''Insufficient free space'' else Inr ())"

text \<open>\<^verbatim>\<open>Iterator::sum\<close> of \<^verbatim>\<open>u64\<close>, which wraps in a release build.\<close>

definition check_disk_space_composefs :: "u64 \<Rightarrow> u64 \<Rightarrow> u64 list \<Rightarrow> unit res" where
  "check_disk_space_composefs f_bsize f_bavail layer_sizes =
     check_disk_space_inner f_bsize f_bavail (sum_list layer_sizes) 0"

section \<open>\<^verbatim>\<open>/etc/fstab\<close>\<close>

definition BOOTC_EDITED_STAMP :: string where "BOOTC_EDITED_STAMP = ''Updated by bootc-fstab-edit.service''"

definition nth_part :: "nat \<Rightarrow> 'a list \<Rightarrow> 'a option" where
  "nth_part i xs = (if i < length xs then Some (xs ! i) else None)"

text \<open>The text written instead of the line, if the line is changed.\<close>

definition edit_fstab_line :: "string \<Rightarrow> string option" where
  "edit_fstab_line line =
     (if starts_with ''#'' line then None
      else
        let parts = words_ws [] line in
        case (nth_part 1 parts, nth_part 3 parts) of
          (Some path, Some opts) \<Rightarrow>
            if path \<noteq> ''/'' then None
            else if list_ex (\<lambda>s. s = ''ro'') (split_on (CHR '','') opts) then None
            else Some (''# '' @ BOOTC_EDITED_STAMP @ [NL] @ join_with '' '' (parts[3 := opts @ '',ro'']) @ [NL])
        | _ \<Rightarrow> None)"

definition fixup_etc_fstab :: "string \<Rightarrow> string" where
  "fixup_etc_fstab content =
     concat (map (\<lambda>line. case edit_fstab_line line of Some text \<Rightarrow> text | None \<Rightarrow> line @ [NL]) (str_lines content))"

section \<open>Switching in place\<close>

text \<open>Directory entries: the name if it is UTF-8, whether it is a directory, and its modification time. The
  order among directories of the same age is that of the entries here, and unspecified in the code.\<close>

definition find_newest_deployment_name :: "(string option \<times> bool \<times> int) list \<Rightarrow> string res" where
  "find_newest_deployment_name entries =
     (let dirs = concat (map (\<lambda>(name, is_dir, mtime).
            case name of Some n \<Rightarrow> if is_dir then [(n, mtime)] else [] | None \<Rightarrow> []) entries);
          sorted = Rust_Collections.sort_by (\<lambda>a b. ord_cmp (snd a) (snd b)) dirs
      in if sorted = [] then Inl ''No deployment directory found'' else Inr (fst (last sorted)))"

section \<open>Deployments\<close>

text \<open>
  What is read of the system root and its repository, and the operations on it. Files below \<^verbatim>\<open>/run\<close> are
  written by name; the check out of a commit gives its directory of bound images.
\<close>

record ('s, 'd, 'o, 't, 'c, 'p) sysroot_ops =
  sy_deployments :: "'s \<Rightarrow> 'd list"
  sy_booted :: "'s \<Rightarrow> 'd option"
  sy_staged :: "'s \<Rightarrow> 'd option"
  sy_view :: "'s \<Rightarrow> ('d, 'o, 't) ostree_view"
  sy_query_commit :: "'s \<Rightarrow> string \<Rightarrow> layered_image_state res"
  sy_bound_dir :: "'s \<Rightarrow> 'd \<Rightarrow> bound_entry list option res"
  sy_options :: "'s \<Rightarrow> 'd \<Rightarrow> string option"
  sy_root_kargs :: "'s \<Rightarrow> 'd \<Rightarrow> (string \<times> string) list option"
  sy_commit_kargs :: "'s \<Rightarrow> string \<Rightarrow> (string \<times> string) list option"
  sy_cmdline :: "('c, 'p) cmdline_ops"
  sy_toml :: "string \<Rightarrow> kargs_config res"
  sy_arch :: string
  sy_checkout_bound :: "string \<Rightarrow> ('s, bound_entry list option) oper"
  sy_write_deployments :: "'d list \<Rightarrow> ('s, unit) oper"
  sy_stage_tree :: "string \<Rightarrow> string \<Rightarrow> string \<Rightarrow> 'd option \<Rightarrow> 'c \<Rightarrow> bool \<Rightarrow> ('s, int) oper"
  sy_prune_repo :: "('s, unit) oper"
  sy_write_run :: "string \<Rightarrow> string \<Rightarrow> ('s, unit) oper"
  sy_update_mtime :: "('s, unit) oper"

record image_state =
  is_manifest_digest :: string
  is_version :: "string option"
  is_ostree_commit :: string

datatype ('d, 'c) merge_state = MergeDeployment 'd | MergeReset string 'c

abbreviation sres :: "'a res \<Rightarrow> ('s, 'a) oper" where
  "sres r \<equiv> slift (lift_res r)"

definition write_reboot_required :: "('s, 'd, 'o, 't, 'c, 'p) sysroot_ops \<Rightarrow> string \<Rightarrow> ('s, unit) oper" where
  "write_reboot_required S img = sy_write_run S ''reboot-required'' (''bootc: Reboot required for image: '' @ img)"

definition get_status_require_booted ::
  "'t proxy \<Rightarrow> ('s, 'd, 'o, 't, 'c, 'p) sysroot_ops \<Rightarrow> ('s, 'd \<times> 'd deployments \<times> host) oper" where
  "get_status_require_booted P S s =
     (case sy_booted S s of
        None \<Rightarrow> (Inl (Err ''Not currently booted into an OSTree system''), s)
      | Some b \<Rightarrow>
          (rbind (get_status P (sy_view S s) (sy_deployments S s) b) (\<lambda>(deps, h). Inr (b, deps, h)), s))"

definition boot_entry_query_image ::
  "('s, 'd, 'o, 't, 'c, 'p) sysroot_ops \<Rightarrow> boot_entry \<Rightarrow> ('s, layered_image_state option) oper" where
  "boot_entry_query_image S e s =
     (if be_image e = None then (Inr None, s)
      else case be_ostree e of
             Some os \<Rightarrow> (lift_res (rbind (sy_query_commit S s (os_checksum os)) (\<lambda>i. Inr (Some i))), s)
           | None \<Rightarrow> (Inr None, s))"

definition deploy_rollback ::
  "'t proxy \<Rightarrow> ('s, 'd, 'o, 't, 'c, 'p) sysroot_ops \<Rightarrow> ('s, unit) oper" where
  "deploy_rollback P S =
     sbind (get_status_require_booted P S) (\<lambda>(b, deps, h).
     let new_spec = (host_spec_of h)\<lparr>hs_boot_order := boot_order_swap (hs_boot_order (host_spec_of h))\<rparr>;
         reverting = (hs_boot_order new_spec = OrderDefault)
     in
       sbind (sres (verify_transition (host_spec_of h) new_spec)) (\<lambda>_.
       sbind (sres (ok_or ''No rollback available'' (rollback (host_status_of h)))) (\<lambda>rollback_status.
       sbind (boot_entry_query_image S rollback_status) (\<lambda>img.
       sbind (sres (ok_or ''Rollback is not container image based'' img)) (\<lambda>rollback_image.
       case dp_rollback deps of
         None \<Rightarrow> sfail (Panic ''rollback deployment'')
       | Some rollback_deployment \<Rightarrow>
           sbind (sy_write_deployments S
                    ((if reverting then [b, rollback_deployment] else [rollback_deployment, b]) @ dp_other deps)) (\<lambda>_.
           sbind (write_reboot_required S (li_manifest_digest rollback_image)) (\<lambda>_.
           sy_update_mtime S)))))))"

section \<open>Staging\<close>

definition origin_from_imageref :: "'t proxy \<Rightarrow> spec_image_ref \<Rightarrow> string outcome" where
  "origin_from_imageref P img = rbind (ostree_of_spec_ref P img) (\<lambda>r. Inr (ostree_image_ref_fmt P False r))"

definition pull_bound_images_for_commit ::
  "('s, 'd, 'o, 't, 'c, 'p) sysroot_ops \<Rightarrow> ('s, 't) podman_ops \<Rightarrow> ('s, unit) oper \<Rightarrow> 'i ini_ops \<Rightarrow> string \<Rightarrow> ('s, unit) oper" where
  "pull_bound_images_for_commit S M ensure_imgstore I commit =
     sbind (sy_checkout_bound S commit) (\<lambda>dir.
     sbind (sres (query_bound_images I dir)) (\<lambda>bound_images.
     pull_images M ensure_imgstore bound_images))"

text \<open>The kernel arguments and state root of the new deployment.\<close>

definition merge_kargs ::
  "('s, 'd, 'o, 't, 'c, 'p) sysroot_ops \<Rightarrow> ('d, 'c) merge_state \<Rightarrow> string \<Rightarrow> ('s, string \<times> 'c) oper" where
  "merge_kargs S from commit s =
     (case from of
        MergeDeployment d \<Rightarrow>
          (lift_res (rbind (get_kargs (sy_cmdline S) (sy_toml S) (sy_arch S) (sy_options S s d)
              (sy_root_kargs S s d) (sy_commit_kargs S s commit)) (\<lambda>ks. Inr (d_stateroot (sy_view S s) d, ks))), s)
      | MergeReset stateroot ks \<Rightarrow> (Inr (stateroot, ks), s))"

definition deployment_at ::
  "('s, 'd, 'o, 't, 'c, 'p) sysroot_ops \<Rightarrow> ('d, 'c) merge_state \<Rightarrow> ('s, 'd option) oper" where
  "deployment_at S from s =
     (case from of
        MergeReset _ _ \<Rightarrow> (Inr None, s)
      | MergeDeployment d \<Rightarrow>
          let i = d_index (sy_view S s) d; ds = sy_deployments S s in
          if 0 \<le> i \<and> nat i < length ds then (Inr (Some (ds ! nat i)), s)
          else (Inl (Panic ''index out of bounds''), s))"

definition deploy ::
  "('s, 'd, 'o, 't, 'c, 'p) sysroot_ops \<Rightarrow> ('d, 'c) merge_state \<Rightarrow> image_state \<Rightarrow> string \<Rightarrow> bool \<Rightarrow> ('s, 'd) oper" where
  "deploy S from img origin lock_finalization =
     sbind (merge_kargs S from (is_ostree_commit img)) (\<lambda>(stateroot, override_kargs).
     sbind (deployment_at S from) (\<lambda>merge_deployment.
     sbind (sy_stage_tree S stateroot (is_ostree_commit img) origin merge_deployment override_kargs lock_finalization) (\<lambda>r s.
     case sy_staged S s of
       None \<Rightarrow> (Inl (Panic ''called Option::unwrap() on a None value''), s)
     | Some d \<Rightarrow> if d_index (sy_view S s) d \<noteq> r then (Inl (Panic ''assertion failed''), s) else (Inr d, s))))"

text \<open>The images a deployment needs: its bound images, and the host image by its bare name.\<close>

definition deployment_roots ::
  "'t proxy \<Rightarrow> ('s, 'd, 'o, 't, 'c, 'p) sysroot_ops \<Rightarrow> 'i ini_ops \<Rightarrow> 's \<Rightarrow> 'd \<Rightarrow> string list outcome" where
  "deployment_roots P S I s d =
     rbind (lift_res (rbind (sy_bound_dir S s d) (query_bound_images I))) (\<lambda>bound.
     rbind (boot_entry_from_deployment P (sy_view S s) d) (\<lambda>e.
     Inr (map bi_image bound @ (case be_image e of Some i \<Rightarrow> [spec_image (st_image i)] | None \<Rightarrow> []))))"

definition prune_container_store ::
  "'t proxy \<Rightarrow> ('s, 'd, 'o, 't, 'c, 'p) sysroot_ops \<Rightarrow> ('s, 't) podman_ops \<Rightarrow> ('s, unit) oper \<Rightarrow> 'i ini_ops \<Rightarrow> ('s, unit) oper" where
  "prune_container_store P S M ensure_imgstore I =
     sbind (\<lambda>s. (collect_res (map (deployment_roots P S I s) (sy_deployments S s)), s)) (\<lambda>roots.
     sbind ensure_imgstore (\<lambda>_.
     sbind (cstorage_prune_except_roots M (concat roots)) (\<lambda>_. sret ())))"

text \<open>
  The two prunes work on separate stores and run concurrently; they are taken in sequence. The one of the
  repository, which removes images that are not deployed and layers without a reference, is an operation of the system root.
\<close>

definition cleanup ::
  "'t proxy \<Rightarrow> ('s, 'd, 'o, 't, 'c, 'p) sysroot_ops \<Rightarrow> ('s, 't) podman_ops \<Rightarrow> ('s, unit) oper \<Rightarrow> 'i ini_ops \<Rightarrow> ('s, unit) oper" where
  "cleanup P S M ensure_imgstore I =
     sbind (sy_prune_repo S) (\<lambda>_. prune_container_store P S M ensure_imgstore I)"

definition stage ::
  "'t proxy \<Rightarrow> ('s, 'd, 'o, 't, 'c, 'p) sysroot_ops \<Rightarrow> ('s, 't) podman_ops \<Rightarrow> ('s, unit) oper \<Rightarrow> 'i ini_ops
    \<Rightarrow> ('d, 'c) merge_state \<Rightarrow> image_state \<Rightarrow> spec_image_ref \<Rightarrow> bool \<Rightarrow> ('s, unit) oper" where
  "stage P S M ensure_imgstore I from img spec lock_finalization =
     sbind (pull_bound_images_for_commit S M ensure_imgstore I (is_ostree_commit img)) (\<lambda>_.
     sbind (slift (origin_from_imageref P spec)) (\<lambda>origin.
     sbind (deploy S from img origin lock_finalization) (\<lambda>_.
     sbind (cleanup P S M ensure_imgstore I) (\<lambda>_.
     write_reboot_required S (is_manifest_digest img)))))"

section \<open>Retries are bounded\<close>

text \<open>The state before each attempt, with a pause of two, four, eight seconds and so on before each but the first.\<close>

fun attempt_state :: "(nat \<Rightarrow> 's \<Rightarrow> 's) \<Rightarrow> ('s, 'a) oper \<Rightarrow> nat \<Rightarrow> 's \<Rightarrow> 's" where
  "attempt_state pause operation 0 s = s"
| "attempt_state pause operation (Suc k) s =
     pause (2 ^ Suc k) (snd (operation (attempt_state pause operation k s)))"

lemma retry_delay: "k < PULL_MAX_RETRIES \<Longrightarrow> pull_retry_delay k = 2 ^ Suc k"
  by (auto simp: PULL_MAX_RETRIES_def pull_retry_delay_def PULL_RETRY_INITIAL_DELAY_def less_Suc_eq numeral_3_eq_3)

definition fails_retryably :: "(fault \<Rightarrow> bool) \<Rightarrow> 'a outcome \<Rightarrow> bool" where
  "fails_retryably retryable r = (case r of Inl e \<Rightarrow> retryable e | Inr _ \<Rightarrow> False)"

lemma retry_from_step:
  "retry_from retryable pause operation k s =
    (if k < PULL_MAX_RETRIES \<and> fails_retryably retryable (fst (operation s))
     then retry_from retryable pause operation (Suc k) (pause (pull_retry_delay k) (snd (operation s)))
     else operation s)"
proof -
  obtain r t where "operation s = (r, t)" by fastforce
  then show ?thesis
    by (subst retry_from.simps) (auto simp: fails_retryably_def split: sum.split)
qed

lemma retry_from_eq:
  assumes "k \<le> n" "n \<le> PULL_MAX_RETRIES"
    and "\<And>i. k \<le> i \<Longrightarrow> i < n \<Longrightarrow> fails_retryably retryable (fst (operation (attempt_state pause operation i s)))"
    and "n = PULL_MAX_RETRIES \<or> \<not> fails_retryably retryable (fst (operation (attempt_state pause operation n s)))"
  shows "retry_from retryable pause operation k (attempt_state pause operation k s) =
    operation (attempt_state pause operation n s)"
  using assms
proof (induction "n - k" arbitrary: k)
  case 0
  then show ?case by (subst retry_from_step) auto
next
  case (Suc m)
  then have "k < n" by simp
  then have "retry_from retryable pause operation (Suc k) (attempt_state pause operation (Suc k) s) =
      operation (attempt_state pause operation n s)"
    using Suc by (intro Suc(1)) auto
  moreover have "pull_retry_delay k = 2 ^ Suc k" using \<open>k < n\<close> Suc.prems(2) by (intro retry_delay) simp
  ultimately show ?case using Suc.prems(3) [of k] Suc.prems(2) \<open>k < n\<close> by (subst retry_from_step) simp
qed

text \<open>
  C38. A pull is tried again after each error that can be retried, at most three times, with pauses of two, four
  and eight seconds; it ends with the first attempt that succeeds or fails with an error that cannot be retried, or with the
  fourth, and what it returns is what that attempt returned.
\<close>

theorem retry_exact:
  "\<exists>n. n \<le> 3 \<and> retry_pull_operation retryable pause operation s = operation (attempt_state pause operation n s)
     \<and> list_all (\<lambda>i. fails_retryably retryable (fst (operation (attempt_state pause operation i s)))) [0..<n]
     \<and> (if fails_retryably retryable (fst (operation (attempt_state pause operation n s))) then n = 3 else True)"
proof -
  let ?P = "\<lambda>n. n = PULL_MAX_RETRIES \<or> \<not> fails_retryably retryable (fst (operation (attempt_state pause operation n s)))"
  define n where "n = (LEAST n. ?P n)"
  have P: "?P n" unfolding n_def by (rule LeastI [of ?P PULL_MAX_RETRIES]) simp
  have le: "n \<le> PULL_MAX_RETRIES" unfolding n_def by (rule Least_le) simp
  have before: "fails_retryably retryable (fst (operation (attempt_state pause operation i s)))" if "i < n" for i
    using not_less_Least [of i ?P] that unfolding n_def by blast
  have "retry_from retryable pause operation 0 (attempt_state pause operation 0 s) = operation (attempt_state pause operation n s)"
    by (rule retry_from_eq) (use le before P in auto)
  with le before P show ?thesis
    unfolding retry_pull_operation_def by (intro exI [of _ n]) (auto simp: list_all_iff PULL_MAX_RETRIES_def)
qed

section \<open>The space check is exact\<close>

text \<open>The checked product and the saturating difference compute over the natural numbers, capped at the word size.\<close>

lemma check_disk_space_exact:
  "check_disk_space_inner f_bsize f_bavail bytes_to_fetch min_free = Inr () \<longleftrightarrow>
    unat bytes_to_fetch \<le> min (unat f_bsize * unat f_bavail) (2 ^ 64 - 1) - unat min_free"
proof -
  define avail where "avail = (if unat f_bsize * unat f_bavail < 2 ^ 64 then f_bsize * f_bavail else (- 1 :: u64))"
  have avail: "unat avail = min (unat f_bsize * unat f_bavail) (2 ^ 64 - 1)"
  proof (cases "unat f_bsize * unat f_bavail < 2 ^ 64")
    case True
    then have "unat (f_bsize * f_bavail) = unat f_bsize * unat f_bavail"
      by (simp add: unat_word_ariths(2))
    with True show ?thesis by (simp add: avail_def)
  next
    case False
    then show ?thesis by (simp add: avail_def unsigned_minus_1_eq_mask mask_eq_exp_minus_1)
  qed
  let ?usable = "if min_free \<le> avail then avail - min_free else 0"
  have u: "unat ?usable = unat avail - unat min_free"
    by (cases "min_free \<le> avail") (simp_all add: unat_sub word_le_nat_alt)
  have "\<not> ?usable < bytes_to_fetch \<longleftrightarrow> unat bytes_to_fetch \<le> unat avail - unat min_free"
    unfolding word_less_nat_alt u by (rule not_less)
  moreover have "(if c then Inl e else Inr ()) = Inr () \<longleftrightarrow> \<not> c" for c and e :: string by simp
  ultimately show ?thesis
    unfolding check_disk_space_inner_def Let_def avail_def [symmetric] avail [symmetric] by (simp only:)
qed

text \<open>The sizes that a manifest gives add up modulo the word size, so a manifest of huge layers passes the check.\<close>

lemma layer_sizes_wrap:
  "check_disk_space_composefs 4096 1 [0x8000000000000000, 0x8000000000000000] = Inr ()"
proof -
  have "sum_list [0x8000000000000000, 0x8000000000000000 :: u64] = 0" by simp
  then show ?thesis unfolding check_disk_space_composefs_def check_disk_space_exact by (simp only: unsigned_0 le0)
qed

section \<open>The edit of \<^verbatim>\<open>/etc/fstab\<close> is complete and idempotent\<close>

definition solid_word :: "string \<Rightarrow> bool" where
  "solid_word w = (w \<noteq> [] \<and> list_all (\<lambda>c. \<not> is_ascii_ws c) w)"

lemma words_ws_solid: "list_all (\<lambda>c. \<not> is_ascii_ws c) acc \<Longrightarrow> list_all solid_word (words_ws acc s)"
proof (induction acc s rule: words_ws.induct)
  case (2 acc c cs)
  show ?case
  proof (cases "is_ascii_ws c")
    case True
    with 2 show ?thesis by (cases "acc = []") (simp_all add: solid_word_def)
  next
    case False
    with 2 show ?thesis by simp
  qed
qed (simp add: solid_word_def)

lemma words_ws_append: "list_all (\<lambda>c. \<not> is_ascii_ws c) w \<Longrightarrow> words_ws acc (w @ s) = words_ws (acc @ w) s"
  by (induction w arbitrary: acc) simp_all

lemma words_ws_join:
  "list_all solid_word ws \<Longrightarrow> words_ws [] (join_with '' '' ws) = ws"
proof (induction ws rule: induct_list012)
  case (2 w)
  then show ?case using words_ws_append [of w "[]" "[]"] by (simp add: solid_word_def)
next
  case (3 v w ws)
  have "is_ascii_ws (CHR '' '')" by (simp add: is_ascii_ws_def)
  with 3 show ?case by (simp add: words_ws_append solid_word_def)
qed simp

lemma ro_appended: "''ro'' \<in> set (split_on (CHR '','') (opts @ '',ro''))"
proof -
  have "split_on (CHR '','') (opts @ CHR '','' # ''ro'') = split_on (CHR '','') opts @ [''ro'']"
    by (induction opts) (auto split: list.splits)
  then show ?thesis by simp
qed

text \<open>
  A line that mounts the root without \<^verbatim>\<open>ro\<close>: not a comment, with a source, the mount point \<^verbatim>\<open>/\<close>, a type and
  options that do not have \<^verbatim>\<open>ro\<close> among them; and the line with the option added.
\<close>

definition mounts_root_rw :: "string \<Rightarrow> bool" where
  "mounts_root_rw line =
     (line \<noteq> [] \<and> hd line \<noteq> CHR ''#''
      \<and> (case words_ws [] line of
           source # target # fstype # options # _ \<Rightarrow> target = ''/'' \<and> ''ro'' \<notin> set (split_on (CHR '','') options)
         | _ \<Rightarrow> False))"

definition edited_line :: "string \<Rightarrow> string" where
  "edited_line line =
     (case words_ws [] line of
        source # target # fstype # options # rest \<Rightarrow> join_with '' '' (source # target # fstype # (options @ '',ro'') # rest)
      | _ \<Rightarrow> line)"

lemma edit_fstab_line_iff: "edit_fstab_line line \<noteq> None \<longleftrightarrow> mounts_root_rw line"
proof (cases "words_ws [] line")
  case (Cons a as)
  then have ne: "line \<noteq> []" by auto
  then have "starts_with ''#'' line \<longleftrightarrow> hd line = CHR ''#''" by (cases line) (auto simp: starts_with_def)
  with ne Cons show ?thesis
    by (cases as rule: remdups_adj.cases)
       (auto simp: edit_fstab_line_def mounts_root_rw_def nth_part_def list_ex_iff Let_def split: list.splits if_splits)
qed (auto simp: edit_fstab_line_def mounts_root_rw_def nth_part_def)

lemma edit_fstab_line_Some:
  assumes "edit_fstab_line line = Some out"
  shows "out = (''# '' @ BOOTC_EDITED_STAMP) @ NL # edited_line line @ [NL]
    \<and> edit_fstab_line (edited_line line) = None
    \<and> (\<forall>c \<in> set (edited_line line). c = CHR '' '' \<or> \<not> is_ascii_ws c)"
proof -
  let ?parts = "words_ws [] line"
  let ?opts = "?parts ! 3" and ?new = "?parts[3 := ?parts ! 3 @ '',ro'']"
  have len: "3 < length ?parts" and path: "?parts ! 1 = ''/''"
    and out: "out = ''# '' @ BOOTC_EDITED_STAMP @ [NL] @ join_with '' '' ?new @ [NL]"
    using assms by (auto simp: edit_fstab_line_def nth_part_def Let_def split: if_splits option.splits)
  obtain a b c d rest where parts: "?parts = a # b # c # d # rest"
    using len by (auto simp: Suc_le_length_iff numeral_3_eq_3 dest!: Suc_leI)
  have e: "edited_line line = join_with '' '' ?new" by (simp add: edited_line_def parts)
  have solid: "list_all solid_word ?parts" by (rule words_ws_solid) simp
  have "solid_word ?opts" using solid nth_mem [OF len] by (simp add: list_all_iff)
  then have "solid_word (?opts @ '',ro'')" by (simp add: solid_word_def is_ascii_ws_def)
  with solid have new: "list_all solid_word ?new"
    using set_update_subset_insert [of ?parts 3 "?opts @ '',ro''"] unfolding list_all_iff by blast
  have w: "words_ws [] (edited_line line) = ?new" unfolding e by (rule words_ws_join [OF new])
  have "nth_part 1 ?new = Some ''/''" "nth_part 3 ?new = Some (?opts @ '',ro'')"
    using len path by (simp_all add: nth_part_def)
  moreover have "list_ex (\<lambda>s. s = ''ro'') (split_on (CHR '','') (?opts @ '',ro''))"
    using ro_appended [of ?opts] by (simp only: list_ex_iff) blast
  ultimately have "edit_fstab_line (edited_line line) = None"
    unfolding edit_fstab_line_def w Let_def by (simp only: option.case prod.case if_True if_False simp_thms if_cancel)
  moreover have "\<forall>c \<in> set (join_with '' '' ws). c = CHR '' '' \<or> \<not> is_ascii_ws c"
    if "list_all solid_word ws" for ws
    using that by (induction ws rule: induct_list012) (auto simp: solid_word_def list_all_iff)
  ultimately show ?thesis using out new e by simp
qed

lemma strip_cr_no_CR: "CR \<notin> set l \<Longrightarrow> strip_cr l = l"
  by (auto simp: strip_cr_def strip_suffix_iff split: option.splits)

lemma str_lines_clean: "CR \<notin> set s \<Longrightarrow> l \<in> set (str_lines s) \<Longrightarrow> NL \<notin> set l \<and> CR \<notin> set l"
proof (induction s rule: str_lines.induct)
  case (1 s)
  show ?case
  proof (cases "dropWhile (\<lambda>c. c \<noteq> NL) s")
    case Nil
    then have "NL \<notin> set s" by (auto simp: dropWhile_eq_Nil_conv)
    moreover have "str_lines s = (if s = [] then [] else [s])" by (subst str_lines.simps, subst Nil) simp
    ultimately show ?thesis using 1(2,3) by (cases "s = []") simp_all
  next
    case (Cons x rest)
    let ?l = "takeWhile (\<lambda>c. c \<noteq> NL) s"
    have s: "s = ?l @ x # rest" using takeWhile_dropWhile_id [of "\<lambda>c. c \<noteq> NL" s] Cons by simp
    have cr: "CR \<notin> set ?l" "CR \<notin> set rest" using 1(2) s by (metis in_set_conv_decomp_first append_is_Nil_conv UnCI set_append list.set_intros(2))+
    have "str_lines s = strip_cr ?l # str_lines rest"
      using Cons by (subst str_lines.simps) auto
    with 1(3) have "l = ?l \<or> l \<in> set (str_lines rest)" using cr(1) by (simp add: strip_cr_no_CR)
    moreover have "NL \<notin> set ?l" using set_takeWhileD by fastforce
    moreover have "s \<noteq> []" using Cons by auto
    ultimately show ?thesis using cr 1(1) [OF _ Cons cr(2)] by auto
  qed
qed

definition fstab_lines :: "string \<Rightarrow> string list" where
  "fstab_lines l = (if mounts_root_rw l then [''# '' @ BOOTC_EDITED_STAMP, edited_line l] else [l])"

lemma fstab_lines_eq:
  "fstab_lines l = (if edit_fstab_line l = None then [l] else [''# '' @ BOOTC_EDITED_STAMP, edited_line l])"
  using edit_fstab_line_iff [of l] by (auto simp: fstab_lines_def)

lemma stamp_line: "NL \<notin> set (''# '' @ BOOTC_EDITED_STAMP)" "CR \<notin> set (''# '' @ BOOTC_EDITED_STAMP)"
  "edit_fstab_line (''# '' @ BOOTC_EDITED_STAMP) = None"
  by (simp_all add: BOOTC_EDITED_STAMP_def edit_fstab_line_def starts_with_def)

lemma fstab_lines_clean:
  assumes "NL \<notin> set l" "CR \<notin> set l" "x \<in> set (fstab_lines l)"
  shows "NL \<notin> set x \<and> CR \<notin> set x \<and> edit_fstab_line x = None"
proof (cases "edit_fstab_line l")
  case None
  with assms show ?thesis by (simp add: fstab_lines_eq)
next
  case (Some out)
  have ws: "is_ascii_ws NL" "is_ascii_ws CR" "NL \<noteq> CHR '' ''" "CR \<noteq> CHR '' ''" by (simp_all add: is_ascii_ws_def)
  from Some assms(3) have "x = ''# '' @ BOOTC_EDITED_STAMP \<or> x = edited_line l"
    by (auto simp: fstab_lines_eq)
  then show ?thesis using edit_fstab_line_Some [OF Some] stamp_line ws by metis
qed

lemma concat_concat_map: "concat (map (\<lambda>x. concat (f x)) xs) = concat (concat (map f xs))"
  by (induction xs) simp_all

lemma fixup_lines:
  "fixup_etc_fstab content = concat (map (\<lambda>l. l @ [NL]) (concat (map fstab_lines (str_lines content))))"
proof -
  have "(case edit_fstab_line l of Some out \<Rightarrow> out | None \<Rightarrow> l @ [NL]) = concat (map (\<lambda>l. l @ [NL]) (fstab_lines l))" for l
  proof (cases "edit_fstab_line l")
    case (Some out)
    then show ?thesis using edit_fstab_line_Some [OF Some] by (simp add: fstab_lines_eq)
  qed (simp add: fstab_lines_eq)
  then show ?thesis by (simp add: fixup_etc_fstab_def map_concat comp_def) (simp add: concat_concat_map)
qed

lemma str_lines_unlines:
  "\<forall>l \<in> set ls. NL \<notin> set l \<and> CR \<notin> set l \<Longrightarrow> str_lines (concat (map (\<lambda>l. l @ [NL]) ls)) = ls"
  by (induction ls) (simp_all add: strip_cr_no_CR)

text \<open>
  C39. The edit replaces each line that mounts the root without \<^verbatim>\<open>ro\<close> (not a comment, at least four fields, the
  second one \<^verbatim>\<open>/\<close>, no \<^verbatim>\<open>ro\<close> among the options in the fourth) by a stamp and the line with the option
  added, its fields separated by one blank, and keeps every other line in its place; in the result no line mounts the root without
  \<^verbatim>\<open>ro\<close>, and editing again changes nothing. Carriage returns are excluded, because reading lines drops them at the end of a line.
\<close>

theorem fstab_edit_exact:
  assumes "CR \<notin> set content"
  shows "str_lines (fixup_etc_fstab content) = concat (map fstab_lines (str_lines content))
    \<and> list_all (\<lambda>l. \<not> mounts_root_rw l) (str_lines (fixup_etc_fstab content))
    \<and> fixup_etc_fstab (fixup_etc_fstab content) = fixup_etc_fstab content"
proof -
  let ?ls = "concat (map fstab_lines (str_lines content))"
  have clean: "\<forall>x \<in> set ?ls. NL \<notin> set x \<and> CR \<notin> set x \<and> edit_fstab_line x = None"
  proof
    fix x assume "x \<in> set ?ls"
    then obtain l where l: "l \<in> set (str_lines content)" "x \<in> set (fstab_lines l)" by auto
    from str_lines_clean [OF assms l(1)] fstab_lines_clean [OF _ _ l(2)]
    show "NL \<notin> set x \<and> CR \<notin> set x \<and> edit_fstab_line x = None" by blast
  qed
  have lines: "str_lines (fixup_etc_fstab content) = ?ls"
    unfolding fixup_lines by (rule str_lines_unlines) (use clean in blast)
  have "concat (map fstab_lines ?ls) = ?ls"
  proof -
    have "map fstab_lines ?ls = map (\<lambda>x. [x]) ?ls"
    proof (rule map_cong [OF refl])
      fix x assume "x \<in> set ?ls"
      with clean have "edit_fstab_line x = None" by blast
      then show "fstab_lines x = [x]" by (simp add: fstab_lines_eq)
    qed
    then have "concat (map fstab_lines ?ls) = concat (map (\<lambda>x. [x]) ?ls)" by (rule arg_cong)
    also have "concat (map (\<lambda>x. [x]) xs) = xs" for xs :: "string list" by (induction xs) simp_all
    finally show ?thesis .
  qed
  then have "fixup_etc_fstab (fixup_etc_fstab content) = fixup_etc_fstab content"
    unfolding fixup_lines [of "fixup_etc_fstab content"] lines by (simp only: fixup_lines [symmetric])
  with lines clean show ?thesis by (simp add: list_all_iff edit_fstab_line_iff [symmetric])
qed

theorem fstab_edit_exact_witness:
  "str_lines (fixup_etc_fstab (''/dev/a /boot xfs ro 0 0'' @ [NL] @ ''/dev/b   / xfs rw,x 0 0'')) =
     [''/dev/a /boot xfs ro 0 0'', ''# '' @ BOOTC_EDITED_STAMP, ''/dev/b / xfs rw,x,ro 0 0'']"
proof -
  let ?c = "''/dev/a /boot xfs ro 0 0'' @ [NL] @ ''/dev/b   / xfs rw,x 0 0''"
  have "CR \<notin> set ?c" by simp
  from fstab_edit_exact [OF this]
  have "str_lines (fixup_etc_fstab ?c) = concat (map fstab_lines (str_lines ?c))" by (rule conjunct1)
  also have "\<dots> = [''/dev/a /boot xfs ro 0 0'', ''# '' @ BOOTC_EDITED_STAMP, ''/dev/b / xfs rw,x,ro 0 0'']" by code_simp
  finally show ?thesis .
qed

section \<open>Rolling back is a toggle\<close>

definition index_of :: "'a \<Rightarrow> 'a list \<Rightarrow> int" where
  "index_of x xs = int (length (takeWhile (\<lambda>y. y \<noteq> x) xs))"

text \<open>
  What is relied on of libostree: deployments are compared by identity; writing the list of deployments
  replaces it and numbers them by their place in it, and changes nothing else that is read of them; writing a
  file or a time stamp leaves the deployments alone.
\<close>

locale sysroot_writes =
  fixes S :: "('s, 'd, 'o, 't, 'c, 'p) sysroot_ops"
  assumes same: "d_equal (sy_view S s) x y \<longleftrightarrow> x = y"
    and written: "sy_write_deployments S ds s = (Inr (), t) \<Longrightarrow>
      sy_deployments S t = ds \<and> sy_booted S t = sy_booted S s \<and> sy_view S t = (sy_view S s)\<lparr>d_index := (\<lambda>d. index_of d ds)\<rparr>"
    and run_same: "sy_write_run S f c s = (r, t) \<Longrightarrow>
      sy_deployments S t = sy_deployments S s \<and> sy_booted S t = sy_booted S s \<and> sy_view S t = sy_view S s"
    and mtime_same: "sy_update_mtime S s = (r, t) \<Longrightarrow>
      sy_deployments S t = sy_deployments S s \<and> sy_booted S t = sy_booted S s \<and> sy_view S t = sy_view S s"

text \<open>At most one deployment is staged, and the booted one is there and not staged.\<close>

definition proper_deployments :: "('d, 'o, 't) ostree_view \<Rightarrow> 'd list \<Rightarrow> 'd \<Rightarrow> bool" where
  "proper_deployments V ds b \<longleftrightarrow> distinct ds \<and> b \<in> set ds \<and> \<not> d_is_staged V b
     \<and> (\<forall>x \<in> set ds. \<forall>y \<in> set ds. d_is_staged V x \<longrightarrow> d_is_staged V y \<longrightarrow> x = y)"

lemma boot_entry_index: "boot_entry_from_deployment P (V\<lparr>d_index := f\<rparr>) d = boot_entry_from_deployment P V d"
  unfolding boot_entry_from_deployment_def get_image_origin_def by (cases V) (simp only: ostree_view.simps)

lemma take_first_None: "\<forall>x \<in> set xs. \<not> p x \<Longrightarrow> take_first p xs = (None, xs)"
  by (induction xs) auto

lemma take_first_rest:
  assumes "take_first p xs = (r, ys)" "distinct xs" "\<And>x y. x \<in> set xs \<Longrightarrow> y \<in> set xs \<Longrightarrow> p x \<Longrightarrow> p y \<Longrightarrow> x = y"
  shows "set ys \<subseteq> set xs" "distinct ys" "\<forall>y \<in> set ys. \<not> p y"
proof -
  have "set ys \<subseteq> set xs \<and> distinct ys \<and> (\<forall>y \<in> set ys. \<not> p y)"
    using assms
  proof (induction xs arbitrary: ys)
    case (Cons x xs)
    show ?case
    proof (cases "p x")
      case True
      with Cons.prems(1) have "ys = xs" by simp
      with True Cons.prems(2,3) show ?thesis by auto
    next
      case False
      with Cons.prems(1) obtain zs where z: "take_first p xs = (r, zs)" "ys = x # zs" by (auto split: prod.splits)
      have "set zs \<subseteq> set xs \<and> distinct zs \<and> (\<forall>y \<in> set zs. \<not> p y)"
        using Cons.prems(2,3) by (intro Cons.IH [OF z(1)]) auto
      with z(2) False Cons.prems(2) show ?thesis by auto
    qed
  qed simp
  then show "set ys \<subseteq> set xs" "distinct ys" "\<forall>y \<in> set ys. \<not> p y" by auto
qed

text \<open>The parts of a classification.\<close>

lemma classify_parts:
  assumes "\<And>x y. d_equal V x y \<longleftrightarrow> x = y" and "proper_deployments V ds b"
    and "classify_deployments V ds b = (deps, queued)" and "dp_rollback deps = Some r"
  obtains rel where "dp_other deps = rel @ filter (\<lambda>d. d_osname V d \<noteq> d_osname V b) ds"
    "\<forall>d \<in> set (r # rel). d_osname V d = d_osname V b \<and> \<not> d_is_staged V d \<and> d \<noteq> b \<and> d \<in> set ds" "distinct (r # rel)"
    "queued \<longleftrightarrow> d_index V r < d_index V b"
proof -
  let ?rel = "filter (\<lambda>d. d_osname V d = d_osname V b) ds"
  obtain stg r1 where t: "take_first (d_is_staged V) ?rel = (stg, r1)" by fastforce
  obtain rb r3 where p: "pop_front (filter (\<lambda>d. \<not> d_equal V d b) r1) = (rb, r3)" by fastforce
  have d: "deps = \<lparr>dp_staged = stg, dp_rollback = rb, dp_other = r3 @ filter (\<lambda>d. d_osname V d \<noteq> d_osname V b) ds\<rparr>"
    "queued = (case rb of Some r \<Rightarrow> d_index V r < d_index V b | None \<Rightarrow> False)"
    using assms(3) t p by (simp_all add: classify_deployments_def Let_def)
  have rb: "rb = Some r" using assms(4) d(1) by simp
  have fr: "filter (\<lambda>d. d \<noteq> b) r1 = r # r3" using pop_front_mset [OF p] rb by (simp add: assms(1))
  note rest = take_first_rest [OF t]
  have uniq: "x = y" if "x \<in> set ?rel" "y \<in> set ?rel" "d_is_staged V x" "d_is_staged V y" for x y
    using assms(2) that unfolding proper_deployments_def by simp
  have dist: "distinct ?rel" using assms(2) by (simp add: proper_deployments_def)
  have r1: "set r1 \<subseteq> set ?rel" "distinct r1" "\<forall>y \<in> set r1. \<not> d_is_staged V y"
    by (rule rest(1) [OF dist uniq], assumption+) (rule rest(2) [OF dist uniq], assumption+, rule rest(3) [OF dist uniq], assumption+)
  have "\<forall>d \<in> set (r # r3). d_osname V d = d_osname V b \<and> \<not> d_is_staged V d \<and> d \<noteq> b \<and> d \<in> set ds"
    unfolding fr [symmetric] using r1(1,3) by auto
  moreover have "distinct (r # r3)" unfolding fr [symmetric] using r1(2) by simp
  ultimately show ?thesis using that [of r3] d rb by simp
qed

text \<open>The written list is classified with the same rollback and other deployments, in the order written.\<close>

lemma reclassify:
  fixes V :: "('d, 'o, 't) ostree_view" and revert :: bool
  assumes eq: "\<And>x y. d_equal V x y \<longleftrightarrow> x = y" and b: "proper_deployments V ds b"
    and r: "\<forall>d \<in> set (r # rels). d_osname V d = d_osname V b \<and> \<not> d_is_staged V d \<and> d \<noteq> b \<and> d \<in> set ds" "distinct (r # rels)"
    and other: "other = rels @ filter (\<lambda>d. d_osname V d \<noteq> d_osname V b) ds"
  defines "ds' \<equiv> (if revert then [b, r] else [r, b]) @ other"
  shows "classify_deployments (V\<lparr>d_index := (\<lambda>d. index_of d ds')\<rparr>) ds' b =
      (\<lparr>dp_staged = None, dp_rollback = Some r, dp_other = other\<rparr>, \<not> revert)
    \<and> proper_deployments V ds' b"
proof -
  let ?V = "V\<lparr>d_index := (\<lambda>d. index_of d ds')\<rparr>" and ?o = "filter (\<lambda>d. d_osname V d \<noteq> d_osname V b) ds"
  have rels: "filter (\<lambda>d. d_osname V d = d_osname V b) rels = rels" using r(1) by (simp add: filter_id_conv)
  have rels': "filter (\<lambda>d. d_osname V d \<noteq> d_osname V b) rels = []" using r(1) by (simp add: filter_empty_conv)
  have related: "filter (\<lambda>d. d_osname V d = d_osname V b) ds' = (if revert then [b, r] else [r, b]) @ rels"
    using r(1) rels by (simp add: ds'_def other filter_empty_conv)
  have others: "filter (\<lambda>d. d_osname V d \<noteq> d_osname V b) ds' = ?o"
    using r(1) rels' by (simp add: ds'_def other)
  have none: "take_first (d_is_staged V) ((if revert then [b, r] else [r, b]) @ rels) = (None, (if revert then [b, r] else [r, b]) @ rels)"
    using r(1) b by (intro take_first_None) (auto simp: proper_deployments_def)
  have nb: "filter (\<lambda>d. d \<noteq> b) ((if revert then [b, r] else [r, b]) @ rels) = r # rels"
    using r(1) by (auto simp: filter_id_conv)
  have rb: "r \<noteq> b" using r(1) by simp
  have idx: "index_of r ds' < index_of b ds' \<longleftrightarrow> \<not> revert"
    using rb by (cases revert) (simp_all add: ds'_def index_of_def)
  have f: "d_osname ?V = d_osname V" "d_is_staged ?V = d_is_staged V" "d_equal ?V = d_equal V" "d_index ?V = (\<lambda>d. index_of d ds')"
    by simp_all
  have "classify_deployments ?V ds' b = (\<lparr>dp_staged = None, dp_rollback = Some r, dp_other = other\<rparr>, \<not> revert)"
    unfolding classify_deployments_def f related others none Let_def eq prod.case nb pop_front.simps option.case
    by (simp only: idx other)
  moreover have "proper_deployments V ds' b"
  proof -
    have "set ds' \<subseteq> set ds" using b r(1) by (auto simp: ds'_def other proper_deployments_def)
    moreover have "distinct ds'" using b r by (auto simp: ds'_def other proper_deployments_def)
    moreover have "b \<in> set ds'" by (simp add: ds'_def)
    ultimately show ?thesis using b unfolding proper_deployments_def by blast
  qed
  ultimately show ?thesis by blast
qed

lemma get_status_parts:
  assumes "get_status P V ds b = Inr (deps, h)"
  obtains queued stg bt rb others where "classify_deployments V ds b = (deps, queued)"
    "opt_transpose (boot_entry_from_deployment P V) (dp_staged deps) = Inr stg" "boot_entry_from_deployment P V b = Inr bt"
    "opt_transpose (boot_entry_from_deployment P V) (dp_rollback deps) = Inr rb"
    "collect_res (map (boot_entry_from_deployment P V) (dp_other deps)) = Inr others"
    "rollback_queued (host_status_of h) = queued" "rollback (host_status_of h) = rb"
    "booted (host_status_of h) = Some bt"
    "host_spec_of h = (case be_image (case stg of Some s \<Rightarrow> s | None \<Rightarrow> bt) of
        Some img \<Rightarrow> \<lparr>hs_image = Some (st_image img), hs_boot_order = (if queued then OrderRollback else OrderDefault)\<rparr>
      | None \<Rightarrow> host_spec_default)"
proof -
  obtain d q where c: "classify_deployments V ds b = (d, q)" by fastforce
  from assms show ?thesis
    unfolding get_status_def c by (auto simp: rbind_Inr_iff Let_def host_new_def intro!: that [of q, unfolded c])
qed

lemma proper_index: "proper_deployments (V\<lparr>d_index := f\<rparr>) ds b = proper_deployments V ds b"
  by (simp add: proper_deployments_def)

lemma sres_Inr: "slift (lift_res x) s = (Inr v, t) \<longleftrightarrow> x = Inr v \<and> t = s"
  by (auto simp: slift_def lift_res_Inr_iff)

lemma query_same: "boot_entry_query_image S e s = (r, t) \<Longrightarrow> t = s"
  by (auto simp: boot_entry_query_image_def split: if_splits option.splits)

text \<open>What a successful rollback has written.\<close>

lemma rollback_written:
  assumes "sysroot_writes S" and "sy_booted S s = Some b" and "get_status P (sy_view S s) (sy_deployments S s) b = Inr (deps, h)"
    and "deploy_rollback P S s = (Inr (), t)"
  obtains r where "dp_rollback deps = Some r"
    "sy_deployments S t = (if hs_boot_order (host_spec_of h) = OrderRollback then [b, r] else [r, b]) @ dp_other deps"
    "sy_booted S t = Some b" "sy_view S t = (sy_view S s)\<lparr>d_index := (\<lambda>d. index_of d (sy_deployments S t))\<rparr>"
proof -
  let ?rev = "hs_boot_order ((host_spec_of h)\<lparr>hs_boot_order := boot_order_swap (hs_boot_order (host_spec_of h))\<rparr>) = OrderDefault"
  have rev: "?rev \<longleftrightarrow> hs_boot_order (host_spec_of h) = OrderRollback" by (cases "hs_boot_order (host_spec_of h)") simp_all
  have st: "get_status_require_booted P S s = (Inr (b, deps, h), s)"
    using assms(2,3) by (simp add: get_status_require_booted_def)
  obtain r where r: "dp_rollback deps = Some r"
  proof (cases "dp_rollback deps")
    case None
    with assms(4) show ?thesis unfolding deploy_rollback_def by (auto simp: st sbind_Inr_iff Let_def sfail_def)
  qed
  have "\<exists>u v d. sy_write_deployments S ((if ?rev then [b, r] else [r, b]) @ dp_other deps) s = (Inr (), u)
      \<and> write_reboot_required S d u = (Inr (), v) \<and> sy_update_mtime S v = (Inr (), t)"
    using assms(4) unfolding deploy_rollback_def
    by (clarsimp simp: st sbind_Inr_iff sres_Inr Let_def r simp del: append.simps split del: if_split dest!: query_same) blast
  then obtain u v d
    where w: "sy_write_deployments S ((if ?rev then [b, r] else [r, b]) @ dp_other deps) s = (Inr (), u)"
      and x: "write_reboot_required S d u = (Inr (), v)" and y: "sy_update_mtime S v = (Inr (), t)"
    by blast
  note w = sysroot_writes.written [OF assms(1) w]
  note x = sysroot_writes.run_same [OF assms(1) x [unfolded write_reboot_required_def]]
  note y = sysroot_writes.mtime_same [OF assms(1) y]
  show ?thesis
    by (rule that [OF r]) (use w x y assms(2) rev in simp_all)
qed

lemma rollback_step:
  assumes "sysroot_writes S" and "sy_booted S s = Some b"
    and "proper_deployments (sy_view S s) (sy_deployments S s) b"
    and "get_status P (sy_view S s) (sy_deployments S s) b = Inr (deps, h)"
    and "hs_image (host_spec_of h) \<noteq> None" and "deploy_rollback P S s = (Inr (), t)"
  obtains r h' where "dp_rollback deps = Some r"
    "sy_deployments S t = (if rollback_queued (host_status_of h) then [b, r] else [r, b]) @ dp_other deps"
    "sy_booted S t = Some b" "proper_deployments (sy_view S t) (sy_deployments S t) b"
    "get_status P (sy_view S t) (sy_deployments S t) b =
       Inr (\<lparr>dp_staged = None, dp_rollback = Some r, dp_other = dp_other deps\<rparr>, h')"
    "rollback_queued (host_status_of h') \<longleftrightarrow> \<not> rollback_queued (host_status_of h)"
    "booted (host_status_of h') = booted (host_status_of h)"
    "hs_image (host_spec_of h') = (case booted (host_status_of h) of Some e \<Rightarrow> map_option st_image (be_image e) | None \<Rightarrow> None)"
proof -
  let ?V = "sy_view S s" and ?V' = "sy_view S t" and ?e = "boot_entry_from_deployment P (sy_view S s)"
  obtain queued stg bt rb others where c: "classify_deployments ?V (sy_deployments S s) b = (deps, queued)"
    and e: "?e b = Inr bt" "opt_transpose ?e (dp_rollback deps) = Inr rb" "collect_res (map ?e (dp_other deps)) = Inr others"
    and h: "rollback_queued (host_status_of h) = queued" "booted (host_status_of h) = Some bt"
    and spec: "host_spec_of h = (case be_image (case stg of Some s \<Rightarrow> s | None \<Rightarrow> bt) of
        Some img \<Rightarrow> \<lparr>hs_image = Some (st_image img), hs_boot_order = (if queued then OrderRollback else OrderDefault)\<rparr>
      | None \<Rightarrow> host_spec_default)"
    by (rule get_status_parts [OF assms(4)])
  have order: "hs_boot_order (host_spec_of h) = OrderRollback \<longleftrightarrow> queued"
    using assms(5) by (cases queued) (auto simp: spec host_spec_default_def split: option.splits)
  obtain r where r: "dp_rollback deps = Some r"
    and t: "sy_deployments S t = (if queued then [b, r] else [r, b]) @ dp_other deps" "sy_booted S t = Some b"
      "?V' = ?V\<lparr>d_index := (\<lambda>d. index_of d (sy_deployments S t))\<rparr>"
    using rollback_written [OF assms(1,2,4,6)] unfolding order by metis
  obtain rels where rel: "dp_other deps = rels @ filter (\<lambda>d. d_osname ?V d \<noteq> d_osname ?V b) (sy_deployments S s)"
    "\<forall>d \<in> set (r # rels). d_osname ?V d = d_osname ?V b \<and> \<not> d_is_staged ?V d \<and> d \<noteq> b \<and> d \<in> set (sy_deployments S s)"
    "distinct (r # rels)"
    by (rule classify_parts [OF sysroot_writes.same [OF assms(1)] assms(3) c r])
  note re = reclassify [OF sysroot_writes.same [OF assms(1)] assms(3) rel(2,3,1), of queued, folded t(1), folded t(3)]
  have e': "boot_entry_from_deployment P ?V' = ?e" unfolding t(3) by (rule ext) (rule boot_entry_index)
  let ?order = "if \<not> queued then OrderRollback else OrderDefault"
  define h' where "h' = (host_new (case be_image bt of
        Some img \<Rightarrow> \<lparr>hs_image = Some (st_image img), hs_boot_order = ?order\<rparr> | None \<Rightarrow> host_spec_default))\<lparr>host_status_of :=
      \<lparr>staged = None, booted = Some bt, rollback = rb, other_deployments = others, rollback_queued = (\<not> queued),
       host_ty = (if be_image bt \<noteq> None then Some BootcHost else None),
       usr_overlay = deployment_unlocked_state_to_usr_overlay (d_unlocked ?V' b), read_only = False\<rparr>\<rparr>"
  have "get_status P ?V' (sy_deployments S t) b =
      Inr (\<lparr>dp_staged = None, dp_rollback = Some r, dp_other = dp_other deps\<rparr>, h')"
    unfolding get_status_def re [THEN conjunct1] e' h'_def
    using e r by (simp add: opt_transpose_def Let_def)
  moreover have "proper_deployments ?V' (sy_deployments S t) b"
    using re [THEN conjunct2] unfolding t(3) proper_index by simp
  moreover have "hs_image (host_spec_of h') = map_option st_image (be_image bt)"
    by (cases "be_image bt") (simp_all add: h'_def host_new_def host_spec_default_def)
  ultimately show ?thesis
    using that [OF r] t(1,2) h by (simp add: h'_def)
qed


section \<open>Staging pulls bound images first\<close>

text \<open>
  What is relied on: the queries and pulls of \<^verbatim>\<open>podman\<close> and the set up of its store leave the deployments
  alone; the operations on deployments leave the image store alone; the bound images of a commit are
  those of a deployment of it; a staged deployment is listed, and pruning the repository keeps it.
\<close>

locale staging = podman_store M images names
  for M :: "('s, 't) podman_ops" and images :: "'s \<Rightarrow> store_image list" and names :: "string set" +
  fixes S :: "('s, 'd, 'o, 't, 'c, 'p) sysroot_ops" and ensure_imgstore :: "('s, unit) oper"
    and bound :: "string \<Rightarrow> bound_entry list option"
  assumes exists_deployments: "sy_deployments S (snd (pm_exists M i s)) = sy_deployments S s"
    and pull_deployments: "sy_deployments S (snd (pm_pull M i s)) = sy_deployments S s"
    and ensure_deployments: "sy_deployments S (snd (ensure_imgstore s)) = sy_deployments S s"
    and checkout_deployments: "sy_deployments S (snd (sy_checkout_bound S c s)) = sy_deployments S s"
    and checkout_dir: "fst (sy_checkout_bound S c s) = Inr dir \<Longrightarrow> dir = bound c"
    and ensure_images: "stored_as (images s) n \<Longrightarrow> stored_as (images (snd (ensure_imgstore s))) n"
    and stage_images: "images (snd (sy_stage_tree S sr c og md ks lk s)) = images s"
    and prune_images: "images (snd (sy_prune_repo S s)) = images s"
    and run_images: "images (snd (sy_write_run S f txt s)) = images s"
    and staged_listed: "sy_stage_tree S sr c og md ks lk s = (Inr k, t) \<Longrightarrow> sy_staged S t = Some d \<Longrightarrow>
      d \<in> set (sy_deployments S t) \<and> sy_bound_dir S t d = Inr (bound c)"
    and prune_repo_same: "sy_deployments S (snd (sy_prune_repo S s)) = sy_deployments S s
      \<and> sy_bound_dir S (snd (sy_prune_repo S s)) = sy_bound_dir S s \<and> sy_staged S (snd (sy_prune_repo S s)) = sy_staged S s"
begin

definition same_deployments :: "'s \<Rightarrow> 's \<Rightarrow> bool" where
  "same_deployments s t \<longleftrightarrow> sy_deployments S t = sy_deployments S s"

lemma same_order: "state_order same_deployments"
  by unfold_locales (auto simp: same_deployments_def)

lemma pull_bound_same: "keeps same_deployments (pull_bound_images_for_commit S M ensure_imgstore I c)"
proof -
  have "keeps same_deployments (pull_images_impl M bs)" for bs
    by (rule keeps_pull_images [OF same_order])
      (simp_all add: keeps_def same_deployments_def exists_deployments pull_deployments)
  moreover have "keeps same_deployments ensure_imgstore" "keeps same_deployments (sy_checkout_bound S c)"
    by (simp_all add: keeps_def same_deployments_def ensure_deployments checkout_deployments)
  ultimately show ?thesis
    unfolding pull_bound_images_for_commit_def pull_images_def
    by (intro state_order.keeps_bind [OF same_order])
      (simp_all add: state_order.keeps_pure [OF same_order])
qed

text \<open>All images that the bound image files of a commit declare are stored.\<close>

definition bound_stored :: "'i ini_ops \<Rightarrow> string \<Rightarrow> 's \<Rightarrow> bool" where
  "bound_stored I c t \<longleftrightarrow>
     (\<forall>e img. e \<in> set (case bound c of None \<Rightarrow> [] | Some es \<Rightarrow> es) \<longrightarrow> declares I e img \<longrightarrow> stored_as (images t) img)"

lemma bound_stored_images: "images t = images s \<Longrightarrow> bound_stored I c t = bound_stored I c s"
  by (simp add: bound_stored_def)

lemma bound_stored_ensure: "bound_stored I c s \<Longrightarrow> bound_stored I c (snd (ensure_imgstore s))"
  unfolding bound_stored_def using ensure_images by blast

lemma pull_bound_stored:
  assumes "pull_bound_images_for_commit S M ensure_imgstore I c s = (Inr (), t)"
    and "\<And>bs. query_bound_images I (bound c) = Inr bs \<Longrightarrow> bi_image ` set bs \<subseteq> names"
  shows "bound_stored I c t"
proof -
  obtain dir u bs v where "sy_checkout_bound S c s = (Inr dir, u)" and q: "query_bound_images I dir = Inr bs"
    and p: "pull_images M ensure_imgstore bs v = (Inr (), t)"
    using assms(1) by (auto simp: pull_bound_images_for_commit_def sbind_Inr_iff sres_Inr)
  then have "dir = bound c" using checkout_dir [of c s dir] by simp
  then show ?thesis
    using pulled_declared [OF q _ p] assms(2) q unfolding bound_stored_def by blast
qed

text \<open>The steps after the pull keep them: the new deployment is among those whose images are kept.\<close>

lemma deploy_images: "images (snd (deploy S from img og lk s)) = images s"
proof -
  have "snd (merge_kargs S from c s) = s" for c s by (simp add: merge_kargs_def split: merge_state.splits)
  moreover have "snd (deployment_at S from s) = s" for s
    by (simp add: deployment_at_def Let_def split: merge_state.splits)
  moreover have "snd ((\<lambda>r s. case sy_staged S s of
       None \<Rightarrow> (Inl (Panic ''called Option::unwrap() on a None value''), s)
     | Some d \<Rightarrow> if d_index (sy_view S s) d \<noteq> r then (Inl (Panic ''assertion failed''), s) else (Inr d, s)) r s) = s" for r s
    by (simp split: option.splits)
  ultimately show ?thesis
    unfolding deploy_def by (simp add: sbind_snd stage_images split: sum.splits prod.splits)
qed

lemma deploy_staged:
  assumes "deploy S from img og lk s = (Inr d, t)"
  shows "sy_staged S t = Some d \<and> d \<in> set (sy_deployments S t) \<and> sy_bound_dir S t d = Inr (bound (is_ostree_commit img))"
proof -
  obtain sr ks md k u v where t: "sy_stage_tree S sr (is_ostree_commit img) og md ks lk u = (Inr k, v)"
    and r: "(case sy_staged S v of
       None \<Rightarrow> (Inl (Panic ''called Option::unwrap() on a None value''), v)
     | Some d \<Rightarrow> if d_index (sy_view S v) d \<noteq> k then (Inl (Panic ''assertion failed''), v) else (Inr d, v)) = (Inr d, t)"
    using assms unfolding deploy_def sbind_Inr_iff by (auto simp: sbind_Inr_iff split: prod.splits)
  have "v = t \<and> sy_staged S v = Some d"
    using r by (cases "sy_staged S v") (auto split: if_splits)
  with staged_listed [OF t] show ?thesis by auto
qed

lemma cleanup_stored:
  assumes "bound_stored I c s" "d \<in> set (sy_deployments S s)" "sy_bound_dir S s d = Inr (bound c)"
    and "\<And>bs. query_bound_images I (bound c) = Inr bs \<Longrightarrow> bi_image ` set bs \<subseteq> names"
  shows "bound_stored I c (snd (cleanup P S M ensure_imgstore I s))"
proof -
  obtain r1 u where u: "sy_prune_repo S s = (r1, u)" by fastforce
  have su: "bound_stored I c u" "d \<in> set (sy_deployments S u)" "sy_bound_dir S u d = Inr (bound c)"
    using assms(1-3) prune_images [of s] prune_repo_same [of s] u bound_stored_images by auto
  show ?thesis
  proof (cases r1)
    case (Inl e)
    with u su(1) show ?thesis by (simp add: cleanup_def sbind_def)
  next
    case (Inr x)
    then have run: "cleanup P S M ensure_imgstore I s = prune_container_store P S M ensure_imgstore I u"
      using u by (simp add: cleanup_def sbind_def)
    obtain r2 v where v: "ensure_imgstore u = (r2, v)" by fastforce
    have sv: "bound_stored I c v" using bound_stored_ensure [OF su(1)] v by simp
    show ?thesis
    proof (cases "collect_res (map (deployment_roots P S I u) (sy_deployments S u))")
      case (Inl e)
      then show ?thesis using su(1) unfolding run by (simp add: prune_container_store_def sbind_def)
    next
      case roots: (Inr roots)
      have "map (deployment_roots P S I u) (sy_deployments S u) = map Inr roots"
        using roots by (simp add: collect_res_Inr_iff)
      then obtain rs where rs: "rs \<in> set roots" "deployment_roots P S I u d = Inr rs"
        using su(2) by (metis (no_types, opaque_lifting) imageE imageI list.set_map)
      then obtain bs where bs: "query_bound_images I (bound c) = Inr bs" "bi_image ` set bs \<subseteq> set rs"
        using su(3) by (auto simp: deployment_roots_def rbind_Inr_iff lift_res_Inr_iff)
      have keep: "bound_stored I c (snd (cstorage_prune_except_roots M (concat roots) v))"
        unfolding bound_stored_def
      proof (intro allI impI)
        fix e img
        assume e: "e \<in> set (case bound c of None \<Rightarrow> [] | Some es \<Rightarrow> es)" "declares I e img"
        have "img \<in> bi_image ` set bs" by (rule declared_queried [OF bs(1) e])
        then have "img \<in> set (concat roots)" using bs(2) rs(1) by auto
        with sv e show "stored_as (images (snd (cstorage_prune_except_roots M (concat roots) v))) img"
          unfolding bound_stored_def by (blast intro: prune_keeps_listed)
      qed
      show ?thesis
        using keep sv unfolding run prune_container_store_def
        by (cases r2) (simp_all add: sbind_snd roots v sret_def split: sum.splits)
    qed
  qed
qed

lemma stage_safe:
  assumes "stage P S M ensure_imgstore I from img spec lk s = (r, t)"
    and "\<And>bs. query_bound_images I (bound (is_ostree_commit img)) = Inr bs \<Longrightarrow> bi_image ` set bs \<subseteq> names"
  shows "(sy_deployments S t = sy_deployments S s \<or> bound_stored I (is_ostree_commit img) t)
    \<and> (r = Inr () \<longrightarrow> bound_stored I (is_ostree_commit img) t)"
proof -
  let ?c = "is_ostree_commit img"
  obtain r1 u where u: "pull_bound_images_for_commit S M ensure_imgstore I ?c s = (r1, u)" by fastforce
  show ?thesis
  proof (cases r1)
    case (Inl e)
    then have "r = Inl e" "t = u" using assms(1) u by (simp_all add: stage_def sbind_def)
    moreover have "sy_deployments S u = sy_deployments S s"
      using pull_bound_same [of I ?c] u by (simp add: keeps_def same_deployments_def) (metis snd_conv)
    ultimately show ?thesis by simp
  next
    case (Inr x)
    then have st: "bound_stored I ?c u"
      using u by (intro pull_bound_stored [of I ?c s u, OF _ assms(2)]) simp_all
    show ?thesis
    proof (cases "origin_from_imageref P spec")
      case e: (Inl e)
      then have "t = u" using assms(1) u Inr by (simp add: stage_def sbind_def slift_def)
      with st show ?thesis by simp
    next
      case og: (Inr og)
      obtain r2 v where v: "deploy S from img og lk u = (r2, v)" by fastforce
      have sv: "bound_stored I ?c v" using st deploy_images [of "from" img og lk u] v bound_stored_images by (metis snd_conv)
      show ?thesis
      proof (cases r2)
        case e: (Inl e)
        then have "t = v" using assms(1) u Inr og v by (simp add: stage_def sbind_def slift_def)
        with sv show ?thesis by simp
      next
        case d: (Inr d)
        note ds = deploy_staged [OF v [unfolded d]]
        have cl: "bound_stored I ?c (snd (cleanup P S M ensure_imgstore I v))"
          using ds by (intro cleanup_stored [OF sv _ _ assms(2)]) auto
        have "images t = images (snd (cleanup P S M ensure_imgstore I v))"
          using assms(1) u Inr og v d run_images
          by (auto simp: stage_def sbind_def slift_def write_reboot_required_def split: prod.splits sum.splits)
            (metis snd_conv)
        with cl show ?thesis using bound_stored_images by metis
      qed
    qed
  qed
qed

end

text \<open>
  C6. No deployment without its images, when the bound image files of the new commit name images the way
  \<^verbatim>\<open>podman\<close> lists them (fully qualified, with a tag or digest): when staging an image succeeds, and also when it fails after it
  changed the deployments, every image that those files declare is in the
  image store, although old images have been pruned. The other hypotheses are the laws of \<^verbatim>\<open>podman\<close> and libostree.
  An image named without its tag is pulled and then pruned again, since the comparison with the names in the listing is literal.
\<close>

theorem staged_images_stored:
  assumes "staging M images names S ensure_imgstore bound"
    and "\<forall>bs. query_bound_images I (bound (is_ostree_commit img)) = Inr bs \<longrightarrow> bi_image ` set bs \<subseteq> names"
    and "stage P S M ensure_imgstore I from img spec lock_finalization s = (r, t)"
    and "r = Inr () \<or> sy_deployments S t \<noteq> sy_deployments S s"
    and "e \<in> set (case bound (is_ostree_commit img) of None \<Rightarrow> [] | Some es \<Rightarrow> es)" and "declares I e name"
  shows "stored_as (images t) name"
proof -
  have "staging.bound_stored images bound I (is_ostree_commit img) t"
    using staging.stage_safe [OF assms(1,3)] assms(2,4) by blast
  with assms(5,6) show ?thesis unfolding staging.bound_stored_def [OF assms(1)] by blast
qed

section \<open>A small system\<close>

text \<open>Deployments as a number and whether they are staged, and a store of image names.\<close>

type_synonym demo_system = "(nat \<times> bool) list \<times> string list"

definition demo_image_status :: image_status where
  "demo_image_status = \<lparr>st_image = \<lparr>spec_image = ''q/x:1'', spec_transport = ''registry'', spec_signature = None\<rparr>,
     st_version = None, st_timestamp = None, st_image_digest = ''sha256:a'', st_architecture = ''x86_64''\<rparr>"

definition demo_view :: "(nat \<times> bool) list \<Rightarrow> (nat \<times> bool, unit, transport_ref) ostree_view" where
  "demo_view ds = view_ex\<lparr>d_index := (\<lambda>d. index_of d ds), d_origin := (\<lambda>_. Some ()),
     o_container := (\<lambda>_. Inr (Some ''ostree-unverified-registry:q/x:1'')),
     r_image_status := (\<lambda>_ _. Inr (Some demo_image_status, None))\<rparr>"

definition demo_layered :: layered_image_state where
  "demo_layered = \<lparr>li_base_commit = ''c'', li_merge_commit = ''c'', li_manifest_digest = ''sha256:a'',
     li_manifest = demo_manifest ''a'', li_configuration = demo_config, li_cached_update = None\<rparr>"

definition demo_host_ops :: "(demo_system, nat \<times> bool, unit, transport_ref, string list, string) sysroot_ops" where
  "demo_host_ops = \<lparr>sy_deployments = fst, sy_booted = (\<lambda>_. Some (1, False)), sy_staged = (\<lambda>s. find snd (fst s)),
     sy_view = (\<lambda>s. demo_view (fst s)), sy_query_commit = (\<lambda>_ _. Inr demo_layered),
     sy_bound_dir = (\<lambda>_ _. Inr (Some bound_demo_dir)), sy_options = (\<lambda>_ _. None), sy_root_kargs = (\<lambda>_ _. None),
     sy_commit_kargs = (\<lambda>_ _. None), sy_cmdline = cmdline_ref, sy_toml = toml_ref, sy_arch = ''x86_64'',
     sy_checkout_bound = (\<lambda>_. sret (Some bound_demo_dir)),
     sy_write_deployments = (\<lambda>ds s. (Inr (), (ds, snd s))),
     sy_stage_tree = (\<lambda>_ _ _ _ _ _ s. (Inr 0, ((length (fst s), True) # filter (\<lambda>d. \<not> snd d) (fst s), snd s))),
     sy_prune_repo = sret (), sy_write_run = (\<lambda>_ _. sret ()), sy_update_mtime = sret ()\<rparr>"

definition demo_podman :: "(demo_system, transport_ref) podman_ops" where
  "demo_podman = \<lparr>pm_proxy = proxy_ref, pm_container_storage = px_registry proxy_ref,
     pm_exists = (\<lambda>i s. (Inr (i \<in> set (snd s)), s)),
     pm_pull = (\<lambda>i s. (Inr (), (fst s, if i \<in> set (snd s) then snd s else snd s @ [i]))),
     pm_list = (\<lambda>s. (Inr (name_images (snd s)), s)),
     pm_rm = (\<lambda>ids s. (Inr (), (fst s, filter (\<lambda>n. n \<notin> set ids) (snd s))))\<rparr>"

interpretation demo_writes: sysroot_writes demo_host_ops
  by unfold_locales (auto simp: demo_host_ops_def demo_view_def view_ex_def sret_def)

interpretation demo_staging: staging demo_podman "\<lambda>s. name_images (snd s)" UNIV demo_host_ops "sret ()" "\<lambda>_. Some bound_demo_dir"
  by unfold_locales
    (auto simp: demo_podman_def demo_host_ops_def name_images_def stored_as_def names_of_def list_ex_iff sret_def
      split: if_splits)


text \<open>With a booted deployment whose image is not known, a second rollback does not restore the order.\<close>

definition layered_host_ops :: "(demo_system, nat \<times> bool, unit, transport_ref, string list, string) sysroot_ops" where
  "layered_host_ops = demo_host_ops\<lparr>sy_view := (\<lambda>s. (demo_view (fst s))\<lparr>d_origin := (\<lambda>d. if d = (1, False) then None else Some ())\<rparr>)\<rparr>"

lemma rollback_unknown_image:
  "deploy_rollback proxy_ref layered_host_ops ([(1, False), (2, False)], []) = (Inr (), ([(2, False), (1, False)], []))"
  "deploy_rollback proxy_ref layered_host_ops ([(2, False), (1, False)], []) = (Inr (), ([(2, False), (1, False)], []))"
  by code_simp+

theorem staged_images_stored_witness:
  "\<exists>t. stage proxy_ref demo_host_ops demo_podman (sret ()) line_ini (MergeReset ''os'' []) \<lparr>is_manifest_digest = ''d'', is_version = None, is_ostree_commit = ''c''\<rparr>
       \<lparr>spec_image = ''q/x:1'', spec_transport = ''registry'', spec_signature = None\<rparr> False ([(1, False), (2, False)], [''q/old:1''])
       = (Inr (), t)
     \<and> stored_as (name_images (snd t)) ''q/b:%1''"
proof -
  let ?run = "stage proxy_ref demo_host_ops demo_podman (sret ()) line_ini (MergeReset ''os'' []) \<lparr>is_manifest_digest = ''d'', is_version = None, is_ostree_commit = ''c''\<rparr>
       \<lparr>spec_image = ''q/x:1'', spec_transport = ''registry'', spec_signature = None\<rparr> False ([(1, False), (2, False)], [''q/old:1''])"
  have "fst ?run = Inr ()" by code_simp
  then obtain t where t: "?run = (Inr (), t)" by (cases ?run) auto
  have d: "declares line_ini (bound_demo_dir ! 1) ''q/b:%1''" "bound_demo_dir ! 1 \<in> set bound_demo_dir" by code_simp+
  have "stored_as (name_images (snd t)) ''q/b:%1''"
    by (rule staged_images_stored [OF demo_staging.staging_axioms _ t _ _ d(1)]) (use d(2) in simp_all)
  with t show ?thesis by blast
qed

end
