(* ===== verification/Spec2Isabelle.thy ===== *)
theory Spec2Isabelle
  imports Ref_Escape Chunk_Objects Etc_Merge Cfs_Delete Sysusers_Cleanup Tmpfiles_Walk Loader_Entries Image_Store Tar_Filter Install_Disk Lints Deploy
begin

text \<open>
  A verification development for bootc, which installs, updates and boots operating systems that
  are shipped as container images. The sources are the crates under \<^verbatim>\<open>src/crates\<close>.

  \<^bold>\<open>The program.\<close> \<^verbatim>\<open>lib\<close> holds the command line, the installer, and the two storage backends. The
  ostree backend keeps deployments in an ostree repository; \<^verbatim>\<open>ostree-ext\<close> turns an ostree commit
  into container layers and back. The composefs backend keeps images in a composefs repository,
  writes bootloader entries itself, and computes status, rollback, deletion and garbage collection
  from those entries. \<^verbatim>\<open>etc-merge\<close> carries local changes of \<^verbatim>\<open>/etc\<close> into a new deployment,
  \<^verbatim>\<open>sysusers\<close> and \<^verbatim>\<open>tmpfiles\<close> reconcile \<^verbatim>\<open>/etc\<close> and \<^verbatim>\<open>/var\<close> with the declarations of systemd.

  \<^bold>\<open>Conventions.\<close> A Rust \<^verbatim>\<open>str\<close> or path is its byte sequence, a \<^typ>\<open>string\<close>; \<^verbatim>\<open>anyhow::Result\<close> is a
  sum whose left side is the message without interpolated values, and code that can panic returns an
  outcome with a constructor for panics. \<^verbatim>\<open>BTreeMap\<close> and \<^verbatim>\<open>BTreeSet\<close> are ascending lists, \<^verbatim>\<open>u32\<close> and
  \<^verbatim>\<open>u64\<close> are words. Code that changes files takes a record of the files it sees and returns the
  record it leaves. Code outside the repository (the ostree and composefs libraries, the image
  proxy, the kernel command line parser, SELinux, version comparison of the Boot Loader
  Specification, user databases) enters as fields of environment records, with what is relied on
  stated as hypotheses or locales and shown satisfiable by concrete instances.

  \<^bold>\<open>Foundations.\<close>
  \<^item> \<^verbatim>\<open>Rust_Prelude\<close>, \<^verbatim>\<open>Rust_Collections\<close>, \<^verbatim>\<open>Rust_Path\<close>, \<^verbatim>\<open>Rust_Word\<close>, \<^verbatim>\<open>Rust_State\<close>: results, strings,
    ordered maps, sorting, paths, machine integers, and operations on a state with the locale
    \<^verbatim>\<open>state_order\<close> for what they keep of it. The locales \<^verbatim>\<open>codec\<close>, \<^verbatim>\<open>stateful\<close>, \<^verbatim>\<open>ordered_map\<close> and
    \<^verbatim>\<open>comparator\<close> are the interfaces the components instantiate.

  \<^bold>\<open>Containers and ostree.\<close>
  \<^item> \<^verbatim>\<open>Ref_Escape\<close> (\<^verbatim>\<open>ostree-ext/src/refescape.rs\<close>): escaping strings into ostree refs. Round trip, and
    escaped names are valid refs.
  \<^item> \<^verbatim>\<open>Chunking\<close>, \<^verbatim>\<open>Chunk_Objects\<close> (\<^verbatim>\<open>chunking.rs\<close>, \<^verbatim>\<open>statistics.rs\<close>, \<^verbatim>\<open>objectsource.rs\<close>): packing
    components into a bounded number of layers, and the walk over a commit that assigns objects to
    layers. Termination, exact partition of the components, conservation of objects, and the
    inputs on which packing panics. Floating point is a parameter.
  \<^item> \<^verbatim>\<open>Image_Ref\<close> (\<^verbatim>\<open>container/mod.rs\<close>, \<^verbatim>\<open>lib/src/spec.rs\<close>): image references and manifest differences.
  \<^item> \<^verbatim>\<open>Host_Spec\<close> (\<^verbatim>\<open>lib/src/spec.rs\<close>, \<^verbatim>\<open>status.rs\<close>): the host specification, its transitions, and the
    status of an ostree host, which lists every deployment once.

  \<^bold>\<open>The composefs backend.\<close>
  \<^item> \<^verbatim>\<open>BLS_Config\<close>, \<^verbatim>\<open>Grub_Menu\<close> (\<^verbatim>\<open>lib/src/parsers\<close>), \<^verbatim>\<open>Boot_Names\<close> (\<^verbatim>\<open>bootc_composefs/boot.rs\<close>): boot
    entries, their parsers, printers and order, and the names of artifacts. Round trips and sorting.
  \<^item> \<^verbatim>\<open>Boot_Dir\<close> (\<^verbatim>\<open>status.rs\<close>, \<^verbatim>\<open>rollback.rs\<close>, \<^verbatim>\<open>delete.rs\<close>): the boot directory as a state; listing in menu
    order, rollback as an exchange of directories, deletion of entries.
  \<^item> \<^verbatim>\<open>Cfs_Status\<close>, \<^verbatim>\<open>Cfs_GC\<close>, \<^verbatim>\<open>Cfs_Delete\<close> (\<^verbatim>\<open>status.rs\<close>, \<^verbatim>\<open>gc.rs\<close>, \<^verbatim>\<open>delete.rs\<close>): the reported status, garbage
    collection and the deletion of a deployment. What is referenced survives, also when a
    collection fails midway; a dry run changes nothing.
  \<^item> this theory: a rollback toggles what the status reports about a queued one, with two entries and a bootloader that orders
    them by sort keys.

  \<^bold>\<open>Files of the host.\<close>
  \<^item> \<^verbatim>\<open>Etc_Merge\<close> (\<^verbatim>\<open>etc-merge/src/lib.rs\<close>): the three-way difference and the merge of \<^verbatim>\<open>/etc\<close>.
  \<^item> \<^verbatim>\<open>Name_Service\<close>, \<^verbatim>\<open>Sysusers\<close>, \<^verbatim>\<open>Sysusers_Cleanup\<close> (\<^verbatim>\<open>sysusers/src\<close>, \<^verbatim>\<open>lib/src/sysusers_cleanup.rs\<close>): the
    name service files as instances of one line format, sysusers.d entries, the analysis of missing
    definitions, and the cleanup of shadow files as a refinement of its specification on entries.
  \<^item> \<^verbatim>\<open>Tmpfiles\<close>, \<^verbatim>\<open>Tmpfiles_Walk\<close> (\<^verbatim>\<open>tmpfiles/src\<close>): tmpfiles.d lines and the conversion of \<^verbatim>\<open>/var\<close>, which
    loses no directory and no link.

  \<^bold>\<open>Kernel arguments.\<close>
  \<^item> \<^verbatim>\<open>Kargs\<close> (\<^verbatim>\<open>lib/src/bootc_kargs.rs\<close>): the arguments an image lists in kargs.d, and what an update does to
    the arguments of a deployment, over the locale \<^verbatim>\<open>kernel_cmdline\<close> for the command line library.
  \<^item> \<^verbatim>\<open>Loader_Entries\<close> (\<^verbatim>\<open>lib/src/loader_entries.rs\<close>): arguments by source, recorded in boot entries; setting
    those of one source leaves the record of the others.

  \<^bold>\<open>From a commit to an image and back.\<close>
  \<^item> \<^verbatim>\<open>Tar_Stream\<close>, \<^verbatim>\<open>Tar_Export\<close>, \<^verbatim>\<open>Tar_Import\<close> (\<^verbatim>\<open>ostree-ext/src/tar/export.rs\<close>, \<^verbatim>\<open>import.rs\<close>): tar entries as
    records, an ostree repository as maps from checksums to objects, the writer and the importer as
    states. What ostree computes (checksums, variants, signatures) is the record \<^verbatim>\<open>ostree_ops\<close>.
  \<^item> \<^verbatim>\<open>Tar_Roundtrip\<close>: a stream is a sequence of blocks, one for each object; exporting a commit and
    importing the stream is lossless but for the tree below \<^verbatim>\<open>sysroot\<close>.
  \<^item> \<^verbatim>\<open>Tar_Layers\<close>: the same for chunks, and hard links of a stream always find their target.
  \<^item> \<^verbatim>\<open>Encapsulate\<close> (\<^verbatim>\<open>container/encapsulate.rs\<close>, \<^verbatim>\<open>container/store.rs\<close>): layers, manifest layout, cached layers;
    an encapsulated commit is recovered from the image, but for the tree below \<^verbatim>\<open>sysroot\<close>.
  \<^item> \<^verbatim>\<open>Image_Store\<close> (\<^verbatim>\<open>container/store.rs\<close>): stored images as refs to commits with metadata; queries, the cached
    pending update, the decision of an import, removal, and the collection of layers, which leaves
    every stored image as it was, also when removing a ref fails.
  \<^item> \<^verbatim>\<open>Tar_Filter\<close> (\<^verbatim>\<open>tar/write.rs\<close>): what of a container layer reaches the commit, and where. On layers without
    content of the embedded repository the filter is equal to a declarative specification; it keeps hard links intact but for those into a
    moved \<^verbatim>\<open>var\<close> and absolute ones into the repository.

  \<^bold>\<open>Installation.\<close>
  \<^item> \<^verbatim>\<open>Install_Config\<close> (\<^verbatim>\<open>lib/src/install/config.rs\<close>): the drop-in files of the installer. The locale \<^verbatim>\<open>merge_hom\<close>
    carries what one merge does to a field over to a sequence of them; it is interpreted for every
    field, and the loaded configuration is the one its specification \<^verbatim>\<open>config_of\<close> describes.
  \<^item> \<^verbatim>\<open>Block_Dev\<close> (\<^verbatim>\<open>blockdev/src/blockdev.rs\<close>): the tree of block devices; the search for the EFI system
    partition against reachability through partition tables, the disks behind a device, sizes.
  \<^item> \<^verbatim>\<open>Install_Disk\<close> (\<^verbatim>\<open>lib/src/install/baseline.rs\<close>, \<^verbatim>\<open>mount/src/mount.rs\<close>): partitioning and the root setup, with
    the commands run so far as the state. A refused target is untouched, partition numbers agree with the
    table written, and the result describes the exact commands run.
  \<^item> \<^verbatim>\<open>Lints\<close> (\<^verbatim>\<open>lib/src/lints.rs\<close>, \<^verbatim>\<open>ostree-ext/src/ostree_prepareroot.rs\<close>): the lints of an image and their runner.
    Linting succeeds exactly when each selected lint, run on its own, accepts the image and its tree can be walked.
  \<^item> \<^verbatim>\<open>Bound_Images\<close> (\<^verbatim>\<open>lib/src/boundimage.rs\<close>, \<^verbatim>\<open>lib/src/podstorage.rs\<close>): the images a root asks for, pulled into the
    store of bootc and kept when it is pruned, over the locale \<^verbatim>\<open>podman_store\<close>.
  \<^item> \<^verbatim>\<open>Deploy\<close> (\<^verbatim>\<open>lib/src/deploy.rs\<close>): staging, cleanup, rollback and the edit of \<^verbatim>\<open>/etc/fstab\<close> on hosts with ostree deployments, over
    the locales \<^verbatim>\<open>sysroot_writes\<close> and \<^verbatim>\<open>staging\<close>; rolling back is a toggle on the status of \<^verbatim>\<open>Host_Spec\<close> when images are known, no
    deployment is staged without its bound images when these are named as podman lists them, and pulls are retried a bounded number of times.
  \<^bold>\<open>Bounds and termination.\<close> All definitions are total functions but the GRUB menu parser and what
  calls it, which return an optional outcome because the parser can loop; \<^verbatim>\<open>Cfs_Delete\<close> shows that
  with bootloaders that do not use that parser the collection has an outcome in the model. The walks over a commit in
  \<^verbatim>\<open>Chunk_Objects\<close> and \<^verbatim>\<open>Tar_Export\<close> take a bound on the depth of the tree, because nothing in a model of a
  repository excludes cycles; the result is None only when the bound is too small, and \<^verbatim>\<open>commit_ok\<close> says
  when it is enough. Loops over lists are structural, the others have a measure on the length of the
  remaining input.

  \<^bold>\<open>Not modelled.\<close> Mounting, what subprocesses do, network and progress output; the command line and the
  driver of the installation (\<^verbatim>\<open>cli.rs\<close>, most of \<^verbatim>\<open>install.rs\<close>), which call the operations above and
  external programs; the unified pull and progress reports of \<^verbatim>\<open>deploy.rs\<close>;
  setting up the containers storage and the initramfs; async scheduling, since each operation is
  awaited before the next; file system errors other than those named in the theories; build and
  test tooling (\<^verbatim>\<open>xtask\<close>, \<^verbatim>\<open>tests-integration\<close>).
\<close>

section \<open>Rolling back and the reported status\<close>

text \<open>Whether an entry boots the deployment with a digest, if that can be told.\<close>

definition boots :: "boot_env \<Rightarrow> string \<Rightarrow> bls_config \<Rightarrow> bool option" where
  "boots E digest c =
     (case bls_cfg_type c of
        EFI key \<Rightarrow> Some (str_contains digest (efi_path key))
      | NonEFI _ _ options \<Rightarrow> map_option (\<lambda>opts. env_cmdline_contains E opts digest) options
      | Unknown \<Rightarrow> None)"

lemma menu_state_boots:
  assumes "se_bootloader V = bl" and "bootloader_kind_of bl = Inr BLSCompatible"
    and "get_sorted_type1_boot_entries (se_boot V) bl d True = Inr (c\<lparr>bls_sort_key := k\<rparr> # cs)"
    and "boots (se_boot V) g c = Some b"
  shows "menu_state V d g bl ty = Some (Inr (\<not> b, Some (c\<lparr>bls_sort_key := k\<rparr> # cs), None))"
proof -
  have "rollback_queued_from_first_entry (se_boot V) (c\<lparr>bls_sort_key := k\<rparr>) g = Inr (\<not> b)"
    using assms(4) by (auto simp: boots_def rollback_queued_from_first_entry_def split: bls_config_type.splits)
  with assms(1-3) show ?thesis by (simp add: menu_state_def lift_res_def first_entry_def)
qed

text \<open>
  C28. The status agrees with rollback, for a bootloader with Type1 entries other than classic GRUB (systemd-boot, or another one
  when both entries have the same version) and two entries, exactly one of which boots the running
  deployment: a rollback is reported as queued exactly when that entry is not the first in the menu; a rollback
  makes the status report the opposite, so a queued rollback is taken back; and a second rollback makes it
  report what it did at first. The entries can be printed with either sort key, and staged entries can be dropped.
\<close>

theorem rollback_toggles_status:
  assumes "entries d = Some files" and "read_configs files = Inr [x, y]"
    and "se_bootloader V = bl" and "bootloader_kind_of bl = Inr BLSCompatible"
    and "menu_cmp (se_boot V) bl True x y \<noteq> Equal"
    and "get_sorted_type1_boot_entries (se_boot V) bl d True = Inr [p, s]"
    and "bl = Systemd \<or> env_vfmt (se_boot V) (bls_version p) = env_vfmt (se_boot V) (bls_version s)"
    and "\<forall>c \<in> {p, s}. \<forall>k \<in> {primary_sort_key ''bootc'', secondary_sort_key ''bootc''}.
           printable (se_boot V) (c\<lparr>bls_sort_key := Some k\<rparr>)"
    and "staged_droppable h sf" and "staged_droppable h2 sf2"
    and "boots (se_boot V) booted_digest p = Some first" and "boots (se_boot V) booted_digest s = Some (\<not> first)"
  shows "\<exists>m d1 sf1 m1 d2 sf3 m2. menu_state V d booted_digest bl ty = Some (Inr (\<not> first, m))
    \<and> rollback_composefs_entries (se_boot V) bl h sf d = Inr (d1, sf1)
    \<and> menu_state V d1 booted_digest bl ty = Some (Inr (first, m1))
    \<and> rollback_composefs_entries (se_boot V) bl h2 sf2 d1 = Inr (d2, sf3)
    \<and> menu_state V d2 booted_digest bl ty = Some (Inr (\<not> first, m2))"
proof -
  have bl: "bl \<noteq> BootloaderNone" using assms(4) by auto
  obtain d1 sf1 d2 sf3 where d1: "rollback_composefs_entries (se_boot V) bl h sf d = Inr (d1, sf1)"
    and m1: "get_sorted_type1_boot_entries (se_boot V) bl d1 True =
        Inr [s\<lparr>bls_sort_key := Some (primary_sort_key ''bootc'')\<rparr>,
             p\<lparr>bls_sort_key := Some (secondary_sort_key ''bootc'')\<rparr>]"
    and d2: "rollback_composefs_entries (se_boot V) bl h2 sf2 d1 = Inr (d2, sf3)"
    and m2: "get_sorted_type1_boot_entries (se_boot V) bl d2 True =
        Inr [p\<lparr>bls_sort_key := Some (primary_sort_key ''bootc'')\<rparr>,
             s\<lparr>bls_sort_key := Some (secondary_sort_key ''bootc'')\<rparr>]"
    by (rule rollback_twice [OF assms(1,2) bl assms(5-10)])
  have m0: "get_sorted_type1_boot_entries (se_boot V) bl d True = Inr (p\<lparr>bls_sort_key := bls_sort_key p\<rparr> # [s])"
    using assms(6) by simp
  note st = menu_state_boots [OF assms(3,4)]
  from st [OF m0 assms(11), of ty] st [OF m1 assms(12), of ty] st [OF m2 assms(11), of ty] d1 d2 show ?thesis
    by (simp only: not_not) blast
qed

theorem rollback_toggles_status_witness:
  "\<exists>m d1 sf1 m1. menu_state demo_status_env (st_boot demo_storage) ''ab'' Systemd UkiBoot = Some (Inr (False, m))
    \<and> rollback_composefs_entries demo_env Systemd demo_host False (st_boot demo_storage) = Inr (d1, sf1)
    \<and> menu_state demo_status_env d1 ''ab'' Systemd UkiBoot = Some (Inr (True, m1))"
proof -
  let ?p = "primary_sort_key ''bootc''" and ?s = "secondary_sort_key ''bootc''"
  have e: "se_boot demo_status_env = demo_env" "se_bootloader demo_status_env = Systemd"
    by (simp_all add: demo_status_env_def)
  obtain files where files: "entries (st_boot demo_storage) = Some files" "read_configs files =
      Inr [(demo_new ?p, type1_entry_conf_file_name ''bootc'' ''42'' FILENAME_PRIORITY_PRIMARY),
           (demo_old ?s, type1_entry_conf_file_name ''bootc'' ''41'' FILENAME_PRIORITY_SECONDARY)]"
    using demo_read [of "demo_new ?p" "demo_old ?s"] by (auto simp: demo_storage_def)
  have less: "menu_cmp demo_env Systemd True (demo_new ?p, n) (demo_old ?s, m) \<noteq> Equal" for n m
    using sort_keys_less [of "''bootc''"] sort_keys_neq [of "''bootc''"]
    by (simp add: menu_cmp_def bls_cmp_def opt_cmp_def)
  have drop: "staged_droppable demo_host False"
    by (simp add: staged_droppable_def demo_host_def)
  have b: "boots demo_env ''ab'' (demo_new ?p) = Some True" "boots demo_env ''ab'' (demo_old ?s) = Some (\<not> True)"
    by (simp_all add: boots_def demo_entry_def starts_with_def)
  have kind: "bootloader_kind_of Systemd = Inr BLSCompatible" by simp
  have pr: "\<forall>c \<in> {demo_new ?p, demo_old ?s}. \<forall>k \<in> {?p, ?s}. printable demo_env (c\<lparr>bls_sort_key := Some k\<rparr>)"
    by simp
  show ?thesis
    using rollback_toggles_status [OF files e(2) kind, unfolded e(1), OF less demo_sorted_systemd _ pr drop drop b, of UkiBoot]
    by simp blast
qed

end
